(* ===== verification/Enums.thy ===== *)
theory Enums
  imports Main
begin

text \<open>
  The database enums of \<open>db/models/enums.py\<close>, one datatype per class with the members in the
  source's order. Two classes may use the same member name, so the members carry a short
  prefix; \<open>DONE\<close> and its kin would otherwise name two constructors.
\<close>

datatype submission_status =
    PENDING
  | VALIDATING
  | VALIDATION_FAILED
  | TESTING
  | TEST_FAILED
  | AWAITING_AI_REVIEW
  | AI_REVIEWING
  | AI_REVIEW_FAILED
  | AWAITING_TEACHER_REVIEW
  | QUIZ_SENT
  | COMPLETED
  | FAILED

datatype submission_source_type = ZIP_UPLOAD | QUIZ_ONLY

datatype outbox_message_state = Outbox_PENDING | Outbox_FINISHED | Outbox_ERROR

datatype outbox_event_type =
    SEND_CREDENTIALS
  | SUBMISSION_REVIEWED
  | QUIZ_RESULT
  | DEADLINE_REMINDER
  | NEW_SUBMISSION
  | RUN_CHECKS
  | RUN_AI_REVIEW
  | FEEDBACK_REQUEST_SENT
  | QUIZ_DISPUTE_RESOLVED

datatype notification_case = Case_SUBMISSION_CHECKED | Case_FEEDBACK_REQUEST | Case_DEADLINE_REMINDER

datatype subject_status = Subject_ACTIVE | Subject_DELETED

datatype google_connection_status = Connection_ACTIVE | Connection_ERROR

datatype classroom_sync_status = Sync_RUNNING | Sync_DONE | Sync_FAILED

datatype user_role = TEACHER | STUDENT | ADMIN

datatype quiz_attempt_status =
    Attempt_IN_PROGRESS
  | Attempt_COMPLETED
  | Attempt_TIMED_OUT
  | Attempt_VIOLATION_FAIL

datatype quiz_dispute_status = Dispute_OPEN | Dispute_ACCEPTED | Dispute_REJECTED

datatype squad_invite_status =
    Invite_PENDING
  | Invite_ACCEPTED
  | Invite_DECLINED
  | Invite_CANCELLED

datatype entity_type = REAL | TEST

datatype quiz_event_outcome =
    APPLIED
  | INFORMATIONAL
  | IGNORED_PAUSED
  | IGNORED_NOT_IN_PROGRESS
  | IGNORED_TYPE_CAP

datatype classroom_link_method = Link_EMAIL | Link_NAME | Link_MANUAL | Link_IGNORED | Link_NONE

datatype llm_grading_status =
    Grading_WAITING_LINK
  | Grading_PENDING
  | Grading_RUNNING
  | Grading_DONE
  | Grading_FAILED
  | Grading_SUPERSEDED

text \<open>The finished attempt states, \<open>_TERMINAL\<close> in \<open>squads.py\<close> and \<open>quiz_grants.py\<close> and
  \<open>_TERMINAL_STATUSES\<close> in \<open>student_quiz.py\<close>.\<close>

definition terminal_attempt_statuses :: "quiz_attempt_status list" where
  "terminal_attempt_statuses = [Attempt_COMPLETED, Attempt_TIMED_OUT, Attempt_VIOLATION_FAIL]"

lemma terminal_attempt_iff [simp]:
  "s \<in> set terminal_attempt_statuses \<longleftrightarrow> s \<noteq> Attempt_IN_PROGRESS"
  by (cases s) (auto simp: terminal_attempt_statuses_def)

end
