(* ===== verification/Prelude.thy ===== *)
theory Prelude
  imports Complex_Main "HOL-Library.AList" "HOL-Library.List_Lexorder" "HOL-Library.Char_ord"
    "HOL-Library.Multiset"
begin

text \<open>
  Shared ground of the development: results of fallible operations as sums, Python's rounding
  functions on exact rationals, rows of a table keyed by an integer id, and the interface
  \<open>row_store\<close> through which every component reads and writes the tables.

  Conventions used by all theories:
  \<^item> an exception is the left summand of \<open>'e + 'a\<close>;
  \<^item> a Python float is the rational it denotes, and arithmetic on floats is exact;
  \<^item> an instant is an integer count of microseconds, the resolution of \<open>datetime\<close>;
  \<^item> a table is the list of its rows in insertion order.
\<close>

named_theorems row_simps \<open>reading a row after a write\<close>
named_theorems inv_intros \<open>preservation of well-formedness\<close>

section \<open>Results\<close>

definition bind_result :: "'e + 'a \<Rightarrow> ('a \<Rightarrow> 'e + 'b) \<Rightarrow> 'e + 'b" where
  "bind_result r f = (case r of Inl e \<Rightarrow> Inl e | Inr x \<Rightarrow> f x)"

lemma bind_result_simps [simp]:
  "bind_result (Inl e) f = Inl e"
  "bind_result (Inr x) f = f x"
  by (simp_all add: bind_result_def)

lemma bind_result_eq_Inr:
  "bind_result r f = Inr y \<longleftrightarrow> (\<exists>x. r = Inr x \<and> f x = Inr y)"
  by (cases r) auto

lemma bind_result_eq_Inl:
  "bind_result r f = Inl e \<longleftrightarrow> r = Inl e \<or> (\<exists>x. r = Inr x \<and> f x = Inl e)"
  by (cases r) auto

lemma map_sum_eq_Inr: "map_sum g f r = Inr y \<longleftrightarrow> (\<exists>x. r = Inr x \<and> f x = y)"
  by (cases r) auto

text \<open>Apply a fallible function to every element, stopping at the first error.\<close>

fun map_result :: "('a \<Rightarrow> 'e + 'b) \<Rightarrow> 'a list \<Rightarrow> 'e + 'b list" where
  "map_result f [] = Inr []"
| "map_result f (x # xs) =
     bind_result (f x) (\<lambda>y. bind_result (map_result f xs) (\<lambda>ys. Inr (y # ys)))"

lemma map_result_Inr_iff:
  "map_result f xs = Inr ys \<longleftrightarrow> list_all2 (\<lambda>x y. f x = Inr y) xs ys"
proof (induction xs arbitrary: ys)
  case Nil
  then show ?case by auto
next
  case (Cons x xs)
  then show ?case by (auto simp: bind_result_eq_Inr list_all2_Cons1)
qed

lemma map_result_length: "map_result f xs = Inr ys \<Longrightarrow> length ys = length xs"
  by (simp add: map_result_Inr_iff list_all2_lengthD)

lemma map_result_total: "(\<And>x. x \<in> set xs \<Longrightarrow> f x = Inr (g x)) \<Longrightarrow> map_result f xs = Inr (map g xs)"
  by (induction xs) auto

section \<open>Python's rounding on exact rationals\<close>

text \<open>\<open>round(x)\<close>: nearest integer, ties to the even neighbour.\<close>

definition py_round :: "rat \<Rightarrow> int" where
  "py_round x =
     (let f = \<lfloor>x\<rfloor>; d = x - of_int f in
      if d < 1 / 2 then f else if d > 1 / 2 then f + 1 else if even f then f else f + 1)"

text \<open>\<open>round(x, n)\<close>: the same at the \<open>n\<close>-th decimal digit.\<close>

definition py_round_digits :: "nat \<Rightarrow> rat \<Rightarrow> rat" where
  "py_round_digits n x = of_int (py_round (x * 10 ^ n)) / 10 ^ n"

text \<open>\<open>int(x)\<close> on a float truncates towards zero.\<close>

definition py_trunc :: "rat \<Rightarrow> int" where
  "py_trunc x = (if 0 \<le> x then \<lfloor>x\<rfloor> else \<lceil>x\<rceil>)"

text \<open>\<open>Decimal.quantize(Decimal(1), ROUND_HALF_UP)\<close>: ties away from zero.\<close>

definition round_half_up :: "rat \<Rightarrow> int" where
  "round_half_up x = (if 0 \<le> x then \<lfloor>x + 1 / 2\<rfloor> else - \<lfloor>1 / 2 - x\<rfloor>)"

lemma py_round_of_int [simp]: "py_round (of_int n) = n"
  by (simp add: py_round_def)

lemma py_round_cases: "py_round x = \<lfloor>x\<rfloor> \<or> py_round x = \<lfloor>x\<rfloor> + 1"
  by (simp add: py_round_def Let_def)

lemma py_round_near: "\<bar>of_int (py_round x) - x\<bar> \<le> 1 / 2"
proof -
  have "of_int \<lfloor>x\<rfloor> \<le> x" "x < of_int \<lfloor>x\<rfloor> + 1" by linarith+
  then show ?thesis unfolding py_round_def Let_def by (auto simp: abs_le_iff)
qed

lemma py_round_mono:
  assumes "x \<le> y"
  shows "py_round x \<le> py_round y"
proof (cases "\<lfloor>x\<rfloor> = \<lfloor>y\<rfloor>")
  case True
  with assms show ?thesis by (simp add: py_round_def Let_def)
next
  case False
  with assms have "\<lfloor>x\<rfloor> + 1 \<le> \<lfloor>y\<rfloor>" by (metis floor_mono order_le_less zless_imp_add1_zle)
  then show ?thesis using py_round_cases [of x] py_round_cases [of y] by linarith
qed

lemma py_round_le: "x \<le> of_int n \<Longrightarrow> py_round x \<le> n"
  using py_round_mono [of x "of_int n"] by simp

lemma le_py_round: "of_int n \<le> x \<Longrightarrow> n \<le> py_round x"
  using py_round_mono [of "of_int n" x] by simp

lemma py_round_digits_mono: "x \<le> y \<Longrightarrow> py_round_digits n x \<le> py_round_digits n y"
  by (simp add: py_round_digits_def divide_right_mono py_round_mono mult_right_mono)

lemma py_round_digits_of_int [simp]: "py_round_digits n (of_int k) = of_int k"
proof -
  have "(of_int k :: rat) * 10 ^ n = of_int (k * 10 ^ n)" by simp
  then show ?thesis unfolding py_round_digits_def by (simp only: py_round_of_int) simp
qed

lemma py_round_digits_near: "\<bar>py_round_digits n x - x\<bar> \<le> 1 / (2 * 10 ^ n)"
proof -
  have "\<bar>of_int (py_round (x * 10 ^ n)) - x * 10 ^ n\<bar> \<le> 1 / 2" by (rule py_round_near)
  then have "\<bar>of_int (py_round (x * 10 ^ n)) - x * 10 ^ n\<bar> / 10 ^ n \<le> (1 / 2) / 10 ^ n"
    by (rule divide_right_mono) simp
  moreover have "\<bar>of_int (py_round (x * 10 ^ n)) - x * 10 ^ n\<bar> / 10 ^ n = \<bar>py_round_digits n x - x\<bar>"
  proof -
    have "\<bar>py_round_digits n x - x\<bar> = \<bar>(of_int (py_round (x * 10 ^ n)) - x * 10 ^ n) / 10 ^ n\<bar>"
      by (simp add: py_round_digits_def diff_divide_distrib)
    also have "\<dots> = \<bar>of_int (py_round (x * 10 ^ n)) - x * 10 ^ n\<bar> / 10 ^ n"
      by (simp only: abs_divide) simp
    finally show ?thesis by (rule sym)
  qed
  ultimately show ?thesis by simp
qed

lemma py_trunc_of_int [simp]: "py_trunc (of_int n) = n"
  by (simp add: py_trunc_def)

lemma py_trunc_mono: "x \<le> y \<Longrightarrow> py_trunc x \<le> py_trunc y"
  unfolding py_trunc_def
  by (auto simp: floor_mono ceiling_mono) (metis ceiling_less_iff floor_less_iff le_cases
      less_le_trans not_le of_int_0 order.trans zero_le_floor ceiling_le_zero)

lemma round_half_up_of_int [simp]: "round_half_up (of_int n) = n"
proof -
  have "\<lfloor>1 / 2 - of_int n :: rat\<rfloor> = - n" by (simp add: floor_eq_iff)
  then show ?thesis by (simp add: round_half_up_def floor_eq_iff)
qed

lemma round_half_up_nonneg_mono: "0 \<le> x \<Longrightarrow> x \<le> y \<Longrightarrow> round_half_up x \<le> round_half_up y"
  by (simp add: round_half_up_def floor_mono)

section \<open>Stable sorting by a key\<close>

text \<open>
  \<open>sorted(xs, key=f)\<close> and \<open>xs.sort(key=f)\<close> are stable, as the library's \<open>sort_key\<close>; with
  \<open>reverse=True\<close> Python keeps equal elements in their order and reverses the key's order.
\<close>

definition sort_key_desc :: "('a \<Rightarrow> rat) \<Rightarrow> 'a list \<Rightarrow> 'a list" where
  "sort_key_desc f xs = sort_key (\<lambda>x. - f x) xs"

lemma mset_sort_key_desc [simp]: "mset (sort_key_desc f xs) = mset xs"
  by (simp add: sort_key_desc_def)

lemma set_sort_key_desc [simp]: "set (sort_key_desc f xs) = set xs"
  by (simp add: sort_key_desc_def)

lemma sorted_sort_key_desc: "sorted_wrt (\<lambda>x y. f y \<le> f x) (sort_key_desc f xs)"
proof -
  have "sorted (map (\<lambda>x. - f x) (sort_key_desc f xs))"
    by (simp add: sort_key_desc_def)
  then show ?thesis by (simp add: sorted_wrt_map)
qed

section \<open>Sums over lists\<close>

lemma sum_list_nonneg_int: "(\<And>x. x \<in> set xs \<Longrightarrow> (0::int) \<le> f x) \<Longrightarrow> 0 \<le> sum_list (map f xs)"
  by (induction xs) auto

lemma sum_list_mono_int:
  "(\<And>x. x \<in> set xs \<Longrightarrow> (f x :: int) \<le> g x) \<Longrightarrow> sum_list (map f xs) \<le> sum_list (map g xs)"
  by (induction xs) (auto intro: add_mono)

section \<open>Keys of a list\<close>

lemma image_memI: "x \<in> A \<Longrightarrow> f x = k \<Longrightarrow> k \<in> f ` A"
  by blast

lemma not_image_memD: "k \<notin> f ` A \<Longrightarrow> x \<in> A \<Longrightarrow> f x = k \<Longrightarrow> False"
  by blast

section \<open>Rows keyed by id\<close>

definition get_row :: "('r \<Rightarrow> int) \<Rightarrow> int \<Rightarrow> 'r list \<Rightarrow> 'r option" where
  "get_row key i t = find (\<lambda>r. key r = i) t"

definition upd_row :: "('r \<Rightarrow> int) \<Rightarrow> int \<Rightarrow> ('r \<Rightarrow> 'r) \<Rightarrow> 'r list \<Rightarrow> 'r list" where
  "upd_row key i f t = map (\<lambda>r. if key r = i then f r else r) t"

text \<open>
  What a component may rely on when it reads and writes rows: a lookup finds the row with the
  id asked for, and a write to one row changes that row and no other.
\<close>

locale row_store =
  fixes get :: "int \<Rightarrow> 't \<Rightarrow> 'r option"
    and put :: "int \<Rightarrow> ('r \<Rightarrow> 'r) \<Rightarrow> 't \<Rightarrow> 't"
    and key :: "'r \<Rightarrow> int"
  assumes get_key: "get i t = Some r \<Longrightarrow> key r = i"
    and get_put: "(\<And>r. key (f r) = key r) \<Longrightarrow>
      get j (put i f t) = (if i = j then map_option f (get j t) else get j t)"
begin

lemma get_put_same: "(\<And>r. key (f r) = key r) \<Longrightarrow> get i t = Some r \<Longrightarrow> get i (put i f t) = Some (f r)"
  by (simp add: get_put)

lemma get_put_other: "(\<And>r. key (f r) = key r) \<Longrightarrow> i \<noteq> j \<Longrightarrow> get j (put i f t) = get j t"
  by (simp add: get_put)

lemma get_put_None_iff: "(\<And>r. key (f r) = key r) \<Longrightarrow> get j (put i f t) = None \<longleftrightarrow> get j t = None"
  by (simp add: get_put)

lemma get_put_put:
  "(\<And>r. key (f r) = key r) \<Longrightarrow> (\<And>r. key (g r) = key r) \<Longrightarrow>
     get j (put i g (put i f t)) = get j (put i (\<lambda>r. g (f r)) t)"
  by (simp add: get_put option.map_comp comp_def)

end

text \<open>
  The contract of a part that changes the state: whatever request it serves, the invariant holds
  again afterwards. Then it holds after any sequence of requests.
\<close>

locale invariant_service =
  fixes good :: "'s \<Rightarrow> bool"
    and serve :: "'req \<Rightarrow> 's \<Rightarrow> 's"
  assumes serve_good: "good s \<Longrightarrow> good (serve r s)"
begin

lemma run_good: "good s \<Longrightarrow> good (fold serve rs s)"
  by (induction rs arbitrary: s) (auto intro: serve_good)

lemma run_good_everywhere: "good s \<Longrightarrow> rs = ps @ qs \<Longrightarrow> good (fold serve ps s)"
  by (simp add: run_good)

end

lemma get_row_Nil [simp]: "get_row key i [] = None"
  by (simp add: get_row_def)

lemma get_row_Cons [simp]:
  "get_row key i (r # t) = (if key r = i then Some r else get_row key i t)"
  by (simp add: get_row_def)

lemma get_row_Some: "get_row key i t = Some r \<Longrightarrow> key r = i \<and> r \<in> set t"
  by (induction t) (auto split: if_splits)

lemma get_row_None: "get_row key i t = None \<longleftrightarrow> (\<forall>r \<in> set t. key r \<noteq> i)"
  by (induction t) auto

lemma get_row_append [simp]:
  "get_row key i (s @ t) = (case get_row key i s of Some r \<Rightarrow> Some r | None \<Rightarrow> get_row key i t)"
  by (induction s) auto

lemma get_row_upd_row:
  "(\<And>r. key (f r) = key r) \<Longrightarrow>
     get_row key j (upd_row key i f t) = (if i = j then map_option f (get_row key j t) else get_row key j t)"
  by (induction t) (auto simp: upd_row_def)

lemma get_row_replace:
  "key x = i \<Longrightarrow>
     get_row key j (upd_row key i (\<lambda>_. x) t) = (if i = j then map_option (\<lambda>_. x) (get_row key j t) else get_row key j t)"
  by (induction t) (auto simp: upd_row_def)

lemma map_upd_row_replace:
  "key x = i \<Longrightarrow> map key (upd_row key i (\<lambda>_. x) t) = map key t"
  by (induction t) (auto simp: upd_row_def)

lemma row_store_rows: "row_store (get_row key) (upd_row key) key"
  by unfold_locales (auto dest: get_row_Some simp: get_row_upd_row)

lemma length_upd_row [simp]: "length (upd_row key i f t) = length t"
  by (simp add: upd_row_def)

lemma map_upd_row: "(\<And>r. g (f r) = g r) \<Longrightarrow> map g (upd_row key i f t) = map g t"
  by (simp add: upd_row_def)

lemma in_set_upd_row:
  "r \<in> set (upd_row key i f t) \<Longrightarrow> r \<in> set t \<or> (\<exists>r' \<in> set t. key r' = i \<and> r = f r')"
  by (auto simp: upd_row_def split: if_splits)

end
