(* ===== verification/SubmissionState.thy ===== *)
theory SubmissionState
  imports Enums Prelude
begin

text \<open>
  The submission state machine of \<open>core/state_machine.py\<close>: the transition table as written,
  the loop that adds \<open>requeue_checks\<close> to it, and \<open>transition\<close>. A run of events is the
  sequence of \<open>transition\<close> calls a submission goes through; \<open>status_step\<close> is one such call
  whatever its event, and the interface \<open>status_mover\<close> is what every operation that touches a
  submission's status promises: it moves along the table or leaves the status alone.
\<close>

section \<open>The table\<close>

text \<open>The dictionary \<open>_TRANSITIONS\<close> before the loop below it runs.\<close>

fun base_transitions :: "submission_status \<Rightarrow> (string \<times> submission_status) list" where
  "base_transitions PENDING =
     [(''start_validation'', VALIDATING),
      (''quiz_opened'', QUIZ_SENT)]"
| "base_transitions VALIDATING =
     [(''validation_passed'', TESTING),
      (''validation_failed'', VALIDATION_FAILED)]"
| "base_transitions TESTING =
     [(''test_failed'', TEST_FAILED),
      (''test_passed_tests_only'', COMPLETED),
      (''test_passed_ai'', AWAITING_AI_REVIEW),
      (''test_passed_teacher'', AWAITING_TEACHER_REVIEW),
      (''test_passed_quiz'', QUIZ_SENT)]"
| "base_transitions AWAITING_AI_REVIEW =
     [(''start_ai_review'', AI_REVIEWING)]"
| "base_transitions AI_REVIEWING =
     [(''ai_review_done_teacher'', AWAITING_TEACHER_REVIEW),
      (''ai_review_done_completed'', COMPLETED),
      (''ai_review_passed_quiz'', QUIZ_SENT),
      (''ai_review_failed'', AI_REVIEW_FAILED)]"
| "base_transitions AI_REVIEW_FAILED =
     [(''retry_ai_review'', AI_REVIEWING),
      (''ai_review_skip_to_teacher'', AWAITING_TEACHER_REVIEW)]"
| "base_transitions QUIZ_SENT =
     [(''quiz_passed'', COMPLETED),
      (''quiz_passed_teacher'', AWAITING_TEACHER_REVIEW),
      (''quiz_failed'', FAILED),
      (''quiz_attempt_granted'', QUIZ_SENT)]"
| "base_transitions AWAITING_TEACHER_REVIEW =
     [(''teacher_approve'', COMPLETED),
      (''teacher_reject'', FAILED),
      (''teacher_send_quiz'', QUIZ_SENT)]"
| "base_transitions FAILED =
     [(''dispute_regrade_passed'', COMPLETED),
      (''dispute_regrade_passed_teacher'', AWAITING_TEACHER_REVIEW),
      (''quiz_attempt_granted'', QUIZ_SENT)]"
| "base_transitions VALIDATION_FAILED = []"
| "base_transitions TEST_FAILED = []"
| "base_transitions COMPLETED = []"

text \<open>The states the loop adds \<open>requeue_checks\<close> to.\<close>

definition requeue_sources :: "submission_status list" where
  "requeue_sources =
     [VALIDATING, TESTING, AWAITING_AI_REVIEW, AI_REVIEWING, AI_REVIEW_FAILED,
      VALIDATION_FAILED, TEST_FAILED, FAILED, AWAITING_TEACHER_REVIEW]"

definition transitions :: "submission_status \<Rightarrow> (string \<times> submission_status) list" where
  "transitions s =
     base_transitions s @ (if s \<in> set requeue_sources then [(''requeue_checks'', PENDING)] else [])"

datatype transition_error = InvalidTransitionError submission_status string

text \<open>\<open>transition(submission, event)\<close>: the new status, or the exception.\<close>

definition transition :: "submission_status \<Rightarrow> string \<Rightarrow> transition_error + submission_status" where
  "transition s event =
     (case map_of (transitions s) event of
        None \<Rightarrow> Inl (InvalidTransitionError s event)
      | Some s' \<Rightarrow> Inr s')"

lemmas transition_table = transition_def transitions_def requeue_sources_def

text \<open>A sequence of calls, stopping at the first exception.\<close>

fun run_events :: "submission_status \<Rightarrow> string list \<Rightarrow> transition_error + submission_status" where
  "run_events s [] = Inr s"
| "run_events s (e # es) = bind_result (transition s e) (\<lambda>s'. run_events s' es)"

lemma run_events_append:
  "run_events s (es @ fs) = bind_result (run_events s es) (\<lambda>s'. run_events s' fs)"
  by (induction es arbitrary: s) (auto simp: bind_result_def split: sum.splits)

section \<open>Steps and runs\<close>

inductive status_step :: "submission_status \<Rightarrow> submission_status \<Rightarrow> bool" where
  step: "transition s e = Inr s' \<Longrightarrow> status_step s s'"

lemma transition_Inr_iff: "transition s e = Inr s' \<longleftrightarrow> map_of (transitions s) e = Some s'"
  by (auto simp: transition_def split: option.splits)

lemma status_step_iff: "status_step s s' \<longleftrightarrow> s' \<in> snd ` set (transitions s)"
proof
  assume "status_step s s'"
  then obtain e where "map_of (transitions s) e = Some s'"
    by (auto simp: transition_Inr_iff elim: status_step.cases)
  then show "s' \<in> snd ` set (transitions s)" by (force dest: map_of_SomeD)
next
  assume "s' \<in> snd ` set (transitions s)"
  moreover have "distinct (map fst (transitions s))"
    by (cases s) (simp_all add: transitions_def requeue_sources_def)
  ultimately obtain e where "map_of (transitions s) e = Some s'" by auto
  then show "status_step s s'" by (intro status_step.step [of _ e]) (simp add: transition_Inr_iff)
qed

text \<open>Which statuses can follow which, read off the table.\<close>

lemma status_step_table [simp]:
  "status_step PENDING s \<longleftrightarrow> s \<in> {VALIDATING, QUIZ_SENT}"
  "status_step VALIDATING s \<longleftrightarrow> s \<in> {TESTING, VALIDATION_FAILED, PENDING}"
  "status_step TESTING s \<longleftrightarrow>
     s \<in> {TEST_FAILED, COMPLETED, AWAITING_AI_REVIEW, AWAITING_TEACHER_REVIEW, QUIZ_SENT, PENDING}"
  "status_step AWAITING_AI_REVIEW s \<longleftrightarrow> s \<in> {AI_REVIEWING, PENDING}"
  "status_step AI_REVIEWING s \<longleftrightarrow>
     s \<in> {AWAITING_TEACHER_REVIEW, COMPLETED, QUIZ_SENT, AI_REVIEW_FAILED, PENDING}"
  "status_step AI_REVIEW_FAILED s \<longleftrightarrow> s \<in> {AI_REVIEWING, AWAITING_TEACHER_REVIEW, PENDING}"
  "status_step QUIZ_SENT s \<longleftrightarrow> s \<in> {COMPLETED, AWAITING_TEACHER_REVIEW, FAILED, QUIZ_SENT}"
  "status_step AWAITING_TEACHER_REVIEW s \<longleftrightarrow> s \<in> {COMPLETED, FAILED, QUIZ_SENT, PENDING}"
  "status_step FAILED s \<longleftrightarrow> s \<in> {COMPLETED, AWAITING_TEACHER_REVIEW, QUIZ_SENT, PENDING}"
  "status_step VALIDATION_FAILED s \<longleftrightarrow> s = PENDING"
  "status_step TEST_FAILED s \<longleftrightarrow> s = PENDING"
  "\<not> status_step COMPLETED s"
  by (auto simp: status_step_iff transitions_def requeue_sources_def)

text \<open>A trace of statuses, each following from the one before.\<close>

fun status_trace :: "submission_status \<Rightarrow> submission_status list \<Rightarrow> bool" where
  "status_trace s [] = True"
| "status_trace s (t # ts) = (status_step s t \<and> status_trace t ts)"

text \<open>The statuses that only an examined submission can be in: its checks have started or its
  quiz has been sent.\<close>

definition examined :: "submission_status \<Rightarrow> bool" where
  "examined s \<longleftrightarrow> s \<in> {TESTING, QUIZ_SENT}"

definition needs_exam :: "submission_status \<Rightarrow> bool" where
  "needs_exam s \<longleftrightarrow> s \<notin> {PENDING, VALIDATING, VALIDATION_FAILED, TESTING, QUIZ_SENT}"

lemma step_into_needs_exam:
  "status_step s t \<Longrightarrow> needs_exam t \<Longrightarrow> examined s \<or> needs_exam s"
  by (cases s) (auto simp: needs_exam_def examined_def)

lemma trace_needs_exam:
  "status_trace s ts \<Longrightarrow> t \<in> set ts \<Longrightarrow> needs_exam t \<Longrightarrow> \<not> needs_exam s \<Longrightarrow>
     \<exists>u \<in> set (s # ts). examined u"
proof (induction ts arbitrary: s)
  case Nil
  then show ?case by simp
next
  case (Cons u ts)
  show ?case
  proof (cases "needs_exam u")
    case True
    with Cons.prems have "examined s" by (auto dest: step_into_needs_exam)
    then show ?thesis by simp
  next
    case False
    with Cons.prems have "status_trace u ts" "t \<in> set ts" by auto
    with Cons.IH False Cons.prems(3) show ?thesis by auto
  qed
qed

section \<open>The promise of every operation on a status\<close>

text \<open>
  An operation \<open>move\<close> takes whatever it needs (\<open>'a\<close>) and the current status, and returns the
  status it leaves behind; \<open>None\<close> is an exception or a refusal. The one law: the status moves
  along the table or stays.
\<close>

locale status_mover =
  fixes move :: "'a \<Rightarrow> submission_status \<Rightarrow> submission_status option"
  assumes move_steps: "move x s = Some s' \<Longrightarrow> s' = s \<or> status_step s s'"
begin

text \<open>No operation ever reopens a completed submission.\<close>

lemma completed_stays: "move x COMPLETED = Some s' \<Longrightarrow> s' = COMPLETED"
  using move_steps [of x COMPLETED s'] by simp

text \<open>No operation completes a submission nobody examined.\<close>

lemma no_jump_to_completed: "move x s = Some COMPLETED \<Longrightarrow> s \<noteq> COMPLETED \<Longrightarrow> examined s \<or> needs_exam s"
  using move_steps [of x s COMPLETED] by (auto dest: step_into_needs_exam simp: needs_exam_def)

fun moves :: "'a list \<Rightarrow> submission_status \<Rightarrow> submission_status option" where
  "moves [] s = Some s"
| "moves (x # xs) s = (case move x s of None \<Rightarrow> None | Some s' \<Rightarrow> moves xs s')"

lemma moves_reach: "moves xs s = Some s' \<Longrightarrow> status_step\<^sup>*\<^sup>* s s'"
proof (induction xs arbitrary: s)
  case Nil
  then show ?case by simp
next
  case (Cons x xs)
  then obtain t where t: "move x s = Some t" "moves xs t = Some s'" by (auto split: option.splits)
  from move_steps [OF t(1)] have "status_step\<^sup>*\<^sup>* s t" by auto
  with Cons.IH [OF t(2)] show ?case by (rule rtranclp_trans [rotated])
qed

lemma moves_completed: "moves xs COMPLETED = Some s' \<Longrightarrow> s' = COMPLETED"
  by (induction xs) (auto split: option.splits dest: completed_stays)

end

definition apply_event :: "string \<Rightarrow> submission_status \<Rightarrow> submission_status option" where
  "apply_event e s = (case transition s e of Inl _ \<Rightarrow> None | Inr s' \<Rightarrow> Some s')"

interpretation event: status_mover apply_event
  by unfold_locales (auto simp: apply_event_def intro: status_step.intros split: sum.splits)

section \<open>Properties\<close>

text \<open>A completed submission is never moved again: every event raises, so no sequence of
  state-machine calls changes the status once it is \<open>COMPLETED\<close>, unless the sequence is empty
  it raises at its first event.\<close>

theorem completed_is_terminal:
  "run_events COMPLETED es = (case es of [] \<Rightarrow> Inr COMPLETED | e # _ \<Rightarrow> Inl (InvalidTransitionError COMPLETED e))"
  by (cases es) (simp_all add: transition_table)

text \<open>Nothing completes unexamined: any run of transitions from \<open>PENDING\<close> that reaches
  \<open>COMPLETED\<close> (or a review state, or \<open>FAILED\<close>) went through \<open>TESTING\<close> or \<open>QUIZ_SENT\<close>.\<close>

theorem completion_requires_exam:
  assumes "status_trace PENDING ts" and "t \<in> set ts" and "needs_exam t"
  shows "TESTING \<in> set ts \<or> QUIZ_SENT \<in> set ts"
proof -
  have "\<exists>u \<in> set (PENDING # ts). examined u"
    using assms by (rule trace_needs_exam) (simp add: needs_exam_def)
  then show ?thesis by (auto simp: examined_def)
qed

theorem completion_requires_exam_witness:
  "TESTING \<in> set [VALIDATING, TESTING, COMPLETED] \<or> QUIZ_SENT \<in> set [VALIDATING, TESTING, COMPLETED]"
  by (rule completion_requires_exam [where t = COMPLETED]) (simp_all add: needs_exam_def)

end
