(* ===== verification/PyValue.thy ===== *)
theory PyValue
  imports Prelude
begin

text \<open>
  Values of the JSON and YAML documents the program stores and reads (\<open>dict[str, Any]\<close>), with
  the Python operations it applies to them: truthiness, \<open>dict.get\<close>, \<open>int()\<close>, \<open>float()\<close>,
  \<open>str.strip\<close>, \<open>isinstance\<close>. A dictionary is its list of items in insertion order with
  distinct keys, so \<open>len\<close>, iteration order and in-place update are Python's.

  A \<open>string\<close> is a list of characters with code points below 256; text beyond that range, and
  the float spellings \<open>inf\<close> and \<open>nan\<close>, have no counterpart here.
\<close>

datatype py_exn = TypeError | ValueError | KeyError | AttributeError | IndexError | OverflowError

datatype json =
    JNull
  | JBool bool
  | JInt int
  | JFloat rat
  | JStr string
  | JList "json list"
  | JObj "(string \<times> json) list"

type_synonym pydict = "(string \<times> json) list"

section \<open>Truth, types and lookup\<close>

fun truthy :: "json \<Rightarrow> bool" where
  "truthy JNull = False"
| "truthy (JBool b) = b"
| "truthy (JInt n) = (n \<noteq> 0)"
| "truthy (JFloat x) = (x \<noteq> 0)"
| "truthy (JStr s) = (s \<noteq> [])"
| "truthy (JList xs) = (xs \<noteq> [])"
| "truthy (JObj d) = (d \<noteq> [])"

text \<open>\<open>d.get(k, default)\<close> on a dictionary.\<close>

definition dget :: "pydict \<Rightarrow> string \<Rightarrow> json \<Rightarrow> json" where
  "dget d k dflt = (case map_of d k of Some v \<Rightarrow> v | None \<Rightarrow> dflt)"

text \<open>\<open>(d.get(k) or {})\<close> followed by a method call on the result: a falsy value is the empty
  dictionary, a truthy value that is no dictionary has no \<open>get\<close>.\<close>

fun or_dict :: "json \<Rightarrow> py_exn + pydict" where
  "or_dict (JObj d) = Inr d"
| "or_dict v = (if truthy v then Inl AttributeError else Inr [])"

text \<open>\<open>v or []\<close> followed by iteration. Iterating a string yields its characters, iterating a
  dictionary its keys.\<close>

fun or_list :: "json \<Rightarrow> py_exn + json list" where
  "or_list (JList xs) = Inr xs"
| "or_list (JObj d) = Inr (map (JStr \<circ> fst) d)"
| "or_list (JStr s) = Inr (map (\<lambda>c. JStr [c]) s)"
| "or_list v = (if truthy v then Inl TypeError else Inr [])"

text \<open>\<open>isinstance(v, int)\<close> holds of booleans too; \<open>isinstance(v, int | float)\<close> as well.\<close>

fun is_number :: "json \<Rightarrow> bool" where
  "is_number (JBool _) = True"
| "is_number (JInt _) = True"
| "is_number (JFloat _) = True"
| "is_number _ = False"

fun number_value :: "json \<Rightarrow> rat" where
  "number_value (JBool b) = (if b then 1 else 0)"
| "number_value (JInt n) = of_int n"
| "number_value (JFloat x) = x"
| "number_value _ = 0"

section \<open>Strings\<close>

definition is_ws :: "char \<Rightarrow> bool" where
  "is_ws c = (of_char c \<in> ({9, 10, 11, 12, 13, 28, 29, 30, 31, 32, 133, 160} :: nat set))"

definition py_strip :: "string \<Rightarrow> string" where
  "py_strip s = rev (dropWhile is_ws (rev (dropWhile is_ws s)))"

definition is_dec_digit :: "char \<Rightarrow> bool" where
  "is_dec_digit c = (48 \<le> (of_char c :: nat) \<and> (of_char c :: nat) \<le> 57)"

text \<open>\<open>str.isdigit\<close> also accepts the superscript digits two, three and one.\<close>

definition is_digit_char :: "char \<Rightarrow> bool" where
  "is_digit_char c = (is_dec_digit c \<or> of_char c \<in> ({178, 179, 185} :: nat set))"

definition py_isdigit :: "string \<Rightarrow> bool" where
  "py_isdigit s = (s \<noteq> [] \<and> list_all is_digit_char s)"

definition digit_val :: "char \<Rightarrow> int" where
  "digit_val c = int (of_char c) - 48"

text \<open>A run of decimal digits with single underscores between digits, most significant first.\<close>

fun digits_value :: "bool \<Rightarrow> int \<Rightarrow> string \<Rightarrow> int option" where
  "digits_value after_digit acc [] = (if after_digit then Some acc else None)"
| "digits_value after_digit acc (c # cs) =
     (if is_dec_digit c then digits_value True (acc * 10 + digit_val c) cs
      else if c = CHR ''_'' \<and> after_digit then digits_value False acc cs
      else None)"

fun parse_signed :: "(string \<Rightarrow> 'a option) \<Rightarrow> ('a \<Rightarrow> 'a) \<Rightarrow> string \<Rightarrow> 'a option" where
  "parse_signed p neg [] = p []"
| "parse_signed p neg (c # cs) =
     (if c = CHR ''-'' then map_option neg (p cs) else if c = CHR ''+'' then p cs else p (c # cs))"

definition parse_int :: "string \<Rightarrow> int option" where
  "parse_int s = parse_signed (digits_value False 0) uminus (py_strip s)"

text \<open>Decimal literals: digits, an optional fraction, an optional exponent.\<close>

definition parse_fraction :: "string \<Rightarrow> rat option" where
  "parse_fraction s =
     (let w = takeWhile (\<lambda>c. c \<noteq> CHR ''.'') s; r = dropWhile (\<lambda>c. c \<noteq> CHR ''.'') s in
      case r of
        [] \<Rightarrow> map_option of_int (digits_value False 0 w)
      | _ # f \<Rightarrow>
          (if w = [] \<and> f = [] then None
           else case (if w = [] then Some 0 else digits_value False 0 w,
                      if f = [] then Some 0 else digits_value False 0 f) of
             (Some a, Some b) \<Rightarrow> Some (of_int a + of_int b / 10 ^ length (filter is_dec_digit f))
           | _ \<Rightarrow> None))"

definition parse_unsigned_float :: "string \<Rightarrow> rat option" where
  "parse_unsigned_float s =
     (let m = takeWhile (\<lambda>c. c \<noteq> CHR ''e'' \<and> c \<noteq> CHR ''E'') s;
          r = dropWhile (\<lambda>c. c \<noteq> CHR ''e'' \<and> c \<noteq> CHR ''E'') s in
      case r of
        [] \<Rightarrow> parse_fraction m
      | _ # e \<Rightarrow>
          (case (parse_fraction m, parse_signed (digits_value False 0) uminus e) of
             (Some x, Some k) \<Rightarrow> Some (if 0 \<le> k then x * 10 ^ nat k else x / 10 ^ nat (- k))
           | _ \<Rightarrow> None))"

definition parse_float :: "string \<Rightarrow> rat option" where
  "parse_float s = parse_signed parse_unsigned_float uminus (py_strip s)"

section \<open>Conversions that may raise\<close>

fun py_int :: "json \<Rightarrow> py_exn + int" where
  "py_int (JBool b) = Inr (if b then 1 else 0)"
| "py_int (JInt n) = Inr n"
| "py_int (JFloat x) = Inr (py_trunc x)"
| "py_int (JStr s) = (case parse_int s of Some n \<Rightarrow> Inr n | None \<Rightarrow> Inl ValueError)"
| "py_int _ = Inl TypeError"

fun py_float :: "json \<Rightarrow> py_exn + rat" where
  "py_float (JBool b) = Inr (if b then 1 else 0)"
| "py_float (JInt n) = Inr (of_int n)"
| "py_float (JFloat x) = Inr x"
| "py_float (JStr s) = (case parse_float s of Some x \<Rightarrow> Inr x | None \<Rightarrow> Inl ValueError)"
| "py_float _ = Inl TypeError"

section \<open>Dictionaries\<close>

text \<open>\<open>d[k] = v\<close>: in place when the key is present, at the end otherwise.\<close>

definition dict_set :: "string \<Rightarrow> 'v \<Rightarrow> (string \<times> 'v) list \<Rightarrow> (string \<times> 'v) list" where
  "dict_set k v d = AList.update k v d"

lemma map_of_dict_set [simp]: "map_of (dict_set k v d) = (map_of d)(k \<mapsto> v)"
  by (simp add: dict_set_def update_conv')

lemma dict_set_keys:
  "map fst (dict_set k v d) = (if k \<in> fst ` set d then map fst d else map fst d @ [k])"
  by (simp add: dict_set_def AList.update_keys)

lemma distinct_dict_set: "distinct (map fst d) \<Longrightarrow> distinct (map fst (dict_set k v d))"
  by (simp add: dict_set_def distinct_update)

lemma length_dict_set:
  "length (dict_set k v d) = (if k \<in> fst ` set d then length d else Suc (length d))"
proof -
  have "length (dict_set k v d) = length (map fst (dict_set k v d))" by simp
  then show ?thesis by (simp only: dict_set_keys) simp
qed

lemma dget_dict_set [simp]:
  "dget (dict_set k v d) k' dflt = (if k' = k then v else dget d k' dflt)"
  by (simp add: dget_def)

lemma or_dict_falsy: "\<not> truthy v \<Longrightarrow> or_dict v = Inr []"
  by (cases v) auto


section \<open>Decimal text of an integer\<close>

fun str_of_nat :: "nat \<Rightarrow> string" where
  "str_of_nat n =
     (if n < 10 then [char_of (48 + n)] else str_of_nat (n div 10) @ [char_of (48 + n mod 10)])"

declare str_of_nat.simps [simp del]

definition str_of_int :: "int \<Rightarrow> string" where
  "str_of_int k = (if k < 0 then ''-'' @ str_of_nat (nat (- k)) else str_of_nat (nat k))"

end
