(* ===== verification/Models.thy ===== *)
theory Models
  imports PyValue SubmissionState
begin

text \<open>
  The rows the program keeps (\<open>db/models/\<close>), one record per table, and the database they form.
  Columns no modelled operation reads or writes are
  left out. Relationships
  that the ORM loads as collections are either nested (the answers of an attempt) or separate
  tables joined by id (members and invites of a squad).

  JSON columns that only this program writes are records of exactly the keys it writes
  (\<open>config_snapshot\<close>, \<open>source_metadata\<close>, \<open>grade_breakdown\<close>); those that carry a teacher's
  document are \<open>pydict\<close>. Ids are handed out by one counter, \<open>db_next\<close>, which stands for the
  per-table sequences: it only grows, so a new row's id is new in its table.
\<close>

section \<open>People and subjects\<close>

record student_group =
  grp_id :: int
  grp_name :: string

record student =
  stu_id :: int
  stu_full_name :: string
  stu_email :: string
  stu_group_id :: int
  stu_type :: entity_type
  stu_recording_consent_at :: "int option"

record user =
  usr_id :: int
  usr_role :: user_role
  usr_student_id :: "int option"
  usr_is_active :: bool
  usr_username :: string
  usr_email :: "string option"

record subjects_students =
  enr_subject_id :: int
  enr_student_id :: int

record subject =
  subj_id :: int
  subj_name :: string
  subj_code :: "string option"
  subj_owner_id :: "int option"
  subj_squad_max_size :: "int option"
  subj_status :: subject_status
  subj_description :: "string option"
  subj_grid_picture_url :: "string option"
  subj_main_picture_url :: "string option"
  subj_classroom_course_id :: "string option"
  subj_classroom_course_name :: "string option"
  subj_classroom_connection_id :: "int option"
  subj_classroom_synced_at :: "int option"
  subj_classroom_sync_error :: "string option"

record subject_plugin_config =
  spc_id :: int
  spc_subject_id :: int
  spc_version :: int
  spc_content_hash :: string
  spc_config :: pydict

record subjects_assignment =
  asg_id :: int
  asg_subject_id :: int
  asg_code :: "string option"
  asg_title :: string
  asg_description :: "string option"
  asg_content_files :: "json list option"
  asg_coursework_id :: "string option"
  asg_coursework_title :: "string option"
  asg_deadline :: "int option"
  asg_min_grade :: int
  asg_max_grade :: int
  asg_config :: pydict

record student_assignment =
  sa_id :: int
  sa_student_id :: int
  sa_subjects_assignment_id :: int
  sa_grade :: "int option"
  sa_variant :: "string option"
  sa_teacher_scores :: "(string \<times> int) list option"

section \<open>Submissions\<close>

text \<open>The shared draw of a squad's quiz, \<open>source_metadata["squad_quiz_draw"]\<close>.\<close>

record squad_draw =
  sd_question_ids :: "int list"
  sd_slices :: "int list list"
  sd_member_order :: "int list"

text \<open>\<open>source_metadata\<close>: the upload's file name as the student gave it and as it is stored, its similarity
  to the uploads of others, the granted attempts per student (keyed by
  \<open>str(student_id)\<close> in the document) and the shared draw.\<close>

record source_metadata =
  md_original_filename :: "string option"
  md_saved_as :: "string option"
  md_similarity_score :: "rat option"
  md_quiz_extra_attempts :: "(int \<times> int) list"
  md_squad_quiz_draw :: "squad_draw option"

text \<open>\<open>GradeBreakdown\<close> of \<open>services/grading.py\<close>, and the dictionary \<open>teacher_scores.compute\<close>
  returns; \<open>bd_squad\<close> is the \<open>"squad"\<close> entry added for a squad.\<close>

record grade_breakdown_blended =
  gb_grade :: int
  gb_works_score :: "rat option"
  gb_quality_score :: "rat option"
  gb_quiz_score :: "rat option"
  gb_code_weight :: rat
  gb_quiz_weight :: rat
  gb_works_weight :: rat
  gb_quality_weight :: rat

record criterion_row =
  cr_key :: string
  cr_title :: json
  cr_points :: int
  cr_max :: int

record grade_breakdown_scored =
  gs_grade :: int
  gs_quiz_score :: rat
  gs_quiz_points :: int
  gs_quiz_max :: int
  gs_criteria :: "criterion_row list"

datatype breakdown_body = Blended grade_breakdown_blended | Scored grade_breakdown_scored

record squad_part =
  sp_squad_id :: int
  sp_members :: "(int \<times> rat) list"

record grade_breakdown =
  bd_body :: breakdown_body
  bd_squad :: "squad_part option"

record submission =
  sub_id :: int
  sub_students_assignment_id :: int
  sub_source_type :: submission_source_type
  sub_source_metadata :: source_metadata
  sub_status :: submission_status
  sub_test_results :: "pydict option"
  sub_ai_review :: "pydict option"
  sub_grade_breakdown :: "grade_breakdown option"
  sub_plugin_config_id :: "int option"
  sub_squad_id :: "int option"
  sub_created_at :: int

section \<open>Quiz attempts\<close>

text \<open>A question of an attempt's snapshot: its type with the answer key the type carries.\<close>

datatype question_body =
    SingleChoice json int
  | MultipleChoice json "int list"
  | Ordering json "int list"
  | TrueFalse bool
  | OtherType string

record question =
  q_id :: int
  q_body :: question_body
  q_text :: string
  q_points :: int
  q_is_required :: bool
  q_time_limit_seconds :: "int option"

record squad_snapshot =
  ss_member_index :: nat
  ss_member_count :: nat
  ss_total_questions :: nat

record config_snapshot =
  cs_pass_threshold_pct :: "rat option"
  cs_anti_cheat :: json
  cs_review_mode :: json
  cs_squad :: "squad_snapshot option"
  cs_max_quiz_attempts :: "int option"
  cs_time_limit_minutes :: "int option"
  cs_per_question_timing :: bool

datatype answer_value =
    NoAnswer
  | Selected "int option"
  | SelectedMany "int list"
  | Ordered "int list"
  | TruthValue bool
  | RawValue string

record quiz_answer =
  ans_question_id :: int
  ans_answer :: answer_value
  ans_is_correct :: "bool option"
  ans_points_earned :: "int option"
  ans_timed_out :: bool

text \<open>An entry of the \<open>violations\<close> dictionary: a count per event, and the handler's own
  underscore-prefixed bookkeeping.\<close>

datatype violation = VCount int | VFlag bool | VEvents "string list"

record quiz_attempt =
  att_id :: int
  att_submission_id :: int
  att_plugin_config_id :: "int option"
  att_plugin_config_version :: "int option"
  att_student_id :: "int option"
  att_questions_snapshot :: "question list"
  att_config_snapshot :: config_snapshot
  att_started_at :: int
  att_submitted_at :: "int option"
  att_current_index :: nat
  att_question_started_at :: "int option"
  att_paused_at :: "int option"
  att_paused_seconds :: int
  att_score :: "int option"
  att_max_score :: "int option"
  att_is_passed :: "bool option"
  att_violations :: "(string \<times> violation) list"
  att_status :: quiz_attempt_status
  att_answers :: "quiz_answer list"

record quiz_attempt_pause =
  pause_id :: int
  pause_attempt_id :: int
  pause_started_at :: int
  pause_ended_at :: "int option"
  pause_region_uid :: int

record quiz_attempt_event =
  ev_attempt_id :: int
  ev_event_type :: string
  ev_count_after :: "int option"
  ev_rule_threshold :: "int option"
  ev_action :: string
  ev_outcome :: quiz_event_outcome
  ev_client_ctx :: pydict

record quiz_attempt_snapshot =
  snp_attempt_id :: int
  snp_event_type :: string
  snp_s3_key :: string
  snp_captured_at :: int

record quiz_question_dispute =
  dis_id :: int
  dis_attempt_id :: int
  dis_question_id :: int
  dis_student_id :: int
  dis_plugin_config_id :: "int option"
  dis_plugin_config_version :: "int option"
  dis_student_note :: "string option"
  dis_status :: quiz_dispute_status
  dis_teacher_note :: "string option"
  dis_resolved_by_user_id :: "int option"
  dis_resolved_at :: "int option"

record quiz_question_override =
  ovr_plugin_config_id :: int
  ovr_plugin_config_version :: int
  ovr_question_id :: int
  ovr_credit_all :: bool
  ovr_dispute_id :: "int option"

section \<open>Squads\<close>

record squad =
  sq_id :: int
  sq_subject_id :: int
  sq_name :: "string option"
  sq_created_by_student_id :: "int option"
  sq_created_by_user_id :: "int option"
  sq_locked_at :: "int option"

record squad_member =
  mem_squad_id :: int
  mem_student_id :: int
  mem_subject_id :: int
  mem_joined_at :: int

record squad_invite =
  inv_id :: int
  inv_squad_id :: int
  inv_invited_student_id :: int
  inv_invited_by_student_id :: "int option"
  inv_status :: squad_invite_status

section \<open>Google Classroom works and their draft grades\<close>

record classroom_student_link =
  lk_id :: int
  lk_subject_id :: int
  lk_student_id :: "int option"
  lk_method :: classroom_link_method
  lk_confirmed :: bool
  lk_classroom_user_id :: string
  lk_classroom_email :: "string option"
  lk_classroom_name :: string
  lk_score :: "rat option"
  lk_candidates :: json

record classroom_work =
  wk_id :: int
  wk_subjects_assignment_id :: int
  wk_link_id :: int
  wk_seen_at :: int
  wk_classroom_submission_id :: string
  wk_state :: string
  wk_late :: bool
  wk_content_hash :: string
  wk_manifest :: "pydict list"
  wk_created_at :: int

record llm_grading =
  lg_id :: int
  lg_classroom_work_id :: int
  lg_status :: llm_grading_status
  lg_draft :: "pydict option"
  lg_approved_by :: "int option"
  lg_approved_at :: "int option"
  lg_attempts :: int
  lg_error :: "string option"
  lg_provider :: "string option"
  lg_model :: "string option"
  lg_graded_at :: "int option"
  lg_updated_at :: int

record google_connection =
  gc_id :: int
  gc_user_id :: int
  gc_google_email :: string
  gc_refresh_token_enc :: string
  gc_status :: google_connection_status
  gc_last_error :: "string option"

record classroom_sync_run =
  syn_id :: int
  syn_subject_id :: int
  syn_started_by :: "int option"
  syn_status :: classroom_sync_status
  syn_run_error :: "string option"
  syn_assignments_total :: int
  syn_assignments_done :: int
  syn_submissions_total :: int
  syn_submissions_done :: int
  syn_new_versions :: int
  syn_errors :: int
  syn_heartbeat_at :: int
  syn_finished_at :: "int option"

section \<open>Messages\<close>

text \<open>
  In-app notifications. The wording comes from the vocabulary file; a notification keeps the
  vocabulary key (or the literal text) of its title, the arguments its body is formatted with,
  and the link.
\<close>

record notification =
  ntf_user_id :: int
  ntf_title :: string
  ntf_args :: "(string \<times> string) list"
  ntf_link :: string

record outbox_message =
  out_id :: int
  out_event_type :: outbox_event_type
  out_payload :: pydict
  out_state :: outbox_message_state
  out_retry_count :: int
  out_finished_at :: "int option"
  out_error_message :: "string option"

record teacher_queue_row =
  tq_teacher_id :: int
  tq_submission_id :: int
  tq_sent_at :: "int option"

record subject_gradebook_stats =
  sgs_subject_id :: int
  sgs_pending_review_count :: nat
  sgs_average_mark_pct :: "rat option"
  sgs_pass_pct :: rat
  sgs_cheating_pct :: "rat option"
  sgs_computed_at :: int

text \<open>Which e-mails a student has switched off; a missing row means enabled. The method is always e-mail.\<close>

record notification_preference =
  np_student_id :: int
  np_case :: notification_case
  np_enabled :: bool

record feedback_request =
  fr_id :: int
  fr_subject_id :: int
  fr_semester_id :: int

record feedback_token =
  ft_id :: int
  ft_feedback_request_id :: int
  ft_student_id :: int
  ft_token :: "string option"

record semester =
  sem_id :: int
  sem_name :: string

text \<open>An e-mail handed to the provider: the name of its template (\<open>services/notifications/templates.py\<close>)
  and what the template is filled with. The list of them stands for what has left the program: it only
  grows.\<close>

record mail =
  ml_recipient :: string
  ml_template :: string
  ml_args :: "(string \<times> json) list"

record audit_log =
  aud_action :: string
  aud_actor_id :: "int option"
  aud_target_id :: "int option"

section \<open>The database\<close>

record db =
  db_next :: int
  db_students :: "student list"
  db_users :: "user list"
  db_enrolments :: "subjects_students list"
  db_subjects :: "subject list"
  db_configs :: "subject_plugin_config list"
  db_assignments :: "subjects_assignment list"
  db_sas :: "student_assignment list"
  db_submissions :: "submission list"
  db_attempts :: "quiz_attempt list"
  db_pauses :: "quiz_attempt_pause list"
  db_events :: "quiz_attempt_event list"
  db_snapshots :: "quiz_attempt_snapshot list"
  db_disputes :: "quiz_question_dispute list"
  db_overrides :: "quiz_question_override list"
  db_squads :: "squad list"
  db_members :: "squad_member list"
  db_invites :: "squad_invite list"
  db_links :: "classroom_student_link list"
  db_works :: "classroom_work list"
  db_gradings :: "llm_grading list"
  db_connections :: "google_connection list"
  db_sync_runs :: "classroom_sync_run list"
  db_groups :: "student_group list"
  db_stats :: "subject_gradebook_stats list"
  db_notifications :: "notification list"
  db_outbox :: "outbox_message list"
  db_queue :: "teacher_queue_row list"
  db_preferences :: "notification_preference list"
  db_feedback_tokens :: "feedback_token list"
  db_feedback_requests :: "feedback_request list"
  db_semesters :: "semester list"
  db_mails :: "mail list"
  db_audit :: "audit_log list"

definition empty_db :: db where
  "empty_db =
     \<lparr> db_next = 1, db_students = [], db_users = [], db_enrolments = [], db_subjects = [],
       db_configs = [], db_assignments = [], db_sas = [], db_submissions = [], db_attempts = [],
       db_pauses = [], db_events = [], db_snapshots = [], db_disputes = [], db_overrides = [], db_squads = [],
       db_members = [], db_invites = [], db_links = [], db_works = [], db_gradings = [], db_connections = [], db_sync_runs = [], db_groups = [], db_stats = [], db_notifications = [], db_outbox = [], db_queue = [], db_preferences = [],
       db_feedback_tokens = [], db_feedback_requests = [], db_semesters = [], db_mails = [],
       db_audit = [] \<rparr>"

section \<open>Reading and writing one row\<close>

interpretation submissions: row_store "get_row sub_id" "upd_row sub_id" sub_id
  by (rule row_store_rows)

interpretation attempts: row_store "get_row att_id" "upd_row att_id" att_id
  by (rule row_store_rows)

interpretation sas: row_store "get_row sa_id" "upd_row sa_id" sa_id
  by (rule row_store_rows)

interpretation squads: row_store "get_row sq_id" "upd_row sq_id" sq_id
  by (rule row_store_rows)

interpretation invites: row_store "get_row inv_id" "upd_row inv_id" inv_id
  by (rule row_store_rows)

interpretation disputes: row_store "get_row dis_id" "upd_row dis_id" dis_id
  by (rule row_store_rows)

definition get_submission :: "db \<Rightarrow> int \<Rightarrow> submission option" where
  "get_submission d i = get_row sub_id i (db_submissions d)"

definition upd_submission :: "int \<Rightarrow> (submission \<Rightarrow> submission) \<Rightarrow> db \<Rightarrow> db" where
  "upd_submission i f d = d\<lparr>db_submissions := upd_row sub_id i f (db_submissions d)\<rparr>"

definition get_attempt :: "db \<Rightarrow> int \<Rightarrow> quiz_attempt option" where
  "get_attempt d i = get_row att_id i (db_attempts d)"

definition upd_attempt :: "int \<Rightarrow> (quiz_attempt \<Rightarrow> quiz_attempt) \<Rightarrow> db \<Rightarrow> db" where
  "upd_attempt i f d = d\<lparr>db_attempts := upd_row att_id i f (db_attempts d)\<rparr>"

definition get_sa :: "db \<Rightarrow> int \<Rightarrow> student_assignment option" where
  "get_sa d i = get_row sa_id i (db_sas d)"

definition upd_sa :: "int \<Rightarrow> (student_assignment \<Rightarrow> student_assignment) \<Rightarrow> db \<Rightarrow> db" where
  "upd_sa i f d = d\<lparr>db_sas := upd_row sa_id i f (db_sas d)\<rparr>"

definition get_assignment :: "db \<Rightarrow> int \<Rightarrow> subjects_assignment option" where
  "get_assignment d i = get_row asg_id i (db_assignments d)"

definition get_subject :: "db \<Rightarrow> int \<Rightarrow> subject option" where
  "get_subject d i = get_row subj_id i (db_subjects d)"

definition get_student :: "db \<Rightarrow> int \<Rightarrow> student option" where
  "get_student d i = get_row stu_id i (db_students d)"

definition get_config :: "db \<Rightarrow> int \<Rightarrow> subject_plugin_config option" where
  "get_config d i = get_row spc_id i (db_configs d)"

definition get_squad :: "db \<Rightarrow> int \<Rightarrow> squad option" where
  "get_squad d i = get_row sq_id i (db_squads d)"

definition upd_squad :: "int \<Rightarrow> (squad \<Rightarrow> squad) \<Rightarrow> db \<Rightarrow> db" where
  "upd_squad i f d = d\<lparr>db_squads := upd_row sq_id i f (db_squads d)\<rparr>"

definition get_invite :: "db \<Rightarrow> int \<Rightarrow> squad_invite option" where
  "get_invite d i = get_row inv_id i (db_invites d)"

definition upd_invite :: "int \<Rightarrow> (squad_invite \<Rightarrow> squad_invite) \<Rightarrow> db \<Rightarrow> db" where
  "upd_invite i f d = d\<lparr>db_invites := upd_row inv_id i f (db_invites d)\<rparr>"

lemmas row_access_defs =
  get_submission_def upd_submission_def get_attempt_def upd_attempt_def get_sa_def upd_sa_def
  get_assignment_def get_subject_def get_student_def get_config_def get_squad_def upd_squad_def
  get_invite_def upd_invite_def

section \<open>Appending messages\<close>

text \<open>The user account behind a student, \<open>select(User.id).where(User.student_id == ...)\<close>.\<close>

definition user_of_student :: "db \<Rightarrow> int \<Rightarrow> int option" where
  "user_of_student d sid = map_option usr_id (find (\<lambda>u. usr_student_id u = Some sid) (db_users d))"

definition push_notification :: "int \<Rightarrow> string \<Rightarrow> (string \<times> string) list \<Rightarrow> string \<Rightarrow> db \<Rightarrow> db" where
  "push_notification user_id title args link d =
     d\<lparr>db_notifications := db_notifications d @
         [\<lparr>ntf_user_id = user_id, ntf_title = title, ntf_args = args, ntf_link = link\<rparr>]\<rparr>"

definition add_outbox :: "outbox_event_type \<Rightarrow> pydict \<Rightarrow> db \<Rightarrow> db" where
  "add_outbox ev payload d =
     d\<lparr>db_outbox := db_outbox d @
         [\<lparr>out_id = db_next d, out_event_type = ev, out_payload = payload,
           out_state = Outbox_PENDING, out_retry_count = 0, out_finished_at = None, out_error_message = None\<rparr>],
       db_next := db_next d + 1\<rparr>"

definition audit :: "string \<Rightarrow> int option \<Rightarrow> int option \<Rightarrow> db \<Rightarrow> db" where
  "audit action actor target d =
     d\<lparr>db_audit := db_audit d @
         [\<lparr>aud_action = action, aud_actor_id = actor, aud_target_id = target\<rparr>]\<rparr>"


section \<open>Replies\<close>

text \<open>What a route answers. An \<open>HttpError\<close> and a \<open>ServerError\<close> (an exception no handler
  catches) leave the session, which rolls back whatever the route had not committed.\<close>

datatype reply =
    Redirect string
  | Page string
  | Json pydict
  | HttpError nat string
  | ServerError py_exn

end
