(* ===== verification/TeacherScores.thy ===== *)
theory TeacherScores
  imports Models
begin

text \<open>
  \<open>services/teacher_scores.py\<close>: the rules of the review mode \<open>quiz_and_teacher_scores\<close>, where
  the grade is quiz points plus the points a teacher types per criterion. Configuration check,
  form parsing, completeness and the grade formula, on the JSON values the code reads, with
  every exception a branch. The properties: an accepted configuration can neither overflow nor
  undershoot its grade range, and what the form parser stores is within the criteria.

  A criterion's title is kept as the document's value (the code renders it with \<open>str\<close>);
  \<open>criteria\<close> requires string keys, as its source does by assuming a validated block.
\<close>

definition MODE :: string where
  "MODE = ''quiz_and_teacher_scores''"

record criterion =
  crit_key :: string
  crit_title :: json
  crit_max :: int
  crit_optional :: bool

section \<open>Configuration\<close>

definition is_scored_mode :: "pydict \<Rightarrow> bool" where
  "is_scored_mode cfg = (dget cfg ''review_mode'' JNull = JStr MODE)"

text \<open>One element of the \<open>teacher_criteria\<close> list; indexing a value that is no dictionary by a
  string is a \<open>TypeError\<close>, a missing key a \<open>KeyError\<close>.\<close>

fun criterion_of :: "json \<Rightarrow> py_exn + criterion" where
  "criterion_of (JObj raw) =
     (case map_of raw ''key'' of
        None \<Rightarrow> Inl KeyError
      | Some (JStr k) \<Rightarrow>
          (case map_of raw ''max'' of
             None \<Rightarrow> Inl KeyError
           | Some m \<Rightarrow>
               bind_result (py_int m) (\<lambda>mx.
                 Inr \<lparr>crit_key = k,
                      crit_title = (let t = dget raw ''title'' JNull in if truthy t then t else JStr k),
                      crit_max = mx,
                      crit_optional = truthy (dget raw ''optional'' (JBool False))\<rparr>))
      | Some _ \<Rightarrow> Inl TypeError)"
| "criterion_of _ = Inl TypeError"

definition criteria :: "pydict \<Rightarrow> py_exn + criterion list" where
  "criteria grading =
     bind_result (or_list (dget grading ''teacher_criteria'' JNull)) (map_result criterion_of)"

datatype config_error =
    NeedsQuiz
  | BadQuizPoints
  | NoCriteria
  | BadKey json
  | DuplicateKey string
  | BadMax string
  | BadTotal int int int
  | Raised py_exn

text \<open>\<open>^[a-z0-9_]+$\<close> under \<open>re.match\<close>: \<open>$\<close> also matches before one final newline.\<close>

definition key_char :: "char \<Rightarrow> bool" where
  "key_char c = (is_dec_digit c \<or> (97 \<le> (of_char c :: nat) \<and> (of_char c :: nat) \<le> 122) \<or> c = CHR ''_'')"

definition key_re_match :: "string \<Rightarrow> bool" where
  "key_re_match s =
     (let body = (if s \<noteq> [] \<and> last s = CHR 0x0A then butlast s else s)
      in body \<noteq> [] \<and> list_all key_char body)"

fun is_int :: "json \<Rightarrow> bool" where
  "is_int (JInt _) = True"
| "is_int _ = False"

fun int_of :: "json \<Rightarrow> int" where
  "int_of (JInt n) = n"
| "int_of _ = 0"

text \<open>The loop over the criteria: \<open>seen\<close> and \<open>tot\<close> (\<open>total\<close>) are its variables.\<close>

fun check_criteria :: "string list \<Rightarrow> int \<Rightarrow> json list \<Rightarrow> config_error + int" where
  "check_criteria seen tot [] = Inr tot"
| "check_criteria seen tot (item # items) =
     (case or_dict item of
        Inl e \<Rightarrow> Inl (Raised e)
      | Inr d \<Rightarrow>
          (case dget d ''key'' JNull of
             JStr k \<Rightarrow>
               if \<not> key_re_match k then Inl (BadKey (JStr k))
               else if k \<in> set seen then Inl (DuplicateKey k)
               else
                 let mx = dget d ''max'' JNull in
                 if \<not> is_int mx \<or> int_of mx \<le> 0 then Inl (BadMax k)
                 else check_criteria (k # seen) (tot + int_of mx) items
           | v \<Rightarrow> Inl (BadKey v)))"

definition lift_exn :: "py_exn + 'a \<Rightarrow> config_error + 'a" where
  "lift_exn r = (case r of Inl e \<Rightarrow> Inl (Raised e) | Inr x \<Rightarrow> Inr x)"

definition validate_assignment :: "pydict \<Rightarrow> config_error + unit" where
  "validate_assignment a_cfg =
     bind_result (lift_exn (or_dict (dget a_cfg ''quiz'' JNull))) (\<lambda>quiz.
     if \<not> truthy (dget quiz ''questions'' JNull) then Inl NeedsQuiz
     else
     bind_result (lift_exn (or_dict (dget a_cfg ''grading'' JNull))) (\<lambda>grading.
     let quiz_points = dget grading ''quiz_points'' JNull in
     if \<not> is_int quiz_points \<or> int_of quiz_points < 0 then Inl BadQuizPoints
     else
     case dget grading ''teacher_criteria'' JNull of
       JList raw \<Rightarrow>
         if raw = [] then Inl NoCriteria
         else
         bind_result (check_criteria [] 0 raw) (\<lambda>total.
         bind_result (lift_exn (py_int (dget a_cfg ''max_grade'' (JInt 100)))) (\<lambda>hi.
         bind_result (lift_exn (py_int (dget a_cfg ''min_grade'' (JInt 0)))) (\<lambda>lo.
         let span = hi - lo in
         if int_of quiz_points + total \<noteq> span then Inl (BadTotal (int_of quiz_points) total span)
         else Inr ())))
     | _ \<Rightarrow> Inl NoCriteria))"

section \<open>The teacher's form\<close>

datatype score_error = NotWholeNumber json string | AboveMaximum json int int | IntValueError

definition score_field :: "string \<Rightarrow> string" where
  "score_field k = ''score_'' @ k"

fun parse_form_loop ::
  "criterion list \<Rightarrow> (string \<times> string) list \<Rightarrow> (string \<times> int) list \<Rightarrow> score_error + (string \<times> int) list"
where
  "parse_form_loop [] form out = Inr out"
| "parse_form_loop (c # cs) form out =
     (let raw = py_strip (case map_of form (score_field (crit_key c)) of Some v \<Rightarrow> v | None \<Rightarrow> '''') in
      if raw = '''' then parse_form_loop cs form out
      else if \<not> py_isdigit raw then Inl (NotWholeNumber (crit_title c) raw)
      else
        case parse_int raw of
          None \<Rightarrow> Inl IntValueError
        | Some value \<Rightarrow>
            if value > crit_max c then Inl (AboveMaximum (crit_title c) value (crit_max c))
            else parse_form_loop cs form (dict_set (crit_key c) value out))"

definition parse_form :: "criterion list \<Rightarrow> (string \<times> string) list \<Rightarrow> score_error + (string \<times> int) list" where
  "parse_form crits form = parse_form_loop crits form []"

definition is_complete :: "criterion list \<Rightarrow> (string \<times> int) list option \<Rightarrow> bool" where
  "is_complete crits scores =
     (let have = (case scores of None \<Rightarrow> [] | Some s \<Rightarrow> s)
      in list_all (\<lambda>c. crit_optional c \<or> map_of have (crit_key c) \<noteq> None) crits)"

section \<open>The grade\<close>

definition quiz_points_for :: "pydict \<Rightarrow> rat \<Rightarrow> bool \<Rightarrow> py_exn + int" where
  "quiz_points_for grading quiz_pct round_up =
     bind_result (py_int (dget grading ''quiz_points'' (JInt 0))) (\<lambda>points.
       let raw = py_round_digits 6 (quiz_pct / 100 * of_int points)
       in Inr (if round_up then \<lceil>raw\<rceil> else round_half_up raw))"

definition score_of :: "(string \<times> int) list \<Rightarrow> criterion \<Rightarrow> int" where
  "score_of scores c = (case map_of scores (crit_key c) of Some p \<Rightarrow> p | None \<Rightarrow> 0)"

definition compute ::
  "pydict \<Rightarrow> int \<Rightarrow> int \<Rightarrow> rat \<Rightarrow> (string \<times> int) list \<Rightarrow> bool \<Rightarrow> py_exn + grade_breakdown_scored"
where
  "compute grading min_grade max_grade quiz_pct scores round_up =
     bind_result (py_int (dget grading ''quiz_points'' (JInt 0))) (\<lambda>quiz_max.
     bind_result (quiz_points_for grading quiz_pct round_up) (\<lambda>quiz_awarded.
     bind_result (criteria grading) (\<lambda>crits.
       let points = map (score_of scores) crits;
           rows = map (\<lambda>(c, p). \<lparr>cr_key = crit_key c, cr_title = crit_title c, cr_points = p,
                                cr_max = crit_max c\<rparr>) (zip crits points);
           total = min_grade + quiz_awarded + sum_list points
       in Inr \<lparr>gs_grade = max min_grade (min max_grade total), gs_quiz_score = quiz_pct,
               gs_quiz_points = quiz_awarded, gs_quiz_max = quiz_max, gs_criteria = rows\<rparr>)))"

section \<open>What a validated block guarantees\<close>

lemma is_int_iff: "is_int v \<longleftrightarrow> v = JInt (int_of v)"
  by (cases v) auto

text \<open>The loop's invariant: the accepted items parse into criteria with positive maxima that sum
  to the total, and their keys are pairwise distinct and new.\<close>

lemma check_criteria_sound:
  assumes "check_criteria seen tot items = Inr tot'"
  obtains crits where "map_result criterion_of items = Inr crits"
    and "tot' = tot + sum_list (map crit_max crits)"
    and "list_all (\<lambda>c. 0 < crit_max c) crits"
    and "distinct (map crit_key crits)" and "set (map crit_key crits) \<inter> set seen = {}"
proof -
  have "\<exists>crits. map_result criterion_of items = Inr crits \<and> tot' = tot + sum_list (map crit_max crits)
      \<and> list_all (\<lambda>c. 0 < crit_max c) crits \<and> distinct (map crit_key crits)
      \<and> set (map crit_key crits) \<inter> set seen = {}"
    using assms
  proof (induction seen tot items rule: check_criteria.induct)
    case (1 seen tot)
    then show ?case by simp
  next
    case (2 seen tot item items)
    from "2.prems" obtain d where d: "or_dict item = Inr d" by (cases "or_dict item") auto
    with "2.prems" obtain k where k: "dget d ''key'' JNull = JStr k"
      by (cases "dget d ''key'' JNull") auto
    define mx where "mx = dget d ''max'' JNull"
    from "2.prems" d k have new: "k \<notin> set seen" and mx: "is_int mx" "0 < int_of mx"
      and rest: "check_criteria (k # seen) (tot + int_of mx) items = Inr tot'"
      and re: "key_re_match k"
      by (auto simp: mx_def Let_def split: if_splits)
    from k have key: "map_of d ''key'' = Some (JStr k)" and "d \<noteq> []"
      by (auto simp: dget_def split: option.splits)
    with d have item: "item = JObj d" by (cases item) (auto split: if_splits)
    from mx have mxv: "map_of d ''max'' = Some (JInt (int_of mx))"
      by (auto simp: mx_def dget_def is_int_iff split: option.splits)
    define c where "c = \<lparr>crit_key = k,
        crit_title = (let t = dget d ''title'' JNull in if truthy t then t else JStr k),
        crit_max = int_of mx, crit_optional = truthy (dget d ''optional'' (JBool False))\<rparr>"
    have c: "criterion_of item = Inr c" by (simp add: item key mxv c_def)
    have "\<not> (\<not> is_int mx \<or> int_of mx \<le> 0)" using mx by simp
    from "2.IH" [OF d k _ new mx_def this rest] re obtain crits where
      "map_result criterion_of items = Inr crits"
      "tot' = tot + int_of mx + sum_list (map crit_max crits)"
      "list_all (\<lambda>c. 0 < crit_max c) crits" "distinct (map crit_key crits)"
      "set (map crit_key crits) \<inter> set (k # seen) = {}" by auto
    with c new mx show ?case by (auto simp: c_def)
  qed
  with that show ?thesis by blast
qed

lemma lift_exn_eq_Inr [simp]: "lift_exn r = Inr x \<longleftrightarrow> r = Inr x"
  by (auto simp: lift_exn_def split: sum.splits)

lemma validate_assignment_sound:
  assumes "validate_assignment a_cfg = Inr ()"
  obtains grading crits qp lo hi where "or_dict (dget a_cfg ''grading'' JNull) = Inr grading"
    and "criteria grading = Inr crits" and "dget grading ''quiz_points'' JNull = JInt qp" and "0 \<le> qp"
    and "py_int (dget a_cfg ''min_grade'' (JInt 0)) = Inr lo"
    and "py_int (dget a_cfg ''max_grade'' (JInt 100)) = Inr hi"
    and "qp + sum_list (map crit_max crits) = hi - lo"
    and "list_all (\<lambda>c. 0 < crit_max c) crits" and "distinct (map crit_key crits)"
proof -
  from assms obtain grading where g: "or_dict (dget a_cfg ''grading'' JNull) = Inr grading"
    by (auto simp: validate_assignment_def bind_result_eq_Inr split: if_splits)
  define qv where "qv = dget grading ''quiz_points'' JNull"
  from assms g have qv: "is_int qv" "0 \<le> int_of qv"
    by (auto simp: validate_assignment_def bind_result_eq_Inr Let_def qv_def lift_exn_def
        split: if_splits)
  from assms g obtain raw where raw: "dget grading ''teacher_criteria'' JNull = JList raw" "raw \<noteq> []"
    by (cases "dget grading ''teacher_criteria'' JNull")
      (auto simp: validate_assignment_def bind_result_eq_Inr Let_def lift_exn_def split: if_splits)
  from assms g raw obtain tot lo hi where cc: "check_criteria [] 0 raw = Inr tot"
    and lo: "py_int (dget a_cfg ''min_grade'' (JInt 0)) = Inr lo"
    and hi: "py_int (dget a_cfg ''max_grade'' (JInt 100)) = Inr hi"
    and eq: "int_of qv + tot = hi - lo"
    by (auto simp: validate_assignment_def bind_result_eq_Inr Let_def qv_def
        split: if_splits)
  from cc obtain crits where c: "map_result criterion_of raw = Inr crits"
    "tot = 0 + sum_list (map crit_max crits)" "list_all (\<lambda>c. 0 < crit_max c) crits"
    "distinct (map crit_key crits)" by (rule check_criteria_sound)
  from raw c(1) have "criteria grading = Inr crits" by (simp add: criteria_def)
  moreover from qv(1) have "dget grading ''quiz_points'' JNull = JInt (int_of qv)"
    by (simp add: is_int_iff qv_def)
  ultimately show ?thesis using that g qv(2) lo hi eq c by simp
qed

section \<open>Bounds of the form and of the quiz half\<close>

lemma digits_value_nonneg: "digits_value b acc s = Some n \<Longrightarrow> 0 \<le> acc \<Longrightarrow> 0 \<le> n"
proof (induction b acc s rule: digits_value.induct)
  case (1 b acc)
  then show ?case by (auto split: if_splits)
next
  case (2 b acc c cs)
  have "is_dec_digit c \<Longrightarrow> 0 \<le> acc * 10 + digit_val c"
    using "2.prems"(2) by (simp add: is_dec_digit_def digit_val_def)
  with 2 show ?case by (auto split: if_splits)
qed

lemma py_isdigit_no_sign: "py_isdigit (c # cs) \<Longrightarrow> c \<noteq> CHR ''-'' \<and> c \<noteq> CHR ''+''"
  by (auto simp: py_isdigit_def is_digit_char_def is_dec_digit_def)

lemma py_strip_digits:
  assumes "py_isdigit s"
  shows "py_strip s = s"
proof -
  have nows: "is_digit_char c \<Longrightarrow> \<not> is_ws c" for c
    by (auto simp: is_digit_char_def is_dec_digit_def is_ws_def)
  have self: "list_all is_digit_char t \<Longrightarrow> dropWhile is_ws t = t" for t
    by (cases t) (simp_all add: nows)
  from assms have "list_all is_digit_char s" "list_all is_digit_char (rev s)"
    by (simp_all add: py_isdigit_def list_all_iff)
  then show ?thesis by (simp add: py_strip_def self)
qed

lemma parse_int_digits_nonneg:
  assumes "py_isdigit s" and "parse_int s = Some n"
  shows "0 \<le> n"
proof -
  from assms(1) obtain c cs where s: "s = c # cs" by (cases s) (auto simp: py_isdigit_def)
  from assms(1) have "c \<noteq> CHR ''-''" "c \<noteq> CHR ''+''" using py_isdigit_no_sign s by blast+
  with assms py_strip_digits [OF assms(1)] s show ?thesis
    by (auto simp: parse_int_def simp del: digits_value.simps dest: digits_value_nonneg)
qed

lemma parse_form_loop_lookup:
  assumes "parse_form_loop crits form out = Inr out'"
  shows "map_of out' k = map_of out k \<or>
    (\<exists>c \<in> set crits. crit_key c = k \<and> (\<exists>v. map_of out' k = Some v \<and> 0 \<le> v \<and> v \<le> crit_max c))"
  using assms
proof (induction crits form out rule: parse_form_loop.induct)
  case (1 form out)
  then show ?case by simp
next
  case (2 c cs form out)
  define raw where
    "raw = py_strip (case map_of form (score_field (crit_key c)) of Some v \<Rightarrow> v | None \<Rightarrow> '''')"
  show ?case
  proof (cases "raw = ''''")
    case True
    with 2 show ?thesis by (auto simp: raw_def Let_def)
  next
    case False
    with "2.prems" obtain v where v: "py_isdigit raw" "parse_int raw = Some v" "v \<le> crit_max c"
      "parse_form_loop cs form (dict_set (crit_key c) v out) = Inr out'"
      by (auto simp: raw_def Let_def split: if_splits option.splits)
    from v(1,2) have "0 \<le> v" by (rule parse_int_digits_nonneg)
    have "\<not> crit_max c < v" using v(3) by simp
    from "2.IH"(2) [OF raw_def False _ v(2) this v(4)] v(1)
    have "map_of out' k = map_of (dict_set (crit_key c) v out) k \<or>
      (\<exists>c \<in> set cs. crit_key c = k \<and> (\<exists>v. map_of out' k = Some v \<and> 0 \<le> v \<and> v \<le> crit_max c))"
      by simp
    with \<open>0 \<le> v\<close> v(3) show ?thesis by (auto split: if_splits)
  qed
qed

lemma quiz_points_for_bounds:
  assumes "py_int (dget grading ''quiz_points'' (JInt 0)) = Inr qp" and "0 \<le> qp"
    and "0 \<le> pct" and "pct \<le> 100"
  obtains p where "quiz_points_for grading pct ru = Inr p" and "0 \<le> p" and "p \<le> qp"
    and "pct = 100 \<Longrightarrow> p = qp" and "pct = 0 \<Longrightarrow> p = 0"
proof -
  define raw where "raw = py_round_digits 6 (pct / 100 * of_int qp)"
  define p where "p = (if ru then \<lceil>raw\<rceil> else round_half_up raw)"
  have lo: "0 \<le> raw"
    using py_round_digits_mono [of 0 "pct / 100 * of_int qp" 6] py_round_digits_of_int [of 6 0] assms
    by (simp add: raw_def)
  have "pct / 100 * of_int qp \<le> 1 * of_int qp"
    by (rule mult_right_mono) (use assms in simp_all)
  then have hi: "raw \<le> of_int qp"
    using py_round_digits_mono [of "pct / 100 * of_int qp" "of_int qp" 6] by (simp add: raw_def)
  have "0 \<le> p" using lo round_half_up_nonneg_mono [of 0 raw] round_half_up_of_int [of 0]
    by (simp add: p_def)
  moreover have "p \<le> qp"
    using hi round_half_up_nonneg_mono [OF lo hi] by (simp add: p_def ceiling_le_iff)
  moreover have "pct = 100 \<Longrightarrow> p = qp" by (simp add: p_def raw_def)
  moreover have "pct = 0 \<Longrightarrow> p = 0"
    using py_round_digits_of_int [of 6 0] round_half_up_of_int [of 0] by (simp add: p_def raw_def)
  ultimately show ?thesis
    using that [of p] assms(1) by (simp add: quiz_points_for_def p_def raw_def Let_def)
qed

section \<open>Properties\<close>

text \<open>The points a teacher's form yields are within the criteria: whatever the form holds, a
  parsed value is a non-negative integer not above the maximum of a criterion with that key,
  and no other key is stored.\<close>

theorem parse_form_within_criteria:
  assumes "parse_form crits form = Inr scores" and "map_of scores k = Some v"
  shows "\<exists>c \<in> set crits. crit_key c = k \<and> 0 \<le> v \<and> v \<le> crit_max c"
  using parse_form_loop_lookup [of crits form "[]" scores k] assms by (auto simp: parse_form_def)

theorem parse_form_within_criteria_witness:
  "\<exists>c \<in> set [\<lparr>crit_key = ''report'', crit_title = JStr ''Report'', crit_max = 5, crit_optional = False\<rparr>].
     crit_key c = ''report'' \<and> 0 \<le> (4 :: int) \<and> 4 \<le> crit_max c"
  by (rule parse_form_within_criteria [where form = "[(''score_report'', '' 4 '')]"
        and scores = "[(''report'', 4)]"])
    (simp_all add: parse_form_def score_field_def py_strip_def is_ws_def py_isdigit_def
      is_digit_char_def is_dec_digit_def parse_int_def digit_val_def dict_set_def Let_def)

text \<open>C5. An accepted configuration adds up: once \<open>validate_assignment\<close> accepts an assignment,
  for every quiz percentage in 0..100 and every score within its criterion the grade is
  exactly the minimum plus the quiz points plus the criteria points (the clamp never bites),
  it lies in the assignment's range, full marks give exactly the maximum grade and zero marks
  exactly the minimum.\<close>

theorem validated_grade_exact:
  assumes valid: "validate_assignment a_cfg = Inr ()"
    and cfg: "or_dict (dget a_cfg ''grading'' JNull) = Inr grading"
      "py_int (dget a_cfg ''min_grade'' (JInt 0)) = Inr lo"
      "py_int (dget a_cfg ''max_grade'' (JInt 100)) = Inr hi"
      "criteria grading = Inr crits"
    and pct: "0 \<le> pct" "pct \<le> 100"
    and scores: "\<forall>c \<in> set crits. 0 \<le> score_of scores c \<and> score_of scores c \<le> crit_max c"
  shows "\<exists>b. compute grading lo hi pct scores ru = Inr b
    \<and> gs_grade b = lo + gs_quiz_points b + sum_list (map (score_of scores) crits)
    \<and> lo \<le> gs_grade b \<and> gs_grade b \<le> hi
    \<and> (pct = 100 \<and> (\<forall>c \<in> set crits. score_of scores c = crit_max c) \<longrightarrow> gs_grade b = hi)
    \<and> (pct = 0 \<and> (\<forall>c \<in> set crits. score_of scores c = 0) \<longrightarrow> gs_grade b = lo)"
proof -
  from valid cfg obtain qp where qp: "dget grading ''quiz_points'' JNull = JInt qp" "0 \<le> qp"
    and eq: "qp + sum_list (map crit_max crits) = hi - lo"
    by (auto elim!: validate_assignment_sound)
  from qp(1) have pi: "py_int (dget grading ''quiz_points'' (JInt 0)) = Inr qp"
    by (auto simp: dget_def split: option.splits)
  obtain p where p: "quiz_points_for grading pct ru = Inr p" "0 \<le> p" "p \<le> qp"
    "pct = 100 \<Longrightarrow> p = qp" "pct = 0 \<Longrightarrow> p = 0"
    using quiz_points_for_bounds [OF pi qp(2) pct] by blast
  have s0: "0 \<le> sum_list (map (score_of scores) crits)"
    using scores by (intro sum_list_nonneg_int) auto
  have s1: "sum_list (map (score_of scores) crits) \<le> sum_list (map crit_max crits)"
    using scores by (intro sum_list_mono_int) auto
  have full: "\<forall>c \<in> set crits. score_of scores c = crit_max c \<Longrightarrow>
    sum_list (map (score_of scores) crits) = sum_list (map crit_max crits)"
    by (intro arg_cong [where f = sum_list] map_cong) auto
  have zero: "\<forall>c \<in> set crits. score_of scores c = 0 \<Longrightarrow> sum_list (map (score_of scores) crits) = 0"
    by (induction crits) auto
  show ?thesis
    using p s0 s1 full zero eq pi cfg(4) by (auto simp: compute_def Let_def)
qed

theorem validated_grade_exact_witness:
  "\<exists>b. compute [(''quiz_points'', JInt 8),
         (''teacher_criteria'', JList [JObj [(''key'', JStr ''report''), (''max'', JInt 5)]])]
       0 13 75 [(''report'', 4)] False = Inr b
    \<and> gs_grade b = 0 + gs_quiz_points b + 4 \<and> 0 \<le> gs_grade b \<and> gs_grade b \<le> 13"
proof -
  let ?g = "[(''quiz_points'', JInt 8),
    (''teacher_criteria'', JList [JObj [(''key'', JStr ''report''), (''max'', JInt 5)]])]"
  let ?a = "[(''min_grade'', JInt 0), (''max_grade'', JInt 13),
    (''quiz'', JObj [(''questions'', JList [JObj []])]), (''grading'', JObj ?g)]"
  let ?c = "\<lparr>crit_key = ''report'', crit_title = JStr ''report'', crit_max = 5, crit_optional = False\<rparr>"
  have v: "validate_assignment ?a = Inr ()"
    by (simp add: validate_assignment_def dget_def lift_exn_def Let_def
        key_re_match_def key_char_def is_dec_digit_def)
  have g: "or_dict (dget ?a ''grading'' JNull) = Inr ?g"
    "py_int (dget ?a ''min_grade'' (JInt 0)) = Inr 0"
    "py_int (dget ?a ''max_grade'' (JInt 100)) = Inr 13"
    by (simp_all add: dget_def)
  have c: "criteria ?g = Inr [?c]" by (simp add: criteria_def dget_def)
  have s: "\<forall>c \<in> set [?c]. 0 \<le> score_of [(''report'', 4)] c \<and> score_of [(''report'', 4)] c \<le> crit_max c"
    by (simp add: score_of_def)
  from validated_grade_exact [OF v g c _ _ s, of 75 False] show ?thesis
    by (auto simp: score_of_def)
qed

end
