(* ===== verification/QuizScoring.thy ===== *)
theory QuizScoring
  imports Models
begin

text \<open>
  \<open>services/quiz_scoring.py\<close> and \<open>services/quiz_split.py\<close>: the score of an attempt, the credit a
  teacher's ruling gives, and the split of one draw between squad members. The lemmas: a
  well-formed attempt scores between zero and its maximum (the table's check constraint
  \<open>ck_quiz_attempts_score\<close>), crediting questions is idempotent and never lowers a score, and
  a split deals every question exactly once into slices whose sizes differ by at most one.
\<close>

definition DEFAULT_PASS_THRESHOLD_PCT :: rat where
  "DEFAULT_PASS_THRESHOLD_PCT = 6 / 10"

section \<open>Rulings\<close>

definition load_question_overrides :: "db \<Rightarrow> int option \<Rightarrow> int option \<Rightarrow> int list" where
  "load_question_overrides d cfg_id version =
     (case (cfg_id, version) of
        (Some c, Some v) \<Rightarrow>
          map ovr_question_id
            (filter (\<lambda>r. ovr_plugin_config_id r = c \<and> ovr_plugin_config_version r = v \<and> ovr_credit_all r)
              (db_overrides d))
      | _ \<Rightarrow> [])"

text \<open>\<open>{a.question_id: a for a in attempt.answers}\<close> maps a question to its last answer row; the
  rows are mutated in place, so the model keeps the row's position.\<close>

definition last_answer_index :: "quiz_answer list \<Rightarrow> int \<Rightarrow> nat option" where
  "last_answer_index ans q =
     map_of (rev (zip (map ans_question_id ans) [0..<length ans])) q"

definition credit_answer :: "int \<Rightarrow> quiz_answer \<Rightarrow> quiz_answer" where
  "credit_answer points a = a\<lparr>ans_is_correct := Some True, ans_points_earned := Some points\<rparr>"

definition created_answer :: "int \<Rightarrow> int \<Rightarrow> quiz_answer" where
  "created_answer q points =
     \<lparr>ans_question_id = q, ans_answer = NoAnswer, ans_is_correct = Some True,
      ans_points_earned = Some points, ans_timed_out = False\<rparr>"

text \<open>The loop over the snapshot: \<open>by_question\<close> is built once from the answers before the loop,
  \<open>answers\<close> is the attempt's list as it is being changed.\<close>

fun override_loop ::
  "(int \<Rightarrow> nat option) \<Rightarrow> int list \<Rightarrow> question list \<Rightarrow> quiz_answer list \<Rightarrow> nat \<Rightarrow> quiz_answer list \<times> nat"
where
  "override_loop by_question ids [] answers changed = (answers, changed)"
| "override_loop by_question ids (q # qs) answers changed =
     (if q_id q \<notin> set ids then override_loop by_question ids qs answers changed
      else
        case by_question (q_id q) of
          Some i \<Rightarrow>
            override_loop by_question ids qs
              (answers[i := credit_answer (q_points q) (answers ! i)]) (Suc changed)
        | None \<Rightarrow>
            override_loop by_question ids qs
              (answers @ [created_answer (q_id q) (q_points q)]) (Suc changed))"

definition apply_question_overrides :: "quiz_attempt \<Rightarrow> int list \<Rightarrow> quiz_attempt \<times> nat" where
  "apply_question_overrides attempt ids =
     (if ids = [] then (attempt, 0)
      else
        let (answers, changed) =
          override_loop (last_answer_index (att_answers attempt)) ids (att_questions_snapshot attempt)
            (att_answers attempt) 0
        in (attempt\<lparr>att_answers := answers\<rparr>, changed))"

section \<open>The score\<close>

fun violation_truthy :: "violation \<Rightarrow> bool" where
  "violation_truthy (VCount n) = (n \<noteq> 0)"
| "violation_truthy (VFlag b) = b"
| "violation_truthy (VEvents es) = (es \<noteq> [])"

definition force_fail :: "quiz_attempt \<Rightarrow> bool" where
  "force_fail attempt =
     (case map_of (att_violations attempt) ''_force_fail'' of
        Some v \<Rightarrow> violation_truthy v | None \<Rightarrow> False)"

definition earned :: "quiz_answer \<Rightarrow> int" where
  "earned a = (case ans_points_earned a of Some p \<Rightarrow> p | None \<Rightarrow> 0)"

definition pass_threshold :: "config_snapshot \<Rightarrow> rat" where
  "pass_threshold cs =
     (case cs_pass_threshold_pct cs of Some t \<Rightarrow> t | None \<Rightarrow> DEFAULT_PASS_THRESHOLD_PCT)"

definition score_attempt :: "quiz_attempt \<Rightarrow> int \<times> int \<times> bool \<times> bool" where
  "score_attempt attempt =
     (let force_failed = force_fail attempt;
          score = sum_list (map earned (att_answers attempt));
          max_score = sum_list (map q_points (att_questions_snapshot attempt))
      in
        if force_failed then (score, max_score, False, True)
        else
          let threshold = pass_threshold (att_config_snapshot attempt);
              is_passed =
                (if max_score > 0 then of_int score / of_int max_score \<ge> threshold else False)
          in (score, max_score, is_passed, False))"

section \<open>Splitting a draw\<close>

text \<open>\<open>split_draw\<close>: \<open>slices\<close> as a list of lists, one \<open>append\<close> per question; a member count below
  one is the \<open>ValueError\<close>.\<close>

fun deal :: "nat \<Rightarrow> nat \<Rightarrow> 'a list \<Rightarrow> 'a list list \<Rightarrow> 'a list list" where
  "deal n position [] slices = slices"
| "deal n position (x # xs) slices =
     deal n (Suc position) xs
       (slices[position mod n := slices ! (position mod n) @ [x]])"

definition split_draw :: "question list \<Rightarrow> nat \<Rightarrow> py_exn + int list list" where
  "split_draw questions member_count =
     (if member_count < 1 then Inl ValueError
      else
        let ordered = filter q_is_required questions @ filter (\<lambda>q. \<not> q_is_required q) questions
        in Inr (deal member_count 0 (map q_id ordered) (replicate member_count [])))"

section \<open>Well-formed attempts\<close>

text \<open>Every question drawn once with non-negative points, at most one answer per question, every
  answer to a question of the snapshot and worth at most its points.\<close>

definition answer_fits :: "question list \<Rightarrow> quiz_answer \<Rightarrow> bool" where
  "answer_fits qs a \<longleftrightarrow> (\<exists>q \<in> set qs. q_id q = ans_question_id a \<and> 0 \<le> earned a \<and> earned a \<le> q_points q)"

definition snapshot_ok :: "question list \<Rightarrow> bool" where
  "snapshot_ok qs \<longleftrightarrow> distinct (map q_id qs) \<and> (\<forall>q \<in> set qs. 0 \<le> q_points q)"

definition answers_ok :: "quiz_attempt \<Rightarrow> bool" where
  "answers_ok a \<longleftrightarrow>
     snapshot_ok (att_questions_snapshot a) \<and> distinct (map ans_question_id (att_answers a)) \<and>
     (\<forall>x \<in> set (att_answers a). answer_fits (att_questions_snapshot a) x)"

text \<open>What the answers earn on one question.\<close>

definition earned_on :: "quiz_answer list \<Rightarrow> int \<Rightarrow> int" where
  "earned_on ans q = sum_list (map earned (filter (\<lambda>a. ans_question_id a = q) ans))"

lemma sum_earned_split:
  assumes "distinct (map q_id qs)" and "\<forall>a \<in> set ans. ans_question_id a \<in> q_id ` set qs"
  shows "sum_list (map earned ans) = sum_list (map (\<lambda>q. earned_on ans (q_id q)) qs)"
  using assms(2)
proof (induction ans)
  case Nil
  then show ?case by (simp add: earned_on_def sum_list_triv)
next
  case (Cons a ans)
  then obtain q where q: "q \<in> set qs" "q_id q = ans_question_id a" by auto
  have one: "sum_list (map (\<lambda>q. if q_id q = ans_question_id a then earned a else 0) qs) = earned a"
    using assms(1) q
  proof (induction qs)
    case Nil
    then show ?case by simp
  next
    case (Cons p ps)
    show ?case
    proof (cases "q_id p = ans_question_id a")
      case True
      then have "\<forall>r \<in> set ps. q_id r \<noteq> ans_question_id a" using Cons.prems(1) by force
      then have "sum_list (map (\<lambda>q. if q_id q = ans_question_id a then earned a else 0) ps) = 0"
        by (induction ps) auto
      with True show ?thesis by simp
    next
      case False
      with Cons show ?thesis by auto
    qed
  qed
  have "earned_on (a # ans) k = (if k = ans_question_id a then earned a else 0) + earned_on ans k" for k
    by (simp add: earned_on_def)
  then have "sum_list (map (\<lambda>q. earned_on (a # ans) (q_id q)) qs) =
      sum_list (map (\<lambda>q. if q_id q = ans_question_id a then earned a else 0) qs)
      + sum_list (map (\<lambda>q. earned_on ans (q_id q)) qs)"
    by (simp add: sum_list_addf)
  with Cons one show ?case by simp
qed

lemma earned_on_distinct:
  assumes "distinct (map ans_question_id ans)"
  shows "earned_on ans q = (case find (\<lambda>a. ans_question_id a = q) ans of Some a \<Rightarrow> earned a | None \<Rightarrow> 0)"
  using assms
proof (induction ans)
  case Nil
  then show ?case by (simp add: earned_on_def)
next
  case (Cons a ans)
  have none: "ans_question_id a \<notin> ans_question_id ` set ans \<Longrightarrow> filter (\<lambda>b. ans_question_id b = ans_question_id a) ans = []"
    by (auto simp: filter_empty_conv dest: not_image_memD)
  show ?case
  proof (cases "ans_question_id a = q")
    case True
    with Cons.prems none show ?thesis by (auto simp: earned_on_def)
  next
    case False
    with Cons show ?thesis by (auto simp: earned_on_def)
  qed
qed

lemma earned_on_bounds:
  assumes "answers_ok a" and "q \<in> set (att_questions_snapshot a)"
  shows "0 \<le> earned_on (att_answers a) (q_id q) \<and> earned_on (att_answers a) (q_id q) \<le> q_points q"
proof (cases "find (\<lambda>x. ans_question_id x = q_id q) (att_answers a)")
  case None
  with assms show ?thesis
    by (simp add: answers_ok_def snapshot_ok_def earned_on_distinct)
next
  case (Some x)
  then have x: "x \<in> set (att_answers a)" "ans_question_id x = q_id q"
    by (auto simp: find_Some_iff)
  with assms(1) obtain p where p: "p \<in> set (att_questions_snapshot a)" "q_id p = q_id q"
    "0 \<le> earned x" "earned x \<le> q_points p" by (auto simp: answers_ok_def answer_fits_def)
  with assms have "p = q" by (auto simp: answers_ok_def snapshot_ok_def distinct_map inj_on_def)
  with Some p assms(1) show ?thesis by (simp add: answers_ok_def earned_on_distinct)
qed

lemma answers_ok_ids:
  "answers_ok a \<Longrightarrow> \<forall>x \<in> set (att_answers a). ans_question_id x \<in> q_id ` set (att_questions_snapshot a)"
  by (force simp: answers_ok_def answer_fits_def)

lemma score_attempt_bounds:
  assumes "answers_ok a" and "score_attempt a = (score, max_score, passed, failed)"
  shows "0 \<le> score \<and> score \<le> max_score"
proof -
  from assms(2) have s: "score = sum_list (map earned (att_answers a))"
    and m: "max_score = sum_list (map q_points (att_questions_snapshot a))"
    by (auto simp: score_attempt_def Let_def split: if_splits)
  have d: "distinct (map q_id (att_questions_snapshot a))"
    using assms(1) by (simp add: answers_ok_def snapshot_ok_def)
  note eq = sum_earned_split [OF d answers_ok_ids [OF assms(1)]]
  have "0 \<le> sum_list (map (\<lambda>q. earned_on (att_answers a) (q_id q)) (att_questions_snapshot a))"
    by (rule sum_list_nonneg_int) (use earned_on_bounds [OF assms(1)] in blast)
  moreover have "sum_list (map (\<lambda>q. earned_on (att_answers a) (q_id q)) (att_questions_snapshot a))
      \<le> sum_list (map q_points (att_questions_snapshot a))"
    by (rule sum_list_mono_int) (use earned_on_bounds [OF assms(1)] in blast)
  ultimately show ?thesis by (simp add: s m eq)
qed

section \<open>Crediting questions\<close>

lemma last_answer_index_Some:
  assumes "last_answer_index ans q = Some i"
  shows "i < length ans \<and> ans_question_id (ans ! i) = q"
proof -
  from assms have "(q, i) \<in> set (zip (map ans_question_id ans) [0..<length ans])"
    unfolding last_answer_index_def by (auto dest!: map_of_SomeD)
  then show ?thesis by (auto simp: set_zip)
qed

lemma last_answer_index_None:
  "last_answer_index ans q = None \<longleftrightarrow> q \<notin> ans_question_id ` set ans"
proof -
  have "fst ` set (zip (map ans_question_id ans) [0..<length ans]) = ans_question_id ` set ans"
    by (metis length_map length_upt list.set_map map_fst_zip minus_nat.diff_0)
  then show ?thesis unfolding last_answer_index_def map_of_eq_None_iff by simp
qed

text \<open>The loop on a well-formed attempt, as one map and one append.\<close>

definition credited :: "int list \<Rightarrow> question list \<Rightarrow> quiz_answer \<Rightarrow> quiz_answer" where
  "credited ids qs a =
     (case find (\<lambda>q. q_id q = ans_question_id a \<and> q_id q \<in> set ids) qs of
        Some q \<Rightarrow> credit_answer (q_points q) a
      | None \<Rightarrow> a)"

definition missing :: "int list \<Rightarrow> question list \<Rightarrow> quiz_answer list \<Rightarrow> question list" where
  "missing ids qs ans = filter (\<lambda>q. q_id q \<in> set ids \<and> q_id q \<notin> ans_question_id ` set ans) qs"

definition credit_spec :: "int list \<Rightarrow> question list \<Rightarrow> quiz_answer list \<Rightarrow> quiz_answer list" where
  "credit_spec ids qs ans =
     map (credited ids qs) ans @ map (\<lambda>q. created_answer (q_id q) (q_points q)) (missing ids qs ans)"

lemma credit_answer_simps [simp]:
  "ans_question_id (credit_answer p a) = ans_question_id a"
  "earned (credit_answer p a) = p"
  "credit_answer p (credit_answer p' a) = credit_answer p a"
  "ans_timed_out (credit_answer p a) = ans_timed_out a"
  by (simp_all add: credit_answer_def earned_def)

lemma created_answer_simps [simp]:
  "ans_question_id (created_answer q p) = q" "earned (created_answer q p) = p"
  "credit_answer p (created_answer q p) = created_answer q p"
  by (simp_all add: created_answer_def credit_answer_def earned_def)

lemma credited_id [simp]: "ans_question_id (credited ids qs a) = ans_question_id a"
  by (simp add: credited_def split: option.splits)

lemma credited_Cons_other:
  "q_id q \<noteq> ans_question_id a \<Longrightarrow> credited ids (q # qs) a = credited ids qs a"
  by (simp add: credited_def)

lemma credited_not_in:
  "ans_question_id a \<notin> q_id ` set qs \<Longrightarrow> credited ids qs a = a"
proof -
  assume "ans_question_id a \<notin> q_id ` set qs"
  then have "find (\<lambda>q. q_id q = ans_question_id a \<and> q_id q \<in> set ids) qs = None"
    by (auto simp: find_None_iff dest: not_image_memD)
  then show ?thesis by (simp add: credited_def)
qed

lemma override_loop_spec:
  assumes "distinct (map q_id qs)" and "distinct (map ans_question_id cur)"
    and "map ans_question_id cur = map ans_question_id ans"
  shows "override_loop (last_answer_index ans) ids qs (cur @ extra) n =
    (map (credited ids qs) cur @ extra @ map (\<lambda>q. created_answer (q_id q) (q_points q)) (missing ids qs ans),
     n + length (filter (\<lambda>q. q_id q \<in> set ids) qs))"
  using assms
proof (induction qs arbitrary: cur extra n)
  case Nil
  have "credited ids [] = (\<lambda>a. a)" by (simp add: credited_def fun_eq_iff)
  then show ?case by (simp add: missing_def)
next
  case (Cons q qs)
  from Cons.prems(3) have ids_eq: "ans_question_id ` set cur = ans_question_id ` set ans"
    by (metis list.set_map)
  from Cons.prems(3) have len: "length cur = length ans" by (metis length_map)
  show ?case
  proof (cases "q_id q \<in> set ids")
    case False
    then have "credited ids (q # qs) = credited ids qs" by (simp add: credited_def fun_eq_iff)
    with False Cons show ?thesis by (simp add: missing_def)
  next
    case True
    show ?thesis
    proof (cases "last_answer_index ans (q_id q)")
      case None
      then have notin: "q_id q \<notin> ans_question_id ` set ans" by (simp add: last_answer_index_None)
      then have "map (credited ids (q # qs)) cur = map (credited ids qs) cur"
        using ids_eq by (intro map_cong) (auto intro!: credited_Cons_other)
      with True None notin Cons show ?thesis by (simp add: missing_def)
    next
      case (Some i)
      then have i: "i < length ans" "ans_question_id (ans ! i) = q_id q"
        by (auto dest: last_answer_index_Some)
      with len have icur: "i < length cur" by simp
      have curi: "ans_question_id (cur ! i) = q_id q"
        using i Cons.prems(3) len by (metis nth_map)
      let ?c = "credit_answer (q_points q) (cur ! i)"
      have mapid: "map ans_question_id (cur[i := ?c]) = map ans_question_id cur"
        by (metis credit_answer_simps(1) list_update_id map_update)
      have upd: "map (credited ids qs) (cur[i := ?c]) = map (credited ids (q # qs)) cur"
      proof (rule nth_equalityI)
        show "length (map (credited ids qs) (cur[i := ?c])) = length (map (credited ids (q # qs)) cur)"
          by simp
        fix j assume j: "j < length (map (credited ids qs) (cur[i := ?c]))"
        have "q_id q \<notin> q_id ` set qs" using Cons.prems(1) by simp
        then have self: "credited ids qs ?c = ?c" by (intro credited_not_in) (simp add: curi)
        show "map (credited ids qs) (cur[i := ?c]) ! j = map (credited ids (q # qs)) cur ! j"
        proof (cases "j = i")
          case True
          with j icur self curi \<open>q_id q \<in> set ids\<close> show ?thesis by (simp add: credited_def)
        next
          case False
          with j icur Cons.prems(2) curi have "ans_question_id (cur ! j) \<noteq> q_id q"
            by (simp add: distinct_conv_nth) metis
          with False j show ?thesis by (simp add: credited_Cons_other)
        qed
      qed
      have app: "(cur @ extra)[i := ?c] = cur[i := ?c] @ extra" using icur by (simp add: list_update_append)
      have "q_id q \<in> ans_question_id ` set ans" using i by (blast intro: image_memI nth_mem)
      then have miss: "missing ids (q # qs) ans = missing ids qs ans" by (simp add: missing_def)
      have "override_loop (last_answer_index ans) ids (q # qs) (cur @ extra) n =
        override_loop (last_answer_index ans) ids qs (cur[i := ?c] @ extra) (Suc n)"
        using True Some icur by (simp add: app nth_append)
      also have "\<dots> = (map (credited ids qs) (cur[i := ?c]) @ extra @
          map (\<lambda>q. created_answer (q_id q) (q_points q)) (missing ids qs ans),
          Suc n + length (filter (\<lambda>q. q_id q \<in> set ids) qs))"
        by (rule Cons.IH) (use Cons.prems mapid in simp_all)
      finally show ?thesis using True by (simp add: upd miss)
    qed
  qed
qed

lemma apply_question_overrides_spec:
  assumes "answers_ok a"
  shows "apply_question_overrides a ids =
    (a\<lparr>att_answers := credit_spec ids (att_questions_snapshot a) (att_answers a)\<rparr>,
     length (filter (\<lambda>q. q_id q \<in> set ids) (att_questions_snapshot a)))"
proof (cases "ids = []")
  case True
  have "credited [] qs = (\<lambda>a. a)" for qs
    by (auto simp: credited_def fun_eq_iff find_None_iff split: option.splits)
       (metis find_Some_iff)
  with True show ?thesis by (simp add: apply_question_overrides_def credit_spec_def missing_def)
next
  case False
  have "override_loop (last_answer_index (att_answers a)) ids (att_questions_snapshot a)
      (att_answers a @ []) 0 =
    (credit_spec ids (att_questions_snapshot a) (att_answers a),
     0 + length (filter (\<lambda>q. q_id q \<in> set ids) (att_questions_snapshot a)))"
    using assms unfolding credit_spec_def
    by (subst override_loop_spec) (auto simp: answers_ok_def snapshot_ok_def)
  with False show ?thesis by (simp add: apply_question_overrides_def)
qed

lemma distinct_credit_spec:
  assumes "distinct (map ans_question_id ans)" and "distinct (map q_id qs)"
  shows "distinct (map ans_question_id (credit_spec ids qs ans))"
proof -
  have "map ans_question_id (credit_spec ids qs ans) =
      map ans_question_id ans @ map q_id (missing ids qs ans)"
    by (simp add: credit_spec_def)
  moreover have "distinct (map q_id (missing ids qs ans))"
    using assms(2) unfolding missing_def by (rule distinct_map_filter)
  moreover have "set (map q_id (missing ids qs ans)) \<inter> set (map ans_question_id ans) = {}"
    by (auto simp: missing_def)
  ultimately show ?thesis using assms(1) by auto
qed

lemma credited_fits:
  assumes "snapshot_ok qs" and "answer_fits qs a"
  shows "answer_fits qs (credited ids qs a)"
proof (cases "find (\<lambda>q. q_id q = ans_question_id a \<and> q_id q \<in> set ids) qs")
  case None
  with assms(2) show ?thesis by (simp add: credited_def)
next
  case (Some q)
  then have "q \<in> set qs" "q_id q = ans_question_id a" by (auto simp: find_Some_iff)
  with Some assms(1) show ?thesis
    by (auto simp: credited_def answer_fits_def snapshot_ok_def)
qed

lemma answers_ok_credit_spec:
  assumes "answers_ok a"
  shows "answers_ok (a\<lparr>att_answers := credit_spec ids (att_questions_snapshot a) (att_answers a)\<rparr>)"
proof -
  let ?qs = "att_questions_snapshot a"
  have ok: "snapshot_ok ?qs" "distinct (map q_id ?qs)" "distinct (map ans_question_id (att_answers a))"
    using assms by (auto simp: answers_ok_def snapshot_ok_def)
  have "answer_fits ?qs x" if "x \<in> set (credit_spec ids ?qs (att_answers a))" for x
  proof -
    from that consider y where "y \<in> set (att_answers a)" "x = credited ids ?qs y"
      | q where "q \<in> set ?qs" "x = created_answer (q_id q) (q_points q)"
      by (auto simp: credit_spec_def missing_def)
    then show ?thesis
    proof cases
      case 1
      with assms ok(1) show ?thesis by (auto simp: answers_ok_def intro: credited_fits)
    next
      case 2
      with ok(1) show ?thesis by (auto simp: answer_fits_def snapshot_ok_def)
    qed
  qed
  with ok distinct_credit_spec [OF ok(3,2)] show ?thesis by (simp add: answers_ok_def)
qed

lemma find_question:
  "distinct (map q_id qs) \<Longrightarrow> q \<in> set qs \<Longrightarrow> q_id q = k \<Longrightarrow>
     find (\<lambda>r. q_id r = k \<and> q_id r \<in> set ids) qs = (if k \<in> set ids then Some q else None)"
proof (induction qs)
  case Nil
  then show ?case by simp
next
  case (Cons p ps)
  show ?case
  proof (cases "p = q")
    case True
    have "find (\<lambda>r. q_id r = k \<and> q_id r \<in> set ids) ps = None" if "k \<notin> set ids"
      using that by (auto simp: find_None_iff)
    with True Cons.prems show ?thesis by auto
  next
    case False
    with Cons.prems have "q \<in> set ps" "q_id p \<noteq> k" by (auto dest: not_image_memD)
    with Cons show ?thesis by auto
  qed
qed

text \<open>What an overridden question earns after the credit, and what it earned before otherwise.\<close>

lemma earned_on_credit_spec:
  assumes "answers_ok a" and q: "q \<in> set (att_questions_snapshot a)"
  shows "earned_on (credit_spec ids (att_questions_snapshot a) (att_answers a)) (q_id q) =
    (if q_id q \<in> set ids then q_points q else earned_on (att_answers a) (q_id q))"
proof -
  let ?qs = "att_questions_snapshot a" and ?ans = "att_answers a"
  have d: "distinct (map q_id ?qs)" "distinct (map ans_question_id ?ans)"
    using assms(1) by (auto simp: answers_ok_def snapshot_ok_def)
  have head: "earned_on (map (credited ids ?qs) ans) (q_id q) =
      (if q_id q \<in> set ids \<and> q_id q \<in> ans_question_id ` set ans then q_points q
       else earned_on ans (q_id q))" if "distinct (map ans_question_id ans)" for ans
    using that
  proof (induction ans)
    case Nil
    then show ?case by (simp add: earned_on_def)
  next
    case (Cons x xs)
    have cx: "credited ids ?qs x = (if q_id q \<in> set ids then credit_answer (q_points q) x else x)"
      if "ans_question_id x = q_id q"
      using find_question [OF d(1) q, of "ans_question_id x" ids] that by (simp add: credited_def)
    show ?case
    proof (cases "ans_question_id x = q_id q")
      case True
      have "filter (\<lambda>b. ans_question_id b = q_id q) xs = []"
        using Cons.prems True by (auto simp: filter_empty_conv dest: not_image_memD)
      moreover have "filter (\<lambda>b. ans_question_id b = q_id q) (map (credited ids ?qs) xs) = []"
        using Cons.prems True by (auto simp: filter_empty_conv dest: not_image_memD)
      ultimately show ?thesis using True by (simp add: earned_on_def cx)
    next
      case False
      then have "earned_on (map (credited ids ?qs) (x # xs)) (q_id q) =
          earned_on (map (credited ids ?qs) xs) (q_id q)"
        "earned_on (x # xs) (q_id q) = earned_on xs (q_id q)" by (simp_all add: earned_on_def)
      moreover have "q_id q \<in> ans_question_id ` set (x # xs) \<longleftrightarrow> q_id q \<in> ans_question_id ` set xs"
        using False by auto
      ultimately show ?thesis using Cons by simp
    qed
  qed
  have tail: "earned_on (map (\<lambda>q. created_answer (q_id q) (q_points q)) ps) (q_id q) =
      (if q \<in> set ps then q_points q else 0)" if "distinct (map q_id ps)" "set ps \<subseteq> set ?qs" for ps
    using that
  proof (induction ps)
    case Nil
    then show ?case by (simp add: earned_on_def)
  next
    case (Cons p ps)
    have same: "q_id p = q_id q \<Longrightarrow> p = q"
      using Cons.prems(2) q d(1) by (auto simp: distinct_map inj_on_def)
    have "q_id p \<notin> q_id ` set ps" using Cons.prems(1) by simp
    then have notin: "p = q \<Longrightarrow> q \<notin> set ps" by (auto dest: not_image_memD)
    have IH: "earned_on (map (\<lambda>q. created_answer (q_id q) (q_points q)) ps) (q_id q) =
        (if q \<in> set ps then q_points q else 0)" using Cons by simp
    show ?case
    proof (cases "p = q")
      case True
      with IH notin show ?thesis by (simp add: earned_on_def)
    next
      case False
      with IH same show ?thesis by (auto simp: earned_on_def)
    qed
  qed
  have miss: "distinct (map q_id (missing ids ?qs ?ans))" "set (missing ids ?qs ?ans) \<subseteq> set ?qs"
    using d(1) by (auto simp: missing_def intro: distinct_map_filter)
  have zero: "q_id q \<notin> ans_question_id ` set ?ans \<Longrightarrow> earned_on ?ans (q_id q) = 0"
  proof -
    assume "q_id q \<notin> ans_question_id ` set ?ans"
    then have "filter (\<lambda>a. ans_question_id a = q_id q) ?ans = []"
      by (auto simp: filter_empty_conv dest: not_image_memD)
    then show ?thesis by (simp add: earned_on_def)
  qed
  have "earned_on (credit_spec ids ?qs ?ans) (q_id q) =
      earned_on (map (credited ids ?qs) ?ans) (q_id q)
      + earned_on (map (\<lambda>q. created_answer (q_id q) (q_points q)) (missing ids ?qs ?ans)) (q_id q)"
    by (simp add: credit_spec_def earned_on_def)
  also have "\<dots> = (if q_id q \<in> set ids then q_points q else earned_on ?ans (q_id q))"
    using head [OF d(2)] tail [OF miss] zero q by (auto simp: missing_def)
  finally show ?thesis .
qed

lemma credit_spec_idem:
  assumes "distinct (map q_id qs)"
  shows "credit_spec ids qs (credit_spec ids qs ans) = credit_spec ids qs ans"
proof -
  have c: "credited ids qs (credited ids qs a) = credited ids qs a" for a
  proof (cases "find (\<lambda>q. q_id q = ans_question_id a \<and> q_id q \<in> set ids) qs")
    case None
    then show ?thesis by (simp add: credited_def)
  next
    case (Some q)
    then have "credited ids qs a = credit_answer (q_points q) a" by (simp add: credited_def)
    with Some show ?thesis by (simp add: credited_def)
  qed
  have k: "credited ids qs (created_answer (q_id q) (q_points q)) = created_answer (q_id q) (q_points q)"
    if "q \<in> set qs" "q_id q \<in> set ids" for q
    using find_question [OF assms that(1) refl, of ids] that(2) by (simp add: credited_def)
  have "ans_question_id ` set (credit_spec ids qs ans) =
      ans_question_id ` set ans \<union> q_id ` set (missing ids qs ans)"
    by (simp add: credit_spec_def image_Un image_image)
  then have "missing ids qs (credit_spec ids qs ans) = []"
    by (auto simp: missing_def filter_empty_conv)
  then show ?thesis
    unfolding credit_spec_def [of ids qs "credit_spec ids qs ans"]
    by (auto simp: credit_spec_def c k missing_def)
qed

lemma score_credit_spec:
  assumes "answers_ok a"
  shows "sum_list (map earned (credit_spec ids (att_questions_snapshot a) (att_answers a))) =
    sum_list (map (\<lambda>q. if q_id q \<in> set ids then q_points q else earned_on (att_answers a) (q_id q))
      (att_questions_snapshot a))"
proof -
  let ?a = "a\<lparr>att_answers := credit_spec ids (att_questions_snapshot a) (att_answers a)\<rparr>"
  have ok: "answers_ok ?a" by (rule answers_ok_credit_spec [OF assms])
  have d: "distinct (map q_id (att_questions_snapshot a))"
    using assms by (simp add: answers_ok_def snapshot_ok_def)
  have "sum_list (map earned (att_answers ?a)) =
      sum_list (map (\<lambda>q. earned_on (att_answers ?a) (q_id q)) (att_questions_snapshot a))"
    using sum_earned_split [OF d] answers_ok_ids [OF ok] by simp
  then show ?thesis
    using earned_on_credit_spec [OF assms] by (auto intro!: arg_cong [where f = sum_list])
qed


lemma score_never_lowered:
  assumes "answers_ok a"
  shows "sum_list (map earned (att_answers a))
    \<le> sum_list (map earned (credit_spec ids (att_questions_snapshot a) (att_answers a)))"
proof -
  let ?qs = "att_questions_snapshot a"
  have d: "distinct (map q_id ?qs)" using assms by (simp add: answers_ok_def snapshot_ok_def)
  have "sum_list (map earned (att_answers a)) =
      sum_list (map (\<lambda>q. earned_on (att_answers a) (q_id q)) ?qs)"
    by (rule sum_earned_split [OF d answers_ok_ids [OF assms]])
  also have "\<dots> \<le> sum_list (map (\<lambda>q. if q_id q \<in> set ids then q_points q
      else earned_on (att_answers a) (q_id q)) ?qs)"
    by (rule sum_list_mono_int) (use earned_on_bounds [OF assms] in auto)
  finally show ?thesis by (simp add: score_credit_spec [OF assms])
qed

lemma pass_monotone:
  assumes "score_attempt a = (s, m, True, f)" and "att_questions_snapshot b = att_questions_snapshot a"
    and "att_config_snapshot b = att_config_snapshot a" and "att_violations b = att_violations a"
    and "sum_list (map earned (att_answers a)) \<le> sum_list (map earned (att_answers b))"
  shows "fst (snd (snd (score_attempt b)))"
proof -
  from assms(1) have nf: "\<not> force_fail a" and m: "m = sum_list (map q_points (att_questions_snapshot a))"
    and pos: "0 < m"
    and thr: "pass_threshold (att_config_snapshot a) \<le> of_int (sum_list (map earned (att_answers a))) / of_int m"
    by (auto simp: score_attempt_def Let_def split: if_splits)
  have "\<not> force_fail b" using nf assms(4) by (simp add: force_fail_def)
  moreover have "pass_threshold (att_config_snapshot a) \<le> of_int (sum_list (map earned (att_answers b))) / of_int m"
    using thr assms(5) pos by (meson divide_right_mono of_int_0_le_iff of_int_le_iff order.trans less_imp_le)
  ultimately show ?thesis using assms(2,3) m pos by (simp add: score_attempt_def Let_def)
qed

section \<open>Dealing\<close>

text \<open>What lies in slice \<open>i\<close> once the cards from position \<open>p\<close> on are dealt.\<close>

lemma deal_length [simp]: "length (deal n p xs ss) = length ss"
  by (induction xs arbitrary: p ss) auto

lemma mset_deal:
  assumes "0 < n" and "length ss = n"
  shows "mset (concat (deal n p xs ss)) = mset (concat ss) + mset xs"
  using assms(2)
proof (induction xs arbitrary: p ss)
  case Nil
  then show ?case by simp
next
  case (Cons x xs)
  have i: "p mod n < length ss" using assms(1) Cons.prems by simp
  have "mset (concat (ss[p mod n := ss ! (p mod n) @ [x]])) = mset (concat ss) + {#x#}"
    using i
  proof (induction ss arbitrary: p)
    case Nil
    then show ?case by simp
  next
    case (Cons s ss)
    have upd: "mset (concat (ts[k := ts ! k @ [x]])) = mset (concat ts) + {#x#}"
      if "k < length ts" for k and ts :: "'a list list"
      using that
      by (subst (2) id_take_nth_drop [OF that]) (simp add: upd_conv_take_nth_drop [OF that])
    show ?case by (rule upd) (rule Cons.prems)
  qed
  with Cons show ?case by simp
qed

text \<open>The number of positions below \<open>p\<close> that are dealt to slice \<open>i\<close>.\<close>

definition dealt_to :: "nat \<Rightarrow> nat \<Rightarrow> nat \<Rightarrow> nat" where
  "dealt_to n i p = (p + (n - 1 - i)) div n"

lemma dealt_to_0 [simp]: "i < n \<Longrightarrow> dealt_to n i 0 = 0"
  by (simp add: dealt_to_def)

lemma dealt_to_Suc:
  assumes "i < n"
  shows "dealt_to n i (Suc p) = dealt_to n i p + (if p mod n = i then 1 else 0)"
proof -
  define r where "r = p mod n"
  define k where "k = p div n"
  have p: "p = k * n + r" and r: "r < n" using assms by (simp_all add: r_def k_def)
  have d: "(k * n + c) div n = k + c div n" for c using assms by simp
  have lhs: "dealt_to n i (Suc p) = k + (r + (n - i)) div n"
  proof -
    have "Suc p + (n - 1 - i) = k * n + (r + (n - i))" using assms p by simp
    then show ?thesis unfolding dealt_to_def by (simp only: d)
  qed
  have rhs: "dealt_to n i p = k + (r + (n - 1 - i)) div n"
    unfolding dealt_to_def p by (simp only: add.assoc d)
  have "(r + (n - i)) div n = (if i \<le> r then 1 else 0)"
    using r assms by (auto simp: div_nat_eqI intro!: div_nat_eqI)
  moreover have "(r + (n - 1 - i)) div n = (if i < r then 1 else 0)"
    using r assms by (auto intro!: div_nat_eqI)
  ultimately show ?thesis unfolding lhs rhs r_def [symmetric] by auto
qed

lemma deal_sizes:
  assumes "i < n" and "length ss = n" and "length (ss ! i) = dealt_to n i p"
  shows "length (deal n p xs ss ! i) = dealt_to n i (p + length xs)"
  using assms(2,3)
proof (induction xs arbitrary: p ss)
  case Nil
  then show ?case by simp
next
  case (Cons x xs)
  have m: "p mod n < n" using assms(1) by simp
  have "length (ss[p mod n := ss ! (p mod n) @ [x]] ! i) = dealt_to n i (Suc p)"
    using Cons.prems m assms(1) by (simp add: dealt_to_Suc nth_list_update)
  then have "length (deal n (Suc p) xs (ss[p mod n := ss ! (p mod n) @ [x]]) ! i) =
      dealt_to n i (Suc p + length xs)" using Cons by simp
  then show ?case by simp
qed

lemma dealt_to_bounds:
  assumes "i < n"
  shows "p div n \<le> dealt_to n i p \<and> dealt_to n i p \<le> Suc (p div n)"
proof
  show "p div n \<le> dealt_to n i p" unfolding dealt_to_def by (rule div_le_mono) simp
  have "dealt_to n i p \<le> (p + n) div n" unfolding dealt_to_def by (rule div_le_mono) simp
  also have "\<dots> = Suc (p div n)" using assms by simp
  finally show "dealt_to n i p \<le> Suc (p div n)" .
qed


lemma split_draw_dealt:
  assumes "split_draw questions n = Inr slices"
  shows "length slices = n" and "mset (concat slices) = mset (map q_id questions)"
    and "i < n \<Longrightarrow> length (slices ! i) = dealt_to n i (length questions)"
proof -
  define ordered where
    "ordered = filter q_is_required questions @ filter (\<lambda>q. \<not> q_is_required q) questions"
  from assms have n: "0 < n" and s: "slices = deal n 0 (map q_id ordered) (replicate n [])"
    by (auto simp: split_draw_def ordered_def Let_def split: if_splits)
  have perm: "mset ordered = mset questions" by (simp add: ordered_def)
  then have len: "length ordered = length questions" by (rule mset_eq_length)
  show "length slices = n" by (simp add: s)
  have "mset (concat slices) = mset (map q_id ordered)"
    unfolding s by (subst mset_deal [OF n]) simp_all
  also have "\<dots> = mset (map q_id questions)" using perm by simp
  finally show "mset (concat slices) = mset (map q_id questions)" .
  show "length (slices ! i) = dealt_to n i (length questions)" if "i < n"
    unfolding s using deal_sizes [OF that, of "replicate n []" 0 "map q_id ordered"] that len by simp
qed

section \<open>Properties\<close>

definition sample_question :: "int \<Rightarrow> int \<Rightarrow> bool \<Rightarrow> question" where
  "sample_question i p req =
     \<lparr>q_id = i, q_body = TrueFalse True, q_text = ''q'', q_points = p, q_is_required = req,
      q_time_limit_seconds = None\<rparr>"

definition sample_attempt :: "question list \<Rightarrow> quiz_answer list \<Rightarrow> (string \<times> violation) list \<Rightarrow> quiz_attempt" where
  "sample_attempt qs ans vs =
     \<lparr>att_id = 1, att_submission_id = 1, att_plugin_config_id = Some 1,
      att_plugin_config_version = Some 1, att_student_id = Some 1, att_questions_snapshot = qs,
      att_config_snapshot = \<lparr>cs_pass_threshold_pct = None, cs_anti_cheat = JObj [],
        cs_review_mode = JNull, cs_squad = None, cs_max_quiz_attempts = None,
        cs_time_limit_minutes = None, cs_per_question_timing = False\<rparr>,
      att_started_at = 0, att_submitted_at = None, att_current_index = 0,
      att_question_started_at = None, att_paused_at = None, att_paused_seconds = 0,
      att_score = None, att_max_score = None, att_is_passed = None, att_violations = vs,
      att_status = Attempt_IN_PROGRESS, att_answers = ans\<rparr>"

definition sample_answer :: "int \<Rightarrow> int \<Rightarrow> bool \<Rightarrow> quiz_answer" where
  "sample_answer q p c =
     \<lparr>ans_question_id = q, ans_answer = TruthValue c, ans_is_correct = Some c,
      ans_points_earned = Some p, ans_timed_out = False\<rparr>"

lemmas sample_defs = sample_question_def sample_attempt_def sample_answer_def

text \<open>C21. The score of a well-formed attempt lies between zero and its maximum, so the check
  constraint of the attempts table can never fail; the attempt passes exactly when no
  anti-cheat rule failed it, some question is worth points and the share of points earned
  reaches the threshold (sixty percent when the configuration sets none).\<close>

theorem score_attempt_correct:
  assumes "answers_ok a" and "score_attempt a = (score, max_score, passed, failed)"
  shows "0 \<le> score \<and> score \<le> max_score \<and> failed = force_fail a \<and>
    (passed \<longleftrightarrow> \<not> force_fail a \<and> 0 < max_score \<and>
       pass_threshold (att_config_snapshot a) * of_int max_score \<le> of_int score)"
proof -
  have "passed \<longleftrightarrow> \<not> force_fail a \<and> 0 < max_score \<and>
      pass_threshold (att_config_snapshot a) \<le> of_int score / of_int max_score"
    and "failed = force_fail a"
    using assms(2) by (auto simp: score_attempt_def Let_def split: if_splits)
  moreover have "0 < max_score \<Longrightarrow>
      pass_threshold (att_config_snapshot a) \<le> of_int score / of_int max_score \<longleftrightarrow>
      pass_threshold (att_config_snapshot a) * of_int max_score \<le> of_int score"
    by (simp add: pos_le_divide_eq)
  ultimately show ?thesis using score_attempt_bounds [OF assms] by auto
qed

theorem score_attempt_correct_witness:
  "(let a = sample_attempt [sample_question 1 3 True, sample_question 2 2 False]
              [sample_answer 1 3 True, sample_answer 2 0 False] [] in
    score_attempt a = (3, 5, True, False) \<and> (0::int) \<le> 3 \<and> (3::int) \<le> 5)"
proof -
  define a where "a = sample_attempt [sample_question 1 3 True, sample_question 2 2 False]
    [sample_answer 1 3 True, sample_answer 2 0 False] []"
  have ok: "answers_ok a"
    by (simp add: a_def sample_defs answers_ok_def snapshot_ok_def answer_fits_def earned_def)
  have s: "score_attempt a = (3, 5, True, False)"
    by (simp add: a_def sample_defs score_attempt_def force_fail_def earned_def pass_threshold_def
        DEFAULT_PASS_THRESHOLD_PCT_def)
  from score_attempt_correct [OF ok s] have "(0::int) \<le> 3" "(3::int) \<le> 5" by auto
  with s show ?thesis by (simp add: a_def Let_def)
qed

text \<open>Crediting a set of questions to an attempt gives each of them its full points, leaves
  what every other question earned, keeps the attempt well-formed, never lowers the score and
  never turns a pass into a fail; crediting again changes nothing, though the same number of
  questions is reported.\<close>

theorem overrides_credit_and_converge:
  assumes "answers_ok a" and "apply_question_overrides a ids = (b, n)"
  shows "answers_ok b \<and> apply_question_overrides b ids = (b, n) \<and>
    (\<forall>q \<in> set (att_questions_snapshot a). earned_on (att_answers b) (q_id q) =
       (if q_id q \<in> set ids then q_points q else earned_on (att_answers a) (q_id q))) \<and>
    fst (score_attempt a) \<le> fst (score_attempt b) \<and>
    (fst (snd (snd (score_attempt a))) \<longrightarrow> fst (snd (snd (score_attempt b))))"
proof -
  let ?qs = "att_questions_snapshot a"
  have b: "b = a\<lparr>att_answers := credit_spec ids ?qs (att_answers a)\<rparr>"
    and n: "n = length (filter (\<lambda>q. q_id q \<in> set ids) ?qs)"
    using assms(2) by (auto simp: apply_question_overrides_spec [OF assms(1)])
  have d: "distinct (map q_id ?qs)" using assms(1) by (simp add: answers_ok_def snapshot_ok_def)
  have ok: "answers_ok b" unfolding b by (rule answers_ok_credit_spec [OF assms(1)])
  have idem: "apply_question_overrides b ids = (b, n)"
    by (simp add: apply_question_overrides_spec [OF ok]) (simp add: b n credit_spec_idem [OF d])
  have le: "sum_list (map earned (att_answers a)) \<le> sum_list (map earned (att_answers b))"
    using score_never_lowered [OF assms(1)] by (simp add: b)
  have fst_score: "fst (score_attempt c) = sum_list (map earned (att_answers c))" for c
    by (simp add: score_attempt_def Let_def)
  have "fst (snd (snd (score_attempt b)))" if "fst (snd (snd (score_attempt a)))"
  proof -
    obtain s m p f where a: "score_attempt a = (s, m, p, f)" by (cases "score_attempt a")
    with that have "score_attempt a = (s, m, True, f)" by simp
    then show ?thesis by (rule pass_monotone) (use le in \<open>simp_all add: b\<close>)
  qed
  then show ?thesis
    using ok idem le earned_on_credit_spec [OF assms(1)] by (simp add: fst_score b)
qed

theorem overrides_credit_and_converge_witness:
  "(let a = sample_attempt [sample_question 1 3 True, sample_question 2 2 False]
              [sample_answer 1 0 False] [];
        b = fst (apply_question_overrides a [1, 2]) in
    fst (score_attempt a) = 0 \<and> fst (score_attempt b) = 5 \<and> apply_question_overrides b [1, 2] = (b, 2))"
proof -
  define a where "a = sample_attempt [sample_question 1 3 True, sample_question 2 2 False]
    [sample_answer 1 0 False] []"
  have ok: "answers_ok a"
    by (simp add: a_def sample_defs answers_ok_def snapshot_ok_def answer_fits_def earned_def)
  have n: "snd (apply_question_overrides a [1, 2]) = 2"
    by (simp add: apply_question_overrides_spec [OF ok]) (simp add: a_def sample_defs)
  then obtain b where b: "apply_question_overrides a [1, 2] = (b, 2)"
    by (cases "apply_question_overrides a [1, 2]") simp
  from overrides_credit_and_converge [OF ok b] have "apply_question_overrides b [1, 2] = (b, 2)"
    by blast
  moreover have "fst (score_attempt b) = 5"
    using b by (simp add: a_def sample_defs apply_question_overrides_def last_answer_index_def
        credit_answer_def created_answer_def score_attempt_def Let_def earned_def upt_rec)
      (auto simp: earned_def)
  moreover have "fst (score_attempt a) = 0"
    by (simp add: a_def sample_defs score_attempt_def Let_def earned_def)
  ultimately show ?thesis using b by (simp add: a_def Let_def)
qed

text \<open>Splitting a squad's draw hands every question to exactly one member: the slices
  together are a permutation of the draw, one slice per member, and each slice has the even
  share of the questions, rounded down or up, so two slices differ by at most one question.\<close>

theorem split_draw_partition:
  assumes "split_draw questions n = Inr slices"
  shows "length slices = n \<and> mset (concat slices) = mset (map q_id questions) \<and>
    (\<forall>i < n. length questions div n \<le> length (slices ! i) \<and>
             length (slices ! i) \<le> Suc (length questions div n))"
  using split_draw_dealt [OF assms] dealt_to_bounds by simp

theorem split_draw_partition_witness:
  "split_draw [sample_question 1 1 False, sample_question 2 1 True, sample_question 3 1 False,
     sample_question 4 1 True, sample_question 5 1 False] 2 = Inr [[2, 1, 5], [4, 3]] \<and>
   length [[2, 1, 5], [4, 3 :: int]] = 2"
proof -
  have s: "split_draw [sample_question 1 1 False, sample_question 2 1 True, sample_question 3 1 False,
     sample_question 4 1 True, sample_question 5 1 False] 2 = Inr [[2, 1, 5], [4, 3]]"
    by code_simp
  from split_draw_partition [OF s] s show ?thesis by blast
qed

end
