(* ===== verification/Squads.thy ===== *)
theory Squads
  imports Models
begin

text \<open>
  \<open>services/squads.py\<close>: forming a squad by invitations or by the teacher, and the seam that finds
  the submission of a student's squad. A rule violation is the left summand; the operations
  return the database of the transaction as it stands, because a refused accept keeps what it
  wrote (\<open>routes/student_squads.py\<close> commits it).

  The session does not flush by itself (\<open>core/database.py\<close>), so a query sees a row as it was at the
  last \<open>flush\<close>; where the source changes an object and queries before the flush, the query here
  reads the earlier database. \<open>scalar_one_or_none\<close> on a join that a unique constraint limits to
  one row is the first row. \<open>now\<close> is the request's clock.
\<close>

datatype squad_error = SquadError string "int option" | SquadExn py_exn

section \<open>Lookups\<close>

definition max_size :: "db \<Rightarrow> int \<Rightarrow> int option" where
  "max_size d subject_id = Option.bind (get_subject d subject_id) subj_squad_max_size"

definition members_of :: "db \<Rightarrow> int \<Rightarrow> squad_member list" where
  "members_of d squad_id = filter (\<lambda>m. mem_squad_id m = squad_id) (db_members d)"

definition member_in :: "db \<Rightarrow> int \<Rightarrow> int \<Rightarrow> int \<Rightarrow> bool" where
  "member_in d squad_id subject_id student_id =
     list_ex (\<lambda>m. mem_squad_id m = squad_id \<and> mem_subject_id m = subject_id \<and> mem_student_id m = student_id)
       (db_members d)"

definition squad_of :: "db \<Rightarrow> int \<Rightarrow> int \<Rightarrow> bool \<Rightarrow> squad option" where
  "squad_of d subject_id student_id locked_only =
     find (\<lambda>s. member_in d (sq_id s) subject_id student_id \<and> (locked_only \<longrightarrow> sq_locked_at s \<noteq> None))
       (db_squads d)"

definition active_squad :: "db \<Rightarrow> int \<Rightarrow> int \<Rightarrow> squad option" where
  "active_squad d subject_id student_id = squad_of d subject_id student_id True"

definition list_squads :: "db \<Rightarrow> int \<Rightarrow> squad list" where
  "list_squads d subject_id = sort_key sq_id (filter (\<lambda>s. sq_subject_id s = subject_id) (db_squads d))"

text \<open>The join submission, student's assignment, assignment: whose submission it is and in
  which subject.\<close>

definition submission_owner :: "db \<Rightarrow> submission \<Rightarrow> (int \<times> int) option" where
  "submission_owner d s =
     (case get_sa d (sub_students_assignment_id s) of
        None \<Rightarrow> None
      | Some sa \<Rightarrow>
          (case get_assignment d (sa_subjects_assignment_id sa) of
             None \<Rightarrow> None
           | Some asg \<Rightarrow> Some (asg_subject_id asg, sa_student_id sa)))"

definition has_submissions :: "db \<Rightarrow> int \<Rightarrow> int \<Rightarrow> bool" where
  "has_submissions d subject_id student_id =
     list_ex (\<lambda>s. submission_owner d s = Some (subject_id, student_id)) (db_submissions d)"

definition enrolled :: "db \<Rightarrow> int \<Rightarrow> int \<Rightarrow> bool" where
  "enrolled d subject_id student_id =
     list_ex (\<lambda>e. enr_subject_id e = subject_id \<and> enr_student_id e = student_id) (db_enrolments d)"

definition eligibility :: "db \<Rightarrow> int \<Rightarrow> int \<Rightarrow> string option" where
  "eligibility d subject_id student_id =
     (if max_size d subject_id = None then Some ''disabled''
      else if \<not> enrolled d subject_id student_id then Some ''not_enrolled''
      else if map_option stu_type (get_student d student_id) = Some TEST then Some ''test_student''
      else if squad_of d subject_id student_id False \<noteq> None then Some ''already_in_squad''
      else if has_submissions d subject_id student_id then Some ''has_submissions''
      else None)"

definition eligible_student_ids :: "db \<Rightarrow> int \<Rightarrow> int set" where
  "eligible_student_ids d subject_id =
     (if max_size d subject_id = None then {}
      else
        let enrolled_ids = set (map enr_student_id (filter (\<lambda>e. enr_subject_id e = subject_id \<and>
              map_option stu_type (get_student d (enr_student_id e)) = Some REAL) (db_enrolments d)))
        in
          if enrolled_ids = {} then {}
          else
            let in_squad = set (map mem_student_id
                  (filter (\<lambda>m. mem_subject_id m = subject_id) (db_members d)));
                has_submission = snd ` {p \<in> set (List.map_filter (submission_owner d) (db_submissions d)).
                  fst p = subject_id}
            in enrolled_ids - in_squad - has_submission)"

definition eligible_classmates :: "db \<Rightarrow> int \<Rightarrow> int \<Rightarrow> student list" where
  "eligible_classmates d subject_id student_id =
     (let ids = eligible_student_ids d subject_id - {student_id} in
      if ids = {} then []
      else sort_key stu_full_name (filter (\<lambda>s. stu_id s \<in> ids) (db_students d)))"

definition pending_in :: "db \<Rightarrow> int \<Rightarrow> squad_invite list" where
  "pending_in d squad_id =
     filter (\<lambda>i. inv_squad_id i = squad_id \<and> inv_status i = Invite_PENDING) (db_invites d)"

definition squad_has_pending_invites :: "db \<Rightarrow> int \<Rightarrow> int \<Rightarrow> bool" where
  "squad_has_pending_invites d subject_id student_id =
     (case squad_of d subject_id student_id False of
        None \<Rightarrow> False
      | Some s \<Rightarrow> pending_in d (sq_id s) \<noteq> [])"

definition invite_in_subject :: "db \<Rightarrow> int \<Rightarrow> squad_invite \<Rightarrow> bool" where
  "invite_in_subject d subject_id i =
     (map_option sq_subject_id (get_squad d (inv_squad_id i)) = Some subject_id)"

text \<open>The PENDING invites of a subject that a student sent or received.\<close>

definition pending_of :: "db \<Rightarrow> int \<Rightarrow> int \<Rightarrow> squad_invite list" where
  "pending_of d subject_id student_id =
     filter (\<lambda>i. invite_in_subject d subject_id i \<and> inv_status i = Invite_PENDING \<and>
         (inv_invited_student_id i = student_id \<or> inv_invited_by_student_id i = Some student_id))
       (db_invites d)"

definition has_pending_invites :: "db \<Rightarrow> int \<Rightarrow> int \<Rightarrow> bool" where
  "has_pending_invites d subject_id student_id = (pending_of d subject_id student_id \<noteq> [])"

record pending_squads =
  ps_squad :: "squad option"
  ps_outgoing :: "squad_invite list"
  ps_incoming :: "squad_invite list"

definition pending_state :: "db \<Rightarrow> int \<Rightarrow> int \<Rightarrow> pending_squads" where
  "pending_state d subject_id student_id =
     (let own = (case squad_of d subject_id student_id False of
                   Some s \<Rightarrow> if sq_locked_at s = None then Some s else None
                 | None \<Rightarrow> None)
      in \<lparr>ps_squad = own,
          ps_outgoing = (case own of Some s \<Rightarrow> pending_in d (sq_id s) | None \<Rightarrow> []),
          ps_incoming = filter (\<lambda>i. invite_in_subject d subject_id i \<and>
              inv_invited_student_id i = student_id \<and> inv_status i = Invite_PENDING) (db_invites d)\<rparr>)"

section \<open>Notifications\<close>

definition notify_student :: "int \<Rightarrow> string \<Rightarrow> int \<Rightarrow> (string \<times> string) list \<Rightarrow> db \<Rightarrow> db" where
  "notify_student student_id k subject_id fmt d =
     (case user_of_student d student_id of
        None \<Rightarrow> d
      | Some user_id \<Rightarrow>
          push_notification user_id (''notif_'' @ k @ ''_title'') fmt
            (''/portal/subjects/'' @ str_of_int subject_id) d)"

definition student_name :: "db \<Rightarrow> int \<Rightarrow> string option" where
  "student_name d student_id = map_option stu_full_name (get_student d student_id)"

fun join_names :: "string list \<Rightarrow> string" where
  "join_names [] = ''''"
| "join_names [n] = n"
| "join_names (n # ns) = n @ '', '' @ join_names ns"

definition member_names :: "db \<Rightarrow> int \<Rightarrow> string" where
  "member_names d squad_id =
     join_names (sort (List.map_filter (\<lambda>m. student_name d (mem_student_id m)) (members_of d squad_id)))"

text \<open>An absent name is formatted as \<open>None\<close>.\<close>

definition name_arg :: "db \<Rightarrow> int \<Rightarrow> string" where
  "name_arg d student_id = (case student_name d student_id of Some n \<Rightarrow> n | None \<Rightarrow> ''None'')"

section \<open>Formation\<close>

definition require_eligible :: "db \<Rightarrow> int \<Rightarrow> int \<Rightarrow> squad_error + unit" where
  "require_eligible d subject_id student_id =
     (case eligibility d subject_id student_id of
        Some reason \<Rightarrow> Inl (SquadError reason (Some student_id))
      | None \<Rightarrow> Inr ())"

text \<open>\<open>db.delete(squad)\<close> with the cascades of the model: members and invites go with it, and a
  submission that names it loses the reference.\<close>

definition delete_squad :: "int \<Rightarrow> db \<Rightarrow> db" where
  "delete_squad squad_id d =
     d\<lparr>db_squads := filter (\<lambda>s. sq_id s \<noteq> squad_id) (db_squads d),
       db_members := filter (\<lambda>m. mem_squad_id m \<noteq> squad_id) (db_members d),
       db_invites := filter (\<lambda>i. inv_squad_id i \<noteq> squad_id) (db_invites d),
       db_submissions := map (\<lambda>s. if sub_squad_id s = Some squad_id then s\<lparr>sub_squad_id := None\<rparr> else s)
         (db_submissions d)\<rparr>"

definition delete_if_empty :: "squad \<Rightarrow> db \<Rightarrow> bool \<times> db" where
  "delete_if_empty s d =
     (if length (members_of d (sq_id s)) \<le> 1 \<and> pending_in d (sq_id s) = [] \<and> sq_locked_at s = None
      then (True, delete_squad (sq_id s) d) else (False, d))"

definition set_invite :: "int \<Rightarrow> squad_invite_status \<Rightarrow> db \<Rightarrow> db" where
  "set_invite i st d = upd_invite i (\<lambda>r. r\<lparr>inv_status := st\<rparr>) d"

definition cancel_invites :: "int list \<Rightarrow> db \<Rightarrow> db" where
  "cancel_invites ids d = fold (\<lambda>i. set_invite i Invite_CANCELLED) ids d"

text \<open>The keys of a dictionary filled in this order.\<close>

definition dedup :: "'a list \<Rightarrow> 'a list" where
  "dedup xs = rev (remdups (rev xs))"

fun sweep_empty :: "int option \<Rightarrow> int \<Rightarrow> int list \<Rightarrow> db \<Rightarrow> db" where
  "sweep_empty excluded subject_id [] d = d"
| "sweep_empty excluded subject_id (k # ks) d =
     (if Some k = excluded then sweep_empty excluded subject_id ks d
      else
        case get_squad d k of
          None \<Rightarrow> sweep_empty excluded subject_id ks d
        | Some s \<Rightarrow>
            let (deleted, d') = delete_if_empty s d in
            sweep_empty excluded subject_id ks
              (case sq_created_by_student_id s of
                 Some creator \<Rightarrow>
                   if deleted then notify_student creator ''cancelled'' subject_id [] d' else d'
               | None \<Rightarrow> d'))"

definition cancel_pending_of :: "int option \<Rightarrow> int \<Rightarrow> int \<Rightarrow> db \<Rightarrow> db" where
  "cancel_pending_of exclude_invite_id subject_id student_id d =
     (let doomed = filter (\<lambda>i. Some (inv_id i) \<noteq> exclude_invite_id) (pending_of d subject_id student_id);
          affected = dedup (map inv_squad_id doomed);
          d1 = cancel_invites (map inv_id doomed) d;
          excluded = Option.bind exclude_invite_id (\<lambda>i. map_option inv_squad_id (get_invite d1 i))
      in sweep_empty excluded subject_id affected d1)"

definition invite_subject_id :: "db \<Rightarrow> int \<Rightarrow> int option" where
  "invite_subject_id d invite_id =
     Option.bind (get_invite d invite_id) (\<lambda>i. map_option sq_subject_id (get_squad d (inv_squad_id i)))"

fun first_refusal :: "db \<Rightarrow> int \<Rightarrow> int list \<Rightarrow> squad_error option" where
  "first_refusal d subject_id [] = None"
| "first_refusal d subject_id (sid # ids) =
     (case require_eligible d subject_id sid of
        Inl e \<Rightarrow> Some e
      | Inr _ \<Rightarrow> first_refusal d subject_id ids)"

definition add_squad :: "int \<Rightarrow> int option \<Rightarrow> int option \<Rightarrow> string option \<Rightarrow> int option \<Rightarrow> db \<Rightarrow> int \<times> db" where
  "add_squad subject_id by_student by_user name locked d =
     (db_next d,
      d\<lparr>db_squads := db_squads d @
          [\<lparr>sq_id = db_next d, sq_subject_id = subject_id, sq_name = name,
            sq_created_by_student_id = by_student, sq_created_by_user_id = by_user,
            sq_locked_at = locked\<rparr>],
        db_next := db_next d + 1\<rparr>)"

definition add_member :: "int \<Rightarrow> int \<Rightarrow> int \<Rightarrow> int \<Rightarrow> db \<Rightarrow> db" where
  "add_member now squad_id subject_id student_id d =
     d\<lparr>db_members := db_members d @
         [\<lparr>mem_squad_id = squad_id, mem_student_id = student_id, mem_subject_id = subject_id,
           mem_joined_at = now\<rparr>]\<rparr>"

definition add_invite :: "int \<Rightarrow> int option \<Rightarrow> int \<Rightarrow> db \<Rightarrow> db" where
  "add_invite squad_id by sid d =
     d\<lparr>db_invites := db_invites d @
         [\<lparr>inv_id = db_next d, inv_squad_id = squad_id, inv_invited_student_id = sid,
           inv_invited_by_student_id = by, inv_status = Invite_PENDING\<rparr>],
       db_next := db_next d + 1\<rparr>"

definition invite_loop :: "int \<Rightarrow> int \<Rightarrow> int \<Rightarrow> string \<Rightarrow> int list \<Rightarrow> db \<Rightarrow> db" where
  "invite_loop squad_id subject_id creator_id creator_name ids d =
     fold (\<lambda>sid d. notify_student sid ''invited'' subject_id [(''name'', creator_name)]
                     (add_invite squad_id (Some creator_id) sid d)) ids d"

definition create_with_invites ::
  "int \<Rightarrow> int \<Rightarrow> int \<Rightarrow> int list \<Rightarrow> db \<Rightarrow> db \<times> (squad_error + int)"
where
  "create_with_invites now subject_id creator_id ids d =
     (case max_size d subject_id of
        None \<Rightarrow> (d, Inl (SquadError ''disabled'' None))
      | Some cap \<Rightarrow>
          if \<not> distinct ids then (d, Inl (SquadError ''duplicate'' None))
          else if creator_id \<in> set ids then (d, Inl (SquadError ''self_invite'' None))
          else if ids = [] then (d, Inl (SquadError ''too_few'' None))
          else if int (length ids) > cap - 1 then (d, Inl (SquadError ''too_many'' None))
          else
            case first_refusal d subject_id (creator_id # ids) of
              Some e \<Rightarrow> (d, Inl e)
            | None \<Rightarrow>
                let (squad_id, d1) = add_squad subject_id (Some creator_id) None None None d;
                    d2 = add_member now squad_id subject_id creator_id d1;
                    d3 = invite_loop squad_id subject_id creator_id (name_arg d creator_id) ids d2
                in (audit ''squad_create'' None (Some squad_id) d3, Inr squad_id))"

definition load_invite :: "db \<Rightarrow> int \<Rightarrow> squad_error + squad_invite" where
  "load_invite d invite_id =
     (case get_invite d invite_id of
        Some i \<Rightarrow> if inv_status i = Invite_PENDING then Inr i else Inl (SquadError ''not_pending'' None)
      | None \<Rightarrow> Inl (SquadError ''not_pending'' None))"

definition accept_refusal :: "db \<Rightarrow> squad \<Rightarrow> int \<Rightarrow> int \<Rightarrow> string option" where
  "accept_refusal d s student_id cap =
     (case eligibility d (sq_subject_id s) student_id of
        Some reason \<Rightarrow> Some reason
      | None \<Rightarrow>
          if sq_locked_at s \<noteq> None then Some ''squad_locked''
          else if int (length (members_of d (sq_id s))) \<ge> cap then Some ''squad_full''
          else None)"

text \<open>\<open>inv.status = ACCEPTED\<close> is not flushed before the query for the other PENDING invites of a
  squad that is now full, so that query reads \<open>d2\<close>, where the accepted invite is still PENDING.\<close>

definition lock_if_full :: "int \<Rightarrow> int \<Rightarrow> squad \<Rightarrow> db \<Rightarrow> db \<Rightarrow> db" where
  "lock_if_full now cap s queried d =
     (if int (length (members_of queried (sq_id s))) \<ge> cap
      then cancel_invites (map inv_id (pending_in queried (sq_id s)))
             (upd_squad (sq_id s) (\<lambda>r. r\<lparr>sq_locked_at := Some now\<rparr>) d)
      else d)"

definition accept_invite :: "int \<Rightarrow> int \<Rightarrow> int \<Rightarrow> db \<Rightarrow> db \<times> (squad_error + int)" where
  "accept_invite now invite_id student_id d =
     (case load_invite d invite_id of
        Inl e \<Rightarrow> (d, Inl e)
      | Inr invite \<Rightarrow>
          if inv_invited_student_id invite \<noteq> student_id then (d, Inl (SquadError ''not_yours'' None))
          else
            case get_squad d (inv_squad_id invite) of
              None \<Rightarrow> (d, Inl (SquadExn AttributeError))
            | Some s \<Rightarrow>
                let subject_id = sq_subject_id s;
                    cap = (case max_size d subject_id of Some n \<Rightarrow> n | None \<Rightarrow> 0)
                in
                  case accept_refusal d s student_id cap of
                    Some reason \<Rightarrow>
                      (set_invite invite_id Invite_CANCELLED d, Inl (SquadError reason (Some student_id)))
                  | None \<Rightarrow>
                      let d1 = add_member now (sq_id s) subject_id student_id d;
                          d2 = cancel_pending_of (Some invite_id) subject_id student_id d1;
                          d3 = set_invite invite_id Invite_ACCEPTED d2;
                          d4 = lock_if_full now cap s d2 d3;
                          d5 = audit ''squad_join'' None (Some (sq_id s)) d4
                      in
                        (case (inv_invited_by_student_id invite, student_name d student_id) of
                           (Some by, Some name) \<Rightarrow>
                             notify_student by ''accepted'' subject_id [(''name'', name)] d5
                         | _ \<Rightarrow> d5,
                         Inr (sq_id s)))"

definition decline_invite :: "int \<Rightarrow> int \<Rightarrow> db \<Rightarrow> db \<times> (squad_error + unit)" where
  "decline_invite invite_id student_id d =
     (case load_invite d invite_id of
        Inl e \<Rightarrow> (d, Inl e)
      | Inr invite \<Rightarrow>
          if inv_invited_student_id invite \<noteq> student_id then (d, Inl (SquadError ''not_yours'' None))
          else
            let d1 = set_invite invite_id Invite_DECLINED d in
            case get_squad d (inv_squad_id invite) of
              None \<Rightarrow> (d1, Inl (SquadExn AttributeError))
            | Some s \<Rightarrow>
                let d2 = (case inv_invited_by_student_id invite of
                            None \<Rightarrow> d1
                          | Some by \<Rightarrow>
                              notify_student by ''declined'' (sq_subject_id s)
                                [(''name'', name_arg d student_id)] d1)
                in (snd (delete_if_empty s d2), Inr ()))"

definition cancel_invite :: "int \<Rightarrow> int \<Rightarrow> db \<Rightarrow> db \<times> (squad_error + unit)" where
  "cancel_invite invite_id student_id d =
     (case load_invite d invite_id of
        Inl e \<Rightarrow> (d, Inl e)
      | Inr invite \<Rightarrow>
          case get_squad d (inv_squad_id invite) of
            None \<Rightarrow> (d, Inl (SquadExn AttributeError))
          | Some s \<Rightarrow>
              if sq_created_by_student_id s \<noteq> Some student_id
              then (d, Inl (SquadError ''not_yours'' None))
              else
                let d1 = set_invite invite_id Invite_CANCELLED d;
                    d2 = notify_student (inv_invited_student_id invite) ''cancelled'' (sq_subject_id s) [] d1
                in (snd (delete_if_empty s d2), Inr ()))"

definition teacher_assign ::
  "int \<Rightarrow> int \<Rightarrow> int \<Rightarrow> int list \<Rightarrow> string option \<Rightarrow> db \<Rightarrow> db \<times> (squad_error + int)"
where
  "teacher_assign now subject_id teacher_user_id ids name d =
     (case max_size d subject_id of
        None \<Rightarrow> (d, Inl (SquadError ''disabled'' None))
      | Some cap \<Rightarrow>
          if \<not> distinct ids then (d, Inl (SquadError ''duplicate'' None))
          else if length ids < 2 then (d, Inl (SquadError ''too_few'' None))
          else if int (length ids) > cap then (d, Inl (SquadError ''too_many'' None))
          else
            case first_refusal d subject_id ids of
              Some e \<Rightarrow> (d, Inl e)
            | None \<Rightarrow>
                if list_ex (\<lambda>sid. get_student d sid = None) ids then (d, Inl (SquadExn KeyError))
                else
                let label = py_strip (case name of Some n \<Rightarrow> n | None \<Rightarrow> '''');
                    (squad_id, d1) = add_squad subject_id None (Some teacher_user_id)
                      (if label = '''' then None else Some label) (Some now) d;
                    d2 = fold (add_member now squad_id subject_id) ids d1;
                    d3 = fold (cancel_pending_of None subject_id) ids d2;
                    names = member_names d3 squad_id;
                    d4 = fold (\<lambda>sid. notify_student sid ''assigned'' subject_id [(''members'', names)]) ids d3
                in (audit ''squad_assign'' (Some teacher_user_id) (Some squad_id) d4, Inr squad_id))"

definition lock_on_submit :: "int \<Rightarrow> int \<Rightarrow> db \<Rightarrow> db" where
  "lock_on_submit now squad_id d =
     upd_squad squad_id
       (\<lambda>s. if sq_locked_at s = None then s\<lparr>sq_locked_at := Some now\<rparr> else s) d"

section \<open>The scope of a submission\<close>

definition find_sa :: "db \<Rightarrow> int \<Rightarrow> int \<Rightarrow> student_assignment option" where
  "find_sa d student_id assignment_id =
     find (\<lambda>sa. sa_student_id sa = student_id \<and> sa_subjects_assignment_id sa = assignment_id) (db_sas d)"

definition add_sa :: "int \<Rightarrow> int \<Rightarrow> db \<Rightarrow> int \<times> db" where
  "add_sa student_id assignment_id d =
     (db_next d,
      d\<lparr>db_sas := db_sas d @
          [\<lparr>sa_id = db_next d, sa_student_id = student_id, sa_subjects_assignment_id = assignment_id,
            sa_grade = None, sa_variant = None, sa_teacher_scores = None\<rparr>],
        db_next := db_next d + 1\<rparr>)"

fun member_sa_ids_loop :: "int \<Rightarrow> squad_member list \<Rightarrow> db \<Rightarrow> int list \<times> db" where
  "member_sa_ids_loop assignment_id [] d = ([], d)"
| "member_sa_ids_loop assignment_id (m # ms) d =
     (let (i, d1) = (case find_sa d (mem_student_id m) assignment_id of
                       Some sa \<Rightarrow> (sa_id sa, d)
                     | None \<Rightarrow> add_sa (mem_student_id m) assignment_id d);
          (is, d2) = member_sa_ids_loop assignment_id ms d1
      in (i # is, d2))"

definition member_sa_ids :: "int \<Rightarrow> int \<Rightarrow> db \<Rightarrow> int list \<times> db" where
  "member_sa_ids squad_id assignment_id d = member_sa_ids_loop assignment_id (members_of d squad_id) d"

definition scope_sa_ids :: "int \<Rightarrow> int \<Rightarrow> int \<Rightarrow> db \<Rightarrow> int list \<times> db" where
  "scope_sa_ids student_id subject_id assignment_id d =
     (case active_squad d subject_id student_id of
        None \<Rightarrow> (case find_sa d student_id assignment_id of Some sa \<Rightarrow> ([sa_id sa], d) | None \<Rightarrow> ([], d))
      | Some s \<Rightarrow> member_sa_ids (sq_id s) assignment_id d)"

text \<open>\<open>order_by(created_at desc, id desc)\<close>, first row.\<close>

definition newest :: "submission list \<Rightarrow> submission option" where
  "newest xs =
     (case sort_key (\<lambda>s. - sub_created_at s) (sort_key (\<lambda>s. - sub_id s) xs) of
        [] \<Rightarrow> None | s # _ \<Rightarrow> Some s)"

definition latest_submission_for :: "int \<Rightarrow> int \<Rightarrow> int \<Rightarrow> db \<Rightarrow> submission option \<times> db" where
  "latest_submission_for student_id subject_id assignment_id d =
     (let (scope, d1) = scope_sa_ids student_id subject_id assignment_id d in
      if scope = [] then (None, d1)
      else (newest (filter (\<lambda>s. sub_students_assignment_id s \<in> set scope) (db_submissions d1)), d1))"

definition latest_submission :: "student_assignment \<Rightarrow> db \<Rightarrow> submission option \<times> db" where
  "latest_submission sa d =
     (case get_assignment d (sa_subjects_assignment_id sa) of
        None \<Rightarrow> (None, d)
      | Some asg \<Rightarrow> latest_submission_for (sa_student_id sa) (asg_subject_id asg) (asg_id asg) d)"

definition squad_for_submission :: "db \<Rightarrow> submission \<Rightarrow> squad option" where
  "squad_for_submission d s = Option.bind (sub_squad_id s) (get_squad d)"

definition passed_student_ids :: "db \<Rightarrow> int \<Rightarrow> int set" where
  "passed_student_ids d submission_id =
     set (List.map_filter (\<lambda>a. if att_submission_id a = submission_id \<and> att_is_passed a = Some True
                               then att_student_id a else None) (db_attempts d))"

definition enrolled_member_ids :: "db \<Rightarrow> squad \<Rightarrow> int set" where
  "enrolled_member_ids d s =
     set (map mem_student_id (members_of d (sq_id s))) \<inter>
     set (map enr_student_id (filter (\<lambda>e. enr_subject_id e = sq_subject_id s) (db_enrolments d)))"

definition quiz_complete :: "db \<Rightarrow> submission \<Rightarrow> bool" where
  "quiz_complete d s =
     (case squad_for_submission d s of
        None \<Rightarrow> list_ex (\<lambda>a. att_submission_id a = sub_id s \<and> att_is_passed a = Some True) (db_attempts d)
      | Some sq \<Rightarrow>
          let needed = enrolled_member_ids d sq in
          needed \<noteq> {} \<and> needed \<subseteq> passed_student_ids d (sub_id s))"

record member_quiz_state =
  mq_student_id :: int
  mq_full_name :: string
  mq_submitted :: bool
  mq_passed :: bool
  mq_attempts_used :: nat

definition attempts_used :: "db \<Rightarrow> int \<Rightarrow> int \<Rightarrow> nat" where
  "attempts_used d submission_id student_id =
     length (filter (\<lambda>a. att_submission_id a = submission_id \<and> att_student_id a = Some student_id \<and>
               att_status a \<in> set terminal_attempt_statuses) (db_attempts d))"

definition member_quiz_states :: "db \<Rightarrow> submission \<Rightarrow> member_quiz_state list" where
  "member_quiz_states d s =
     (case squad_for_submission d s of
        None \<Rightarrow> []
      | Some sq \<Rightarrow>
          let submitter = map_option sa_student_id (get_sa d (sub_students_assignment_id s));
              passed = passed_student_ids d (sub_id s)
          in sort_key mq_full_name
               (map (\<lambda>m. \<lparr>mq_student_id = mem_student_id m, mq_full_name = name_arg d (mem_student_id m),
                         mq_submitted = (submitter = Some (mem_student_id m)),
                         mq_passed = (mem_student_id m \<in> passed),
                         mq_attempts_used = attempts_used d (sub_id s) (mem_student_id m)\<rparr>)
                 (members_of d (sq_id sq))))"

record squad_share =
  sh_submission :: submission
  sh_squad :: squad
  sh_passed_student_ids :: "int set"

text \<open>The subquery's groups: squad, assignment, newest creation time. A submission is listed when
  its own time is its group's newest.\<close>

definition submission_asg :: "db \<Rightarrow> submission \<Rightarrow> int option" where
  "submission_asg d s = map_option sa_subjects_assignment_id (get_sa d (sub_students_assignment_id s))"

definition group_newest :: "db \<Rightarrow> submission \<Rightarrow> bool" where
  "group_newest d s =
     (sub_squad_id s \<noteq> None \<and> submission_asg d s \<noteq> None \<and>
      list_all (\<lambda>t. sub_squad_id t = sub_squad_id s \<and> submission_asg d t = submission_asg d s \<longrightarrow>
          sub_created_at t \<le> sub_created_at s) (db_submissions d))"

definition shared_rows :: "db \<Rightarrow> int \<Rightarrow> int option \<Rightarrow> submission list" where
  "shared_rows d subject_id asg =
     filter (\<lambda>s. group_newest d s \<and>
         map_option sq_subject_id (squad_for_submission d s) = Some subject_id \<and>
         (asg = None \<or> submission_asg d s = asg)) (db_submissions d)"

definition shared_submissions :: "db \<Rightarrow> int \<Rightarrow> int option \<Rightarrow> ((int \<times> int) \<times> squad_share) list" where
  "shared_submissions d subject_id asg =
     fold (\<lambda>s out.
         case (squad_for_submission d s, submission_asg d s) of
           (Some sq, Some a) \<Rightarrow>
             fold (\<lambda>m. AList.update (mem_student_id m, a)
                 \<lparr>sh_submission = s, sh_squad = sq, sh_passed_student_ids = passed_student_ids d (sub_id s)\<rparr>)
               (members_of d (sq_id sq)) out
         | _ \<Rightarrow> out)
       (shared_rows d subject_id asg) []"


section \<open>The student's routes\<close>

text \<open>\<open>routes/student_squads.py\<close>. The reply is a redirect back to the subject's page; a form value
  that \<open>isdigit\<close> accepts and \<open>int\<close> refuses is an unhandled \<open>ValueError\<close>.\<close>

definition back_error :: "int \<Rightarrow> string \<Rightarrow> reply" where
  "back_error subject_id reason =
     Redirect (''/portal/subjects/'' @ str_of_int subject_id @ ''?squad_error='' @ reason)"

definition back_flash :: "int \<Rightarrow> string \<Rightarrow> reply" where
  "back_flash subject_id flash =
     Redirect (''/portal/subjects/'' @ str_of_int subject_id @ ''?squad_flash='' @ flash)"

definition parse_ids :: "string list \<Rightarrow> py_exn + int list" where
  "parse_ids raw =
     map_result (\<lambda>v. case parse_int v of Some n \<Rightarrow> Inr n | None \<Rightarrow> Inl ValueError) (filter py_isdigit raw)"

definition create_squad_route :: "int \<Rightarrow> int \<Rightarrow> int \<Rightarrow> string list \<Rightarrow> db \<Rightarrow> db \<times> reply" where
  "create_squad_route now subject_id student_id raw_ids d =
     (if \<not> enrolled d subject_id student_id then (d, HttpError 404 ''Not enrolled in this subject'')
      else
        case parse_ids raw_ids of
          Inl e \<Rightarrow> (d, ServerError e)
        | Inr ids \<Rightarrow>
            (case create_with_invites now subject_id student_id ids d of
               (d', Inl (SquadError reason _)) \<Rightarrow> (d, back_error subject_id reason)
             | (d', Inl (SquadExn e)) \<Rightarrow> (d, ServerError e)
             | (d', Inr _) \<Rightarrow> (d', back_flash subject_id ''invited'')))"

datatype verb = Accept | Decline | Cancel

definition answer_call :: "verb \<Rightarrow> int \<Rightarrow> int \<Rightarrow> int \<Rightarrow> db \<Rightarrow> db \<times> (squad_error + unit)" where
  "answer_call v now invite_id student_id d =
     (case v of
        Accept \<Rightarrow> map_prod id (map_sum id (\<lambda>_. ())) (accept_invite now invite_id student_id d)
      | Decline \<Rightarrow> decline_invite invite_id student_id d
      | Cancel \<Rightarrow> cancel_invite invite_id student_id d)"

definition verb_flash :: "verb \<Rightarrow> string" where
  "verb_flash v = (case v of Accept \<Rightarrow> ''joined'' | Decline \<Rightarrow> ''declined'' | Cancel \<Rightarrow> ''cancelled'')"

definition answer_route :: "verb \<Rightarrow> int \<Rightarrow> int \<Rightarrow> int \<Rightarrow> int \<Rightarrow> db \<Rightarrow> db \<times> reply" where
  "answer_route v now subject_id student_id invite_id d =
     (if \<not> enrolled d subject_id student_id then (d, HttpError 404 ''Not enrolled in this subject'')
      else if invite_subject_id d invite_id \<noteq> Some subject_id
      then (d, back_error subject_id ''not_yours'')
      else
        case answer_call v now invite_id student_id d of
          (d', Inl (SquadError reason _)) \<Rightarrow>
            (if v = Accept then d' else d, back_error subject_id reason)
        | (d', Inl (SquadExn e)) \<Rightarrow> (d, ServerError e)
        | (d', Inr _) \<Rightarrow> (d', back_flash subject_id (verb_flash v)))"

end
