(* ===== verification/SquadInvariants.thy ===== *)
theory SquadInvariants
  imports Squads
begin

text \<open>
  What the squad operations keep true of the tables: a student is in at most one squad of a
  subject, no squad outgrows the subject's size, members and invites point at existing squads,
  and a locked squad has no open invitation. Proved first for the writes the operations are
  made of, then for every operation, then for every sequence of them.
\<close>

definition squads_ok :: "db \<Rightarrow> bool" where
  "squads_ok d \<longleftrightarrow>
     (\<forall>s \<in> set (db_squads d). sq_id s < db_next d) \<and>
     (\<forall>i \<in> set (db_invites d). inv_id i < db_next d) \<and>
     distinct (map sq_id (db_squads d)) \<and> distinct (map inv_id (db_invites d)) \<and>
     (\<forall>m \<in> set (db_members d). \<exists>s \<in> set (db_squads d).
        sq_id s = mem_squad_id m \<and> sq_subject_id s = mem_subject_id m) \<and>
     distinct (map (\<lambda>m. (mem_subject_id m, mem_student_id m)) (db_members d)) \<and>
     (\<forall>i \<in> set (db_invites d). inv_squad_id i \<in> sq_id ` set (db_squads d)) \<and>
     (\<forall>s \<in> set (db_squads d). \<forall>n. max_size d (sq_subject_id s) = Some n \<longrightarrow>
        int (length (members_of d (sq_id s))) \<le> n) \<and>
     (\<forall>s \<in> set (db_squads d). sq_locked_at s \<noteq> None \<longrightarrow> pending_in d (sq_id s) = [])"

text \<open>Two databases with the same squad tables.\<close>

definition same_squads :: "db \<Rightarrow> db \<Rightarrow> bool" where
  "same_squads d d' \<longleftrightarrow>
     db_next d' = db_next d \<and> db_squads d' = db_squads d \<and> db_members d' = db_members d \<and>
     db_invites d' = db_invites d \<and> db_subjects d' = db_subjects d"

lemma same_squads_ok: "same_squads d d' \<Longrightarrow> squads_ok d' = squads_ok d"
  by (simp add: same_squads_def squads_ok_def max_size_def get_subject_def members_of_def pending_in_def)

lemma same_squads_refl [simp]: "same_squads d d"
  by (simp add: same_squads_def)

lemma notify_fields [simp]:
  "db_squads (notify_student sid k subj fmt d) = db_squads d"
  "db_members (notify_student sid k subj fmt d) = db_members d"
  "db_invites (notify_student sid k subj fmt d) = db_invites d"
  "db_subjects (notify_student sid k subj fmt d) = db_subjects d"
  "db_next (notify_student sid k subj fmt d) = db_next d"
  "db_students (notify_student sid k subj fmt d) = db_students d"
  "db_enrolments (notify_student sid k subj fmt d) = db_enrolments d"
  "db_sas (notify_student sid k subj fmt d) = db_sas d"
  "db_assignments (notify_student sid k subj fmt d) = db_assignments d"
  "db_submissions (notify_student sid k subj fmt d) = db_submissions d"
  by (auto simp: notify_student_def push_notification_def split: option.splits)

lemma audit_fields [simp]:
  "db_squads (audit a b c d) = db_squads d" "db_members (audit a b c d) = db_members d"
  "db_invites (audit a b c d) = db_invites d" "db_subjects (audit a b c d) = db_subjects d"
  "db_next (audit a b c d) = db_next d" "db_submissions (audit a b c d) = db_submissions d"
  by (simp_all add: audit_def)

lemma notify_ok [simp]: "squads_ok (notify_student sid k subj fmt d) = squads_ok d"
  by (rule same_squads_ok) (simp add: same_squads_def)

lemma audit_ok [simp]: "squads_ok (audit a b c d) = squads_ok d"
  by (rule same_squads_ok) (simp add: same_squads_def)

section \<open>The writes\<close>

lemma set_invite_fields [simp]:
  "db_squads (set_invite i st d) = db_squads d" "db_members (set_invite i st d) = db_members d"
  "db_subjects (set_invite i st d) = db_subjects d" "db_next (set_invite i st d) = db_next d"
  "db_invites (set_invite i st d) =
     map (\<lambda>r. if inv_id r = i then r\<lparr>inv_status := st\<rparr> else r) (db_invites d)"
  by (simp_all add: set_invite_def upd_invite_def upd_row_def)

lemma set_invite_pending:
  assumes "st \<noteq> Invite_PENDING"
  shows "pending_in (set_invite i st d) k = filter (\<lambda>r. inv_id r \<noteq> i) (pending_in d k)"
proof -
  have "filter (\<lambda>r. inv_squad_id r = k \<and> inv_status r = Invite_PENDING)
      (map (\<lambda>r. if inv_id r = i then r\<lparr>inv_status := st\<rparr> else r) xs) =
    filter (\<lambda>r. inv_id r \<noteq> i) (filter (\<lambda>r. inv_squad_id r = k \<and> inv_status r = Invite_PENDING) xs)"
    for xs using assms by (induction xs) auto
  then show ?thesis by (simp add: pending_in_def)
qed

lemma set_invite_ok [inv_intros]:
  assumes "squads_ok d" and "st \<noteq> Invite_PENDING"
  shows "squads_ok (set_invite i st d)"
proof -
  have ids: "map inv_id (db_invites (set_invite i st d)) = map inv_id (db_invites d)" by simp
  have origin: "\<exists>r' \<in> set (db_invites d). inv_id r = inv_id r' \<and> inv_squad_id r = inv_squad_id r'"
    if "r \<in> set (db_invites (set_invite i st d))" for r
    using that by (auto split: if_splits)
  have "max_size (set_invite i st d) = max_size d" "members_of (set_invite i st d) = members_of d"
    by (simp_all add: fun_eq_iff max_size_def get_subject_def members_of_def)
  moreover have "\<forall>r \<in> set (db_invites (set_invite i st d)). inv_id r < db_next d"
    using assms(1) origin by (fastforce simp: squads_ok_def)
  moreover have "\<forall>r \<in> set (db_invites (set_invite i st d)). inv_squad_id r \<in> sq_id ` set (db_squads d)"
    using assms(1) origin by (fastforce simp: squads_ok_def)
  ultimately show ?thesis
    using assms(1) ids unfolding squads_ok_def set_invite_pending [OF assms(2)]
    by (simp only: set_invite_fields(1-4)) simp
qed

lemma cancel_invites_Cons [simp]:
  "cancel_invites (i # is) d = cancel_invites is (set_invite i Invite_CANCELLED d)"
  "cancel_invites [] d = d"
  by (simp_all add: cancel_invites_def)

lemma cancel_invites_ok [inv_intros]: "squads_ok d \<Longrightarrow> squads_ok (cancel_invites is d)"
  by (induction "is" arbitrary: d) (auto intro: set_invite_ok)

lemma cancel_invites_fields [simp]:
  "db_squads (cancel_invites is d) = db_squads d" "db_members (cancel_invites is d) = db_members d"
  "db_subjects (cancel_invites is d) = db_subjects d" "db_next (cancel_invites is d) = db_next d"
  by (induction "is" arbitrary: d) simp_all

lemma cancel_invites_pending:
  "pending_in (cancel_invites is d) k = filter (\<lambda>r. inv_id r \<notin> set is) (pending_in d k)"
  by (induction "is" arbitrary: d) (simp_all add: set_invite_pending conj_commute)

lemma pending_squad_exists: "squads_ok d \<Longrightarrow> i \<in> set (pending_in d k) \<Longrightarrow> k \<in> sq_id ` set (db_squads d)"
  by (auto simp: squads_ok_def pending_in_def)

lemma delete_squad_reads:
  "members_of (delete_squad k d) j = (if j = k then [] else members_of d j)"
  "pending_in (delete_squad k d) j = (if j = k then [] else pending_in d j)"
  "filter (\<lambda>s. sq_id s = j) (db_squads (delete_squad k d)) =
     (if j = k then [] else filter (\<lambda>s. sq_id s = j) (db_squads d))"
  by (auto simp: members_of_def pending_in_def delete_squad_def filter_empty_conv intro!: filter_cong)

lemma delete_squad_ok [inv_intros]:
  assumes "squads_ok d"
  shows "squads_ok (delete_squad k d)"
proof -
  have "max_size (delete_squad k d) = max_size d"
    by (simp add: fun_eq_iff max_size_def get_subject_def delete_squad_def)
  moreover have "distinct (map sq_id (db_squads (delete_squad k d)))"
    "distinct (map inv_id (db_invites (delete_squad k d)))"
    "distinct (map (\<lambda>m. (mem_subject_id m, mem_student_id m)) (db_members (delete_squad k d)))"
    using assms by (auto simp: squads_ok_def delete_squad_def intro: distinct_map_filter)
  moreover have "\<forall>x \<in> set (db_members (delete_squad k d)). \<exists>s \<in> set (db_squads (delete_squad k d)).
      sq_id s = mem_squad_id x \<and> sq_subject_id s = mem_subject_id x"
    using assms by (fastforce simp: squads_ok_def delete_squad_def)
  moreover have "\<forall>i \<in> set (db_invites (delete_squad k d)).
      inv_squad_id i \<in> sq_id ` set (db_squads (delete_squad k d))"
    using assms by (fastforce simp: squads_ok_def delete_squad_def)
  ultimately show ?thesis
    using assms unfolding squads_ok_def delete_squad_reads by (simp add: delete_squad_def)
qed

lemma delete_if_empty_ok [inv_intros]: "squads_ok d \<Longrightarrow> squads_ok (snd (delete_if_empty s d))"
  by (simp add: delete_if_empty_def delete_squad_ok)

lemma sweep_empty_ok [inv_intros]: "squads_ok d \<Longrightarrow> squads_ok (sweep_empty ex subj ks d)"
proof (induction ex subj ks d rule: sweep_empty.induct)
  case (1 ex subj d)
  then show ?case by simp
next
  case (2 ex subj k ks d)
  have "squads_ok d'" if "delete_if_empty s d = (b, d')" for s b d'
    using delete_if_empty_ok [OF 2(4), of s] that by simp
  with 2 show ?case by (auto simp: Let_def split: option.splits prod.splits if_splits)
qed

lemma cancel_pending_of_ok [inv_intros]: "squads_ok d \<Longrightarrow> squads_ok (cancel_pending_of ex subj sid d)"
  by (simp add: cancel_pending_of_def Let_def sweep_empty_ok cancel_invites_ok)


lemma max_size_cong: "db_subjects d' = db_subjects d \<Longrightarrow> max_size d' = max_size d"
  by (simp add: fun_eq_iff max_size_def get_subject_def)

lemma fresh_squad:
  assumes "squads_ok d"
  shows "members_of d (db_next d) = []" "pending_in d (db_next d) = []"
proof -
  from assms have "\<forall>m \<in> set (db_members d). mem_squad_id m < db_next d"
    by (fastforce simp: squads_ok_def)
  then show "members_of d (db_next d) = []" by (auto simp: members_of_def filter_empty_conv)
  from assms have "\<forall>i \<in> set (db_invites d). inv_squad_id i < db_next d"
    by (fastforce simp: squads_ok_def)
  then show "pending_in d (db_next d) = []" by (auto simp: pending_in_def filter_empty_conv)
qed

lemma add_squad_ok [inv_intros]:
  assumes "squads_ok d" and "max_size d subj = Some n" and "0 \<le> n"
    and "add_squad subj bs bu nm lk d = (i, d')"
  shows "squads_ok d'"
proof -
  from assms(4) have d': "d' = d\<lparr>db_squads := db_squads d @
      [\<lparr>sq_id = db_next d, sq_subject_id = subj, sq_name = nm, sq_created_by_student_id = bs,
        sq_created_by_user_id = bu, sq_locked_at = lk\<rparr>], db_next := db_next d + 1\<rparr>"
    by (auto simp: add_squad_def)
  have "max_size d' = max_size d" by (rule max_size_cong) (simp add: d')
  moreover have "members_of d' = members_of d" "pending_in d' = pending_in d"
    by (simp_all add: d' fun_eq_iff members_of_def pending_in_def)
  moreover have "db_next d \<notin> sq_id ` set (db_squads d)" using assms(1) by (auto simp: squads_ok_def)
  ultimately show ?thesis
    using assms(1-3) fresh_squad [OF assms(1)] unfolding squads_ok_def
    by (fastforce simp: d')
qed

lemma add_squad_fields:
  assumes "add_squad subj bs bu nm lk d = (i, d')"
  shows "i = db_next d" "db_members d' = db_members d" "db_invites d' = db_invites d"
    "db_subjects d' = db_subjects d" "db_students d' = db_students d"
    "\<exists>s \<in> set (db_squads d'). sq_id s = i \<and> sq_subject_id s = subj \<and> sq_locked_at s = lk
       \<and> sq_created_by_student_id s = bs"
  using assms by (auto simp: add_squad_def)

lemma add_member_ok [inv_intros]:
  assumes "squads_ok d" and s: "s \<in> set (db_squads d)" "sq_id s = k" "sq_subject_id s = subj"
    and free: "(subj, sid) \<notin> (\<lambda>m. (mem_subject_id m, mem_student_id m)) ` set (db_members d)"
    and room: "\<And>n. max_size d subj = Some n \<Longrightarrow> int (length (members_of d k)) < n"
  shows "squads_ok (add_member now k subj sid d)"
proof -
  have mx: "max_size (add_member now k subj sid d) = max_size d"
    by (rule max_size_cong) (simp add: add_member_def)
  have mem: "length (members_of (add_member now k subj sid d) j) =
      length (members_of d j) + (if j = k then 1 else 0)" for j
    by (simp add: members_of_def add_member_def)
  have pend: "pending_in (add_member now k subj sid d) = pending_in d"
    by (simp add: fun_eq_iff pending_in_def add_member_def)
  have "t = s" if "t \<in> set (db_squads d)" "sq_id t = k" for t
    using assms(1) s that by (auto simp: squads_ok_def distinct_map inj_on_def)
  then have "int (length (members_of (add_member now k subj sid d) (sq_id t))) \<le> n"
    if "t \<in> set (db_squads d)" "max_size d (sq_subject_id t) = Some n" for t n
    using that assms(1) room [of n] s unfolding mem by (fastforce simp: squads_ok_def)
  then show ?thesis
    using assms(1) s free unfolding squads_ok_def mx pend by (auto simp: add_member_def)
qed

lemma add_invite_ok [inv_intros]:
  assumes "squads_ok d" and s: "s \<in> set (db_squads d)" "sq_id s = k" "sq_locked_at s = None"
  shows "squads_ok (add_invite k by sid d)"
proof -
  let ?d = "add_invite k by sid d"
  have mx: "max_size ?d = max_size d" by (rule max_size_cong) (simp add: add_invite_def)
  have mem: "members_of ?d = members_of d"
    by (simp add: fun_eq_iff members_of_def add_invite_def)
  have "t = s" if "t \<in> set (db_squads d)" "sq_id t = k" for t
    using assms(1) s that by (auto simp: squads_ok_def distinct_map inj_on_def)
  note unique = this
  have other: "pending_in ?d j = pending_in d j" if "j \<noteq> k" for j
    using that by (simp add: pending_in_def add_invite_def)
  have pend: "pending_in ?d (sq_id t) = []" if t: "t \<in> set (db_squads d)" "sq_locked_at t \<noteq> None" for t
  proof -
    have "sq_id t \<noteq> k" using unique [OF t(1)] t(2) s(3) by auto
    with t assms(1) show ?thesis by (simp add: other squads_ok_def)
  qed
  have "db_next d \<notin> inv_id ` set (db_invites d)" using assms(1) by (auto simp: squads_ok_def)
  then have "distinct (map inv_id (db_invites ?d))"
    using assms(1) by (simp add: squads_ok_def add_invite_def)
  moreover have "\<forall>s \<in> set (db_squads d). sq_id s < db_next d + 1"
    "\<forall>i \<in> set (db_invites d). inv_id i < db_next d + 1"
    using assms(1) by (auto simp: squads_ok_def intro: less_trans)
  moreover have "k \<in> sq_id ` set (db_squads d)" using s by blast
  ultimately show ?thesis
    using assms(1) pend unfolding squads_ok_def mx mem by (simp add: add_invite_def)
qed

lemma squad_of_None:
  assumes "squads_ok d" and "squad_of d subj sid False = None"
  shows "(subj, sid) \<notin> (\<lambda>m. (mem_subject_id m, mem_student_id m)) ` set (db_members d)"
proof
  assume "(subj, sid) \<in> (\<lambda>m. (mem_subject_id m, mem_student_id m)) ` set (db_members d)"
  then obtain m where m: "m \<in> set (db_members d)" "mem_subject_id m = subj" "mem_student_id m = sid"
    by auto
  with assms(1) obtain s where "s \<in> set (db_squads d)" "sq_id s = mem_squad_id m"
    by (fastforce simp: squads_ok_def)
  with m assms(2) show False by (auto simp: squad_of_def find_None_iff member_in_def list_ex_iff)
qed

lemma squad_of_Some:
  assumes "squad_of d subj sid b = Some s"
  shows "s \<in> set (db_squads d) \<and> member_in d (sq_id s) subj sid \<and> (b \<longrightarrow> sq_locked_at s \<noteq> None)"
  using assms by (auto simp: squad_of_def find_Some_iff)

lemma eligible_facts:
  assumes "eligibility d subj sid = None"
  shows "max_size d subj \<noteq> None" "enrolled d subj sid" "squad_of d subj sid False = None"
    "\<not> has_submissions d subj sid" "map_option stu_type (get_student d sid) \<noteq> Some TEST"
  using assms by (auto simp: eligibility_def split: if_splits)

lemma first_refusal_None:
  "first_refusal d subj ids = None \<longleftrightarrow> (\<forall>sid \<in> set ids. eligibility d subj sid = None)"
  by (induction ids) (auto simp: require_eligible_def split: option.splits)


section \<open>The operations\<close>

lemma lock_ok [inv_intros]:
  assumes "squads_ok d" and "pending_in d k = []"
    and f: "\<And>s. sq_id (f s) = sq_id s" "\<And>s. sq_subject_id (f s) = sq_subject_id s"
  shows "squads_ok (upd_squad k f d)"
proof -
  let ?d = "upd_squad k f d"
  have same: "max_size ?d = max_size d" "members_of ?d = members_of d" "pending_in ?d = pending_in d"
    by (simp_all add: fun_eq_iff max_size_def get_subject_def members_of_def pending_in_def upd_squad_def)
  have sq: "db_squads ?d = map (\<lambda>s. if sq_id s = k then f s else s) (db_squads d)"
    by (simp add: upd_squad_def upd_row_def)
  have ids: "map sq_id (db_squads ?d) = map sq_id (db_squads d)" by (simp add: sq f)
  have "\<exists>s' \<in> set (db_squads ?d). sq_id s' = sq_id s \<and> sq_subject_id s' = sq_subject_id s"
    if "s \<in> set (db_squads d)" for s
    using that by (intro bexI [of _ "if sq_id s = k then f s else s"]) (auto simp: sq f)
  then have m: "\<forall>m \<in> set (db_members d). \<exists>s \<in> set (db_squads ?d).
      sq_id s = mem_squad_id m \<and> sq_subject_id s = mem_subject_id m"
    using assms(1) unfolding squads_ok_def by metis
  have inv: "\<forall>i \<in> set (db_invites d). inv_squad_id i \<in> sq_id ` set (db_squads ?d)"
    using assms(1) ids unfolding squads_ok_def by (metis list.set_map)
  have rest: "db_next ?d = db_next d" "db_members ?d = db_members d" "db_invites ?d = db_invites d"
    by (simp_all add: upd_squad_def)
  have size_bound: "\<forall>s \<in> set (db_squads ?d). \<forall>n. max_size d (sq_subject_id s) = Some n \<longrightarrow>
      int (length (members_of d (sq_id s))) \<le> n"
    and lt: "\<forall>s \<in> set (db_squads ?d). sq_id s < db_next d"
    using assms(1) by (auto simp: squads_ok_def sq f split: if_splits)
  have "pending_in d (sq_id s) = []" if "s \<in> set (db_squads ?d)" "sq_locked_at s \<noteq> None" for s
  proof (cases "sq_id s = k")
    case True
    with assms(2) show ?thesis by simp
  next
    case False
    with that have "s \<in> set (db_squads d)" by (auto simp: sq f split: if_splits)
    with that assms(1) show ?thesis by (auto simp: squads_ok_def)
  qed
  then show ?thesis
    using assms(1) ids m inv size_bound lt unfolding squads_ok_def same rest by simp
qed

lemma cancel_invites_upd_squad:
  "cancel_invites is (upd_squad k f d) = upd_squad k f (cancel_invites is d)"
proof (induction "is" arbitrary: d)
  case Nil
  then show ?case by simp
next
  case (Cons i "is")
  have "set_invite i st (upd_squad k f d) = upd_squad k f (set_invite i st d)" for st
    by (simp add: set_invite_def upd_invite_def upd_squad_def)
  with Cons show ?case by simp
qed

lemma lock_if_full_ok [inv_intros]:
  assumes "squads_ok d" and "set (pending_in d (sq_id s)) \<subseteq> set (pending_in queried (sq_id s))"
  shows "squads_ok (lock_if_full now cap s queried d)"
proof -
  have "pending_in (cancel_invites (map inv_id (pending_in queried (sq_id s))) d) (sq_id s) = []"
    using assms(2) by (auto simp: cancel_invites_pending filter_empty_conv)
  then show ?thesis
    unfolding lock_if_full_def cancel_invites_upd_squad
    by (auto intro!: lock_ok cancel_invites_ok assms(1))
qed

lemma invite_loop_ok [inv_intros]:
  assumes "squads_ok d" and "\<exists>s \<in> set (db_squads d). sq_id s = k \<and> sq_locked_at s = None"
  shows "squads_ok (invite_loop k subj c nm ids d)"
  using assms
proof (induction ids arbitrary: d)
  case Nil
  then show ?case by (simp add: invite_loop_def)
next
  case (Cons sid ids)
  from Cons.prems have "squads_ok (add_invite k (Some c) sid d)" by (auto intro: add_invite_ok)
  moreover have "db_squads (add_invite k (Some c) sid d) = db_squads d" by (simp add: add_invite_def)
  ultimately show ?case using Cons.IH [of "notify_student sid ''invited'' subj [(''name'', nm)]
      (add_invite k (Some c) sid d)"] Cons.prems(2) by (simp add: invite_loop_def)
qed

lemma create_ok [inv_intros]:
  assumes "squads_ok d"
  shows "squads_ok (fst (create_with_invites now subj c ids d))"
proof (cases "snd (create_with_invites now subj c ids d)")
  case (Inl e)
  then show ?thesis
    using assms by (auto simp: create_with_invites_def Let_def split: option.splits if_splits prod.splits)
next
  case (Inr k)
  obtain k' d1 where a: "add_squad subj (Some c) None None None d = (k', d1)" by fastforce
  from Inr obtain n where n: "max_size d subj = Some n" "int (length ids) \<le> n - 1" "ids \<noteq> []"
    and el: "first_refusal d subj (c # ids) = None"
    by (auto simp: create_with_invites_def Let_def split: option.splits if_splits prod.splits)
  from n have "2 \<le> n" by (cases ids) auto
  note f = add_squad_fields [OF a]
  have ok1: "squads_ok d1" using add_squad_ok [OF assms n(1) _ a] \<open>2 \<le> n\<close> by simp
  have sz: "max_size d1 subj = Some n" using n max_size_cong [OF f(4)] by simp
  have empty: "members_of d1 k' = []"
    using fresh_squad(1) [OF assms] f(1,2) by (simp add: members_of_def)
  have free: "(subj, c) \<notin> (\<lambda>m. (mem_subject_id m, mem_student_id m)) ` set (db_members d1)"
    using squad_of_None [OF assms] eligible_facts(3) [of d subj c] el f(2)
    by (simp only: first_refusal_None) simp
  from f(6) obtain s where s: "s \<in> set (db_squads d1)" "sq_id s = k'" "sq_subject_id s = subj"
    "sq_locked_at s = None" by blast
  have ok2: "squads_ok (add_member now k' subj c d1)"
    by (rule add_member_ok [OF ok1 s(1-3) free]) (use sz empty \<open>2 \<le> n\<close> in simp)
  have "squads_ok (invite_loop k' subj c (name_arg d c) ids (add_member now k' subj c d1))"
    by (rule invite_loop_ok [OF ok2]) (use s in \<open>auto simp: add_member_def\<close>)
  with n el a show ?thesis
    using assms unfolding create_with_invites_def Let_def by (simp add: \<open>2 \<le> n\<close> split: if_splits)
qed

text \<open>A squad of two or more, and the squad an accept is about, survive the sweep with their members.\<close>

lemma delete_if_empty_keeps:
  assumes "delete_if_empty s d = (b, d')" and "2 \<le> length (members_of d k)"
  shows "members_of d' k = members_of d k \<and> filter (\<lambda>s. sq_id s = k) (db_squads d') = filter (\<lambda>s. sq_id s = k) (db_squads d)"
proof (cases "b")
  case True
  with assms have "k \<noteq> sq_id s" "d' = delete_squad (sq_id s) d"
    by (auto simp: delete_if_empty_def split: if_splits)
  then show ?thesis by (simp add: delete_squad_reads)
next
  case False
  with assms(1) show ?thesis by (auto simp: delete_if_empty_def split: if_splits)
qed

lemma delete_other_keeps:
  assumes "delete_if_empty s d = (b, d')" and "sq_id s \<noteq> k"
  shows "members_of d' k = members_of d k \<and> filter (\<lambda>s. sq_id s = k) (db_squads d') = filter (\<lambda>s. sq_id s = k) (db_squads d)"
  using assms by (auto simp: delete_if_empty_def delete_squad_reads split: if_splits)

lemma sweep_empty_keeps:
  assumes "ex = Some k \<or> 2 \<le> length (members_of d k)"
  shows "members_of (sweep_empty ex subj ks d) k = members_of d k \<and>
    filter (\<lambda>s. sq_id s = k) (db_squads (sweep_empty ex subj ks d)) = filter (\<lambda>s. sq_id s = k) (db_squads d)"
  using assms
proof (induction ex subj ks d rule: sweep_empty.induct)
  case (1 ex subj d)
  then show ?case by simp
next
  case (2 ex subj j ks d)
  show ?case
  proof (cases "Some j = ex \<or> get_squad d j = None")
    case True
    with 2 show ?thesis by auto
  next
    case False
    then obtain s where s: "get_squad d j = Some s" by auto
    obtain b d' where del: "delete_if_empty s d = (b, d')" by fastforce
    from s have "sq_id s = j" by (simp add: get_squad_def get_row_Some)
    then have keep: "members_of d' k = members_of d k \<and>
        filter (\<lambda>s. sq_id s = k) (db_squads d') = filter (\<lambda>s. sq_id s = k) (db_squads d)"
      using 2(4) False delete_if_empty_keeps [OF del] delete_other_keeps [OF del] by auto
    have nt: "members_of (notify_student a b c f e) k = members_of e k" for a b c f e
      by (simp add: members_of_def)
    show ?thesis using 2(2,3,4) False s del keep by (auto simp: Let_def nt split: option.splits)
  qed
qed

lemma cancel_pending_of_keeps:
  assumes "(\<exists>i. ex = Some i \<and> map_option inv_squad_id (get_invite d i) = Some k) \<or> 2 \<le> length (members_of d k)"
  shows "members_of (cancel_pending_of ex subj sid d) k = members_of d k \<and>
    filter (\<lambda>s. sq_id s = k) (db_squads (cancel_pending_of ex subj sid d)) = filter (\<lambda>s. sq_id s = k) (db_squads d)"
proof -
  have m: "members_of (cancel_invites is d) k = members_of d k" for "is"
    by (simp add: members_of_def)
  have g: "map_option inv_squad_id (get_invite (cancel_invites is d) i) = map_option inv_squad_id (get_invite d i)" for "is" i
  proof (induction "is" arbitrary: d)
    case Nil
    then show ?case by simp
  next
    case (Cons j "is")
    have "map_option inv_squad_id (get_invite (set_invite j st d) i) = map_option inv_squad_id (get_invite d i)" for st
      unfolding get_invite_def set_invite_def upd_invite_def
      by (simp add: invites.get_put option.map_comp comp_def)
    with Cons show ?case by simp
  qed
  have "Option.bind ex (\<lambda>i. map_option inv_squad_id (get_invite (cancel_invites is d) i)) = Some k \<or>
      2 \<le> length (members_of (cancel_invites is d) k)" for "is"
    using assms by (auto simp: g m)
  from sweep_empty_keeps [OF this] show ?thesis by (simp add: cancel_pending_of_def Let_def m)
qed


lemma load_invite_Inr:
  "load_invite d i = Inr r \<longleftrightarrow> get_invite d i = Some r \<and> inv_status r = Invite_PENDING"
  by (auto simp: load_invite_def split: option.splits)

lemma get_squad_Some: "get_squad d k = Some s \<Longrightarrow> s \<in> set (db_squads d) \<and> sq_id s = k"
  by (auto simp: get_squad_def dest: get_row_Some)

lemma accept_refusal_None:
  assumes "accept_refusal d s sid cap = None"
  shows "eligibility d (sq_subject_id s) sid = None" "sq_locked_at s = None"
    "int (length (members_of d (sq_id s))) < cap"
  using assms by (auto simp: accept_refusal_def split: option.splits if_splits)

text \<open>The five writes of a successful accept, in order.\<close>

lemma accept_invite_Inr:
  assumes "accept_invite now i sid d = (d', Inr k)"
  obtains r s cap d1 d2 d4 where
    "get_invite d i = Some r" "inv_status r = Invite_PENDING" "inv_invited_student_id r = sid"
    "get_squad d (inv_squad_id r) = Some s" "k = sq_id s"
    "max_size d (sq_subject_id s) = Some cap" "accept_refusal d s sid cap = None"
    "d1 = add_member now k (sq_subject_id s) sid d"
    "d2 = cancel_pending_of (Some i) (sq_subject_id s) sid d1"
    "d4 = lock_if_full now cap s d2 (set_invite i Invite_ACCEPTED d2)"
    "same_squads d4 d'"
proof -
  from assms obtain r s where r: "load_invite d i = Inr r" "inv_invited_student_id r = sid"
      "get_squad d (inv_squad_id r) = Some s"
    by (auto simp: accept_invite_def Let_def split: sum.splits if_splits option.splits)
  define cap where "cap = (case max_size d (sq_subject_id s) of Some n \<Rightarrow> n | None \<Rightarrow> 0)"
  from assms r have ref: "accept_refusal d s sid cap = None" and k: "k = sq_id s"
    by (auto simp: accept_invite_def Let_def cap_def split: option.splits)
  from eligible_facts(1) [OF accept_refusal_None(1) [OF ref]]
  have "max_size d (sq_subject_id s) = Some cap" by (auto simp: cap_def)
  moreover have "same_squads (lock_if_full now cap s
      (cancel_pending_of (Some i) (sq_subject_id s) sid (add_member now k (sq_subject_id s) sid d))
      (set_invite i Invite_ACCEPTED
        (cancel_pending_of (Some i) (sq_subject_id s) sid (add_member now k (sq_subject_id s) sid d)))) d'"
    using assms r ref k
    by (auto simp: accept_invite_def Let_def cap_def same_squads_def split: option.splits)
  ultimately show thesis
    using that r ref k by (auto simp: load_invite_Inr)
qed

lemma accept_ok [inv_intros]:
  assumes "squads_ok d"
  shows "squads_ok (fst (accept_invite now i sid d))"
proof (cases "accept_invite now i sid d")
  case (Pair d' out)
  show ?thesis
  proof (cases out)
    case (Inl e)
    with Pair assms show ?thesis
      by (auto simp: accept_invite_def Let_def set_invite_ok split: sum.splits if_splits option.splits)
  next
    case (Inr k)
    with Pair have acc: "accept_invite now i sid d = (d', Inr k)" by simp
    obtain r s cap d1 d2 d4 where
      *: "get_invite d i = Some r" "inv_status r = Invite_PENDING" "inv_invited_student_id r = sid"
        "get_squad d (inv_squad_id r) = Some s" "k = sq_id s"
        "max_size d (sq_subject_id s) = Some cap" "accept_refusal d s sid cap = None"
        "d1 = add_member now k (sq_subject_id s) sid d"
        "d2 = cancel_pending_of (Some i) (sq_subject_id s) sid d1"
        "d4 = lock_if_full now cap s d2 (set_invite i Invite_ACCEPTED d2)"
        "same_squads d4 d'"
      by (rule accept_invite_Inr [OF acc])
    note ref = accept_refusal_None [OF *(7)]
    have "squads_ok d1" unfolding *(8)
      by (rule add_member_ok [OF assms _ *(5) [symmetric] refl])
         (use get_squad_Some [OF *(4)] squad_of_None [OF assms eligible_facts(3) [OF ref(1)]]
           *(5,6) ref(3) in auto)
    then have "squads_ok d2" unfolding *(9) by (rule cancel_pending_of_ok)
    then have "squads_ok d4" unfolding *(10)
      by (intro lock_if_full_ok set_invite_ok) (auto simp: set_invite_pending)
    then show ?thesis using same_squads_ok [OF *(11)] Pair by simp
  qed
qed

lemma decline_ok [inv_intros]: "squads_ok d \<Longrightarrow> squads_ok (fst (decline_invite i sid d))"
  by (auto simp: decline_invite_def Let_def intro!: delete_if_empty_ok set_invite_ok
      split: sum.splits option.splits)

lemma cancel_ok [inv_intros]: "squads_ok d \<Longrightarrow> squads_ok (fst (cancel_invite i sid d))"
  by (auto simp: cancel_invite_def Let_def intro!: delete_if_empty_ok set_invite_ok
      split: sum.splits option.splits)

lemma add_members_ok:
  assumes "squads_ok d" and s: "s \<in> set (db_squads d)" "sq_id s = k" "sq_subject_id s = subj"
    and "distinct ids"
    and "\<forall>sid \<in> set ids. (subj, sid) \<notin> (\<lambda>m. (mem_subject_id m, mem_student_id m)) ` set (db_members d)"
    and "\<And>n. max_size d subj = Some n \<Longrightarrow> int (length (members_of d k) + length ids) \<le> n"
  shows "squads_ok (fold (add_member now k subj) ids d)"
  using assms
proof (induction ids arbitrary: d)
  case Nil
  then show ?case by simp
next
  case (Cons sid ids)
  let ?d = "add_member now k subj sid d"
  have "squads_ok ?d"
    by (rule add_member_ok [OF Cons.prems(1-4)]) (use Cons.prems(6,7) in force)+
  moreover have "max_size ?d = max_size d" by (rule max_size_cong) (simp add: add_member_def)
  moreover have "length (members_of ?d k) = Suc (length (members_of d k))"
    by (simp add: members_of_def add_member_def)
  ultimately show ?case
    using Cons.prems by (simp, intro Cons.IH) (auto simp: add_member_def)
qed

lemma cancel_all_ok: "squads_ok d \<Longrightarrow> squads_ok (fold (cancel_pending_of ex subj) ids d)"
  by (induction ids arbitrary: d) (auto intro: cancel_pending_of_ok)

lemma notify_all_ok [simp]:
  "squads_ok (fold (\<lambda>sid. notify_student sid key subj fmt) ids d) = squads_ok d"
  by (induction ids arbitrary: d) auto

lemma assign_ok [inv_intros]:
  assumes "squads_ok d"
  shows "squads_ok (fst (teacher_assign now subj u ids nm d))"
proof (cases "snd (teacher_assign now subj u ids nm d)")
  case (Inl e)
  then show ?thesis
    using assms by (auto simp: teacher_assign_def Let_def split: option.splits if_splits prod.splits)
next
  case (Inr k)
  define label where "label = py_strip (case nm of Some n \<Rightarrow> n | None \<Rightarrow> '''')"
  obtain k' d1 where a: "add_squad subj None (Some u)
      (if label = '''' then None else Some label) (Some now) d = (k', d1)" by fastforce
  from Inr obtain n where n: "max_size d subj = Some n" "int (length ids) \<le> n" "\<not> length ids < 2"
      "distinct ids" and el: "first_refusal d subj ids = None"
      and known: "\<not> list_ex (\<lambda>sid. get_student d sid = None) ids"
    by (auto simp: teacher_assign_def Let_def split: option.splits if_splits prod.splits)
  note f = add_squad_fields [OF a]
  have ok1: "squads_ok d1" using add_squad_ok [OF assms n(1) _ a] n by simp
  have sz: "max_size d1 subj = Some n" using n max_size_cong [OF f(4)] by simp
  have empty: "members_of d1 k' = []"
    using fresh_squad(1) [OF assms] f(1,2) by (simp add: members_of_def)
  have free: "\<forall>sid \<in> set ids. (subj, sid) \<notin> (\<lambda>m. (mem_subject_id m, mem_student_id m)) ` set (db_members d1)"
    using squad_of_None [OF assms] eligible_facts(3) [of d subj] el f(2)
    by (simp only: first_refusal_None) blast
  from f(6) obtain s where s: "s \<in> set (db_squads d1)" "sq_id s = k'" "sq_subject_id s = subj" by blast
  have "squads_ok (fold (add_member now k' subj) ids d1)"
    by (rule add_members_ok [OF ok1 s n(4) free]) (use sz empty n in simp)
  then have ok3: "squads_ok (fold (cancel_pending_of None subj) ids (fold (add_member now k' subj) ids d1))"
    by (rule cancel_all_ok)
  have "fst (teacher_assign now subj u ids nm d) =
      (let d3 = fold (cancel_pending_of None subj) ids (fold (add_member now k' subj) ids d1) in
       audit ''squad_assign'' (Some u) (Some k')
         (fold (\<lambda>sid. notify_student sid ''assigned'' subj [(''members'', member_names d3 k')]) ids d3))"
    using n el known a by (simp add: teacher_assign_def Let_def label_def [symmetric])
  with ok3 show ?thesis by (simp add: Let_def)
qed


section \<open>The service\<close>

text \<open>The requests that form squads: the student's two routes and the teacher's form.\<close>

datatype squad_request =
    CreateSquad int int int "string list"
  | AnswerInvite verb int int int int
  | AssignSquad int int int "int list" "string option"

text \<open>The teacher's route rolls back on a refusal.\<close>

fun serve_squad :: "squad_request \<Rightarrow> db \<Rightarrow> db" where
  "serve_squad (CreateSquad now subj sid raw) d = fst (create_squad_route now subj sid raw d)"
| "serve_squad (AnswerInvite v now subj sid i) d = fst (answer_route v now subj sid i d)"
| "serve_squad (AssignSquad now subj u ids nm) d =
     (case teacher_assign now subj u ids nm d of (d', Inr _) \<Rightarrow> d' | (_, Inl _) \<Rightarrow> d)"

lemma serve_squad_ok: "squads_ok d \<Longrightarrow> squads_ok (serve_squad r d)"
proof (cases r)
  case (CreateSquad now subj sid raw)
  assume "squads_ok d"
  with create_ok [OF this] show ?thesis
    by (auto simp: CreateSquad create_squad_route_def split: sum.splits prod.splits squad_error.splits)
       (metis fst_conv)
next
  case (AnswerInvite v now subj sid i)
  assume ok: "squads_ok d"
  have "squads_ok (fst (answer_call v now i sid d))"
    by (cases v) (simp_all add: answer_call_def accept_ok decline_ok cancel_ok ok)
  with ok show ?thesis
    by (auto simp: AnswerInvite answer_route_def split: sum.splits prod.splits squad_error.splits)
next
  case (AssignSquad now subj u ids nm)
  assume "squads_ok d"
  with assign_ok [OF this, of now subj u ids nm] show ?thesis
    by (auto simp: AssignSquad split: sum.splits prod.splits)
qed

interpretation squad_service: invariant_service squads_ok serve_squad
  by unfold_locales (rule serve_squad_ok)

lemma one_squad_per_subject:
  assumes "squads_ok d" and "m \<in> set (db_members d)" "m' \<in> set (db_members d)"
    and "mem_subject_id m = mem_subject_id m'" "mem_student_id m = mem_student_id m'"
  shows "m = m'"
proof -
  have "inj_on (\<lambda>m. (mem_subject_id m, mem_student_id m)) (set (db_members d))"
    using assms(1) by (simp add: squads_ok_def distinct_map)
  with assms(2-5) show ?thesis by (auto simp: inj_on_def)
qed

lemma squads_ok_empty:
  "db_squads d = [] \<Longrightarrow> db_members d = [] \<Longrightarrow> db_invites d = [] \<Longrightarrow> squads_ok d"
  by (simp add: squads_ok_def)

lemma serve_squad_subjects: "db_subjects (serve_squad r d) = db_subjects d"
proof -
  have del: "db_subjects (snd (delete_if_empty s e)) = db_subjects e" for s e
    by (simp add: delete_if_empty_def delete_squad_def)
  have sweep: "db_subjects (sweep_empty ex subj ks e) = db_subjects e" for ex subj ks e
  proof (induction ex subj ks e rule: sweep_empty.induct)
    case (1 ex subj d)
    then show ?case by simp
  next
    case (2 ex subj k ks d)
    have "db_subjects d' = db_subjects d" if "delete_if_empty s d = (b, d')" for s b d'
      using del [of s d] that by simp
    with 2 show ?case by (auto simp: Let_def split: option.splits prod.splits if_splits)
  qed
  have cp: "db_subjects (cancel_pending_of ex subj sid e) = db_subjects e" for ex subj sid e
    by (simp add: cancel_pending_of_def Let_def sweep)
  have lk: "db_subjects (lock_if_full now cap s q e) = db_subjects e" for now cap s q e
    by (simp add: lock_if_full_def upd_squad_def)
  have il: "db_subjects (invite_loop k subj c nm ids e) = db_subjects e" for k subj c nm ids e
    by (induction ids arbitrary: e) (simp_all add: invite_loop_def add_invite_def)
  have am: "db_subjects (add_member now k subj sid e) = db_subjects e" for now k subj sid e
    by (simp add: add_member_def)
  have ams: "db_subjects (fold (add_member now k subj) ids e) = db_subjects e" for now k subj ids e
    by (induction ids arbitrary: e) (simp_all add: am)
  have cps: "db_subjects (fold (cancel_pending_of ex subj) ids e) = db_subjects e" for ex subj ids e
    by (induction ids arbitrary: e) (simp_all add: cp)
  have ns: "db_subjects (fold (\<lambda>sid. notify_student sid k subj fmt) ids e) = db_subjects e" for k subj fmt ids e
    by (induction ids arbitrary: e) simp_all
  have asq: "db_subjects (snd (add_squad subj bs bu nm l e)) = db_subjects e" for subj bs bu nm l e
    by (simp add: add_squad_def)
  have c: "db_subjects (fst (create_with_invites now subj sid ids d)) = db_subjects d" for now subj sid ids
    using asq by (auto simp: create_with_invites_def Let_def il am split: option.splits prod.splits)
      (metis snd_conv)
  have a: "db_subjects (fst (accept_invite now i sid d)) = db_subjects d" for now i sid
    by (auto simp: accept_invite_def Let_def lk cp am split: sum.splits option.splits)
  have dc: "db_subjects (fst (decline_invite i sid d)) = db_subjects d" for i sid
    by (auto simp: decline_invite_def Let_def del split: sum.splits option.splits)
  have cc: "db_subjects (fst (cancel_invite i sid d)) = db_subjects d" for i sid
    by (auto simp: cancel_invite_def Let_def del split: sum.splits option.splits)
  have t: "db_subjects (fst (teacher_assign now subj u ids nm d)) = db_subjects d" for now subj u ids nm
    using asq by (auto simp: teacher_assign_def Let_def ns cps ams split: option.splits prod.splits)
      (metis snd_conv)+
  show ?thesis
  proof (cases r)
    case (CreateSquad now subj sid raw)
    then show ?thesis using c
      by (auto simp: create_squad_route_def split: sum.splits prod.splits squad_error.splits) (metis fst_conv)
  next
    case (AnswerInvite v now subj sid i)
    have "db_subjects (fst (answer_call v now i sid d)) = db_subjects d"
      by (cases v) (simp_all add: answer_call_def a dc cc)
    then show ?thesis
      by (auto simp: AnswerInvite answer_route_def split: sum.splits prod.splits squad_error.splits)
  next
    case (AssignSquad now subj u ids nm)
    then show ?thesis using t [of now subj u ids nm] by (auto split: sum.splits prod.splits)
  qed
qed


section \<open>What an accept achieves\<close>

lemma get_row_hd_filter:
  "get_row key i t = (if filter (\<lambda>r. key r = i) t = [] then None else Some (hd (filter (\<lambda>r. key r = i) t)))"
  by (induction t) auto

lemma get_squad_delete: "get_squad (delete_squad k d) j = (if j = k then None else get_squad d j)"
  using delete_squad_reads(3) [of j k d] by (simp add: get_squad_def get_row_hd_filter)

lemma pending_of_delete: "set (pending_of (delete_squad k d) subj sid) \<subseteq> set (pending_of d subj sid)"
proof -
  have "db_invites (delete_squad k d) = filter (\<lambda>i. inv_squad_id i \<noteq> k) (db_invites d)"
    by (simp add: delete_squad_def)
  then show ?thesis
    by (auto simp: pending_of_def invite_in_subject_def get_squad_delete split: if_splits)
qed

lemma pending_of_cong:
  "db_squads d' = db_squads d \<Longrightarrow> db_invites d' = db_invites d \<Longrightarrow> pending_of d' subj sid = pending_of d subj sid"
  by (simp add: pending_of_def invite_in_subject_def get_squad_def)

lemma pending_of_sweep:
  "set (pending_of (sweep_empty ex subj' ks d) subj sid) \<subseteq> set (pending_of d subj sid)"
proof (induction ex subj' ks d rule: sweep_empty.induct)
  case (1 ex subj d)
  then show ?case by simp
next
  case (2 ex subj' k ks d)
  show ?case
  proof (cases "Some k = ex \<or> get_squad d k = None")
    case True
    with 2 show ?thesis by auto
  next
    case False
    then obtain s where s: "get_squad d k = Some s" by auto
    obtain b d' where del: "delete_if_empty s d = (b, d')" by fastforce
    then have "set (pending_of d' subj sid) \<subseteq> set (pending_of d subj sid)"
      by (auto simp: delete_if_empty_def split: if_splits dest: subsetD [OF pending_of_delete])
    moreover have "pending_of (notify_student a c e f d') subj sid = pending_of d' subj sid" for a c e f
      by (rule pending_of_cong) simp_all
    moreover define d'' where "d'' = (case sq_created_by_student_id s of
        Some creator \<Rightarrow> if b then notify_student creator ''cancelled'' subj' [] d' else d' | None \<Rightarrow> d')"
    ultimately have "set (pending_of d'' subj sid) \<subseteq> set (pending_of d subj sid)"
      by (simp split: option.splits)
    moreover have "sweep_empty ex subj' (k # ks) d = sweep_empty ex subj' ks d''"
      using False s del by (simp add: d''_def)
    moreover have "set (pending_of (sweep_empty ex subj' ks d'') subj sid) \<subseteq> set (pending_of d'' subj sid)"
      using 2(3) [OF _ s refl del [symmetric]] False by (simp add: d''_def)
    ultimately show ?thesis by simp
  qed
qed

lemma pending_of_set_invite:
  assumes "st \<noteq> Invite_PENDING"
  shows "pending_of (set_invite i st d) subj sid = filter (\<lambda>r. inv_id r \<noteq> i) (pending_of d subj sid)"
proof -
  have "filter (\<lambda>r. invite_in_subject d subj r \<and> inv_status r = Invite_PENDING \<and>
        (inv_invited_student_id r = sid \<or> inv_invited_by_student_id r = Some sid))
      (map (\<lambda>r. if inv_id r = i then r\<lparr>inv_status := st\<rparr> else r) xs) =
    filter (\<lambda>r. inv_id r \<noteq> i) (filter (\<lambda>r. invite_in_subject d subj r \<and> inv_status r = Invite_PENDING \<and>
        (inv_invited_student_id r = sid \<or> inv_invited_by_student_id r = Some sid)) xs)"
    for xs using assms by (induction xs) auto
  moreover have "invite_in_subject (set_invite i st d) = invite_in_subject d"
    by (simp add: fun_eq_iff invite_in_subject_def get_squad_def)
  ultimately show ?thesis by (simp add: pending_of_def)
qed

lemma pending_of_cancel_invites:
  "pending_of (cancel_invites is d) subj sid = filter (\<lambda>r. inv_id r \<notin> set is) (pending_of d subj sid)"
  by (induction "is" arbitrary: d) (simp_all add: pending_of_set_invite conj_commute)

lemma pending_of_after_cancel:
  "set (pending_of (cancel_pending_of ex subj sid d) subj sid) \<subseteq> {r. Some (inv_id r) = ex}"
proof -
  let ?doomed = "filter (\<lambda>i. Some (inv_id i) \<noteq> ex) (pending_of d subj sid)"
  have "set (pending_of (cancel_invites (map inv_id ?doomed) d) subj sid) \<subseteq> {r. Some (inv_id r) = ex}"
    by (auto simp: pending_of_cancel_invites)
  then show ?thesis
    using pending_of_sweep unfolding cancel_pending_of_def Let_def by blast
qed

lemma pending_of_lock:
  "set (pending_of (lock_if_full now cap s q d) subj sid) \<subseteq> set (pending_of d subj sid)"
proof -
  have "map_option sq_subject_id (get_squad (upd_squad k (\<lambda>r. r\<lparr>sq_locked_at := Some now\<rparr>) d) j) =
      map_option sq_subject_id (get_squad d j)" for k j
    by (simp add: get_squad_def upd_squad_def squads.get_put option.map_comp comp_def)
  then have "invite_in_subject (upd_squad k (\<lambda>r. r\<lparr>sq_locked_at := Some now\<rparr>) d) = invite_in_subject d" for k
    by (simp add: fun_eq_iff invite_in_subject_def)
  then have "pending_of (upd_squad k (\<lambda>r. r\<lparr>sq_locked_at := Some now\<rparr>) d) subj sid = pending_of d subj sid" for k
    by (simp add: pending_of_def upd_squad_def)
  then show ?thesis by (auto simp: lock_if_full_def pending_of_cancel_invites)
qed

lemma squad_of_member:
  assumes "squads_ok d" and "member_in d k subj sid"
  shows "\<exists>s. squad_of d subj sid False = Some s \<and> sq_id s = k"
proof -
  from assms(2) obtain m where m: "m \<in> set (db_members d)" "mem_squad_id m = k"
    "mem_subject_id m = subj" "mem_student_id m = sid" by (auto simp: member_in_def list_ex_iff)
  with assms(1) obtain t where "t \<in> set (db_squads d)" "sq_id t = k"
    unfolding squads_ok_def by metis
  with assms(2) obtain s where s: "squad_of d subj sid False = Some s"
    by (cases "squad_of d subj sid False") (auto simp: squad_of_def find_None_iff)
  then have "member_in d (sq_id s) subj sid" by (simp add: squad_of_Some)
  then obtain m' where "m' \<in> set (db_members d)" "mem_squad_id m' = sq_id s"
    "mem_subject_id m' = subj" "mem_student_id m' = sid" by (auto simp: member_in_def list_ex_iff)
  with m one_squad_per_subject [OF assms(1), of m m'] s show ?thesis by auto
qed

lemma accept_joins:
  assumes "squads_ok d" and "accept_invite now i sid d = (d', Inr k)"
  obtains s cap where "get_squad d k = Some s" "max_size d (sq_subject_id s) = Some cap"
    "squads_ok d'" "pending_of d' (sq_subject_id s) sid = []"
    "members_of d' k = members_of d k @ [\<lparr>mem_squad_id = k, mem_student_id = sid,
       mem_subject_id = sq_subject_id s, mem_joined_at = now\<rparr>]"
    "\<exists>s'. squad_of d' (sq_subject_id s) sid False = Some s' \<and> sq_id s' = k \<and>
       (sq_locked_at s' \<noteq> None \<longleftrightarrow> int (length (members_of d' k)) = cap)"
proof -
  obtain r s cap d1 d2 d4 where
    *: "get_invite d i = Some r" "inv_status r = Invite_PENDING" "inv_invited_student_id r = sid"
      "get_squad d (inv_squad_id r) = Some s" "k = sq_id s"
      "max_size d (sq_subject_id s) = Some cap" "accept_refusal d s sid cap = None"
      "d1 = add_member now k (sq_subject_id s) sid d"
      "d2 = cancel_pending_of (Some i) (sq_subject_id s) sid d1"
      "d4 = lock_if_full now cap s d2 (set_invite i Invite_ACCEPTED d2)"
      "same_squads d4 d'"
    by (rule accept_invite_Inr [OF assms(2)])
  let ?subj = "sq_subject_id s"
  let ?row = "\<lparr>mem_squad_id = k, mem_student_id = sid, mem_subject_id = ?subj, mem_joined_at = now\<rparr>"
  have k: "inv_squad_id r = k" using *(4,5) by (simp add: get_squad_Some)
  have ok: "squads_ok d'" using accept_ok [OF assms(1), of now i sid] assms(2) by simp
  have "map_option inv_squad_id (get_invite d1 i) = Some k"
    using *(1,8) k by (simp add: add_member_def get_invite_def)
  then have keep: "members_of d2 k = members_of d1 k"
    "filter (\<lambda>s. sq_id s = k) (db_squads d2) = filter (\<lambda>s. sq_id s = k) (db_squads d1)"
    unfolding *(9) using cancel_pending_of_keeps [of "Some i" d1 k ?subj sid] by blast+
  have m1: "members_of d1 k = members_of d k @ [?row]"
    by (simp add: *(8) members_of_def add_member_def)
  have m4: "members_of d4 k = members_of d2 k"
    by (simp add: *(10) lock_if_full_def members_of_def upd_squad_def)
  have m': "members_of d' k = members_of d k @ [?row]"
    using *(11) m1 m4 keep(1) by (simp add: same_squads_def members_of_def)
  have pend: "pending_of d' ?subj sid = []"
  proof -
    have "set (pending_of d2 ?subj sid) \<subseteq> {r. inv_id r = i}"
      using pending_of_after_cancel [of "Some i" ?subj sid d1] by (auto simp: *(9))
    then have "pending_of (set_invite i Invite_ACCEPTED d2) ?subj sid = []"
      by (auto simp: pending_of_set_invite filter_empty_conv)
    then have "pending_of d4 ?subj sid = []"
      using pending_of_lock [of now cap s d2 "set_invite i Invite_ACCEPTED d2" ?subj sid]
      by (simp add: *(10))
    then show ?thesis using *(11) pending_of_cong [of d' d4] by (simp add: same_squads_def)
  qed
  have "get_squad d2 k = get_squad d k"
    using keep(2) *(8) by (simp add: get_squad_def get_row_hd_filter add_member_def)
  then have g2: "get_squad d2 k = Some s" using *(4) k by simp
  have len: "length (members_of d2 k) = length (members_of d' k)"
    using *(11) m4 by (simp add: same_squads_def members_of_def)
  have le: "int (length (members_of d' k)) \<le> cap"
    using accept_refusal_None(3) [OF *(7)] m' *(5) by simp
  have g': "\<exists>s'. get_squad d' k = Some s' \<and> (sq_locked_at s' \<noteq> None \<longleftrightarrow> int (length (members_of d' k)) = cap)"
  proof -
    have "get_squad d' k = get_squad d4 k" using *(11) by (simp add: same_squads_def get_squad_def)
    also have "\<dots> = Some (if int (length (members_of d' k)) \<ge> cap then s\<lparr>sq_locked_at := Some now\<rparr> else s)"
      using g2 len *(5) by (simp add: *(10) lock_if_full_def get_squad_def upd_squad_def squads.get_put)
    finally show ?thesis using le accept_refusal_None(2) [OF *(7)] by auto
  qed
  have "member_in d' k ?subj sid"
  proof -
    have "?row \<in> set (members_of d' k)" by (simp add: m')
    then have "?row \<in> set (db_members d')" by (simp add: members_of_def)
    then show ?thesis by (force simp: member_in_def list_ex_iff)
  qed
  from squad_of_member [OF ok this] obtain s' where s': "squad_of d' ?subj sid False = Some s'" "sq_id s' = k"
    by blast
  from g' obtain t where t: "get_squad d' k = Some t" by blast
  have "s' \<in> set (db_squads d')" "t \<in> set (db_squads d')" "sq_id t = k"
    using s' t by (auto dest: squad_of_Some get_squad_Some)
  then have "t = s'" using ok s'(2) by (auto simp: squads_ok_def distinct_map inj_on_def)
  with g' t s' have "\<exists>s'. squad_of d' ?subj sid False = Some s' \<and> sq_id s' = k \<and>
       (sq_locked_at s' \<noteq> None \<longleftrightarrow> int (length (members_of d' k)) = cap)" by auto
  with that ok pend m' *(4,6) k show thesis by blast
qed


section \<open>Properties\<close>

text \<open>A class of three students with squads of at most \<open>n\<close>.\<close>

definition sample_class :: "int \<Rightarrow> db" where
  "sample_class n = empty_db\<lparr>db_next := 100,
     db_subjects := [\<lparr>subj_id = 1, subj_name = ''S'', subj_code = None, subj_owner_id = None,
       subj_squad_max_size = Some n, subj_status = Subject_ACTIVE,
       subj_description = None, subj_grid_picture_url = None, subj_main_picture_url = None, subj_classroom_course_id = None, subj_classroom_course_name = None,
       subj_classroom_connection_id = None, subj_classroom_synced_at = None, subj_classroom_sync_error = None\<rparr>],
     db_students := map (\<lambda>i. \<lparr>stu_id = i, stu_full_name = ''N'', stu_email = ''n@x'', stu_group_id = 1, stu_type = REAL,
       stu_recording_consent_at = None\<rparr>) [1, 2, 3],
     db_enrolments := map (\<lambda>i. \<lparr>enr_subject_id = 1, enr_student_id = i\<rparr>) [1, 2, 3]\<rparr>"

lemma sample_class_ok: "squads_ok (sample_class n)"
  by (rule squads_ok_empty) (simp_all add: sample_class_def empty_db_def)



text \<open>An accepted invitation puts the student into the inviting squad, after its members and
  nowhere else in the subject, cancels every other open invitation from or to the student, and
  locks the squad exactly when it is now full.\<close>

theorem accept_invite_joins:
  assumes "squads_ok d" and "accept_invite now invite_id student_id d = (d', Inr k)"
  shows "\<exists>s s' cap. get_squad d k = Some s \<and> max_size d (sq_subject_id s) = Some cap \<and>
    squad_of d' (sq_subject_id s) student_id False = Some s' \<and> sq_id s' = k \<and>
    map mem_student_id (members_of d' k) = map mem_student_id (members_of d k) @ [student_id] \<and>
    \<not> has_pending_invites d' (sq_subject_id s) student_id \<and>
    (sq_locked_at s' \<noteq> None \<longleftrightarrow> int (length (members_of d' k)) = cap) \<and> squads_ok d'"
  by (rule accept_joins [OF assms]) (auto simp: has_pending_invites_def)

theorem accept_invite_joins_witness:
  "(let d = fold serve_squad [CreateSquad 7 1 1 [''2'', ''3'']] (sample_class 3);
        d' = fst (accept_invite 8 101 2 d) in
    snd (accept_invite 8 101 2 d) = Inr 100 \<and> \<not> has_pending_invites d' 1 2 \<and>
    map mem_student_id (members_of d' 100) = [1, 2])"
proof -
  let ?d = "fold serve_squad [CreateSquad 7 1 1 [''2'', ''3'']] (sample_class 3)"
  have ok: "squads_ok ?d" by (rule squad_service.run_good [OF sample_class_ok])
  have r: "snd (accept_invite 8 101 2 ?d) = Inr 100" by code_simp
  then have "accept_invite 8 101 2 ?d = (fst (accept_invite 8 101 2 ?d), Inr 100)"
    by (simp only: prod_eq_iff fst_conv snd_conv simp_thms)
  from accept_invite_joins [OF ok this] obtain s where s: "get_squad ?d 100 = Some s"
    "\<not> has_pending_invites (fst (accept_invite 8 101 2 ?d)) (sq_subject_id s) 2"
    "map mem_student_id (members_of (fst (accept_invite 8 101 2 ?d)) 100) =
     map mem_student_id (members_of ?d 100) @ [2]" by blast
  moreover have "map_option sq_subject_id (get_squad ?d 100) = Some 1" by code_simp
  moreover have "map mem_student_id (members_of ?d 100) = [1]" by code_simp
  ultimately show ?thesis using r by (simp only: Let_def option.map option.inject append.simps simp_thms)
qed

text \<open>The three set queries of \<open>eligible_student_ids\<close> list exactly the students the
  per-student check \<open>eligibility\<close> lets through.\<close>

theorem eligible_ids_agree:
  assumes "squads_ok d" and "\<forall>e \<in> set (db_enrolments d). get_student d (enr_student_id e) \<noteq> None"
  shows "sid \<in> eligible_student_ids d subj \<longleftrightarrow> eligibility d subj sid = None"
proof -
  have real: "map_option stu_type (get_student d sid) = Some REAL \<longleftrightarrow>
      map_option stu_type (get_student d sid) \<noteq> Some TEST" if "enrolled d subj sid"
  proof -
    from that assms(2) obtain s where "get_student d sid = Some s" by (auto simp: enrolled_def list_ex_iff)
    then show ?thesis by (cases "stu_type s") simp_all
  qed
  have enr: "sid \<in> set (map enr_student_id (filter (\<lambda>e. enr_subject_id e = subj \<and>
      map_option stu_type (get_student d (enr_student_id e)) = Some REAL) (db_enrolments d))) \<longleftrightarrow>
      enrolled d subj sid \<and> map_option stu_type (get_student d sid) \<noteq> Some TEST"
    using real by (auto simp: enrolled_def list_ex_iff)
  have mem: "sid \<in> set (map mem_student_id (filter (\<lambda>m. mem_subject_id m = subj) (db_members d))) \<longleftrightarrow>
      squad_of d subj sid False \<noteq> None"
  proof
    assume "sid \<in> set (map mem_student_id (filter (\<lambda>m. mem_subject_id m = subj) (db_members d)))"
    then have "(subj, sid) \<in> (\<lambda>m. (mem_subject_id m, mem_student_id m)) ` set (db_members d)" by auto
    with squad_of_None [OF assms(1)] show "squad_of d subj sid False \<noteq> None" by blast
  next
    assume "squad_of d subj sid False \<noteq> None"
    then obtain s where "squad_of d subj sid False = Some s" by auto
    from squad_of_Some [OF this]
    show "sid \<in> set (map mem_student_id (filter (\<lambda>m. mem_subject_id m = subj) (db_members d)))"
      by (auto simp: member_in_def list_ex_iff)
  qed
  have sub: "sid \<in> snd ` {p \<in> set (List.map_filter (submission_owner d) (db_submissions d)). fst p = subj}
      \<longleftrightarrow> has_submissions d subj sid"
    by (force simp: has_submissions_def list_ex_iff List.map_filter_def)
  show ?thesis
    unfolding eligible_student_ids_def eligibility_def Let_def
    using enr mem sub by (auto simp del: set_map)
qed

theorem eligible_ids_agree_witness:
  "3 \<in> eligible_student_ids (sample_class 2) 1 \<and> eligibility (sample_class 2) 1 3 = None"
proof -
  have "\<forall>e \<in> set (db_enrolments (sample_class 2)). get_student (sample_class 2) (enr_student_id e) \<noteq> None"
    by (simp add: sample_class_def empty_db_def get_student_def)
  moreover have "eligibility (sample_class 2) 1 3 = None" by code_simp
  ultimately show ?thesis using eligible_ids_agree [OF sample_class_ok] by blast
qed

text \<open>A refused accept writes one thing: the invitation becomes CANCELLED. Nothing else in
  the squad tables changes.\<close>

theorem refused_accept_only_cancels:
  assumes "accept_invite now invite_id student_id d = (d', Inl (SquadError reason (Some sid)))"
  shows "sid = student_id \<and> d' = set_invite invite_id Invite_CANCELLED d"
  using assms
  by (auto simp: accept_invite_def load_invite_def Let_def split: sum.splits if_splits option.splits)

theorem refused_accept_only_cancels_witness:
  "(let d = fold serve_squad [CreateSquad 7 1 1 [''2''], CreateSquad 7 1 2 [''3'']] (sample_class 3) in
    fst (accept_invite 8 101 2 d) = set_invite 101 Invite_CANCELLED d)"
proof -
  let ?d = "fold serve_squad [CreateSquad 7 1 1 [''2''], CreateSquad 7 1 2 [''3'']] (sample_class 3)"
  have "snd (accept_invite 8 101 2 ?d) = Inl (SquadError ''already_in_squad'' (Some 2))" by code_simp
  then have "accept_invite 8 101 2 ?d =
      (fst (accept_invite 8 101 2 ?d), Inl (SquadError ''already_in_squad'' (Some 2)))"
    by (simp only: prod_eq_iff fst_conv snd_conv simp_thms)
  from refused_accept_only_cancels [OF this] show ?thesis by (simp only: Let_def)
qed

text \<open>Two runs the rules of the module do not intend. A refused accept does not sweep its squad:
  the inviter stays alone in an open squad with nothing pending and can neither form nor join
  another. And the accept that fills a squad overwrites its own ACCEPTED with CANCELLED.\<close>

lemma refused_accept_strands_inviter:
  "(let d = fold serve_squad [CreateSquad 7 1 1 [''2''], CreateSquad 7 1 2 [''3''],
              AnswerInvite Accept 8 1 2 101] (sample_class 3) in
    map mem_student_id (members_of d 100) = [1] \<and> pending_in d 100 = [] \<and>
    map_option sq_locked_at (get_squad d 100) = Some None \<and>
    eligibility d 1 1 = Some ''already_in_squad'')"
  by code_simp

lemma filling_accept_cancels_itself:
  "(let d = fold serve_squad [CreateSquad 7 1 1 [''2''], AnswerInvite Accept 8 1 2 101] (sample_class 2) in
    map_option inv_status (get_invite d 101) = Some Invite_CANCELLED)"
  by code_simp

end
