(* ===== verification/Grading.thy ===== *)
theory Grading
  imports TeacherScores QuizScoring SquadInvariants
begin

text \<open>
  \<open>services/grading.py\<close>: the weighted grade of an assignment and the step that stores it, for one
  student or for every member of a squad. The lemmas: the blend of percentages is a percentage and
  grows with its components, so the clamp of the grade never hides a formula error; the mean
  over a squad lies within the percentages of its members; storing a squad's grade reaches every
  member.

  \<open>finalize_grade\<close> re-reads the submission it is given; the model takes its id. The attempts come
  in the relationship's order, by \<open>started_at\<close>.
\<close>

section \<open>The blend\<close>

definition blend :: "(rat option \<times> rat) list \<Rightarrow> rat option" where
  "blend pairs =
     (let present = List.map_filter (\<lambda>(v, w). case v of Some x \<Rightarrow> if w > 0 then Some (x, w) else None
                                                  | None \<Rightarrow> None) pairs;
          total_weight = sum_list (map snd present)
      in if present = [] \<or> total_weight \<le> 0 then None
         else Some (sum_list (map (\<lambda>(v, w). v * w) present) / total_weight))"

definition weight_of :: "pydict \<Rightarrow> string \<Rightarrow> rat \<Rightarrow> py_exn + rat" where
  "weight_of cfg k dflt = py_float (dget cfg k (JFloat dflt))"

text \<open>\<open>normalized\<close>, \<open>scaled\<close>, \<open>rounded\<close> and the clamp.\<close>

definition scale_grade :: "int \<Rightarrow> int \<Rightarrow> rat \<Rightarrow> rat" where
  "scale_grade min_grade max_grade normalized =
     of_int min_grade + of_int (max_grade - min_grade) * (normalized / 100)"

definition round_grade :: "bool \<Rightarrow> rat \<Rightarrow> int" where
  "round_grade round_up scaled = (if round_up then \<lceil>py_round_digits 6 scaled\<rceil> else py_round scaled)"

definition compute_grade ::
  "json \<Rightarrow> int \<Rightarrow> int \<Rightarrow> rat option \<Rightarrow> rat option \<Rightarrow> rat option \<Rightarrow> bool \<Rightarrow> py_exn + grade_breakdown_blended"
where
  "compute_grade grading_cfg min_grade max_grade works_pct ai_mark quiz_pct round_up =
     bind_result (or_dict grading_cfg) (\<lambda>cfg.
     bind_result (or_dict (dget cfg ''code'' JNull)) (\<lambda>code_cfg.
     bind_result (weight_of cfg ''code_weight'' 1) (\<lambda>code_weight.
     bind_result (weight_of cfg ''quiz_weight'' 0) (\<lambda>quiz_weight.
     bind_result (weight_of code_cfg ''works_weight'' 1) (\<lambda>works_weight.
     bind_result (weight_of code_cfg ''quality_weight'' 0) (\<lambda>quality_weight.
       let code_score = blend [(works_pct, works_weight), (ai_mark, quality_weight)];
           blended = blend [(code_score, code_weight), (quiz_pct, quiz_weight)];
           normalized = (case blended of Some b \<Rightarrow> b | None \<Rightarrow> 0);
           scaled = scale_grade min_grade max_grade normalized;
           grade = max min_grade (min max_grade (round_grade round_up scaled))
       in Inr \<lparr>gb_grade = grade, gb_works_score = works_pct, gb_quality_score = ai_mark,
               gb_quiz_score = quiz_pct, gb_code_weight = code_weight, gb_quiz_weight = quiz_weight,
               gb_works_weight = works_weight, gb_quality_weight = quality_weight\<rparr>))))))"

section \<open>Percentages\<close>

text \<open>\<open>_pct\<close> on the integer columns of an attempt.\<close>

definition pct :: "int option \<Rightarrow> int option \<Rightarrow> rat option" where
  "pct score max_score =
     (case max_score of
        None \<Rightarrow> None
      | Some m \<Rightarrow>
          if m \<le> 0 then None
          else map_option (\<lambda>s. of_int s / of_int m * 100) score)"

text \<open>\<open>_pct\<close> on the values of the \<open>test_results\<close> document: comparing or dividing what is no number
  is a \<open>TypeError\<close>.\<close>

definition pct_json :: "json \<Rightarrow> json \<Rightarrow> py_exn + rat option" where
  "pct_json score max_score =
     (if \<not> truthy max_score then Inr None
      else if \<not> is_number max_score then Inl TypeError
      else if number_value max_score \<le> 0 \<or> score = JNull then Inr None
      else if \<not> is_number score then Inl TypeError
      else Inr (Some (number_value score / number_value max_score * 100)))"

text \<open>The loop of \<open>squad_quiz_pct\<close>: the best percentage of each student's passed attempts.\<close>

fun best_loop :: "quiz_attempt list \<Rightarrow> (int \<times> rat) list \<Rightarrow> (int \<times> rat) list" where
  "best_loop [] best = best"
| "best_loop (a # as) best =
     (case att_student_id a of
        None \<Rightarrow> best_loop as best
      | Some sid \<Rightarrow>
          if att_is_passed a \<noteq> Some True then best_loop as best
          else
            case pct (att_score a) (att_max_score a) of
              None \<Rightarrow> best_loop as best
            | Some p \<Rightarrow>
                if p > (case map_of best sid of Some b \<Rightarrow> b | None \<Rightarrow> - 1)
                then best_loop as (AList.update sid p best) else best_loop as best)"

definition squad_quiz_pct :: "quiz_attempt list \<Rightarrow> rat option \<times> (int \<times> rat) list" where
  "squad_quiz_pct attempts =
     (let best = best_loop attempts [] in
      if best = [] then (None, [])
      else (Some (sum_list (map snd best) / of_nat (length best)),
            map (\<lambda>(sid, p). (sid, py_round_digits 2 p)) (sort_key fst best)))"

section \<open>Storing the grade\<close>

definition quiz_attempts :: "db \<Rightarrow> int \<Rightarrow> quiz_attempt list" where
  "quiz_attempts d submission_id =
     sort_key att_started_at (filter (\<lambda>a. att_submission_id a = submission_id) (db_attempts d))"

definition set_grade :: "int \<Rightarrow> int \<Rightarrow> db \<Rightarrow> db" where
  "set_grade grade i d = upd_sa i (\<lambda>sa. sa\<lparr>sa_grade := Some grade\<rparr>) d"

definition opt_dict :: "pydict option \<Rightarrow> pydict" where
  "opt_dict x = (case x of Some p \<Rightarrow> p | None \<Rightarrow> [])"

definition store_grade ::
  "submission \<Rightarrow> student_assignment \<Rightarrow> int \<Rightarrow> breakdown_body \<Rightarrow> squad option \<Rightarrow> (int \<times> rat) list \<Rightarrow> int \<Rightarrow>
    db \<Rightarrow> db \<times> grade_breakdown"
where
  "store_grade sub sa assignment_id body sq members grade d =
     (let (targets, d1) = (case sq of
                             None \<Rightarrow> ([sa_id sa], d)
                           | Some s \<Rightarrow> member_sa_ids (sq_id s) assignment_id d);
          d2 = fold (set_grade grade) targets d1;
          bd = \<lparr>bd_body = body,
                bd_squad = map_option (\<lambda>s. \<lparr>sp_squad_id = sq_id s, sp_members = members\<rparr>) sq\<rparr>
      in (upd_submission (sub_id sub) (\<lambda>r. r\<lparr>sub_grade_breakdown := Some bd\<rparr>) d2, bd))"

definition quiz_part :: "db \<Rightarrow> submission \<Rightarrow> squad option \<Rightarrow> rat option \<times> (int \<times> rat) list" where
  "quiz_part d sub sq =
     (case sq of
        Some _ \<Rightarrow> squad_quiz_pct (quiz_attempts d (sub_id sub))
      | None \<Rightarrow>
          (case find (\<lambda>a. att_is_passed a = Some True) (quiz_attempts d (sub_id sub)) of
             Some a \<Rightarrow> (pct (att_score a) (att_max_score a), [])
           | None \<Rightarrow> (None, [])))"

definition finalize_grade :: "int \<Rightarrow> db \<Rightarrow> py_exn + (db \<times> grade_breakdown option)" where
  "finalize_grade submission_id d =
     (case get_submission d submission_id of
        None \<Rightarrow> Inr (d, None)
      | Some sub \<Rightarrow>
     (case get_sa d (sub_students_assignment_id sub) of
        None \<Rightarrow> Inr (d, None)
      | Some sa \<Rightarrow>
     (case get_assignment d (sa_subjects_assignment_id sa) of
        None \<Rightarrow> Inr (d, None)
      | Some asg \<Rightarrow>
          let grading_cfg = dget (asg_config asg) ''grading'' JNull;
              test_results = opt_dict (sub_test_results sub);
              raw_mark = dget (opt_dict (sub_ai_review sub)) ''code_mark'' JNull;
              ai_mark = (if is_number raw_mark then Some (number_value raw_mark) else None);
              sq = squad_for_submission d sub;
              (quiz_pct, members) = quiz_part d sub sq
          in
          bind_result (pct_json (dget test_results ''score'' JNull) (dget test_results ''max_score'' JNull))
            (\<lambda>works_pct.
          if is_scored_mode (asg_config asg) then
            bind_result (or_dict grading_cfg) (\<lambda>cfg.
            bind_result (criteria cfg) (\<lambda>crits.
              let scores = (case sa_teacher_scores sa of Some s \<Rightarrow> s | None \<Rightarrow> []) in
              case quiz_pct of
                None \<Rightarrow> Inr (d, None)
              | Some q \<Rightarrow>
                  if \<not> is_complete crits (Some scores) then Inr (d, None)
                  else
                    bind_result (compute cfg (asg_min_grade asg) (asg_max_grade asg) q scores (sq \<noteq> None))
                      (\<lambda>b. let (d', bd) = store_grade sub sa (asg_id asg) (Scored b) sq members (gs_grade b) d
                           in Inr (d', Some bd))))
          else
            bind_result (compute_grade grading_cfg (asg_min_grade asg) (asg_max_grade asg)
                works_pct ai_mark quiz_pct (sq \<noteq> None))
              (\<lambda>b. let (d', bd) = store_grade sub sa (asg_id asg) (Blended b) sq members (gb_grade b) d
                   in Inr (d', Some bd))))))"

definition breakdown_grade :: "grade_breakdown \<Rightarrow> int" where
  "breakdown_grade bd = (case bd_body bd of Blended b \<Rightarrow> gb_grade b | Scored b \<Rightarrow> gs_grade b)"

section \<open>The blend is an average\<close>

definition is_pct :: "rat option \<Rightarrow> bool" where
  "is_pct v = (case v of Some x \<Rightarrow> 0 \<le> x \<and> x \<le> 100 | None \<Rightarrow> True)"

lemma blend_two:
  "blend [(a, wa), (b, wb)] =
     (case (if wa > 0 then a else None, if wb > 0 then b else None) of
        (Some x, Some y) \<Rightarrow> Some ((x * wa + y * wb) / (wa + wb))
      | (Some x, None) \<Rightarrow> Some x
      | (None, Some y) \<Rightarrow> Some y
      | (None, None) \<Rightarrow> None)"
  by (auto simp: blend_def List.map_filter_def split: option.splits)

lemma weighted_mean_bounds:
  fixes x :: rat
  assumes "0 < wa" "0 < wb" "lo \<le> x" "x \<le> hi" "lo \<le> y" "y \<le> hi"
  shows "lo \<le> (x * wa + y * wb) / (wa + wb) \<and> (x * wa + y * wb) / (wa + wb) \<le> hi"
proof -
  have "lo * (wa + wb) \<le> x * wa + y * wb"
    unfolding distrib_left using assms by (intro add_mono mult_right_mono) simp_all
  moreover have "x * wa + y * wb \<le> hi * (wa + wb)"
    unfolding distrib_left using assms by (intro add_mono mult_right_mono) simp_all
  ultimately show ?thesis using assms(1,2) by (simp add: pos_le_divide_eq pos_divide_le_eq)
qed

lemma blend_is_pct:
  assumes "is_pct a" "is_pct b"
  shows "is_pct (blend [(a, wa), (b, wb)])"
  using assms weighted_mean_bounds [of wa wb 0 _ 100]
  by (auto simp: blend_two is_pct_def split: option.splits if_splits)

text \<open>At least as good in every component, with the same components present.\<close>

definition no_worse :: "rat option \<Rightarrow> rat option \<Rightarrow> bool" where
  "no_worse a b = (case (a, b) of (Some x, Some y) \<Rightarrow> x \<le> y | (None, None) \<Rightarrow> True | _ \<Rightarrow> False)"

lemma blend_mono:
  assumes "no_worse a a'" "no_worse b b'"
  shows "no_worse (blend [(a, wa), (b, wb)]) (blend [(a', wa), (b', wb)])"
proof -
  have "(x * wa + y * wb) / (wa + wb) \<le> (x' * wa + y' * wb) / (wa + wb)"
    if "0 < wa" "0 < wb" "x \<le> x'" "y \<le> y'" for x y x' y' :: rat
    using that by (intro divide_right_mono add_mono mult_right_mono) simp_all
  with assms show ?thesis
    by (auto simp: blend_two no_worse_def split: option.splits if_splits)
qed

lemma scale_grade_bounds:
  assumes "lo \<le> hi" "0 \<le> x" "x \<le> 100"
  shows "of_int lo \<le> scale_grade lo hi x \<and> scale_grade lo hi x \<le> of_int hi"
proof -
  have "0 \<le> of_int (hi - lo) * (x / 100)" using assms by simp
  moreover have "of_int (hi - lo) * (x / 100) \<le> of_int (hi - lo) * 1"
    using assms by (intro mult_left_mono) simp_all
  ultimately show ?thesis by (simp add: scale_grade_def)
qed

lemma scale_grade_mono: "lo \<le> hi \<Longrightarrow> x \<le> y \<Longrightarrow> scale_grade lo hi x \<le> scale_grade lo hi y"
  by (simp add: scale_grade_def mult_left_mono divide_right_mono)

lemma round_grade_mono: "x \<le> y \<Longrightarrow> round_grade up x \<le> round_grade up y"
  by (simp add: round_grade_def ceiling_mono py_round_digits_mono py_round_mono)

lemma round_grade_of_int [simp]: "round_grade up (of_int n) = n"
  by (simp add: round_grade_def)

lemma round_grade_bounds:
  "of_int lo \<le> x \<Longrightarrow> x \<le> of_int hi \<Longrightarrow> lo \<le> round_grade up x \<and> round_grade up x \<le> hi"
  using round_grade_mono [of "of_int lo" x up] round_grade_mono [of x "of_int hi" up] by simp


lemma compute_grade_Inr:
  assumes "compute_grade cfg lo hi wk ai qz up = Inr b"
  obtains cw qw ww lw where
    "gb_grade b = max lo (min hi (round_grade up (scale_grade lo hi
       (case blend [(blend [(wk, ww), (ai, lw)], cw), (qz, qw)] of Some x \<Rightarrow> x | None \<Rightarrow> 0))))"
    "\<And>wk' ai' qz' up'. compute_grade cfg lo hi wk' ai' qz' up' = Inr \<lparr>gb_grade =
       max lo (min hi (round_grade up' (scale_grade lo hi
         (case blend [(blend [(wk', ww), (ai', lw)], cw), (qz', qw)] of Some x \<Rightarrow> x | None \<Rightarrow> 0)))),
       gb_works_score = wk', gb_quality_score = ai', gb_quiz_score = qz',
       gb_code_weight = cw, gb_quiz_weight = qw, gb_works_weight = ww, gb_quality_weight = lw\<rparr>"
  using assms unfolding compute_grade_def Let_def by (auto simp: bind_result_eq_Inr)

lemma compute_grade_unclamped:
  assumes "compute_grade cfg lo hi wk ai qz up = Inr b"
    and "lo \<le> hi" "is_pct wk" "is_pct ai" "is_pct qz"
  obtains x where "0 \<le> x" "x \<le> 100" "gb_grade b = round_grade up (scale_grade lo hi x)"
proof -
  obtain cw qw ww lw where g: "gb_grade b = max lo (min hi (round_grade up (scale_grade lo hi
       (case blend [(blend [(wk, ww), (ai, lw)], cw), (qz, qw)] of Some x \<Rightarrow> x | None \<Rightarrow> 0))))"
    by (rule compute_grade_Inr [OF assms(1)])
  define x where "x = (case blend [(blend [(wk, ww), (ai, lw)], cw), (qz, qw)] of Some x \<Rightarrow> x | None \<Rightarrow> 0)"
  have "is_pct (blend [(blend [(wk, ww), (ai, lw)], cw), (qz, qw)])"
    by (intro blend_is_pct assms)
  then have x: "0 \<le> x" "x \<le> 100" by (auto simp: x_def is_pct_def split: option.splits)
  then have "lo \<le> round_grade up (scale_grade lo hi x) \<and> round_grade up (scale_grade lo hi x) \<le> hi"
    using scale_grade_bounds [OF assms(2) x] by (intro round_grade_bounds) auto
  with g x that [of x] show thesis by (simp add: x_def)
qed

section \<open>The squad's mean\<close>

lemma pct_bounds:
  assumes "pct s m = Some p" and "\<And>k. s = Some k \<Longrightarrow> 0 \<le> k \<and> k \<le> the m"
  shows "0 \<le> p \<and> p \<le> 100"
proof -
  from assms obtain k n where k: "s = Some k" "m = Some n" "0 < n" "p = of_int k / of_int n * 100"
    by (auto simp: pct_def split: option.splits if_splits)
  with assms(2) have "0 \<le> k" "k \<le> n" by auto
  then have "(0::rat) \<le> of_int k / of_int n" "of_int k / of_int n \<le> (1::rat)"
    using k(3) by simp_all
  then have "0 * 100 \<le> of_int k / of_int n * (100::rat)" "of_int k / of_int n * 100 \<le> 1 * (100::rat)"
    by (intro mult_right_mono; simp)+
  with k(4) show ?thesis by simp
qed

text \<open>Every attempt's score is between zero and its maximum, the check constraint of the table.\<close>

definition scored_ok :: "quiz_attempt \<Rightarrow> bool" where
  "scored_ok a \<longleftrightarrow> (\<forall>s. att_score a = Some s \<longrightarrow> 0 \<le> s \<and> s \<le> the (att_max_score a))"

text \<open>The percentages of a student's passed attempts, and the loop's result for that student.\<close>

definition passed_pcts :: "quiz_attempt list \<Rightarrow> int \<Rightarrow> rat list" where
  "passed_pcts as sid =
     List.map_filter (\<lambda>a. if att_student_id a = Some sid \<and> att_is_passed a = Some True
                          then pct (att_score a) (att_max_score a) else None) as"

definition keep_best :: "rat \<Rightarrow> rat option \<Rightarrow> rat option" where
  "keep_best p cur = (if p > (case cur of Some b \<Rightarrow> b | None \<Rightarrow> - 1) then Some p else cur)"

lemma best_loop_lookup:
  "map_of (best_loop as best) sid = fold keep_best (passed_pcts as sid) (map_of best sid)"
proof (induction as best rule: best_loop.induct)
  case (1 best)
  then show ?case by (simp add: passed_pcts_def List.map_filter_def)
next
  case (2 a as best)
  show ?case
  proof (cases "att_student_id a = None \<or> att_is_passed a \<noteq> Some True \<or> pct (att_score a) (att_max_score a) = None")
    case True
    then have "best_loop (a # as) best = best_loop as best" "passed_pcts (a # as) sid = passed_pcts as sid"
      by (auto simp: passed_pcts_def List.map_filter_def split: option.splits)
    with True 2 show ?thesis by (cases "att_student_id a") (auto split: option.splits)
  next
    case False
    then obtain i p where a: "att_student_id a = Some i" "att_is_passed a = Some True"
      "pct (att_score a) (att_max_score a) = Some p" by auto
    have np: "\<not> att_is_passed a \<noteq> Some True" using a(2) by simp
    have pp: "passed_pcts (a # as) sid = (if i = sid then p # passed_pcts as sid else passed_pcts as sid)"
      using a by (simp add: passed_pcts_def List.map_filter_def)
    show ?thesis
      using 2(4) [OF a(1) np a(3)] 2(5) [OF a(1) np a(3)] a
      by (auto simp: pp keep_best_def update_conv')
  qed
qed

lemma keep_best_fold:
  "\<forall>p \<in> set ps. 0 \<le> p \<Longrightarrow> fold keep_best ps (Some b) = Some (Max (insert b (set ps)))"
proof (induction ps arbitrary: b)
  case Nil
  then show ?case by simp
next
  case (Cons p ps)
  have "fold keep_best (p # ps) (Some b) = fold keep_best ps (Some (max p b))"
    by (simp add: keep_best_def max_def)
  also have "\<dots> = Some (Max (insert (max p b) (set ps)))" using Cons by simp
  also have "\<dots> = Some (Max (insert b (set (p # ps))))"
    by (cases "ps = []") (simp_all add: Max_insert max.assoc max.commute max.left_commute)
  finally show ?case .
qed

lemma keep_best_max:
  assumes "\<forall>p \<in> set ps. 0 \<le> p"
  shows "fold keep_best ps None = (if ps = [] then None else Some (Max (set ps)))"
proof (cases ps)
  case Nil
  then show ?thesis by simp
next
  case (Cons p qs)
  then have "0 \<le> p" using assms by simp
  then have "fold keep_best ps None = fold keep_best qs (Some p)" by (simp add: Cons keep_best_def)
  with Cons assms keep_best_fold [of qs p] show ?thesis by simp
qed

lemma best_loop_distinct: "distinct (map fst best) \<Longrightarrow> distinct (map fst (best_loop as best))"
proof (induction as best rule: best_loop.induct)
  case (1 best)
  then show ?case by simp
next
  case (2 a as best)
  then show ?case by (auto simp: distinct_update split: option.splits)
qed

lemma passed_pcts_bounds:
  assumes "\<forall>a \<in> set as. scored_ok a" and "p \<in> set (passed_pcts as sid)"
  shows "0 \<le> p \<and> p \<le> 100"
proof -
  from assms(2) obtain a where a: "a \<in> set as" "pct (att_score a) (att_max_score a) = Some p"
    by (auto simp: passed_pcts_def List.map_filter_def split: if_splits)
  with assms(1) show ?thesis by (intro pct_bounds [OF a(2)]) (auto simp: scored_ok_def)
qed

text \<open>The dictionary the loop builds: each student with a passed attempt once, with the best of
  the student's percentages.\<close>

lemma best_loop_spec:
  assumes "\<forall>a \<in> set as. scored_ok a"
  shows "map_of (best_loop as []) sid =
    (if passed_pcts as sid = [] then None else Some (Max (set (passed_pcts as sid))))"
  using keep_best_max [of "passed_pcts as sid"] passed_pcts_bounds [OF assms]
  by (simp add: best_loop_lookup)

lemma best_loop_bounds:
  assumes "\<forall>a \<in> set as. scored_ok a" and "(sid, p) \<in> set (best_loop as [])"
  shows "0 \<le> p \<and> p \<le> 100"
proof -
  have "map_of (best_loop as []) sid = Some p"
    using assms(2) best_loop_distinct [of "[]" as] by simp
  with best_loop_spec [OF assms(1)] have "passed_pcts as sid \<noteq> []" "p = Max (set (passed_pcts as sid))"
    by (auto split: if_splits)
  then have "p \<in> set (passed_pcts as sid)" by simp
  with passed_pcts_bounds [OF assms(1)] show ?thesis by blast
qed

lemma mean_bounds:
  fixes xs :: "rat list"
  assumes "xs \<noteq> []" and "\<forall>x \<in> set xs. lo \<le> x \<and> x \<le> hi"
  shows "lo \<le> sum_list xs / of_nat (length xs) \<and> sum_list xs / of_nat (length xs) \<le> hi"
proof -
  have "of_nat (length xs) * lo \<le> sum_list xs \<and> sum_list xs \<le> of_nat (length xs) * hi"
    using assms(2) by (induction xs) (auto simp: distrib_right add_mono)
  with assms(1) show ?thesis by (simp add: pos_le_divide_eq pos_divide_le_eq mult.commute)
qed

lemma squad_quiz_pct_is_pct:
  assumes "\<forall>a \<in> set as. scored_ok a"
  shows "is_pct (fst (squad_quiz_pct as))"
proof (cases "best_loop as [] = []")
  case True
  then show ?thesis by (simp add: squad_quiz_pct_def is_pct_def)
next
  case False
  have "\<forall>x \<in> set (map snd (best_loop as [])). 0 \<le> x \<and> x \<le> 100"
    using best_loop_bounds [OF assms] by auto
  with False mean_bounds [of "map snd (best_loop as [])" 0 100]
  show ?thesis by (simp add: squad_quiz_pct_def is_pct_def Let_def)
qed


section \<open>Storing reaches every member\<close>

lemma find_upd:
  assumes "\<And>r. P (f r) = P r"
  shows "find P (upd_row key i f t) = map_option (\<lambda>r. if key r = i then f r else r) (find P t)"
  using assms by (induction t) (auto simp: upd_row_def)

lemma find_sa_set_grade:
  "find_sa (set_grade g i d) sid asg =
     map_option (\<lambda>r. if sa_id r = i then r\<lparr>sa_grade := Some g\<rparr> else r) (find_sa d sid asg)"
  unfolding find_sa_def set_grade_def upd_sa_def by (simp add: find_upd)

lemma find_sa_set_grades:
  assumes "find_sa d sid asg = Some r" and "sa_id r \<in> set is \<or> sa_grade r = Some g"
  shows "\<exists>r'. find_sa (fold (set_grade g) is d) sid asg = Some r' \<and> sa_grade r' = Some g"
  using assms
proof (induction "is" arbitrary: d r)
  case Nil
  then show ?case by simp
next
  case (Cons i "is")
  let ?r = "if sa_id r = i then r\<lparr>sa_grade := Some g\<rparr> else r"
  have "find_sa (set_grade g i d) sid asg = Some ?r"
    using Cons.prems(1) by (simp add: find_sa_set_grade)
  moreover have "sa_id ?r \<in> set is \<or> sa_grade ?r = Some g" using Cons.prems(2) by auto
  ultimately show ?case using Cons.IH by simp
qed

lemma find_sa_add:
  assumes "add_sa sid asg d = (i, d')"
  shows "find_sa d' s a = (case find_sa d s a of Some r \<Rightarrow> Some r
    | None \<Rightarrow> if s = sid \<and> a = asg then Some \<lparr>sa_id = i, sa_student_id = sid,
        sa_subjects_assignment_id = asg, sa_grade = None, sa_variant = None, sa_teacher_scores = None\<rparr>
      else None)"
proof -
  have "find P (xs @ ys) = (case find P xs of Some r \<Rightarrow> Some r | None \<Rightarrow> find P ys)" for P and xs ys :: "student_assignment list"
    by (induction xs) auto
  with assms show ?thesis by (auto simp: add_sa_def find_sa_def split: option.splits)
qed

text \<open>\<open>member_sa_ids\<close>: every member has a row afterwards and its id is in the list; rows that were
  there stay.\<close>

lemma member_sa_ids_loop_spec:
  assumes "member_sa_ids_loop asg ms d = (is, d')"
  shows "(\<forall>s a r. find_sa d s a = Some r \<longrightarrow> find_sa d' s a = Some r) \<and>
    (\<forall>m \<in> set ms. \<exists>r. find_sa d' (mem_student_id m) asg = Some r \<and> sa_id r \<in> set is) \<and>
    length is = length ms"
  using assms
proof (induction asg ms d arbitrary: "is" d' rule: member_sa_ids_loop.induct)
  case (1 asg d)
  then show ?case by simp
next
  case (2 asg m ms d)
  obtain i d1 where h: "(case find_sa d (mem_student_id m) asg of Some sa \<Rightarrow> (sa_id sa, d)
      | None \<Rightarrow> add_sa (mem_student_id m) asg d) = (i, d1)" by fastforce
  obtain js d2 where t: "member_sa_ids_loop asg ms d1 = (js, d2)" by fastforce
  have res: "is = i # js" "d' = d2" using 2(2) h t by (auto simp: Let_def)
  have keep: "find_sa d s a = Some r \<Longrightarrow> find_sa d1 s a = Some r" for s a r
    using h by (auto split: option.splits simp: find_sa_add)
  have own: "\<exists>r. find_sa d1 (mem_student_id m) asg = Some r \<and> sa_id r = i"
    using h by (auto split: option.splits simp: find_sa_add)
  note IH = 2(1) [OF h [symmetric] refl t]
  show ?case
    using IH keep own by (auto simp: res)
qed

lemma member_sa_ids_others:
  "db_submissions (snd (member_sa_ids_loop asg ms d)) = db_submissions d"
proof (induction asg ms d rule: member_sa_ids_loop.induct)
  case (1 asg d)
  then show ?case by simp
next
  case (2 asg m ms d)
  obtain i d1 where h: "(case find_sa d (mem_student_id m) asg of Some sa \<Rightarrow> (sa_id sa, d)
      | None \<Rightarrow> add_sa (mem_student_id m) asg d) = (i, d1)" by fastforce
  then have "db_submissions d1 = db_submissions d" by (auto simp: add_sa_def split: option.splits)
  with 2 [OF h [symmetric] refl] h show ?case by (simp add: case_prod_unfold Let_def)
qed

lemma set_grades_others [simp]:
  "db_submissions (fold (set_grade g) is d) = db_submissions d"
  by (induction "is" arbitrary: d) (simp_all add: set_grade_def upd_sa_def)

lemma upd_submission_find_sa [simp]: "find_sa (upd_submission i f d) s a = find_sa d s a"
  by (simp add: find_sa_def upd_submission_def)

lemma store_grade_squad:
  assumes "store_grade sub sa asg body (Some s) members g d = (d', bd)" and "m \<in> set (members_of d (sq_id s))"
  shows "\<exists>r. find_sa d' (mem_student_id m) asg = Some r \<and> sa_grade r = Some g"
proof -
  obtain ids d1 where t: "member_sa_ids_loop asg (members_of d (sq_id s)) d = (ids, d1)" by fastforce
  with assms(2) obtain r where "find_sa d1 (mem_student_id m) asg = Some r" "sa_id r \<in> set ids"
    using member_sa_ids_loop_spec by blast
  then have "\<exists>r'. find_sa (fold (set_grade g) ids d1) (mem_student_id m) asg = Some r' \<and> sa_grade r' = Some g"
    using find_sa_set_grades by blast
  with assms(1) t show ?thesis by (auto simp: store_grade_def member_sa_ids_def Let_def)
qed

lemma store_grade_single:
  assumes "store_grade sub sa asg body None members g d = (d', bd)" and "get_sa d (sa_id sa) = Some sa"
  shows "get_sa d' (sa_id sa) = Some (sa\<lparr>sa_grade := Some g\<rparr>)"
  using assms by (auto simp: store_grade_def Let_def set_grade_def get_sa_def upd_sa_def
      upd_submission_def sas.get_put)

lemma store_grade_submission:
  assumes "store_grade sub sa asg body sq members g d = (d', bd)"
    and "get_submission d (sub_id sub) = Some sub"
  shows "get_submission d' (sub_id sub) = Some (sub\<lparr>sub_grade_breakdown := Some bd\<rparr>)"
proof -
  obtain ids d1 where t: "(case sq of None \<Rightarrow> ([sa_id sa], d) | Some s \<Rightarrow> member_sa_ids (sq_id s) asg d) = (ids, d1)"
    by fastforce
  then have "db_submissions d1 = db_submissions d"
    using member_sa_ids_others [of asg _ d]
    by (auto simp: member_sa_ids_def split: option.splits) (metis snd_conv)
  with assms t show ?thesis
    by (auto simp: store_grade_def Let_def get_submission_def upd_submission_def submissions.get_put)
qed

lemma finalize_grade_Some:
  assumes "finalize_grade i d = Inr (d', Some bd)"
  obtains sub sa asg body members g where
    "get_submission d i = Some sub" "sub_id sub = i"
    "get_sa d (sub_students_assignment_id sub) = Some sa"
    "get_assignment d (sa_subjects_assignment_id sa) = Some asg"
    "store_grade sub sa (asg_id asg) body (squad_for_submission d sub) members g d = (d', bd)"
    "breakdown_grade bd = g"
    "asg_min_grade asg \<le> asg_max_grade asg \<Longrightarrow> asg_min_grade asg \<le> g \<and> g \<le> asg_max_grade asg"
proof -
  from assms obtain sub sa asg where g: "get_submission d i = Some sub"
      "get_sa d (sub_students_assignment_id sub) = Some sa"
      "get_assignment d (sa_subjects_assignment_id sa) = Some asg"
    by (auto simp: finalize_grade_def split: option.splits)
  then have i: "sub_id sub = i" by (simp add: get_submission_def get_row_Some)
  have bd: "bd_body bd = body" if "store_grade sub sa a body sq ms gr e = (e', bd)" for a body sq ms gr e e'
    using that by (auto simp: store_grade_def Let_def split: prod.splits)
  have clamp: "lo \<le> hi \<Longrightarrow> lo \<le> max lo (min hi x) \<and> max lo (min hi x) \<le> hi" for lo hi x :: int
    by simp
  obtain q ms where qp: "quiz_part d sub (squad_for_submission d sub) = (q, ms)" by fastforce
  show thesis
  proof (cases "is_scored_mode (asg_config asg)")
    case True
    have "q \<noteq> None" using assms g qp True
      by (cases q) (auto simp: finalize_grade_def Let_def bind_result_eq_Inr)
    then obtain qv where q: "q = Some qv" by auto
    from assms g qp True obtain cfg crits scores where
      "(if \<not> is_complete crits (Some scores) then Inr (d, None)
        else bind_result (compute cfg (asg_min_grade asg) (asg_max_grade asg) qv scores
              (squad_for_submission d sub \<noteq> None))
           (\<lambda>b. let (d', bd) = store_grade sub sa (asg_id asg) (Scored b) (squad_for_submission d sub)
                    ms (gs_grade b) d in Inr (d', Some bd))) = Inr (d', Some bd)"
      unfolding finalize_grade_def Let_def
      by (simp add: bind_result_eq_Inr q Let_def) blast
    then obtain b where
      b: "compute cfg (asg_min_grade asg) (asg_max_grade asg) qv scores (squad_for_submission d sub \<noteq> None) = Inr b"
      and st: "store_grade sub sa (asg_id asg) (Scored b) (squad_for_submission d sub) ms (gs_grade b) d = (d', bd)"
      by (auto simp: bind_result_eq_Inr case_prod_unfold prod_eq_iff Let_def split: if_splits)
    from b have "asg_min_grade asg \<le> asg_max_grade asg \<Longrightarrow>
        asg_min_grade asg \<le> gs_grade b \<and> gs_grade b \<le> asg_max_grade asg"
      by (auto simp: compute_def Let_def bind_result_eq_Inr)
    with that [OF g(1) i g(2,3) st] bd [OF st] show thesis by (simp add: breakdown_grade_def)
  next
    case False
    from assms g qp False obtain wk ai b where
      b: "compute_grade (dget (asg_config asg) ''grading'' JNull) (asg_min_grade asg) (asg_max_grade asg)
            wk ai q (squad_for_submission d sub \<noteq> None) = Inr b"
      and st: "store_grade sub sa (asg_id asg) (Blended b) (squad_for_submission d sub) ms (gb_grade b) d = (d', bd)"
      unfolding finalize_grade_def Let_def
      by (simp add: bind_result_eq_Inr case_prod_unfold prod_eq_iff) blast
    from b have "asg_min_grade asg \<le> asg_max_grade asg \<Longrightarrow>
        asg_min_grade asg \<le> gb_grade b \<and> gb_grade b \<le> asg_max_grade asg"
      by (rule compute_grade_Inr) simp
    with that [OF g(1) i g(2,3) st] bd [OF st] show thesis by (simp add: breakdown_grade_def)
  qed
qed


section \<open>Properties\<close>

text \<open>The blended grade is monotone: when no component gets worse (and the same ones are
  present), the grade does not fall, whatever weights the teacher configured and however it is
  rounded.\<close>

theorem compute_grade_monotone:
  assumes "compute_grade cfg lo hi wk ai qz up = Inr b" and "compute_grade cfg lo hi wk' ai' qz' up = Inr b'"
    and "lo \<le> hi" and "no_worse wk wk'" "no_worse ai ai'" "no_worse qz qz'"
  shows "gb_grade b \<le> gb_grade b'"
proof -
  obtain cw qw ww lw where
    g: "gb_grade b = max lo (min hi (round_grade up (scale_grade lo hi
       (case blend [(blend [(wk, ww), (ai, lw)], cw), (qz, qw)] of Some x \<Rightarrow> x | None \<Rightarrow> 0))))"
    and g': "compute_grade cfg lo hi wk' ai' qz' up = Inr \<lparr>gb_grade =
       max lo (min hi (round_grade up (scale_grade lo hi
         (case blend [(blend [(wk', ww), (ai', lw)], cw), (qz', qw)] of Some x \<Rightarrow> x | None \<Rightarrow> 0)))),
       gb_works_score = wk', gb_quality_score = ai', gb_quiz_score = qz',
       gb_code_weight = cw, gb_quiz_weight = qw, gb_works_weight = ww, gb_quality_weight = lw\<rparr>"
    by (rule compute_grade_Inr [OF assms(1)]) blast
  let ?n = "\<lambda>wk ai qz. case blend [(blend [(wk, ww), (ai, lw)], cw), (qz, qw)] of Some x \<Rightarrow> x | None \<Rightarrow> (0::rat)"
  have "no_worse (blend [(blend [(wk, ww), (ai, lw)], cw), (qz, qw)])
      (blend [(blend [(wk', ww), (ai', lw)], cw), (qz', qw)])"
    by (intro blend_mono assms)
  then have "?n wk ai qz \<le> ?n wk' ai' qz'" by (auto simp: no_worse_def split: option.splits)
  then have "round_grade up (scale_grade lo hi (?n wk ai qz)) \<le> round_grade up (scale_grade lo hi (?n wk' ai' qz'))"
    by (intro round_grade_mono scale_grade_mono assms)
  moreover have "gb_grade b' = max lo (min hi (round_grade up (scale_grade lo hi (?n wk' ai' qz'))))"
    using assms(2) g' by auto
  ultimately show ?thesis using g by auto
qed

definition sample_grading :: json where
  "sample_grading = JObj [(''code_weight'', JInt 3), (''quiz_weight'', JInt 1),
     (''code'', JObj [(''works_weight'', JInt 1), (''quality_weight'', JInt 1)])]"

lemma sample_compute:
  "compute_grade sample_grading 0 10 (Some 80) (Some 60) (Some q) False =
     Inr \<lparr>gb_grade = max 0 (min 10 (round_grade False (scale_grade 0 10 (((70 * 3) + q) / 4)))),
      gb_works_score = Some 80, gb_quality_score = Some 60, gb_quiz_score = Some q, gb_code_weight = 3,
      gb_quiz_weight = 1, gb_works_weight = 1, gb_quality_weight = 1\<rparr>"
  by (simp add: compute_grade_def sample_grading_def weight_of_def dget_def blend_two)

theorem compute_grade_monotone_witness:
  "(case (compute_grade sample_grading 0 10 (Some 80) (Some 60) (Some 40) False,
          compute_grade sample_grading 0 10 (Some 80) (Some 60) (Some 100) False) of
      (Inr b, Inr b') \<Rightarrow> gb_grade b = 6 \<and> gb_grade b' = 8 \<and> gb_grade b \<le> gb_grade b' | _ \<Rightarrow> False)"
proof -
  let ?c = "\<lambda>q. compute_grade sample_grading 0 10 (Some 80) (Some 60) (Some q) False"
  note e = sample_compute
  have "no_worse (Some (40::rat)) (Some 100)" by (simp add: no_worse_def)
  note nw = this
  have fl: "\<lfloor>25 / 4 :: rat\<rfloor> = 6" "\<lfloor>31 / 4 :: rat\<rfloor> = 7" by (simp_all add: floor_eq_iff)
  from compute_grade_monotone [OF e [of 40] e [of 100] _ _ _ nw]
  show ?thesis unfolding e [of 40] e [of 100]
    by (simp add: no_worse_def round_grade_def scale_grade_def py_round_def fl Let_def)
qed

text \<open>Percentages in, grade out: with every component between 0 and 100 the blended grade is
  the rounding of a point of the assignment's grade range, so the final clamp never changes it;
  the grade is at most half a point from that point, or the next whole grade above it when a
  squad's grade is rounded up.\<close>

theorem compute_grade_is_a_rounding:
  assumes "compute_grade cfg lo hi wk ai qz up = Inr b"
    and "lo \<le> hi" "is_pct wk" "is_pct ai" "is_pct qz"
  shows "\<exists>x. of_int lo \<le> x \<and> x \<le> of_int hi \<and> gb_grade b = round_grade up x \<and>
    lo \<le> gb_grade b \<and> gb_grade b \<le> hi \<and> (\<not> up \<longrightarrow> \<bar>of_int (gb_grade b) - x\<bar> \<le> 1 / 2)"
proof -
  obtain p where p: "0 \<le> p" "p \<le> 100" "gb_grade b = round_grade up (scale_grade lo hi p)"
    by (rule compute_grade_unclamped [OF assms])
  have b: "of_int lo \<le> scale_grade lo hi p" "scale_grade lo hi p \<le> of_int hi"
    using scale_grade_bounds [OF assms(2) p(1,2)] by auto
  with round_grade_bounds [OF b] p(3) py_round_near [of "scale_grade lo hi p"]
  show ?thesis by (intro exI [of _ "scale_grade lo hi p"]) (auto simp: round_grade_def)
qed

theorem compute_grade_is_a_rounding_witness:
  "(case compute_grade sample_grading 0 10 (Some 80) (Some 60) (Some 40) False of
      Inr b \<Rightarrow> gb_grade b = 6 \<and> 0 \<le> gb_grade b \<and> gb_grade b \<le> 10 | Inl _ \<Rightarrow> False)"
proof -
  have "\<lfloor>25 / 4 :: rat\<rfloor> = 6" by (simp add: floor_eq_iff)
  then have "round_grade False (scale_grade 0 10 (((70 * 3) + 40) / 4)) = 6"
    by (simp add: round_grade_def scale_grade_def py_round_def)
  with compute_grade_is_a_rounding [OF sample_compute [of 40]]
  show ?thesis by (simp add: is_pct_def sample_compute)
qed

text \<open>The squad's quiz percentage is the mean, over the students with a passed attempt, of each
  one's best percentage: every such student counts once, and the mean is between 0 and 100.\<close>

theorem squad_quiz_pct_is_mean_of_bests:
  assumes "\<forall>a \<in> set as. scored_ok a" and "squad_quiz_pct as = (Some mean, members)"
  shows "distinct (map fst members) \<and>
    set (map fst members) = {sid. passed_pcts as sid \<noteq> []} \<and>
    mean = (\<Sum>sid \<leftarrow> map fst members. Max (set (passed_pcts as sid))) / of_nat (length members) \<and>
    0 \<le> mean \<and> mean \<le> 100"
proof -
  define best where "best = best_loop as []"
  from assms(2) have ne: "best \<noteq> []" and mean: "mean = sum_list (map snd best) / of_nat (length best)"
    and mem: "map fst members = map fst (sort_key fst best)" and len: "length members = length best"
    by (auto simp: squad_quiz_pct_def best_def Let_def split: if_splits)
  have d: "distinct (map fst best)" using best_loop_distinct [of "[]" as] by (simp add: best_def)
  have lookup: "map_of best sid = (if passed_pcts as sid = [] then None
      else Some (Max (set (passed_pcts as sid))))" for sid
    unfolding best_def by (rule best_loop_spec [OF assms(1)])
  have perm: "mset (map fst members) = mset (map fst best)" by (simp add: mem)
  have dm: "distinct (map fst members)" using d mset_eq_imp_distinct_iff [OF perm] by blast
  have "fst ` set best = {sid. passed_pcts as sid \<noteq> []}"
    using lookup by (auto simp: dom_map_of_conv_image_fst [symmetric] split: if_splits)
  then have s: "set (map fst members) = {sid. passed_pcts as sid \<noteq> []}" by (simp add: mem)
  have "snd e = Max (set (passed_pcts as (fst e)))" if "e \<in> set best" for e
  proof -
    from that d have "map_of best (fst e) = Some (snd e)" by (metis map_of_eq_Some_iff prod.collapse)
    with lookup [of "fst e"] show ?thesis by (simp split: if_splits)
  qed
  then have "map snd best = map (\<lambda>sid. Max (set (passed_pcts as sid))) (map fst best)" by simp
  also have "sum_list \<dots> = (\<Sum>sid \<leftarrow> map fst members. Max (set (passed_pcts as sid)))"
  proof -
    have "mset (map f (map fst best)) = mset (map f (map fst members))" for f :: "int \<Rightarrow> rat"
      by (simp only: mset_map [of f] perm)
    then show ?thesis by (metis sum_mset_sum_list)
  qed
  finally have "mean = (\<Sum>sid \<leftarrow> map fst members. Max (set (passed_pcts as sid))) / of_nat (length members)"
    by (simp only: mean len)
  moreover have "0 \<le> mean \<and> mean \<le> 100"
    using squad_quiz_pct_is_pct [OF assms(1)] assms(2) by (simp add: is_pct_def)
  ultimately show ?thesis using dm s by blast
qed

definition passed_with :: "int \<Rightarrow> int \<Rightarrow> int \<Rightarrow> quiz_attempt" where
  "passed_with sid s m =
     (sample_attempt [] [] [])\<lparr>att_student_id := Some sid, att_score := Some s, att_max_score := Some m,
       att_is_passed := Some True, att_status := Attempt_COMPLETED\<rparr>"

theorem squad_quiz_pct_is_mean_of_bests_witness:
  "squad_quiz_pct [passed_with 2 6 10, passed_with 1 8 10, passed_with 2 7 10] = (Some 75, [(1, 80), (2, 70)]) \<and>
   distinct (map fst [(1 :: int, 80 :: rat), (2, 70)])"
proof -
  let ?as = "[passed_with 2 6 10, passed_with 1 8 10, passed_with 2 7 10]"
  have ok: "\<forall>a \<in> set ?as. scored_ok a" by (simp add: passed_with_def sample_attempt_def scored_ok_def)
  have e: "squad_quiz_pct ?as = (Some 75, [(1, 80), (2, 70)])"
    by (simp add: squad_quiz_pct_def passed_with_def sample_attempt_def pct_def Let_def
        py_round_digits_def py_round_def insort_key_def)
  from squad_quiz_pct_is_mean_of_bests [OF ok e] show ?thesis by (simp only: e simp_thms)
qed

text \<open>C22. Finalizing a squad's submission gives every member the same grade, the one of the stored
  breakdown, and creates the missing assignment rows for it; the grade is within the
  assignment's range and the submission keeps everything but its breakdown.\<close>

theorem finalize_grade_unifies_squad:
  assumes "finalize_grade i d = Inr (d', Some bd)"
    and "get_submission d i = Some sub" "squad_for_submission d sub = Some s"
    and "get_sa d (sub_students_assignment_id sub) = Some own"
    and "get_assignment d (sa_subjects_assignment_id own) = Some asg"
  shows "get_submission d' i = Some (sub\<lparr>sub_grade_breakdown := Some bd\<rparr>) \<and>
    (\<forall>m \<in> set (members_of d (sq_id s)). \<exists>sa. find_sa d' (mem_student_id m) (asg_id asg) = Some sa \<and>
        sa_grade sa = Some (breakdown_grade bd)) \<and>
    (asg_min_grade asg \<le> asg_max_grade asg \<longrightarrow>
        asg_min_grade asg \<le> breakdown_grade bd \<and> breakdown_grade bd \<le> asg_max_grade asg)"
proof -
  obtain sa body members g where st: "get_submission d i = Some sub" "sub_id sub = i"
    "store_grade sub sa (asg_id asg) body (Some s) members g d = (d', bd)" "breakdown_grade bd = g"
    "asg_min_grade asg \<le> asg_max_grade asg \<Longrightarrow> asg_min_grade asg \<le> g \<and> g \<le> asg_max_grade asg"
    by (rule finalize_grade_Some [OF assms(1)]) (use assms(2-5) in auto)
  show ?thesis
    using store_grade_submission [OF st(3)] store_grade_squad [OF st(3)] st(1,2,4,5) by auto
qed

definition sample_graded_squad :: db where
  "sample_graded_squad = (sample_class 2)\<lparr>
     db_squads := [\<lparr>sq_id = 50, sq_subject_id = 1, sq_name = None, sq_created_by_student_id = Some 1,
       sq_created_by_user_id = None, sq_locked_at = Some 0\<rparr>],
     db_members := map (\<lambda>i. \<lparr>mem_squad_id = 50, mem_student_id = i, mem_subject_id = 1, mem_joined_at = 0\<rparr>) [1, 2],
     db_assignments := [\<lparr>asg_id = 10, asg_subject_id = 1, asg_code = None, asg_title = ''T'',
       asg_description = None, asg_content_files = None, asg_coursework_id = None, asg_coursework_title = None, asg_deadline = None, asg_min_grade = 0, asg_max_grade = 10,
       asg_config = [(''grading'', JObj [(''quiz_weight'', JInt 1)])]\<rparr>],
     db_sas := [\<lparr>sa_id = 20, sa_student_id = 1, sa_subjects_assignment_id = 10, sa_grade = None,
       sa_variant = None, sa_teacher_scores = None\<rparr>],
     db_submissions := [\<lparr>sub_id = 30, sub_students_assignment_id = 20, sub_source_type = QUIZ_ONLY,
       sub_source_metadata = \<lparr>md_original_filename = None, md_saved_as = None, md_similarity_score = None, md_quiz_extra_attempts = [], md_squad_quiz_draw = None\<rparr>,
       sub_status = COMPLETED, sub_test_results = None, sub_ai_review = None,
       sub_grade_breakdown = None, sub_plugin_config_id = None, sub_squad_id = Some 50, sub_created_at = 0\<rparr>],
     db_attempts := [(passed_with 1 8 10)\<lparr>att_submission_id := 30\<rparr>, (passed_with 2 7 10)\<lparr>att_submission_id := 30\<rparr>]\<rparr>"

theorem finalize_grade_unifies_squad_witness:
  "(case finalize_grade 30 sample_graded_squad of
      Inr (d', Some bd) \<Rightarrow> breakdown_grade bd = 8 \<and>
        (\<forall>m \<in> set (members_of sample_graded_squad 50). \<exists>sa. find_sa d' (mem_student_id m) 10 = Some sa \<and>
           sa_grade sa = Some 8)
    | _ \<Rightarrow> False)"
proof -
  let ?d = sample_graded_squad
  have "map_option (\<lambda>sub. (map_option sq_id (squad_for_submission ?d sub),
      quiz_part ?d sub (squad_for_submission ?d sub), sub_test_results sub, sub_ai_review sub,
      map_option (\<lambda>own. map_option (\<lambda>a. (asg_id a, asg_min_grade a, asg_max_grade a, asg_config a))
          (get_assignment ?d (sa_subjects_assignment_id own)))
        (get_sa ?d (sub_students_assignment_id sub)))) (get_submission ?d 30) =
    Some (Some 50, (Some 75, [(1, 80), (2, 70)]), None, None,
      Some (Some (10, 0, 10, [(''grading'', JObj [(''quiz_weight'', JInt 1)])])))" by code_simp
  then obtain sub sq own asg where s: "get_submission ?d 30 = Some sub"
    "squad_for_submission ?d sub = Some sq" "sq_id sq = 50"
    "get_sa ?d (sub_students_assignment_id sub) = Some own"
    "get_assignment ?d (sa_subjects_assignment_id own) = Some asg" "asg_id asg = 10"
    and v: "quiz_part ?d sub (Some sq) = (Some 75, [(1, 80), (2, 70)])"
      "sub_test_results sub = None" "sub_ai_review sub = None" "asg_min_grade asg = 0" "asg_max_grade asg = 10"
      "asg_config asg = [(''grading'', JObj [(''quiz_weight'', JInt 1)])]" by auto
  have "map_sum id gb_grade (compute_grade (JObj [(''quiz_weight'', JInt 1)]) 0 10 None None (Some 75) True) = Inr 8"
    by code_simp
  then obtain b where b: "compute_grade (JObj [(''quiz_weight'', JInt 1)]) 0 10 None None (Some 75) True = Inr b"
    "gb_grade b = 8" by (cases "compute_grade (JObj [(''quiz_weight'', JInt 1)]) 0 10 None None (Some 75) True") auto
  obtain d' bd where f: "finalize_grade 30 ?d = Inr (d', Some bd)" "breakdown_grade bd = 8"
    using s v b by (simp add: finalize_grade_def is_scored_mode_def dget_def opt_dict_def pct_json_def
        store_grade_def case_prod_unfold breakdown_grade_def Let_def)
  from finalize_grade_unifies_squad [OF f(1) s(1,2,4,5)] f s(3,6) show ?thesis by simp
qed

end
