(* ===== verification/QuizGrants.thy ===== *)
theory QuizGrants
  imports Grading
begin

text \<open>
  \<open>services/quiz_grants.py\<close>: how many attempts a student may make on a submission, and the grant of
  one more by a teacher. The properties: a grant is possible only for a student who used every
  attempt without passing, gives exactly one more attempt, puts the submission back to its quiz
  and cannot be repeated before that attempt is used.

  The operations work on the submission object; storing it is the caller's write.
\<close>

datatype grant_error = GrantError | GrantExn py_exn | GrantTransition transition_error

text \<open>Grants are keyed by \<open>str(student_id)\<close>; a legacy attempt without a student has none.\<close>

definition extra_attempts :: "submission \<Rightarrow> int option \<Rightarrow> int" where
  "extra_attempts sub student_id =
     (case student_id of
        None \<Rightarrow> 0
      | Some sid \<Rightarrow>
          (case map_of (md_quiz_extra_attempts (sub_source_metadata sub)) sid of Some n \<Rightarrow> n | None \<Rightarrow> 0))"

definition effective_max_attempts :: "int option \<Rightarrow> submission \<Rightarrow> int option \<Rightarrow> int option" where
  "effective_max_attempts base sub student_id = map_option (\<lambda>b. b + extra_attempts sub student_id) base"

definition is_exhausted :: "quiz_attempt list \<Rightarrow> int option \<Rightarrow> bool" where
  "is_exhausted attempts effective_max =
     (case effective_max of
        None \<Rightarrow> False
      | Some cap \<Rightarrow>
          if attempts = [] then False
          else if list_ex (\<lambda>a. att_status a \<notin> set terminal_attempt_statuses) attempts then False
          else if list_ex (\<lambda>a. att_is_passed a = Some True) attempts then False
          else int (length attempts) \<ge> cap)"

text \<open>\<open>d.get(k, {})\<close> followed by another \<open>get\<close>: what is no dictionary has no such method.\<close>

definition sub_dict :: "pydict \<Rightarrow> string \<Rightarrow> py_exn + pydict" where
  "sub_dict d k = (case dget d k (JObj []) of JObj v \<Rightarrow> Inr v | _ \<Rightarrow> Inl AttributeError)"

definition assignment_code :: "db \<Rightarrow> submission \<Rightarrow> string option" where
  "assignment_code d sub =
     Option.bind (get_sa d (sub_students_assignment_id sub))
       (\<lambda>sa. Option.bind (get_assignment d (sa_subjects_assignment_id sa)) asg_code)"

definition base_max_attempts :: "db \<Rightarrow> submission \<Rightarrow> py_exn + int option" where
  "base_max_attempts d sub =
     (case sub_plugin_config_id sub of
        None \<Rightarrow> Inr None
      | Some config_id \<Rightarrow>
          (case (get_config d config_id, assignment_code d sub) of
             (Some cfg, Some code) \<Rightarrow>
               if code = '''' then Inr None
               else
                 bind_result (sub_dict (spc_config cfg) ''assignments'') (\<lambda>assignments.
                 bind_result (sub_dict assignments code) (\<lambda>a.
                 bind_result (or_dict (dget a ''quiz'' JNull)) (\<lambda>quiz.
                   let v = dget quiz ''max_quiz_attempts'' JNull in
                   if v = JNull then Inr None else map_sum id Some (py_int v))))
           | _ \<Rightarrow> Inr None))"

definition students_on :: "db \<Rightarrow> submission \<Rightarrow> int list" where
  "students_on d sub =
     (case squad_for_submission d sub of
        None \<Rightarrow>
          (case get_sa d (sub_students_assignment_id sub) of Some sa \<Rightarrow> [sa_student_id sa] | None \<Rightarrow> [])
      | Some s \<Rightarrow>
          sort (map enr_student_id
            (filter (\<lambda>e. enr_subject_id e = sq_subject_id s \<and>
                enr_student_id e \<in> set (map mem_student_id (members_of d (sq_id s))))
              (db_enrolments d))))"

definition attempts_of :: "db \<Rightarrow> submission \<Rightarrow> int \<Rightarrow> quiz_attempt list" where
  "attempts_of d sub student_id =
     filter (\<lambda>a. att_submission_id a = sub_id sub \<and>
         (att_student_id a = Some student_id \<or> att_student_id a = None)) (db_attempts d)"

definition grantable_statuses :: "submission_status list" where
  "grantable_statuses = [FAILED, QUIZ_SENT]"

definition is_grantable :: "db \<Rightarrow> submission \<Rightarrow> int \<Rightarrow> int option \<Rightarrow> bool" where
  "is_grantable d sub student_id base =
     (if sub_status sub \<notin> set grantable_statuses \<or> base = None then False
      else is_exhausted (attempts_of d sub student_id) (effective_max_attempts base sub (Some student_id)))"

definition grantable_students :: "db \<Rightarrow> submission \<Rightarrow> py_exn + int list" where
  "grantable_students d sub =
     bind_result (base_max_attempts d sub) (\<lambda>base.
       Inr (if base = None then [] else filter (\<lambda>sid. is_grantable d sub sid base) (students_on d sub)))"

definition grant_extra_attempt :: "db \<Rightarrow> submission \<Rightarrow> int \<Rightarrow> grant_error + (submission \<times> int)" where
  "grant_extra_attempt d sub student_id =
     (case base_max_attempts d sub of
        Inl e \<Rightarrow> Inl (GrantExn e)
      | Inr base \<Rightarrow>
          if student_id \<notin> set (students_on d sub) \<or> \<not> is_grantable d sub student_id base
          then Inl GrantError
          else
            let total = extra_attempts sub (Some student_id) + 1;
                meta = sub_source_metadata sub;
                extras = AList.update student_id total (md_quiz_extra_attempts meta)
            in
              (case transition (sub_status sub) ''quiz_attempt_granted'' of
                 Inl e \<Rightarrow> Inl (GrantTransition e)
               | Inr st \<Rightarrow>
                   Inr (sub\<lparr>sub_source_metadata := meta\<lparr>md_quiz_extra_attempts := extras\<rparr>,
                            sub_status := st\<rparr>, total)))"

section \<open>The teacher's route\<close>

text \<open>\<open>teacher_grant_quiz_attempt\<close> after \<open>_load_submission_for_teacher\<close>; \<open>user\<close> is the acting
  teacher or admin.\<close>

definition submission_subject :: "db \<Rightarrow> submission \<Rightarrow> subject option" where
  "submission_subject d sub =
     Option.bind (get_sa d (sub_students_assignment_id sub)) (\<lambda>sa.
       Option.bind (get_assignment d (sa_subjects_assignment_id sa)) (\<lambda>asg.
         get_subject d (asg_subject_id asg)))"

definition load_submission_for_teacher :: "db \<Rightarrow> int \<Rightarrow> user \<Rightarrow> reply + submission" where
  "load_submission_for_teacher d submission_id u =
     (case get_submission d submission_id of
        None \<Rightarrow> Inl (HttpError 404 '''')
      | Some sub \<Rightarrow>
          (case submission_subject d sub of
             None \<Rightarrow> Inl (ServerError AttributeError)
           | Some subj \<Rightarrow>
               if usr_role u \<noteq> ADMIN \<and> subj_owner_id subj \<noteq> Some (usr_id u)
               then Inl (HttpError 403 ''Not authorized for this subject'')
               else Inr sub))"

definition board_url :: "db \<Rightarrow> submission \<Rightarrow> string" where
  "board_url d sub =
     (case Option.bind (get_sa d (sub_students_assignment_id sub))
             (\<lambda>sa. get_assignment d (sa_subjects_assignment_id sa)) of
        Some asg \<Rightarrow> ''/teacher/subjects/'' @ str_of_int (asg_subject_id asg) @ ''/assignments/'' @ str_of_int (asg_id asg)
      | None \<Rightarrow> '''')"

definition opt_str :: "int option \<Rightarrow> string" where
  "opt_str x = (case x of Some n \<Rightarrow> str_of_int n | None \<Rightarrow> ''None'')"

definition notify_grant :: "int \<Rightarrow> subjects_assignment \<Rightarrow> db \<Rightarrow> db" where
  "notify_grant target asg d =
     (case user_of_student d target of
        None \<Rightarrow> d
      | Some user_id \<Rightarrow>
          push_notification user_id ''notif_extra_attempt_title'' [(''title'', asg_title asg)]
            (''/portal/subjects/'' @ str_of_int (asg_subject_id asg) @ ''/assignments/'' @
              opt_str (map_option sa_id (find_sa d target (asg_id asg)))) d)"

definition store_submission :: "submission \<Rightarrow> db \<Rightarrow> db" where
  "store_submission sub d = upd_submission (sub_id sub) (\<lambda>_. sub) d"

definition grant_route :: "int \<Rightarrow> user \<Rightarrow> int option \<Rightarrow> db \<Rightarrow> db \<times> reply" where
  "grant_route submission_id u student_id d =
     (case load_submission_for_teacher d submission_id u of
        Inl r \<Rightarrow> (d, r)
      | Inr sub \<Rightarrow>
     (case get_sa d (sub_students_assignment_id sub) of
        None \<Rightarrow> (d, ServerError AttributeError)
      | Some sa \<Rightarrow>
     (case get_assignment d (sa_subjects_assignment_id sa) of
        None \<Rightarrow> (d, ServerError AttributeError)
      | Some asg \<Rightarrow>
          let target = (case student_id of Some s \<Rightarrow> s | None \<Rightarrow> sa_student_id sa) in
          (case grant_extra_attempt d sub target of
             Inl GrantError \<Rightarrow>
               (d, HttpError 409 ''Submission is not in a state that allows this action'')
           | Inl (GrantExn e) \<Rightarrow> (d, ServerError e)
           | Inl (GrantTransition e) \<Rightarrow> (d, ServerError ValueError)
           | Inr (sub', granted) \<Rightarrow>
               (notify_grant target asg
                  (audit ''grant_quiz_attempt'' (Some (usr_id u)) (Some submission_id)
                    (store_submission sub' d)),
                Redirect (board_url d sub))))))"

section \<open>What a grant does\<close>

lemma grant_Inr:
  assumes "grant_extra_attempt d sub sid = Inr (sub', n)"
  obtains base where "base_max_attempts d sub = Inr (Some base)" "sid \<in> set (students_on d sub)"
    "sub_status sub \<in> {FAILED, QUIZ_SENT}"
    "is_exhausted (attempts_of d sub sid) (Some (base + extra_attempts sub (Some sid)))"
    "sub' = sub\<lparr>sub_source_metadata := (sub_source_metadata sub)\<lparr>md_quiz_extra_attempts :=
        AList.update sid n (md_quiz_extra_attempts (sub_source_metadata sub))\<rparr>, sub_status := QUIZ_SENT\<rparr>"
    "n = extra_attempts sub (Some sid) + 1"
proof -
  from assms obtain b where b: "base_max_attempts d sub = Inr b" "sid \<in> set (students_on d sub)"
    "is_grantable d sub sid b"
    by (auto simp: grant_extra_attempt_def Let_def split: sum.splits if_splits)
  then obtain base where base: "b = Some base" "sub_status sub \<in> {FAILED, QUIZ_SENT}"
    "is_exhausted (attempts_of d sub sid) (Some (base + extra_attempts sub (Some sid)))"
    by (auto simp: is_grantable_def grantable_statuses_def effective_max_attempts_def split: if_splits)
  from base(2) have "transition (sub_status sub) ''quiz_attempt_granted'' = Inr QUIZ_SENT"
    by (auto simp: transition_table)
  then have "Inr (sub\<lparr>sub_source_metadata := (sub_source_metadata sub)\<lparr>md_quiz_extra_attempts :=
        AList.update sid (extra_attempts sub (Some sid) + 1) (md_quiz_extra_attempts (sub_source_metadata sub))\<rparr>,
        sub_status := QUIZ_SENT\<rparr>, extra_attempts sub (Some sid) + 1) = (Inr (sub', n) :: grant_error + (submission \<times> int))"
    using b by (simp only: grant_extra_attempt_def Let_def sum.case simp_thms if_False assms [symmetric])
  then show thesis by (intro that [OF _ b(2) base(2,3)]) (use b(1) base(1) in auto)
qed

lemma grant_sub_simps:
  assumes "grant_extra_attempt d sub sid = Inr (sub', n)"
  shows "sub_id sub' = sub_id sub" "sub_status sub' = QUIZ_SENT"
    "sub_plugin_config_id sub' = sub_plugin_config_id sub" "sub_squad_id sub' = sub_squad_id sub"
    "sub_students_assignment_id sub' = sub_students_assignment_id sub"
    "extra_attempts sub' k = (if k = Some sid then n else extra_attempts sub k)"
  by (rule grant_Inr [OF assms]; auto simp: extra_attempts_def update_conv' split: option.splits)+

lemma grant_same_reads:
  assumes "grant_extra_attempt d sub sid = Inr (sub', n)"
  shows "base_max_attempts d sub' = base_max_attempts d sub"
    "students_on d sub' = students_on d sub" "attempts_of d sub' k = attempts_of d sub k"
  unfolding base_max_attempts_def assignment_code_def students_on_def squad_for_submission_def
    attempts_of_def grant_sub_simps [OF assms]
  by (rule refl)+

text \<open>The grant moves the status along the table.\<close>

definition grant_move :: "db \<times> submission \<times> int \<Rightarrow> submission_status \<Rightarrow> submission_status option" where
  "grant_move x s =
     (case x of (d, sub, sid) \<Rightarrow>
        (case grant_extra_attempt d (sub\<lparr>sub_status := s\<rparr>) sid of
           Inr (sub', _) \<Rightarrow> Some (sub_status sub') | Inl _ \<Rightarrow> None))"

interpretation grants: status_mover grant_move
proof
  fix x s s'
  assume "grant_move x s = Some s'"
  then obtain d sub sid sub' n where g: "grant_extra_attempt d (sub\<lparr>sub_status := s\<rparr>) sid = Inr (sub', n)"
    "s' = sub_status sub'"
    by (auto simp: grant_move_def split: prod.splits sum.splits)
  then have "s \<in> {FAILED, QUIZ_SENT}" "s' = QUIZ_SENT"
    using grant_sub_simps(2) [OF g(1)] by (auto elim: grant_Inr)
  then show "s' = s \<or> status_step s s'" by auto
qed

text \<open>A grant is given only to a student of the submission who has used up every attempt
  without passing; it raises that student's allowance by exactly one and nobody else's, sends the
  submission back to its quiz, and the student is then no longer out of attempts, so a second
  grant is refused until the new attempt has been used.\<close>

theorem grant_gives_exactly_one:
  assumes "grant_extra_attempt d sub sid = Inr (sub', n)"
    and "base_max_attempts d sub = Inr (Some base)"
    and "int (length (attempts_of d sub sid)) \<le> base + extra_attempts sub (Some sid)"
  shows "is_exhausted (attempts_of d sub sid) (effective_max_attempts (Some base) sub (Some sid)) \<and>
    (\<forall>k. extra_attempts sub' k = extra_attempts sub k + (if k = Some sid then 1 else 0)) \<and>
    sub_status sub' = QUIZ_SENT \<and>
    \<not> is_exhausted (attempts_of d sub' sid) (effective_max_attempts (Some base) sub' (Some sid)) \<and>
    grant_extra_attempt d sub' sid = Inl GrantError"
proof -
  obtain b where g: "base_max_attempts d sub = Inr (Some b)"
    "is_exhausted (attempts_of d sub sid) (Some (b + extra_attempts sub (Some sid)))"
    "n = extra_attempts sub (Some sid) + 1"
    by (rule grant_Inr [OF assms(1)])
  with assms(2) have b: "b = base" by simp
  note s = grant_sub_simps [OF assms(1)] grant_same_reads [OF assms(1)]
  have "\<not> is_exhausted (attempts_of d sub' sid) (effective_max_attempts (Some base) sub' (Some sid))"
    using assms(3) by (simp add: is_exhausted_def effective_max_attempts_def s g(3))
  moreover from this have "grant_extra_attempt d sub' sid = Inl GrantError"
    by (simp add: grant_extra_attempt_def s assms(2) is_grantable_def)
  ultimately show ?thesis using g b s by (auto simp: effective_max_attempts_def)
qed

definition sample_failed :: "db" where
  "sample_failed = sample_graded_squad\<lparr>
     db_configs := [\<lparr>spc_id = 5, spc_subject_id = 1, spc_version = 1, spc_content_hash = '''', spc_config =
       [(''assignments'', JObj [(''lab1'', JObj [(''quiz'', JObj [(''max_quiz_attempts'', JInt 1)])])])]\<rparr>],
     db_assignments := map (\<lambda>a. a\<lparr>asg_code := Some ''lab1''\<rparr>) (db_assignments sample_graded_squad),
     db_submissions := map (\<lambda>s. s\<lparr>sub_status := FAILED, sub_squad_id := None, sub_plugin_config_id := Some 5\<rparr>)
       (db_submissions sample_graded_squad),
     db_attempts := [(passed_with 1 2 10)\<lparr>att_submission_id := 30, att_is_passed := Some False\<rparr>]\<rparr>"

theorem grant_gives_exactly_one_witness:
  "(let sub = hd (db_submissions sample_failed); g = grant_extra_attempt sample_failed sub 1 in
    case g of
      Inr (sub', n) \<Rightarrow> n = 1 \<and> grant_extra_attempt sample_failed sub' 1 = Inl GrantError
    | Inl _ \<Rightarrow> False)"
proof -
  let ?sub = "hd (db_submissions sample_failed)"
  let ?g = "grant_extra_attempt sample_failed ?sub 1"
  have "map_sum id snd ?g = Inr 1" by code_simp
  then obtain sub' where g: "?g = Inr (sub', 1)" by (cases ?g) auto
  have b: "base_max_attempts sample_failed ?sub = Inr (Some 1)" by code_simp
  have l: "int (length (attempts_of sample_failed ?sub 1)) \<le> 1 + extra_attempts ?sub (Some 1)" by code_simp
  from grant_gives_exactly_one [OF g b l] g show ?thesis by (simp add: Let_def)
qed

end
