(* ===== verification/QuizOpen.thy ===== *)
theory QuizOpen
  imports QuizGrants
begin

text \<open>
  \<open>services/quiz_open.py\<close>: opening a quiz with nothing uploaded. A submission is created at the
  first opening and reused ever after; the property is that a second opening creates nothing.
  \<open>now\<close> is the clock (the row's \<open>created_at\<close>); the row lock taken first orders concurrent calls,
  so a call runs alone.
\<close>

definition REOPENABLE :: "submission_status list" where
  "REOPENABLE = [VALIDATION_FAILED, TEST_FAILED]"

datatype open_error = QuizOpenError string | OpenTransition transition_error

definition latest_config :: "db \<Rightarrow> int \<Rightarrow> subject_plugin_config option" where
  "latest_config d subject_id =
     (case sort_key (\<lambda>c. - spc_version c) (filter (\<lambda>c. spc_subject_id c = subject_id) (db_configs d)) of
        [] \<Rightarrow> None | c # _ \<Rightarrow> Some c)"

definition empty_metadata :: source_metadata where
  "empty_metadata = \<lparr>md_original_filename = None, md_saved_as = None, md_similarity_score = None, md_quiz_extra_attempts = [], md_squad_quiz_draw = None\<rparr>"

definition new_quiz_submission :: "int \<Rightarrow> int \<Rightarrow> int \<Rightarrow> int \<Rightarrow> int option \<Rightarrow> submission" where
  "new_quiz_submission now i own_id config_id squad_id =
     \<lparr>sub_id = i, sub_students_assignment_id = own_id, sub_source_type = QUIZ_ONLY,
      sub_source_metadata = empty_metadata, sub_status = PENDING,
      sub_test_results = Some [(''skipped'', JBool True), (''reason'', JStr MODE)],
      sub_ai_review = None, sub_grade_breakdown = None, sub_plugin_config_id = Some config_id,
      sub_squad_id = squad_id, sub_created_at = now\<rparr>"

definition add_submission :: "submission \<Rightarrow> db \<Rightarrow> db" where
  "add_submission sub d =
     d\<lparr>db_submissions := db_submissions d @ [sub], db_next := db_next d + 1\<rparr>"

definition squads_enabled :: "db \<Rightarrow> int \<Rightarrow> bool" where
  "squads_enabled d subject_id = (max_size d subject_id \<noteq> None)"

definition open_quiz_submission ::
  "int \<Rightarrow> student_assignment \<Rightarrow> int \<Rightarrow> db \<Rightarrow> open_error + (submission \<times> db)"
where
  "open_quiz_submission now sa student_id d0 =
     (let (existing, d) = latest_submission sa d0 in
      case (case existing of
              Some sub \<Rightarrow> if sub_status sub \<notin> set REOPENABLE then Some sub else None
            | None \<Rightarrow> None) of
        Some sub \<Rightarrow> Inr (sub, d)
      | None \<Rightarrow>
     (case get_assignment d (sa_subjects_assignment_id sa) of
        None \<Rightarrow> Inl (QuizOpenError ''Quiz not available for this submission'')
      | Some asg \<Rightarrow>
          if \<not> is_scored_mode (asg_config asg)
          then Inl (QuizOpenError ''Quiz not available for this submission'')
          else
            let subj = asg_subject_id asg; on = squads_enabled d subj in
            if on \<and> (has_pending_invites d subj student_id \<or> squad_has_pending_invites d subj student_id)
            then Inl (QuizOpenError ''Squad invitation pending; answer or cancel it first.'')
            else
              let sq = (if on then squad_of d subj student_id False else None) in
              (case latest_config d subj of
                 None \<Rightarrow> Inl (QuizOpenError ''No plugin config for this subject'')
               | Some cfg \<Rightarrow>
                   let sub = new_quiz_submission now (db_next d) (sa_id sa) (spc_id cfg) (map_option sq_id sq)
                   in
                     case transition (sub_status sub) ''quiz_opened'' of
                       Inl e \<Rightarrow> Inl (OpenTransition e)
                     | Inr st \<Rightarrow>
                         let sub' = sub\<lparr>sub_status := st\<rparr>;
                             d1 = add_submission sub' d
                         in Inr (sub', case sq of Some s \<Rightarrow> lock_on_submit now (sq_id s) d1 | None \<Rightarrow> d1))))"

definition assignment_of :: "db \<Rightarrow> submission \<Rightarrow> (student_assignment \<times> subjects_assignment) option" where
  "assignment_of d sub =
     (case get_sa d (sub_students_assignment_id sub) of
        None \<Rightarrow> None
      | Some sa \<Rightarrow> map_option (\<lambda>asg. (sa, asg)) (get_assignment d (sa_subjects_assignment_id sa)))"

definition is_scored_submission :: "db \<Rightarrow> submission \<Rightarrow> bool" where
  "is_scored_submission d sub =
     (case assignment_of d sub of Some (_, asg) \<Rightarrow> is_scored_mode (asg_config asg) | None \<Rightarrow> False)"

definition scores_complete_for :: "db \<Rightarrow> submission \<Rightarrow> py_exn + bool" where
  "scores_complete_for d sub =
     (case assignment_of d sub of
        None \<Rightarrow> Inr False
      | Some (sa, asg) \<Rightarrow>
          bind_result (or_dict (dget (asg_config asg) ''grading'' JNull)) (\<lambda>g.
            bind_result (criteria g) (\<lambda>crits. Inr (is_complete crits (sa_teacher_scores sa)))))"

section \<open>The newest submission\<close>

lemma newest_Some:
  assumes "newest xs = Some r"
  shows "r \<in> set xs \<and> (\<forall>t \<in> set xs. sub_created_at t < sub_created_at r \<or>
    sub_created_at t = sub_created_at r \<and> sub_id t \<le> sub_id r)"
proof -
  let ?g = "\<lambda>s :: submission. - sub_id s" and ?f = "\<lambda>s :: submission. - sub_created_at s"
  let ?L = "sort_key ?f (sort_key ?g xs)"
  from assms obtain rest where L: "?L = r # rest"
    by (auto simp: newest_def split: list.splits)
  then have "r \<in> set ?L" by simp
  then have r: "r \<in> set xs" by (simp only: set_sort)
  have s: "sorted (map ?f ?L)" by (rule sorted_sort_key)
  have tie: "filter (\<lambda>y. ?f y = ?f r) ?L = filter (\<lambda>y. ?f y = ?f r) (sort_key ?g xs)"
    by (rule sort_key_stable)
  have sg: "sorted (map ?g (filter (\<lambda>y. ?f y = ?f r) ?L))"
    unfolding tie by (intro sorted_filter sorted_sort_key)
  have "sub_created_at t < sub_created_at r \<or> sub_created_at t = sub_created_at r \<and> sub_id t \<le> sub_id r"
    if "t \<in> set xs" for t
  proof -
    have t: "t \<in> set (r # rest)" using that L by (metis set_sort)
    then have "sub_created_at t \<le> sub_created_at r" using s unfolding L by auto
    moreover have "sub_id t \<le> sub_id r" if "sub_created_at t = sub_created_at r"
      using sg that t unfolding L by auto
    ultimately show ?thesis by auto
  qed
  with r show ?thesis by blast
qed

lemma newest_None: "newest xs = None \<longleftrightarrow> xs = []"
  by (auto simp: newest_def split: list.splits dest: arg_cong [where f = length])

lemma newest_eq:
  assumes "s \<in> set xs" and "inj_on sub_id (set xs)"
    and "\<And>t. t \<in> set xs \<Longrightarrow> sub_created_at t \<le> sub_created_at s \<and> sub_id t \<le> sub_id s"
  shows "newest xs = Some s"
proof -
  from assms(1) obtain r where r: "newest xs = Some r" by (cases "newest xs") (auto simp: newest_None)
  from newest_Some [OF r] assms(1) have "r \<in> set xs" "sub_created_at s < sub_created_at r \<or>
    sub_created_at s = sub_created_at r \<and> sub_id s \<le> sub_id r" by auto
  with assms(3) [of r] have "sub_id r = sub_id s" by auto
  with assms(1,2) \<open>r \<in> set xs\<close> r show ?thesis by (auto simp: inj_on_def)
qed

section \<open>The scope\<close>

lemma scope_keeps:
  assumes "scope_sa_ids sid subj asg d = (scope, d')"
  shows "db_submissions d' = db_submissions d" "db_assignments d' = db_assignments d"
    "db_squads d' = db_squads d" "db_members d' = db_members d" "db_invites d' = db_invites d"
    "db_subjects d' = db_subjects d" "db_configs d' = db_configs d" "db_next d \<le> db_next d'"
proof -
  have loop: "db_submissions (snd (member_sa_ids_loop asg ms e)) = db_submissions e \<and>
      db_assignments (snd (member_sa_ids_loop asg ms e)) = db_assignments e \<and>
      db_squads (snd (member_sa_ids_loop asg ms e)) = db_squads e \<and>
      db_members (snd (member_sa_ids_loop asg ms e)) = db_members e \<and>
      db_invites (snd (member_sa_ids_loop asg ms e)) = db_invites e \<and>
      db_subjects (snd (member_sa_ids_loop asg ms e)) = db_subjects e \<and>
      db_configs (snd (member_sa_ids_loop asg ms e)) = db_configs e \<and>
      db_next e \<le> db_next (snd (member_sa_ids_loop asg ms e))" for ms e
  proof (induction asg ms e rule: member_sa_ids_loop.induct)
    case (1 asg e)
    then show ?case by simp
  next
    case (2 asg m ms e)
    obtain i e1 where h: "(case find_sa e (mem_student_id m) asg of Some sa \<Rightarrow> (sa_id sa, e)
        | None \<Rightarrow> add_sa (mem_student_id m) asg e) = (i, e1)" by fastforce
    then have "e1 = e \<or> (i, e1) = add_sa (mem_student_id m) asg e" by (auto split: option.splits)
    then have "db_submissions e1 = db_submissions e" "db_assignments e1 = db_assignments e"
      "db_squads e1 = db_squads e" "db_members e1 = db_members e" "db_invites e1 = db_invites e"
      "db_subjects e1 = db_subjects e" "db_configs e1 = db_configs e" "db_next e \<le> db_next e1"
      by (auto simp: add_sa_def)
    with 2 [OF h [symmetric] refl] h show ?case by (simp add: case_prod_unfold Let_def)
  qed
  have "d' = d \<or> (\<exists>ms. d' = snd (member_sa_ids_loop asg ms d))"
    using assms by (auto simp: scope_sa_ids_def member_sa_ids_def split: option.splits)
       (metis snd_conv)
  then show "db_submissions d' = db_submissions d" "db_assignments d' = db_assignments d"
    "db_squads d' = db_squads d" "db_members d' = db_members d" "db_invites d' = db_invites d"
    "db_subjects d' = db_subjects d" "db_configs d' = db_configs d" "db_next d \<le> db_next d'"
    using loop by auto
qed

text \<open>The student's own row is in the scope: alone, or as a member of the locked squad.\<close>

lemma scope_has_own:
  assumes "scope_sa_ids sid subj asg d = (scope, d')" and "find_sa d sid asg = Some sa"
  shows "sa_id sa \<in> set scope"
proof (cases "active_squad d subj sid")
  case None
  with assms show ?thesis by (auto simp: scope_sa_ids_def)
next
  case (Some s)
  then have "member_in d (sq_id s) subj sid" unfolding active_squad_def by (simp add: squad_of_Some)
  then obtain m where m: "m \<in> set (members_of d (sq_id s))" "mem_student_id m = sid"
    by (auto simp: member_in_def list_ex_iff members_of_def)
  from Some assms(1) have l: "member_sa_ids_loop asg (members_of d (sq_id s)) d = (scope, d')"
    by (simp add: scope_sa_ids_def member_sa_ids_def)
  from member_sa_ids_loop_spec [OF l] m assms(2) show ?thesis by fastforce
qed


lemma member_loop_found:
  assumes "\<forall>m \<in> set ms. find_sa d (mem_student_id m) asg \<noteq> None"
  shows "member_sa_ids_loop asg ms d = (map (\<lambda>m. sa_id (the (find_sa d (mem_student_id m) asg))) ms, d)"
  using assms by (induction ms) auto

lemma member_loop_ids:
  assumes "member_sa_ids_loop asg ms d = (ids, d')"
  shows "ids = map (\<lambda>m. sa_id (the (find_sa d' (mem_student_id m) asg))) ms"
  using assms
proof (induction asg ms d arbitrary: ids d' rule: member_sa_ids_loop.induct)
  case (1 asg d)
  then show ?case by simp
next
  case (2 asg m ms d)
  obtain i d1 where h: "(case find_sa d (mem_student_id m) asg of Some sa \<Rightarrow> (sa_id sa, d)
      | None \<Rightarrow> add_sa (mem_student_id m) asg d) = (i, d1)" by fastforce
  obtain js d2 where t: "member_sa_ids_loop asg ms d1 = (js, d2)" by fastforce
  have res: "ids = i # js" "d' = d2" using 2(2) h t by (auto simp: Let_def)
  have "\<exists>r. find_sa d1 (mem_student_id m) asg = Some r \<and> sa_id r = i"
    using h by (auto split: option.splits simp: find_sa_add)
  then have "\<exists>r. find_sa d2 (mem_student_id m) asg = Some r \<and> sa_id r = i"
    using member_sa_ids_loop_spec [OF t] by blast
  with 2(1) [OF h [symmetric] refl t] show ?case by (auto simp: res)
qed

lemma scope_again:
  assumes "scope_sa_ids sid subj asg d = (scope, d')"
  shows "scope_sa_ids sid subj asg d' = (scope, d')"
proof (cases "active_squad d subj sid")
  case None
  with assms show ?thesis by (auto simp: scope_sa_ids_def split: option.splits)
next
  case (Some s)
  then have l: "member_sa_ids_loop asg (members_of d (sq_id s)) d = (scope, d')"
    using assms by (simp add: scope_sa_ids_def member_sa_ids_def)
  note k = scope_keeps(3,4) [OF assms]
  have "active_squad d' subj sid = Some s"
    using Some k by (simp add: active_squad_def squad_of_def member_in_def)
  moreover have "members_of d' (sq_id s) = members_of d (sq_id s)" using k by (simp add: members_of_def)
  moreover have "\<forall>m \<in> set (members_of d (sq_id s)). find_sa d' (mem_student_id m) asg \<noteq> None"
    using member_sa_ids_loop_spec [OF l] by fastforce
  then have "member_sa_ids_loop asg (members_of d (sq_id s)) d' = (scope, d')"
    unfolding member_loop_ids [OF l] by (rule member_loop_found)
  ultimately show ?thesis by (simp add: scope_sa_ids_def member_sa_ids_def)
qed

lemma scope_finds:
  assumes "scope_sa_ids sid subj asg d = (scope, d')" and "find_sa d s a = Some r"
  shows "find_sa d' s a = Some r"
  using assms member_sa_ids_loop_spec
  by (fastforce simp: scope_sa_ids_def member_sa_ids_def split: option.splits)

lemma open_cases:
  assumes "open_quiz_submission now sa sid d = Inr (sub, d')"
  obtains
    (old) "latest_submission sa d = (Some sub, d')" "sub_status sub \<notin> set REOPENABLE"
  | (fresh) d1 asg cfg sq where "snd (latest_submission sa d) = d1"
      "get_assignment d1 (sa_subjects_assignment_id sa) = Some asg" "is_scored_mode (asg_config asg)"
      "latest_config d1 (asg_subject_id asg) = Some cfg"
      "\<not> (squads_enabled d1 (asg_subject_id asg) \<and> (has_pending_invites d1 (asg_subject_id asg) sid \<or>
          squad_has_pending_invites d1 (asg_subject_id asg) sid))"
      "sq = (if squads_enabled d1 (asg_subject_id asg) then squad_of d1 (asg_subject_id asg) sid False else None)"
      "sub = (new_quiz_submission now (db_next d1) (sa_id sa) (spc_id cfg) (map_option sq_id sq))\<lparr>sub_status := QUIZ_SENT\<rparr>"
      "d' = (case sq of Some s \<Rightarrow> lock_on_submit now (sq_id s) (add_submission sub d1) | None \<Rightarrow> add_submission sub d1)"
proof -
  obtain ex d1 where l: "latest_submission sa d = (ex, d1)" by fastforce
  define keep where "keep = (case ex of Some sub \<Rightarrow> if sub_status sub \<notin> set REOPENABLE then Some sub else None
      | None \<Rightarrow> None)"
  have tr: "transition (sub_status (new_quiz_submission a b c e f)) ''quiz_opened'' = Inr QUIZ_SENT" for a b c e f
    by (simp add: new_quiz_submission_def transition_table)
  show thesis
  proof (cases keep)
    case (Some s)
    with assms l have "ex = Some sub" "d' = d1" "sub_status sub \<notin> set REOPENABLE"
      by (auto simp: open_quiz_submission_def keep_def Let_def split: option.splits if_splits)
    with l old show thesis by simp
  next
    case None
    with assms l have "(case get_assignment d1 (sa_subjects_assignment_id sa) of
        None \<Rightarrow> Inl (QuizOpenError ''Quiz not available for this submission'')
      | Some asg \<Rightarrow>
          if \<not> is_scored_mode (asg_config asg)
          then Inl (QuizOpenError ''Quiz not available for this submission'')
          else
            let subj = asg_subject_id asg; on = squads_enabled d1 subj in
            if on \<and> (has_pending_invites d1 subj sid \<or> squad_has_pending_invites d1 subj sid)
            then Inl (QuizOpenError ''Squad invitation pending; answer or cancel it first.'')
            else
              let sq = (if on then squad_of d1 subj sid False else None) in
              (case latest_config d1 subj of
                 None \<Rightarrow> Inl (QuizOpenError ''No plugin config for this subject'')
               | Some cfg \<Rightarrow>
                   let sub = new_quiz_submission now (db_next d1) (sa_id sa) (spc_id cfg) (map_option sq_id sq)
                   in
                     case transition (sub_status sub) ''quiz_opened'' of
                       Inl e \<Rightarrow> Inl (OpenTransition e)
                     | Inr st \<Rightarrow>
                         let sub' = sub\<lparr>sub_status := st\<rparr>;
                             d2 = add_submission sub' d1
                         in Inr (sub', case sq of Some s \<Rightarrow> lock_on_submit now (sq_id s) d2 | None \<Rightarrow> d2))) =
        Inr (sub, d')"
      by (simp only: open_quiz_submission_def l Let_def case_prod_conv keep_def [symmetric] option.case)
    then obtain asg cfg where a: "get_assignment d1 (sa_subjects_assignment_id sa) = Some asg"
        "is_scored_mode (asg_config asg)" "latest_config d1 (asg_subject_id asg) = Some cfg"
        "\<not> (squads_enabled d1 (asg_subject_id asg) \<and> (has_pending_invites d1 (asg_subject_id asg) sid \<or>
          squad_has_pending_invites d1 (asg_subject_id asg) sid))"
      and res: "let sq = (if squads_enabled d1 (asg_subject_id asg) then squad_of d1 (asg_subject_id asg) sid False else None);
          sub' = (new_quiz_submission now (db_next d1) (sa_id sa) (spc_id cfg) (map_option sq_id sq))\<lparr>sub_status := QUIZ_SENT\<rparr>
        in sub = sub' \<and> d' = (case sq of Some s \<Rightarrow> lock_on_submit now (sq_id s) (add_submission sub' d1)
          | None \<Rightarrow> add_submission sub' d1)"
      by (auto simp: Let_def tr split: option.splits if_splits)
    from l have "snd (latest_submission sa d) = d1" by simp
    note f = fresh [OF this a refl]
    show thesis using res unfolding Let_def by (elim conjE) (rule f, assumption, simp only:)
  qed
qed


section \<open>Properties\<close>

text \<open>The submissions of the table: ids already handed out, none from the future.\<close>

definition submissions_ok :: "int \<Rightarrow> db \<Rightarrow> bool" where
  "submissions_ok now d \<longleftrightarrow>
     distinct (map sub_id (db_submissions d)) \<and>
     (\<forall>s \<in> set (db_submissions d). sub_id s < db_next d \<and> sub_created_at s \<le> now)"

lemma lock_fields [simp]:
  "db_submissions (lock_on_submit now k d) = db_submissions d" "db_sas (lock_on_submit now k d) = db_sas d"
  "db_assignments (lock_on_submit now k d) = db_assignments d" "db_members (lock_on_submit now k d) = db_members d"
  "db_invites (lock_on_submit now k d) = db_invites d" "db_next (lock_on_submit now k d) = db_next d"
  by (simp_all add: lock_on_submit_def upd_squad_def)

lemma add_submission_fields [simp]:
  "db_submissions (add_submission s d) = db_submissions d @ [s]" "db_sas (add_submission s d) = db_sas d"
  "db_assignments (add_submission s d) = db_assignments d" "db_squads (add_submission s d) = db_squads d"
  "db_members (add_submission s d) = db_members d" "db_invites (add_submission s d) = db_invites d"
  "db_subjects (add_submission s d) = db_subjects d" "db_next (add_submission s d) = db_next d + 1"
  by (simp_all add: add_submission_def)

text \<open>A quiz is opened once: whoever opens it again, at whatever time, gets the submission the
  first opening returned, and no second one is created.\<close>

theorem open_twice_same:
  assumes "open_quiz_submission now sa sid d = Inr (sub, d')"
    and "find_sa d sid (sa_subjects_assignment_id sa) = Some sa" and "sa_student_id sa = sid"
    and "submissions_ok now d"
  shows "\<exists>d''. open_quiz_submission now' sa sid d' = Inr (sub, d'') \<and> db_submissions d'' = db_submissions d'"
  using assms(1)
proof (cases rule: open_cases)
  case old
  then have "latest_submission sa d' = (Some sub, d')"
    using scope_again by (auto simp: latest_submission_def latest_submission_for_def get_assignment_def scope_keeps
        Let_def split: option.splits prod.splits if_splits)
  with old(2) show ?thesis by (simp add: open_quiz_submission_def)
next
  case (fresh d1 asg cfg sq)
  obtain asg0 where asg0: "get_assignment d (sa_subjects_assignment_id sa) = Some asg0"
    and d1: "d1 = snd (latest_submission_for sid (asg_subject_id asg0) (asg_id asg0) d)"
    using fresh(1,2) assms(3) by (cases "get_assignment d (sa_subjects_assignment_id sa)")
      (auto simp: latest_submission_def)
  have ida: "asg_id asg0 = sa_subjects_assignment_id sa"
    using asg0 by (simp add: get_assignment_def get_row_Some)
  obtain scope where sc: "scope_sa_ids sid (asg_subject_id asg0) (asg_id asg0) d = (scope, d1)"
    using d1 by (auto simp: latest_submission_for_def Let_def split: prod.splits if_splits)
  note k = scope_keeps [OF sc]
  have subs': "db_submissions d' = db_submissions d @ [sub]" and sas': "db_sas d' = db_sas d1"
    and asgs': "db_assignments d' = db_assignments d"
    using fresh(8) k by (auto split: option.splits)
  have own1: "find_sa d1 sid (asg_id asg0) = Some sa"
    using scope_finds [OF sc] assms(2) ida by simp
  then have own: "find_sa d' sid (asg_id asg0) = Some sa" by (simp add: find_sa_def sas')
  obtain scope' d2 where sc': "scope_sa_ids sid (asg_subject_id asg0) (asg_id asg0) d' = (scope', d2)"
    by fastforce
  have "sa_id sa \<in> set scope'" by (rule scope_has_own [OF sc' own])
  moreover have subs2: "db_submissions d2 = db_submissions d @ [sub]" using scope_keeps(1) [OF sc'] subs' by simp
  moreover have subv: "sub_students_assignment_id sub = sa_id sa" "sub_id sub = db_next d1"
    "sub_created_at sub = now" "sub_status sub = QUIZ_SENT"
    by (simp_all add: fresh(7) new_quiz_submission_def)
  have newer: "sub_created_at t \<le> sub_created_at sub \<and> sub_id t \<le> sub_id sub" if "t \<in> set (db_submissions d @ [sub])" for t
    using that assms(4) k(8) subv by (fastforce simp: submissions_ok_def)
  have "inj_on sub_id (set (db_submissions d @ [sub]))"
    using assms(4) k(8) subv by (fastforce simp: submissions_ok_def distinct_map inj_on_def)
  then have "newest (filter (\<lambda>s. sub_students_assignment_id s \<in> set scope') (db_submissions d2)) = Some sub"
    using \<open>sa_id sa \<in> set scope'\<close> newer unfolding subs2
    by (intro newest_eq) (auto simp: subv(1) inj_on_def)
  then have "latest_submission sa d' = (Some sub, d2)"
    using sc' asg0 assms(3) \<open>sa_id sa \<in> set scope'\<close>
    by (auto simp: latest_submission_def latest_submission_for_def get_assignment_def asgs')
  then show ?thesis using subv(4) subs2 subs' by (simp add: open_quiz_submission_def REOPENABLE_def)
qed

definition sample_scored :: db where
  "sample_scored = sample_failed\<lparr>
     db_assignments := map (\<lambda>a. a\<lparr>asg_config := [(''review_mode'', JStr MODE)]\<rparr>) (db_assignments sample_failed),
     db_submissions := [], db_attempts := []\<rparr>"

theorem open_twice_same_witness:
  "(let sa = hd (db_sas sample_scored) in
    case open_quiz_submission 5 sa 1 sample_scored of
      Inr (sub, d') \<Rightarrow> sub_status sub = QUIZ_SENT \<and>
        (\<exists>d''. open_quiz_submission 6 sa 1 d' = Inr (sub, d'') \<and> length (db_submissions d'') = 1)
    | Inl _ \<Rightarrow> False)"
proof -
  let ?sa = "hd (db_sas sample_scored)"
  let ?o = "open_quiz_submission 5 ?sa 1 sample_scored"
  have "map_sum id (\<lambda>(s, d'). (sub_status s, length (db_submissions d'))) ?o = Inr (QUIZ_SENT, 1)"
    by code_simp
  then obtain sub d' where o: "?o = Inr (sub, d')" "sub_status sub = QUIZ_SENT"
    "length (db_submissions d') = 1" by (cases ?o) auto
  have "sa_student_id ?sa = 1" by code_simp
  moreover have "find_sa sample_scored 1 (sa_subjects_assignment_id ?sa) = Some ?sa"
    by (simp add: find_sa_def sample_scored_def sample_failed_def sample_graded_squad_def)
  moreover have "submissions_ok 5 sample_scored" by (simp add: submissions_ok_def sample_scored_def)
  ultimately have "\<exists>d''. open_quiz_submission 6 ?sa 1 d' = Inr (sub, d'') \<and> db_submissions d'' = db_submissions d'"
    using open_twice_same [OF o(1)] by blast
  with o show ?thesis by (auto simp: Let_def)
qed


lemma squads_ok_later:
  assumes "squads_ok d" and "db_squads d' = db_squads d" "db_members d' = db_members d"
    "db_invites d' = db_invites d" "db_subjects d' = db_subjects d" "db_next d \<le> db_next d'"
  shows "squads_ok d'"
proof -
  have "squads_ok (d'\<lparr>db_next := db_next d\<rparr>) = squads_ok d"
    by (rule same_squads_ok) (simp add: same_squads_def assms)
  with assms(1,6) show ?thesis
    by (fastforce simp: squads_ok_def max_size_def get_subject_def members_of_def pending_in_def)
qed

lemma latest_keeps:
  assumes "latest_submission sa d = (r, d1)"
  shows "db_submissions d1 = db_submissions d" "db_squads d1 = db_squads d" "db_members d1 = db_members d"
    "db_invites d1 = db_invites d" "db_subjects d1 = db_subjects d" "db_next d \<le> db_next d1"
  using assms scope_keeps
  by (auto simp: latest_submission_def latest_submission_for_def Let_def
      split: option.splits prod.splits if_splits)

lemma latest_submission_in:
  assumes "latest_submission sa d = (Some r, d1)"
  shows "r \<in> set (db_submissions d)"
proof -
  obtain subj a where "latest_submission_for (sa_student_id sa) subj a d = (Some r, d1)"
    using assms by (auto simp: latest_submission_def split: option.splits)
  then obtain scope where "newest (filter (\<lambda>s. sub_students_assignment_id s \<in> set scope) (db_submissions d1)) = Some r"
    by (auto simp: latest_submission_for_def Let_def split: prod.splits if_splits)
  then show ?thesis using latest_keeps(1) [OF assms] by (auto dest: newest_Some)
qed

text \<open>Opening a quiz keeps the squad rules: a new submission is created only when no
  invitation of the squad is open, it is in the state QUIZ_SENT and names the squad, which is
  locked from then on.\<close>

theorem open_locks_settled_squad:
  assumes "open_quiz_submission now sa sid d = Inr (sub, d')" and "squads_ok d"
    and "sub \<notin> set (db_submissions d)"
  shows "squads_ok d' \<and> sub_status sub = QUIZ_SENT \<and>
    (\<forall>k. sub_squad_id sub = Some k \<longrightarrow> pending_in d k = [] \<and>
       (\<exists>s. get_squad d' k = Some s \<and> sq_locked_at s \<noteq> None))"
  using assms(1)
proof (cases rule: open_cases)
  case old
  with assms(3) show ?thesis by (auto dest: latest_submission_in)
next
  case (fresh d1 asg cfg sq)
  from fresh(1) obtain r where "latest_submission sa d = (r, d1)" by (metis prod.collapse)
  note k = latest_keeps [OF this]
  have ok1: "squads_ok d1" by (rule squads_ok_later [OF assms(2)]) (use k in auto)
  have ok2: "squads_ok (add_submission sub d1)" by (rule squads_ok_later [OF ok1]) simp_all
  have st: "sub_status sub = QUIZ_SENT" by (simp add: fresh(7))
  show ?thesis
  proof (cases sq)
    case None
    then show ?thesis using ok2 st fresh(7,8) by (simp add: new_quiz_submission_def)
  next
    case (Some s)
    then have on: "squads_enabled d1 (asg_subject_id asg)"
      and s: "squad_of d1 (asg_subject_id asg) sid False = Some s"
      using fresh(6) by (auto split: if_splits)
    then have "pending_in d1 (sq_id s) = []"
      using fresh(5) by (auto simp: squad_has_pending_invites_def)
    then have pend: "pending_in d (sq_id s) = []" "pending_in (add_submission sub d1) (sq_id s) = []"
      using k by (simp_all add: pending_in_def)
    have ok': "squads_ok d'"
      using lock_ok [OF ok2 pend(2)] Some fresh(8) by (simp add: lock_on_submit_def)
    have "s \<in> set (db_squads d1)" using s by (simp add: squad_of_Some)
    then have "get_squad (add_submission sub d1) (sq_id s) \<noteq> None"
      by (auto simp: get_squad_def get_row_None)
    then obtain t where "get_squad (add_submission sub d1) (sq_id s) = Some t" by auto
    then have "\<exists>t. get_squad d' (sq_id s) = Some t \<and> sq_locked_at t \<noteq> None"
      using Some fresh(8) by (simp add: lock_on_submit_def get_squad_def upd_squad_def squads.get_put)
    with ok' st pend Some show ?thesis by (simp add: fresh(7) new_quiz_submission_def)
  qed
qed

definition sample_scored_squad :: db where
  "sample_scored_squad = sample_scored\<lparr>
     db_squads := map (\<lambda>s. s\<lparr>sq_locked_at := None\<rparr>) (db_squads sample_scored)\<rparr>"

theorem open_locks_settled_squad_witness:
  "(case open_quiz_submission 5 (hd (db_sas sample_scored_squad)) 1 sample_scored_squad of
      Inr (sub, d') \<Rightarrow> sub_squad_id sub = Some 50 \<and>
        (\<exists>s. get_squad d' 50 = Some s \<and> sq_locked_at s \<noteq> None)
    | Inl _ \<Rightarrow> False)"
proof -
  let ?o = "open_quiz_submission 5 (hd (db_sas sample_scored_squad)) 1 sample_scored_squad"
  have "map_sum id (\<lambda>(s, d'). sub_squad_id s) ?o = Inr (Some 50)" by code_simp
  then obtain sub d' where o: "?o = Inr (sub, d')" "sub_squad_id sub = Some 50" by (cases ?o) auto
  have ok: "squads_ok sample_scored_squad"
    by (simp add: squads_ok_def sample_scored_squad_def sample_scored_def sample_failed_def sample_graded_squad_def
        sample_class_def empty_db_def max_size_def get_subject_def members_of_def pending_in_def)
  have "sub \<notin> set (db_submissions sample_scored_squad)"
    by (simp add: sample_scored_squad_def sample_scored_def)
  from open_locks_settled_squad [OF o(1) ok this] o show ?thesis by simp
qed

end
