(* ===== verification/QuizDraw.thy ===== *)
theory QuizDraw
  imports QuizOpen
begin

text \<open>
  Drawing the questions of an attempt (\<open>routes/student_quiz.py\<close>, \<open>_build_question_config\<close> to
  \<open>_draw_for_member\<close>): which questions of the configuration an attempt gets, how they are frozen
  into its snapshot, and the squad's shared draw.

  Randomness is a stream of naturals \<open>rnd\<close> and the position of the next one; \<open>random.shuffle\<close> is
  the Fisher-Yates loop over it, so what is proved holds for every outcome. A question whose
  choice has no text is shown as the \<open>str\<close> of its dictionary; the model keeps the dictionary. A
  question text that is no string, which the page shows as its \<open>str\<close>, is empty here.
\<close>

section \<open>Shuffling\<close>

definition swap :: "nat \<Rightarrow> nat \<Rightarrow> 'a list \<Rightarrow> 'a list" where
  "swap i j xs = xs[i := xs ! j, j := xs ! i]"

text \<open>\<open>for i in reversed(range(1, len(x))): j = randbelow(i + 1); x[i], x[j] = x[j], x[i]\<close>\<close>

fun shuffle_loop :: "(nat \<Rightarrow> nat) \<Rightarrow> nat \<Rightarrow> nat \<Rightarrow> 'a list \<Rightarrow> 'a list \<times> nat" where
  "shuffle_loop rnd p 0 xs = (xs, p)"
| "shuffle_loop rnd p (Suc i) xs =
     shuffle_loop rnd (Suc p) i (swap (Suc i) (rnd p mod (i + 2)) xs)"

definition shuffled :: "(nat \<Rightarrow> nat) \<Rightarrow> nat \<Rightarrow> 'a list \<Rightarrow> 'a list \<times> nat" where
  "shuffled rnd p xs = shuffle_loop rnd p (length xs - 1) xs"

lemma mset_swap: "i < length xs \<Longrightarrow> j < length xs \<Longrightarrow> mset (swap i j xs) = mset xs"
  by (simp add: swap_def mset_swap)

lemma length_swap [simp]: "length (swap i j xs) = length xs"
  by (simp add: swap_def)

lemma mset_shuffle_loop:
  "i < length xs \<or> i = 0 \<Longrightarrow> mset (fst (shuffle_loop rnd p i xs)) = mset xs"
proof (induction i arbitrary: p xs)
  case 0
  then show ?case by simp
next
  case (Suc i)
  have "rnd p mod (i + 2) < i + 2" by simp
  then have j: "rnd p mod (i + 2) < length xs" using Suc.prems by linarith
  then have "mset (swap (Suc i) (rnd p mod (i + 2)) xs) = mset xs" using Suc.prems by (intro mset_swap) auto
  with Suc.IH [of "swap (Suc i) (rnd p mod (i + 2)) xs" "Suc p"] Suc.prems show ?case by simp
qed

lemma mset_shuffled [simp]: "mset (fst (shuffled rnd p xs)) = mset xs"
  unfolding shuffled_def by (rule mset_shuffle_loop) (cases xs; simp)

lemma mset_shuffled_eq: "shuffled rnd p xs = (ys, p') \<Longrightarrow> mset ys = mset xs"
  using mset_shuffled [of rnd p xs] by simp

lemma set_shuffled [simp]: "set (fst (shuffled rnd p xs)) = set xs"
  by (rule mset_eq_setD) simp

lemma length_shuffled [simp]: "length (fst (shuffled rnd p xs)) = length xs"
  by (rule mset_eq_length) simp

lemma distinct_shuffled [simp]: "distinct (fst (shuffled rnd p xs)) = distinct xs"
  by (rule mset_eq_imp_distinct_iff) simp

section \<open>Reading a question\<close>

text \<open>Iterating a JSON value, and \<open>list(v)\<close>.\<close>

fun py_iter :: "json \<Rightarrow> py_exn + json list" where
  "py_iter (JList xs) = Inr xs"
| "py_iter (JStr s) = Inr (map (\<lambda>c. JStr [c]) s)"
| "py_iter (JObj d) = Inr (map (JStr \<circ> fst) d)"
| "py_iter _ = Inl TypeError"

fun as_dict :: "json \<Rightarrow> py_exn + pydict" where
  "as_dict (JObj d) = Inr d"
| "as_dict _ = Inl AttributeError"

definition upper_char :: "char \<Rightarrow> char" where
  "upper_char c = (if 97 \<le> (of_char c :: nat) \<and> (of_char c :: nat) \<le> 122 then char_of ((of_char c :: nat) - 32) else c)"

text \<open>\<open>str(q.get("type", "")).upper()\<close>; what is no string is no supported type.\<close>

definition question_type :: "pydict \<Rightarrow> string" where
  "question_type q = (case dget q ''type'' (JStr '''') of JStr s \<Rightarrow> map upper_char s | _ \<Rightarrow> ''?'')"

definition choice_text :: "json \<Rightarrow> py_exn + json" where
  "choice_text c = bind_result (as_dict c) (\<lambda>d. Inr (dget d ''text'' c))"

definition choice_correct :: "json \<Rightarrow> py_exn + bool" where
  "choice_correct c = bind_result (as_dict c) (\<lambda>d. Inr (truthy (dget d ''is_correct'' JNull)))"

definition indices_of :: "bool list \<Rightarrow> int list" where
  "indices_of bs = map int (filter (\<lambda>i. bs ! i) [0..<length bs])"

definition build_question_config :: "string \<Rightarrow> pydict \<Rightarrow> py_exn + question_body" where
  "build_question_config q_type q =
     (if q_type = ''SINGLE_CHOICE'' \<or> q_type = ''MULTIPLE_CHOICE'' then
        (case map_of q ''choices'' of
           Some choices \<Rightarrow>
             bind_result (py_iter choices) (\<lambda>raw_choices.
             bind_result (map_result choice_text raw_choices) (\<lambda>options.
             bind_result (map_result choice_correct raw_choices) (\<lambda>flags.
               Inr (if q_type = ''SINGLE_CHOICE''
                    then SingleChoice (JList options)
                           (case indices_of flags of i # _ \<Rightarrow> i | [] \<Rightarrow> 0)
                    else MultipleChoice (JList options) (indices_of flags)))))
         | None \<Rightarrow>
             if q_type = ''SINGLE_CHOICE'' then
               bind_result (py_int (dget q ''correct'' (JInt 0))) (\<lambda>c.
                 Inr (SingleChoice (dget q ''options'' (JList [])) c))
             else
               bind_result (py_iter (dget q ''correct'' (JList []))) (\<lambda>cs.
               bind_result (map_result py_int cs) (\<lambda>is.
                 Inr (MultipleChoice (dget q ''options'' (JList [])) is))))
      else if q_type = ''ORDERING'' then
        bind_result (py_iter (dget q ''correct_order'' (JList []))) (\<lambda>cs.
        bind_result (map_result py_int cs) (\<lambda>is.
          Inr (Ordering (dget q ''items'' (JList [])) is)))
      else if q_type = ''TRUE_FALSE'' then Inr (TrueFalse (truthy (dget q ''correct'' (JBool False))))
      else Inr (OtherType q_type))"

section \<open>The snapshot\<close>

text \<open>\<open>indices.index(c)\<close>: the position of the option, or the \<open>ValueError\<close>.\<close>

fun index_of :: "int \<Rightarrow> int list \<Rightarrow> int option" where
  "index_of c [] = None"
| "index_of c (x # xs) = (if x = c then Some 0 else map_option (\<lambda>i. i + 1) (index_of c xs))"

definition pick :: "'a list \<Rightarrow> int list \<Rightarrow> 'a list" where
  "pick xs is = map (\<lambda>i. xs ! nat i) is"

definition index_range :: "nat \<Rightarrow> int list" where
  "index_range n = map int [0..<n]"

text \<open>Shuffling the options of a choice question: the options in the order of the shuffled indices,
  the answer key moved along with them.\<close>

definition shuffle_options ::
  "(nat \<Rightarrow> nat) \<Rightarrow> nat \<Rightarrow> question_body \<Rightarrow> py_exn + (question_body \<times> nat)"
where
  "shuffle_options rnd p body =
     (case body of
        SingleChoice opts c \<Rightarrow>
          bind_result (py_iter opts) (\<lambda>options.
            let (indices, p') = shuffled rnd p (index_range (length options)) in
            case index_of c indices of
              None \<Rightarrow> Inl ValueError
            | Some i \<Rightarrow> Inr (SingleChoice (JList (pick options indices)) i, p'))
      | MultipleChoice opts cs \<Rightarrow>
          bind_result (py_iter opts) (\<lambda>options.
            let (indices, p') = shuffled rnd p (index_range (length options)) in
            Inr (MultipleChoice (JList (pick options indices))
                   (indices_of (map (\<lambda>orig. orig \<in> set cs) indices)), p'))
      | _ \<Rightarrow> Inr (body, p))"

definition snapshot_one ::
  "pydict \<Rightarrow> (nat \<Rightarrow> nat) \<Rightarrow> json list \<Rightarrow> nat \<Rightarrow> nat \<Rightarrow> py_exn + (question \<times> nat)"
where
  "snapshot_one quiz_cfg rnd questions_raw orig_idx p =
     (if orig_idx \<ge> length questions_raw then Inl IndexError
      else
        bind_result (as_dict (questions_raw ! orig_idx)) (\<lambda>q.
        let q_type = question_type q in
        bind_result (build_question_config q_type q) (\<lambda>body.
        let raw_seconds = dget q ''time_limit_seconds'' (dget quiz_cfg ''question_time_default_seconds'' JNull) in
        bind_result (py_int (dget q ''points'' (JInt 1))) (\<lambda>points.
        bind_result (if truthy raw_seconds then map_sum id Some (py_int raw_seconds) else Inr None) (\<lambda>secs.
        bind_result (if truthy (dget quiz_cfg ''shuffle_options'' (JBool True))
                     then shuffle_options rnd p body else Inr (body, p)) (\<lambda>(body', p').
          Inr (\<lparr>q_id = int orig_idx, q_body = body',
                q_text = (case dget q ''text'' (JStr '''') of JStr s \<Rightarrow> s | _ \<Rightarrow> ''''),
                q_points = points, q_is_required = truthy (dget q ''required'' (JBool False)),
                q_time_limit_seconds = secs\<rparr>, p')))))))"

fun snapshot_loop ::
  "pydict \<Rightarrow> (nat \<Rightarrow> nat) \<Rightarrow> json list \<Rightarrow> nat list \<Rightarrow> nat \<Rightarrow> py_exn + (question list \<times> nat)"
where
  "snapshot_loop quiz_cfg rnd qs [] p = Inr ([], p)"
| "snapshot_loop quiz_cfg rnd qs (i # is) p =
     bind_result (snapshot_one quiz_cfg rnd qs i p) (\<lambda>(q, p1).
     bind_result (snapshot_loop quiz_cfg rnd qs is p1) (\<lambda>(rest, p2). Inr (q # rest, p2)))"

text \<open>The \<open>questions\<close> list of the configuration.\<close>

definition questions_raw :: "pydict \<Rightarrow> py_exn + json list" where
  "questions_raw quiz_cfg =
     (case dget quiz_cfg ''questions'' (JList []) of JList qs \<Rightarrow> Inr qs | _ \<Rightarrow> Inl TypeError)"

definition snapshot_questions ::
  "pydict \<Rightarrow> (nat \<Rightarrow> nat) \<Rightarrow> nat list \<Rightarrow> nat \<Rightarrow> py_exn + (question list \<times> nat)"
where
  "snapshot_questions quiz_cfg rnd ids p =
     bind_result (questions_raw quiz_cfg) (\<lambda>qs. snapshot_loop quiz_cfg rnd qs ids p)"

section \<open>The draw\<close>

definition supported_types :: "string list" where
  "supported_types = [''SINGLE_CHOICE'', ''MULTIPLE_CHOICE'', ''ORDERING'', ''TRUE_FALSE'']"

definition indexed_questions :: "json list \<Rightarrow> py_exn + (nat \<times> bool) list" where
  "indexed_questions qs =
     bind_result (map_result as_dict qs) (\<lambda>ds.
       Inr (map (\<lambda>(i, d). (i, truthy (dget d ''required'' JNull)))
         (filter (\<lambda>(i, d). question_type d \<in> set supported_types) (enumerate 0 ds))))"

definition select_question_ids ::
  "pydict \<Rightarrow> (nat \<Rightarrow> nat) \<Rightarrow> nat \<Rightarrow> py_exn + (nat list \<times> nat)"
where
  "select_question_ids quiz_cfg rnd p =
     bind_result (questions_raw quiz_cfg) (\<lambda>qs.
     bind_result (py_int (dget quiz_cfg ''questions_to_send'' (JInt (int (length qs))))) (\<lambda>wanted.
     bind_result (indexed_questions qs) (\<lambda>indexed.
       let shuffle_q = truthy (dget quiz_cfg ''shuffle_questions'' (JBool True));
           required = map fst (filter snd indexed);
           optional = map fst (filter (\<lambda>e. \<not> snd e) indexed);
           (optional', p1) = (if shuffle_q then shuffled rnd p optional else (optional, p));
           selected = required @ take (nat (wanted - int (length required))) optional';
           (selected', p2) = (if shuffle_q then shuffled rnd p1 selected else (selected, p1))
       in Inr (selected', p2))))"

definition build_questions_from_config :: "pydict \<Rightarrow> (nat \<Rightarrow> nat) \<Rightarrow> nat \<Rightarrow> py_exn + (question list \<times> nat)" where
  "build_questions_from_config quiz_cfg rnd p =
     bind_result (select_question_ids quiz_cfg rnd p) (\<lambda>(ids, p').
       snapshot_questions quiz_cfg rnd ids p')"

section \<open>The squad's shared draw\<close>

datatype draw_error = SquadChanged | DrawExn py_exn

definition lift_draw :: "py_exn + 'a \<Rightarrow> draw_error + 'a" where
  "lift_draw r = map_sum DrawExn id r"

text \<open>The configuration of a retry: as many questions as the member's slice, only the required
  ones of the slice still required. \<open>{**q, "required": ...}\<close> keeps the key's place or appends it.\<close>

definition retry_question :: "int list \<Rightarrow> nat \<times> json \<Rightarrow> py_exn + json" where
  "retry_question mine e =
     (case snd e of
        JObj d \<Rightarrow> Inr (JObj (dict_set ''required''
                   (JBool (truthy (dget d ''required'' JNull) \<and> int (fst e) \<in> set mine)) d))
      | _ \<Rightarrow> Inl TypeError)"

definition retry_config :: "int list \<Rightarrow> pydict \<Rightarrow> py_exn + pydict" where
  "retry_config my_ids quiz_cfg =
     bind_result (questions_raw quiz_cfg) (\<lambda>qs.
     bind_result (map_result (retry_question my_ids) (enumerate 0 qs)) (\<lambda>qs'.
       Inr (dict_set ''questions'' (JList qs')
             (dict_set ''questions_to_send'' (JInt (int (card (set my_ids)))) quiz_cfg))))"

definition member_order :: "db \<Rightarrow> squad \<Rightarrow> int list" where
  "member_order d sq = sort (map mem_student_id (members_of d (sq_id sq)))"

text \<open>The draw stored in the submission, written by whoever comes first.\<close>

definition shared_draw ::
  "db \<Rightarrow> squad \<Rightarrow> pydict \<Rightarrow> (nat \<Rightarrow> nat) \<Rightarrow> nat \<Rightarrow> submission \<Rightarrow> py_exn + (squad_draw \<times> submission \<times> nat)"
where
  "shared_draw d sq quiz_cfg rnd p sub =
     (case md_squad_quiz_draw (sub_source_metadata sub) of
        Some draw \<Rightarrow> Inr (draw, sub, p)
      | None \<Rightarrow>
          bind_result (select_question_ids quiz_cfg rnd p) (\<lambda>(ids, p1).
          bind_result (snapshot_questions quiz_cfg rnd ids p1) (\<lambda>(qs, p2).
          bind_result (split_draw qs (length (member_order d sq))) (\<lambda>slices.
            let draw = \<lparr>sd_question_ids = map int ids, sd_slices = slices, sd_member_order = member_order d sq\<rparr>
            in Inr (draw, sub\<lparr>sub_source_metadata :=
                 (sub_source_metadata sub)\<lparr>md_squad_quiz_draw := Some draw\<rparr>\<rparr>, p2)))))"

definition position_of :: "int \<Rightarrow> int list \<Rightarrow> nat option" where
  "position_of x xs = map_option nat (index_of x xs)"

definition draw_for_member ::
  "db \<Rightarrow> submission \<Rightarrow> squad \<Rightarrow> pydict \<Rightarrow> int \<Rightarrow> bool \<Rightarrow> (nat \<Rightarrow> nat) \<Rightarrow> nat \<Rightarrow>
    draw_error + (question list \<times> squad_snapshot \<times> submission \<times> nat)"
where
  "draw_for_member d sub sq quiz_cfg student_id retry rnd p =
     bind_result (lift_draw (shared_draw d sq quiz_cfg rnd p sub)) (\<lambda>(draw, sub', p1).
       case position_of student_id (sd_member_order draw) of
         None \<Rightarrow> Inl SquadChanged
       | Some idx \<Rightarrow>
           if idx \<ge> length (sd_slices draw) then Inl (DrawExn IndexError)
           else
             let my_ids = sd_slices draw ! idx;
                 snap = \<lparr>ss_member_index = idx, ss_member_count = length (sd_member_order draw),
                         ss_total_questions = length (sd_question_ids draw)\<rparr>
             in
               bind_result (lift_draw (if retry then retry_config my_ids quiz_cfg else Inr quiz_cfg)) (\<lambda>draw_cfg.
               bind_result (lift_draw
                 (if retry then select_question_ids draw_cfg rnd p1
                  else if truthy (dget quiz_cfg ''shuffle_questions'' (JBool True))
                  then Inr (map_prod (map nat) id (shuffled rnd p1 my_ids))
                  else Inr (map nat my_ids, p1))) (\<lambda>(ids, p2).
               bind_result (lift_draw (snapshot_questions draw_cfg rnd ids p2)) (\<lambda>(qs, p3).
                 Inr (qs, snap, sub', p3)))))"


section \<open>Which questions are drawn\<close>

text \<open>The positions of the questions the draw may use, and of those among them it must use.\<close>

definition question_at :: "(pydict \<Rightarrow> bool) \<Rightarrow> json list \<Rightarrow> nat \<Rightarrow> bool" where
  "question_at P qs i = (case qs ! i of JObj d \<Rightarrow> P d | _ \<Rightarrow> False)"

definition supported_ids :: "json list \<Rightarrow> nat list" where
  "supported_ids qs =
     filter (question_at (\<lambda>d. question_type d \<in> set supported_types) qs) [0..<length qs]"

definition required_ids :: "json list \<Rightarrow> nat list" where
  "required_ids qs = filter (question_at (\<lambda>d. truthy (dget d ''required'' JNull)) qs) (supported_ids qs)"

lemma enumerate_as_map: "enumerate 0 xs = map (\<lambda>i. (i, xs ! i)) [0..<length xs]"
  by (rule nth_equalityI) (simp_all add: nth_enumerate_eq)

lemma map_result_as_dict: "map_result as_dict qs = Inr ds \<Longrightarrow> qs = map JObj ds"
proof (induction qs arbitrary: ds)
  case Nil
  then show ?case by simp
next
  case (Cons q qs)
  then show ?case by (cases q) (auto simp: bind_result_eq_Inr)
qed

lemma indexed_questions_Inr:
  assumes "indexed_questions qs = Inr ix"
  shows "map fst ix = supported_ids qs" and "map fst (filter snd ix) = required_ids qs"
    and "map fst (filter (\<lambda>e. \<not> snd e) ix) = filter (\<lambda>i. i \<notin> set (required_ids qs)) (supported_ids qs)"
proof -
  from assms obtain ds where ds: "map_result as_dict qs = Inr ds"
    and ix: "ix = map (\<lambda>(i, d). (i, truthy (dget d ''required'' JNull)))
         (filter (\<lambda>(i, d). question_type d \<in> set supported_types) (enumerate 0 ds))"
    by (auto simp: indexed_questions_def bind_result_eq_Inr)
  have qs: "qs = map JObj ds" by (rule map_result_as_dict [OF ds])
  have at: "question_at P qs i = P (ds ! i)" if "i < length ds" for P i
    using that by (simp add: question_at_def qs)
  have sup: "supported_ids qs = filter (\<lambda>i. question_type (ds ! i) \<in> set supported_types) [0..<length ds]"
    unfolding supported_ids_def by (simp add: qs [THEN arg_cong, of length]) (intro filter_cong refl; simp add: at)
  have req: "required_ids qs = filter (\<lambda>i. truthy (dget (ds ! i) ''required'' JNull)) (supported_ids qs)"
    unfolding required_ids_def by (intro filter_cong refl at) (simp add: sup)
  have ix': "ix = map (\<lambda>i. (i, truthy (dget (ds ! i) ''required'' JNull))) (supported_ids qs)"
    by (simp add: ix enumerate_as_map filter_map comp_def sup)
  show "map fst ix = supported_ids qs" by (simp add: ix' comp_def)
  show "map fst (filter snd ix) = required_ids qs" by (simp add: ix' filter_map comp_def req)
  show "map fst (filter (\<lambda>e. \<not> snd e) ix) = filter (\<lambda>i. i \<notin> set (required_ids qs)) (supported_ids qs)"
    by (simp add: ix' filter_map comp_def req cong: filter_cong)
qed

lemma distinct_supported_ids [simp]: "distinct (supported_ids qs)"
  by (simp add: supported_ids_def)

lemma distinct_required_ids [simp]: "distinct (required_ids qs)"
  by (simp add: required_ids_def)

lemma required_ids_supported: "set (required_ids qs) \<subseteq> set (supported_ids qs)"
  by (auto simp: required_ids_def)

lemma length_required_ids: "length (required_ids qs) \<le> length (supported_ids qs)"
  by (simp add: required_ids_def)

text \<open>What a draw is: the required questions and the first few of the optional ones, in some order.\<close>

lemma select_question_ids_Inr:
  assumes "select_question_ids cfg rnd p = Inr (ids, p')"
  obtains qs wanted opt where "questions_raw cfg = Inr qs"
    and "py_int (dget cfg ''questions_to_send'' (JInt (int (length qs)))) = Inr wanted"
    and "mset opt = mset (filter (\<lambda>i. i \<notin> set (required_ids qs)) (supported_ids qs))"
    and "mset ids = mset (required_ids qs @ take (nat (wanted - int (length (required_ids qs)))) opt)"
proof -
  from assms obtain qs wanted ix where qs: "questions_raw cfg = Inr qs"
    and w: "py_int (dget cfg ''questions_to_send'' (JInt (int (length qs)))) = Inr wanted"
    and ix: "indexed_questions qs = Inr ix"
    unfolding select_question_ids_def bind_result_eq_Inr by blast
  define opt0 where "opt0 = map fst (filter (\<lambda>e. \<not> snd e) ix)"
  define on where "on = truthy (dget cfg ''shuffle_questions'' (JBool True))"
  define opt where "opt = (if on then fst (shuffled rnd p opt0) else opt0)"
  have o: "mset opt = mset (filter (\<lambda>i. i \<notin> set (required_ids qs)) (supported_ids qs))"
    by (simp add: opt_def opt0_def indexed_questions_Inr(3) [OF ix])
  have lr: "length (filter snd ix) = length (required_ids qs)"
    using indexed_questions_Inr(2) [OF ix, THEN arg_cong, of length] by simp
  have "mset ids = mset (required_ids qs @ take (nat (wanted - int (length (required_ids qs)))) opt)"
    using assms
    by (auto simp: select_question_ids_def qs w ix indexed_questions_Inr(2) [OF ix] lr Let_def opt_def
        on_def opt0_def case_prod_unfold dest: mset_shuffled_eq split: if_splits)
  with qs w o show ?thesis by (rule that)
qed

lemma select_question_ids_spec:
  assumes "select_question_ids cfg rnd p = Inr (ids, p')" and "questions_raw cfg = Inr qs"
    and "py_int (dget cfg ''questions_to_send'' (JInt (int (length qs)))) = Inr wanted"
  shows "distinct ids" and "set (required_ids qs) \<subseteq> set ids" and "set ids \<subseteq> set (supported_ids qs)"
    and "int (length ids) = max (int (length (required_ids qs))) (min wanted (int (length (supported_ids qs))))"
proof -
  from assms obtain opt where o: "mset opt = mset (filter (\<lambda>i. i \<notin> set (required_ids qs)) (supported_ids qs))"
    and ids: "mset ids = mset (required_ids qs @ take (nat (wanted - int (length (required_ids qs)))) opt)"
    by (elim select_question_ids_Inr) auto
  have so: "set opt = set (supported_ids qs) - set (required_ids qs)" using mset_eq_setD [OF o] by auto
  have "distinct opt" using mset_eq_imp_distinct_iff [OF o] by simp
  then have "distinct (required_ids qs @ take (nat (wanted - int (length (required_ids qs)))) opt)"
    using so by (auto dest: in_set_takeD)
  then show "distinct ids" using mset_eq_imp_distinct_iff [OF ids] by simp
  have si: "set ids = set (required_ids qs) \<union> set (take (nat (wanted - int (length (required_ids qs)))) opt)"
    using mset_eq_setD [OF ids] by simp
  then show "set (required_ids qs) \<subseteq> set ids" by blast
  show "set ids \<subseteq> set (supported_ids qs)"
    using si so required_ids_supported [of qs] by (auto dest: in_set_takeD)
  have "length opt = card (set opt)" using \<open>distinct opt\<close> by (simp add: distinct_card)
  also have "\<dots> = length (supported_ids qs) - length (required_ids qs)"
    unfolding so by (simp add: card_Diff_subset required_ids_supported distinct_card)
  finally have lo: "length opt = length (supported_ids qs) - length (required_ids qs)" .
  have "length ids = length (required_ids qs) + min (length opt) (nat (wanted - int (length (required_ids qs))))"
    using mset_eq_length [OF ids] by simp
  then show "int (length ids) = max (int (length (required_ids qs))) (min wanted (int (length (supported_ids qs))))"
    using lo length_required_ids [of qs] by simp
qed


section \<open>Shuffled options\<close>

lemma index_of_Some:
  "index_of c xs = Some i \<Longrightarrow> 0 \<le> i \<and> nat i < length xs \<and> xs ! nat i = c"
proof (induction xs arbitrary: i)
  case Nil
  then show ?case by simp
next
  case (Cons x xs)
  show ?case
  proof (cases "x = c")
    case True
    then show ?thesis using Cons.prems by auto
  next
    case False
    then obtain j where j: "index_of c xs = Some j" "i = j + 1" using Cons.prems by auto
    then have "0 \<le> j" "nat i = Suc (nat j)" using Cons.IH [OF j(1)] by auto
    then show ?thesis using Cons.IH [OF j(1)] j(2) by auto
  qed
qed

lemma index_of_None: "index_of c xs = None \<longleftrightarrow> c \<notin> set xs"
  by (induction xs) auto

lemma set_index_range: "set (index_range n) = {0..<int n}"
  by (auto simp: index_range_def image_iff) (metis atLeast0LessThan int_nat_eq lessThan_iff nat_less_iff of_nat_less_iff)

lemma length_index_range [simp]: "length (index_range n) = n"
  by (simp add: index_range_def)

lemma distinct_index_range [simp]: "distinct (index_range n)"
  by (simp add: index_range_def distinct_map)

lemma set_indices_of: "set (indices_of bs) = {i. 0 \<le> i \<and> nat i < length bs \<and> bs ! nat i}"
  by (force simp: indices_of_def image_iff)

lemma shuffle_options_single:
  assumes "shuffle_options rnd p (SingleChoice opts c) = Inr (body, p')" and "py_iter opts = Inr options"
  obtains options' c' where "body = SingleChoice (JList options') c'" and "mset options' = mset options"
    and "0 \<le> c'" "nat c' < length options'" "0 \<le> c" "nat c < length options" "options' ! nat c' = options ! nat c"
proof -
  define ix where "ix = fst (shuffled rnd p (index_range (length options)))"
  from assms obtain c' where c': "index_of c ix = Some c'"
    and body: "body = SingleChoice (JList (pick options ix)) c'"
    by (auto simp: shuffle_options_def ix_def case_prod_unfold Let_def split: option.splits)
  have len: "length ix = length options" by (simp add: ix_def)
  have "c \<in> set ix" using index_of_None [of c ix] c' by auto
  then have c: "0 \<le> c \<and> nat c < length options" by (auto simp: ix_def set_index_range)
  have "mset ix = mset (index_range (length options))" by (simp add: ix_def)
  then have "mset (pick options ix) = mset (pick options (index_range (length options)))"
    by (simp add: pick_def)
  also have "pick options (index_range (length options)) = options"
    by (simp add: pick_def index_range_def comp_def map_nth)
  finally have m: "mset (pick options ix) = mset options" .
  have i: "0 \<le> c'" "nat c' < length ix" "ix ! nat c' = c" using index_of_Some [OF c'] by auto
  then have "pick options ix ! nat c' = options ! nat c" by (simp add: pick_def)
  moreover have "length (pick options ix) = length options" by (simp add: pick_def len)
  ultimately show ?thesis using that [OF body m] i c len by simp
qed

text \<open>For a multiple choice: the option at a new position is right exactly when it was right at
  the old one.\<close>

lemma shuffle_options_multiple:
  assumes "shuffle_options rnd p (MultipleChoice opts cs) = Inr (body, p')" and "py_iter opts = Inr options"
  obtains perm cs' where "body = MultipleChoice (JList (pick options perm)) cs'"
    and "mset perm = mset (index_range (length options))"
    and "\<And>i. i < length perm \<Longrightarrow> int i \<in> set cs' \<longleftrightarrow> perm ! i \<in> set cs"
    and "sorted cs'" "distinct cs'"
proof -
  define perm where "perm = fst (shuffled rnd p (index_range (length options)))"
  have body: "body = MultipleChoice (JList (pick options perm)) (indices_of (map (\<lambda>orig. orig \<in> set cs) perm))"
    using assms by (auto simp: shuffle_options_def perm_def case_prod_unfold Let_def)
  have "sorted (indices_of bs) \<and> distinct (indices_of bs)" for bs
    by (simp add: indices_of_def distinct_map sorted_wrt_map) (rule sorted_wrt_filter, simp)
  with body show ?thesis
    by (intro that [of perm "indices_of (map (\<lambda>orig. orig \<in> set cs) perm)"])
       (auto simp: perm_def set_indices_of)
qed


text \<open>The answer key as the student can tell it: every option's text with whether it is right, in
  no order. For the other kinds of question, the body itself.\<close>

definition question_kind :: "question_body \<Rightarrow> string" where
  "question_kind b =
     (case b of SingleChoice _ _ \<Rightarrow> ''SINGLE_CHOICE'' | MultipleChoice _ _ \<Rightarrow> ''MULTIPLE_CHOICE''
        | Ordering _ _ \<Rightarrow> ''ORDERING'' | TrueFalse _ \<Rightarrow> ''TRUE_FALSE'' | OtherType t \<Rightarrow> t)"

definition marked_options :: "json list \<Rightarrow> int list \<Rightarrow> (json \<times> bool) multiset" where
  "marked_options options key =
     mset (map (\<lambda>i. (options ! i, int i \<in> set key)) [0..<length options])"

definition key_view :: "question_body \<Rightarrow> (json \<times> bool) multiset + question_body" where
  "key_view b =
     (case b of
        SingleChoice opts c \<Rightarrow>
          (case py_iter opts of Inr options \<Rightarrow> Inl (marked_options options [c]) | Inl _ \<Rightarrow> Inr b)
      | MultipleChoice opts cs \<Rightarrow>
          (case py_iter opts of Inr options \<Rightarrow> Inl (marked_options options cs) | Inl _ \<Rightarrow> Inr b)
      | _ \<Rightarrow> Inr b)"

lemma marked_options_pick:
  assumes "mset perm = mset (index_range (length options))"
    and "\<And>k. k < length perm \<Longrightarrow> int k \<in> set key' \<longleftrightarrow> perm ! k \<in> set key"
  shows "marked_options (pick options perm) key' = marked_options options key"
proof -
  let ?f = "\<lambda>i. (options ! nat i, i \<in> set key)"
  have "map (\<lambda>k. (pick options perm ! k, int k \<in> set key')) [0..<length perm] = map ?f perm"
    by (rule nth_equalityI) (simp_all add: pick_def assms(2))
  then have "marked_options (pick options perm) key' = mset (map ?f perm)"
    by (simp add: marked_options_def pick_def)
  also have "\<dots> = image_mset ?f (mset (index_range (length options)))" by (simp only: mset_map assms(1))
  also have "\<dots> = marked_options options key"
    by (simp add: marked_options_def index_range_def comp_def multiset.map_comp)
  finally show ?thesis .
qed

section \<open>The snapshot of a draw\<close>

lemma snapshot_one_Inr:
  assumes "snapshot_one cfg rnd qs i p = Inr (q, p')"
  shows "q_id q = int i \<and> i < length qs \<and>
    (\<exists>d. qs ! i = JObj d \<and> py_int (dget d ''points'' (JInt 1)) = Inr (q_points q) \<and>
         q_is_required q = truthy (dget d ''required'' (JBool False)))"
  using assms by (cases "qs ! i")
    (auto simp: snapshot_one_def Let_def bind_result_eq_Inr split: if_splits)

lemma snapshot_loop_ids:
  "snapshot_loop cfg rnd qs ids p = Inr (snap, p') \<Longrightarrow> map q_id snap = map int ids"
proof (induction ids arbitrary: p snap p')
  case Nil
  then show ?case by simp
next
  case (Cons i ids)
  then obtain q p1 rest p2 where one: "snapshot_one cfg rnd qs i p = Inr (q, p1)"
    and rest: "snapshot_loop cfg rnd qs ids p1 = Inr (rest, p2)" and snap: "snap = q # rest"
    by (auto simp: bind_result_eq_Inr)
  have "q_id q = int i" using snapshot_one_Inr [OF one] by (rule conjunct1)
  with Cons.IH [OF rest] show ?case by (simp add: snap)
qed

lemma snapshot_questions_ids:
  "snapshot_questions cfg rnd ids p = Inr (snap, p') \<Longrightarrow> map q_id snap = map int ids"
  by (auto simp: snapshot_questions_def bind_result_eq_Inr dest: snapshot_loop_ids)

lemma lift_draw_Inr [simp]: "lift_draw r = Inr x \<longleftrightarrow> r = Inr x"
  by (cases r) (auto simp: lift_draw_def)


section \<open>A squad's draw\<close>

text \<open>A stored draw that splits some questions between the members.\<close>

definition draw_ok :: "squad_draw \<Rightarrow> bool" where
  "draw_ok draw \<longleftrightarrow>
     distinct (sd_question_ids draw) \<and> (\<forall>i \<in> set (sd_question_ids draw). 0 \<le> i) \<and>
     mset (concat (sd_slices draw)) = mset (sd_question_ids draw) \<and>
     length (sd_slices draw) = length (sd_member_order draw) \<and>
     (\<forall>i < length (sd_slices draw).
        length (sd_slices draw ! i) = dealt_to (length (sd_slices draw)) i (length (sd_question_ids draw)))"

lemma shared_draw_stored:
  "shared_draw d sq cfg rnd p sub = Inr (draw, sub', p') \<Longrightarrow>
     md_squad_quiz_draw (sub_source_metadata sub') = Some draw"
  by (auto simp: shared_draw_def bind_result_eq_Inr Let_def split: option.splits)

lemma shared_draw_ok:
  assumes "shared_draw d sq cfg rnd p sub = Inr (draw, sub', p')"
    and "\<And>dr. md_squad_quiz_draw (sub_source_metadata sub) = Some dr \<Longrightarrow> draw_ok dr"
  shows "draw_ok draw"
proof (cases "md_squad_quiz_draw (sub_source_metadata sub)")
  case (Some dr)
  then show ?thesis using assms by (simp add: shared_draw_def)
next
  case None
  with assms(1) obtain ids p1 qs slices
    where sel: "select_question_ids cfg rnd p = Inr (ids, p1)"
      and snap: "snapshot_questions cfg rnd ids p1 = Inr (qs, p')"
      and split: "split_draw qs (length (member_order d sq)) = Inr slices"
      and draw: "draw = \<lparr>sd_question_ids = map int ids, sd_slices = slices, sd_member_order = member_order d sq\<rparr>"
    by (auto simp: shared_draw_def bind_result_eq_Inr Let_def)
  from sel obtain raw wanted where "questions_raw cfg = Inr raw"
    "py_int (dget cfg ''questions_to_send'' (JInt (int (length raw)))) = Inr wanted"
    by (elim select_question_ids_Inr)
  then have dist: "distinct ids" using sel by (intro select_question_ids_spec(1))
  note q = snapshot_questions_ids [OF snap]
  then have len: "length qs = length ids" by (metis length_map)
  show ?thesis
    unfolding draw_ok_def draw using split_draw_dealt [OF split] q dist len by (simp add: distinct_map)
qed

lemma position_of_Some:
  "position_of x xs = Some k \<Longrightarrow> k < length xs \<and> xs ! k = x"
  by (auto simp: position_of_def dest: index_of_Some)

lemma distinct_concat_disjoint:
  "distinct (concat xss) \<Longrightarrow> i < length xss \<Longrightarrow> j < length xss \<Longrightarrow> i \<noteq> j \<Longrightarrow> set (xss ! i) \<inter> set (xss ! j) = {}"
proof (induction xss arbitrary: i j)
  case Nil
  then show ?case by simp
next
  case (Cons xs xss)
  have "set xs \<inter> set (xss ! k) = {}" if "k < length xss" for k
    using Cons.prems(1) nth_mem [OF that] by auto
  with Cons show ?case by (cases i; cases j) (auto simp: Int_commute)
qed

lemma draw_slice:
  assumes "draw_ok draw" and "k < length (sd_slices draw)"
  shows "distinct (sd_slices draw ! k)" and "map (int \<circ> nat) (sd_slices draw ! k) = sd_slices draw ! k"
proof -
  have "distinct (concat (sd_slices draw))"
    using assms(1) by (metis draw_ok_def mset_eq_imp_distinct_iff)
  then show "distinct (sd_slices draw ! k)" using assms(2) by (simp add: distinct_concat_iff)
  have "set (sd_slices draw ! k) \<subseteq> set (concat (sd_slices draw))" using nth_mem [OF assms(2)] by auto
  also have "\<dots> = set (sd_question_ids draw)" using assms(1) by (metis draw_ok_def mset_eq_setD)
  finally have "\<forall>x \<in> set (sd_slices draw ! k). 0 \<le> x" using assms(1) unfolding draw_ok_def by blast
  then show "map (int \<circ> nat) (sd_slices draw ! k) = sd_slices draw ! k" by (intro map_idI) simp
qed

lemma draw_for_member_first:
  assumes "draw_for_member d sub sq cfg s False rnd p = Inr (qs, snap, sub', p')"
  obtains draw k p1 where "shared_draw d sq cfg rnd p sub = Inr (draw, sub', p1)"
    and "position_of s (sd_member_order draw) = Some k" and "k < length (sd_slices draw)"
    and "mset (map q_id qs) = mset (map (int \<circ> nat) (sd_slices draw ! k))"
    and "snap = \<lparr>ss_member_index = k, ss_member_count = length (sd_member_order draw),
                 ss_total_questions = length (sd_question_ids draw)\<rparr>"
proof -
  from assms obtain draw p1 where sh: "shared_draw d sq cfg rnd p sub = Inr (draw, sub', p1)"
    by (auto simp: draw_for_member_def bind_result_eq_Inr Let_def split: option.splits if_splits)
  from assms sh obtain k where k: "position_of s (sd_member_order draw) = Some k" "k < length (sd_slices draw)"
    by (auto simp: draw_for_member_def bind_result_eq_Inr Let_def split: option.splits if_splits)
  define ids where
    "ids = (if truthy (dget cfg ''shuffle_questions'' (JBool True))
            then map nat (fst (shuffled rnd p1 (sd_slices draw ! k))) else map nat (sd_slices draw ! k))"
  from assms sh k obtain p2 where snap: "snapshot_questions cfg rnd ids p2 = Inr (qs, p')"
    and sn: "snap = \<lparr>ss_member_index = k, ss_member_count = length (sd_member_order draw),
                 ss_total_questions = length (sd_question_ids draw)\<rparr>"
    by (cases "shuffled rnd p1 (sd_slices draw ! k)")
       (auto simp: draw_for_member_def bind_result_eq_Inr Let_def ids_def case_prod_unfold split: if_splits)
  have "map q_id qs = map int ids" by (rule snapshot_questions_ids [OF snap])
  then have "mset (map q_id qs) = mset (map int ids)" by simp
  also have "\<dots> = mset (map (int \<circ> nat) (sd_slices draw ! k))"
    by (auto simp: ids_def multiset.map_comp simp flip: mset_map)
       (simp_all add: multiset.map_comp)
  finally show ?thesis using that sh k sn by blast
qed


section \<open>A retry's draw\<close>

lemma map_result_nth:
  assumes "map_result f xs = Inr ys" and "i < length xs"
  shows "f (xs ! i) = Inr (ys ! i)"
  using list_all2_nthD [OF assms(1) [unfolded map_result_Inr_iff] assms(2)] .

lemma retry_question_Inr:
  assumes "retry_question mine e = Inr q'"
  obtains qd where "snd e = JObj qd" and "q' = JObj (dict_set ''required''
      (JBool (truthy (dget qd ''required'' JNull) \<and> int (fst e) \<in> set mine)) qd)"
  using assms by (cases "snd e") (auto simp: retry_question_def)

lemma retry_config_questions:
  assumes "retry_config mine cfg = Inr cfg'" and "questions_raw cfg = Inr qs"
  obtains qs' where "questions_raw cfg' = Inr qs'"
    and "py_int (dget cfg' ''questions_to_send'' (JInt (int (length qs')))) = Inr (int (card (set mine)))"
    and "supported_ids qs' = supported_ids qs"
    and "set (required_ids qs') = {i \<in> set (required_ids qs). int i \<in> set mine}"
proof -
  from assms obtain qs' where m: "map_result (retry_question mine) (enumerate 0 qs) = Inr qs'"
    and cfg': "cfg' = dict_set ''questions'' (JList qs')
             (dict_set ''questions_to_send'' (JInt (int (card (set mine)))) cfg)"
    by (auto simp: retry_config_def bind_result_eq_Inr)
  have len: "length qs' = length qs" using map_result_length [OF m] by simp
  have at: "question_at P qs' i \<longleftrightarrow> (\<exists>qd. qs ! i = JObj qd \<and> P (dict_set ''required''
      (JBool (truthy (dget qd ''required'' JNull) \<and> int i \<in> set mine)) qd))" if "i < length qs" for P i
  proof -
    have "retry_question mine (i, qs ! i) = Inr (qs' ! i)"
      using map_result_nth [OF m, of i] that by (simp add: nth_enumerate_eq)
    then show ?thesis by (elim retry_question_Inr) (simp add: question_at_def)
  qed
  have was: "question_at P qs i \<longleftrightarrow> (\<exists>qd. qs ! i = JObj qd \<and> P qd)" for P i
    by (simp add: question_at_def split: json.split)
  have sup: "supported_ids qs' = supported_ids qs"
    unfolding supported_ids_def len by (intro filter_cong refl) (simp add: at was question_type_def)
  have "set (required_ids qs') = {i \<in> set (required_ids qs). int i \<in> set mine}"
    unfolding required_ids_def sup by (auto simp: at was supported_ids_def)
  with sup show ?thesis by (intro that [of qs']) (simp_all add: questions_raw_def cfg')
qed

lemma retry_draw_size:
  assumes "retry_config mine cfg = Inr cfg'" and "questions_raw cfg = Inr qs"
    and "set mine \<subseteq> int ` set (supported_ids qs)"
    and "select_question_ids cfg' rnd p = Inr (ids, p')"
  shows "distinct ids" and "length ids = card (set mine)"
    and "\<And>i. i \<in> set (required_ids qs) \<Longrightarrow> int i \<in> set mine \<Longrightarrow> i \<in> set ids"
    and "set ids \<subseteq> set (supported_ids qs)"
proof -
  from assms(1,2) obtain qs' where raw: "questions_raw cfg' = Inr qs'"
    and w: "py_int (dget cfg' ''questions_to_send'' (JInt (int (length qs')))) = Inr (int (card (set mine)))"
    and sup: "supported_ids qs' = supported_ids qs"
    and req: "set (required_ids qs') = {i \<in> set (required_ids qs). int i \<in> set mine}"
    by (rule retry_config_questions)
  note spec = select_question_ids_spec [OF assms(4) raw w]
  have "int ` set (required_ids qs') \<subseteq> set mine" by (auto simp: req)
  then have "card (int ` set (required_ids qs')) \<le> card (set mine)" by (intro card_mono) simp_all
  then have r: "length (required_ids qs') \<le> card (set mine)"
    by (simp add: card_image distinct_card)
  have "card (set mine) \<le> card (int ` set (supported_ids qs))" by (rule card_mono) (simp_all add: assms(3))
  then have "card (set mine) \<le> length (supported_ids qs)" by (simp add: card_image distinct_card)
  with r spec(4) show "length ids = card (set mine)" by (simp add: sup)
  show "distinct ids" by (rule spec(1))
  show "i \<in> set ids" if "i \<in> set (required_ids qs)" "int i \<in> set mine" for i
    using spec(2) that by (auto simp: req)
  show "set ids \<subseteq> set (supported_ids qs)" using spec(3) by (simp add: sup)
qed

lemma draw_for_member_retry:
  assumes "draw_for_member d sub sq cfg s True rnd p = Inr (qs, snap, sub', p')"
  obtains draw k p1 cfg' ids p2 where "shared_draw d sq cfg rnd p sub = Inr (draw, sub', p1)"
    and "position_of s (sd_member_order draw) = Some k"
    and "retry_config (sd_slices draw ! k) cfg = Inr cfg'"
    and "select_question_ids cfg' rnd p1 = Inr (ids, p2)"
    and "map q_id qs = map int ids"
  using assms
  by (auto simp: draw_for_member_def bind_result_eq_Inr Let_def dest!: snapshot_questions_ids
      split: option.splits if_splits)


section \<open>Properties\<close>

definition sample_tf :: "bool \<Rightarrow> json" where
  "sample_tf req =
     JObj [(''type'', JStr ''true_false''), (''text'', JStr ''q''), (''required'', JBool req), (''correct'', JBool True)]"

definition sample_quiz_cfg :: pydict where
  "sample_quiz_cfg =
     [(''questions'', JList [sample_tf False, JObj [(''type'', JStr ''short_answer'')], sample_tf True,
        sample_tf False, sample_tf False]),
      (''questions_to_send'', JInt 3)]"

definition sample_stream :: "nat \<Rightarrow> nat" where
  "sample_stream k = k"

lemmas sample_draw_defs = sample_tf_def sample_quiz_cfg_def sample_stream_def

text \<open>A draw holds no question twice, only questions of a supported type, and every required
  one of those; it has \<open>questions_to_send\<close> questions, unless fewer are configured or more are
  required. This holds for every outcome of the two shuffles.\<close>

theorem draw_selects_required:
  assumes "select_question_ids cfg rnd p = Inr (ids, p')" and "questions_raw cfg = Inr qs"
    and "py_int (dget cfg ''questions_to_send'' (JInt (int (length qs)))) = Inr wanted"
  shows "distinct ids \<and> set (required_ids qs) \<subseteq> set ids \<and> set ids \<subseteq> set (supported_ids qs) \<and>
    int (length ids) = max (int (length (required_ids qs))) (min wanted (int (length (supported_ids qs))))"
  using select_question_ids_spec [OF assms] by blast

theorem draw_selects_required_witness:
  "\<exists>ids p'. select_question_ids sample_quiz_cfg sample_stream 0 = Inr (ids, p') \<and>
     distinct ids \<and> length ids = 3 \<and> set ids \<subseteq> {0, 2, 3, 4} \<and> 2 \<in> set ids"
proof -
  let ?qs = "[sample_tf False, JObj [(''type'', JStr ''short_answer'')], sample_tf True,
        sample_tf False, sample_tf False]"
  have r: "questions_raw sample_quiz_cfg = Inr ?qs" by code_simp
  have w: "py_int (dget sample_quiz_cfg ''questions_to_send'' (JInt (int (length ?qs)))) = Inr 3"
    by code_simp
  have sup: "supported_ids ?qs = [0, 2, 3, 4]" and req: "required_ids ?qs = [2]" by code_simp+
  have s: "select_question_ids sample_quiz_cfg sample_stream 0 = Inr ([2, 4, 3], 4)" by code_simp
  from draw_selects_required [OF s r w] s show ?thesis by (auto simp: sup req)
qed

text \<open>Shuffling the options of a question leaves it the same question: the same type, and every
  option as right or wrong as it was, whichever permutation was drawn; a question of another type
  is untouched.\<close>

theorem shuffle_keeps_answer_key:
  assumes "shuffle_options rnd p body = Inr (body', p')"
  shows "question_kind body' = question_kind body \<and> key_view body' = key_view body"
proof (cases body)
  case (SingleChoice opts c)
  with assms obtain options where o: "py_iter opts = Inr options"
    by (cases "py_iter opts") (auto simp: shuffle_options_def)
  define perm where "perm = fst (shuffled rnd p (index_range (length options)))"
  from assms SingleChoice o obtain c' where c': "index_of c perm = Some c'"
    and b: "body' = SingleChoice (JList (pick options perm)) c'"
    by (auto simp: shuffle_options_def perm_def case_prod_unfold Let_def split: option.splits)
  have dist: "distinct perm" by (simp add: perm_def)
  have "marked_options (pick options perm) [c'] = marked_options options [c]"
  proof (rule marked_options_pick)
    show "mset perm = mset (index_range (length options))" by (simp add: perm_def)
    show "int k \<in> set [c'] \<longleftrightarrow> perm ! k \<in> set [c]" if "k < length perm" for k
      using index_of_Some [OF c'] that nth_eq_iff_index_eq [OF dist, of k "nat c'"] by auto
  qed
  with SingleChoice o b show ?thesis by (simp add: question_kind_def key_view_def)
next
  case (MultipleChoice opts cs)
  with assms obtain options where o: "py_iter opts = Inr options"
    by (cases "py_iter opts") (auto simp: shuffle_options_def)
  from assms [unfolded MultipleChoice] o obtain perm cs'
    where "body' = MultipleChoice (JList (pick options perm)) cs'"
      and "marked_options (pick options perm) cs' = marked_options options cs"
    by (elim shuffle_options_multiple) (auto intro: marked_options_pick)
  with MultipleChoice o show ?thesis by (simp add: question_kind_def key_view_def)
qed (use assms in \<open>auto simp: shuffle_options_def\<close>)

theorem shuffle_keeps_answer_key_witness:
  "\<exists>body'. shuffle_options sample_stream 0 (SingleChoice (JList [JStr ''a'', JStr ''b'', JStr ''c'']) 1) =
       Inr (body', 2) \<and> body' \<noteq> SingleChoice (JList [JStr ''a'', JStr ''b'', JStr ''c'']) 1 \<and>
     key_view body' = key_view (SingleChoice (JList [JStr ''a'', JStr ''b'', JStr ''c'']) 1)"
proof -
  have s: "shuffle_options sample_stream 0 (SingleChoice (JList [JStr ''a'', JStr ''b'', JStr ''c'']) 1) =
      Inr (SingleChoice (JList [JStr ''c'', JStr ''b'', JStr ''a'']) 1, 2)" by code_simp
  from shuffle_keeps_answer_key [OF s] s show ?thesis by simp
qed


text \<open>Two members of a squad get disjoint parts of one draw, whoever opens the quiz first and
  whatever happened to the configuration and the squad in between: no question is in both quizzes
  or twice in one, the parts differ by at most one question, and the second opening leaves the
  stored draw alone.\<close>

theorem squad_parts_are_disjoint:
  assumes "draw_for_member d1 sub sq1 cfg1 s1 False rnd1 p1 = Inr (qs1, snap1, sub1, e1)"
    and "draw_for_member d2 sub1 sq2 cfg2 s2 False rnd2 p2 = Inr (qs2, snap2, sub2, e2)"
    and "md_squad_quiz_draw (sub_source_metadata sub) = None" and "s1 \<noteq> s2"
  shows "distinct (map q_id (qs1 @ qs2)) \<and> length qs1 \<le> Suc (length qs2) \<and> length qs2 \<le> Suc (length qs1) \<and>
    ss_total_questions snap1 = ss_total_questions snap2 \<and> sub2 = sub1"
proof -
  from assms(1) obtain draw k1 pa where sh: "shared_draw d1 sq1 cfg1 rnd1 p1 sub = Inr (draw, sub1, pa)"
    and k1: "position_of s1 (sd_member_order draw) = Some k1" "k1 < length (sd_slices draw)"
    and q1: "mset (map q_id qs1) = mset (map (int \<circ> nat) (sd_slices draw ! k1))"
    and n1: "ss_total_questions snap1 = length (sd_question_ids draw)"
    by (rule draw_for_member_first) simp
  have ok: "draw_ok draw" using shared_draw_ok [OF sh] assms(3) by simp
  have st: "shared_draw d2 sq2 cfg2 rnd2 p2 sub1 = Inr (draw, sub1, p2)"
    using shared_draw_stored [OF sh] by (simp add: shared_draw_def)
  from assms(2) obtain draw' k2 pb where sh': "shared_draw d2 sq2 cfg2 rnd2 p2 sub1 = Inr (draw', sub2, pb)"
    and k2': "position_of s2 (sd_member_order draw') = Some k2" "k2 < length (sd_slices draw')"
    and q2': "mset (map q_id qs2) = mset (map (int \<circ> nat) (sd_slices draw' ! k2))"
    and n2': "ss_total_questions snap2 = length (sd_question_ids draw')"
    by (rule draw_for_member_first) simp
  have same: "draw' = draw" "sub2 = sub1" using sh' st by simp_all
  note k2 = k2' [unfolded same] and q2 = q2' [unfolded same] and n2 = n2' [unfolded same]
  have ne: "k1 \<noteq> k2" using position_of_Some [OF k1(1)] position_of_Some [OF k2(1)] assms(4) by auto
  have m1: "mset (map q_id qs1) = mset (sd_slices draw ! k1)" using q1 draw_slice(2) [OF ok k1(2)] by simp
  have m2: "mset (map q_id qs2) = mset (sd_slices draw ! k2)" using q2 draw_slice(2) [OF ok k2(2)] by simp
  have dist: "distinct (concat (sd_slices draw))"
    using ok by (metis draw_ok_def mset_eq_imp_distinct_iff)
  note d1 = draw_slice(1) [OF ok k1(2)] draw_slice(1) [OF ok k2(2)]
  have dj: "set (sd_slices draw ! k1) \<inter> set (sd_slices draw ! k2) = {}"
    using dist k1(2) k2(2) ne by (rule distinct_concat_disjoint)
  have len: "length qs1 = length (sd_slices draw ! k1)" "length qs2 = length (sd_slices draw ! k2)"
    using mset_eq_length [OF m1] mset_eq_length [OF m2] by simp_all
  have "distinct (map q_id (qs1 @ qs2))"
    using d1 dj mset_eq_setD [OF m1] mset_eq_setD [OF m2] mset_eq_imp_distinct_iff [OF m1]
      mset_eq_imp_distinct_iff [OF m2] by simp
  moreover have "length qs1 \<le> Suc (length qs2) \<and> length qs2 \<le> Suc (length qs1)"
  proof -
    let ?n = "length (sd_slices draw)" and ?m = "length (sd_question_ids draw)"
    have "length qs1 = dealt_to ?n k1 ?m" "length qs2 = dealt_to ?n k2 ?m"
      using ok k1(2) k2(2) unfolding draw_ok_def len by blast+
    then show ?thesis using dealt_to_bounds [OF k1(2), of ?m] dealt_to_bounds [OF k2(2), of ?m] by linarith
  qed
  ultimately show ?thesis using n1 n2 same by simp
qed

theorem squad_parts_are_disjoint_witness:
  "(let d = sample_graded_squad; sub = hd (db_submissions d); sq = hd (db_squads d) in
    case draw_for_member d sub sq sample_quiz_cfg 2 False sample_stream 0 of
      Inl _ \<Rightarrow> False
    | Inr (qs2, _, sub', p) \<Rightarrow>
        (case draw_for_member d sub' sq sample_quiz_cfg 1 False sample_stream p of
           Inl _ \<Rightarrow> False
         | Inr (qs1, _) \<Rightarrow> map q_id qs2 = [4] \<and> map q_id qs1 = [3, 2] \<and> distinct (map q_id (qs2 @ qs1))))"
proof -
  let ?d = sample_graded_squad
  let ?sub = "hd (db_submissions ?d)"
  let ?sq = "hd (db_squads ?d)"
  let ?f2 = "draw_for_member ?d ?sub ?sq sample_quiz_cfg 2 False sample_stream 0"
  have "map_sum id (\<lambda>(qs, _, sub', p). (map q_id qs, p, map_sum id (\<lambda>(qs, _). map q_id qs)
      (draw_for_member ?d sub' ?sq sample_quiz_cfg 1 False sample_stream p))) ?f2 = Inr ([4], 4, Inr [3, 2])"
    by code_simp
  then obtain qs2 sn2 sub' qs1 sn1 sub'' p' where f: "?f2 = Inr (qs2, sn2, sub', 4)" "map q_id qs2 = [4]"
    "draw_for_member ?d sub' ?sq sample_quiz_cfg 1 False sample_stream 4 = Inr (qs1, sn1, sub'', p')"
    "map q_id qs1 = [3, 2]"
    by (auto simp: map_sum_eq_Inr)
  have "md_squad_quiz_draw (sub_source_metadata ?sub) = None" by (simp add: sample_graded_squad_def)
  from squad_parts_are_disjoint [OF f(1,3) this] have "distinct (map q_id (qs2 @ qs1))" by simp
  with f show ?thesis by (simp add: Let_def del: map_append)
qed

text \<open>A squad member who retries gets as many questions as their part of the shared draw had,
  none twice, and every required question of that part again, as long as the part's questions
  are still in the configuration.\<close>

theorem retry_keeps_part_size:
  assumes "draw_for_member d sub sq cfg s True rnd p = Inr (qs, snap, sub', p')"
    and "md_squad_quiz_draw (sub_source_metadata sub) = Some draw"
    and "position_of s (sd_member_order draw) = Some k" and "questions_raw cfg = Inr raw"
    and "set (sd_slices draw ! k) \<subseteq> int ` set (supported_ids raw)"
  shows "distinct (map q_id qs) \<and> length qs = card (set (sd_slices draw ! k)) \<and>
    (\<forall>i \<in> set (sd_slices draw ! k). nat i \<in> set (required_ids raw) \<longrightarrow> i \<in> q_id ` set qs) \<and> sub' = sub"
proof -
  from assms(1) obtain draw' k' p1 cfg' ids p2 where sh: "shared_draw d sq cfg rnd p sub = Inr (draw', sub', p1)"
    and k: "position_of s (sd_member_order draw') = Some k'"
    and rc: "retry_config (sd_slices draw' ! k') cfg = Inr cfg'"
    and sel: "select_question_ids cfg' rnd p1 = Inr (ids, p2)"
    and q: "map q_id qs = map int ids"
    by (rule draw_for_member_retry)
  have same: "draw' = draw" "sub' = sub" using sh assms(2) by (auto simp: shared_draw_def)
  then have "k' = k" using k assms(3) by simp
  note size = retry_draw_size [OF rc [unfolded same this] assms(4,5) sel]
  have "distinct (map q_id qs)" unfolding q using size(1) by (simp add: distinct_map)
  moreover have "length qs = card (set (sd_slices draw ! k))" using size(2) q by (metis length_map)
  moreover have "i \<in> q_id ` set qs" if "i \<in> set (sd_slices draw ! k)" "nat i \<in> set (required_ids raw)" for i
  proof -
    have i: "int (nat i) = i" using that(1) assms(5) by auto
    then have "nat i \<in> set ids" using size(3) [of "nat i"] that by simp
    then have "i \<in> set (map int ids)" using i by force
    then show ?thesis unfolding q [symmetric] by simp
  qed
  ultimately show ?thesis using same by blast
qed

theorem retry_keeps_part_size_witness:
  "(let d = sample_graded_squad; sq = hd (db_squads d);
        sub = (hd (db_submissions d))\<lparr>sub_source_metadata := \<lparr>md_original_filename = None, md_saved_as = None, md_similarity_score = None, md_quiz_extra_attempts = [],
          md_squad_quiz_draw = Some \<lparr>sd_question_ids = [2, 4, 3], sd_slices = [[2, 3], [4]], sd_member_order = [1, 2]\<rparr>\<rparr>\<rparr>
    in case draw_for_member d sub sq sample_quiz_cfg 1 True sample_stream 0 of
         Inl _ \<Rightarrow> False
       | Inr (qs, _) \<Rightarrow> length qs = 2 \<and> 2 \<in> q_id ` set qs)"
proof -
  let ?draw = "\<lparr>sd_question_ids = [2, 4, 3], sd_slices = [[2, 3], [4]], sd_member_order = [1, 2]\<rparr>"
  let ?d = sample_graded_squad
  let ?sq = "hd (db_squads ?d)"
  let ?sub = "(hd (db_submissions ?d))\<lparr>sub_source_metadata := \<lparr>md_original_filename = None, md_saved_as = None, md_similarity_score = None, md_quiz_extra_attempts = [],
          md_squad_quiz_draw = Some ?draw\<rparr>\<rparr>"
  let ?qs = "[sample_tf False, JObj [(''type'', JStr ''short_answer'')], sample_tf True,
        sample_tf False, sample_tf False]"
  have "map_sum id (\<lambda>_. ()) (draw_for_member ?d ?sub ?sq sample_quiz_cfg 1 True sample_stream 0) = Inr ()"
    by code_simp
  then obtain qs sn sub' p' where f: "draw_for_member ?d ?sub ?sq sample_quiz_cfg 1 True sample_stream 0 = Inr (qs, sn, sub', p')"
    by (cases "draw_for_member ?d ?sub ?sq sample_quiz_cfg 1 True sample_stream 0") auto
  have r: "questions_raw sample_quiz_cfg = Inr ?qs" by code_simp
  have sup: "supported_ids ?qs = [0, 2, 3, 4]" and req: "required_ids ?qs = [2]" by code_simp+
  have pos: "position_of 1 (sd_member_order ?draw) = Some 0" by code_simp
  from retry_keeps_part_size [OF f _ pos r] f show ?thesis by (simp add: sup req Let_def)
qed

end
