(* ===== verification/QuizClock.thy ===== *)
theory QuizClock
  imports QuizScoring
begin

text \<open>
  The clocks of a quiz attempt (\<open>routes/student_quiz.py\<close>, \<open>_open_pause_seconds\<close> to
  \<open>_advance_expired\<close>): the attempt-wide limit, the per-question windows of a stepped attempt,
  and the pause that stops both during an air raid.

  An instant is a count of microseconds, \<open>total_seconds()\<close> the rational number of seconds it
  denotes. A request reads the clock once: \<open>now\<close> stands for every \<open>_utcnow()\<close> of it.
\<close>

definition QUESTION_GRACE_SECONDS :: int where
  "QUESTION_GRACE_SECONDS = 5"

definition seconds :: "int \<Rightarrow> rat" where
  "seconds us = of_int us / 1000000"

definition timedelta :: "rat \<Rightarrow> int" where
  "timedelta s = py_round (s * 1000000)"

lemma timedelta_seconds [simp]: "timedelta (seconds us) = us"
  by (simp add: timedelta_def seconds_def)

lemma timedelta_of_int [simp]: "timedelta (of_int n) = n * 1000000"
proof -
  have "timedelta (of_int n) = py_round (of_int (n * 1000000))" by (simp add: timedelta_def)
  then show ?thesis by (simp only: py_round_of_int)
qed

lemma timedelta_numeral [simp]: "timedelta (numeral n) = numeral n * 1000000" "timedelta 0 = 0"
  using timedelta_of_int [of "numeral n"] timedelta_of_int [of 0] by simp_all

lemma seconds_diff: "seconds (a - b) = seconds a - seconds b"
  by (simp add: seconds_def diff_divide_distrib)

lemma seconds_add: "seconds (a + b) = seconds a + seconds b"
  by (simp add: seconds_def add_divide_distrib)

lemma seconds_of_seconds [simp]: "seconds (n * 1000000) = of_int n"
  by (simp add: seconds_def)

lemma seconds_mono: "a \<le> b \<Longrightarrow> seconds a \<le> seconds b"
  by (simp add: seconds_def divide_right_mono)

lemma seconds_nonneg: "0 \<le> a \<Longrightarrow> 0 \<le> seconds a"
  by (simp add: seconds_def)

section \<open>Pauses\<close>

definition open_pause_seconds :: "int \<Rightarrow> quiz_attempt \<Rightarrow> rat" where
  "open_pause_seconds now attempt =
     (case att_paused_at attempt of None \<Rightarrow> 0 | Some paused_at \<Rightarrow> seconds (now - paused_at))"

definition effective_now :: "int \<Rightarrow> quiz_attempt \<Rightarrow> int" where
  "effective_now now attempt = now - timedelta (open_pause_seconds now attempt)"

definition close_open_pause :: "int \<Rightarrow> quiz_attempt \<Rightarrow> quiz_attempt \<times> int" where
  "close_open_pause now attempt =
     (if att_paused_at attempt = None then (attempt, 0)
      else
        let elapsed = py_trunc (open_pause_seconds now attempt) in
        (attempt\<lparr>att_paused_seconds := att_paused_seconds attempt + elapsed,
                 att_question_started_at :=
                   map_option (\<lambda>t. t + timedelta (of_int elapsed)) (att_question_started_at attempt),
                 att_paused_at := None\<rparr>,
         elapsed))"

section \<open>The attempt's clock\<close>

definition elapsed_seconds :: "int \<Rightarrow> quiz_attempt \<Rightarrow> rat" where
  "elapsed_seconds now attempt =
     seconds (effective_now now attempt - att_started_at attempt) - of_int (att_paused_seconds attempt)"

text \<open>\<open>int(violations.get("_time_penalty_seconds", 0))\<close>; only \<open>report_violation\<close> writes the
  key, always with an \<open>int\<close>.\<close>

fun violation_int :: "violation \<Rightarrow> int" where
  "violation_int (VCount n) = n"
| "violation_int (VFlag b) = (if b then 1 else 0)"
| "violation_int (VEvents _) = 0"

definition penalty_in :: "(string \<times> violation) list \<Rightarrow> int" where
  "penalty_in violations =
     (case map_of violations ''_time_penalty_seconds'' of Some v \<Rightarrow> violation_int v | None \<Rightarrow> 0)"

definition time_penalty :: "quiz_attempt \<Rightarrow> int" where
  "time_penalty attempt = penalty_in (att_violations attempt)"

text \<open>\<open>if not limit\<close>: no limit, or a limit of zero.\<close>

definition minutes_limit :: "quiz_attempt \<Rightarrow> int option" where
  "minutes_limit attempt =
     (case cs_time_limit_minutes (att_config_snapshot attempt) of
        Some n \<Rightarrow> if n = 0 then None else Some n
      | None \<Rightarrow> None)"

definition is_timed_out :: "int \<Rightarrow> quiz_attempt \<Rightarrow> bool" where
  "is_timed_out now attempt =
     (case minutes_limit attempt of
        None \<Rightarrow> False
      | Some limit \<Rightarrow> elapsed_seconds now attempt > of_int (limit * 60 - time_penalty attempt))"

definition seconds_remaining_from_violations ::
  "int \<Rightarrow> quiz_attempt \<Rightarrow> (string \<times> violation) list \<Rightarrow> int option"
where
  "seconds_remaining_from_violations now attempt violations =
     (case minutes_limit attempt of
        None \<Rightarrow> None
      | Some limit \<Rightarrow>
          Some (max 0 (py_trunc (of_int (limit * 60 - penalty_in violations) - elapsed_seconds now attempt))))"

definition seconds_remaining :: "int \<Rightarrow> quiz_attempt \<Rightarrow> int option" where
  "seconds_remaining now attempt =
     (case minutes_limit attempt of
        None \<Rightarrow> None
      | Some limit \<Rightarrow>
          Some (max 0 (py_trunc (of_int (limit * 60 - time_penalty attempt) - elapsed_seconds now attempt))))"

section \<open>The question's clock\<close>

definition is_stepped :: "quiz_attempt \<Rightarrow> bool" where
  "is_stepped attempt = cs_per_question_timing (att_config_snapshot attempt)"

definition current_question :: "quiz_attempt \<Rightarrow> question option" where
  "current_question attempt =
     (if att_current_index attempt \<ge> length (att_questions_snapshot attempt) then None
      else Some (att_questions_snapshot attempt ! att_current_index attempt))"

text \<open>\<open>question.get("time_limit_seconds")\<close> when it is neither absent nor zero.\<close>

definition window_of :: "question \<Rightarrow> int option" where
  "window_of q = (case q_time_limit_seconds q of Some n \<Rightarrow> if n = 0 then None else Some n | None \<Rightarrow> None)"

definition question_seconds_remaining :: "int \<Rightarrow> quiz_attempt \<Rightarrow> int option" where
  "question_seconds_remaining now attempt =
     (case current_question attempt of
        None \<Rightarrow> None
      | Some q \<Rightarrow>
          (case (window_of q, att_question_started_at attempt) of
             (Some limit, Some started) \<Rightarrow>
               Some (max 0 \<lceil>of_int limit - seconds (effective_now now attempt - started)\<rceil>)
           | _ \<Rightarrow> None))"

definition timed_out_answer :: "question \<Rightarrow> quiz_answer" where
  "timed_out_answer q =
     \<lparr>ans_question_id = q_id q, ans_answer = NoAnswer, ans_is_correct = Some False,
      ans_points_earned = Some 0, ans_timed_out = True\<rparr>"

definition record_timed_out :: "quiz_attempt \<Rightarrow> quiz_attempt" where
  "record_timed_out attempt =
     (case current_question attempt of
        None \<Rightarrow> attempt
      | Some q \<Rightarrow> attempt\<lparr>att_answers := att_answers attempt @ [timed_out_answer q]\<rparr>)"

text \<open>The body of the loop once the window of the current question has closed.\<close>

definition burn_question :: "int \<Rightarrow> int \<Rightarrow> quiz_attempt \<Rightarrow> quiz_attempt" where
  "burn_question limit started attempt =
     (record_timed_out attempt)
       \<lparr>att_current_index := att_current_index attempt + 1,
        att_question_started_at := Some (started + timedelta (of_int limit))\<rparr>"

function advance_loop :: "int \<Rightarrow> quiz_attempt \<Rightarrow> nat \<Rightarrow> quiz_attempt \<times> nat" where
  "advance_loop now attempt burned =
     (if att_current_index attempt < length (att_questions_snapshot attempt) then
        (case window_of (att_questions_snapshot attempt ! att_current_index attempt) of
           None \<Rightarrow> (attempt, burned)
         | Some limit \<Rightarrow>
             (case att_question_started_at attempt of
                None \<Rightarrow> (attempt\<lparr>att_question_started_at := Some now\<rparr>, burned)
              | Some started \<Rightarrow>
                  if seconds (now - started) \<le> of_int (limit + QUESTION_GRACE_SECONDS)
                  then (attempt, burned)
                  else advance_loop now (burn_question limit started attempt) (Suc burned)))
      else (attempt, burned))"
  by pat_completeness auto
termination
  by (relation "measure (\<lambda>(now, a, b). length (att_questions_snapshot a) - att_current_index a)")
    (auto simp: burn_question_def record_timed_out_def split: option.splits)

declare advance_loop.simps [simp del]

definition advance_expired :: "int \<Rightarrow> quiz_attempt \<Rightarrow> quiz_attempt \<times> nat" where
  "advance_expired now attempt =
     (if att_paused_at attempt \<noteq> None then (attempt, 0)
      else advance_loop (effective_now now attempt) attempt 0)"


section \<open>What the loop burns\<close>

text \<open>The windows of the next \<open>n\<close> questions, in seconds, and the attempt once these questions
  are burned: an empty answer each, and the next window opening when the last one closed.\<close>

definition windows :: "quiz_attempt \<Rightarrow> nat \<Rightarrow> int" where
  "windows a n =
     sum_list (map (\<lambda>q. case window_of q of Some l \<Rightarrow> l | None \<Rightarrow> 0)
       (take n (drop (att_current_index a) (att_questions_snapshot a))))"

definition burned_state :: "quiz_attempt \<Rightarrow> nat \<Rightarrow> int \<Rightarrow> quiz_attempt" where
  "burned_state a n started =
     a\<lparr>att_answers := att_answers a @
          map timed_out_answer (take n (drop (att_current_index a) (att_questions_snapshot a))),
       att_current_index := att_current_index a + n,
       att_question_started_at := Some (started + windows a n * 1000000)\<rparr>"

text \<open>The window of the question the attempt is on, when its clock runs, is still open.\<close>

definition window_open :: "int \<Rightarrow> quiz_attempt \<Rightarrow> bool" where
  "window_open now a \<longleftrightarrow>
     (case current_question a of
        None \<Rightarrow> True
      | Some q \<Rightarrow>
          (case (window_of q, att_question_started_at a) of
             (Some l, Some s) \<Rightarrow> seconds (now - s) \<le> of_int (l + QUESTION_GRACE_SECONDS)
           | (Some l, None) \<Rightarrow> False
           | (None, _) \<Rightarrow> True))"

lemma windows_0 [simp]: "windows a 0 = 0"
  by (simp add: windows_def)

lemma burned_state_0 [simp]: "att_question_started_at a = Some t \<Longrightarrow> burned_state a 0 t = a"
  by (simp add: burned_state_def)

lemma burn_question_fields:
  assumes "att_current_index a < length (att_questions_snapshot a)"
  shows "burn_question l s a =
    a\<lparr>att_answers := att_answers a @ [timed_out_answer (att_questions_snapshot a ! att_current_index a)],
      att_current_index := att_current_index a + 1,
      att_question_started_at := Some (s + l * 1000000)\<rparr>"
  using assms by (simp add: burn_question_def record_timed_out_def current_question_def)

lemma burned_state_Suc:
  assumes "att_current_index a < length (att_questions_snapshot a)"
    and "window_of (att_questions_snapshot a ! att_current_index a) = Some l"
  shows "burned_state (burn_question l s a) n (s + l * 1000000) = burned_state a (Suc n) s"
    and "windows a (Suc n) = l + windows (burn_question l s a) n"
proof -
  have d: "drop (att_current_index a) (att_questions_snapshot a) =
      att_questions_snapshot a ! att_current_index a # drop (Suc (att_current_index a)) (att_questions_snapshot a)"
    using assms(1) by (simp add: Cons_nth_drop_Suc)
  show w: "windows a (Suc n) = l + windows (burn_question l s a) n"
    using assms(2) by (simp add: windows_def d burn_question_fields [OF assms(1)])
  show "burned_state (burn_question l s a) n (s + l * 1000000) = burned_state a (Suc n) s"
    unfolding burned_state_def w by (simp add: burn_question_fields [OF assms(1)] d algebra_simps)
qed

lemma advance_loop_spec:
  assumes "att_question_started_at a = Some s"
  shows "\<exists>n. advance_loop now a b = (burned_state a n s, b + n) \<and>
    n \<le> length (att_questions_snapshot a) - att_current_index a \<and>
    (\<forall>j < n. \<exists>l. window_of (att_questions_snapshot a ! (att_current_index a + j)) = Some l \<and>
       seconds (now - (s + windows a j * 1000000)) > of_int (l + QUESTION_GRACE_SECONDS)) \<and>
    window_open now (burned_state a n s)"
  using assms
proof (induction now a b arbitrary: s rule: advance_loop.induct)
  case (1 now a b)
  let ?q = "att_questions_snapshot a ! att_current_index a"
  note unroll = advance_loop.simps [of now a b]
  show ?case
  proof (cases "att_current_index a < length (att_questions_snapshot a)")
    case False
    then show ?thesis using "1.prems"
      by (intro exI [of _ 0]) (simp add: unroll window_open_def current_question_def)
  next
    case inside: True
    show ?thesis
    proof (cases "window_of ?q")
      case None
      then show ?thesis using "1.prems" inside
        by (intro exI [of _ 0]) (simp add: unroll window_open_def current_question_def)
    next
      case (Some l)
      show ?thesis
      proof (cases "seconds (now - s) \<le> of_int (l + QUESTION_GRACE_SECONDS)")
        case True
        then show ?thesis using "1.prems" inside Some
          by (intro exI [of _ 0]) (simp add: unroll window_open_def current_question_def)
      next
        case False
        let ?a = "burn_question l s a"
        have f: "att_question_started_at ?a = Some (s + l * 1000000)"
          "att_questions_snapshot ?a = att_questions_snapshot a" "att_current_index ?a = Suc (att_current_index a)"
          by (simp_all add: burn_question_fields [OF inside])
        from "1.IH" [OF inside Some "1.prems" False f(1)] obtain n
          where n: "advance_loop now ?a (Suc b) = (burned_state ?a n (s + l * 1000000), Suc b + n)"
            "n \<le> length (att_questions_snapshot a) - Suc (att_current_index a)"
            "\<forall>j < n. \<exists>l'. window_of (att_questions_snapshot a ! (Suc (att_current_index a) + j)) = Some l' \<and>
               seconds (now - (s + l * 1000000 + windows ?a j * 1000000)) > of_int (l' + QUESTION_GRACE_SECONDS)"
            "window_open now (burned_state ?a n (s + l * 1000000))"
          unfolding f by blast
        have "\<exists>l'. window_of (att_questions_snapshot a ! (att_current_index a + j)) = Some l' \<and>
               seconds (now - (s + windows a j * 1000000)) > of_int (l' + QUESTION_GRACE_SECONDS)" if "j < Suc n" for j
        proof (cases j)
          case 0
          then show ?thesis using Some False by simp
        next
          case (Suc i)
          then show ?thesis using n(3) that
            by (auto simp: burned_state_Suc(2) [OF inside Some, of i s] algebra_simps)
        qed
        then show ?thesis
          using n "1.prems" inside Some False burned_state_Suc(1) [OF inside Some, of s n]
          by (intro exI [of _ "Suc n"]) (simp add: unroll)
      qed
    qed
  qed
qed

lemma advance_loop_idle:
  assumes "window_open now a"
  shows "advance_loop now a b = (a, b)"
  using assms by (subst advance_loop.simps)
    (auto simp: window_open_def current_question_def split: option.splits)

lemma effective_now_running [simp]: "att_paused_at a = None \<Longrightarrow> effective_now now a = now"
  using timedelta_of_int [of 0] by (simp add: effective_now_def open_pause_seconds_def)

lemma effective_now_paused: "att_paused_at a = Some t \<Longrightarrow> effective_now now a = t"
  by (simp add: effective_now_def open_pause_seconds_def)


section \<open>Answers of a stepped attempt\<close>

text \<open>A stepped attempt has answered only questions before the one it is on.\<close>

definition stepped_ok :: "quiz_attempt \<Rightarrow> bool" where
  "stepped_ok a \<longleftrightarrow>
     answers_ok a \<and> att_current_index a \<le> length (att_questions_snapshot a) \<and>
     (\<forall>x \<in> set (att_answers a). ans_question_id x \<in> q_id ` set (take (att_current_index a) (att_questions_snapshot a)))"

lemma stepped_ok_next:
  assumes "stepped_ok a" and "att_current_index a < length (att_questions_snapshot a)"
    and "ans_question_id x = q_id (att_questions_snapshot a ! att_current_index a)"
    and "0 \<le> earned x" "earned x \<le> q_points (att_questions_snapshot a ! att_current_index a)"
    and "att_questions_snapshot a' = att_questions_snapshot a" "att_answers a' = att_answers a @ [x]"
    and "att_current_index a' = Suc (att_current_index a)"
  shows "stepped_ok a'"
proof -
  let ?qs = "att_questions_snapshot a" and ?i = "att_current_index a"
  have q: "?qs ! ?i \<in> set ?qs" using assms(2) by simp
  have dist: "distinct (map q_id ?qs)" using assms(1) by (simp add: stepped_ok_def answers_ok_def snapshot_ok_def)
  have tk: "take (Suc ?i) ?qs = take ?i ?qs @ [?qs ! ?i]" using assms(2) by (rule take_Suc_conv_app_nth)
  have "distinct (map q_id (take (Suc ?i) ?qs))" using distinct_take [OF dist] by (simp only: take_map)
  then have "q_id (?qs ! ?i) \<notin> q_id ` set (take ?i ?qs)" by (simp add: tk)
  then have new: "ans_question_id x \<notin> ans_question_id ` set (att_answers a)"
    using assms(1,3) by (auto simp: stepped_ok_def)
  have fit: "answer_fits ?qs x" using q assms(3-5) by (auto simp: answer_fits_def)
  show ?thesis
    using assms(1,2,6-8) new fit assms(3) unfolding stepped_ok_def answers_ok_def
    by (auto simp: tk simp del: take_Suc)
qed

lemma stepped_ok_burn:
  assumes "stepped_ok a" and "att_current_index a < length (att_questions_snapshot a)"
  shows "stepped_ok (burn_question l s a)"
proof (rule stepped_ok_next [OF assms])
  have "att_questions_snapshot a ! att_current_index a \<in> set (att_questions_snapshot a)" using assms(2) by simp
  then show "earned (timed_out_answer (att_questions_snapshot a ! att_current_index a)) \<le>
      q_points (att_questions_snapshot a ! att_current_index a)"
    using assms(1) by (simp add: stepped_ok_def answers_ok_def snapshot_ok_def earned_def timed_out_answer_def)
qed (simp_all add: burn_question_fields [OF assms(2)] timed_out_answer_def earned_def)

lemma stepped_ok_same:
  "att_questions_snapshot a' = att_questions_snapshot a \<Longrightarrow> att_answers a' = att_answers a \<Longrightarrow>
     att_current_index a' = att_current_index a \<Longrightarrow> stepped_ok a' = stepped_ok a"
  by (simp add: stepped_ok_def answers_ok_def)

lemma stepped_ok_advance_loop: "stepped_ok a \<Longrightarrow> stepped_ok (fst (advance_loop now a b))"
proof (induction now a b rule: advance_loop.induct)
  case (1 now a b)
  have anchor: "stepped_ok (a\<lparr>att_question_started_at := Some now\<rparr>)"
    using "1.prems" by (simp add: stepped_ok_def answers_ok_def)
  show ?case
    by (subst advance_loop.simps)
      (auto split: option.splits simp: anchor "1.prems" intro!: "1.IH" stepped_ok_burn)
qed

lemma stepped_ok_advance_expired: "stepped_ok a \<Longrightarrow> stepped_ok (fst (advance_expired now a))"
  by (simp add: advance_expired_def stepped_ok_advance_loop)


section \<open>Properties\<close>

definition sample_stepped :: quiz_attempt where
  "sample_stepped =
     (sample_attempt [(sample_question 1 2 True)\<lparr>q_time_limit_seconds := Some 30\<rparr>,
        (sample_question 2 3 True)\<lparr>q_time_limit_seconds := Some 10\<rparr>,
        (sample_question 3 3 True)\<lparr>q_time_limit_seconds := Some 20\<rparr>] [] [])
       \<lparr>att_question_started_at := Some 0\<rparr>"

text \<open>C23. A stepped attempt loses exactly the questions whose window, with the grace, closed while
  the student was away: each of them gets an empty answer worth nothing, each window is measured
  from the end of the one before, and the question the attempt is left on (if any) has no limit
  or is still open. Asking again at the same instant burns nothing more, and the answers stay
  well-formed.\<close>

theorem expired_questions_are_burned:
  assumes "advance_expired now a = (a', n)" and "att_paused_at a = None"
    and "att_question_started_at a = Some started" and "stepped_ok a"
  shows "a' = burned_state a n started \<and>
    (\<forall>j < n. \<exists>l. window_of (att_questions_snapshot a ! (att_current_index a + j)) = Some l \<and>
       seconds (now - (started + windows a j * 1000000)) > of_int (l + QUESTION_GRACE_SECONDS)) \<and>
    window_open now a' \<and> advance_expired now a' = (a', 0) \<and> stepped_ok a'"
proof -
  have run: "advance_loop now a 0 = (a', n)" using assms(1,2) by (simp add: advance_expired_def)
  have p: "att_paused_at (burned_state a n started) = None" using assms(2) by (simp add: burned_state_def)
  from advance_loop_spec [OF assms(3), of now 0] run
  have spec: "a' = burned_state a n started"
    "\<forall>j < n. \<exists>l. window_of (att_questions_snapshot a ! (att_current_index a + j)) = Some l \<and>
       seconds (now - (started + windows a j * 1000000)) > of_int (l + QUESTION_GRACE_SECONDS)"
    "window_open now a'" by auto
  then have "advance_expired now a' = (a', 0)"
    using p by (simp add: advance_expired_def advance_loop_idle)
  moreover have "stepped_ok a'" using stepped_ok_advance_loop [OF assms(4), of now 0] run by simp
  ultimately show ?thesis using spec by blast
qed

theorem expired_questions_are_burned_witness:
  "\<exists>a'. advance_expired 48000000 sample_stepped = (a', 2) \<and> stepped_ok a' \<and> att_current_index a' = 2 \<and>
     map ans_timed_out (att_answers a') = [True, True] \<and> att_question_started_at a' = Some 40000000"
proof -
  define a' where "a' = fst (advance_expired 48000000 sample_stepped)"
  have "advance_expired 48000000 sample_stepped = (burned_state sample_stepped 2 0, 2)"
    by (simp add: advance_expired_def sample_stepped_def sample_defs advance_loop.simps window_of_def
        burn_question_def record_timed_out_def current_question_def seconds_def QUESTION_GRACE_SECONDS_def
        burned_state_def windows_def)
  moreover have "stepped_ok sample_stepped"
    by (simp add: stepped_ok_def answers_ok_def snapshot_ok_def sample_stepped_def sample_defs)
  moreover have "att_paused_at sample_stepped = None" "att_question_started_at sample_stepped = Some 0"
    by (simp_all add: sample_stepped_def sample_defs)
  ultimately show ?thesis
    using expired_questions_are_burned [of 48000000 sample_stepped "burned_state sample_stepped 2 0" 2 0]
    by (intro exI [of _ "burned_state sample_stepped 2 0"])
      (simp add: burned_state_def windows_def sample_stepped_def sample_defs timed_out_answer_def window_of_def)
qed

text \<open>C24. An air-raid pause takes no quiz time. While it is open every clock of the attempt stands
  at the moment of the pause; after it is closed the attempt's clock and the question's clock run
  on from where they stood, ahead by the fraction of a second the pause lasted beyond a whole
  number of seconds, and never behind.\<close>

theorem pause_stops_the_clocks:
  assumes "att_paused_at a = Some paused" and "paused \<le> now" and "now \<le> later"
    and "close_open_pause now a = (a', n)"
  shows "elapsed_seconds now a = elapsed_seconds paused (a\<lparr>att_paused_at := None\<rparr>) \<and>
    question_seconds_remaining now a = question_seconds_remaining paused (a\<lparr>att_paused_at := None\<rparr>) \<and>
    elapsed_seconds later a' = elapsed_seconds now a + seconds (later - now) + frac (seconds (now - paused)) \<and>
    att_question_started_at a' =
      map_option (\<lambda>s. s + (now - paused) - timedelta (frac (seconds (now - paused)))) (att_question_started_at a) \<and>
    n = \<lfloor>seconds (now - paused)\<rfloor> \<and> att_paused_at a' = None"
proof -
  let ?p = "seconds (now - paused)"
  have nn: "0 \<le> ?p" using assms(2) by (intro seconds_nonneg) simp
  have fr: "?p = of_int \<lfloor>?p\<rfloor> + frac ?p" by (simp add: frac_def)
  have n: "n = \<lfloor>?p\<rfloor>" and a': "a' = a\<lparr>att_paused_seconds := att_paused_seconds a + \<lfloor>?p\<rfloor>,
      att_question_started_at := map_option (\<lambda>t. t + \<lfloor>?p\<rfloor> * 1000000) (att_question_started_at a),
      att_paused_at := None\<rparr>"
    using assms(1,4) nn by (auto simp: close_open_pause_def open_pause_seconds_def py_trunc_def Let_def)
  have still: "elapsed_seconds now a = elapsed_seconds paused (a\<lparr>att_paused_at := None\<rparr>)"
    by (simp add: elapsed_seconds_def effective_now_paused [OF assms(1)])
  have q: "question_seconds_remaining now a = question_seconds_remaining paused (a\<lparr>att_paused_at := None\<rparr>)"
    unfolding question_seconds_remaining_def effective_now_paused [OF assms(1)]
    by (simp add: current_question_def split: option.split)
  have run: "elapsed_seconds later a' = elapsed_seconds now a + seconds (later - now) + frac ?p"
  proof -
    have "elapsed_seconds later a' = seconds (later - att_started_at a) - of_int (att_paused_seconds a) - of_int \<lfloor>?p\<rfloor>"
      by (simp add: elapsed_seconds_def a')
    moreover have "elapsed_seconds now a = seconds (paused - att_started_at a) - of_int (att_paused_seconds a)"
      by (simp add: elapsed_seconds_def effective_now_paused [OF assms(1)])
    moreover have "seconds (later - att_started_at a) = seconds (paused - att_started_at a) + ?p + seconds (later - now)"
      by (simp add: seconds_diff)
    ultimately show ?thesis using fr by simp
  qed
  have "timedelta (frac ?p) = now - paused - \<lfloor>?p\<rfloor> * 1000000"
  proof -
    have "frac ?p = seconds (now - paused - \<lfloor>?p\<rfloor> * 1000000)"
      unfolding seconds_diff [of "now - paused"] seconds_of_seconds by (simp add: frac_def)
    then show ?thesis by (simp only: timedelta_seconds)
  qed
  then have "att_question_started_at a' =
      map_option (\<lambda>s. s + (now - paused) - timedelta (frac ?p)) (att_question_started_at a)"
    by (cases "att_question_started_at a") (simp_all add: a')
  with still q run n a' show ?thesis by simp
qed

theorem pause_stops_the_clocks_witness:
  "\<exists>a'. close_open_pause 90500000 (sample_stepped\<lparr>att_paused_at := Some 20000000\<rparr>) = (a', 70) \<and>
     elapsed_seconds 90500000 a' = 41 / 2 \<and> att_question_started_at a' = Some 70000000"
proof -
  let ?a = "sample_stepped\<lparr>att_paused_at := Some 20000000\<rparr>"
  have fl: "\<lfloor>141 / 2 :: rat\<rfloor> = 70" by (simp add: floor_eq_iff)
  have c: "close_open_pause 90500000 ?a = (?a\<lparr>att_paused_seconds := 70, att_question_started_at := Some 70000000,
      att_paused_at := None\<rparr>, 70)"
    by (simp add: close_open_pause_def open_pause_seconds_def seconds_def sample_stepped_def sample_defs
        py_trunc_def fl)
  have e: "elapsed_seconds 90500000 ?a = 20"
    by (simp add: elapsed_seconds_def effective_now_def open_pause_seconds_def sample_stepped_def sample_defs)
       (simp add: seconds_def)
  have "frac (141 / 2 :: rat) = 1 / 2" by (simp add: frac_def fl)
  moreover have "att_paused_at ?a = Some 20000000" by simp
  note pause_stops_the_clocks [OF this _ _ c, of 90500000, simplified e]
  ultimately show ?thesis using c
    by (intro exI [of _ "?a\<lparr>att_paused_seconds := 70, att_question_started_at := Some 70000000, att_paused_at := None\<rparr>"])
       (auto simp: seconds_def)
qed

text \<open>The countdown a page shows is the whole seconds left of the attempt's limit, after the
  penalties and without the pauses, and stands at zero once the attempt is timed out.\<close>

theorem countdown_is_time_left:
  assumes "minutes_limit a = Some limit"
  shows "\<exists>r. seconds_remaining now a = Some r \<and> seconds_remaining_from_violations now a (att_violations a) = Some r \<and>
    0 \<le> r \<and> (is_timed_out now a \<longrightarrow> r = 0) \<and>
    (\<not> is_timed_out now a \<longrightarrow>
       of_int r \<le> of_int (limit * 60 - time_penalty a) - elapsed_seconds now a \<and>
       of_int (limit * 60 - time_penalty a) - elapsed_seconds now a < of_int r + 1)"
proof -
  let ?left = "of_int (limit * 60 - time_penalty a) - elapsed_seconds now a"
  have r: "seconds_remaining now a = Some (max 0 (py_trunc ?left))"
    "seconds_remaining_from_violations now a (att_violations a) = Some (max 0 (py_trunc ?left))"
    using assms by (simp_all add: seconds_remaining_def seconds_remaining_from_violations_def time_penalty_def)
  have t: "is_timed_out now a \<longleftrightarrow> ?left < 0" using assms by (auto simp: is_timed_out_def)
  show ?thesis
  proof (cases "?left < 0")
    case True
    then have "py_trunc ?left \<le> 0" by (simp add: py_trunc_def ceiling_le_iff)
    with r t True show ?thesis by (intro exI [of _ 0]) simp
  next
    case False
    then have "py_trunc ?left = \<lfloor>?left\<rfloor>" "0 \<le> \<lfloor>?left\<rfloor>" by (simp_all add: py_trunc_def)
    moreover have "of_int \<lfloor>?left\<rfloor> \<le> ?left" "?left < of_int \<lfloor>?left\<rfloor> + 1" by linarith+
    ultimately show ?thesis using r t False by (intro exI [of _ "\<lfloor>?left\<rfloor>"]) simp
  qed
qed

theorem countdown_is_time_left_witness:
  "(let a = (sample_attempt [] [] [(''_time_penalty_seconds'', VCount 60)])
              \<lparr>att_config_snapshot := (att_config_snapshot (sample_attempt [] [] []))\<lparr>cs_time_limit_minutes := Some 2\<rparr>\<rparr>
    in seconds_remaining 1000000 a = Some 59 \<and> \<not> is_timed_out 1000000 a)"
proof -
  let ?a = "(sample_attempt [] [] [(''_time_penalty_seconds'', VCount 60)])
              \<lparr>att_config_snapshot := (att_config_snapshot (sample_attempt [] [] []))\<lparr>cs_time_limit_minutes := Some 2\<rparr>\<rparr>"
  have m: "minutes_limit ?a = Some 2" by (simp add: minutes_limit_def sample_defs)
  have e: "elapsed_seconds 1000000 ?a = 1"
    by (simp add: elapsed_seconds_def sample_defs effective_now_def open_pause_seconds_def)
       (simp add: seconds_def)
  have p: "time_penalty ?a = 60" by (simp add: time_penalty_def penalty_in_def sample_defs)
  have t: "\<not> is_timed_out 1000000 ?a" using m e p by (simp add: is_timed_out_def)
  from countdown_is_time_left [OF m, of 1000000] t e p obtain r where
    "seconds_remaining 1000000 ?a = Some r" "of_int r \<le> (59 :: rat)" "(59 :: rat) < of_int r + 1" by auto
  moreover from this have "\<lfloor>59 :: rat\<rfloor> = r" by (simp only: floor_eq_iff)
  ultimately show ?thesis using t by (simp add: Let_def)
qed

end
