(* ===== verification/ReviewQueue.thy ===== *)
theory ReviewQueue
  imports Models
begin

text \<open>
  Who is told that a submission waits for a teacher (\<open>workers/tasks/notification_tasks.py\<close>):
  the owner of the subject, or every active admin when there is none; the queue of review
  notifications, one row per teacher and submission; the bell for a reported question.
\<close>

definition owner_of_submission :: "db \<Rightarrow> int \<Rightarrow> int option" where
  "owner_of_submission d submission_id =
     Option.bind (get_submission d submission_id) (\<lambda>sub.
     Option.bind (get_sa d (sub_students_assignment_id sub)) (\<lambda>sa.
     Option.bind (get_assignment d (sa_subjects_assignment_id sa)) (\<lambda>asg.
     Option.bind (get_subject d (asg_subject_id asg)) subj_owner_id)))"

definition resolve_review_recipients :: "db \<Rightarrow> int \<Rightarrow> user list" where
  "resolve_review_recipients d submission_id =
     (let admins = filter (\<lambda>u. usr_role u = ADMIN \<and> usr_is_active u) (db_users d) in
      case owner_of_submission d submission_id of
        None \<Rightarrow> admins
      | Some owner_id \<Rightarrow>
          (case find (\<lambda>u. usr_id u = owner_id \<and> usr_is_active u) (db_users d) of
             Some u \<Rightarrow> [u]
           | None \<Rightarrow> admins))"

text \<open>\<open>INSERT ... ON CONFLICT DO NOTHING\<close> under the unique constraint on (teacher, submission).\<close>

definition queued :: "db \<Rightarrow> int \<Rightarrow> int \<Rightarrow> bool" where
  "queued d teacher_id submission_id =
     list_ex (\<lambda>r. tq_teacher_id r = teacher_id \<and> tq_submission_id r = submission_id) (db_queue d)"

definition queue_row :: "int \<Rightarrow> user \<Rightarrow> db \<Rightarrow> db" where
  "queue_row submission_id u d =
     (if queued d (usr_id u) submission_id then d
      else d\<lparr>db_queue := db_queue d @
        [\<lparr>tq_teacher_id = usr_id u, tq_submission_id = submission_id, tq_sent_at = None\<rparr>]\<rparr>)"

definition enqueue_teacher_review_notification :: "int \<Rightarrow> db \<Rightarrow> db" where
  "enqueue_teacher_review_notification submission_id d =
     fold (queue_row submission_id) (resolve_review_recipients d submission_id) d"

definition excerpt_of :: "string \<Rightarrow> string" where
  "excerpt_of text = (if length text \<le> 120 then text else take 117 text @ ''...'')"

definition push_dispute_notifications :: "int \<Rightarrow> int \<Rightarrow> string \<Rightarrow> string \<Rightarrow> db \<Rightarrow> db" where
  "push_dispute_notifications submission_id dispute_id question_text student_name d =
     fold (\<lambda>u. push_notification (usr_id u) ''Quiz question reported''
              [(''student'', student_name), (''excerpt'', excerpt_of question_text)]
              (''/teacher/disputes/'' @ str_of_int dispute_id))
       (resolve_review_recipients d submission_id) d"

section \<open>The queue\<close>

lemma resolve_review_recipients_cong:
  "db_submissions d' = db_submissions d \<Longrightarrow> db_sas d' = db_sas d \<Longrightarrow> db_assignments d' = db_assignments d \<Longrightarrow>
   db_subjects d' = db_subjects d \<Longrightarrow> db_users d' = db_users d \<Longrightarrow>
     resolve_review_recipients d' i = resolve_review_recipients d i"
  by (simp add: resolve_review_recipients_def owner_of_submission_def row_access_defs Let_def split: option.split)

lemma queue_row_only: "queue_row i u d = d\<lparr>db_queue := db_queue (queue_row i u d)\<rparr>"
  by (simp add: queue_row_def)

lemma fold_queue_only: "\<exists>q. fold (queue_row i) us d = d\<lparr>db_queue := q\<rparr>"
proof (induction us arbitrary: d)
  case Nil
  have "fold (queue_row i) [] d = d\<lparr>db_queue := db_queue d\<rparr>" by simp
  then show ?case by blast
next
  case (Cons u us)
  obtain q where "fold (queue_row i) us (queue_row i u d) = (queue_row i u d)\<lparr>db_queue := q\<rparr>"
    using Cons.IH by blast
  then show ?case by (subst (asm) (2) queue_row_only) auto
qed

lemma enqueue_only:
  "enqueue_teacher_review_notification i d = d\<lparr>db_queue := db_queue (enqueue_teacher_review_notification i d)\<rparr>"
proof -
  obtain q where "enqueue_teacher_review_notification i d = d\<lparr>db_queue := q\<rparr>"
    using fold_queue_only [of i] by (auto simp: enqueue_teacher_review_notification_def)
  then show ?thesis by simp
qed

text \<open>Asking for a teacher's review leaves one row for each teacher responsible, queued now or before, and
  keeps every row there was; a row that was already sent is not queued again.\<close>

lemma queued_queue_row: "queued (queue_row i u d) t j \<longleftrightarrow> queued d t j \<or> t = usr_id u \<and> j = i"
  by (auto simp: queue_row_def queued_def)

lemma queued_enqueue:
  "queued (enqueue_teacher_review_notification i d) t j \<longleftrightarrow>
     queued d t j \<or> j = i \<and> t \<in> usr_id ` set (resolve_review_recipients d i)"
proof -
  have "queued (fold (queue_row i) us d) t j \<longleftrightarrow> queued d t j \<or> j = i \<and> t \<in> usr_id ` set us" for us
    by (induction us arbitrary: d) (auto simp: queued_queue_row)
  then show ?thesis by (simp add: enqueue_teacher_review_notification_def)
qed

lemma enqueue_again:
  assumes "\<forall>u \<in> set (resolve_review_recipients d i). queued d (usr_id u) i"
  shows "enqueue_teacher_review_notification i d = d"
proof -
  have "fold (queue_row i) us d = d" if "\<forall>u \<in> set us. queued d (usr_id u) i" for us
    using that by (induction us) (auto simp: queue_row_def)
  with assms show ?thesis by (simp add: enqueue_teacher_review_notification_def)
qed

end
