(* ===== verification/QuizAttempts.thy ===== *)
theory QuizAttempts
  imports QuizOpen QuizClock ReviewQueue
begin

text \<open>
  Answering and finishing an attempt (\<open>routes/student_quiz.py\<close>, \<open>_grade_answer\<close> to
  \<open>_notify_partners_passed\<close>): the grading of one answer of every question type, and
  \<open>_grade_and_finalize\<close>, which scores the attempt, closes it and moves its submission.

  The attempt is the object the session holds: it is the argument, and \<open>put_attempt\<close> is the flush
  that writes it. A form field is text; a multiple choice sends a list of them.
\<close>

section \<open>Grading one answer\<close>

datatype raw_answer = RawText string | RawList "string list"

fun split_on :: "char \<Rightarrow> string \<Rightarrow> string list" where
  "split_on c [] = [[]]"
| "split_on c (x # xs) =
     (if x = c then [] # split_on c xs
      else case split_on c xs of w # ws \<Rightarrow> (x # w) # ws | [] \<Rightarrow> [[x]])"

definition lower_char :: "char \<Rightarrow> char" where
  "lower_char c = (if 65 \<le> (of_char c :: nat) \<and> (of_char c :: nat) \<le> 90 then char_of ((of_char c :: nat) + 32) else c)"

text \<open>\<open>[int(v) for v in values]\<close>, or nothing as soon as one of them is no integer.\<close>

definition parse_all :: "string list \<Rightarrow> int list" where
  "parse_all vs = (if list_all (\<lambda>v. parse_int v \<noteq> None) vs then map (the \<circ> parse_int) vs else [])"

text \<open>\<open>_grade_answer\<close>. A list reaches only a multiple choice; the other types would read its
  \<open>str\<close>, which is no integer, no list of integers and not \<open>true\<close>.\<close>

definition grade_answer :: "question \<Rightarrow> raw_answer \<Rightarrow> answer_value \<times> bool \<times> int" where
  "grade_answer q raw =
     (let award = (\<lambda>v ok. (v, ok, if ok then q_points q else 0)) in
      case q_body q of
        SingleChoice _ c \<Rightarrow>
          (case (case raw of RawText s \<Rightarrow> parse_int s | RawList _ \<Rightarrow> None) of
             None \<Rightarrow> (Selected None, False, 0)
           | Some selected \<Rightarrow> award (Selected (Some selected)) (selected = c))
      | MultipleChoice _ cs \<Rightarrow>
          let values = (case raw of RawList vs \<Rightarrow> vs | RawText s \<Rightarrow> if s = '''' then [] else [s]);
              selected = sort (parse_all values)
          in award (SelectedMany selected) (selected = sort cs)
      | Ordering _ order \<Rightarrow>
          let order' = (case raw of
                RawText s \<Rightarrow> parse_all (filter (\<lambda>x. x \<noteq> '''') (map py_strip (split_on (CHR '','') s)))
              | RawList _ \<Rightarrow> [])
          in award (Ordered order') (order' = order)
      | TrueFalse b \<Rightarrow>
          let v = (case raw of RawText s \<Rightarrow> map lower_char s = ''true'' | RawList _ \<Rightarrow> False)
          in award (TruthValue v) (v = b)
      | OtherType _ \<Rightarrow> (RawValue (case raw of RawText s \<Rightarrow> s | RawList _ \<Rightarrow> ''''), False, 0))"

section \<open>Form fields\<close>

type_synonym form = "(string \<times> string) list"

text \<open>\<open>form.get\<close> returns the last value of a repeated field, \<open>form.getlist\<close> all of them.\<close>

definition form_get :: "form \<Rightarrow> string \<Rightarrow> string \<Rightarrow> string" where
  "form_get form k dflt = (case map_of (rev form) k of Some v \<Rightarrow> v | None \<Rightarrow> dflt)"

definition form_getlist :: "form \<Rightarrow> string \<Rightarrow> string list" where
  "form_getlist form k = map snd (filter (\<lambda>e. fst e = k) form)"

definition raw_for :: "form \<Rightarrow> question \<Rightarrow> raw_answer" where
  "raw_for form q =
     (case q_body q of
        MultipleChoice _ _ \<Rightarrow> RawList (form_getlist form (''answer_'' @ str_of_int (q_id q)))
      | Ordering _ _ \<Rightarrow> RawText (form_get form (''answer_ordering_'' @ str_of_int (q_id q)) '''')
      | _ \<Rightarrow> RawText (form_get form (''answer_'' @ str_of_int (q_id q)) ''''))"

definition graded_answer :: "form \<Rightarrow> question \<Rightarrow> quiz_answer" where
  "graded_answer form q =
     (case grade_answer q (raw_for form q) of
        (v, ok, pts) \<Rightarrow>
          \<lparr>ans_question_id = q_id q, ans_answer = v, ans_is_correct = Some ok,
           ans_points_earned = Some pts, ans_timed_out = False\<rparr>)"

section \<open>Finishing an attempt\<close>

definition put_attempt :: "quiz_attempt \<Rightarrow> db \<Rightarrow> db" where
  "put_attempt a d = upd_attempt (att_id a) (\<lambda>_. a) d"

definition count_used_attempts :: "db \<Rightarrow> int \<Rightarrow> int \<Rightarrow> int option \<Rightarrow> nat" where
  "count_used_attempts d submission_id exclude_id student_id =
     length (filter (\<lambda>a. att_submission_id a = submission_id \<and>
         att_status a \<in> {Attempt_COMPLETED, Attempt_TIMED_OUT, Attempt_VIOLATION_FAIL} \<and>
         att_id a \<noteq> exclude_id \<and> (att_student_id a = student_id \<or> att_student_id a = None))
       (db_attempts d))"

definition notify_partners_passed :: "submission \<Rightarrow> int option \<Rightarrow> db \<Rightarrow> db" where
  "notify_partners_passed sub student_id d =
     (let states = member_quiz_states d sub in
      case find (\<lambda>m. Some (mq_student_id m) = student_id) states of
        None \<Rightarrow> d
      | Some me \<Rightarrow>
          fold (\<lambda>m d'. if Some (mq_student_id m) = student_id then d'
                       else case user_of_student d' (mq_student_id m) of
                              None \<Rightarrow> d'
                            | Some user_id \<Rightarrow>
                                push_notification user_id ''notif_partner_passed_title''
                                  [(''name'', mq_full_name me)] ''/portal'' d')
            states d)"

datatype finalize_error = FinalizeExn py_exn | FinalizeTransition transition_error

text \<open>\<open>transition(submission, event)\<close> on the stored submission.\<close>

definition fire :: "string \<Rightarrow> submission \<Rightarrow> db \<Rightarrow> finalize_error + db" where
  "fire event sub d =
     (case transition (sub_status sub) event of
        Inl e \<Rightarrow> Inl (FinalizeTransition e)
      | Inr st \<Rightarrow> Inr (store_submission (sub\<lparr>sub_status := st\<rparr>) d))"

definition finalize_stored :: "int \<Rightarrow> db \<Rightarrow> finalize_error + db" where
  "finalize_stored submission_id d = map_sum FinalizeExn fst (finalize_grade submission_id d)"

definition complete_now :: "submission \<Rightarrow> db \<Rightarrow> finalize_error + db" where
  "complete_now sub d =
     bind_result (fire ''quiz_passed'' sub d) (\<lambda>d'. finalize_stored (sub_id sub) d')"

definition hand_to_teacher :: "submission \<Rightarrow> db \<Rightarrow> finalize_error + db" where
  "hand_to_teacher sub d =
     bind_result (fire ''quiz_passed_teacher'' sub d) (\<lambda>d'.
       Inr (enqueue_teacher_review_notification (sub_id sub) d'))"

text \<open>The branch of a passing attempt; \<open>d\<close> holds the flushed attempt.\<close>

definition quiz_is_passed :: "quiz_attempt \<Rightarrow> submission \<Rightarrow> db \<Rightarrow> finalize_error + db" where
  "quiz_is_passed attempt sub d =
     (if quiz_complete d sub then
        if is_scored_submission d sub then
          bind_result (map_sum FinalizeExn id (scores_complete_for d sub)) (\<lambda>complete.
            if complete then complete_now sub d else hand_to_teacher sub d)
        else if cs_review_mode (att_config_snapshot attempt) = JStr ''quiz_then_teacher''
        then hand_to_teacher sub d
        else complete_now sub d
      else if sub_squad_id sub \<noteq> None
      then Inr (notify_partners_passed sub (att_student_id attempt) d)
      else Inr d)"

text \<open>The branch of a failing attempt. The query excludes the attempt's own row, so it makes no
  difference whether the attempt has been flushed.\<close>

definition quiz_is_failed :: "quiz_attempt \<Rightarrow> submission \<Rightarrow> db \<Rightarrow> finalize_error + (db \<times> int option)" where
  "quiz_is_failed attempt sub d =
     (case effective_max_attempts (cs_max_quiz_attempts (att_config_snapshot attempt)) sub (att_student_id attempt) of
        None \<Rightarrow> Inr (d, None)
      | Some max_attempts \<Rightarrow>
          let prior = int (count_used_attempts d (att_submission_id attempt) (att_id attempt) (att_student_id attempt)) in
          if prior + 1 \<ge> max_attempts
          then bind_result (fire ''quiz_failed'' sub d) (\<lambda>d'. Inr (d', Some 0))
          else Inr (d, Some (max_attempts - (prior + 1))))"

definition settle_submission :: "quiz_attempt \<Rightarrow> bool \<Rightarrow> db \<Rightarrow> finalize_error + (db \<times> int option)" where
  "settle_submission attempt is_passed d =
     (case get_submission d (att_submission_id attempt) of
        None \<Rightarrow> Inr (d, None)
      | Some sub \<Rightarrow>
          if sub_status sub \<noteq> QUIZ_SENT then Inr (d, None)
          else if is_passed then map_sum id (\<lambda>d'. (d', None)) (quiz_is_passed attempt sub d)
          else quiz_is_failed attempt sub d)"

definition opt_json :: "int option \<Rightarrow> json" where
  "opt_json x = (case x of Some n \<Rightarrow> JInt n | None \<Rightarrow> JNull)"

definition result_payload :: "quiz_attempt \<Rightarrow> int \<Rightarrow> int \<Rightarrow> bool \<Rightarrow> int option \<Rightarrow> pydict" where
  "result_payload attempt score max_score is_passed attempts_left =
     [(''submission_id'', JInt (att_submission_id attempt)), (''attempt_id'', JInt (att_id attempt)),
      (''score'', JInt score), (''max_score'', JInt max_score), (''is_passed'', JBool is_passed),
      (''attempts_left'', opt_json attempts_left), (''student_id'', opt_json (att_student_id attempt))]"

text \<open>The attempt as it is stored: credited, scored, closed.\<close>

definition closed_attempt ::
  "int \<Rightarrow> quiz_attempt_status \<Rightarrow> int list \<Rightarrow> quiz_attempt \<Rightarrow> quiz_attempt"
where
  "closed_attempt now status overrides attempt =
     (let credited = fst (apply_question_overrides attempt overrides);
          (score, max_score, is_passed, force_failed) = score_attempt credited
      in fst (close_open_pause now
           (credited\<lparr>att_score := Some score, att_max_score := Some max_score,
              att_is_passed := Some is_passed, att_submitted_at := Some now,
              att_status := (if force_failed then Attempt_VIOLATION_FAIL else status)\<rparr>)))"

definition grade_and_finalize ::
  "int \<Rightarrow> quiz_attempt \<Rightarrow> quiz_attempt_status \<Rightarrow> db \<Rightarrow> finalize_error + db"
where
  "grade_and_finalize now attempt status d =
     (let overrides = load_question_overrides d (att_plugin_config_id attempt) (att_plugin_config_version attempt);
          (score, max_score, is_passed, _) = score_attempt (fst (apply_question_overrides attempt overrides));
          closed = closed_attempt now status overrides attempt
      in
        bind_result (settle_submission closed is_passed (put_attempt closed d)) (\<lambda>(d', attempts_left).
          Inr (add_outbox QUIZ_RESULT (result_payload closed score max_score is_passed attempts_left) d')))"


section \<open>What grading leaves alone\<close>

definition statuses :: "db \<Rightarrow> (int \<times> submission_status) list" where
  "statuses d = map (\<lambda>s. (sub_id s, sub_status s)) (db_submissions d)"

text \<open>A submission without its grade; from \<open>d\<close> to \<open>d'\<close> only grades were written: assignments of
  students, breakdowns of submissions and the id counter.\<close>

definition ungraded :: "submission \<Rightarrow> submission" where
  "ungraded s = s\<lparr>sub_grade_breakdown := None\<rparr>"

definition grade_frame :: "db \<Rightarrow> db \<Rightarrow> bool" where
  "grade_frame d d' \<longleftrightarrow>
     d' = d\<lparr>db_sas := db_sas d', db_next := db_next d', db_submissions := db_submissions d'\<rparr> \<and>
     map ungraded (db_submissions d') = map ungraded (db_submissions d) \<and> db_next d \<le> db_next d'"

lemma ungraded_simps [simp]:
  "sub_id (ungraded s) = sub_id s" "sub_status (ungraded s) = sub_status s"
  "sub_source_metadata (ungraded s) = sub_source_metadata s"
  "ungraded (s\<lparr>sub_grade_breakdown := b\<rparr>) = ungraded s"
  by (simp_all add: ungraded_def)

lemma grade_frame_statuses:
  assumes "grade_frame d d'"
  shows "statuses d' = statuses d"
proof -
  have "statuses e = map (\<lambda>s. (sub_id s, sub_status s)) (map ungraded (db_submissions e))" for e
    by (simp add: statuses_def)
  moreover have "map ungraded (db_submissions d') = map ungraded (db_submissions d)"
    using assms by (simp add: grade_frame_def)
  ultimately show ?thesis by (simp only:)
qed

lemma grade_frame_refl [simp]: "grade_frame d d"
  by (simp add: grade_frame_def)

lemma grade_frame_trans: "grade_frame d d1 \<Longrightarrow> grade_frame d1 d2 \<Longrightarrow> grade_frame d d2"
  by (cases d; cases d1; cases d2) (simp add: grade_frame_def)

lemma grade_frame_set_grades: "grade_frame d (fold (set_grade g) is d)"
proof (induction "is" arbitrary: d)
  case Nil
  then show ?case by simp
next
  case (Cons i "is")
  have "grade_frame d (set_grade g i d)" by (simp add: grade_frame_def set_grade_def upd_sa_def)
  with Cons show ?case by (auto intro: grade_frame_trans)
qed

lemma grade_frame_members: "grade_frame d (snd (member_sa_ids_loop asg ms d))"
proof (induction asg ms d rule: member_sa_ids_loop.induct)
  case (1 asg d)
  then show ?case by simp
next
  case (2 asg m ms d)
  obtain i d1 where h: "(case find_sa d (mem_student_id m) asg of Some sa \<Rightarrow> (sa_id sa, d)
      | None \<Rightarrow> add_sa (mem_student_id m) asg d) = (i, d1)" by fastforce
  then have "grade_frame d d1" by (auto simp: add_sa_def grade_frame_def split: option.splits)
  with 2 [OF h [symmetric] refl] h show ?case by (auto simp: case_prod_unfold Let_def intro: grade_frame_trans)
qed

lemma grade_frame_store:
  assumes "store_grade sub sa asg body sq members g d = (d', bd)"
  shows "grade_frame d d'"
proof -
  obtain ids d1 where t: "(case sq of None \<Rightarrow> ([sa_id sa], d) | Some s \<Rightarrow> member_sa_ids (sq_id s) asg d) = (ids, d1)"
    by fastforce
  then have "grade_frame d d1"
    using grade_frame_members [of d asg] by (auto simp: member_sa_ids_def split: option.splits) (metis snd_conv)
  moreover have "grade_frame d1 (fold (set_grade g) ids d1)" by (rule grade_frame_set_grades)
  moreover have "grade_frame e (upd_submission i (\<lambda>r. r\<lparr>sub_grade_breakdown := b\<rparr>) e)" for e i b
    by (simp add: grade_frame_def upd_submission_def map_upd_row)
  ultimately show ?thesis using assms t
    by (auto simp: store_grade_def Let_def intro: grade_frame_trans)
qed

lemma grade_frame_finalize:
  assumes "finalize_grade i d = Inr (d', r)"
  shows "grade_frame d d'"
proof (cases r)
  case (Some bd)
  with assms show ?thesis by (auto elim!: finalize_grade_Some intro: grade_frame_store)
next
  case None
  have "d' = d"
    using assms unfolding None finalize_grade_def Let_def case_prod_unfold
    by (auto simp: bind_result_eq_Inr split: option.splits if_splits)
  then show ?thesis by simp
qed

lemma grade_frame_finalize_stored: "finalize_stored i d = Inr d' \<Longrightarrow> grade_frame d d'"
  by (auto simp: finalize_stored_def map_sum_eq_Inr dest: grade_frame_finalize)


section \<open>The status of the submission\<close>

definition status_in :: "db \<Rightarrow> int \<Rightarrow> submission_status option" where
  "status_in d i = map_option sub_status (get_submission d i)"

lemma status_in_statuses: "status_in d i = map_of (statuses d) i"
proof -
  have "map_option sub_status (get_row sub_id i t) = map_of (map (\<lambda>s. (sub_id s, sub_status s)) t) i" for t
    by (induction t) auto
  then show ?thesis by (simp add: status_in_def get_submission_def statuses_def)
qed

lemma get_submission_store:
  "get_submission (store_submission s d) j =
     (if sub_id s = j then map_option (\<lambda>_. s) (get_submission d j) else get_submission d j)"
  by (simp add: store_submission_def get_submission_def upd_submission_def get_row_replace)

lemma store_submission_fields [simp]:
  "db_attempts (store_submission s d) = db_attempts d" "db_sas (store_submission s d) = db_sas d"
  "db_assignments (store_submission s d) = db_assignments d" "db_squads (store_submission s d) = db_squads d"
  by (simp_all add: store_submission_def upd_submission_def)

text \<open>A change of one submission's status: the attempts stay, no other submission's status moves.\<close>

definition moves_to :: "int \<Rightarrow> submission_status \<Rightarrow> db \<Rightarrow> db \<Rightarrow> bool" where
  "moves_to i s d d' \<longleftrightarrow>
     db_attempts d' = db_attempts d \<and> status_in d' i = Some s \<and> (\<forall>j. j \<noteq> i \<longrightarrow> status_in d' j = status_in d j)"

lemma moves_to_frame: "moves_to i s d d1 \<Longrightarrow> grade_frame d1 d2 \<Longrightarrow> moves_to i s d d2"
  using grade_frame_statuses [of d1 d2]
  by (cases d1; cases d2) (auto simp: moves_to_def grade_frame_def status_in_statuses)

lemma fire_moves:
  assumes "fire event sub d = Inr d'" and "get_submission d i = Some sub"
  obtains s where "transition (sub_status sub) event = Inr s" and "moves_to i s d d'"
    and "d' = store_submission (sub\<lparr>sub_status := s\<rparr>) d"
proof -
  have i: "sub_id sub = i" using assms(2) by (simp add: get_submission_def get_row_Some)
  from assms(1) obtain s where "transition (sub_status sub) event = Inr s"
    and d': "d' = store_submission (sub\<lparr>sub_status := s\<rparr>) d" by (auto simp: fire_def split: sum.splits)
  then show thesis
    using that assms(2) i by (auto simp: moves_to_def status_in_def get_submission_store)
qed

lemma moves_to_queue:
  "moves_to i s d d1 \<Longrightarrow> moves_to i s d (enqueue_teacher_review_notification k d1)"
  by (subst enqueue_only) (simp add: moves_to_def status_in_def get_submission_def)

lemma complete_now_moves:
  assumes "complete_now sub d = Inr d'" and "get_submission d i = Some sub" and "sub_status sub = QUIZ_SENT"
  shows "moves_to i COMPLETED d d'"
proof -
  from assms(1) obtain d1 where f: "fire ''quiz_passed'' sub d = Inr d1" and g: "finalize_stored (sub_id sub) d1 = Inr d'"
    by (auto simp: complete_now_def bind_result_eq_Inr)
  from f assms(2,3) have "moves_to i COMPLETED d d1" by (auto elim!: fire_moves simp: transition_table)
  with grade_frame_finalize_stored [OF g] show ?thesis by (auto intro: moves_to_frame)
qed

lemma hand_to_teacher_moves:
  assumes "hand_to_teacher sub d = Inr d'" and "get_submission d i = Some sub" and "sub_status sub = QUIZ_SENT"
  shows "moves_to i AWAITING_TEACHER_REVIEW d d'"
  using assms by (auto simp: hand_to_teacher_def bind_result_eq_Inr transition_table
      elim!: fire_moves intro!: moves_to_queue)

lemma notify_partners_only: "\<exists>ns. notify_partners_passed sub sid d = d\<lparr>db_notifications := ns\<rparr>"
proof -
  have "\<exists>ns. fold (\<lambda>m d'. if Some (mq_student_id m) = sid then d'
                       else case user_of_student d' (mq_student_id m) of
                              None \<Rightarrow> d'
                            | Some user_id \<Rightarrow>
                                push_notification user_id t args l d') ms d = d\<lparr>db_notifications := ns\<rparr>" for t args l ms
  proof (induction ms arbitrary: d)
    case Nil
    have "d = d\<lparr>db_notifications := db_notifications d\<rparr>" by simp
    then show ?case by (simp only: fold_simps) blast
  next
    case (Cons m ms)
    have step: "\<exists>ns. (if Some (mq_student_id m) = sid then d
                       else case user_of_student d (mq_student_id m) of
                              None \<Rightarrow> d
                            | Some user_id \<Rightarrow> push_notification user_id t args l d) = d\<lparr>db_notifications := ns\<rparr>"
    proof (cases "Some (mq_student_id m) = sid \<or> user_of_student d (mq_student_id m) = None")
      case True
      then show ?thesis by (intro exI [of _ "db_notifications d"]) auto
    next
      case False
      then show ?thesis by (auto simp: push_notification_def)
    qed
    then obtain ns where "(if Some (mq_student_id m) = sid then d
                       else case user_of_student d (mq_student_id m) of
                              None \<Rightarrow> d
                            | Some user_id \<Rightarrow> push_notification user_id t args l d) = d\<lparr>db_notifications := ns\<rparr>" ..
    with Cons.IH [of "d\<lparr>db_notifications := ns\<rparr>"] show ?case by auto
  qed
  moreover have "\<exists>ns. d = d\<lparr>db_notifications := ns\<rparr>" by (rule exI [of _ "db_notifications d"]) simp
  ultimately show ?thesis
    by (auto simp: notify_partners_passed_def Let_def split: option.splits)
qed

lemma notify_partners_fields [simp]:
  "db_attempts (notify_partners_passed sub sid d) = db_attempts d"
  "db_submissions (notify_partners_passed sub sid d) = db_submissions d"
  using notify_partners_only [of sub sid d] by auto

lemma moves_to_stays:
  "db_attempts d' = db_attempts d \<Longrightarrow> db_submissions d' = db_submissions d \<Longrightarrow> status_in d i = Some s \<Longrightarrow>
     moves_to i s d d'"
  by (simp add: moves_to_def status_in_def get_submission_def)

lemma quiz_is_passed_moves:
  assumes "quiz_is_passed a sub d = Inr d'" and "get_submission d i = Some sub" and "sub_status sub = QUIZ_SENT"
  obtains s where "moves_to i s d d'"
    and "if quiz_complete d sub then s \<in> {COMPLETED, AWAITING_TEACHER_REVIEW} else s = QUIZ_SENT"
proof (cases "quiz_complete d sub")
  case True
  then have "moves_to i COMPLETED d d' \<or> moves_to i AWAITING_TEACHER_REVIEW d d'"
    using assms(1) complete_now_moves [OF _ assms(2,3)] hand_to_teacher_moves [OF _ assms(2,3)]
    by (auto simp: quiz_is_passed_def bind_result_eq_Inr split: if_splits)
  with True that show thesis by auto
next
  case False
  then have "moves_to i QUIZ_SENT d d'"
    using assms False by (auto simp: quiz_is_passed_def status_in_def intro!: moves_to_stays split: if_splits)
  with False that show thesis by auto
qed

lemma quiz_is_failed_moves:
  assumes "quiz_is_failed a sub d = Inr (d', left)" and "get_submission d i = Some sub" and "sub_status sub = QUIZ_SENT"
  obtains s where "moves_to i s d d'"
    and "s = (case effective_max_attempts (cs_max_quiz_attempts (att_config_snapshot a)) sub (att_student_id a) of
        Some cap \<Rightarrow>
          if int (count_used_attempts d (att_submission_id a) (att_id a) (att_student_id a)) + 1 \<ge> cap then FAILED else QUIZ_SENT
      | None \<Rightarrow> QUIZ_SENT)"
proof (cases "effective_max_attempts (cs_max_quiz_attempts (att_config_snapshot a)) sub (att_student_id a)")
  case None
  then have "moves_to i QUIZ_SENT d d'"
    using assms by (auto simp: quiz_is_failed_def status_in_def intro!: moves_to_stays)
  with None that show thesis by simp
next
  case (Some cap)
  show thesis
  proof (cases "int (count_used_attempts d (att_submission_id a) (att_id a) (att_student_id a)) + 1 \<ge> cap")
    case True
    then have "fire ''quiz_failed'' sub d = Inr d'"
      using assms(1) Some by (auto simp: quiz_is_failed_def Let_def bind_result_eq_Inr)
    then have "moves_to i FAILED d d'" using assms(2,3) by (auto elim!: fire_moves simp: transition_table)
    with True Some that show thesis by simp
  next
    case False
    then have "moves_to i QUIZ_SENT d d'"
      using assms Some by (auto simp: quiz_is_failed_def status_in_def intro!: moves_to_stays)
    with False Some that show thesis by simp
  qed
qed


section \<open>The closed attempt\<close>

lemma apply_overrides_fields [simp]:
  "att_id (fst (apply_question_overrides a ids)) = att_id a"
  "att_submission_id (fst (apply_question_overrides a ids)) = att_submission_id a"
  "att_student_id (fst (apply_question_overrides a ids)) = att_student_id a"
  "att_config_snapshot (fst (apply_question_overrides a ids)) = att_config_snapshot a"
  "att_questions_snapshot (fst (apply_question_overrides a ids)) = att_questions_snapshot a"
  by (simp_all add: apply_question_overrides_def case_prod_unfold Let_def)

lemma close_open_pause_fields [simp]:
  "att_id (fst (close_open_pause now a)) = att_id a"
  "att_submission_id (fst (close_open_pause now a)) = att_submission_id a"
  "att_student_id (fst (close_open_pause now a)) = att_student_id a"
  "att_config_snapshot (fst (close_open_pause now a)) = att_config_snapshot a"
  "att_questions_snapshot (fst (close_open_pause now a)) = att_questions_snapshot a"
  "att_answers (fst (close_open_pause now a)) = att_answers a"
  "att_score (fst (close_open_pause now a)) = att_score a"
  "att_max_score (fst (close_open_pause now a)) = att_max_score a"
  "att_is_passed (fst (close_open_pause now a)) = att_is_passed a"
  "att_status (fst (close_open_pause now a)) = att_status a"
  "att_submitted_at (fst (close_open_pause now a)) = att_submitted_at a"
  "att_violations (fst (close_open_pause now a)) = att_violations a"
  "att_current_index (fst (close_open_pause now a)) = att_current_index a"
  "att_paused_at (fst (close_open_pause now a)) = None"
  by (simp_all add: close_open_pause_def Let_def)

lemma closed_attempt_fields [simp]:
  "att_id (closed_attempt now st ovr a) = att_id a"
  "att_submission_id (closed_attempt now st ovr a) = att_submission_id a"
  "att_student_id (closed_attempt now st ovr a) = att_student_id a"
  "att_config_snapshot (closed_attempt now st ovr a) = att_config_snapshot a"
  "att_questions_snapshot (closed_attempt now st ovr a) = att_questions_snapshot a"
  "att_paused_at (closed_attempt now st ovr a) = None"
  "att_submitted_at (closed_attempt now st ovr a) = Some now"
  by (simp_all add: closed_attempt_def Let_def case_prod_unfold)

lemma closed_attempt_passed:
  "att_is_passed (closed_attempt now st ovr a) =
     Some (fst (snd (snd (score_attempt (fst (apply_question_overrides a ovr))))))"
  by (simp add: closed_attempt_def Let_def case_prod_unfold)

lemma closed_attempt_status:
  "att_status (closed_attempt now st ovr a) =
     (if force_fail (fst (apply_question_overrides a ovr)) then Attempt_VIOLATION_FAIL else st)"
  by (simp add: closed_attempt_def Let_def case_prod_unfold score_attempt_def)

lemma closed_attempt_score:
  assumes "answers_ok a"
  shows "\<exists>s m. att_score (closed_attempt now st ovr a) = Some s \<and> att_max_score (closed_attempt now st ovr a) = Some m \<and>
    0 \<le> s \<and> s \<le> m \<and> answers_ok (closed_attempt now st ovr a)"
proof -
  let ?c = "fst (apply_question_overrides a ovr)"
  have ok: "answers_ok ?c"
  proof (cases "ovr = []")
    case True
    with assms show ?thesis by (simp add: apply_question_overrides_def)
  next
    case False
    then show ?thesis using assms apply_question_overrides_spec [of a ovr] answers_ok_credit_spec [OF assms, of ovr]
      by (simp add: answers_ok_def)
  qed
  have "answers_ok (closed_attempt now st ovr a)"
    using ok by (simp add: answers_ok_def closed_attempt_def Let_def case_prod_unfold)
  moreover obtain s m p f where sc: "score_attempt ?c = (s, m, p, f)" by (cases "score_attempt ?c") auto
  ultimately show ?thesis
    using score_attempt_bounds [OF ok] by (auto simp: closed_attempt_def Let_def sc)
qed

lemma put_attempt_fields [simp]:
  "db_submissions (put_attempt a d) = db_submissions d" "db_sas (put_attempt a d) = db_sas d"
  "get_submission (put_attempt a d) i = get_submission d i" "status_in (put_attempt a d) i = status_in d i"
  by (simp_all add: put_attempt_def upd_attempt_def get_submission_def status_in_def)

lemma get_attempt_put:
  "get_attempt (put_attempt a d) j = (if att_id a = j then map_option (\<lambda>_. a) (get_attempt d j) else get_attempt d j)"
  by (simp add: put_attempt_def get_attempt_def upd_attempt_def get_row_replace)

text \<open>What finishing does, whatever the submission's state.\<close>

lemma grade_and_finalize_cases:
  assumes "grade_and_finalize now a st d = Inr d'" and "get_submission d (att_submission_id a) = Some sub"
  defines "cl \<equiv> closed_attempt now st
      (load_question_overrides d (att_plugin_config_id a) (att_plugin_config_version a)) a"
  obtains s where "moves_to (att_submission_id a) s (put_attempt cl d) d'"
    and "if sub_status sub \<noteq> QUIZ_SENT then s = sub_status sub
         else if att_is_passed cl = Some True
         then if quiz_complete (put_attempt cl d) sub then s \<in> {COMPLETED, AWAITING_TEACHER_REVIEW} else s = QUIZ_SENT
         else s = (case effective_max_attempts (cs_max_quiz_attempts (att_config_snapshot a)) sub (att_student_id a) of
             Some cap \<Rightarrow>
               if int (count_used_attempts (put_attempt cl d) (att_submission_id a) (att_id a) (att_student_id a)) + 1 \<ge> cap
               then FAILED else QUIZ_SENT
           | None \<Rightarrow> QUIZ_SENT)"
proof -
  note out = that
  let ?ovr = "load_question_overrides d (att_plugin_config_id a) (att_plugin_config_version a)"
  let ?p = "fst (snd (snd (score_attempt (fst (apply_question_overrides a ?ovr)))))"
  let ?d1 = "put_attempt cl d"
  have p: "att_is_passed cl = Some ?p" by (simp add: cl_def closed_attempt_passed)
  from assms(1) obtain d2 left where set: "settle_submission cl ?p ?d1 = Inr (d2, left)"
    and d': "db_attempts d' = db_attempts d2" "db_submissions d' = db_submissions d2"
    by (auto simp: grade_and_finalize_def Let_def case_prod_unfold bind_result_eq_Inr cl_def add_outbox_def)
  have cf: "att_id cl = att_id a" "att_submission_id cl = att_submission_id a" "att_student_id cl = att_student_id a"
    "att_config_snapshot cl = att_config_snapshot a" by (simp_all add: cl_def)
  have sub: "get_submission ?d1 (att_submission_id a) = Some sub" using assms(2) by simp
  have fin: thesis if m: "moves_to (att_submission_id a) s ?d1 d2" and c: "if sub_status sub \<noteq> QUIZ_SENT then s = sub_status sub
         else if ?p then if quiz_complete ?d1 sub then s \<in> {COMPLETED, AWAITING_TEACHER_REVIEW} else s = QUIZ_SENT
         else s = (case effective_max_attempts (cs_max_quiz_attempts (att_config_snapshot a)) sub (att_student_id a) of
             Some cap \<Rightarrow>
               if int (count_used_attempts ?d1 (att_submission_id a) (att_id a) (att_student_id a)) + 1 \<ge> cap
               then FAILED else QUIZ_SENT
           | None \<Rightarrow> QUIZ_SENT)" for s
  proof (rule out)
    show "moves_to (att_submission_id a) s ?d1 d'" using m d' by (simp add: moves_to_def status_in_def get_submission_def)
  qed (unfold p option.inject eq_True, rule c)
  consider (moved) "sub_status sub \<noteq> QUIZ_SENT" | (passed) "sub_status sub = QUIZ_SENT" "?p"
    | (failed) "sub_status sub = QUIZ_SENT" "\<not> ?p" by blast
  then show thesis
  proof cases
    case moved
    then have "d2 = ?d1" using set sub by (simp add: settle_submission_def cl_def)
    with moved sub show thesis by (intro fin [of "sub_status sub"]) (simp_all add: moves_to_def status_in_def)
  next
    case passed
    then have "quiz_is_passed cl sub ?d1 = Inr d2"
      using set sub by (auto simp: settle_submission_def cl_def map_sum_eq_Inr)
    then show thesis by (rule quiz_is_passed_moves [OF _ sub passed(1)]) (use fin passed in simp)
  next
    case failed
    then have "quiz_is_failed cl sub ?d1 = Inr (d2, left)"
      using set sub by (auto simp: settle_submission_def cl_def)
    then show thesis
      by (rule quiz_is_failed_moves [where a = cl, unfolded cf, OF _ sub failed(1)]) (use fin failed in simp)
  qed
qed


section \<open>Integers in form fields\<close>

lemma is_dec_digit_char [simp]: "n < 10 \<Longrightarrow> is_dec_digit (char_of (48 + n :: nat))"
  by (simp add: is_dec_digit_def)

lemma digit_val_char [simp]: "n < 10 \<Longrightarrow> digit_val (char_of (48 + n :: nat)) = int n"
  by (simp add: digit_val_def)

lemma digits_value_snoc:
  "digits_value b acc s = Some m \<Longrightarrow> is_dec_digit c \<Longrightarrow> digits_value b acc (s @ [c]) = Some (m * 10 + digit_val c)"
  by (induction b acc s rule: digits_value.induct) (auto split: if_splits)

lemma str_of_nat_digits: "str_of_nat n \<noteq> [] \<and> list_all is_dec_digit (str_of_nat n)"
proof (induction n rule: str_of_nat.induct)
  case (1 n)
  then show ?case by (simp add: str_of_nat.simps [of n])
qed

lemma digits_value_str_of_nat: "digits_value False 0 (str_of_nat n) = Some (int n)"
proof (induction n rule: str_of_nat.induct)
  case (1 n)
  show ?case
  proof (cases "n < 10")
    case True
    then show ?thesis by (subst str_of_nat.simps) simp
  next
    case False
    with 1 have "digits_value False 0 (str_of_nat n) =
        Some (int (n div 10) * 10 + digit_val (char_of (48 + n mod 10)))"
      by (subst str_of_nat.simps) (simp add: digits_value_snoc)
    also have "int (n div 10) * 10 + digit_val (char_of (48 + n mod 10)) = int n"
      by simp (metis (no_types, opaque_lifting) mult.commute mult_div_mod_eq of_nat_add of_nat_mult of_nat_numeral)
    finally show ?thesis .
  qed
qed

definition int_char :: "char \<Rightarrow> bool" where
  "int_char c \<longleftrightarrow> is_dec_digit c \<or> c = CHR ''-''"

lemma int_char_plain: "int_char c \<Longrightarrow> \<not> is_ws c \<and> c \<noteq> CHR '',''"
  by (auto simp: int_char_def is_ws_def is_dec_digit_def)

lemma str_of_int_chars: "str_of_int k \<noteq> [] \<and> list_all int_char (str_of_int k)"
  using str_of_nat_digits by (auto simp: str_of_int_def int_char_def list_all_iff)

lemma py_strip_plain: "list_all (\<lambda>c. \<not> is_ws c) s \<Longrightarrow> py_strip s = s"
proof -
  have drop: "list_all (\<lambda>c. \<not> is_ws c) t \<Longrightarrow> dropWhile is_ws t = t" for t by (cases t) auto
  assume s: "list_all (\<lambda>c. \<not> is_ws c) s"
  then have "list_all (\<lambda>c. \<not> is_ws c) (rev s)" by (simp add: list_all_iff)
  with s show "py_strip s = s" by (simp add: py_strip_def drop)
qed

lemma str_of_int_strip: "py_strip (str_of_int k) = str_of_int k"
  using str_of_int_chars [of k] by (intro py_strip_plain) (auto simp: list_all_iff dest: int_char_plain)

text \<open>\<open>int(str(k)) = k\<close>.\<close>

lemma parse_int_str_of_int [simp]: "parse_int (str_of_int k) = Some k"
proof (cases "k < 0")
  case True
  then show ?thesis
    unfolding parse_int_def str_of_int_strip by (simp add: str_of_int_def digits_value_str_of_nat)
next
  case False
  obtain c cs where s: "str_of_nat (nat k) = c # cs" using str_of_nat_digits [of "nat k"] by (cases "str_of_nat (nat k)") auto
  then have "is_dec_digit c" using str_of_nat_digits [of "nat k"] by simp
  then have "c \<noteq> CHR ''-''" "c \<noteq> CHR ''+''" by (auto simp: is_dec_digit_def)
  then show ?thesis
    using False s digits_value_str_of_nat [of "nat k"]
    unfolding parse_int_def str_of_int_strip by (simp add: str_of_int_def)
qed

lemma parse_all_str_of_int [simp]: "parse_all (map str_of_int ks) = ks"
  by (simp add: parse_all_def list_all_iff comp_def)

fun commas :: "string list \<Rightarrow> string" where
  "commas [] = ''''"
| "commas [x] = x"
| "commas (x # xs) = x @ '','' @ commas xs"

lemma split_on_plain: "c \<notin> set x \<Longrightarrow> split_on c x = [x]"
  by (induction x) auto

lemma split_on_append: "c \<notin> set x \<Longrightarrow> split_on c (x @ c # y) = x # split_on c y"
  by (induction x) auto

lemma split_commas: "xs \<noteq> [] \<Longrightarrow> \<forall>x \<in> set xs. CHR '','' \<notin> set x \<Longrightarrow> split_on (CHR '','') (commas xs) = xs"
  by (induction xs rule: commas.induct) (auto simp: split_on_plain split_on_append)

lemma parse_commas:
  "parse_all (filter (\<lambda>x. x \<noteq> '''') (map py_strip (split_on (CHR '','') (commas (map str_of_int ks))))) = ks"
proof (cases "ks = []")
  case True
  then show ?thesis by (simp add: parse_all_def py_strip_def)
next
  case False
  have "\<forall>x \<in> set (map str_of_int ks). CHR '','' \<notin> set x"
    using str_of_int_chars int_char_plain by (fastforce simp: list_all_iff)
  then have "split_on (CHR '','') (commas (map str_of_int ks)) = map str_of_int ks"
    using False by (intro split_commas) auto
  moreover have "filter (\<lambda>x. x \<noteq> '''') (map str_of_int ks) = map str_of_int ks"
    using str_of_int_chars by (simp add: filter_id_conv)
  ultimately show ?thesis by (simp add: comp_def str_of_int_strip)
qed

text \<open>What the page posts for the right answer, and the stored answer it becomes.\<close>

definition key_raw :: "question_body \<Rightarrow> raw_answer" where
  "key_raw body =
     (case body of
        SingleChoice _ c \<Rightarrow> RawText (str_of_int c)
      | MultipleChoice _ cs \<Rightarrow> RawList (map str_of_int cs)
      | Ordering _ order \<Rightarrow> RawText (commas (map str_of_int order))
      | TrueFalse b \<Rightarrow> RawText (if b then ''true'' else ''false'')
      | OtherType _ \<Rightarrow> RawText '''')"

definition right_value :: "question_body \<Rightarrow> answer_value option" where
  "right_value body =
     (case body of
        SingleChoice _ c \<Rightarrow> Some (Selected (Some c))
      | MultipleChoice _ cs \<Rightarrow> Some (SelectedMany (sort cs))
      | Ordering _ order \<Rightarrow> Some (Ordered order)
      | TrueFalse b \<Rightarrow> Some (TruthValue b)
      | OtherType _ \<Rightarrow> None)"

lemma grade_answer_ok:
  "grade_answer q raw = (v, ok, p) \<Longrightarrow> (ok \<longleftrightarrow> right_value (q_body q) = Some v) \<and> p = (if ok then q_points q else 0)"
  by (cases "q_body q") (auto simp: grade_answer_def right_value_def Let_def split: option.splits)


section \<open>Properties\<close>

text \<open>C25. An answer earns the points of its question or nothing, and earns them exactly when it is
  the question's right answer. What the page posts for the right answer (the index of the option,
  the indices of the options in any order, the order as a comma-separated list, the truth value)
  is recognised as right for every type the grader knows, and never for a type it does not know.\<close>

theorem right_answers_are_recognised:
  "(\<forall>raw. case grade_answer q raw of (v, ok, p) \<Rightarrow>
      (ok \<longleftrightarrow> right_value (q_body q) = Some v) \<and> p = (if ok then q_points q else 0)) \<and>
   (case q_body q of
      OtherType t \<Rightarrow> (\<forall>raw. \<not> fst (snd (grade_answer q raw)))
    | MultipleChoice _ cs \<Rightarrow>
        (\<forall>vs. fst (snd (grade_answer q (RawList (map str_of_int vs)))) \<longleftrightarrow> mset vs = mset cs)
    | body \<Rightarrow> grade_answer q (key_raw body) = (the (right_value body), True, q_points q))"
proof (rule conjI)
  show "\<forall>raw. case grade_answer q raw of (v, ok, p) \<Rightarrow>
      (ok \<longleftrightarrow> right_value (q_body q) = Some v) \<and> p = (if ok then q_points q else 0)"
    using grade_answer_ok by (simp split: prod.split)
  have sorted_eq: "sort vs = sort cs \<longleftrightarrow> mset vs = mset cs" for vs cs :: "int list"
    by (metis mset_sort properties_for_sort sorted_sort)
  show "case q_body q of
      OtherType t \<Rightarrow> (\<forall>raw. \<not> fst (snd (grade_answer q raw)))
    | MultipleChoice _ cs \<Rightarrow>
        (\<forall>vs. fst (snd (grade_answer q (RawList (map str_of_int vs)))) \<longleftrightarrow> mset vs = mset cs)
    | body \<Rightarrow> grade_answer q (key_raw body) = (the (right_value body), True, q_points q)"
    by (cases "q_body q") (simp_all add: grade_answer_def key_raw_def right_value_def Let_def parse_commas sorted_eq lower_char_def)
qed

text \<open>C6. Finishing an attempt closes it (scored within its maximum, submitted, not paused, in the
  status asked for or \<open>VIOLATION_FAIL\<close>) and moves the submission only if it is at its quiz: on to
  completion or the teacher exactly when the attempt passed and with it every member whose quiz
  counts has passed; to failure exactly when the attempt did not pass and it was the last one the
  student is allowed; otherwise it stays for another try. No other submission moves.\<close>

theorem finalize_settles_submission:
  assumes "grade_and_finalize now a st d = Inr d'" and "get_submission d (att_submission_id a) = Some sub"
    and "get_attempt d (att_id a) = Some old" and "answers_ok a"
  shows "\<exists>cl score max_score s'. get_attempt d' (att_id a) = Some cl \<and> att_submitted_at cl = Some now \<and>
    att_paused_at cl = None \<and> att_status cl \<in> {st, Attempt_VIOLATION_FAIL} \<and>
    att_score cl = Some score \<and> att_max_score cl = Some max_score \<and> 0 \<le> score \<and> score \<le> max_score \<and>
    status_in d' (att_submission_id a) = Some s' \<and>
    (if sub_status sub \<noteq> QUIZ_SENT then s' = sub_status sub
     else
       (s' \<in> {COMPLETED, AWAITING_TEACHER_REVIEW} \<longleftrightarrow>
          att_is_passed cl = Some True \<and> quiz_complete (put_attempt cl d) sub) \<and>
       (s' = FAILED \<longleftrightarrow> att_is_passed cl = Some False \<and>
          (\<exists>cap. effective_max_attempts (cs_max_quiz_attempts (att_config_snapshot a)) sub (att_student_id a) = Some cap \<and>
             cap \<le> int (count_used_attempts (put_attempt cl d) (att_submission_id a) (att_id a) (att_student_id a)) + 1)) \<and>
       (s' \<in> {COMPLETED, AWAITING_TEACHER_REVIEW, FAILED} \<or> s' = QUIZ_SENT)) \<and>
    (\<forall>j. j \<noteq> att_submission_id a \<longrightarrow> status_in d' j = status_in d j)"
proof -
  let ?ovr = "load_question_overrides d (att_plugin_config_id a) (att_plugin_config_version a)"
  let ?cl = "closed_attempt now st ?ovr a"
  let ?used = "int (count_used_attempts (put_attempt ?cl d) (att_submission_id a) (att_id a) (att_student_id a)) + 1"
  let ?cap = "effective_max_attempts (cs_max_quiz_attempts (att_config_snapshot a)) sub (att_student_id a)"
  obtain s where m: "moves_to (att_submission_id a) s (put_attempt ?cl d) d'"
    and c: "if sub_status sub \<noteq> QUIZ_SENT then s = sub_status sub
         else if att_is_passed ?cl = Some True
         then if quiz_complete (put_attempt ?cl d) sub then s \<in> {COMPLETED, AWAITING_TEACHER_REVIEW} else s = QUIZ_SENT
         else s = (case ?cap of Some cap \<Rightarrow> if ?used \<ge> cap then FAILED else QUIZ_SENT | None \<Rightarrow> QUIZ_SENT)"
    by (rule grade_and_finalize_cases [OF assms(1,2)])
  have row: "get_attempt d' (att_id a) = Some ?cl"
    using m get_attempt_put [of ?cl d "att_id a"] assms(3) by (simp add: moves_to_def get_attempt_def)
  obtain sc mx where sm: "att_score ?cl = Some sc" "att_max_score ?cl = Some mx" "0 \<le> sc" "sc \<le> mx"
    using closed_attempt_score [OF assms(4)] by blast
  have p: "att_is_passed ?cl \<noteq> None" by (simp add: closed_attempt_passed)
  have settle: "if sub_status sub \<noteq> QUIZ_SENT then s = sub_status sub
     else
       (s \<in> {COMPLETED, AWAITING_TEACHER_REVIEW} \<longleftrightarrow>
          att_is_passed ?cl = Some True \<and> quiz_complete (put_attempt ?cl d) sub) \<and>
       (s = FAILED \<longleftrightarrow> att_is_passed ?cl = Some False \<and> (\<exists>cap. ?cap = Some cap \<and> cap \<le> ?used)) \<and>
       (s \<in> {COMPLETED, AWAITING_TEACHER_REVIEW, FAILED} \<or> s = QUIZ_SENT)"
    using c p by (cases "sub_status sub = QUIZ_SENT"; cases "att_is_passed ?cl = Some True"; cases ?cap)
      (auto split: if_splits)
  have st: "att_status ?cl \<in> {st, Attempt_VIOLATION_FAIL}" by (simp add: closed_attempt_status)
  have mv: "status_in d' (att_submission_id a) = Some s" "\<forall>j. j \<noteq> att_submission_id a \<longrightarrow> status_in d' j = status_in d j"
    using m by (simp_all add: moves_to_def)
  show ?thesis
    by (intro exI [of _ ?cl] exI [of _ sc] exI [of _ mx] exI [of _ s] conjI row st sm mv settle) simp_all
qed

definition sample_last_try :: db where
  "sample_last_try = sample_failed\<lparr>
     db_submissions := map (\<lambda>s. s\<lparr>sub_status := QUIZ_SENT\<rparr>) (db_submissions sample_failed),
     db_attempts := [(sample_attempt [sample_question 1 10 True] [sample_answer 1 2 False] [])
       \<lparr>att_submission_id := 30, att_config_snapshot := (att_config_snapshot (sample_attempt [] [] []))
          \<lparr>cs_max_quiz_attempts := Some 1\<rparr>\<rparr>]\<rparr>"

theorem finalize_settles_submission_witness:
  "(let a = hd (db_attempts sample_last_try) in
    case grade_and_finalize 9 a Attempt_COMPLETED sample_last_try of
      Inr d' \<Rightarrow> status_in d' 30 = Some FAILED \<and> map_option att_submitted_at (get_attempt d' 1) = Some (Some 9)
    | Inl _ \<Rightarrow> False)"
proof -
  let ?a = "hd (db_attempts sample_last_try)"
  let ?g = "grade_and_finalize 9 ?a Attempt_COMPLETED sample_last_try"
  have "map_sum id (\<lambda>d'. status_in d' 30) ?g = Inr (Some FAILED)" by code_simp
  then obtain d' where g: "?g = Inr d'" "status_in d' 30 = Some FAILED" by (cases ?g) auto
  have a: "att_id ?a = 1" "att_submission_id ?a = 30" "answers_ok ?a"
    by (simp_all add: sample_last_try_def sample_defs answers_ok_def snapshot_ok_def answer_fits_def earned_def)
  obtain sub where s: "get_submission sample_last_try 30 = Some sub"
    using g(2) by (cases "get_submission sample_last_try 30") (auto, code_simp)
  obtain old where o: "get_attempt sample_last_try 1 = Some old"
    by (cases "get_attempt sample_last_try 1") (auto simp: get_attempt_def sample_last_try_def sample_defs)
  obtain cl where "get_attempt d' 1 = Some cl" "att_submitted_at cl = Some 9"
    using finalize_settles_submission [OF g(1), unfolded a(1,2), OF s o a(3)] by blast
  with g show ?thesis by (simp add: Let_def)
qed

end
