(* ===== verification/Geo.thy ===== *)
theory Geo
  imports Prelude
begin

text \<open>
  Coordinates to a region (\<open>services/air_raid/geo.py\<close>): ray casting over the rings of a polygon,
  polygons with holes, and the smallest region around a point. The boundaries come from the
  bundled data file, so the list of regions is an argument; coordinates are exact rationals.
  The properties: a point is in a ring when its ray crosses the boundary an odd number of times,
  which does not depend on where the ring starts or which way round it runs, and
  \<open>resolve_region\<close> finds the smallest region that contains the point.
\<close>

type_synonym ring = "(rat \<times> rat) list"

record region =
  reg_uid :: int
  reg_title :: string
  reg_bbox :: "rat \<times> rat \<times> rat \<times> rat"
  reg_polygons :: "ring list list"

definition bbox_area :: "region \<Rightarrow> rat" where
  "bbox_area r = (case reg_bbox r of (lng_min, lat_min, lng_max, lat_max) \<Rightarrow> (lng_max - lng_min) * (lat_max - lat_min))"

text \<open>One round of the loop: the edge from vertex \<open>j\<close> to vertex \<open>i\<close>.\<close>

definition crosses :: "rat \<Rightarrow> rat \<Rightarrow> rat \<times> rat \<Rightarrow> rat \<times> rat \<Rightarrow> bool" where
  "crosses lng lat vi vj =
     (let (xi, yi) = vi; (xj, yj) = vj in
      (yi > lat) \<noteq> (yj > lat) \<and> lng < (xj - xi) * (lat - yi) / (yj - yi) + xi)"

fun ring_loop :: "rat \<Rightarrow> rat \<Rightarrow> rat \<times> rat \<Rightarrow> ring \<Rightarrow> bool \<Rightarrow> bool" where
  "ring_loop lng lat vj [] inside = inside"
| "ring_loop lng lat vj (vi # vs) inside =
     ring_loop lng lat vi vs (if crosses lng lat vi vj then \<not> inside else inside)"

definition point_in_ring :: "rat \<Rightarrow> rat \<Rightarrow> ring \<Rightarrow> bool" where
  "point_in_ring lng lat ring = (case ring of [] \<Rightarrow> False | _ \<Rightarrow> ring_loop lng lat (last ring) ring False)"

fun in_polygon :: "rat \<Rightarrow> rat \<Rightarrow> ring list \<Rightarrow> bool" where
  "in_polygon lng lat [] = False"
| "in_polygon lng lat (outer # holes) =
     (point_in_ring lng lat outer \<and> \<not> list_ex (point_in_ring lng lat) holes)"

definition contains :: "region \<Rightarrow> rat \<Rightarrow> rat \<Rightarrow> bool" where
  "contains r lng lat = list_ex (in_polygon lng lat) (reg_polygons r)"

definition in_bbox :: "region \<Rightarrow> rat \<Rightarrow> rat \<Rightarrow> bool" where
  "in_bbox r lng lat =
     (case reg_bbox r of (lng_min, lat_min, lng_max, lat_max) \<Rightarrow>
        lng_min \<le> lng \<and> lng \<le> lng_max \<and> lat_min \<le> lat \<and> lat \<le> lat_max)"

text \<open>\<open>min(matches, key=...)\<close>: the first of the smallest.\<close>

fun first_min :: "('a \<Rightarrow> rat) \<Rightarrow> 'a \<Rightarrow> 'a list \<Rightarrow> 'a" where
  "first_min f best [] = best"
| "first_min f best (x # xs) = first_min f (if f x < f best then x else best) xs"

definition resolve_region :: "region list \<Rightarrow> rat \<Rightarrow> rat \<Rightarrow> region option" where
  "resolve_region regions lat lng =
     (if \<not> (43 \<le> lat \<and> lat \<le> 53 \<and> 43 / 2 \<le> lng \<and> lng \<le> 41) then None
      else
        case filter (\<lambda>r. in_bbox r lng lat \<and> contains r lng lat) regions of
          [] \<Rightarrow> None
        | r # rs \<Rightarrow> Some (first_min bbox_area r rs))"

section \<open>Crossings\<close>

text \<open>The edges of a ring, each from the vertex before.\<close>

definition edges :: "ring \<Rightarrow> ((rat \<times> rat) \<times> (rat \<times> rat)) list" where
  "edges ring = zip ring (last ring # butlast ring)"

definition crossings :: "rat \<Rightarrow> rat \<Rightarrow> ring \<Rightarrow> nat" where
  "crossings lng lat ring = length (filter (\<lambda>(vi, vj). crosses lng lat vi vj) (edges ring))"

lemma ring_loop_parity:
  "ring_loop lng lat vj vs inside =
     (inside \<noteq> odd (length (filter (\<lambda>(vi, vj). crosses lng lat vi vj) (zip vs (vj # butlast vs)))))"
proof (induction vs arbitrary: vj inside)
  case Nil
  then show ?case by simp
next
  case (Cons v vs)
  show ?case
  proof (cases vs)
    case Nil
    then show ?thesis by simp
  next
    case (Cons w ws)
    then have "zip (v # vs) (vj # butlast (v # vs)) = (v, vj) # zip vs (v # butlast vs)" by simp
    then show ?thesis by (simp add: Cons.IH del: zip_Cons_Cons butlast.simps) blast
  qed
qed

lemma point_in_ring_crossings: "point_in_ring lng lat ring = odd (crossings lng lat ring)"
  by (cases ring) (simp_all add: point_in_ring_def crossings_def edges_def ring_loop_parity)

text \<open>The test of an edge does not depend on its direction.\<close>

lemma crosses_sym: "crosses lng lat vi vj = crosses lng lat vj vi"
proof -
  obtain xi yi xj yj where v: "vi = (xi, yi)" "vj = (xj, yj)" by (cases vi; cases vj)
  show ?thesis
  proof (cases "yi = yj")
    case True
    then show ?thesis by (simp add: crosses_def v)
  next
    case False
    then have "(xj - xi) * (lat - yi) / (yj - yi) + xi = (xi - xj) * (lat - yj) / (yi - yj) + xj"
      by (simp add: divide_simps) (simp add: algebra_simps)
    then show ?thesis by (auto simp: crosses_def v)
  qed
qed

lemma edges_rotate1: "mset (edges (rotate1 ring)) = mset (edges ring)"
proof (cases ring)
  case Nil
  then show ?thesis by simp
next
  case (Cons v vs)
  show ?thesis
  proof (cases "vs = []")
    case True
    then show ?thesis by (simp add: Cons)
  next
    case False
    have zip_snoc: "length xs = length ys \<Longrightarrow> zip (xs @ [x]) (ys @ [y]) = zip xs ys @ [(x, y)]"
      for xs ys :: "(rat \<times> rat) list" and x y by simp
    have vs: "vs = butlast vs @ [last vs]" using False by simp
    have "edges (rotate1 ring) = zip (vs @ [v]) (v # vs)" by (simp add: edges_def Cons)
    also have "\<dots> = zip (vs @ [v]) ((v # butlast vs) @ [last vs])" using False by simp
    also have "\<dots> = zip vs (v # butlast vs) @ [(v, last vs)]" using False by (intro zip_snoc) simp
    finally have "edges (rotate1 ring) = zip vs (v # butlast vs) @ [(v, last vs)]" .
    moreover have "edges ring = (v, last vs) # zip vs (v # butlast vs)"
      using False by (simp add: edges_def Cons)
    ultimately show ?thesis by simp
  qed
qed

lemma crossings_mset: "crossings lng lat ring = size (filter_mset (\<lambda>(vi, vj). crosses lng lat vi vj) (mset (edges ring)))"
  by (simp add: crossings_def flip: mset_filter)

lemma crossings_rotate: "crossings lng lat (rotate n ring) = crossings lng lat ring"
  by (induction n arbitrary: ring) (simp_all add: crossings_mset edges_rotate1 rotate_def)

lemma edges_snoc: "edges (vs @ [v]) = zip (vs @ [v]) (v # vs)"
  by (simp add: edges_def)

lemma edges_rev: "mset (edges (rev ring)) = image_mset prod.swap (mset (edges ring))"
proof (cases ring)
  case Nil
  then show ?thesis by (simp add: edges_def)
next
  case (Cons v vs)
  have "edges (rev ring) = zip (rev vs @ [v]) (v # rev vs)" by (simp add: Cons edges_snoc)
  also have "\<dots> = rev (zip (v # vs) (vs @ [v]))" by (simp add: zip_rev [symmetric] del: zip_rev)
  finally have "mset (edges (rev ring)) = mset (zip (v # vs) (vs @ [v]))" by simp
  also have "zip (v # vs) (vs @ [v]) = map prod.swap (zip (vs @ [v]) (v # vs))"
    by (simp add: zip_commute [of "v # vs"] prod.swap_def case_prod_beta)
  also have "zip (vs @ [v]) (v # vs) = edges (rotate1 ring)" by (simp add: Cons edges_snoc)
  finally show ?thesis by (simp add: edges_rotate1)
qed

lemma crossings_rev: "crossings lng lat (rev ring) = crossings lng lat ring"
proof -
  have "(\<lambda>(x, y). crosses lng lat y x) = (\<lambda>(x, y). crosses lng lat x y)"
    using crosses_sym [of lng lat] by (intro ext) auto
  then show ?thesis by (simp add: crossings_mset edges_rev filter_mset_image_mset)
qed

lemma first_min_least:
  "first_min f b xs \<in> set (b # xs) \<and> (\<forall>x \<in> set (b # xs). f (first_min f b xs) \<le> f x)"
  by (induction xs arbitrary: b) (fastforce split: if_splits)+

section \<open>Properties\<close>

text \<open>A point lies in a ring exactly when the ray from it crosses an odd number of the ring's
  edges, so the answer is the same from whichever vertex the ring is listed and whichever way
  round.\<close>

theorem ring_test_is_crossing_parity:
  "point_in_ring lng lat ring = odd (crossings lng lat ring) \<and>
   point_in_ring lng lat (rotate n ring) = point_in_ring lng lat ring \<and>
   point_in_ring lng lat (rev ring) = point_in_ring lng lat ring"
  by (simp add: point_in_ring_crossings crossings_rotate crossings_rev)

text \<open>Coordinates resolve to a region that contains them, and to the smallest such region; they
  resolve to nothing only outside the envelope or outside every region.\<close>

theorem resolve_region_smallest:
  "case resolve_region regions lat lng of
     Some r \<Rightarrow> r \<in> set regions \<and> in_bbox r lng lat \<and> contains r lng lat \<and>
       (\<forall>r' \<in> set regions. in_bbox r' lng lat \<and> contains r' lng lat \<longrightarrow> bbox_area r \<le> bbox_area r')
   | None \<Rightarrow> 43 \<le> lat \<and> lat \<le> 53 \<and> 43 / 2 \<le> lng \<and> lng \<le> 41 \<longrightarrow>
       (\<forall>r \<in> set regions. \<not> (in_bbox r lng lat \<and> contains r lng lat))"
proof (cases "filter (\<lambda>r. in_bbox r lng lat \<and> contains r lng lat) regions")
  case Nil
  then show ?thesis by (auto simp: resolve_region_def filter_empty_conv)
next
  case (Cons r rs)
  then have s: "set (r # rs) = {x \<in> set regions. in_bbox x lng lat \<and> contains x lng lat}"
    by (metis (mono_tags) set_filter)
  show ?thesis
    using first_min_least [of bbox_area r rs] unfolding s
    by (auto simp: resolve_region_def Cons)
qed

definition sample_square :: "rat \<Rightarrow> rat \<Rightarrow> rat \<Rightarrow> ring" where
  "sample_square x y k = [(x, y), (x + k, y), (x + k, y + k), (x, y + k)]"

definition sample_regions :: "region list" where
  "sample_regions =
     [\<lparr>reg_uid = 14, reg_title = ''oblast'', reg_bbox = (30, 50, 32, 52), reg_polygons = [[sample_square 30 50 2]]\<rparr>,
      \<lparr>reg_uid = 31, reg_title = ''city'', reg_bbox = (31, 51, 32, 52), reg_polygons = [[sample_square 31 51 1]]\<rparr>]"

theorem resolve_region_smallest_witness:
  "\<exists>r. resolve_region sample_regions (103 / 2) (63 / 2) = Some r \<and> reg_uid r = 31 \<and>
     (\<forall>r' \<in> set sample_regions. in_bbox r' (63 / 2) (103 / 2) \<and> contains r' (63 / 2) (103 / 2) \<longrightarrow>
        bbox_area r \<le> bbox_area r')"
proof -
  have "map_option reg_uid (resolve_region sample_regions (103 / 2) (63 / 2)) = Some 31"
    by (simp add: resolve_region_def sample_regions_def in_bbox_def contains_def point_in_ring_def
        sample_square_def crosses_def bbox_area_def)
  then show ?thesis
    using resolve_region_smallest [where regions = sample_regions and lat = "103 / 2" and lng = "63 / 2"] by (auto split: option.splits)
qed

end
