(* ===== verification/QuizRoutes.thy ===== *)
theory QuizRoutes
  imports QuizAttempts QuizDraw Geo
begin

text \<open>
  The routes of a quiz (\<open>routes/student_quiz.py\<close>): starting or resuming it, showing it, answering
  one question of a stepped attempt, submitting a whole one, and the air-raid pause and resume.

  A route takes the database and returns it with its reply. The session commits when a route
  returns and rolls back when it raises, so an error reply comes with the database of the last
  commit. The clock is \<open>now\<close>; the consent notice, templates and metrics are not modelled beyond the
  redirects they cause.
\<close>

section \<open>Loading\<close>

definition needs_consent :: "db \<Rightarrow> int \<Rightarrow> bool" where
  "needs_consent d student_id =
     (case get_student d student_id of Some s \<Rightarrow> stu_recording_consent_at s = None | None \<Rightarrow> True)"

definition assert_attempt_owner :: "db \<Rightarrow> quiz_attempt \<Rightarrow> submission option \<Rightarrow> int \<Rightarrow> bool" where
  "assert_attempt_owner d attempt sub student_id =
     (case sub of
        None \<Rightarrow> False
      | Some s \<Rightarrow>
          (case att_student_id attempt of
             Some owner \<Rightarrow> owner = student_id
           | None \<Rightarrow> map_option sa_student_id (get_sa d (sub_students_assignment_id s)) = Some student_id))"

definition load_attempt :: "db \<Rightarrow> int \<Rightarrow> int \<Rightarrow> reply + (quiz_attempt \<times> submission)" where
  "load_attempt d attempt_id student_id =
     (case get_attempt d attempt_id of
        None \<Rightarrow> Inl (HttpError 404 '''')
      | Some a \<Rightarrow>
          let sub = get_submission d (att_submission_id a) in
          (case sub of
             Some s \<Rightarrow> if assert_attempt_owner d a sub student_id then Inr (a, s) else Inl (HttpError 403 '''')
           | None \<Rightarrow> Inl (HttpError 403 '''')))"

definition quiz_url :: "int \<Rightarrow> string" where
  "quiz_url i = ''/portal/quiz/'' @ str_of_int i"

definition result_url :: "int \<Rightarrow> string" where
  "result_url i = quiz_url i @ ''/result''"

text \<open>\<open>await _grade_and_finalize(...)\<close>, which commits; its exceptions reach no handler.\<close>

definition finish :: "int \<Rightarrow> quiz_attempt \<Rightarrow> quiz_attempt_status \<Rightarrow> reply \<Rightarrow> db \<Rightarrow> db \<times> reply" where
  "finish now a status ok d =
     (case grade_and_finalize now a status d of
        Inl (FinalizeExn e) \<Rightarrow> (d, ServerError e)
      | Inl (FinalizeTransition _) \<Rightarrow> (d, ServerError ValueError)
      | Inr d' \<Rightarrow> (d', ok))"

section \<open>Starting an attempt\<close>

text \<open>\<open>max_quiz_attempts\<close> as the configuration has it, plus the granted attempts.\<close>

definition allowed_attempts :: "json \<Rightarrow> submission \<Rightarrow> int \<Rightarrow> py_exn + rat option" where
  "allowed_attempts max_attempts sub student_id =
     (if max_attempts = JNull then Inr None
      else if is_number max_attempts
      then Inr (Some (number_value max_attempts + of_int (extra_attempts sub (Some student_id))))
      else Inl TypeError)"

definition optional_int :: "json \<Rightarrow> py_exn + int option" where
  "optional_int v = (if v = JNull then Inr None else map_sum id Some (py_int v))"

definition build_config_snapshot ::
  "pydict \<Rightarrow> pydict \<Rightarrow> squad_snapshot option \<Rightarrow> question list \<Rightarrow> py_exn + config_snapshot"
where
  "build_config_snapshot plugin_assignment quiz_cfg squad_snap questions =
     bind_result (py_float (dget quiz_cfg ''pass_threshold_pct'' (JFloat (6 / 10)))) (\<lambda>threshold.
     bind_result (optional_int (dget quiz_cfg ''max_quiz_attempts'' JNull)) (\<lambda>max_attempts.
     bind_result (optional_int (dget quiz_cfg ''time_limit_minutes'' JNull)) (\<lambda>minutes.
       Inr \<lparr>cs_pass_threshold_pct = Some threshold,
            cs_anti_cheat = dget quiz_cfg ''anti_cheat'' (JObj []),
            cs_review_mode = dget plugin_assignment ''review_mode'' (JStr ''tests_only''),
            cs_squad = squad_snap, cs_max_quiz_attempts = max_attempts, cs_time_limit_minutes = minutes,
            cs_per_question_timing = list_ex (\<lambda>q. window_of q \<noteq> None) questions\<rparr>)))"

definition new_attempt ::
  "int \<Rightarrow> int \<Rightarrow> submission \<Rightarrow> int \<Rightarrow> subject_plugin_config \<Rightarrow> question list \<Rightarrow> config_snapshot \<Rightarrow> quiz_attempt"
where
  "new_attempt now i sub student_id cfg questions snap =
     \<lparr>att_id = i, att_submission_id = sub_id sub, att_plugin_config_id = Some (spc_id cfg),
      att_plugin_config_version = Some (spc_version cfg), att_student_id = Some student_id,
      att_questions_snapshot = questions, att_config_snapshot = snap, att_started_at = now,
      att_submitted_at = None, att_current_index = 0,
      att_question_started_at = (if cs_per_question_timing snap then Some now else None),
      att_paused_at = None, att_paused_seconds = 0, att_score = None, att_max_score = None,
      att_is_passed = None, att_violations = [], att_status = Attempt_IN_PROGRESS, att_answers = []\<rparr>"

definition add_attempt :: "quiz_attempt \<Rightarrow> db \<Rightarrow> db" where
  "add_attempt a d = d\<lparr>db_attempts := db_attempts d @ [a], db_next := db_next d + 1\<rparr>"

text \<open>The questions of the attempt: the student's own draw, or a part of the squad's, which is
  stored on the submission.\<close>

definition draw_questions ::
  "db \<Rightarrow> submission \<Rightarrow> pydict \<Rightarrow> int \<Rightarrow> bool \<Rightarrow> (nat \<Rightarrow> nat) \<Rightarrow>
     draw_error + (question list \<times> squad_snapshot option \<times> db)"
where
  "draw_questions d sub quiz_cfg student_id retry rnd =
     (case squad_for_submission d sub of
        None \<Rightarrow>
          bind_result (lift_draw (build_questions_from_config quiz_cfg rnd 0)) (\<lambda>(qs, _). Inr (qs, None, d))
      | Some sq \<Rightarrow>
          bind_result (draw_for_member d sub sq quiz_cfg student_id retry rnd 0) (\<lambda>(qs, snap, sub', _).
            Inr (qs, Some snap, store_submission sub' d)))"

definition existing_attempts :: "db \<Rightarrow> submission \<Rightarrow> int \<Rightarrow> quiz_attempt list" where
  "existing_attempts d sub student_id = sort_key att_started_at (attempts_of d sub student_id)"

text \<open>The quiz section pinned for the assignment, with its assignment's section.\<close>

definition pinned_quiz :: "subject_plugin_config \<Rightarrow> string \<Rightarrow> py_exn + (pydict \<times> pydict)" where
  "pinned_quiz cfg code =
     bind_result (sub_dict (spc_config cfg) ''assignments'') (\<lambda>assignments.
     bind_result (sub_dict assignments code) (\<lambda>pa.
     bind_result (or_dict (dget pa ''quiz'' JNull)) (\<lambda>quiz_cfg. Inr (pa, quiz_cfg))))"

definition create_attempt ::
  "int \<Rightarrow> (nat \<Rightarrow> nat) \<Rightarrow> submission \<Rightarrow> int \<Rightarrow> subject_plugin_config \<Rightarrow> pydict \<Rightarrow> pydict \<Rightarrow> nat \<Rightarrow> db \<Rightarrow>
     reply + (db \<times> reply)"
where
  "create_attempt now rnd sub student_id cfg pa quiz_cfg used_count d =
     (case draw_questions d sub quiz_cfg student_id (used_count > 0) rnd of
        Inl SquadChanged \<Rightarrow>
          Inl (HttpError 409 ''Squad changed after the quiz draw; ask your teacher to reset the draw.'')
      | Inl (DrawExn e) \<Rightarrow> Inl (ServerError e)
      | Inr (questions, squad_snap, d1) \<Rightarrow>
          (case build_config_snapshot pa quiz_cfg squad_snap questions of
             Inl e \<Rightarrow> Inl (ServerError e)
           | Inr snap \<Rightarrow>
               let a = new_attempt now (db_next d1) sub student_id cfg questions snap
               in Inr (add_attempt a d1, Redirect (quiz_url (att_id a)))))"

text \<open>From the existing attempts to a new one: resume, show the result, or draw.\<close>

definition continue_quiz ::
  "int \<Rightarrow> (nat \<Rightarrow> nat) \<Rightarrow> subjects_assignment \<Rightarrow> submission \<Rightarrow> int \<Rightarrow> db \<Rightarrow> reply + (db \<times> reply)"
where
  "continue_quiz now rnd asg sub student_id d =
     (let existing = existing_attempts d sub student_id in
      case find (\<lambda>a. att_status a = Attempt_IN_PROGRESS) existing of
        Some a \<Rightarrow> Inr (d, Redirect (quiz_url (att_id a)))
      | None \<Rightarrow>
     (case find (\<lambda>a. att_is_passed a = Some True) existing of
        Some a \<Rightarrow> Inr (d, Redirect (result_url (att_id a)))
      | None \<Rightarrow>
     (case sub_plugin_config_id sub of
        None \<Rightarrow> Inl (HttpError 503 ''No plugin config pinned to this submission'')
      | Some config_id \<Rightarrow>
     (case get_config d config_id of
        None \<Rightarrow> Inl (HttpError 503 ''Plugin config not found'')
      | Some cfg \<Rightarrow>
     (case asg_code asg of
        None \<Rightarrow> Inl (HttpError 404 ''Assignment has no config code'')
      | Some code \<Rightarrow>
          if code = '''' then Inl (HttpError 404 ''Assignment has no config code'')
          else
            (case pinned_quiz cfg code of
               Inl e \<Rightarrow> Inl (ServerError e)
             | Inr (pa, quiz_cfg) \<Rightarrow>
                 if quiz_cfg = [] \<or> \<not> truthy (dget quiz_cfg ''questions'' JNull)
                 then Inl (HttpError 404 ''No quiz configured for this assignment'')
                 else
                   (case allowed_attempts (dget quiz_cfg ''max_quiz_attempts'' JNull) sub student_id of
                      Inl e \<Rightarrow> Inl (ServerError e)
                    | Inr allowed \<Rightarrow>
                        let used_count = length (filter (\<lambda>a. att_status a \<in> set terminal_attempt_statuses) existing) in
                        if (case allowed of Some cap \<Rightarrow> of_nat used_count \<ge> cap | None \<Rightarrow> False)
                        then (if existing \<noteq> [] then Inr (d, Redirect (result_url (att_id (last existing))))
                              else Inl (HttpError 403 ''No quiz attempts remaining''))
                        else create_attempt now rnd sub student_id cfg pa quiz_cfg used_count d)))))))"

definition open_or_latest ::
  "int \<Rightarrow> student_assignment \<Rightarrow> subjects_assignment \<Rightarrow> int \<Rightarrow> db \<Rightarrow> reply + (submission option \<times> db)"
where
  "open_or_latest now sa asg student_id d =
     (let (latest, d1) = latest_submission sa d in
      if (case latest of None \<Rightarrow> True | Some s \<Rightarrow> sub_status s \<in> set REOPENABLE) \<and> is_scored_mode (asg_config asg)
      then
        (case open_quiz_submission now sa student_id d1 of
           Inl (QuizOpenError msg) \<Rightarrow> Inl (HttpError 409 msg)
         | Inl (OpenTransition _) \<Rightarrow> Inl (ServerError ValueError)
         | Inr (sub, d2) \<Rightarrow> Inr (Some sub, d2))
      else Inr (latest, d1))"

definition start_or_resume_quiz :: "int \<Rightarrow> (nat \<Rightarrow> nat) \<Rightarrow> int \<Rightarrow> int \<Rightarrow> db \<Rightarrow> db \<times> reply" where
  "start_or_resume_quiz now rnd student_id sa_id_arg d =
     (if needs_consent d student_id then (d, Redirect ''/portal/consent'')
      else
     (case get_sa d sa_id_arg of
        None \<Rightarrow> (d, HttpError 404 '''')
      | Some sa \<Rightarrow>
     if sa_student_id sa \<noteq> student_id then (d, HttpError 404 '''')
     else
     (case get_assignment d (sa_subjects_assignment_id sa) of
        None \<Rightarrow> (d, ServerError AttributeError)
      | Some asg \<Rightarrow>
     (case open_or_latest now sa asg student_id d of
        Inl r \<Rightarrow> (d, r)
      | Inr (None, _) \<Rightarrow> (d, HttpError 403 ''Quiz not available for this submission'')
      | Inr (Some sub, d1) \<Rightarrow>
          if sub_status sub \<noteq> QUIZ_SENT then (d, HttpError 403 ''Quiz not available for this submission'')
          else
            (case continue_quiz now rnd asg sub student_id d1 of
               Inl r \<Rightarrow> (d, r)
             | Inr (d', r) \<Rightarrow> (d', r))))))"


section \<open>Showing the quiz\<close>

text \<open>The stepped branch: burn what expired, then finish or serve the current question. The burned
  questions are committed before anything else; an anchor set without a burn is written when the
  route returns.\<close>

definition show_step :: "int \<Rightarrow> quiz_attempt \<Rightarrow> db \<Rightarrow> db \<times> reply" where
  "show_step now a d =
     (let (a1, burned) = advance_expired now a;
          d1 = (if burned \<noteq> 0 then put_attempt a1 d else d)
      in
        if current_question a1 = None
        then finish now a1 Attempt_COMPLETED (Redirect (result_url (att_id a))) d1
        else
          let a2 = (if att_question_started_at a1 = None then a1\<lparr>att_question_started_at := Some now\<rparr> else a1)
          in (put_attempt a2 d, Page ''student_quiz_step.html''))"

definition show_quiz :: "int \<Rightarrow> int \<Rightarrow> int \<Rightarrow> db \<Rightarrow> db \<times> reply" where
  "show_quiz now student_id attempt_id d =
     (if needs_consent d student_id then (d, Redirect ''/portal/consent'')
      else
     (case load_attempt d attempt_id student_id of
        Inl r \<Rightarrow> (d, r)
      | Inr (a, _) \<Rightarrow>
          let result = Redirect (result_url attempt_id) in
          if att_status a \<in> set terminal_attempt_statuses then (d, result)
          else if force_fail a then finish now a Attempt_VIOLATION_FAIL result d
          else if att_paused_at a \<noteq> None then (d, Page ''student_quiz_paused.html'')
          else if is_timed_out now a then finish now a Attempt_TIMED_OUT result d
          else if is_stepped a then show_step now a d
          else (d, Page ''student_quiz.html'')))"

section \<open>Answering\<close>

text \<open>\<open>int(str(form.get("index", "-1")))\<close>, minus one when it is no integer.\<close>

definition posted_index :: "form \<Rightarrow> int" where
  "posted_index form = (case parse_int (form_get form ''index'' ''-1'') of Some i \<Rightarrow> i | None \<Rightarrow> -1)"

definition take_answer :: "int \<Rightarrow> form \<Rightarrow> quiz_attempt \<Rightarrow> quiz_attempt" where
  "take_answer now form a =
     (case current_question a of
        None \<Rightarrow> a
      | Some q \<Rightarrow>
          a\<lparr>att_answers := att_answers a @ [graded_answer form q],
            att_current_index := att_current_index a + 1,
            att_question_started_at := Some now\<rparr>)"

definition answer_question :: "int \<Rightarrow> int \<Rightarrow> int \<Rightarrow> form \<Rightarrow> db \<Rightarrow> db \<times> reply" where
  "answer_question now student_id attempt_id form d =
     (case load_attempt d attempt_id student_id of
        Inl r \<Rightarrow> (d, r)
      | Inr (a, _) \<Rightarrow>
          let result = Redirect (result_url attempt_id); back = Redirect (quiz_url attempt_id) in
          if att_status a \<in> set terminal_attempt_statuses then (d, result)
          else if \<not> is_stepped a then (d, back)
          else if att_paused_at a \<noteq> None then (d, back)
          else if force_fail a then finish now a Attempt_VIOLATION_FAIL result d
          else
            let (a1, expired) = advance_expired now a;
                a2 = (if expired = 0 \<and> posted_index form = int (att_current_index a1)
                      then take_answer now form a1 else a1)
            in
              if current_question a2 = None then finish now a2 Attempt_COMPLETED result d
              else (put_attempt a2 d, back))"

text \<open>Submitting a whole quiz replaces every stored answer by what the form holds.\<close>

definition submit_quiz :: "int \<Rightarrow> int \<Rightarrow> int \<Rightarrow> form \<Rightarrow> db \<Rightarrow> db \<times> reply" where
  "submit_quiz now student_id attempt_id form d =
     (case load_attempt d attempt_id student_id of
        Inl r \<Rightarrow> (d, r)
      | Inr (a, _) \<Rightarrow>
          let result = Redirect (result_url attempt_id); back = Redirect (quiz_url attempt_id) in
          if att_status a \<in> set terminal_attempt_statuses then (d, result)
          else if is_stepped a then (d, back)
          else if att_paused_at a \<noteq> None then (d, back)
          else
            let final_status =
                  (if force_fail a then Attempt_VIOLATION_FAIL
                   else if is_timed_out now a then Attempt_TIMED_OUT
                   else Attempt_COMPLETED);
                a1 = a\<lparr>att_answers := map (graded_answer form) (att_questions_snapshot a)\<rparr>
            in finish now a1 final_status result d)"

section \<open>Air-raid pause\<close>

text \<open>The alert provider is a service: it answers for a region's uid, or cannot be reached.\<close>

datatype alert_answer = AlertActive | NoAlert | ProviderError

definition pause_reply :: "string \<Rightarrow> reply" where
  "pause_reply reason = Json [(''paused'', JBool False), (''reason'', JStr reason)]"

definition coordinates :: "json option \<Rightarrow> (rat \<times> rat) option" where
  "coordinates body =
     (case body of
        Some (JObj b) \<Rightarrow>
          (case (map_of b ''lat'', map_of b ''lng'') of
             (Some lat, Some lng) \<Rightarrow>
               (case (py_float lat, py_float lng) of (Inr x, Inr y) \<Rightarrow> Some (x, y) | _ \<Rightarrow> None)
           | _ \<Rightarrow> None)
      | _ \<Rightarrow> None)"

definition open_pause_row :: "int \<Rightarrow> int \<Rightarrow> int \<Rightarrow> db \<Rightarrow> db" where
  "open_pause_row now attempt_id region_uid d =
     d\<lparr>db_pauses := db_pauses d @
         [\<lparr>pause_id = db_next d, pause_attempt_id = attempt_id, pause_started_at = now,
           pause_ended_at = None, pause_region_uid = region_uid\<rparr>],
       db_next := db_next d + 1\<rparr>"

definition verify_alert ::
  "region list \<Rightarrow> (int \<Rightarrow> alert_answer) option \<Rightarrow> rat \<times> rat \<Rightarrow> reply + region"
where
  "verify_alert regions provider pos =
     (case provider of
        None \<Rightarrow> Inl (pause_reply ''unavailable'')
      | Some active_alert \<Rightarrow>
          (case resolve_region regions (fst pos) (snd pos) of
             None \<Rightarrow> Inl (pause_reply ''outside_coverage'')
           | Some r \<Rightarrow>
               (case active_alert (reg_uid r) of
                  ProviderError \<Rightarrow> Inl (pause_reply ''unavailable'')
                | NoAlert \<Rightarrow> Inl (Json [(''paused'', JBool False), (''reason'', JStr ''no_alert''),
                                       (''region'', JStr (reg_title r))])
                | AlertActive \<Rightarrow> Inr r)))"

text \<open>\<open>d1\<close> is what has been committed when the body is read, \<open>a1\<close> the attempt with its clock settled.\<close>

definition grant_pause ::
  "int \<Rightarrow> region list \<Rightarrow> (int \<Rightarrow> alert_answer) option \<Rightarrow> int \<Rightarrow> json option \<Rightarrow> quiz_attempt \<Rightarrow> db \<Rightarrow> db \<times> reply"
where
  "grant_pause now regions provider user_id body a1 d1 =
     (case coordinates body of
        None \<Rightarrow> (d1, HttpError 400 ''lat and lng are required'')
      | Some pos \<Rightarrow>
          (case verify_alert regions provider pos of
             Inl r \<Rightarrow> (put_attempt a1 d1, r)
           | Inr r \<Rightarrow>
               (audit ''student_air_raid_pause'' (Some user_id) (Some (att_id a1))
                  (open_pause_row now (att_id a1) (reg_uid r)
                    (put_attempt (a1\<lparr>att_paused_at := Some now\<rparr>) d1)),
                Json [(''paused'', JBool True), (''region'', JStr (reg_title r)),
                      (''redirect'', JStr (quiz_url (att_id a1)))])))"

definition request_air_raid_pause ::
  "int \<Rightarrow> region list \<Rightarrow> (int \<Rightarrow> alert_answer) option \<Rightarrow> int \<Rightarrow> int \<Rightarrow> int \<Rightarrow> json option \<Rightarrow> db \<Rightarrow> db \<times> reply"
where
  "request_air_raid_pause now regions provider user_id student_id attempt_id body d =
     (case load_attempt d attempt_id student_id of
        Inl r \<Rightarrow> (d, r)
      | Inr (a, _) \<Rightarrow>
          if att_status a \<noteq> Attempt_IN_PROGRESS then (d, pause_reply ''attempt_closed'')
          else if att_paused_at a \<noteq> None
          then (d, Json [(''paused'', JBool True), (''already'', JBool True)])
          else if is_timed_out now a then finish now a Attempt_TIMED_OUT (pause_reply ''attempt_closed'') d
          else if is_stepped a then
            let (a1, burned) = advance_expired now a;
                d1 = (if burned \<noteq> 0 then put_attempt a1 d else d)
            in
              if current_question a1 = None
              then finish now a1 Attempt_COMPLETED (pause_reply ''attempt_closed'') d1
              else grant_pause now regions provider user_id body a1 d1
          else grant_pause now regions provider user_id body a d)"

definition open_pause :: "db \<Rightarrow> int \<Rightarrow> quiz_attempt_pause option" where
  "open_pause d attempt_id =
     (case sort_key (\<lambda>p. - pause_started_at p)
             (filter (\<lambda>p. pause_attempt_id p = attempt_id \<and> pause_ended_at p = None) (db_pauses d)) of
        [] \<Rightarrow> None | p # _ \<Rightarrow> Some p)"

definition end_pause_row :: "int \<Rightarrow> int \<Rightarrow> db \<Rightarrow> db" where
  "end_pause_row i ended d =
     d\<lparr>db_pauses := upd_row pause_id i (\<lambda>p. p\<lparr>pause_ended_at := Some ended\<rparr>) (db_pauses d)\<rparr>"

definition resume_after_air_raid :: "int \<Rightarrow> int \<Rightarrow> int \<Rightarrow> int \<Rightarrow> db \<Rightarrow> db \<times> reply" where
  "resume_after_air_raid now user_id student_id attempt_id d =
     (case load_attempt d attempt_id student_id of
        Inl r \<Rightarrow> (d, r)
      | Inr (a, _) \<Rightarrow>
          let back = Redirect (quiz_url attempt_id) in
          (case att_paused_at a of
             None \<Rightarrow> (d, back)
           | Some paused_at \<Rightarrow>
               let (a1, elapsed) = close_open_pause now a;
                   d1 = put_attempt a1 d;
                   d2 = (case open_pause d (att_id a) of
                           Some p \<Rightarrow> end_pause_row (pause_id p) (paused_at + timedelta (of_int elapsed)) d1
                         | None \<Rightarrow> d1)
               in (audit ''student_air_raid_resume'' (Some user_id) (Some (att_id a)) d2, back)))"

end
