(* ===== verification/QuizEvents.thy ===== *)
theory QuizEvents
  imports QuizRoutes
begin

text \<open>
  Events of a running quiz (\<open>routes/student_quiz.py\<close>, \<open>_read_event\<close> to \<open>report_question\<close>, and
  \<open>services/quiz_events.py\<close>): the sanitised context of a client event, the anti-cheat rules of the
  attempt's configuration snapshot, the timeline, and the report of a broken question.

  The rules are the teacher's document as stored, so every subscript of the source is a lookup that
  may raise. A rule's message is kept as the segments \<open>str.format\<close> would join; a format
  specification after a known field only changes how the value is printed and is dropped.
\<close>

section \<open>The context of an event\<close>

definition INFORMATIONAL_EVENT_TYPES :: "string list" where
  "INFORMATIONAL_EVENT_TYPES = [''tab_return'', ''focus_return'']"

definition MAX_EVENTS_STORED_PER_ATTEMPT :: nat where
  "MAX_EVENTS_STORED_PER_ATTEMPT = 500"

definition MAX_CTX_BYTES :: nat where
  "MAX_CTX_BYTES = 1024"

definition INT_MAX :: int where
  "INT_MAX = 1000000000"

definition int_keys :: "string list" where
  "int_keys = [''vw'', ''vh'', ''ms_since_load'', ''from_w'', ''from_h'', ''to_w'', ''to_h'',
     ''away_ms'', ''faces'', ''held_ms'']"

definition angle_keys :: "string list" where
  "angle_keys = [''yaw'', ''pitch'']"

definition visibility_values :: "string list" where
  "visibility_values = [''visible'', ''hidden'']"

text \<open>\<open>float(n)\<close> raises once \<open>n\<close> rounds to \<open>2 ** 1024\<close>; \<open>math.isfinite\<close> converts the same way.\<close>

definition float_overflow :: "int \<Rightarrow> bool" where
  "float_overflow n \<longleftrightarrow> \<bar>n\<bar> \<ge> 2 ^ 1024 - 2 ^ 970"

definition ctx_number :: "json \<Rightarrow> py_exn + rat option" where
  "ctx_number v =
     (case v of
        JInt n \<Rightarrow> if float_overflow n then Inl OverflowError else Inr (Some (of_int n))
      | JFloat x \<Rightarrow> Inr (Some x)
      | _ \<Rightarrow> Inr None)"

text \<open>\<open>((ctrl|alt|meta|shift)\+){0,4}[a-z0-9]{1,12}\<close>: the modifiers in front, then the key.\<close>

definition is_lower_alnum :: "char \<Rightarrow> bool" where
  "is_lower_alnum c = (is_dec_digit c \<or> (97 \<le> (of_char c :: nat) \<and> (of_char c :: nat) \<le> 122))"

definition combo_re_match :: "string \<Rightarrow> bool" where
  "combo_re_match s =
     (let parts = split_on (CHR ''+'') s; mods = butlast parts; key = last parts in
      length mods \<le> 4 \<and> list_all (\<lambda>m. m \<in> set [''ctrl'', ''alt'', ''meta'', ''shift'']) mods \<and>
      1 \<le> length key \<and> length key \<le> 12 \<and> list_all is_lower_alnum key)"

text \<open>What one entry becomes; \<open>None\<close> is left out.\<close>

definition clean_entry :: "string \<Rightarrow> json \<Rightarrow> py_exn + json option" where
  "clean_entry key v =
     (if key \<in> set int_keys then
        bind_result (ctx_number v) (\<lambda>n. Inr (map_option (\<lambda>x. JInt (min (max (py_trunc x) 0) INT_MAX)) n))
      else if key \<in> set angle_keys then
        bind_result (ctx_number v) (\<lambda>n.
          Inr (map_option (\<lambda>x. JFloat (py_round_digits 1 (min (max x (-180)) 180))) n))
      else
        Inr (case v of
               JBool b \<Rightarrow> if key = ''has_focus'' then Some v else None
             | JStr s \<Rightarrow> if key = ''visibility'' \<and> s \<in> set visibility_values then Some v
                         else if key = ''combo'' \<and> combo_re_match s then Some v else None
             | _ \<Rightarrow> None))"

fun clean_loop :: "pydict \<Rightarrow> py_exn + pydict" where
  "clean_loop [] = Inr []"
| "clean_loop ((k, v) # rest) =
     bind_result (clean_entry k v) (\<lambda>e.
     bind_result (clean_loop rest) (\<lambda>clean.
       Inr (case e of Some v' \<Rightarrow> (k, v') # clean | None \<Rightarrow> clean)))"

text \<open>\<open>len(json.dumps(clean))\<close> for the values a clean context can hold: the braces, and per entry the
  quoted key, a colon, a blank and the value, with \<open>, \<close> between entries. An angle prints as its
  sign, its integer part, the point and one digit.\<close>

fun value_len :: "json \<Rightarrow> nat" where
  "value_len (JInt n) = length (str_of_int n)"
| "value_len (JFloat x) = (if x < 0 then 1 else 0) + length (str_of_nat (nat \<lfloor>\<bar>x\<bar>\<rfloor>)) + 2"
| "value_len (JBool b) = (if b then 4 else 5)"
| "value_len (JStr s) = length s + 2"
| "value_len _ = 0"

definition dumps_len :: "pydict \<Rightarrow> nat" where
  "dumps_len d = 2 + sum_list (map (\<lambda>(k, v). length k + 4 + value_len v) d) + 2 * (length d - 1)"

definition sanitize_ctx :: "json \<Rightarrow> py_exn + pydict" where
  "sanitize_ctx raw =
     (case raw of
        JObj d \<Rightarrow> bind_result (clean_loop d) (\<lambda>clean. Inr (if dumps_len clean > MAX_CTX_BYTES then [] else clean))
      | _ \<Rightarrow> Inr [])"

section \<open>Reading the event\<close>

definition MAX_EVENT_BODY_BYTES :: int where
  "MAX_EVENT_BODY_BYTES = 4096"

definition MAX_DISTINCT_EVENT_TYPES :: nat where
  "MAX_DISTINCT_EVENT_TYPES = 32"

text \<open>\<open>[a-z0-9][a-z0-9_]{0,63}\<close>, a full match.\<close>

definition event_type_ok :: "string \<Rightarrow> bool" where
  "event_type_ok s =
     (case s of
        [] \<Rightarrow> False
      | c # cs \<Rightarrow> is_lower_alnum c \<and> length cs \<le> 63 \<and> list_all (\<lambda>x. is_lower_alnum x \<or> x = CHR ''_'') cs)"

text \<open>\<open>declared\<close> is the \<open>content-length\<close> header, \<open>raw_len\<close> the length of the body, \<open>data\<close> the parsed
  body or \<open>None\<close> when it is no JSON.\<close>

definition read_event :: "string option \<Rightarrow> nat \<Rightarrow> json option \<Rightarrow> reply + (string \<times> pydict)" where
  "read_event declared raw_len data =
     (let too_large = HttpError 413 ''Event body too large'';
          body =
            (if int raw_len > MAX_EVENT_BODY_BYTES then Inl too_large
             else case data of
                    None \<Rightarrow> Inl (HttpError 400 ''Body must be JSON'')
                  | Some (JObj d) \<Rightarrow>
                      (case dget d ''type'' JNull of
                         JStr t \<Rightarrow>
                           if event_type_ok t
                           then (case sanitize_ctx (dget d ''ctx'' JNull) of
                                   Inl e \<Rightarrow> Inl (ServerError e) | Inr ctx \<Rightarrow> Inr (t, ctx))
                           else Inl (HttpError 400 ''type must be a short snake_case name'')
                       | _ \<Rightarrow> Inl (HttpError 400 ''type must be a short snake_case name''))
                  | Some _ \<Rightarrow> Inl (HttpError 400 ''Body must be a JSON object''))
      in
        case declared of
          None \<Rightarrow> body
        | Some h \<Rightarrow>
            if py_isdigit h then
              (case parse_int h of
                 None \<Rightarrow> Inl (ServerError ValueError)
               | Some n \<Rightarrow> if n > MAX_EVENT_BODY_BYTES then Inl too_large else body)
            else body)"

section \<open>The timeline\<close>

definition record_event ::
  "quiz_attempt \<Rightarrow> string \<Rightarrow> pydict \<Rightarrow> quiz_event_outcome \<Rightarrow> string \<Rightarrow> int option \<Rightarrow> int option \<Rightarrow> db \<Rightarrow> db"
where
  "record_event a event_type ctx outcome action count_after rule_threshold d =
     (if action \<noteq> ''fail'' \<and>
         length (filter (\<lambda>e. ev_attempt_id e = att_id a) (db_events d)) \<ge> MAX_EVENTS_STORED_PER_ATTEMPT
      then d
      else d\<lparr>db_events := db_events d @
               [\<lparr>ev_attempt_id = att_id a, ev_event_type = event_type, ev_count_after = count_after,
                 ev_rule_threshold = rule_threshold, ev_action = action, ev_outcome = outcome,
                 ev_client_ctx = ctx\<rparr>]\<rparr>)"


section \<open>The rules\<close>

text \<open>\<open>v[k]\<close> on a value of the document.\<close>

definition jget :: "json \<Rightarrow> string \<Rightarrow> py_exn + json" where
  "jget v k =
     (case v of
        JObj d \<Rightarrow> (case map_of d k of Some x \<Rightarrow> Inr x | None \<Rightarrow> Inl KeyError)
      | _ \<Rightarrow> Inl TypeError)"

definition jget_default :: "json \<Rightarrow> string \<Rightarrow> json \<Rightarrow> py_exn + json" where
  "jget_default v k dflt = (case v of JObj d \<Rightarrow> Inr (dget d k dflt) | _ \<Rightarrow> Inl AttributeError)"

text \<open>\<open>count >= threshold\<close>.\<close>

definition int_ge :: "int \<Rightarrow> json \<Rightarrow> py_exn + bool" where
  "int_ge n v = (if is_number v then Inr (of_int n \<ge> number_value v) else Inl TypeError)"

text \<open>\<open>str.format\<close> with keyword arguments: doubled braces, and replacement fields by name.\<close>

datatype segment = Lit char | Field json

definition field_value :: "(string \<times> json) list \<Rightarrow> string \<Rightarrow> py_exn + json" where
  "field_value args spec =
     (let name = takeWhile (\<lambda>c. c \<noteq> CHR '':'' \<and> c \<noteq> CHR ''!'') spec in
      if name = '''' \<or> list_all is_dec_digit name then Inl IndexError
      else case map_of args name of Some v \<Rightarrow> Inr v | None \<Rightarrow> Inl KeyError)"

fun format_fields :: "(string \<times> json) list \<Rightarrow> string option \<Rightarrow> string \<Rightarrow> py_exn + segment list" where
  "format_fields args None [] = Inr []"
| "format_fields args (Some f) [] = Inl ValueError"
| "format_fields args None (c # cs) =
     (if c = CHR ''{'' then
        (case cs of
           c' # cs' \<Rightarrow>
             if c' = CHR ''{'' then bind_result (format_fields args None cs') (\<lambda>r. Inr (Lit c # r))
             else format_fields args (Some []) (c' # cs')
         | [] \<Rightarrow> Inl ValueError)
      else if c = CHR ''}'' then
        (case cs of
           c' # cs' \<Rightarrow>
             if c' = CHR ''}'' then bind_result (format_fields args None cs') (\<lambda>r. Inr (Lit c # r))
             else Inl ValueError
         | [] \<Rightarrow> Inl ValueError)
      else bind_result (format_fields args None cs) (\<lambda>r. Inr (Lit c # r)))"
| "format_fields args (Some f) (c # cs) =
     (if c = CHR ''}'' then
        bind_result (field_value args (rev f)) (\<lambda>v.
        bind_result (format_fields args None cs) (\<lambda>r. Inr (Field v # r)))
      else if c = CHR ''{'' then Inl ValueError
      else format_fields args (Some (c # f)) cs)"

definition py_format :: "json \<Rightarrow> (string \<times> json) list \<Rightarrow> py_exn + segment list" where
  "py_format raw args = (case raw of JStr s \<Rightarrow> format_fields args None s | _ \<Rightarrow> Inl AttributeError)"

text \<open>\<open>next((r["threshold"] for r in rules if ... == "fail"), None)\<close>.\<close>

fun fail_threshold :: "string \<Rightarrow> json list \<Rightarrow> py_exn + json option" where
  "fail_threshold event_type [] = Inr None"
| "fail_threshold event_type (r # rs) =
     bind_result (jget r ''event'') (\<lambda>e.
       if e \<noteq> JStr event_type then fail_threshold event_type rs
       else
         bind_result (jget r ''action'') (\<lambda>action.
         bind_result (jget action ''type'') (\<lambda>t.
           if t = JStr ''fail'' then map_sum id Some (jget r ''threshold'')
           else fail_threshold event_type rs)))"

text \<open>The first rule of the event whose threshold the count has reached.\<close>

fun matching_rule :: "string \<Rightarrow> int \<Rightarrow> json list \<Rightarrow> py_exn + (json \<times> json) option" where
  "matching_rule event_type cnt [] = Inr None"
| "matching_rule event_type cnt (r # rs) =
     bind_result (jget r ''event'') (\<lambda>e.
       if e \<noteq> JStr event_type then matching_rule event_type cnt rs
       else
         bind_result (jget r ''threshold'') (\<lambda>t.
         bind_result (int_ge cnt t) (\<lambda>reached.
           if reached then Inr (Some (r, t)) else matching_rule event_type cnt rs)))"

section \<open>Applying a rule\<close>

record rule_effect =
  re_attempt :: quiz_attempt
  re_violations :: "(string \<times> violation) list"
  re_action :: string
  re_seconds :: "int option"
  re_message :: "segment list"
  re_threshold :: "int option"

definition no_effect :: "quiz_attempt \<Rightarrow> (string \<times> violation) list \<Rightarrow> rule_effect" where
  "no_effect a vs =
     \<lparr>re_attempt = a, re_violations = vs, re_action = ''none'', re_seconds = None, re_message = [], re_threshold = None\<rparr>"

definition reduce_time :: "int \<Rightarrow> int \<Rightarrow> rule_effect \<Rightarrow> rule_effect" where
  "reduce_time now penalty e =
     (let a = re_attempt e; vs = re_violations e in
      if is_stepped a then
        let a' = a\<lparr>att_question_started_at := map_option (\<lambda>t. t - timedelta (of_int penalty)) (att_question_started_at a)\<rparr>
        in e\<lparr>re_attempt := a', re_action := ''reduce_time'', re_seconds := question_seconds_remaining now a'\<rparr>
      else
        let vs' = dict_set ''_time_penalty_seconds'' (VCount (penalty_in vs + penalty)) vs
        in e\<lparr>re_violations := vs', re_action := ''reduce_time'',
             re_seconds := seconds_remaining_from_violations now a vs'\<rparr>)"

definition flag_event :: "string \<Rightarrow> rule_effect \<Rightarrow> rule_effect" where
  "flag_event event_type e =
     (let vs = re_violations e;
          flagged = (case map_of vs ''_flagged_events'' of Some v \<Rightarrow> v | None \<Rightarrow> VEvents []);
          flagged' = (case flagged of VEvents es \<Rightarrow> VEvents (es @ [event_type]) | v \<Rightarrow> v)
      in e\<lparr>re_violations := dict_set ''_flagged_events'' flagged' vs, re_action := ''flag'', re_message := []\<rparr>)"

definition apply_action :: "int \<Rightarrow> string \<Rightarrow> json \<Rightarrow> int \<Rightarrow> rule_effect \<Rightarrow> rule_effect" where
  "apply_action now event_type action_type penalty e =
     (if action_type = JStr ''fail'' then
        e\<lparr>re_violations := dict_set ''_force_fail'' (VFlag True) (re_violations e), re_action := ''fail''\<rparr>
      else if action_type = JStr ''reduce_time'' then reduce_time now penalty e
      else if action_type = JStr ''warn'' then e\<lparr>re_action := ''warn''\<rparr>
      else if action_type = JStr ''flag'' then flag_event event_type e
      else e)"

definition evaluate_rules ::
  "int \<Rightarrow> string \<Rightarrow> int \<Rightarrow> quiz_attempt \<Rightarrow> (string \<times> violation) list \<Rightarrow> py_exn + rule_effect"
where
  "evaluate_rules now event_type cnt a vs =
     bind_result (jget_default (cs_anti_cheat (att_config_snapshot a)) ''rules'' (JList [])) (\<lambda>rules_json.
     bind_result (py_iter rules_json) (\<lambda>rules.
     bind_result (fail_threshold event_type rules) (\<lambda>ft.
     bind_result (matching_rule event_type cnt rules) (\<lambda>m.
       case m of
         None \<Rightarrow> Inr (no_effect a vs)
       | Some (rule, threshold) \<Rightarrow>
           bind_result (py_int threshold) (\<lambda>matched.
           bind_result (jget rule ''action'') (\<lambda>action.
           bind_result (jget action ''type'') (\<lambda>action_type.
           bind_result (jget_default action ''penalty_seconds'' (JInt 60)) (\<lambda>p.
           bind_result (py_int p) (\<lambda>penalty.
           bind_result (jget_default action ''message'' (JStr '''')) (\<lambda>raw_msg.
           bind_result (py_format raw_msg
               [(''count'', JInt cnt), (''threshold'', threshold), (''penalty_seconds'', JInt penalty),
                (''fail_threshold'', case ft of Some t \<Rightarrow> t | None \<Rightarrow> JStr ''?'')]) (\<lambda>message.
             Inr (apply_action now event_type action_type penalty
                    ((no_effect a vs)\<lparr>re_message := message, re_threshold := Some matched\<rparr>)))))))))))))"

definition segment_json :: "segment \<Rightarrow> json" where
  "segment_json s = (case s of Lit c \<Rightarrow> JStr [c] | Field v \<Rightarrow> v)"

definition event_reply :: "string \<Rightarrow> int option \<Rightarrow> segment list \<Rightarrow> int \<Rightarrow> reply" where
  "event_reply action secs msg cnt =
     Json [(''action'', JStr action), (''seconds_remaining'', opt_json secs),
           (''message'', JList (map segment_json msg)), (''violation_count'', JInt cnt)]"

definition apply_event :: "int \<Rightarrow> string \<Rightarrow> pydict \<Rightarrow> quiz_attempt \<Rightarrow> db \<Rightarrow> db \<times> reply" where
  "apply_event now event_type ctx a d =
     (let n = (case map_of (att_violations a) event_type of Some v \<Rightarrow> violation_int v | None \<Rightarrow> 0) + 1;
          vs = dict_set event_type (VCount n) (att_violations a)
      in
        case evaluate_rules now event_type n a vs of
          Inl e \<Rightarrow> (d, ServerError e)
        | Inr eff \<Rightarrow>
            let a' = (re_attempt eff)\<lparr>att_violations := re_violations eff\<rparr> in
            (record_event a' event_type ctx APPLIED (re_action eff) (Some n) (re_threshold eff) (put_attempt a' d),
             event_reply (re_action eff) (re_seconds eff) (re_message eff) n))"

text \<open>\<open>report_violation\<close>.\<close>

definition report_violation ::
  "int \<Rightarrow> int \<Rightarrow> int \<Rightarrow> string option \<Rightarrow> nat \<Rightarrow> json option \<Rightarrow> db \<Rightarrow> db \<times> reply"
where
  "report_violation now student_id attempt_id declared raw_len data d =
     (case read_event declared raw_len data of
        Inl r \<Rightarrow> (d, r)
      | Inr (event_type, ctx) \<Rightarrow>
     (case load_attempt d attempt_id student_id of
        Inl r \<Rightarrow> (d, r)
      | Inr (a, _) \<Rightarrow>
          let log = (\<lambda>outcome. record_event a event_type ctx outcome ''none'' None None d) in
          if att_status a \<noteq> Attempt_IN_PROGRESS then
            (log IGNORED_NOT_IN_PROGRESS, Json [(''action'', JStr ''none''), (''violation_count'', JInt 0)])
          else if event_type \<in> set INFORMATIONAL_EVENT_TYPES then
            (log INFORMATIONAL, event_reply ''none'' None [] 0)
          else if att_paused_at a \<noteq> None then
            (log IGNORED_PAUSED,
             Json [(''action'', JStr ''none''), (''violation_count'', JInt 0), (''paused'', JBool True)])
          else if event_type \<notin> fst ` set (att_violations a) \<and>
                  length (att_violations a) \<ge> MAX_DISTINCT_EVENT_TYPES then
            (log IGNORED_TYPE_CAP, event_reply ''none'' None [] 0)
          else apply_event now event_type ctx a d))"

section \<open>Reporting a question\<close>

definition new_dispute :: "int \<Rightarrow> quiz_attempt \<Rightarrow> int \<Rightarrow> int \<Rightarrow> string option \<Rightarrow> quiz_question_dispute" where
  "new_dispute i a question_id student_id note =
     \<lparr>dis_id = i, dis_attempt_id = att_id a, dis_question_id = question_id, dis_student_id = student_id,
      dis_plugin_config_id = att_plugin_config_id a, dis_plugin_config_version = att_plugin_config_version a,
      dis_student_note = note, dis_status = Dispute_OPEN, dis_teacher_note = None,
      dis_resolved_by_user_id = None, dis_resolved_at = None\<rparr>"

definition add_dispute :: "quiz_question_dispute \<Rightarrow> db \<Rightarrow> db" where
  "add_dispute x d = d\<lparr>db_disputes := db_disputes d @ [x], db_next := db_next d + 1\<rparr>"

text \<open>\<open>str(body.get("note") or "").strip() or None\<close>; the page posts text, and of anything else that
  is true only the fact that a note was given is kept.\<close>

definition note_of :: "json \<Rightarrow> string option" where
  "note_of v =
     (case v of
        JStr s \<Rightarrow> (let t = py_strip s in if t = '''' then None else Some t)
      | _ \<Rightarrow> if truthy v then Some ''?'' else None)"

definition report_question :: "int \<Rightarrow> int \<Rightarrow> int \<Rightarrow> json option \<Rightarrow> db \<Rightarrow> db \<times> reply" where
  "report_question user_id student_id attempt_id data d =
     (case load_attempt d attempt_id student_id of
        Inl r \<Rightarrow> (d, r)
      | Inr (a, sub) \<Rightarrow>
          let body = (case data of Some (JObj b) \<Rightarrow> b | _ \<Rightarrow> []) in
          (case py_int (dget body ''question_id'' JNull) of
             Inl e \<Rightarrow> (d, HttpError 400 ''question_id is required'')
           | Inr question_id \<Rightarrow>
          (case find (\<lambda>q. q_id q = question_id) (att_questions_snapshot a) of
             None \<Rightarrow> (d, HttpError 400 ''Question is not part of this attempt'')
           | Some q \<Rightarrow>
               let i = db_next d;
                   x = new_dispute i a question_id student_id (note_of (dget body ''note'' JNull));
                   d1 = add_dispute x d;
                   name = (case get_student d student_id of
                             Some s \<Rightarrow> stu_full_name s
                           | None \<Rightarrow> ''Student '' @ str_of_int student_id)
               in (audit ''student_reported_question'' (Some user_id) (Some (att_id a))
                     (push_dispute_notifications (sub_id sub) i (q_text q) name d1),
                   Json [(''ok'', JBool True), (''dispute_id'', JInt i)]))))"

section \<open>Evidence frames\<close>

definition MAX_SNAPSHOT_BYTES :: nat where
  "MAX_SNAPSHOT_BYTES = 2 * 1024 * 1024"

definition MAX_SNAPSHOTS_PER_ATTEMPT :: nat where
  "MAX_SNAPSHOTS_PER_ATTEMPT = 200"

definition snapshot_types :: "(string \<times> string \<times> nat list) list" where
  "snapshot_types =
     [(''image/jpeg'', ''jpg'', [255, 216, 255]), (''image/png'', ''png'', [137, 80, 78, 71]),
      (''image/webp'', ''webp'', [82, 73, 70, 70])]"

definition looks_like :: "string \<Rightarrow> nat list \<Rightarrow> bool" where
  "looks_like content_type data =
     (case map_of snapshot_types content_type of
        None \<Rightarrow> False
      | Some (_, magic) \<Rightarrow>
          take (length magic) data = magic \<and>
          (content_type = ''image/webp'' \<longrightarrow> take 4 (drop 8 data) = [87, 69, 66, 80]))"

text \<open>\<open>str.isalnum\<close> of one character.\<close>

definition is_alnum_char :: "char \<Rightarrow> bool" where
  "is_alnum_char c =
     (let n = of_char c :: nat in
      is_dec_digit c \<or> (65 \<le> n \<and> n \<le> 90) \<or> (97 \<le> n \<and> n \<le> 122) \<or>
      n \<in> {170, 178, 179, 181, 185, 186, 188, 189, 190} \<or> (192 \<le> n \<and> n \<noteq> 215 \<and> n \<noteq> 247))"

definition safe_event :: "string \<Rightarrow> string" where
  "safe_event s =
     (let t = take 48 (filter (\<lambda>c. is_alnum_char c \<or> c = CHR ''_'' \<or> c = CHR ''-'') s)
      in if t = '''' then ''event'' else t)"

text \<open>\<open>storage\<close> is the object store: absent, or an upload that succeeds or raises.\<close>

definition upload_snapshot ::
  "int \<Rightarrow> int \<Rightarrow> int \<Rightarrow> string \<Rightarrow> string \<Rightarrow> nat list \<Rightarrow> (string \<Rightarrow> bool) option \<Rightarrow> db \<Rightarrow> db \<times> reply"
where
  "upload_snapshot now student_id attempt_id event_type content_type data storage d =
     (case load_attempt d attempt_id student_id of
        Inl r \<Rightarrow> (d, r)
      | Inr (a, _) \<Rightarrow>
          if att_status a \<noteq> Attempt_IN_PROGRESS then (d, HttpError 409 ''Attempt is not in progress'')
          else if att_paused_at a \<noteq> None
          then (d, Json [(''stored'', JBool False), (''paused'', JBool True)])
          else
            (case bind_result (jget_default (cs_anti_cheat (att_config_snapshot a)) ''camera'' (JObj [])) (\<lambda>camera.
                    jget_default camera ''capture_snapshots'' JNull) of
               Inl e \<Rightarrow> (d, ServerError e)
             | Inr capture \<Rightarrow>
                 if \<not> truthy capture then (d, HttpError 403 ''Snapshot capture is not enabled'')
                 else
                   (case map_of snapshot_types content_type of
                      None \<Rightarrow> (d, HttpError 415 ''Unsupported image type'')
                    | Some (ext, _) \<Rightarrow>
                        if data = [] \<or> length data > MAX_SNAPSHOT_BYTES
                        then (d, HttpError 413 ''Frame missing or too large'')
                        else if \<not> looks_like content_type data
                        then (d, HttpError 415 ''Frame bytes do not match the image type'')
                        else
                          (case storage of
                             None \<Rightarrow> (d, Json [(''stored'', JBool False)])
                           | Some upload \<Rightarrow>
                               let seq = length (filter (\<lambda>s. snp_attempt_id s = attempt_id) (db_snapshots d)) in
                               if seq \<ge> MAX_SNAPSHOTS_PER_ATTEMPT
                               then (d, Json [(''stored'', JBool False), (''reason'', JStr ''limit'')])
                               else
                                 let name = safe_event event_type;
                                     key = ''proctoring/attempt-'' @ str_of_int attempt_id @ ''/'' @
                                       str_of_nat (seq + 1) @ ''-'' @ name @ ''.'' @ ext
                                 in
                                   if \<not> upload key then (d, ServerError ValueError)
                                   else
                                     (d\<lparr>db_snapshots := db_snapshots d @
                                          [\<lparr>snp_attempt_id = attempt_id, snp_event_type = name,
                                            snp_s3_key = key, snp_captured_at = now\<rparr>]\<rparr>,
                                      Json [(''stored'', JBool True)])))))"

section \<open>The size of a clean context\<close>

lemma length_str_of_nat: "n < 10 ^ k \<Longrightarrow> 0 < k \<Longrightarrow> length (str_of_nat n) \<le> k"
proof (induction n arbitrary: k rule: str_of_nat.induct)
  case (1 n)
  show ?case
  proof (cases "n < 10")
    case True
    then show ?thesis using "1.prems" by (subst str_of_nat.simps) simp
  next
    case False
    then obtain j where k: "k = Suc j" "0 < j" using "1.prems" by (cases k; cases "k - 1") auto
    then have "n div 10 < 10 ^ j" using "1.prems" by (simp add: less_mult_imp_div_less mult.commute)
    then have "length (str_of_nat (n div 10)) \<le> j" using "1.IH" [OF False, of j] k by simp
    then show ?thesis using False k by (subst str_of_nat.simps) simp
  qed
qed

text \<open>What may be stored under a key, and the longest text it can have.\<close>

definition clean_value :: "string \<Rightarrow> json \<Rightarrow> bool" where
  "clean_value k v =
     (if k \<in> set int_keys then (case v of JInt n \<Rightarrow> 0 \<le> n \<and> n \<le> INT_MAX | _ \<Rightarrow> False)
      else if k \<in> set angle_keys then
        (case v of JFloat x \<Rightarrow> -180 \<le> x \<and> x \<le> 180 \<and> py_round_digits 1 x = x | _ \<Rightarrow> False)
      else
        (case v of
           JBool b \<Rightarrow> k = ''has_focus''
         | JStr s \<Rightarrow> k = ''visibility'' \<and> s \<in> set visibility_values \<or> k = ''combo'' \<and> combo_re_match s
         | _ \<Rightarrow> False))"

definition known_keys :: "string list" where
  "known_keys = int_keys @ angle_keys @ [''has_focus'', ''visibility'', ''combo'']"

lemma py_round_digits_idem: "py_round_digits n (py_round_digits n x) = py_round_digits n x"
proof -
  have "py_round_digits n x * 10 ^ n = of_int (py_round (x * 10 ^ n))" by (simp add: py_round_digits_def)
  then show ?thesis by (simp add: py_round_digits_def)
qed

lemma clean_entry_value: "clean_entry k v = Inr (Some v') \<Longrightarrow> clean_value k v'"
proof -
  assume e: "clean_entry k v = Inr (Some v')"
  have range: "-180 \<le> py_round_digits 1 (min (max x (-180)) 180)" "py_round_digits 1 (min (max x (-180)) 180) \<le> 180" for x
    using py_round_digits_mono [of "- 180" "min (max x (-180)) 180" 1] py_round_digits_mono [of "min (max x (-180)) 180" 180 1]
      py_round_digits_of_int [of 1 "-180"] py_round_digits_of_int [of 1 180] by simp_all
  show ?thesis
  proof (cases "k \<in> set int_keys")
    case True
    with e show ?thesis by (auto simp: clean_entry_def clean_value_def bind_result_eq_Inr INT_MAX_def)
  next
    case False
    then show ?thesis
      using e range
      by (cases "k \<in> set angle_keys")
         (auto simp: clean_entry_def clean_value_def bind_result_eq_Inr py_round_digits_idem split: json.splits if_splits)
  qed
qed

lemma clean_value_entry:
  assumes "clean_value k v"
  shows "clean_entry k v = Inr (Some v)"
proof (cases "k \<in> set int_keys")
  case True
  with assms obtain n where "v = JInt n" "0 \<le> n" "n \<le> INT_MAX" by (cases v) (auto simp: clean_value_def)
  moreover have "\<not> float_overflow n" if "0 \<le> n" "n \<le> INT_MAX"
    using that by (simp add: float_overflow_def INT_MAX_def)
  ultimately show ?thesis using True by (simp add: clean_entry_def ctx_number_def)
next
  case False
  then show ?thesis
    using assms by (cases v) (auto simp: clean_entry_def clean_value_def ctx_number_def split: if_splits)
qed

lemma split_on_length:
  "length s = sum_list (map length (split_on c s)) + (length (split_on c s) - 1) \<and> split_on c s \<noteq> []"
proof (induction s)
  case Nil
  then show ?case by simp
next
  case (Cons x xs)
  then show ?case by (cases "split_on c xs") auto
qed

lemma sum_list_le_times: "(\<And>w. w \<in> set ws \<Longrightarrow> length w \<le> n) \<Longrightarrow> sum_list (map length ws) \<le> n * length ws"
  by (induction ws) (simp_all add: add_mono)

lemma combo_length:
  assumes "combo_re_match s"
  shows "length s \<le> 36"
proof -
  define parts where "parts = split_on (CHR ''+'') s"
  have ne: "parts \<noteq> []" and len: "length s = sum_list (map length parts) + (length parts - 1)"
    using split_on_length [of s "CHR ''+''"] by (simp_all add: parts_def)
  have m: "length (butlast parts) \<le> 4" "length (last parts) \<le> 12"
    and mods: "\<forall>w \<in> set (butlast parts). w \<in> set [''ctrl'', ''alt'', ''meta'', ''shift'']"
    using assms by (auto simp: combo_re_match_def Let_def parts_def list_all_iff)
  have "sum_list (map length (butlast parts)) \<le> 5 * length (butlast parts)"
  proof (rule sum_list_le_times)
    fix w assume "w \<in> set (butlast parts)"
    then have "w \<in> set [''ctrl'', ''alt'', ''meta'', ''shift'']" using mods by blast
    then show "length w \<le> 5" by auto
  qed
  moreover have "sum_list (map length parts) = sum_list (map length (butlast parts)) + length (last parts)"
  proof -
    have "sum_list (map length parts) = sum_list (map length (butlast parts @ [last parts]))" using ne by simp
    also have "\<dots> = sum_list (map length (butlast parts)) + length (last parts)" by (simp del: append_butlast_last_id)
    finally show ?thesis .
  qed
  ultimately show ?thesis using m len by simp
qed

definition longest :: "string \<Rightarrow> nat" where
  "longest k =
     (if k \<in> set int_keys then 10 else if k \<in> set angle_keys then 6
      else if k = ''has_focus'' then 5 else if k = ''visibility'' then 9 else 38)"

lemma value_len_bound:
  assumes "clean_value k v"
  shows "value_len v \<le> longest k \<and> k \<in> set known_keys"
proof (cases "k \<in> set int_keys")
  case True
  with assms obtain n where n: "v = JInt n" "0 \<le> n" "n \<le> INT_MAX" by (cases v) (auto simp: clean_value_def)
  then have "length (str_of_nat (nat n)) \<le> 10" by (intro length_str_of_nat) (simp_all add: INT_MAX_def)
  then show ?thesis using True n by (simp add: longest_def known_keys_def str_of_int_def)
next
  case notint: False
  show ?thesis
  proof (cases "k \<in> set angle_keys")
    case True
    with assms notint obtain x where x: "v = JFloat x" "-180 \<le> x" "x \<le> 180" by (cases v) (auto simp: clean_value_def)
    then have "nat \<lfloor>\<bar>x\<bar>\<rfloor> < 10 ^ 3" by (simp add: floor_less_iff nat_less_iff)
    then have "length (str_of_nat (nat \<lfloor>\<bar>x\<bar>\<rfloor>)) \<le> 3" by (intro length_str_of_nat) simp_all
    then show ?thesis using True notint x by (cases "x < 0") (simp_all add: longest_def known_keys_def)
  next
    case False
    then show ?thesis
      using assms notint combo_length
      by (cases v) (auto simp: clean_value_def longest_def known_keys_def visibility_values_def split: if_splits)
  qed
qed

lemma clean_loop_values: "clean_loop d = Inr ctx \<Longrightarrow> (\<forall>(k, v) \<in> set ctx. clean_value k v) \<and> set (map fst ctx) \<subseteq> set (map fst d)"
proof (induction d arbitrary: ctx rule: clean_loop.induct)
  case 1
  then show ?case by simp
next
  case (2 k v rest)
  then obtain e clean where e: "clean_entry k v = Inr e" "clean_loop rest = Inr clean"
    "ctx = (case e of Some v' \<Rightarrow> (k, v') # clean | None \<Rightarrow> clean)" by (auto simp: bind_result_eq_Inr)
  with "2.IH" [OF e(2)] show ?case by (cases e) (auto dest: clean_entry_value)
qed

lemma clean_loop_distinct: "clean_loop d = Inr ctx \<Longrightarrow> distinct (map fst d) \<Longrightarrow> distinct (map fst ctx)"
proof (induction d arbitrary: ctx rule: clean_loop.induct)
  case 1
  then show ?case by simp
next
  case (2 k v rest)
  then obtain e clean where e: "clean_entry k v = Inr e" "clean_loop rest = Inr clean"
    "ctx = (case e of Some v' \<Rightarrow> (k, v') # clean | None \<Rightarrow> clean)" by (auto simp: bind_result_eq_Inr)
  with "2.IH" [OF e(2)] clean_loop_values [OF e(2)] "2.prems"(2) show ?case by (cases e) auto
qed

lemma clean_loop_again: "\<forall>(k, v) \<in> set ctx. clean_value k v \<Longrightarrow> clean_loop ctx = Inr ctx"
  by (induction ctx) (auto simp: clean_value_entry)

lemma dumps_len_bound:
  assumes "\<forall>(k, v) \<in> set ctx. clean_value k v" and "distinct (map fst ctx)"
  shows "dumps_len ctx \<le> 342"
proof -
  let ?w = "\<lambda>k. length k + 4 + longest k"
  have sub: "set (map fst ctx) \<subseteq> set known_keys" using assms(1) value_len_bound by fastforce
  have "sum_list (map (\<lambda>(k, v). length k + 4 + value_len v) ctx) \<le> sum_list (map (\<lambda>e. ?w (fst e)) ctx)"
    by (rule sum_list_mono) (use assms(1) value_len_bound in fastforce)
  also have "\<dots> = sum_list (map ?w (map fst ctx))" by (simp add: comp_def)
  also have "\<dots> = (\<Sum>k \<in> set (map fst ctx). ?w k)" using assms(2) by (rule sum_list_distinct_conv_sum_set)
  also have "\<dots> \<le> (\<Sum>k \<in> set known_keys. ?w k)" by (rule sum_mono2) (use sub in auto)
  also have "\<dots> = sum_list (map ?w known_keys)"
    by (rule sum_list_distinct_conv_sum_set [symmetric]) (simp add: known_keys_def int_keys_def angle_keys_def)
  also have "\<dots> = 312" by (simp add: known_keys_def int_keys_def angle_keys_def longest_def)
  finally have "sum_list (map (\<lambda>(k, v). length k + 4 + value_len v) ctx) \<le> 312" .
  moreover have "length (map fst ctx) \<le> length known_keys"
  proof -
    have "card (set (map fst ctx)) \<le> card (set known_keys)" by (rule card_mono) (use sub in auto)
    also have "\<dots> \<le> length known_keys" by (rule card_length)
    finally show ?thesis using distinct_card [OF assms(2)] by simp
  qed
  moreover have "length known_keys = 15" by (simp add: known_keys_def int_keys_def angle_keys_def)
  ultimately show ?thesis by (simp add: dumps_len_def)
qed

text \<open>A client's event context is reduced to the fifteen known keys with values of the right type
  and range; sanitising it again changes nothing; and for a JSON object (whose keys are distinct)
  the text of what is left never comes near the limit of 1024 bytes, so nothing is ever dropped for
  its size.\<close>

theorem sanitized_context_is_bounded:
  assumes "sanitize_ctx (JObj d) = Inr ctx" and "distinct (map fst d)"
  shows "(\<forall>(k, v) \<in> set ctx. k \<in> set known_keys \<and> clean_value k v) \<and> sanitize_ctx (JObj ctx) = Inr ctx \<and>
    clean_loop d = Inr ctx \<and> dumps_len ctx \<le> 342"
proof -
  from assms(1) obtain clean where c: "clean_loop d = Inr clean"
    and ctx: "ctx = (if dumps_len clean > MAX_CTX_BYTES then [] else clean)"
    by (auto simp: sanitize_ctx_def bind_result_eq_Inr)
  note v = clean_loop_values [OF c, THEN conjunct1]
  have "dumps_len clean \<le> 342" by (rule dumps_len_bound [OF v clean_loop_distinct [OF c assms(2)]])
  moreover from this have "ctx = clean" by (simp add: ctx MAX_CTX_BYTES_def)
  ultimately show ?thesis
    using v c clean_loop_again [OF v] value_len_bound by (auto simp: sanitize_ctx_def MAX_CTX_BYTES_def)
qed

theorem sanitized_context_is_bounded_witness:
  "sanitize_ctx (JObj [(''vw'', JInt (-3)), (''yaw'', JFloat 200), (''combo'', JStr ''ctrl+c''), (''x'', JNull)]) =
     Inr [(''vw'', JInt 0), (''yaw'', JFloat 180), (''combo'', JStr ''ctrl+c'')] \<and>
   sanitize_ctx (JObj [(''vw'', JInt 0), (''yaw'', JFloat 180), (''combo'', JStr ''ctrl+c'')]) =
     Inr [(''vw'', JInt 0), (''yaw'', JFloat 180), (''combo'', JStr ''ctrl+c'')]"
proof -
  let ?d = "[(''vw'', JInt (-3)), (''yaw'', JFloat 200), (''combo'', JStr ''ctrl+c''), (''x'', JNull)]"
  let ?c = "[(''vw'', JInt 0), (''yaw'', JFloat 180), (''combo'', JStr ''ctrl+c'')]"
  have m: "combo_re_match ''ctrl+c''" by code_simp
  have t: "py_trunc (- 3) = - 3" using py_trunc_of_int [of "- 3"] by simp
  have r: "py_round_digits 1 180 = 180" using py_round_digits_of_int [of 1 180] by simp
  have "clean_loop ?d = Inr ?c"
    using m r t by (simp add: clean_entry_def int_keys_def angle_keys_def ctx_number_def float_overflow_def INT_MAX_def)
  moreover have "dumps_len ?c \<le> MAX_CTX_BYTES" by code_simp
  ultimately have s: "sanitize_ctx (JObj ?d) = Inr ?c" by (simp add: sanitize_ctx_def)
  have "distinct (map fst ?d)" by simp
  from sanitized_context_is_bounded [OF s this] s show ?thesis by blast
qed

section \<open>Which rule applies\<close>

definition rule_matches :: "string \<Rightarrow> int \<Rightarrow> json \<Rightarrow> bool" where
  "rule_matches event_type n r \<longleftrightarrow>
     jget r ''event'' = Inr (JStr event_type) \<and>
     (case jget r ''threshold'' of Inr t \<Rightarrow> is_number t \<and> number_value t \<le> of_int n | Inl _ \<Rightarrow> False)"

lemma matching_rule_find:
  "matching_rule x n rules = Inr m \<Longrightarrow> map_option fst m = find (rule_matches x n) rules"
proof (induction rules)
  case Nil
  then show ?case by simp
next
  case (Cons r rs)
  then obtain e where e: "jget r ''event'' = Inr e" by (auto simp: bind_result_eq_Inr)
  show ?case
  proof (cases "e = JStr x")
    case False
    with Cons e show ?thesis by (simp add: rule_matches_def)
  next
    case True
    with Cons.prems e obtain t where t: "jget r ''threshold'' = Inr t" "is_number t"
      by (auto simp: bind_result_eq_Inr int_ge_def split: if_splits)
    with Cons True e show ?thesis
      by (cases "number_value t \<le> of_int n") (auto simp: rule_matches_def int_ge_def)
  qed
qed

definition action_effect ::
  "string \<Rightarrow> json \<Rightarrow> int \<Rightarrow> quiz_attempt \<Rightarrow> (string \<times> violation) list \<Rightarrow> rule_effect \<Rightarrow> bool"
where
  "action_effect event_type ty secs a vs eff \<longleftrightarrow>
     (if ty = JStr ''fail'' then
        re_attempt eff = a \<and> re_violations eff = dict_set ''_force_fail'' (VFlag True) vs \<and> re_action eff = ''fail''
      else if ty = JStr ''reduce_time'' then
        (if is_stepped a
         then re_violations eff = vs \<and>
           re_attempt eff = a\<lparr>att_question_started_at := map_option (\<lambda>t. t - secs * 1000000) (att_question_started_at a)\<rparr>
         else re_attempt eff = a \<and> penalty_in (re_violations eff) = penalty_in vs + secs \<and>
           (\<forall>k. k \<noteq> ''_time_penalty_seconds'' \<longrightarrow> map_of (re_violations eff) k = map_of vs k))
      else if ty = JStr ''flag'' then
        re_attempt eff = a \<and> re_action eff = ''flag'' \<and>
        (\<forall>k. k \<noteq> ''_flagged_events'' \<longrightarrow> map_of (re_violations eff) k = map_of vs k) \<and>
        (\<forall>es. map_of vs ''_flagged_events'' = Some (VEvents es) \<longrightarrow>
           map_of (re_violations eff) ''_flagged_events'' = Some (VEvents (es @ [event_type])))
      else re_attempt eff = a \<and> re_violations eff = vs \<and>
        re_action eff = (if ty = JStr ''warn'' then ''warn'' else ''none''))"

lemma apply_action_action_effect:
  "action_effect x ty p a vs (apply_action now x ty p ((no_effect a vs)\<lparr>re_message := m, re_threshold := th\<rparr>))"
  by (auto simp: action_effect_def apply_action_def no_effect_def reduce_time_def flag_event_def Let_def penalty_in_def)

text \<open>Of the rules of the attempt's configuration the first one for the event whose threshold the
  count has reached decides, and no other one has any effect: it fails the attempt, takes its
  penalty from the current question's clock or from the attempt's time, flags the event or only
  warns; without such a rule the event is counted and nothing else happens.\<close>

theorem first_reached_rule_decides:
  assumes "evaluate_rules now event_type n a vs = Inr eff"
    and "cs_anti_cheat (att_config_snapshot a) = JObj ac" and "dget ac ''rules'' (JList []) = JList rules"
  shows "case find (rule_matches event_type n) rules of
      None \<Rightarrow> eff = no_effect a vs
    | Some r \<Rightarrow> \<exists>action ty p secs. jget r ''action'' = Inr action \<and> jget action ''type'' = Inr ty \<and>
        jget_default action ''penalty_seconds'' (JInt 60) = Inr p \<and> py_int p = Inr secs \<and>
        action_effect event_type ty secs a vs eff"
proof -
  from assms obtain m where m: "matching_rule event_type n rules = Inr m"
    by (auto simp: evaluate_rules_def bind_result_eq_Inr jget_default_def)
  note f = matching_rule_find [OF m]
  show ?thesis
  proof (cases m)
    case None
    with f have "find (rule_matches event_type n) rules = None" by simp
    moreover have "eff = no_effect a vs"
      using assms m None by (auto simp: evaluate_rules_def bind_result_eq_Inr jget_default_def)
    ultimately show ?thesis by simp
  next
    case (Some rt)
    then obtain r t where rt: "m = Some (r, t)" by (cases rt) auto
    then have "find (rule_matches event_type n) rules = Some r" using f by simp
    moreover from assms m rt obtain action ty p secs msg th where
      a: "jget r ''action'' = Inr action" "jget action ''type'' = Inr ty"
        "jget_default action ''penalty_seconds'' (JInt 60) = Inr p" "py_int p = Inr secs"
        "eff = apply_action now event_type ty secs ((no_effect a vs)\<lparr>re_message := msg, re_threshold := th\<rparr>)"
      by (auto simp: evaluate_rules_def bind_result_eq_Inr jget_default_def)
    ultimately show ?thesis using apply_action_action_effect by auto
  qed
qed

definition sample_rule :: "string \<Rightarrow> int \<Rightarrow> string \<Rightarrow> json" where
  "sample_rule event threshold ty =
     JObj [(''event'', JStr event), (''threshold'', JInt threshold),
           (''action'', JObj [(''type'', JStr ty), (''message'', JStr ''{count}/{threshold}'')])]"

definition sample_policed :: quiz_attempt where
  "sample_policed = (sample_attempt [] [] [])
     \<lparr>att_config_snapshot := (att_config_snapshot (sample_attempt [] [] []))
        \<lparr>cs_anti_cheat := JObj [(''rules'', JList [sample_rule ''blur'' 3 ''fail'', sample_rule ''blur'' 2 ''reduce_time''])]\<rparr>\<rparr>"

theorem first_reached_rule_decides_witness:
  "\<exists>eff. evaluate_rules 5 ''blur'' 2 sample_policed [(''blur'', VCount 2)] = Inr eff \<and>
     penalty_in (re_violations eff) = 60 \<and> re_attempt eff = sample_policed"
proof -
  let ?e = "evaluate_rules 5 ''blur'' 2 sample_policed [(''blur'', VCount 2)]"
  have "map_sum id re_action ?e = Inr ''reduce_time''" by code_simp
  then obtain eff where e: "?e = Inr eff" by (cases ?e) auto
  have ac: "cs_anti_cheat (att_config_snapshot sample_policed) =
      JObj [(''rules'', JList [sample_rule ''blur'' 3 ''fail'', sample_rule ''blur'' 2 ''reduce_time''])]"
    by (simp add: sample_policed_def)
  have f: "find (rule_matches ''blur'' 2) [sample_rule ''blur'' 3 ''fail'', sample_rule ''blur'' 2 ''reduce_time''] =
      Some (sample_rule ''blur'' 2 ''reduce_time'')"
    by (simp add: rule_matches_def sample_rule_def jget_def)
  have s: "\<not> is_stepped sample_policed" by (simp add: is_stepped_def sample_policed_def sample_defs)
  have "action_effect ''blur'' (JStr ''reduce_time'') 60 sample_policed [(''blur'', VCount 2)] eff"
    using first_reached_rule_decides [OF e ac, of "[sample_rule ''blur'' 3 ''fail'', sample_rule ''blur'' 2 ''reduce_time'']"]
    by (simp only: f) (auto simp: dget_def sample_rule_def jget_def jget_default_def)
  then have "penalty_in (re_violations eff) = penalty_in [(''blur'', VCount 2)] + 60 \<and> re_attempt eff = sample_policed"
    using s by (simp add: action_effect_def)
  then show ?thesis using e by (simp add: penalty_in_def)
qed

end
