(* ===== verification/AttemptLifecycle.thy ===== *)
theory AttemptLifecycle
  imports QuizEvents
begin

text \<open>
  The life cycle of one quiz attempt, as the specification the routes are checked against: the
  steps an attempt may take while it runs, is paused and is finished, and what every step keeps.
  \<open>attempt_step\<close> names the code's own operations, so a step is possible exactly where a route may
  perform it; the theory \<open>QuizSteps\<close> shows that no request does anything else. The flag says
  whether the step may resume a paused attempt, which only one route does.
\<close>

section \<open>Steps\<close>

definition in_progress :: "quiz_attempt \<Rightarrow> bool" where
  "in_progress a \<longleftrightarrow> att_status a = Attempt_IN_PROGRESS"

definition running :: "quiz_attempt \<Rightarrow> bool" where
  "running a \<longleftrightarrow> in_progress a \<and> att_paused_at a = None"

text \<open>The attempt after a violation: counted, with the effect of the matching rule.\<close>

definition counted :: "string \<Rightarrow> quiz_attempt \<Rightarrow> int" where
  "counted event_type a =
     (case map_of (att_violations a) event_type of Some v \<Rightarrow> violation_int v | None \<Rightarrow> 0) + 1"

definition after_violation :: "rule_effect \<Rightarrow> quiz_attempt" where
  "after_violation eff = (re_attempt eff)\<lparr>att_violations := re_violations eff\<rparr>"

definition event_allowed :: "string \<Rightarrow> quiz_attempt \<Rightarrow> bool" where
  "event_allowed event_type a \<longleftrightarrow>
     event_type_ok event_type \<and>
     (event_type \<in> fst ` set (att_violations a) \<or> length (att_violations a) < MAX_DISTINCT_EVENT_TYPES)"

inductive attempt_step :: "bool \<Rightarrow> quiz_attempt \<Rightarrow> quiz_attempt \<Rightarrow> bool" for m where
  step_anchor: "running a \<Longrightarrow> is_stepped a \<Longrightarrow> attempt_step m a (a\<lparr>att_question_started_at := Some now\<rparr>)"
| step_expire: "running a \<Longrightarrow> is_stepped a \<Longrightarrow> current_question a = Some q \<Longrightarrow> window_of q = Some l \<Longrightarrow>
    att_question_started_at a = Some s \<Longrightarrow> seconds (now - s) > of_int (l + QUESTION_GRACE_SECONDS) \<Longrightarrow>
    attempt_step m a (burn_question l s a)"
| step_answer: "running a \<Longrightarrow> is_stepped a \<Longrightarrow> \<not> force_fail a \<Longrightarrow> attempt_step m a (take_answer now form a)"
| step_violate: "running a \<Longrightarrow> event_allowed e a \<Longrightarrow>
    evaluate_rules now e (counted e a) a (dict_set e (VCount (counted e a)) (att_violations a)) = Inr eff \<Longrightarrow>
    attempt_step m a (after_violation eff)"
| step_pause: "running a \<Longrightarrow> attempt_step m a (a\<lparr>att_paused_at := Some now\<rparr>)"
| step_resume: "m \<Longrightarrow> in_progress a \<Longrightarrow> att_paused_at a \<noteq> None \<Longrightarrow> attempt_step m a (fst (close_open_pause now a))"
| step_finish: "in_progress a \<Longrightarrow> running a \<or> force_fail a \<Longrightarrow> st \<noteq> Attempt_IN_PROGRESS \<Longrightarrow>
    attempt_step m a (closed_attempt now st overrides a)"
| step_submit: "running a \<Longrightarrow> \<not> is_stepped a \<Longrightarrow> st \<noteq> Attempt_IN_PROGRESS \<Longrightarrow>
    attempt_step m a (closed_attempt now st overrides
      (a\<lparr>att_answers := map (graded_answer form) (att_questions_snapshot a)\<rparr>))"

inductive_cases from_step: "attempt_step m a b"

section \<open>The effect of a rule\<close>

definition bookkeeping :: "string list" where
  "bookkeeping = [''_force_fail'', ''_time_penalty_seconds'', ''_flagged_events'']"

lemma event_not_bookkeeping: "event_type_ok e \<Longrightarrow> e \<notin> set bookkeeping"
  by (auto simp: event_type_ok_def bookkeeping_def is_lower_alnum_def is_dec_digit_def)

text \<open>What a violation changes: the violations, and at most the clock of the current question. A
  forced failure is never taken back.\<close>

definition same_but_clock :: "quiz_attempt \<Rightarrow> quiz_attempt \<Rightarrow> bool" where
  "same_but_clock a b \<longleftrightarrow>
     b = a\<lparr>att_question_started_at := att_question_started_at b, att_violations := att_violations b\<rparr>"

lemma reduce_time_effect:
  "re_attempt (reduce_time now p e) = (re_attempt e)\<lparr>att_question_started_at := att_question_started_at (re_attempt (reduce_time now p e))\<rparr>"
  "re_violations (reduce_time now p e) = re_violations e \<or>
   (\<exists>v. re_violations (reduce_time now p e) = dict_set ''_time_penalty_seconds'' v (re_violations e))"
  by (auto simp: reduce_time_def Let_def)

lemma flag_event_effect:
  "re_attempt (flag_event x e) = re_attempt e"
  "\<exists>v. re_violations (flag_event x e) = dict_set ''_flagged_events'' v (re_violations e)"
  by (auto simp: flag_event_def Let_def)

lemma apply_action_effect:
  "re_attempt (apply_action now x t p e) =
     (re_attempt e)\<lparr>att_question_started_at := att_question_started_at (re_attempt (apply_action now x t p e))\<rparr>"
  "re_violations (apply_action now x t p e) = re_violations e \<or>
   re_violations (apply_action now x t p e) = dict_set ''_force_fail'' (VFlag True) (re_violations e) \<or>
   (\<exists>k v. k \<in> {''_time_penalty_seconds'', ''_flagged_events''} \<and>
      re_violations (apply_action now x t p e) = dict_set k v (re_violations e))"
proof -
  show "re_attempt (apply_action now x t p e) =
     (re_attempt e)\<lparr>att_question_started_at := att_question_started_at (re_attempt (apply_action now x t p e))\<rparr>"
    using reduce_time_effect(1) [of now p e] by (auto simp: apply_action_def flag_event_effect)
  show "re_violations (apply_action now x t p e) = re_violations e \<or>
   re_violations (apply_action now x t p e) = dict_set ''_force_fail'' (VFlag True) (re_violations e) \<or>
   (\<exists>k v. k \<in> {''_time_penalty_seconds'', ''_flagged_events''} \<and>
      re_violations (apply_action now x t p e) = dict_set k v (re_violations e))"
    using reduce_time_effect(2) [of now p e] flag_event_effect(2) [of x e]
    by (auto simp: apply_action_def)
qed

lemma evaluate_rules_effect:
  assumes "evaluate_rules now x n a vs = Inr eff"
  obtains (none) "eff = no_effect a vs"
  | (rule) t p m th where "eff = apply_action now x t p ((no_effect a vs)\<lparr>re_message := m, re_threshold := th\<rparr>)"
  using assms by (auto simp: evaluate_rules_def bind_result_eq_Inr split: option.splits)

lemma evaluate_rules_keeps:
  assumes "evaluate_rules now x n a vs = Inr eff"
  shows "same_but_clock a (after_violation eff)"
    and "att_violations (after_violation eff) = vs \<or>
      att_violations (after_violation eff) = dict_set ''_force_fail'' (VFlag True) vs \<or>
      (\<exists>k v. k \<in> {''_time_penalty_seconds'', ''_flagged_events''} \<and>
         att_violations (after_violation eff) = dict_set k v vs)"
proof -
  from assms have "same_but_clock a (after_violation eff) \<and>
      (att_violations (after_violation eff) = vs \<or>
      att_violations (after_violation eff) = dict_set ''_force_fail'' (VFlag True) vs \<or>
      (\<exists>k v. k \<in> {''_time_penalty_seconds'', ''_flagged_events''} \<and>
         att_violations (after_violation eff) = dict_set k v vs))"
  proof (cases rule: evaluate_rules_effect)
    case none
    then show ?thesis by (simp add: no_effect_def after_violation_def same_but_clock_def)
  next
    case (rule t p m th)
    let ?e = "(no_effect a vs)\<lparr>re_message := m, re_threshold := th\<rparr>"
    have f: "re_attempt ?e = a" "re_violations ?e = vs" by (simp_all add: no_effect_def)
    obtain s where e: "re_attempt eff = a\<lparr>att_question_started_at := s\<rparr>"
      using apply_action_effect(1) [of now x t p ?e] unfolding f rule(1) by blast
    have "same_but_clock a (after_violation eff)" by (simp add: same_but_clock_def after_violation_def e)
    then show ?thesis
      using apply_action_effect(2) [of now x t p ?e] unfolding f rule(1) after_violation_def by auto
  qed
  then show "same_but_clock a (after_violation eff)"
    and "att_violations (after_violation eff) = vs \<or>
      att_violations (after_violation eff) = dict_set ''_force_fail'' (VFlag True) vs \<or>
      (\<exists>k v. k \<in> {''_time_penalty_seconds'', ''_flagged_events''} \<and>
         att_violations (after_violation eff) = dict_set k v vs)" by blast+
qed


section \<open>What every step keeps\<close>

definition violations_ok :: "(string \<times> violation) list \<Rightarrow> bool" where
  "violations_ok vs \<longleftrightarrow>
     distinct (map fst vs) \<and> length (filter (\<lambda>k. k \<notin> set bookkeeping) (map fst vs)) \<le> MAX_DISTINCT_EVENT_TYPES"

text \<open>A scored attempt: finished, within its maximum, and never passed once failed by a rule.\<close>

definition finished_ok :: "quiz_attempt \<Rightarrow> bool" where
  "finished_ok a \<longleftrightarrow>
     (case (att_score a, att_max_score a) of
        (Some s, Some m) \<Rightarrow> 0 \<le> s \<and> s \<le> m
      | _ \<Rightarrow> False) \<and>
     att_is_passed a \<noteq> None \<and>
     (force_fail a \<longrightarrow> att_status a = Attempt_VIOLATION_FAIL \<and> att_is_passed a = Some False)"

definition attempt_good :: "quiz_attempt \<Rightarrow> bool" where
  "attempt_good a \<longleftrightarrow>
     answers_ok a \<and> violations_ok (att_violations a) \<and>
     (in_progress a \<longleftrightarrow> att_submitted_at a = None) \<and>
     (if in_progress a then is_stepped a \<longrightarrow> stepped_ok a else att_paused_at a = None \<and> finished_ok a)"

lemma dict_set_event_ok:
  assumes "violations_ok (att_violations a)" and "event_allowed e a"
  shows "violations_ok (dict_set e v (att_violations a))"
proof (cases "e \<in> fst ` set (att_violations a)")
  case True
  then show ?thesis using assms(1) by (simp add: violations_ok_def distinct_dict_set dict_set_keys)
next
  case False
  then have "length (filter ((\<lambda>k. k \<notin> set bookkeeping) \<circ> fst) (att_violations a)) < MAX_DISTINCT_EVENT_TYPES"
    using assms(2) by (intro le_less_trans [OF length_filter_le]) (simp add: event_allowed_def)
  then show ?thesis
    using assms(1) False by (simp add: violations_ok_def distinct_dict_set dict_set_keys)
qed

lemma dict_set_bookkeeping_ok:
  assumes "violations_ok vs" and "k \<in> set bookkeeping"
  shows "violations_ok (dict_set k v vs)"
  using assms by (simp add: violations_ok_def distinct_dict_set dict_set_keys)

text \<open>At most 32 names of events, and with the three names of the handler's own at most 35 entries.\<close>

lemma violations_ok_length:
  assumes "violations_ok vs"
  shows "length vs \<le> 35"
proof -
  let ?ks = "map fst vs"
  have "length ?ks = length (filter (\<lambda>k. k \<notin> set bookkeeping) ?ks) + length (filter (\<lambda>k. k \<in> set bookkeeping) ?ks)"
    using sum_length_filter_compl [of "\<lambda>k. k \<notin> set bookkeeping" ?ks] by simp
  moreover have "length (filter (\<lambda>k. k \<in> set bookkeeping) ?ks) \<le> card (set bookkeeping)"
    using assms distinct_card [of "filter (\<lambda>k. k \<in> set bookkeeping) ?ks"]
    by (metis (no_types, lifting) card_mono distinct_filter filter_is_subset finite_set mem_Collect_eq set_filter subsetI violations_ok_def)
  moreover have "card (set bookkeeping) = 3" by (simp add: bookkeeping_def)
  ultimately show ?thesis using assms by (simp add: violations_ok_def MAX_DISTINCT_EVENT_TYPES_def)
qed


section \<open>Each step\<close>

lemma same_but_clock_good:
  assumes "same_but_clock a b" and "running a" and "attempt_good a" and "violations_ok (att_violations b)"
  shows "attempt_good b"
proof -
  obtain t v where b: "b = a\<lparr>att_question_started_at := t, att_violations := v\<rparr>"
    using assms(1) by (auto simp: same_but_clock_def)
  have "in_progress a" using assms(2) by (simp add: running_def)
  then show ?thesis
    using assms(3,4) unfolding b
    by (simp add: attempt_good_def in_progress_def is_stepped_def stepped_ok_def answers_ok_def)
qed

lemma score_attempt_forced: "force_fail a \<Longrightarrow> fst (snd (snd (score_attempt a))) = False"
  by (simp add: score_attempt_def Let_def)

lemma force_fail_cong: "att_violations b = att_violations a \<Longrightarrow> force_fail b = force_fail a"
  by (simp add: force_fail_def)

lemma closed_attempt_violations [simp]:
  "att_violations (closed_attempt now st ovr a) = att_violations a"
  "force_fail (closed_attempt now st ovr a) = force_fail a"
proof -
  have "att_violations (fst (apply_question_overrides a ovr)) = att_violations a"
    by (simp add: apply_question_overrides_def case_prod_unfold Let_def)
  then show "att_violations (closed_attempt now st ovr a) = att_violations a"
    by (simp add: closed_attempt_def Let_def case_prod_unfold)
  then show "force_fail (closed_attempt now st ovr a) = force_fail a" by (rule force_fail_cong)
qed

lemma overrides_force_fail [simp]: "force_fail (fst (apply_question_overrides a ovr)) = force_fail a"
  by (rule force_fail_cong) (simp add: apply_question_overrides_def case_prod_unfold Let_def)

lemma closed_attempt_good:
  assumes "answers_ok a" and "violations_ok (att_violations a)" and "st \<noteq> Attempt_IN_PROGRESS"
  shows "attempt_good (closed_attempt now st ovr a)" and "\<not> in_progress (closed_attempt now st ovr a)"
proof -
  let ?c = "closed_attempt now st ovr a"
  obtain s m where sm: "att_score ?c = Some s" "att_max_score ?c = Some m" "0 \<le> s" "s \<le> m" "answers_ok ?c"
    using closed_attempt_score [OF assms(1)] by blast
  have st: "att_status ?c = (if force_fail a then Attempt_VIOLATION_FAIL else st)" by (simp add: closed_attempt_status)
  then show ip: "\<not> in_progress ?c" using assms(3) by (simp add: in_progress_def)
  have "force_fail a \<Longrightarrow> att_is_passed ?c = Some False"
    by (simp add: closed_attempt_passed score_attempt_forced)
  then have "finished_ok ?c" using sm st by (simp add: finished_ok_def closed_attempt_passed)
  then show "attempt_good ?c" using sm(5) ip assms(2) by (simp add: attempt_good_def)
qed

lemma graded_answer_fits: "0 \<le> q_points q \<Longrightarrow> 0 \<le> earned (graded_answer form q) \<and> earned (graded_answer form q) \<le> q_points q"
  by (cases "grade_answer q (raw_for form q)")
     (auto simp: graded_answer_def earned_def dest: grade_answer_ok)

lemma graded_answer_id [simp]: "ans_question_id (graded_answer form q) = q_id q"
  by (simp add: graded_answer_def case_prod_unfold)

lemma submitted_answers_ok:
  assumes "snapshot_ok (att_questions_snapshot a)"
  shows "answers_ok (a\<lparr>att_answers := map (graded_answer form) (att_questions_snapshot a)\<rparr>)"
  using assms graded_answer_fits by (auto simp: answers_ok_def snapshot_ok_def answer_fits_def comp_def)

lemma current_question_Some:
  "current_question a = Some q \<longleftrightarrow>
     att_current_index a < length (att_questions_snapshot a) \<and> q = att_questions_snapshot a ! att_current_index a"
  by (auto simp: current_question_def)

lemma take_answer_stepped_ok:
  assumes "stepped_ok a"
  shows "stepped_ok (take_answer now form a)"
proof (cases "current_question a")
  case None
  then show ?thesis using assms by (simp add: take_answer_def)
next
  case (Some q)
  then have i: "att_current_index a < length (att_questions_snapshot a)"
    and q: "q = att_questions_snapshot a ! att_current_index a" by (simp_all add: current_question_Some)
  then have "0 \<le> q_points q" using assms by (simp add: stepped_ok_def answers_ok_def snapshot_ok_def)
  then show ?thesis
    using graded_answer_fits [of q form] Some q
    by (intro stepped_ok_next [OF assms i, of "graded_answer form q"]) (simp_all add: take_answer_def)
qed

text \<open>What an attempt was started with, which no step changes.\<close>

definition same_exam :: "quiz_attempt \<Rightarrow> quiz_attempt \<Rightarrow> bool" where
  "same_exam a b \<longleftrightarrow>
     att_id b = att_id a \<and> att_submission_id b = att_submission_id a \<and> att_student_id b = att_student_id a \<and>
     att_questions_snapshot b = att_questions_snapshot a \<and> att_config_snapshot b = att_config_snapshot a \<and>
     att_started_at b = att_started_at a \<and> att_plugin_config_id b = att_plugin_config_id a \<and>
     att_plugin_config_version b = att_plugin_config_version a"

lemma same_exam_refl [simp]: "same_exam a a"
  by (simp add: same_exam_def)

lemma same_exam_trans: "same_exam a b \<Longrightarrow> same_exam b c \<Longrightarrow> same_exam a c"
  by (simp add: same_exam_def)

lemma same_exam_closed: "same_exam a (closed_attempt now st ovr (a\<lparr>att_answers := ans\<rparr>))"
  by (simp add: same_exam_def closed_attempt_def apply_question_overrides_def close_open_pause_def Let_def case_prod_unfold)

lemma same_exam_step: "attempt_step m a b \<Longrightarrow> same_exam a b"
proof (induction rule: attempt_step.induct)
  case (step_finish a st overrides)
  then show ?case using same_exam_closed [of a _ _ _ "att_answers a"] by simp
next
  case (step_submit a st overrides form)
  then show ?case by (intro same_exam_closed)
next
  case (step_violate a e now eff)
  obtain t v where "after_violation eff = a\<lparr>att_question_started_at := t, att_violations := v\<rparr>"
    using evaluate_rules_keeps(1) [OF step_violate(3)] by (auto simp: same_but_clock_def)
  then show ?case by (simp add: same_exam_def)
qed (auto simp: same_exam_def burn_question_def record_timed_out_def take_answer_def close_open_pause_def Let_def
       split: option.splits)

lemma in_progress_good:
  assumes "attempt_good a" and "in_progress a" and "in_progress b"
    and "att_answers b = att_answers a" and "att_questions_snapshot b = att_questions_snapshot a"
    and "att_current_index b = att_current_index a" and "att_config_snapshot b = att_config_snapshot a"
    and "att_violations b = att_violations a" and "att_submitted_at b = att_submitted_at a"
  shows "attempt_good b"
proof -
  have "is_stepped a \<longrightarrow> stepped_ok a" using assms(1,2) by (simp add: attempt_good_def)
  moreover have "stepped_ok b = stepped_ok a" using assms(4-6) by (intro stepped_ok_same)
  ultimately show ?thesis using assms by (simp add: attempt_good_def is_stepped_def answers_ok_def)
qed

lemma close_open_pause_good:
  assumes "attempt_good a" and "in_progress a"
  shows "attempt_good (fst (close_open_pause now a))"
  by (rule in_progress_good [OF assms]) (use assms(2) in \<open>simp_all add: in_progress_def\<close>)

lemma stepped_ok_answers: "stepped_ok a \<Longrightarrow> answers_ok a"
  by (simp add: stepped_ok_def)

lemma stepped_running_good:
  assumes "attempt_good a" and "running a" and "is_stepped a" and "stepped_ok b"
    and "b = a\<lparr>att_answers := att_answers b, att_current_index := att_current_index b,
               att_question_started_at := att_question_started_at b\<rparr>"
  shows "attempt_good b"
proof -
  obtain x i t where b: "b = a\<lparr>att_answers := x, att_current_index := i, att_question_started_at := t\<rparr>"
    using assms(5) by blast
  show ?thesis
    using assms(1-3) assms(4) [unfolded b] unfolding b
    by (simp add: attempt_good_def in_progress_def running_def is_stepped_def stepped_ok_answers)
qed

lemma attempt_step_good: "attempt_step m a b \<Longrightarrow> attempt_good a \<Longrightarrow> attempt_good b"
proof (induction rule: attempt_step.induct)
  case (step_anchor a now)
  then have "stepped_ok a" by (simp add: attempt_good_def running_def)
  then have "stepped_ok (a\<lparr>att_question_started_at := Some now\<rparr>)" by (simp add: stepped_ok_def answers_ok_def)
  then show ?case by (rule stepped_running_good [OF step_anchor(3,1,2)]) simp
next
  case (step_expire a q l s now)
  then have "stepped_ok a" by (simp add: attempt_good_def running_def)
  then have "stepped_ok (burn_question l s a)" using step_expire(3) by (intro stepped_ok_burn) (simp_all add: current_question_Some)
  then show ?case
    by (rule stepped_running_good [OF step_expire(7,1,2)])
       (simp add: burn_question_def record_timed_out_def split: option.split)
next
  case (step_answer a now form)
  then have "stepped_ok a" by (simp add: attempt_good_def running_def)
  then show ?case
    by (intro stepped_running_good [OF step_answer(4,1,2)] take_answer_stepped_ok)
       (simp_all add: take_answer_def split: option.split)
next
  case (step_violate a e now eff)
  let ?vs = "dict_set e (VCount (counted e a)) (att_violations a)"
  have vs: "violations_ok ?vs" using step_violate(2,4) by (intro dict_set_event_ok) (auto simp: attempt_good_def)
  have book: "violations_ok (dict_set k v ?vs)" if "k \<in> set bookkeeping" for k v
    using vs that by (rule dict_set_bookkeeping_ok)
  have "violations_ok (att_violations (after_violation eff))"
    using evaluate_rules_keeps(2) [OF step_violate(3)]
    by (elim disjE exE conjE) (simp_all only: vs, auto intro!: book simp: bookkeeping_def)
  then show ?case
    by (rule same_but_clock_good [OF evaluate_rules_keeps(1) [OF step_violate(3)] step_violate(1,4)])
next
  case (step_pause a now)
  then have "in_progress a" by (simp add: running_def)
  with step_pause show ?case
    by (intro in_progress_good [of a "a\<lparr>att_paused_at := Some now\<rparr>"]) (simp_all add: in_progress_def)
next
  case (step_resume a now)
  then show ?case by (simp add: close_open_pause_good)
next
  case (step_finish a st overrides)
  then show ?case by (intro closed_attempt_good) (simp_all add: attempt_good_def)
next
  case (step_submit a st overrides form)
  then have "snapshot_ok (att_questions_snapshot a)" by (simp add: attempt_good_def answers_ok_def)
  then show ?case using step_submit by (intro closed_attempt_good submitted_answers_ok) (simp_all add: attempt_good_def)
qed

section \<open>What no step undoes\<close>

lemma finished_stays: "\<not> in_progress a \<Longrightarrow> \<not> attempt_step m a b"
  by (auto simp: running_def elim: from_step)

lemma finished_stays_star: "(attempt_step m)\<^sup>*\<^sup>* a b \<Longrightarrow> \<not> in_progress a \<Longrightarrow> b = a"
  by (induction rule: rtranclp_induct) (auto dest: finished_stays)

lemma force_fail_dict_set:
  "k \<noteq> ''_force_fail'' \<Longrightarrow> map_of (dict_set k v vs) ''_force_fail'' = map_of vs ''_force_fail''"
  by simp

lemma map_of_force: "map_of (dict_set ''_force_fail'' v vs) ''_force_fail'' = Some v"
  by simp

lemma attempt_step_forced: "attempt_step m a b \<Longrightarrow> force_fail a \<Longrightarrow> force_fail b"
proof (induction rule: attempt_step.induct)
  case (step_violate a e now eff)
  let ?vs = "dict_set e (VCount (counted e a)) (att_violations a)"
  have "e \<noteq> ''_force_fail''"
    using step_violate(2) event_not_bookkeeping [of e] by (auto simp: event_allowed_def bookkeeping_def)
  then have "map_of ?vs ''_force_fail'' = map_of (att_violations a) ''_force_fail''" by (rule force_fail_dict_set)
  then have "(case map_of ?vs ''_force_fail'' of Some v \<Rightarrow> violation_truthy v | None \<Rightarrow> False)"
    using step_violate(4) by (simp add: force_fail_def)
  then show ?case
    using evaluate_rules_keeps(2) [OF step_violate(3)]
    by (elim disjE exE conjE) (auto simp: force_fail_def simp del: map_of_dict_set simp: force_fail_dict_set map_of_force)
next
  case (step_finish a st overrides)
  then show ?case by simp
next
  case (step_submit a st overrides form)
  then show ?case by (simp add: force_fail_def)
next
  case (step_resume a now)
  then show ?case by (simp add: force_fail_def)
qed (simp_all add: force_fail_def burn_question_def record_timed_out_def take_answer_def split: option.split)

lemma attempt_step_forced_star: "(attempt_step m)\<^sup>*\<^sup>* a b \<Longrightarrow> force_fail a \<Longrightarrow> force_fail b"
  by (induction rule: rtranclp_induct) (auto dest: attempt_step_forced)

lemma attempt_steps_good: "(attempt_step m)\<^sup>*\<^sup>* a b \<Longrightarrow> attempt_good a \<Longrightarrow> attempt_good b"
  by (induction rule: rtranclp_induct) (auto dest: attempt_step_good)

lemma same_exam_steps: "(attempt_step m)\<^sup>*\<^sup>* a b \<Longrightarrow> same_exam a b"
  by (induction rule: rtranclp_induct) (auto dest: same_exam_step intro: same_exam_trans)

text \<open>A paused attempt takes no answer and no violation: it resumes, or a forced failure ends it; and
  without resuming nothing but a forced failure happens to it.\<close>

lemma paused_step:
  assumes "attempt_step m a b" and "att_paused_at a \<noteq> None"
  shows "(att_answers b = att_answers a \<and> att_violations b = att_violations a \<and> running b) \<or>
    (force_fail a \<and> att_status b = Attempt_VIOLATION_FAIL \<and> att_is_passed b = Some False)"
  using assms
proof (cases rule: attempt_step.cases)
  case (step_resume now)
  then show ?thesis by (simp add: running_def in_progress_def)
next
  case (step_finish st overrides)
  then show ?thesis using assms(2)
    by (simp add: running_def closed_attempt_status closed_attempt_passed score_attempt_forced)
qed (simp_all add: running_def)

lemma resume_enabled: "in_progress a \<Longrightarrow> att_paused_at a \<noteq> None \<Longrightarrow> \<exists>b. attempt_step True a b \<and> running b"
  by (intro exI conjI, rule step_resume) (auto simp: running_def in_progress_def)

lemma paused_steps:
  assumes "(attempt_step False)\<^sup>*\<^sup>* a b" and "att_paused_at a \<noteq> None"
  shows "b = a \<or> (force_fail a \<and> att_status b = Attempt_VIOLATION_FAIL \<and> att_is_passed b = Some False)"
  using assms(1)
proof (cases rule: converse_rtranclpE)
  case base
  then show ?thesis by simp
next
  case (step c)
  have c: "force_fail a \<and> att_status c = Attempt_VIOLATION_FAIL \<and> att_is_passed c = Some False"
    using step(1) assms(2)
  proof (cases rule: attempt_step.cases)
    case (step_finish st overrides)
    then show ?thesis using assms(2)
      by (simp add: running_def closed_attempt_status closed_attempt_passed score_attempt_forced)
  qed (simp_all add: running_def)
  then have "\<not> in_progress c" by (simp add: in_progress_def)
  with step(2) have "b = c" by (rule finished_stays_star)
  with c show ?thesis by blast
qed

end
