(* ===== verification/QuizSteps.thy ===== *)
theory QuizSteps
  imports AttemptLifecycle
begin

text \<open>
  The invariant of the quiz tables and what the routes may do to them. \<open>quiz_step\<close> lifts the life cycle of one attempt
  to the database: a request changes no attempt, moves one attempt by a step of its life cycle, or
  starts a fresh attempt for a student who has none open. Every route is a sequence of such steps,
  and the invariant \<open>quiz_db_ok\<close> is proved for the steps, once. The flag of a step says whether it
  may resume a paused attempt.
\<close>

section \<open>The invariant\<close>

definition question_points_ok :: "json \<Rightarrow> bool" where
  "question_points_ok q =
     (case q of
        JObj d \<Rightarrow> (case py_int (dget d ''points'' (JInt 1)) of Inr p \<Rightarrow> 0 \<le> p | Inl _ \<Rightarrow> True)
      | _ \<Rightarrow> True)"

definition points_ok :: "pydict \<Rightarrow> bool" where
  "points_ok cfg = (case questions_raw cfg of Inr qs \<Rightarrow> list_all question_points_ok qs | Inl _ \<Rightarrow> True)"

text \<open>No question of a stored configuration is worth less than nothing.\<close>

definition config_good :: "subject_plugin_config \<Rightarrow> bool" where
  "config_good cfg \<longleftrightarrow>
     (\<forall>code. case pinned_quiz cfg code of Inr (pa, quiz) \<Rightarrow> points_ok quiz | Inl _ \<Rightarrow> True)"

definition stored_draw_ok :: "submission \<Rightarrow> bool" where
  "stored_draw_ok s =
     (case md_squad_quiz_draw (sub_source_metadata s) of Some dr \<Rightarrow> draw_ok dr | None \<Rightarrow> True)"

definition draws_ok :: "db \<Rightarrow> bool" where
  "draws_ok d \<longleftrightarrow> (\<forall>s \<in> set (db_submissions d). stored_draw_ok s)"

text \<open>The evidence of an attempt is bounded: events that do not fail it, and frames.\<close>

definition stored_events :: "db \<Rightarrow> int \<Rightarrow> nat" where
  "stored_events d i = length (filter (\<lambda>e. ev_attempt_id e = i \<and> ev_action e \<noteq> ''fail'') (db_events d))"

definition stored_frames :: "db \<Rightarrow> int \<Rightarrow> nat" where
  "stored_frames d i = length (filter (\<lambda>s. snp_attempt_id s = i) (db_snapshots d))"

definition evidence_ok :: "db \<Rightarrow> bool" where
  "evidence_ok d \<longleftrightarrow>
     (\<forall>i. stored_events d i \<le> MAX_EVENTS_STORED_PER_ATTEMPT \<and> stored_frames d i \<le> MAX_SNAPSHOTS_PER_ATTEMPT)"

text \<open>No student has two open attempts at one submission; an attempt of an unknown student, which
  every member sees as their own, is the only open one.\<close>

definition one_open :: "quiz_attempt list \<Rightarrow> bool" where
  "one_open ats \<longleftrightarrow>
     (\<forall>a \<in> set ats. \<forall>b \<in> set ats. in_progress a \<and> in_progress b \<and> att_submission_id a = att_submission_id b \<and>
        (att_student_id a = att_student_id b \<or> att_student_id a = None) \<longrightarrow> att_id a = att_id b)"

definition attempts_ok :: "db \<Rightarrow> bool" where
  "attempts_ok d \<longleftrightarrow>
     distinct (map att_id (db_attempts d)) \<and> one_open (db_attempts d) \<and>
     (\<forall>a \<in> set (db_attempts d). att_id a < db_next d \<and> attempt_good a)"

definition quiz_db_ok :: "db \<Rightarrow> bool" where
  "quiz_db_ok d \<longleftrightarrow>
     attempts_ok d \<and> draws_ok d \<and> evidence_ok d \<and> (\<forall>c \<in> set (db_configs d). config_good c)"

section \<open>Steps of the database\<close>

definition quiz_frame :: "db \<Rightarrow> db \<Rightarrow> bool" where
  "quiz_frame d d' \<longleftrightarrow>
     db_configs d' = db_configs d \<and> db_next d \<le> db_next d' \<and>
     (draws_ok d \<longrightarrow> draws_ok d') \<and> (evidence_ok d \<longrightarrow> evidence_ok d')"

definition fresh_attempt :: "quiz_attempt \<Rightarrow> bool" where
  "fresh_attempt a \<longleftrightarrow>
     in_progress a \<and> att_student_id a \<noteq> None \<and> att_answers a = [] \<and> att_violations a = [] \<and>
     att_current_index a = 0 \<and> att_paused_at a = None \<and> att_paused_seconds a = 0 \<and>
     att_submitted_at a = None \<and> att_score a = None \<and> att_is_passed a = None \<and>
     snapshot_ok (att_questions_snapshot a)"

inductive quiz_step :: "bool \<Rightarrow> db \<Rightarrow> db \<Rightarrow> bool" for m where
  quiet: "db_attempts d' = db_attempts d \<Longrightarrow> quiz_frame d d' \<Longrightarrow> quiz_step m d d'"
| moved: "get_attempt d (att_id a) = Some a \<Longrightarrow> attempt_step m a b \<Longrightarrow>
    db_attempts d' = db_attempts (put_attempt b d) \<Longrightarrow> quiz_frame d d' \<Longrightarrow> quiz_step m d d'"
| started: "fresh_attempt a \<Longrightarrow> db_next d \<le> att_id a \<Longrightarrow> att_id a < db_next d' \<Longrightarrow>
    (\<And>b. b \<in> set (db_attempts d) \<Longrightarrow> att_submission_id b = att_submission_id a \<Longrightarrow>
       att_student_id b \<in> {att_student_id a, None} \<Longrightarrow> \<not> in_progress b) \<Longrightarrow>
    db_attempts d' = db_attempts d @ [a] \<Longrightarrow> quiz_frame d d' \<Longrightarrow> quiz_step m d d'"

lemma quiz_frame_refl [simp]: "quiz_frame d d"
  by (simp add: quiz_frame_def)

lemma quiz_frame_trans: "quiz_frame d d1 \<Longrightarrow> quiz_frame d1 d2 \<Longrightarrow> quiz_frame d d2"
  by (auto simp: quiz_frame_def)

lemma quiz_frame_same:
  "db_configs d' = db_configs d \<Longrightarrow> db_submissions d' = db_submissions d \<Longrightarrow> db_events d' = db_events d \<Longrightarrow>
   db_snapshots d' = db_snapshots d \<Longrightarrow> db_next d \<le> db_next d' \<Longrightarrow> quiz_frame d d'"
  by (simp add: quiz_frame_def draws_ok_def evidence_ok_def stored_events_def stored_frames_def)

lemma put_attempt_other [simp]:
  "db_configs (put_attempt a d) = db_configs d" "db_events (put_attempt a d) = db_events d"
  "db_snapshots (put_attempt a d) = db_snapshots d" "db_next (put_attempt a d) = db_next d"
  "db_pauses (put_attempt a d) = db_pauses d"
  by (simp_all add: put_attempt_def upd_attempt_def)

lemma quiz_frame_put [simp]: "quiz_frame (put_attempt a d) d' = quiz_frame d d'"
  by (simp add: quiz_frame_def draws_ok_def evidence_ok_def stored_events_def stored_frames_def)

lemma quiz_frame_put_right [simp]: "quiz_frame d (put_attempt a d)"
  by (rule quiz_frame_same) simp_all

lemma upd_row_same: "distinct (map key t) \<Longrightarrow> get_row key (key r) t = Some r \<Longrightarrow> upd_row key (key r) (\<lambda>_. r) t = t"
  by (induction t) (auto simp: upd_row_def image_iff intro!: map_idI split: if_splits)

lemma put_attempt_put: "att_id b = att_id a \<Longrightarrow> db_attempts (put_attempt b (put_attempt a d)) = db_attempts (put_attempt b d)"
  by (simp add: put_attempt_def upd_attempt_def upd_row_def comp_def)

section \<open>The steps keep the invariant\<close>

lemma fresh_attempt_good:
  assumes "fresh_attempt a"
  shows "attempt_good a"
  using assms
  by (simp add: fresh_attempt_def attempt_good_def answers_ok_def stepped_ok_def violations_ok_def)

lemma attempts_ok_get: "attempts_ok d \<Longrightarrow> get_attempt d i = Some a \<Longrightarrow> attempt_good a"
  by (auto simp: attempts_ok_def get_attempt_def dest: get_row_Some)

lemma in_progress_back: "attempt_step m a b \<Longrightarrow> in_progress b \<Longrightarrow> in_progress a"
  using finished_stays by blast

lemma attempts_ok_moved:
  assumes "attempts_ok d" and "get_attempt d (att_id a) = Some a" and "attempt_step m a b"
    and "db_attempts d' = db_attempts (put_attempt b d)" and "db_next d \<le> db_next d'"
  shows "attempts_ok d'"
proof -
  let ?ats = "db_attempts d"
  have ex: "same_exam a b" by (rule same_exam_step [OF assms(3)])
  then have id: "att_id b = att_id a" by (simp add: same_exam_def)
  have a: "a \<in> set ?ats" using assms(2) by (auto simp: get_attempt_def dest: get_row_Some)
  have ats: "db_attempts d' = map (\<lambda>r. if att_id r = att_id a then b else r) ?ats"
    using assms(4) id by (simp add: put_attempt_def upd_attempt_def upd_row_def)
  have dist: "distinct (map att_id ?ats)" using assms(1) by (simp add: attempts_ok_def)
  have "map att_id (db_attempts d') = map att_id ?ats" by (simp add: ats id)
  moreover have "one_open (db_attempts d')"
    unfolding one_open_def
  proof (intro ballI impI)
    fix x y assume x: "x \<in> set (db_attempts d')" and y: "y \<in> set (db_attempts d')"
      and xy: "in_progress x \<and> in_progress y \<and> att_submission_id x = att_submission_id y \<and>
        (att_student_id x = att_student_id y \<or> att_student_id x = None)"
    have orig: "\<exists>r \<in> set ?ats. att_id r = att_id z \<and> in_progress r \<and> att_submission_id r = att_submission_id z \<and>
        att_student_id r = att_student_id z" if z: "z \<in> set (db_attempts d')" "in_progress z" for z
    proof (cases "z = b")
      case True
      with a that ex in_progress_back [OF assms(3)] show ?thesis
        by (intro bexI [of _ a]) (auto simp: same_exam_def)
    next
      case False
      with z show ?thesis by (auto simp: ats split: if_splits)
    qed
    from orig [OF x] orig [OF y] xy obtain r s where
      "r \<in> set ?ats" "s \<in> set ?ats" "att_id r = att_id x" "att_id s = att_id y" "in_progress r" "in_progress s"
      "att_submission_id r = att_submission_id s" "att_student_id r = att_student_id s \<or> att_student_id r = None"
      by metis
    then show "att_id x = att_id y" using assms(1) unfolding attempts_ok_def one_open_def by metis
  qed
  moreover have "att_id z < db_next d' \<and> attempt_good z" if "z \<in> set (db_attempts d')" for z
  proof -
    have "attempt_good b" using attempt_step_good [OF assms(3)] attempts_ok_get [OF assms(1,2)] .
    with that a assms(1,5) id show ?thesis by (auto simp: ats attempts_ok_def split: if_splits)
  qed
  ultimately show ?thesis using dist by (simp add: attempts_ok_def)
qed

lemma attempts_ok_started:
  assumes "attempts_ok d" and "fresh_attempt a" and "db_next d \<le> att_id a" and "att_id a < db_next d'"
    and free: "\<And>b. b \<in> set (db_attempts d) \<Longrightarrow> att_submission_id b = att_submission_id a \<Longrightarrow>
       att_student_id b \<in> {att_student_id a, None} \<Longrightarrow> \<not> in_progress b"
    and "db_attempts d' = db_attempts d @ [a]"
  shows "attempts_ok d'"
proof -
  have st: "att_student_id a \<noteq> None" using assms(2) by (simp add: fresh_attempt_def)
  have old: "att_id b < att_id a" "att_id b < db_next d'" if "b \<in> set (db_attempts d)" for b
    using that assms(1,3,4) by (auto simp: attempts_ok_def)
  have "att_id a \<notin> att_id ` set (db_attempts d)" using old(1) by fastforce
  then have "distinct (map att_id (db_attempts d'))" using assms(1) by (simp add: assms(6) attempts_ok_def)
  moreover have "one_open (db_attempts d')"
    unfolding one_open_def assms(6)
  proof (intro ballI impI)
    fix x y assume xy: "x \<in> set (db_attempts d @ [a])" "y \<in> set (db_attempts d @ [a])"
      and h: "in_progress x \<and> in_progress y \<and> att_submission_id x = att_submission_id y \<and>
        (att_student_id x = att_student_id y \<or> att_student_id x = None)"
    have o: "one_open (db_attempts d)" using assms(1) by (simp add: attempts_ok_def)
    consider "x = a" "y = a" | "x = a" "y \<in> set (db_attempts d)" | "x \<in> set (db_attempts d)" "y = a"
      | "x \<in> set (db_attempts d)" "y \<in> set (db_attempts d)" using xy by auto
    then show "att_id x = att_id y"
    proof cases
      case 1
      then show ?thesis by simp
    next
      case 2
      then have "\<not> in_progress y" using h st by (intro free) auto
      with h show ?thesis by simp
    next
      case 3
      then have "\<not> in_progress x" using h by (intro free) auto
      with h show ?thesis by simp
    next
      case 4
      with o h show ?thesis unfolding one_open_def by blast
    qed
  qed
  moreover have "\<forall>b \<in> set (db_attempts d'). att_id b < db_next d' \<and> attempt_good b"
    using assms(1,4) old(2) fresh_attempt_good [OF assms(2)] by (auto simp: assms(6) attempts_ok_def)
  ultimately show ?thesis by (simp add: attempts_ok_def)
qed

lemma quiz_step_attempts_ok: "quiz_step m d d' \<Longrightarrow> attempts_ok d \<Longrightarrow> attempts_ok d'"
proof (induction rule: quiz_step.induct)
  case (quiet d' d)
  then show ?case by (auto simp: quiz_frame_def attempts_ok_def)
next
  case (moved d a b d')
  have "db_next d \<le> db_next d'" using moved(4) by (simp add: quiz_frame_def)
  with moved(1-3,5) show ?case by (intro attempts_ok_moved [OF _ moved(1-3)])
next
  case (started a d d')
  show ?case by (rule attempts_ok_started [OF started(7) started(1-5)])
qed

lemma quiz_steps_attempts_ok: "(quiz_step m)\<^sup>*\<^sup>* d d' \<Longrightarrow> attempts_ok d \<Longrightarrow> attempts_ok d'"
  by (induction rule: rtranclp_induct) (auto dest: quiz_step_attempts_ok)

lemma quiz_step_frame: "quiz_step m d d' \<Longrightarrow> quiz_frame d d'"
  by (auto elim: quiz_step.cases)

lemma quiz_step_ok: "quiz_step m d d' \<Longrightarrow> quiz_db_ok d \<Longrightarrow> quiz_db_ok d'"
  using quiz_step_attempts_ok [where d = d and d' = d' and m = m] quiz_step_frame [where d = d and d' = d' and m = m] by (simp add: quiz_db_ok_def quiz_frame_def)

lemma quiz_steps_ok: "(quiz_step m)\<^sup>*\<^sup>* d d' \<Longrightarrow> quiz_db_ok d \<Longrightarrow> quiz_db_ok d'"
  by (induction rule: rtranclp_induct) (auto dest: quiz_step_ok)

text \<open>Seen from one attempt, every step of the database is at most a step of its life cycle.\<close>

lemma quiz_step_attempt:
  assumes "quiz_step m d d'" and "get_attempt d i = Some a"
  obtains b where "get_attempt d' i = Some b" and "(attempt_step m)\<^sup>*\<^sup>* a b"
  using assms
proof (cases rule: quiz_step.cases)
  case quiet
  then show ?thesis using that assms(2) by (simp add: get_attempt_def)
next
  case (moved x y)
  have id: "att_id y = att_id x" using same_exam_step [OF moved(2)] by (simp add: same_exam_def)
  have g: "get_attempt d' i = (if att_id x = i then map_option (\<lambda>_. y) (get_attempt d i) else get_attempt d i)"
    using moved(3) get_attempt_put [of y d i] id by (simp add: get_attempt_def)
  show ?thesis
  proof (cases "att_id x = i")
    case True
    then have "a = x" using moved(1) assms(2) by simp
    with True g assms(2) moved(2) that show ?thesis by auto
  next
    case False
    with g assms(2) that show ?thesis by auto
  qed
next
  case (started x)
  then show ?thesis using that assms(2) by (simp add: get_attempt_def)
qed

lemma quiz_steps_attempt:
  assumes "(quiz_step m)\<^sup>*\<^sup>* d d'" and "get_attempt d i = Some a"
  shows "\<exists>b. get_attempt d' i = Some b \<and> (attempt_step m)\<^sup>*\<^sup>* a b"
  using assms(1)
proof (induction rule: rtranclp_induct)
  case base
  then show ?case using assms(2) by blast
next
  case (step d1 d2)
  then obtain b where "get_attempt d1 i = Some b" "(attempt_step m)\<^sup>*\<^sup>* a b" by blast
  with step(2) show ?case by (elim quiz_step_attempt) (auto intro: rtranclp_trans)
qed

section \<open>Moving one attempt\<close>

lemma quiet_steps: "db_attempts d' = db_attempts d \<Longrightarrow> quiz_frame d d' \<Longrightarrow> (quiz_step m)\<^sup>*\<^sup>* d d'"
  by (intro r_into_rtranclp quiet)

lemma put_attempt_same:
  assumes "attempts_ok d" and "get_attempt d (att_id a) = Some a"
  shows "db_attempts (put_attempt a d) = db_attempts d"
  using assms upd_row_same [of att_id "db_attempts d" a]
  by (simp add: put_attempt_def upd_attempt_def get_attempt_def attempts_ok_def)

lemma move_steps:
  assumes "(attempt_step m)\<^sup>*\<^sup>* a b" and "attempts_ok d" and "get_attempt d (att_id a) = Some a"
    and "db_attempts d' = db_attempts (put_attempt b d)" and "quiz_frame d d'"
  shows "(quiz_step m)\<^sup>*\<^sup>* d d'"
  using assms(1,4,5)
proof (induction arbitrary: d' rule: rtranclp_induct)
  case base
  then show ?case using put_attempt_same [OF assms(2,3)] by (intro quiet_steps) simp_all
next
  case (step b c)
  have id: "att_id b = att_id a" "att_id c = att_id b"
    using same_exam_steps [OF step(1)] same_exam_step [OF step(2)] by (simp_all add: same_exam_def)
  have "(quiz_step m)\<^sup>*\<^sup>* d (put_attempt b d)" by (rule step.IH) simp_all
  moreover have "quiz_step m (put_attempt b d) d'"
  proof (rule moved [OF _ step(2)])
    show "get_attempt (put_attempt b d) (att_id b) = Some b" using assms(3) by (simp add: get_attempt_put id)
    show "db_attempts d' = db_attempts (put_attempt c (put_attempt b d))"
      using step(4) by (simp add: put_attempt_put id)
    show "quiz_frame (put_attempt b d) d'" using step(5) by simp
  qed
  ultimately show ?case by (rule rtranclp.rtrancl_into_rtrancl)
qed

lemma put_steps:
  "(attempt_step m)\<^sup>*\<^sup>* a b \<Longrightarrow> attempts_ok d \<Longrightarrow> get_attempt d (att_id a) = Some a \<Longrightarrow> (quiz_step m)\<^sup>*\<^sup>* d (put_attempt b d)"
  by (rule move_steps) simp_all

section \<open>Finishing\<close>

lemma frame_grade: "grade_frame d d' \<Longrightarrow> quiz_frame d d'"
proof -
  assume g: "grade_frame d d'"
  then have e: "d' = d\<lparr>db_sas := db_sas d', db_next := db_next d', db_submissions := db_submissions d'\<rparr>"
    and f: "db_next d \<le> db_next d'" "map ungraded (db_submissions d') = map ungraded (db_submissions d)"
    by (simp_all add: grade_frame_def)
  have c: "db_configs d' = db_configs d" "db_events d' = db_events d" "db_snapshots d' = db_snapshots d"
    by (subst e, simp)+
  have "stored_draw_ok s = stored_draw_ok (ungraded s)" for s by (simp add: stored_draw_ok_def)
  then have "draws_ok e \<longleftrightarrow> list_all stored_draw_ok (map ungraded (db_submissions e))" for e
    by (simp add: draws_ok_def list_all_iff)
  with f c show ?thesis by (simp add: quiz_frame_def evidence_ok_def stored_events_def stored_frames_def)
qed

lemma frame_store: "(draws_ok d \<Longrightarrow> stored_draw_ok s) \<Longrightarrow> quiz_frame d (store_submission s d)"
  by (auto simp: quiz_frame_def store_submission_def upd_submission_def draws_ok_def evidence_ok_def stored_events_def
      stored_frames_def dest: in_set_upd_row)

lemma stored_draw_get: "draws_ok d \<Longrightarrow> get_submission d i = Some s \<Longrightarrow> stored_draw_ok s"
  by (auto simp: draws_ok_def get_submission_def dest: get_row_Some)

lemma frame_fire:
  assumes "fire e sub d = Inr d'" and "get_submission d i = Some sub"
  shows "quiz_frame d d'"
  using assms(1) stored_draw_get [OF _ assms(2)]
  by (auto simp: fire_def stored_draw_ok_def intro!: frame_store split: sum.splits)

lemma frame_queue: "quiz_frame d (enqueue_teacher_review_notification i d)"
  by (subst enqueue_only) (rule quiz_frame_same, simp_all)

lemma frame_notify: "quiz_frame d (notify_partners_passed sub sid d)"
  using notify_partners_only [of sub sid d] by (auto intro!: quiz_frame_same)

lemma frame_finalize:
  assumes "grade_and_finalize now a st d = Inr d'"
  shows "quiz_frame d d'"
proof -
  have fs: "quiz_frame e e'" if "finalize_stored i e = Inr e'" for i e e'
    using that by (intro frame_grade grade_frame_finalize_stored)
  have settle: "quiz_frame e e'" if "settle_submission x p e = Inr (e', l)" for x p e e' l
    using that
    by (auto simp: settle_submission_def quiz_is_passed_def quiz_is_failed_def complete_now_def hand_to_teacher_def
        bind_result_eq_Inr map_sum_eq_Inr Let_def frame_notify
        intro: quiz_frame_trans [OF frame_fire fs] quiz_frame_trans [OF frame_fire frame_queue] frame_fire
        split: option.splits if_splits)
  from assms obtain c p e l x where "settle_submission c p (put_attempt c d) = Inr (e, l)"
    "d' = add_outbox QUIZ_RESULT x e"
    by (auto simp: grade_and_finalize_def Let_def case_prod_unfold bind_result_eq_Inr)
  moreover have "quiz_frame e (add_outbox QUIZ_RESULT x e)" by (rule quiz_frame_same) (simp_all add: add_outbox_def)
  ultimately show ?thesis using settle quiz_frame_trans by (metis quiz_frame_put)
qed

lemma finish_steps:
  assumes "\<And>ovr. (attempt_step m)\<^sup>*\<^sup>* a (closed_attempt now st ovr b)" and "attempts_ok d"
    and "get_attempt d (att_id a) = Some a" and "get_submission d (att_submission_id a) = Some sub"
    and "att_id b = att_id a" and "att_submission_id b = att_submission_id a"
  shows "(quiz_step m)\<^sup>*\<^sup>* d (fst (finish now b st r d))"
proof (cases "grade_and_finalize now b st d")
  case (Inl e)
  then show ?thesis by (simp add: finish_def split: finalize_error.split)
next
  case (Inr d')
  have "get_submission d (att_submission_id b) = Some sub" using assms(4,6) by simp
  then obtain s where "moves_to (att_submission_id b) s (put_attempt (closed_attempt now st
      (load_question_overrides d (att_plugin_config_id b) (att_plugin_config_version b)) b) d) d'"
    by (rule grade_and_finalize_cases [OF Inr])
  then have "db_attempts d' = db_attempts (put_attempt (closed_attempt now st
      (load_question_overrides d (att_plugin_config_id b) (att_plugin_config_version b)) b) d)"
    by (simp add: moves_to_def)
  with assms(1-3) frame_finalize [OF Inr] have "(quiz_step m)\<^sup>*\<^sup>* d d'" by (intro move_steps) auto
  then show ?thesis by (simp add: finish_def Inr)
qed

section \<open>Routes on one attempt\<close>

lemma load_attempt_Inr:
  assumes "load_attempt d i sid = Inr (a, sub)"
  shows "get_attempt d i = Some a" "att_id a = i" "get_submission d (att_submission_id a) = Some sub"
    "get_attempt d (att_id a) = Some a"
proof -
  show g: "get_attempt d i = Some a" and "get_submission d (att_submission_id a) = Some sub"
    using assms by (auto simp: load_attempt_def Let_def split: option.splits if_splits)
  then show "att_id a = i" by (auto simp: get_attempt_def dest: get_row_Some)
  with g show "get_attempt d (att_id a) = Some a" by simp
qed

text \<open>What \<open>advance_expired\<close> does is a sequence of expiries, or starts the clock.\<close>

lemma advance_loop_steps:
  assumes "running a" and "is_stepped a"
  shows "(attempt_step m)\<^sup>*\<^sup>* a (fst (advance_loop now a b)) \<and> running (fst (advance_loop now a b)) \<and>
    is_stepped (fst (advance_loop now a b)) \<and> force_fail (fst (advance_loop now a b)) = force_fail a"
  using assms
proof (induction now a b rule: advance_loop.induct)
  case (1 now a b)
  have anchor: "running (a\<lparr>att_question_started_at := Some now\<rparr>)" "is_stepped (a\<lparr>att_question_started_at := Some now\<rparr>)"
    "force_fail (a\<lparr>att_question_started_at := Some now\<rparr>) = force_fail a"
    using "1.prems" by (simp_all add: running_def in_progress_def is_stepped_def force_fail_def)
  have burn: "running (burn_question l s a)" "is_stepped (burn_question l s a)"
    "force_fail (burn_question l s a) = force_fail a" for l s
    using "1.prems" by (simp_all add: running_def in_progress_def is_stepped_def burn_question_def record_timed_out_def
        force_fail_def split: option.split)
  note a_step = step_anchor [OF "1.prems", where now = now]
  show ?case
  proof (cases "att_current_index a < length (att_questions_snapshot a)")
    case False
    then show ?thesis using "1.prems" by (simp add: advance_loop.simps [of now a b])
  next
    case inside: True
    let ?q = "att_questions_snapshot a ! att_current_index a"
    show ?thesis
    proof (cases "window_of ?q")
      case None
      then show ?thesis using "1.prems" inside by (simp add: advance_loop.simps [of now a b])
    next
      case (Some l)
      show ?thesis
      proof (cases "att_question_started_at a")
        case None
        then show ?thesis using anchor a_step inside Some by (auto simp: advance_loop.simps [of now a b])
      next
        case (Some s)
        note st = this
        show ?thesis
        proof (cases "seconds (now - s) \<le> of_int (l + QUESTION_GRACE_SECONDS)")
          case True
          then show ?thesis using "1.prems" inside \<open>window_of ?q = Some l\<close> st by (simp add: advance_loop.simps [of now a b])
        next
          case False
          have "attempt_step m a (burn_question l s a)"
            using "1.prems" inside \<open>window_of ?q = Some l\<close> st False
            by (intro step_expire [where q = ?q and l = l and s = s and now = now]) (simp_all add: current_question_Some)
          moreover note "1.IH" [OF inside \<open>window_of ?q = Some l\<close> st False burn(1,2)]
          ultimately show ?thesis using inside \<open>window_of ?q = Some l\<close> st False
            by (auto simp: advance_loop.simps [of now a b] burn intro: converse_rtranclp_into_rtranclp)
        qed
      qed
    qed
  qed
qed

lemma advance_expired_steps:
  assumes "advance_expired now a = (a1, n)" and "running a" and "is_stepped a"
  shows "(attempt_step m)\<^sup>*\<^sup>* a a1" "running a1" "is_stepped a1" "force_fail a1 = force_fail a" "att_id a1 = att_id a"
    "att_submission_id a1 = att_submission_id a"
proof -
  have "a1 = fst (advance_loop now a 0)" using assms(1,2) by (simp add: advance_expired_def running_def)
  then show s: "(attempt_step m)\<^sup>*\<^sup>* a a1" "running a1" "is_stepped a1" "force_fail a1 = force_fail a"
    using advance_loop_steps [OF assms(2,3), where now = now and b = 0] by simp_all
  show "att_id a1 = att_id a" "att_submission_id a1 = att_submission_id a"
    using same_exam_steps [OF s(1)] by (simp_all add: same_exam_def)
qed

text \<open>Finishing an attempt that has gone through some steps since it was read.\<close>

lemma finish_after_steps:
  assumes "(attempt_step m)\<^sup>*\<^sup>* a b" and "in_progress b" and "running b \<or> force_fail b" and "st \<noteq> Attempt_IN_PROGRESS"
    and "attempts_ok d" and "get_attempt d (att_id a) = Some a" and "get_submission d (att_submission_id a) = Some sub"
  shows "(quiz_step m)\<^sup>*\<^sup>* d (fst (finish now b st r d))"
proof (rule finish_steps [OF _ assms(5-7)])
  show "(attempt_step m)\<^sup>*\<^sup>* a (closed_attempt now st ovr b)" for ovr
    by (rule rtranclp.rtrancl_into_rtrancl [OF assms(1)]) (rule step_finish [OF assms(2-4)])
  show "att_id b = att_id a" "att_submission_id b = att_submission_id a"
    using same_exam_steps [OF assms(1)] by (simp_all add: same_exam_def)
qed

lemma finish_now:
  assumes "in_progress a" and "running a \<or> force_fail a" and "st \<noteq> Attempt_IN_PROGRESS"
    and "attempts_ok d" and "load_attempt d i sid = Inr (a, sub)"
  shows "(quiz_step m)\<^sup>*\<^sup>* d (fst (finish now a st r d))"
  by (rule finish_after_steps [OF rtranclp.rtrancl_refl assms(1-4)]) (use load_attempt_Inr [OF assms(5)] in simp_all)

lemma burn_commit:
  assumes "advance_expired now a = (a1, n)" and "running a" and "is_stepped a"
    and "attempts_ok d" and "load_attempt d i sid = Inr (a, sub)"
  defines "d1 \<equiv> if n \<noteq> 0 then put_attempt a1 d else d"
  shows "(quiz_step m)\<^sup>*\<^sup>* d d1" and "(quiz_step m)\<^sup>*\<^sup>* d (put_attempt a1 d)"
    and "current_question a1 = None \<Longrightarrow> (quiz_step m)\<^sup>*\<^sup>* d (fst (finish now' a1 Attempt_COMPLETED r d1))"
proof -
  note a = load_attempt_Inr [OF assms(5)]
  note s = advance_expired_steps [OF assms(1-3)]
  show p: "(quiz_step m)\<^sup>*\<^sup>* d (put_attempt a1 d)" by (rule put_steps [OF s(1) assms(4) a(4)])
  then show q: "(quiz_step m)\<^sup>*\<^sup>* d d1" by (simp add: d1_def)
  have ip: "in_progress a1" using s(2) by (simp add: running_def)
  have f0: "(quiz_step m)\<^sup>*\<^sup>* d (fst (finish now' a1 Attempt_COMPLETED r d))"
    by (rule finish_after_steps [OF s(1) ip _ _ assms(4) a(4,3)]) (simp_all add: s(2))
  have "attempts_ok (put_attempt a1 d)"
    by (rule quiz_steps_attempts_ok [OF p assms(4)])
  then have "(quiz_step m)\<^sup>*\<^sup>* (put_attempt a1 d) (fst (finish now' a1 Attempt_COMPLETED r (put_attempt a1 d)))"
    using s ip a by (intro finish_after_steps [OF rtranclp.rtrancl_refl ip]) (simp_all add: get_attempt_put)
  with p f0 show "(quiz_step m)\<^sup>*\<^sup>* d (fst (finish now' a1 Attempt_COMPLETED r d1))"
    unfolding d1_def by (cases "n = 0") simp_all
qed

lemma show_step_steps:
  assumes "load_attempt d i sid = Inr (a, sub)" and "running a" and "is_stepped a" and "attempts_ok d"
  shows "(quiz_step m)\<^sup>*\<^sup>* d (fst (show_step now a d))"
proof -
  obtain a1 n where adv: "advance_expired now a = (a1, n)" by fastforce
  note b = burn_commit [OF adv assms(2-4,1)]
  note s = advance_expired_steps [OF adv assms(2,3)]
  have "(attempt_step m)\<^sup>*\<^sup>* a (a1\<lparr>att_question_started_at := Some now\<rparr>)"
    by (rule rtranclp.rtrancl_into_rtrancl [OF s(1)]) (rule step_anchor [OF s(2,3)])
  then have "(quiz_step m)\<^sup>*\<^sup>* d (put_attempt (a1\<lparr>att_question_started_at := Some now\<rparr>) d)"
    by (rule put_steps [OF _ assms(4) load_attempt_Inr(4) [OF assms(1)]])
  with b show ?thesis by (simp add: show_step_def adv Let_def)
qed

lemma show_quiz_steps:
  assumes "attempts_ok d"
  shows "(quiz_step m)\<^sup>*\<^sup>* d (fst (show_quiz now sid i d))"
proof (cases "load_attempt d i sid")
  case (Inl r)
  then show ?thesis by (simp add: show_quiz_def)
next
  case (Inr p)
  then obtain a sub where l: "load_attempt d i sid = Inr (a, sub)" by (cases p) auto
  note fin = finish_now [OF _ _ _ assms l] and st = show_step_steps [OF l _ _ assms, where now = now]
  show ?thesis
    unfolding show_quiz_def l Let_def
    by (auto simp: in_progress_def running_def intro!: fin st)
qed

lemma answer_question_steps:
  assumes "attempts_ok d"
  shows "(quiz_step m)\<^sup>*\<^sup>* d (fst (answer_question now sid i form d))"
proof (cases "load_attempt d i sid")
  case (Inl r)
  then show ?thesis by (simp add: answer_question_def)
next
  case (Inr p)
  then obtain a sub where l: "load_attempt d i sid = Inr (a, sub)" by (cases p) auto
  note a = load_attempt_Inr [OF l] and fin = finish_now [OF _ _ _ assms l]
  obtain a1 n where adv: "advance_expired now a = (a1, n)" by fastforce
  define a2 where "a2 = (if n = 0 \<and> posted_index form = int (att_current_index a1) then take_answer now form a1 else a1)"
  have go: "(quiz_step m)\<^sup>*\<^sup>* d (fst (if current_question a2 = None then finish now a2 Attempt_COMPLETED x d else (put_attempt a2 d, y)))"
    if r: "running a" "is_stepped a" "\<not> force_fail a" for x y
  proof -
    note s = advance_expired_steps [OF adv r(1,2)]
    have ta: "running (take_answer now form a1)"
      using s(2) by (simp add: take_answer_def running_def in_progress_def split: option.split)
    have "(attempt_step m)\<^sup>*\<^sup>* a a2"
      unfolding a2_def using step_answer [OF s(2,3), where now = now and form = form] s r
      by (auto intro: rtranclp.rtrancl_into_rtrancl)
    moreover have "running a2" using s(2) ta by (simp add: a2_def)
    then have "in_progress a2" "running a2 \<or> force_fail a2" by (simp_all add: running_def)
    ultimately show ?thesis
      using put_steps [OF _ assms a(4), where b = a2] finish_after_steps [OF _ _ _ _ assms a(4,3)] by auto
  qed
  show ?thesis
    unfolding answer_question_def l Let_def adv sum.case prod.case a2_def [symmetric]
    using go by (auto simp: in_progress_def running_def intro!: fin)
qed

lemma submit_quiz_steps:
  assumes "attempts_ok d"
  shows "(quiz_step m)\<^sup>*\<^sup>* d (fst (submit_quiz now sid i form d))"
proof (cases "load_attempt d i sid")
  case (Inl r)
  then show ?thesis by (simp add: submit_quiz_def)
next
  case (Inr p)
  then obtain a sub where l: "load_attempt d i sid = Inr (a, sub)" by (cases p) auto
  note a = load_attempt_Inr [OF l]
  let ?b = "a\<lparr>att_answers := map (graded_answer form) (att_questions_snapshot a)\<rparr>"
  have "(quiz_step m)\<^sup>*\<^sup>* d (fst (finish now ?b st r d))"
    if "running a" "\<not> is_stepped a" "st \<noteq> Attempt_IN_PROGRESS" for st r
    by (rule finish_steps [OF _ assms a(4,3)], rule r_into_rtranclp, rule step_submit [OF that]) simp_all
  then show ?thesis
    unfolding submit_quiz_def l Let_def sum.case prod.case by (auto simp: in_progress_def running_def)
qed

section \<open>The pause\<close>

lemma quiet_after:
  assumes "(quiz_step m)\<^sup>*\<^sup>* d d1" and "db_attempts d2 = db_attempts d1" and "quiz_frame d1 d2"
  shows "(quiz_step m)\<^sup>*\<^sup>* d d2"
  using assms quiet_steps [where d = d1 and d' = d2] by (meson rtranclp_trans)

lemma audited_fields [simp]:
  "db_attempts (audit x y z d) = db_attempts d" "db_configs (audit x y z d) = db_configs d"
  "db_submissions (audit x y z d) = db_submissions d" "db_events (audit x y z d) = db_events d"
  "db_snapshots (audit x y z d) = db_snapshots d" "db_next (audit x y z d) = db_next d"
  by (simp_all add: audit_def)

lemma grant_pause_steps:
  assumes "(quiz_step m)\<^sup>*\<^sup>* d d1" and "(quiz_step m)\<^sup>*\<^sup>* d (put_attempt a1 d1)"
    and "(quiz_step m)\<^sup>*\<^sup>* d (put_attempt (a1\<lparr>att_paused_at := Some now\<rparr>) d1)"
  shows "(quiz_step m)\<^sup>*\<^sup>* d (fst (grant_pause now regions provider uid body a1 d1))"
proof -
  have "(quiz_step m)\<^sup>*\<^sup>* d (audit x y z (open_pause_row now j k (put_attempt (a1\<lparr>att_paused_at := Some now\<rparr>) d1)))" for x y z j k
    by (rule quiet_after [OF assms(3)]) (auto simp: open_pause_row_def intro!: quiz_frame_same)
  then show ?thesis using assms(1,2) by (auto simp: grant_pause_def split: option.split sum.split)
qed

lemma request_air_raid_pause_steps:
  assumes "attempts_ok d"
  shows "(quiz_step m)\<^sup>*\<^sup>* d (fst (request_air_raid_pause now regions provider uid sid i body d))"
proof (cases "load_attempt d i sid")
  case (Inl r)
  then show ?thesis by (simp add: request_air_raid_pause_def)
next
  case (Inr p)
  then obtain a sub where l: "load_attempt d i sid = Inr (a, sub)" by (cases p) auto
  note a = load_attempt_Inr [OF l] and fin = finish_now [OF _ _ _ assms l]
  obtain a1 n where adv: "advance_expired now a = (a1, n)" by fastforce
  have pause: "(quiz_step m)\<^sup>*\<^sup>* d (put_attempt (x\<lparr>att_paused_at := Some now\<rparr>) d)"
    if "(attempt_step m)\<^sup>*\<^sup>* a x" "running x" for x
    using that step_pause [where a = x and now = now] by (intro put_steps [OF _ assms a(4)]) (auto intro: rtranclp.rtrancl_into_rtrancl)
  have whole: "(quiz_step m)\<^sup>*\<^sup>* d (fst (grant_pause now regions provider uid body a d))" if "running a"
    using that pause [of a] put_steps [OF _ assms a(4), where b = a] by (intro grant_pause_steps) auto
  have stepped: "(quiz_step m)\<^sup>*\<^sup>* d (fst (if current_question a1 = None
      then finish now a1 Attempt_COMPLETED x (if n \<noteq> 0 then put_attempt a1 d else d)
      else grant_pause now regions provider uid body a1 (if n \<noteq> 0 then put_attempt a1 d else d)))"
    if r: "running a" "is_stepped a" for x
  proof -
    note s = advance_expired_steps [OF adv r] and b = burn_commit [OF adv r assms l]
    have ids: "att_id a1 = att_id a" by (rule s(5))
    have "(quiz_step m)\<^sup>*\<^sup>* d (put_attempt (a1\<lparr>att_paused_at := Some now\<rparr>) (if n \<noteq> 0 then put_attempt a1 d else d))"
      using pause [OF s(1,2)] put_attempt_put [of "a1\<lparr>att_paused_at := Some now\<rparr>" a1 d]
      by (auto intro!: quiet_after [OF pause [OF s(1,2)]] quiz_frame_same)
    moreover have "(quiz_step m)\<^sup>*\<^sup>* d (put_attempt a1 (if n \<noteq> 0 then put_attempt a1 d else d))"
      using put_attempt_put [of a1 a1 d] by (auto intro!: quiet_after [OF b(2)] quiz_frame_same)
    ultimately show ?thesis using b by (auto intro!: grant_pause_steps)
  qed
  show ?thesis
    unfolding request_air_raid_pause_def l Let_def sum.case prod.case adv
    using whole stepped by (auto simp: in_progress_def running_def intro!: fin)
qed

lemma resume_after_air_raid_steps:
  assumes "quiz_db_ok d"
  shows "(quiz_step True)\<^sup>*\<^sup>* d (fst (resume_after_air_raid now uid sid i d))"
proof (cases "load_attempt d i sid")
  case (Inl r)
  then show ?thesis by (simp add: resume_after_air_raid_def)
next
  case (Inr p)
  then obtain a sub where l: "load_attempt d i sid = Inr (a, sub)" by (cases p) auto
  note a = load_attempt_Inr [OF l]
  have ok: "attempts_ok d" using assms by (simp add: quiz_db_ok_def)
  show ?thesis
  proof (cases "att_paused_at a")
    case None
    then show ?thesis by (simp add: resume_after_air_raid_def l Let_def)
  next
    case (Some t)
    then have "in_progress a" using attempts_ok_get [OF ok a(1)] by (auto simp: attempt_good_def split: if_splits)
    then have "attempt_step True a (fst (close_open_pause now a))" using Some by (intro step_resume) simp_all
    then have "(quiz_step True)\<^sup>*\<^sup>* d (put_attempt (fst (close_open_pause now a)) d)"
      by (intro put_steps [OF _ ok a(4)] r_into_rtranclp)
    then have "(quiz_step True)\<^sup>*\<^sup>* d (audit x y z (case open_pause d (att_id a) of
        Some p \<Rightarrow> end_pause_row (pause_id p) e (put_attempt (fst (close_open_pause now a)) d)
      | None \<Rightarrow> put_attempt (fst (close_open_pause now a)) d))" for x y z e
      by (rule quiet_after) (auto simp: end_pause_row_def intro!: quiz_frame_same split: option.split)
    then show ?thesis
      by (simp add: resume_after_air_raid_def l Let_def Some case_prod_unfold)
  qed
qed

section \<open>Events, reports and frames\<close>

lemma read_event_type: "read_event declared n data = Inr (e, ctx) \<Longrightarrow> event_type_ok e"
  by (auto simp: read_event_def Let_def split: option.splits json.splits sum.splits if_splits)

lemma record_event_attempts [simp]: "db_attempts (record_event a e ctx oc act n th d) = db_attempts d"
  by (simp add: record_event_def)

lemma stored_events_le: "stored_events d i \<le> length (filter (\<lambda>e. ev_attempt_id e = i) (db_events d))"
proof -
  have "filter (\<lambda>e. ev_attempt_id e = i \<and> ev_action e \<noteq> ''fail'') (db_events d) =
      filter (\<lambda>e. ev_action e \<noteq> ''fail'') (filter (\<lambda>e. ev_attempt_id e = i) (db_events d))"
    by simp
  then show ?thesis unfolding stored_events_def by (simp only: length_filter_le)
qed

lemma frame_record: "quiz_frame d (record_event a e ctx oc act n th d)"
proof -
  let ?d = "record_event a e ctx oc act n th d"
  have "stored_events ?d i \<le> MAX_EVENTS_STORED_PER_ATTEMPT" if "evidence_ok d" for i
  proof (cases "act \<noteq> ''fail'' \<and> att_id a = i \<and>
      length (filter (\<lambda>e. ev_attempt_id e = i) (db_events d)) < MAX_EVENTS_STORED_PER_ATTEMPT")
    case True
    then have "stored_events d i < MAX_EVENTS_STORED_PER_ATTEMPT" using stored_events_le [of d i] by linarith
    then show ?thesis by (simp add: record_event_def stored_events_def)
  next
    case False
    then have "stored_events ?d i = stored_events d i" by (auto simp: record_event_def stored_events_def)
    with that show ?thesis by (simp add: evidence_ok_def)
  qed
  moreover have "stored_frames ?d i = stored_frames d i" for i by (simp add: record_event_def stored_frames_def)
  moreover have "draws_ok ?d = draws_ok d" "db_configs ?d = db_configs d" "db_next ?d = db_next d"
    by (simp_all add: record_event_def draws_ok_def)
  ultimately show ?thesis by (simp add: quiz_frame_def evidence_ok_def)
qed

lemma apply_event_steps:
  assumes "running a" and "event_allowed e a" and "attempts_ok d" and "get_attempt d (att_id a) = Some a"
  shows "(quiz_step m)\<^sup>*\<^sup>* d (fst (apply_event now e ctx a d))"
proof (cases "evaluate_rules now e (counted e a) a (dict_set e (VCount (counted e a)) (att_violations a))")
  case (Inl x)
  then show ?thesis by (simp add: apply_event_def counted_def Let_def)
next
  case (Inr eff)
  have st: "attempt_step m a (after_violation eff)" by (rule step_violate [OF assms(1,2) Inr])
  have "(quiz_step m)\<^sup>*\<^sup>* d (put_attempt (after_violation eff) d)"
    by (rule put_steps [OF _ assms(3,4)], rule r_into_rtranclp, rule st)
  then have "(quiz_step m)\<^sup>*\<^sup>* d (record_event (after_violation eff) e ctx oc act n th (put_attempt (after_violation eff) d))" for oc act n th
    by (rule quiet_after) (simp_all add: frame_record)
  then show ?thesis using Inr by (simp add: apply_event_def counted_def Let_def after_violation_def)
qed

lemma report_violation_steps:
  assumes "attempts_ok d"
  shows "(quiz_step m)\<^sup>*\<^sup>* d (fst (report_violation now sid i declared n data d))"
proof (cases "read_event declared n data")
  case (Inl r)
  then show ?thesis by (simp add: report_violation_def)
next
  case (Inr p)
  then obtain e ctx where re: "read_event declared n data = Inr (e, ctx)" by (cases p) auto
  show ?thesis
  proof (cases "load_attempt d i sid")
    case (Inl r)
    then show ?thesis by (simp add: report_violation_def re)
  next
    case (Inr p)
    then obtain a sub where l: "load_attempt d i sid = Inr (a, sub)" by (cases p) auto
    have log: "(quiz_step m)\<^sup>*\<^sup>* d (record_event a e ctx oc act k th d)" for oc act k th
      by (rule quiet_steps) (simp_all add: frame_record)
    have go: "(quiz_step m)\<^sup>*\<^sup>* d (fst (apply_event now e ctx a d))"
      if "att_status a = Attempt_IN_PROGRESS" "att_paused_at a = None"
        "\<not> (e \<notin> fst ` set (att_violations a) \<and> length (att_violations a) \<ge> MAX_DISTINCT_EVENT_TYPES)"
      using that read_event_type [OF re] load_attempt_Inr(4) [OF l]
      by (intro apply_event_steps [OF _ _ assms]) (auto simp: running_def in_progress_def event_allowed_def)
    show ?thesis
      unfolding report_violation_def re l Let_def sum.case prod.case
      by (simp add: log) (use go in auto)
  qed
qed

lemma push_notifications_only: "\<exists>ns. push_dispute_notifications s i q n d = d\<lparr>db_notifications := ns\<rparr>"
proof -
  have "\<exists>ns. fold (\<lambda>u. push_notification (usr_id u) t args l) us d = d\<lparr>db_notifications := ns\<rparr>" for t args l us
  proof (induction us arbitrary: d)
    case Nil
    show ?case by (rule exI [of _ "db_notifications d"]) simp
  next
    case (Cons u us)
    from Cons [of "push_notification (usr_id u) t args l d"] show ?case by (auto simp: push_notification_def)
  qed
  then show ?thesis by (simp add: push_dispute_notifications_def)
qed

lemma report_question_steps: "(quiz_step m)\<^sup>*\<^sup>* d (fst (report_question uid sid i data d))"
proof -
  have "db_attempts (fst (report_question uid sid i data d)) = db_attempts d \<and>
      quiz_frame d (fst (report_question uid sid i data d))"
  proof -
    have fr: "db_attempts (audit x y z (push_dispute_notifications s j q n (add_dispute w d))) = db_attempts d \<and>
        quiz_frame d (audit x y z (push_dispute_notifications s j q n (add_dispute w d)))" for x y z s j q n w
    proof -
      obtain ns where "push_dispute_notifications s j q n (add_dispute w d) = (add_dispute w d)\<lparr>db_notifications := ns\<rparr>"
        using push_notifications_only by blast
      then show ?thesis by (auto simp: add_dispute_def intro!: quiz_frame_same)
    qed
    then show ?thesis
      unfolding report_question_def Let_def by (auto split: sum.split option.split)
  qed
  then show ?thesis by (intro quiet_steps) simp_all
qed

lemma add_frame:
  assumes "stored_frames d i < MAX_SNAPSHOTS_PER_ATTEMPT"
  shows "(quiz_step m)\<^sup>*\<^sup>* d (d\<lparr>db_snapshots := db_snapshots d @ [\<lparr>snp_attempt_id = i, snp_event_type = e, snp_s3_key = k, snp_captured_at = t\<rparr>]\<rparr>)"
  using assms
  by (intro quiet_steps) (auto simp: quiz_frame_def draws_ok_def evidence_ok_def stored_events_def stored_frames_def)

lemma upload_snapshot_steps: "(quiz_step m)\<^sup>*\<^sup>* d (fst (upload_snapshot now sid i ev ct bytes storage d))"
proof (cases "load_attempt d i sid")
  case (Inl r)
  then show ?thesis by (simp add: upload_snapshot_def)
next
  case (Inr p)
  obtain a sub where "p = (a, sub)" by fastforce
  with Inr have l: "load_attempt d i sid = Inr (a, sub)" by simp
  show ?thesis
    unfolding upload_snapshot_def l Let_def sum.case prod.case stored_frames_def [symmetric]
    by (simp add: add_frame not_le split: sum.split option.split prod.split)
qed

section \<open>Starting an attempt\<close>

lemma snapshot_loop_points:
  "snapshot_loop cfg rnd qs ids p = Inr (snap, p') \<Longrightarrow> list_all question_points_ok qs \<Longrightarrow> \<forall>q \<in> set snap. 0 \<le> q_points q"
proof (induction ids arbitrary: p snap p')
  case Nil
  then show ?case by simp
next
  case (Cons i ids)
  then obtain q p1 rest p2 where one: "snapshot_one cfg rnd qs i p = Inr (q, p1)"
    and rest: "snapshot_loop cfg rnd qs ids p1 = Inr (rest, p2)" and snap: "snap = q # rest"
    by (auto simp: bind_result_eq_Inr)
  from snapshot_one_Inr [OF one] obtain qd where qd: "i < length qs" "qs ! i = JObj qd"
    "py_int (dget qd ''points'' (JInt 1)) = Inr (q_points q)" by blast
  have "question_points_ok (qs ! i)" using Cons.prems(2) qd(1) by (auto simp: list_all_length)
  then have "0 \<le> q_points q" by (simp add: question_points_ok_def qd)
  with Cons.IH [OF rest Cons.prems(2)] snap show ?case by simp
qed

lemma snapshot_questions_ok:
  assumes "snapshot_questions cfg rnd ids p = Inr (snap, p')" and "points_ok cfg" and "distinct (map q_id snap)"
  shows "snapshot_ok snap"
  using assms snapshot_loop_points
  by (auto simp: snapshot_questions_def snapshot_ok_def points_ok_def bind_result_eq_Inr)

lemma select_distinct:
  assumes "select_question_ids cfg rnd p = Inr (ids, p')"
  shows "distinct ids"
proof -
  from assms obtain raw wanted where "questions_raw cfg = Inr raw"
    "py_int (dget cfg ''questions_to_send'' (JInt (int (length raw)))) = Inr wanted"
    by (elim select_question_ids_Inr)
  then show ?thesis using assms by (intro select_question_ids_spec(1))
qed

lemma distinct_map_int: "distinct ids \<Longrightarrow> distinct (map int ids)"
  by (simp add: distinct_map)

lemma build_questions_ok:
  assumes "build_questions_from_config cfg rnd p = Inr (qs, p')" and "points_ok cfg"
  shows "snapshot_ok qs"
proof -
  from assms(1) obtain ids p1 where sel: "select_question_ids cfg rnd p = Inr (ids, p1)"
    and snap: "snapshot_questions cfg rnd ids p1 = Inr (qs, p')"
    by (auto simp: build_questions_from_config_def bind_result_eq_Inr)
  have "distinct (map q_id qs)"
    using select_distinct [OF sel] by (simp add: snapshot_questions_ids [OF snap] distinct_map_int)
  with snap assms(2) show ?thesis by (rule snapshot_questions_ok)
qed

lemma retry_config_points:
  assumes "retry_config mine cfg = Inr cfg'" and "points_ok cfg"
  shows "points_ok cfg'"
proof -
  from assms(1) obtain qs qs' where raw: "questions_raw cfg = Inr qs"
    and m: "map_result (retry_question mine) (enumerate 0 qs) = Inr qs'"
    and cfg': "cfg' = dict_set ''questions'' (JList qs')
             (dict_set ''questions_to_send'' (JInt (int (card (set mine)))) cfg)"
    by (auto simp: retry_config_def bind_result_eq_Inr)
  have len: "length qs' = length qs" using map_result_length [OF m] by simp
  have "question_points_ok (qs' ! i)" if "i < length qs" for i
  proof -
    have "retry_question mine (i, qs ! i) = Inr (qs' ! i)"
      using map_result_nth [OF m, of i] that by (simp add: nth_enumerate_eq)
    moreover have "question_points_ok (qs ! i)" using assms(2) raw that by (simp add: points_ok_def list_all_length)
    ultimately show ?thesis by (elim retry_question_Inr) (simp add: question_points_ok_def)
  qed
  then have "list_all question_points_ok qs'" by (simp add: list_all_length len)
  then show ?thesis by (simp add: points_ok_def questions_raw_def cfg')
qed

lemma draw_for_member_shared:
  assumes "draw_for_member d sub sq cfg s retry rnd p = Inr (qs, snap, sub', p')"
  obtains draw k p1 where "shared_draw d sq cfg rnd p sub = Inr (draw, sub', p1)"
    and "position_of s (sd_member_order draw) = Some k" and "k < length (sd_slices draw)"
proof -
  from assms obtain draw sub1 p1 where sh: "shared_draw d sq cfg rnd p sub = Inr (draw, sub1, p1)"
    by (auto simp: draw_for_member_def bind_result_eq_Inr)
  then obtain k where k: "position_of s (sd_member_order draw) = Some k"
    using assms by (cases "position_of s (sd_member_order draw)") (simp_all add: draw_for_member_def lift_draw_def)
  then have l: "k < length (sd_slices draw)"
    using assms sh by (cases "length (sd_slices draw) \<le> k") (simp_all add: draw_for_member_def lift_draw_def)
  then have "sub1 = sub'" using assms sh k by (auto simp: draw_for_member_def Let_def bind_result_eq_Inr)
  with sh k l show thesis using that by blast
qed

lemma draw_for_member_snapshot:
  assumes "draw_for_member d sub sq cfg s retry rnd p = Inr (qs, snap, sub', p')"
  shows "\<exists>cfg' mine ids p1. snapshot_questions cfg' rnd ids p1 = Inr (qs, p') \<and>
    (cfg' = cfg \<or> retry_config mine cfg = Inr cfg')"
proof -
  from draw_for_member_shared [OF assms] obtain draw k p1
    where k: "shared_draw d sq cfg rnd p sub = Inr (draw, sub', p1)"
      "position_of s (sd_member_order draw) = Some k" "k < length (sd_slices draw)" .
  show ?thesis
  proof (cases retry)
    case True
    with assms k obtain cfg' ids p2 where "retry_config (sd_slices draw ! k) cfg = Inr cfg'"
      "snapshot_questions cfg' rnd ids p2 = Inr (qs, p')"
      by (auto simp: draw_for_member_def bind_result_eq_Inr Let_def)
    then show ?thesis by blast
  next
    case False
    with assms k obtain ids p2 where "snapshot_questions cfg rnd ids p2 = Inr (qs, p')"
      by (auto simp: draw_for_member_def bind_result_eq_Inr Let_def split: if_splits)
    then show ?thesis by blast
  qed
qed

lemma draw_for_member_ok:
  assumes "draw_for_member d sub sq cfg s retry rnd p = Inr (qs, snap, sub', p')"
    and "points_ok cfg" and "stored_draw_ok sub"
  shows "snapshot_ok qs" and "stored_draw_ok sub'"
proof -
  from draw_for_member_snapshot [OF assms(1)] obtain cfg' mine ids p1
    where snap: "snapshot_questions cfg' rnd ids p1 = Inr (qs, p')"
      and cfg': "cfg' = cfg \<or> retry_config mine cfg = Inr cfg'" by blast
  have pts: "points_ok cfg'" using cfg' assms(2) retry_config_points by blast
  from draw_for_member_shared [OF assms(1)] obtain draw k0 p2
    where sh: "shared_draw d sq cfg rnd p sub = Inr (draw, sub', p2)" .
  have ok: "draw_ok draw"
    by (rule shared_draw_ok [OF sh]) (use assms(3) in \<open>simp add: stored_draw_ok_def\<close>)
  then show "stored_draw_ok sub'" using shared_draw_stored [OF sh] by (simp add: stored_draw_ok_def)
  have "distinct (map q_id qs)"
  proof (cases retry)
    case True
    with assms(1) obtain draw' k p1' cfg'' ids' p2' where
      "select_question_ids cfg'' rnd p1' = Inr (ids', p2')" "map q_id qs = map int ids'"
      by (auto elim: draw_for_member_retry)
    then show ?thesis by (simp add: select_distinct distinct_map_int)
  next
    case False
    with assms(1) obtain draw' k p1' where sh': "shared_draw d sq cfg rnd p sub = Inr (draw', sub', p1')"
      and k: "k < length (sd_slices draw')" and m: "mset (map q_id qs) = mset (map (int \<circ> nat) (sd_slices draw' ! k))"
      by (auto elim: draw_for_member_first)
    have dd: "draw' = draw" using sh sh' by simp
    note k' = k [unfolded dd]
    have "mset (map q_id qs) = mset (sd_slices draw ! k)" using m unfolding dd draw_slice(2) [OF ok k'] .
    then show ?thesis using draw_slice(1) [OF ok k'] by (metis mset_eq_imp_distinct_iff)
  qed
  with snap pts show "snapshot_ok qs" by (rule snapshot_questions_ok)
qed

lemma draw_questions_ok:
  assumes "draw_questions d sub cfg s retry rnd = Inr (qs, snap, d')" and "points_ok cfg"
    and "stored_draw_ok sub"
  shows "snapshot_ok qs" and "db_attempts d' = db_attempts d" and "quiz_frame d d'"
proof -
  have "snapshot_ok qs \<and> db_attempts d' = db_attempts d \<and> quiz_frame d d'"
  proof (cases "squad_for_submission d sub")
    case None
    then show ?thesis using assms build_questions_ok by (auto simp: draw_questions_def bind_result_eq_Inr)
  next
    case (Some sq)
    then obtain sn sub' p where dr: "draw_for_member d sub sq cfg s retry rnd 0 = Inr (qs, sn, sub', p)"
      and d': "d' = store_submission sub' d"
      using assms(1) by (auto simp: draw_questions_def bind_result_eq_Inr)
    from draw_for_member_ok [OF dr assms(2,3)] show ?thesis
      by (simp add: d' frame_store)
  qed
  then show "snapshot_ok qs" and "db_attempts d' = db_attempts d" and "quiz_frame d d'" by blast+
qed

lemma new_attempt_fresh:
  "snapshot_ok qs \<Longrightarrow> fresh_attempt (new_attempt now i sub s cfg qs snap)"
  by (simp add: fresh_attempt_def new_attempt_def in_progress_def)

lemma pinned_points: "config_good cfg \<Longrightarrow> pinned_quiz cfg code = Inr (pa, quiz_cfg) \<Longrightarrow> points_ok quiz_cfg"
  unfolding config_good_def by (metis (no_types, lifting) case_prod_conv old.sum.simps(6))

lemma create_attempt_Inr:
  assumes "create_attempt now rnd sub s cfg pa quiz_cfg used d = Inr (d', r)"
    and "points_ok quiz_cfg" and "stored_draw_ok sub"
  shows "\<exists>qs snap d1. snapshot_ok qs \<and> d' = add_attempt (new_attempt now (db_next d1) sub s cfg qs snap) d1 \<and>
    db_attempts d' = db_attempts d @ [new_attempt now (db_next d1) sub s cfg qs snap] \<and> quiz_frame d d1 \<and>
    r = Redirect (quiz_url (att_id (new_attempt now (db_next d1) sub s cfg qs snap)))"
proof -
  from assms(1) obtain qs sq d1 snap where dr: "draw_questions d sub quiz_cfg s (used > 0) rnd = Inr (qs, sq, d1)"
    and d': "d' = add_attempt (new_attempt now (db_next d1) sub s cfg qs snap) d1"
      "r = Redirect (quiz_url (att_id (new_attempt now (db_next d1) sub s cfg qs snap)))"
    by (auto simp: create_attempt_def Let_def split: sum.splits draw_error.splits)
  note q = draw_questions_ok [OF dr assms(2,3)]
  have "db_attempts d' = db_attempts d @ [new_attempt now (db_next d1) sub s cfg qs snap]"
    using q(2) by (simp add: d' add_attempt_def)
  with q(1,3) d' show ?thesis by blast
qed

lemma create_attempt_steps:
  assumes "create_attempt now rnd sub s cfg pa quiz_cfg used d = Inr (d', r)"
    and "points_ok quiz_cfg" and "stored_draw_ok sub"
    and free: "\<And>b. b \<in> set (db_attempts d) \<Longrightarrow> att_submission_id b = sub_id sub \<Longrightarrow>
       att_student_id b \<in> {Some s, None} \<Longrightarrow> \<not> in_progress b"
  shows "quiz_step m d d'"
proof -
  from create_attempt_Inr [OF assms(1-3)] obtain qs snap d1 where qs: "snapshot_ok qs"
    and d': "d' = add_attempt (new_attempt now (db_next d1) sub s cfg qs snap) d1"
      "db_attempts d' = db_attempts d @ [new_attempt now (db_next d1) sub s cfg qs snap]"
    and fr1: "quiz_frame d d1" by blast
  let ?a = "new_attempt now (db_next d1) sub s cfg qs snap"
  have f: "att_id ?a = db_next d1" "att_submission_id ?a = sub_id sub" "att_student_id ?a = Some s"
    by (simp_all add: new_attempt_def)
  have n: "db_next d \<le> db_next d1" using fr1 by (simp add: quiz_frame_def)
  have fr: "quiz_frame d1 d'" unfolding d'(1) by (rule quiz_frame_same) (simp_all add: add_attempt_def)
  show ?thesis
  proof (rule started [OF new_attempt_fresh [OF qs]])
    show "quiz_frame d d'" using fr1 fr by (rule quiz_frame_trans)
    show "db_attempts d' = db_attempts d @ [?a]" by (rule d'(2))
  qed (use free n in \<open>simp_all add: f d'(1) add_attempt_def\<close>)
qed

lemma continue_quiz_steps:
  assumes "continue_quiz now rnd asg sub s d = Inr (d', r)" and "quiz_db_ok d" and "sub \<in> set (db_submissions d)"
  shows "(quiz_step m)\<^sup>*\<^sup>* d d'"
proof -
  have draw: "stored_draw_ok sub" using assms(2,3) by (simp add: quiz_db_ok_def draws_ok_def)
  have "d' = d \<or> (\<exists>cfg code pa quiz_cfg used. cfg \<in> set (db_configs d) \<and> pinned_quiz cfg code = Inr (pa, quiz_cfg) \<and>
      find (\<lambda>a. att_status a = Attempt_IN_PROGRESS) (existing_attempts d sub s) = None \<and>
      create_attempt now rnd sub s cfg pa quiz_cfg used d = Inr (d', r))"
  proof (cases "find (\<lambda>a. att_status a = Attempt_IN_PROGRESS) (existing_attempts d sub s)")
    case (Some a)
    then show ?thesis using assms(1) by (simp add: continue_quiz_def Let_def)
  next
    case None
    with assms(1) have "d' = d \<or> (\<exists>i cfg code pa quiz_cfg used. get_config d i = Some cfg \<and>
        pinned_quiz cfg code = Inr (pa, quiz_cfg) \<and> create_attempt now rnd sub s cfg pa quiz_cfg used d = Inr (d', r))"
      unfolding continue_quiz_def Let_def
      by (auto split: option.splits sum.splits prod.splits if_splits)
    then show ?thesis using None by (auto simp: get_config_def dest!: get_row_Some)
  qed
  then show ?thesis
  proof (elim disjE exE conjE)
    fix cfg code pa quiz_cfg used
    assume cfg: "cfg \<in> set (db_configs d)" "pinned_quiz cfg code = Inr (pa, quiz_cfg)"
      and none: "find (\<lambda>a. att_status a = Attempt_IN_PROGRESS) (existing_attempts d sub s) = None"
      and cr: "create_attempt now rnd sub s cfg pa quiz_cfg used d = Inr (d', r)"
    have "config_good cfg" using assms(2) cfg(1) by (simp add: quiz_db_ok_def)
    then have "points_ok quiz_cfg" using cfg(2) by (rule pinned_points)
    then show ?thesis
      by (intro r_into_rtranclp create_attempt_steps [OF cr _ draw])
         (use none in \<open>auto simp: find_None_iff existing_attempts_def attempts_of_def in_progress_def\<close>)
  qed simp
qed

lemma newest_mem: "newest xs = Some r \<Longrightarrow> r \<in> set xs"
  by (simp add: newest_Some)

lemma scope_quiet:
  assumes "scope_sa_ids sid subj asg d = (scope, d')"
  shows "db_attempts d' = db_attempts d" "db_events d' = db_events d" "db_snapshots d' = db_snapshots d"
proof -
  have "\<exists>s n. snd (member_sa_ids_loop asg ms e) = e\<lparr>db_sas := s, db_next := n\<rparr>" for ms e
  proof (induction asg ms e rule: member_sa_ids_loop.induct)
    case (1 asg e)
    show ?case by (rule exI [of _ "db_sas e"], rule exI [of _ "db_next e"]) simp
  next
    case (2 asg m ms e)
    obtain i e1 where h: "(case find_sa e (mem_student_id m) asg of Some sa \<Rightarrow> (sa_id sa, e)
        | None \<Rightarrow> add_sa (mem_student_id m) asg e) = (i, e1)" by fastforce
    then have "e1 = e \<or> (i, e1) = add_sa (mem_student_id m) asg e" by (auto split: option.splits)
    then obtain s n where e1: "e1 = e\<lparr>db_sas := s, db_next := n\<rparr>"
    proof
      assume "e1 = e"
      then show thesis using that [where s = "db_sas e" and n = "db_next e"] by simp
    qed (auto simp: add_sa_def intro: that)
    from 2 [OF h [symmetric] refl] obtain s' n' where
      "snd (member_sa_ids_loop asg ms e1) = e1\<lparr>db_sas := s', db_next := n'\<rparr>" by blast
    with h e1 show ?case by (auto simp: case_prod_unfold Let_def)
  qed
  note loop = this
  have "d' = d \<or> (\<exists>ms. d' = snd (member_sa_ids_loop asg ms d))"
    using assms by (auto simp: scope_sa_ids_def member_sa_ids_def split: option.splits) (metis snd_conv)
  then obtain s n where "d' = d \<or> d' = d\<lparr>db_sas := s, db_next := n\<rparr>" using loop by metis
  then show "db_attempts d' = db_attempts d" "db_events d' = db_events d" "db_snapshots d' = db_snapshots d" by auto
qed

lemma latest_submission_quiet:
  assumes "latest_submission sa d = (latest, d')"
  shows "db_attempts d' = db_attempts d" and "quiz_frame d d'"
    and "latest = Some sub \<Longrightarrow> sub \<in> set (db_submissions d')"
proof -
  have "d' = d \<and> latest = None \<or> (\<exists>sid subj asg scope. scope_sa_ids sid subj asg d = (scope, d') \<and>
      (latest = None \<or> latest = newest (filter (\<lambda>s. sub_students_assignment_id s \<in> set scope) (db_submissions d'))))"
    using assms by (auto simp: latest_submission_def latest_submission_for_def Let_def case_prod_unfold
        split: option.splits if_splits) (metis prod.collapse)+
  then have "db_attempts d' = db_attempts d \<and> quiz_frame d d' \<and> (latest = Some sub \<longrightarrow> sub \<in> set (db_submissions d'))"
  proof (elim disjE exE conjE)
    fix sid subj asg scope
    assume sc: "scope_sa_ids sid subj asg d = (scope, d')"
    assume "latest = newest (filter (\<lambda>s. sub_students_assignment_id s \<in> set scope) (db_submissions d'))"
    then have "latest = Some sub \<longrightarrow> sub \<in> set (db_submissions d')" by (auto dest: newest_mem)
    then show ?thesis
      using scope_quiet [OF sc] scope_keeps [OF sc] by (auto intro: quiz_frame_same)
  next
    fix sid subj asg scope
    assume sc: "scope_sa_ids sid subj asg d = (scope, d')" and "latest = None"
    then show ?thesis
      using scope_quiet [OF sc] scope_keeps [OF sc] by (auto intro: quiz_frame_same)
  qed simp
  then show "db_attempts d' = db_attempts d" and "quiz_frame d d'"
    and "latest = Some sub \<Longrightarrow> sub \<in> set (db_submissions d')" by blast+
qed

lemma open_quiz_quiet:
  assumes "open_quiz_submission now sa sid d = Inr (sub, d')"
  shows "db_attempts d' = db_attempts d \<and> quiz_frame d d' \<and> sub \<in> set (db_submissions d')"
  using assms
proof (cases rule: open_cases)
  case old
  then show ?thesis using latest_submission_quiet by blast
next
  case (fresh d1 asg cfg sq)
  obtain ex where l: "latest_submission sa d = (ex, d1)" using fresh(1) by (cases "latest_submission sa d") simp
  note q = latest_submission_quiet(1,2) [OF l]
  have sub: "stored_draw_ok sub" by (simp add: fresh(7) stored_draw_ok_def new_quiz_submission_def empty_metadata_def)
  have d': "db_attempts d' = db_attempts d1" "db_configs d' = db_configs d1" "db_events d' = db_events d1"
    "db_snapshots d' = db_snapshots d1" "db_next d' = db_next d1 + 1" "db_submissions d' = db_submissions d1 @ [sub]"
    by (simp_all add: fresh(8) lock_on_submit_def upd_squad_def add_submission_def split: option.split)
  then have "quiz_frame d1 d'"
    using sub by (auto simp: quiz_frame_def draws_ok_def evidence_ok_def stored_events_def stored_frames_def)
  then show ?thesis using q d' by (auto intro: quiz_frame_trans)
qed

lemma open_or_latest_quiet:
  assumes "open_or_latest now sa asg sid d = Inr (Some sub, d')"
  shows "db_attempts d' = db_attempts d \<and> quiz_frame d d' \<and> sub \<in> set (db_submissions d')"
proof -
  obtain latest d1 where l: "latest_submission sa d = (latest, d1)" by fastforce
  note q = latest_submission_quiet [OF l]
  from assms consider (kept) "latest = Some sub" "d' = d1"
    | (opened) "open_quiz_submission now sa sid d1 = Inr (sub, d')"
    by (auto simp: open_or_latest_def l Let_def split: sum.splits open_error.splits prod.splits if_splits)
  then show ?thesis
  proof cases
    case kept
    then show ?thesis using q by blast
  next
    case opened
    then show ?thesis using q open_quiz_quiet [OF opened] by (auto intro: quiz_frame_trans)
  qed
qed

lemma start_or_resume_quiz_steps:
  assumes "quiz_db_ok d"
  shows "(quiz_step m)\<^sup>*\<^sup>* d (fst (start_or_resume_quiz now rnd sid sai d))"
proof -
  have go: "(quiz_step m)\<^sup>*\<^sup>* d d2"
    if "open_or_latest now sa asg sid d = Inr (Some sub, d1)" "continue_quiz now rnd asg sub sid d1 = Inr (d2, r)"
    for sa asg sub d1 d2 r
  proof -
    note o = open_or_latest_quiet [OF that(1)]
    then have "quiz_step m d d1" by (intro quiet) simp_all
    moreover from this have "quiz_db_ok d1" using assms by (rule quiz_step_ok)
    then have "(quiz_step m)\<^sup>*\<^sup>* d1 d2" using that(2) o by (intro continue_quiz_steps) auto
    ultimately show ?thesis by (rule converse_rtranclp_into_rtranclp)
  qed
  show ?thesis
    unfolding start_or_resume_quiz_def
    by (auto split: option.split sum.split prod.split intro: go)
qed

end
