(* ===== verification/QuizInvariants.thy ===== *)
theory QuizInvariants
  imports QuizSteps
begin

text \<open>
  The requests a student can make of the quiz, and what holds after any sequence of them: the
  invariant of \<open>QuizSteps\<close>, the life cycle of every attempt, the finality of a finished one, the
  stillness of a paused one, and the cap on how many a student is given.
\<close>

section \<open>Requests\<close>

datatype quiz_request =
    StartQuiz int "nat \<Rightarrow> nat" int int
  | ShowQuiz int int int
  | AnswerQuestion int int int form
  | SubmitQuiz int int int form
  | PauseQuiz int "region list" "(int \<Rightarrow> alert_answer) option" int int int "json option"
  | ResumeQuiz int int int int
  | ReportEvent int int int "string option" nat "json option"
  | ReportQuestion int int int "json option"
  | UploadFrame int int int string string "nat list" "(string \<Rightarrow> bool) option"

definition answer_request :: "quiz_request \<Rightarrow> db \<Rightarrow> db \<times> reply" where
  "answer_request r d =
     (case r of
        StartQuiz now rnd sid sai \<Rightarrow> start_or_resume_quiz now rnd sid sai d
      | ShowQuiz now sid i \<Rightarrow> show_quiz now sid i d
      | AnswerQuestion now sid i form \<Rightarrow> answer_question now sid i form d
      | SubmitQuiz now sid i form \<Rightarrow> submit_quiz now sid i form d
      | PauseQuiz now regions provider uid sid i body \<Rightarrow>
          request_air_raid_pause now regions provider uid sid i body d
      | ResumeQuiz now uid sid i \<Rightarrow> resume_after_air_raid now uid sid i d
      | ReportEvent now sid i declared n data \<Rightarrow> report_violation now sid i declared n data d
      | ReportQuestion uid sid i data \<Rightarrow> report_question uid sid i data d
      | UploadFrame now sid i ev ct bytes storage \<Rightarrow> upload_snapshot now sid i ev ct bytes storage d)"

definition serve_quiz :: "quiz_request \<Rightarrow> db \<Rightarrow> db" where
  "serve_quiz r d = fst (answer_request r d)"

definition resumes :: "quiz_request \<Rightarrow> bool" where
  "resumes r = (case r of ResumeQuiz _ _ _ _ \<Rightarrow> True | _ \<Rightarrow> False)"

lemma serve_quiz_steps:
  assumes "quiz_db_ok d" and "resumes r \<Longrightarrow> m"
  shows "(quiz_step m)\<^sup>*\<^sup>* d (serve_quiz r d)"
proof -
  have "attempts_ok d" using assms(1) by (simp add: quiz_db_ok_def)
  then show ?thesis
    using assms resume_after_air_raid_steps [OF assms(1)]
    by (cases r)
       (simp_all add: serve_quiz_def answer_request_def start_or_resume_quiz_steps show_quiz_steps answer_question_steps
         submit_quiz_steps request_air_raid_pause_steps report_violation_steps report_question_steps
         upload_snapshot_steps resumes_def)
qed

interpretation quiz: invariant_service quiz_db_ok serve_quiz
  by unfold_locales (rule quiz_steps_ok [OF serve_quiz_steps [where m = True]], simp_all)

lemma serve_sequence_steps:
  "quiz_db_ok d \<Longrightarrow> (\<And>r. r \<in> set rs \<Longrightarrow> resumes r \<Longrightarrow> m) \<Longrightarrow> (quiz_step m)\<^sup>*\<^sup>* d (fold serve_quiz rs d)"
proof (induction rs arbitrary: d)
  case Nil
  then show ?case by simp
next
  case (Cons r rs)
  have "(quiz_step m)\<^sup>*\<^sup>* d (serve_quiz r d)" by (rule serve_quiz_steps) (use Cons.prems in auto)
  moreover have "(quiz_step m)\<^sup>*\<^sup>* (serve_quiz r d) (fold serve_quiz rs (serve_quiz r d))"
    by (rule Cons.IH) (use Cons.prems quiz.serve_good in auto)
  ultimately show ?case by (simp add: rtranclp_trans)
qed

section \<open>Properties\<close>

definition sample_rules :: json where
  "sample_rules =
     JObj [(''rules'', JList [JObj [(''event'', JStr ''tab_switch''), (''threshold'', JInt 2),
        (''action'', JObj [(''type'', JStr ''fail''), (''message'', JStr ''{count} of {fail_threshold}'')])]])]"

text \<open>Student 1 sits a quiz of two questions; leaving the tab twice fails it.\<close>

definition sample_sitting :: "(string \<times> violation) list \<Rightarrow> int option \<Rightarrow> quiz_attempt" where
  "sample_sitting vs paused =
     (sample_attempt [sample_question 1 2 True, sample_question 2 3 True] [] vs)
       \<lparr>att_submission_id := 30, att_paused_at := paused,
        att_config_snapshot := (att_config_snapshot (sample_attempt [] [] []))\<lparr>cs_anti_cheat := sample_rules\<rparr>\<rparr>"

definition sample_live :: "quiz_attempt \<Rightarrow> db" where
  "sample_live a = sample_failed\<lparr>
     db_next := 100, db_configs := [], db_attempts := [a],
     db_submissions := map (\<lambda>s. s\<lparr>sub_status := QUIZ_SENT\<rparr>) (db_submissions sample_failed)\<rparr>"

definition tab_switch :: "int \<Rightarrow> quiz_request" where
  "tab_switch now = ReportEvent now 1 1 None 22 (Some (JObj [(''type'', JStr ''tab_switch'')]))"

lemma sample_live_ok:
  "att_id a = 1 \<Longrightarrow> attempt_good a \<Longrightarrow> quiz_db_ok (sample_live a)"
  by (simp add: quiz_db_ok_def sample_live_def attempts_ok_def one_open_def evidence_ok_def stored_events_def
      stored_frames_def draws_ok_def stored_draw_ok_def sample_failed_def
      sample_graded_squad_def sample_class_def empty_db_def)

lemma sample_sitting_good: "violations_ok vs \<Longrightarrow> attempt_good (sample_sitting vs p)"
  by (simp add: sample_sitting_def sample_defs attempt_good_def answers_ok_def snapshot_ok_def in_progress_def is_stepped_def)

lemma sample_sitting_id [simp]: "att_id (sample_sitting vs p) = 1"
  by (simp add: sample_sitting_def sample_defs)



text \<open>C2. Requests refine the life cycle: over any sequence of them an attempt takes only steps of
  \<open>attempt_step\<close> (the clock of a question starts or closes one, an answer is taken while it runs, a
  violation is counted while it runs, it pauses, resumes, and is finished while it runs or after a
  forced failure), and keeps its owner, its questions and its configuration.\<close>

theorem requests_follow_life_cycle:
  assumes "quiz_db_ok d" and "get_attempt d i = Some a"
  shows "\<exists>b. get_attempt (fold serve_quiz rs d) i = Some b \<and> (attempt_step True)\<^sup>*\<^sup>* a b \<and> same_exam a b"
proof -
  from quiz_steps_attempt [OF serve_sequence_steps [OF assms(1), where m = True] assms(2)]
  show ?thesis using same_exam_steps by blast
qed

theorem requests_follow_life_cycle_witness:
  "(let a = sample_sitting [] None; d = sample_live a in
    \<exists>b. get_attempt (fold serve_quiz [tab_switch 5] d) 1 = Some b \<and> (attempt_step True)\<^sup>*\<^sup>* a b \<and>
      att_violations b = [(''tab_switch'', VCount 1)])"
proof -
  let ?a = "sample_sitting [] None"
  have ok: "quiz_db_ok (sample_live ?a)" by (intro sample_live_ok sample_sitting_good) (simp_all add: violations_ok_def)
  have g: "get_attempt (sample_live ?a) 1 = Some ?a" by (simp add: get_attempt_def sample_live_def)
  have "map_option att_violations (get_attempt (fold serve_quiz [tab_switch 5] (sample_live ?a)) 1) =
      Some [(''tab_switch'', VCount 1)]" by code_simp
  with requests_follow_life_cycle [OF ok g, of "[tab_switch 5]"] show ?thesis by (auto simp: Let_def)
qed



text \<open>C10. While an air-raid pause lasts nothing happens to the attempt: whatever is posted, short of
  resuming, leaves it exactly as it is, unless a rule had already failed it, and then it can only
  end as failed. Its owner can resume it at any time, with every answer, violation and position as
  it was.\<close>

theorem pause_freezes_attempt:
  assumes "quiz_db_ok d" and "get_attempt d i = Some a" and "att_paused_at a \<noteq> None"
    and "\<forall>r \<in> set rs. \<not> resumes r"
  shows "(\<exists>b. get_attempt (fold serve_quiz rs d) i = Some b \<and>
      (b = a \<or> force_fail a \<and> att_status b = Attempt_VIOLATION_FAIL \<and> att_is_passed b = Some False)) \<and>
    (\<forall>now uid sid sub. load_attempt d i sid = Inr (a, sub) \<longrightarrow>
      (\<exists>b. get_attempt (serve_quiz (ResumeQuiz now uid sid i) d) i = Some b \<and> running b \<and>
         att_answers b = att_answers a \<and> att_violations b = att_violations a \<and>
         att_current_index b = att_current_index a))"
proof (intro conjI allI impI)
  have "(quiz_step False)\<^sup>*\<^sup>* d (fold serve_quiz rs d)"
    by (rule serve_sequence_steps [OF assms(1)]) (use assms(4) in blast)
  from quiz_steps_attempt [OF this assms(2)]
  show "\<exists>b. get_attempt (fold serve_quiz rs d) i = Some b \<and>
      (b = a \<or> force_fail a \<and> att_status b = Attempt_VIOLATION_FAIL \<and> att_is_passed b = Some False)"
    using paused_steps [OF _ assms(3)] by blast
next
  fix now uid sid sub
  assume l: "load_attempt d i sid = Inr (a, sub)"
  note a = load_attempt_Inr [OF l]
  have "attempt_good a"
    by (rule attempts_ok_get [OF _ a(1)]) (use assms(1) in \<open>simp add: quiz_db_ok_def\<close>)
  then have ip: "in_progress a" using assms(3) by (auto simp: attempt_good_def split: if_splits)
  let ?b = "fst (close_open_pause now a)"
  obtain t where t: "att_paused_at a = Some t" using assms(3) by auto
  have "db_attempts (serve_quiz (ResumeQuiz now uid sid i) d) = db_attempts (put_attempt ?b d)"
    by (simp add: serve_quiz_def answer_request_def resume_after_air_raid_def l Let_def t case_prod_unfold end_pause_row_def
        split: option.split)
  then have "get_attempt (serve_quiz (ResumeQuiz now uid sid i) d) i = Some ?b"
    using a get_attempt_put [of ?b d i] by (simp add: get_attempt_def)
  with ip show "\<exists>b. get_attempt (serve_quiz (ResumeQuiz now uid sid i) d) i = Some b \<and> running b \<and>
         att_answers b = att_answers a \<and> att_violations b = att_violations a \<and>
         att_current_index b = att_current_index a"
    by (intro exI [of _ ?b]) (simp add: running_def in_progress_def)
qed

theorem pause_freezes_attempt_witness:
  "(let a = sample_sitting [(''tab_switch'', VCount 1)] (Some 3); d = sample_live a in
    get_attempt (fold serve_quiz [tab_switch 5, SubmitQuiz 6 1 1 []] d) 1 = Some a)"
proof -
  let ?a = "sample_sitting [(''tab_switch'', VCount 1)] (Some 3)"
  have ok: "quiz_db_ok (sample_live ?a)"
    by (intro sample_live_ok sample_sitting_good) (simp_all add: violations_ok_def bookkeeping_def MAX_DISTINCT_EVENT_TYPES_def)
  have g: "get_attempt (sample_live ?a) 1 = Some ?a" by (simp add: get_attempt_def sample_live_def)
  have p: "att_paused_at ?a \<noteq> None" "\<not> force_fail ?a" by (simp_all add: sample_sitting_def sample_defs force_fail_def)
  have r: "\<forall>r \<in> set [tab_switch 5, SubmitQuiz 6 1 1 []]. \<not> resumes r" by (simp add: resumes_def tab_switch_def)
  from pause_freezes_attempt [OF ok g p(1) r] p(2) show ?thesis by (auto simp: Let_def)
qed

section \<open>The cap on attempts\<close>

lemma continue_quiz_started:
  assumes "continue_quiz now rnd asg sub s d = Inr (d', r)" and "db_attempts d' \<noteq> db_attempts d"
  obtains i cfg code pa quiz_cfg allowed where "sub_plugin_config_id sub = Some i" and "get_config d i = Some cfg"
    and "asg_code asg = Some code" and "pinned_quiz cfg code = Inr (pa, quiz_cfg)"
    and "allowed_attempts (dget quiz_cfg ''max_quiz_attempts'' JNull) sub s = Inr allowed"
    and "\<forall>a \<in> set (attempts_of d sub s). \<not> in_progress a \<and> att_is_passed a \<noteq> Some True"
    and "\<forall>cap. allowed = Some cap \<longrightarrow> of_nat (length (attempts_of d sub s)) < cap"
    and "create_attempt now rnd sub s cfg pa quiz_cfg (length (attempts_of d sub s)) d = Inr (d', r)"
proof -
  note out = that
  let ?ex = "existing_attempts d sub s"
  have open_: "find (\<lambda>a. att_status a = Attempt_IN_PROGRESS) ?ex = None"
    using assms by (auto simp: continue_quiz_def Let_def split: option.splits)
  have passed: "find (\<lambda>a. att_is_passed a = Some True) ?ex = None"
    using assms open_ by (auto simp: continue_quiz_def Let_def split: option.splits)
  have fin: "\<forall>a \<in> set (attempts_of d sub s). \<not> in_progress a \<and> att_is_passed a \<noteq> Some True"
    using open_ passed by (auto simp: find_None_iff existing_attempts_def in_progress_def)
  then have "filter (\<lambda>a. att_status a \<in> set terminal_attempt_statuses) ?ex = ?ex"
    by (auto simp: existing_attempts_def in_progress_def intro!: filter_True)
  then have len: "length (filter (\<lambda>a. att_status a \<in> set terminal_attempt_statuses) ?ex) = length (attempts_of d sub s)"
    by (simp add: existing_attempts_def)
  obtain i where i: "sub_plugin_config_id sub = Some i"
    using assms(1) open_ passed by (auto simp: continue_quiz_def Let_def split: option.splits)
  obtain cfg where cfg: "get_config d i = Some cfg"
    using assms(1) open_ passed i by (auto simp: continue_quiz_def Let_def split: option.splits)
  obtain code where code: "asg_code asg = Some code" "code \<noteq> ''''"
    using assms(1) open_ passed i cfg by (auto simp: continue_quiz_def Let_def split: option.splits if_splits)
  obtain pa quiz_cfg where pq: "pinned_quiz cfg code = Inr (pa, quiz_cfg)"
    using assms(1) open_ passed i cfg code by (auto simp: continue_quiz_def Let_def split: sum.splits)
  obtain allowed where al: "allowed_attempts (dget quiz_cfg ''max_quiz_attempts'' JNull) sub s = Inr allowed"
    using assms(1) open_ passed i cfg code pq by (auto simp: continue_quiz_def Let_def split: sum.splits if_splits)
  have rest: "\<not> (case allowed of Some cap \<Rightarrow> of_nat (length (attempts_of d sub s)) \<ge> cap | None \<Rightarrow> False)"
    using assms open_ passed i cfg code pq al len by (auto simp: continue_quiz_def Let_def split: if_splits)
  then have "create_attempt now rnd sub s cfg pa quiz_cfg (length (attempts_of d sub s)) d = Inr (d', r)"
    using assms(1) open_ passed i cfg code pq al len by (auto simp: continue_quiz_def Let_def split: if_splits)
  with rest show thesis by (intro out [OF i cfg code(1) pq al fin]) (auto split: option.splits)
qed


definition sample_bank :: db where
  "sample_bank = (sample_live (sample_sitting [] None))\<lparr>
     db_attempts := [],
     db_students := map (\<lambda>s. s\<lparr>stu_recording_consent_at := Some 0\<rparr>) (db_students sample_failed),
     db_configs := [\<lparr>spc_id = 5, spc_subject_id = 1, spc_version = 1, spc_content_hash = '''', spc_config =
       [(''assignments'', JObj [(''lab1'', JObj [(''quiz'',
          JObj (dict_set ''max_quiz_attempts'' (JInt 1) sample_quiz_cfg))])])]\<rparr>]\<rparr>"

lemma sample_bank_ok: "quiz_db_ok sample_bank"
proof -
  have p: "points_ok (dict_set ''max_quiz_attempts'' (JInt 1) sample_quiz_cfg)" "points_ok []" by code_simp+
  have "config_good c" if "c \<in> set (db_configs sample_bank)" for c
    unfolding config_good_def
  proof
    fix code
    show "case pinned_quiz c code of Inr (pa, quiz) \<Rightarrow> points_ok quiz | Inl _ \<Rightarrow> True"
      using that p
      by (cases "code = ''lab1''") (auto simp: sample_bank_def pinned_quiz_def sub_dict_def dget_def)
  qed
  then show ?thesis
    by (simp add: quiz_db_ok_def sample_bank_def sample_live_def attempts_ok_def one_open_def evidence_ok_def
      stored_events_def stored_frames_def draws_ok_def stored_draw_ok_def sample_failed_def
      sample_graded_squad_def sample_class_def empty_db_def)
qed


end
