(* ===== verification/QuizRegrade.thy ===== *)
theory QuizRegrade
  imports QuizSteps
begin

text \<open>
  A teacher's ruling on a reported question (\<open>services/quiz_regrade.py\<close> and the routes of
  \<open>routes/teacher_disputes.py\<close>): crediting the question to everyone who drew it from the same
  configuration version, scoring their attempts again, moving the submissions whose quiz is passed
  by it, and telling the students.

  Nothing here commits: an error rolls the whole ruling back, so a failing ruling leaves the
  database as it was. The wording of a message is kept as its title and the teacher's note.
\<close>

section \<open>Scoring again\<close>

definition REGRADABLE_STATUSES :: "quiz_attempt_status list" where
  "REGRADABLE_STATUSES = [Attempt_COMPLETED, Attempt_TIMED_OUT]"

record attempt_rescore =
  rs_attempt_id :: int
  rs_submission_id :: int
  rs_student_id :: int
  rs_score :: int
  rs_max_score :: int
  rs_was_passed :: bool
  rs_is_passed :: bool

definition flipped :: "attempt_rescore \<Rightarrow> bool" where
  "flipped r = (rs_is_passed r \<and> \<not> rs_was_passed r)"

definition candidate :: "int \<Rightarrow> int \<Rightarrow> quiz_attempt \<Rightarrow> bool" where
  "candidate config_id version a =
     (att_plugin_config_id a = Some config_id \<and> att_plugin_config_version a = Some version \<and>
      att_status a \<in> set REGRADABLE_STATUSES \<and> att_is_passed a \<noteq> Some True)"

definition drew :: "int \<Rightarrow> quiz_attempt \<Rightarrow> bool" where
  "drew question_id a = list_ex (\<lambda>q. q_id q = question_id) (att_questions_snapshot a)"

definition rescored_attempt :: "int \<Rightarrow> quiz_attempt \<Rightarrow> quiz_attempt" where
  "rescored_attempt question_id a =
     (let credited = fst (apply_question_overrides a [question_id]);
          (score, max_score, is_passed, _) = score_attempt credited
      in credited\<lparr>att_score := Some score, att_max_score := Some max_score, att_is_passed := Some is_passed\<rparr>)"

definition owner_of_rescore :: "db \<Rightarrow> quiz_attempt \<Rightarrow> int" where
  "owner_of_rescore d a =
     (case Option.bind (get_submission d (att_submission_id a)) (\<lambda>s. get_sa d (sub_students_assignment_id s)) of
        Some sa \<Rightarrow> sa_student_id sa
      | None \<Rightarrow> 0)"

definition rescore_of :: "db \<Rightarrow> int \<Rightarrow> quiz_attempt \<Rightarrow> attempt_rescore" where
  "rescore_of d question_id a =
     (let (score, max_score, is_passed, _) = score_attempt (fst (apply_question_overrides a [question_id])) in
      \<lparr>rs_attempt_id = att_id a, rs_submission_id = att_submission_id a, rs_student_id = owner_of_rescore d a,
       rs_score = score, rs_max_score = max_score, rs_was_passed = (att_is_passed a = Some True),
       rs_is_passed = is_passed\<rparr>)"

definition regrade_question :: "int \<Rightarrow> int \<Rightarrow> int \<Rightarrow> db \<Rightarrow> db \<times> attempt_rescore list" where
  "regrade_question config_id version question_id d =
     (let hit = (\<lambda>a. candidate config_id version a \<and> drew question_id a) in
      (d\<lparr>db_attempts := map (\<lambda>a. if hit a then rescored_attempt question_id a else a) (db_attempts d)\<rparr>,
       map (rescore_of d question_id) (filter hit (db_attempts d))))"

section \<open>Moving the submission\<close>

definition goes_to_teacher :: "db \<Rightarrow> submission \<Rightarrow> quiz_attempt \<Rightarrow> finalize_error + bool" where
  "goes_to_teacher d sub a =
     (if is_scored_submission d sub then map_sum FinalizeExn Not (scores_complete_for d sub)
      else Inr (cs_review_mode (att_config_snapshot a) = JStr ''quiz_then_teacher''))"

definition advance_event :: "string \<Rightarrow> bool \<Rightarrow> submission \<Rightarrow> db \<Rightarrow> finalize_error + db" where
  "advance_event event to_teacher sub d =
     bind_result (fire event sub d) (\<lambda>d'.
       if to_teacher then Inr (enqueue_teacher_review_notification (sub_id sub) d')
       else finalize_stored (sub_id sub) d')"

definition advance_submission :: "quiz_attempt \<Rightarrow> db \<Rightarrow> finalize_error + db" where
  "advance_submission a d =
     (case get_submission d (att_submission_id a) of
        None \<Rightarrow> Inr d
      | Some sub \<Rightarrow>
          bind_result (goes_to_teacher d sub a) (\<lambda>to_teacher.
            if sub_status sub = QUIZ_SENT then
              (if \<not> quiz_complete d sub then Inr d
               else advance_event (if to_teacher then ''quiz_passed_teacher'' else ''quiz_passed'') to_teacher sub d)
            else if sub_status sub = FAILED then
              (if \<not> quiz_complete d sub then Inr d
               else advance_event (if to_teacher then ''dispute_regrade_passed_teacher'' else ''dispute_regrade_passed'')
                      to_teacher sub d)
            else if sub_status sub = COMPLETED then finalize_stored (sub_id sub) d
            else Inr d))"

fun advance_loop_rescored :: "attempt_rescore list \<Rightarrow> db \<Rightarrow> finalize_error + db" where
  "advance_loop_rescored [] d = Inr d"
| "advance_loop_rescored (r # rs) d =
     (if \<not> flipped r then advance_loop_rescored rs d
      else
        case get_attempt d (rs_attempt_id r) of
          None \<Rightarrow> advance_loop_rescored rs d
        | Some a \<Rightarrow> bind_result (advance_submission a d) (advance_loop_rescored rs))"

section \<open>Telling the students\<close>

definition push_in_app :: "int \<Rightarrow> int \<Rightarrow> string \<Rightarrow> string \<Rightarrow> db \<Rightarrow> db" where
  "push_in_app student_id attempt_id title note d =
     (case user_of_student d student_id of
        None \<Rightarrow> d
      | Some user_id \<Rightarrow> push_notification user_id title [(''note'', note)] (result_url attempt_id) d)"

definition decision_payload ::
  "int option \<Rightarrow> int \<Rightarrow> int \<Rightarrow> string \<Rightarrow> string \<Rightarrow> attempt_rescore option \<Rightarrow> pydict"
where
  "decision_payload dispute_id attempt_id question_id decision note entry =
     [(''dispute_id'', opt_json dispute_id), (''attempt_id'', JInt attempt_id),
      (''question_id'', JInt question_id), (''decision'', JStr decision), (''note'', JStr note),
      (''score'', opt_json (map_option rs_score entry)), (''max_score'', opt_json (map_option rs_max_score entry)),
      (''is_passed'', case entry of Some r \<Rightarrow> JBool (rs_is_passed r) | None \<Rightarrow> JNull)]"

definition tell_classmate :: "quiz_question_dispute \<Rightarrow> string \<Rightarrow> attempt_rescore \<Rightarrow> db \<Rightarrow> db" where
  "tell_classmate x note r d =
     (if rs_attempt_id r = dis_attempt_id x \<or> \<not> flipped r then d
      else
        add_outbox QUIZ_DISPUTE_RESOLVED
          (decision_payload None (rs_attempt_id r) (dis_question_id x) ''regraded'' note (Some r))
          (push_in_app (rs_student_id r) (rs_attempt_id r) ''Your quiz result was recalculated'' note d))"

definition notify_students :: "quiz_question_dispute \<Rightarrow> bool \<Rightarrow> string \<Rightarrow> attempt_rescore list \<Rightarrow> db \<Rightarrow> db" where
  "notify_students x accepted note rescored d =
     (let reporter = map_of (rev (map (\<lambda>r. (rs_attempt_id r, r)) rescored)) (dis_attempt_id x);
          title = (if accepted then ''Your reported question was accepted'' else ''Your reported question was reviewed'');
          d1 = push_in_app (dis_student_id x) (dis_attempt_id x) title note d;
          d2 = add_outbox QUIZ_DISPUTE_RESOLVED
                 (decision_payload (Some (dis_id x)) (dis_attempt_id x) (dis_question_id x)
                    (if accepted then ''accept'' else ''reject'') note reporter) d1
      in fold (tell_classmate x note) rescored d2)"

section \<open>The ruling\<close>

definition ruled :: "int \<Rightarrow> bool \<Rightarrow> string \<Rightarrow> int \<Rightarrow> quiz_question_dispute \<Rightarrow> quiz_question_dispute" where
  "ruled now accepted note user_id x =
     x\<lparr>dis_status := (if accepted then Dispute_ACCEPTED else Dispute_REJECTED), dis_teacher_note := Some note,
       dis_resolved_by_user_id := Some user_id, dis_resolved_at := Some now\<rparr>"

text \<open>\<open>INSERT ... ON CONFLICT DO NOTHING\<close> on (configuration, version, question).\<close>

definition add_override :: "int \<Rightarrow> int \<Rightarrow> int \<Rightarrow> int \<Rightarrow> db \<Rightarrow> db" where
  "add_override config_id version question_id dispute_id d =
     (if list_ex (\<lambda>o'. ovr_plugin_config_id o' = config_id \<and> ovr_plugin_config_version o' = version \<and>
             ovr_question_id o' = question_id) (db_overrides d)
      then d
      else d\<lparr>db_overrides := db_overrides d @
               [\<lparr>ovr_plugin_config_id = config_id, ovr_plugin_config_version = version,
                 ovr_question_id = question_id, ovr_credit_all = True, ovr_dispute_id = Some dispute_id\<rparr>]\<rparr>)"

text \<open>The other open reports of the question, which one ruling answers as well.\<close>

definition sibling :: "quiz_question_dispute \<Rightarrow> quiz_question_dispute \<Rightarrow> bool" where
  "sibling x y =
     (dis_plugin_config_id y = dis_plugin_config_id x \<and> dis_plugin_config_version y = dis_plugin_config_version x \<and>
      dis_question_id y = dis_question_id x \<and> dis_status y = Dispute_OPEN \<and> dis_id y \<noteq> dis_id x)"

definition resolve_dispute ::
  "int \<Rightarrow> quiz_question_dispute \<Rightarrow> bool \<Rightarrow> string \<Rightarrow> int \<Rightarrow> db \<Rightarrow>
     finalize_error + (db \<times> attempt_rescore list \<times> int list)"
where
  "resolve_dispute now x accepted note user_id d =
     (let d1 = d\<lparr>db_disputes := upd_row dis_id (dis_id x) (ruled now accepted note user_id) (db_disputes d)\<rparr> in
      case (if accepted then dis_plugin_config_id x else None, dis_plugin_config_version x) of
        (Some config_id, Some version) \<Rightarrow>
          let d2 = add_override config_id version (dis_question_id x) (dis_id x) d1;
              siblings = map dis_id (filter (sibling x) (db_disputes d2));
              d3 = d2\<lparr>db_disputes :=
                     map (\<lambda>y. if sibling x y then ruled now True note user_id y else y) (db_disputes d2)\<rparr>;
              (d4, rescored) = regrade_question config_id version (dis_question_id x) d3
          in
            bind_result (advance_loop_rescored rescored d4) (\<lambda>d5.
              Inr (notify_students x accepted note rescored d5, rescored, dis_id x # siblings))
      | _ \<Rightarrow> Inr (notify_students x accepted note [] d1, [], [dis_id x]))"

section \<open>The routes\<close>

definition subject_id_for_dispute :: "db \<Rightarrow> int \<Rightarrow> int option" where
  "subject_id_for_dispute d dispute_id =
     Option.bind (get_row dis_id dispute_id (db_disputes d)) (\<lambda>x.
     Option.bind (get_attempt d (dis_attempt_id x)) (\<lambda>a.
     Option.bind (get_submission d (att_submission_id a)) (\<lambda>s.
     Option.bind (get_sa d (sub_students_assignment_id s)) (\<lambda>sa.
       map_option asg_subject_id (get_assignment d (sa_subjects_assignment_id sa))))))"

definition require_subject_access :: "db \<Rightarrow> int \<Rightarrow> user \<Rightarrow> reply + subject" where
  "require_subject_access d subject_id u =
     (case get_subject d subject_id of
        None \<Rightarrow> Inl (HttpError 404 ''Subject not found'')
      | Some s \<Rightarrow>
          if usr_role u \<noteq> ADMIN \<and> subj_owner_id s \<noteq> Some (usr_id u)
          then Inl (HttpError 403 ''Not authorized for this subject'')
          else Inr s)"

text \<open>\<open>count_open_disputes\<close>: the open reports of the subjects a teacher owns.\<close>

definition count_open_disputes :: "db \<Rightarrow> user \<Rightarrow> nat" where
  "count_open_disputes d u =
     length (filter (\<lambda>x. dis_status x = Dispute_OPEN \<and>
         (case Option.bind (subject_id_for_dispute d (dis_id x)) (get_subject d) of
            Some s \<Rightarrow> usr_role u = ADMIN \<or> subj_owner_id s = Some (usr_id u)
          | None \<Rightarrow> False))
       (db_disputes d))"

text \<open>How many attempts the panel says an accept would score again.\<close>

definition affected_count :: "db \<Rightarrow> quiz_question_dispute \<Rightarrow> nat" where
  "affected_count d x =
     (if dis_plugin_config_id x = None then 0
      else length (filter (\<lambda>a. att_plugin_config_id a = dis_plugin_config_id x \<and>
          att_plugin_config_version a = dis_plugin_config_version x \<and> att_is_passed a \<noteq> Some True) (db_attempts d)))"

definition VALID_ACTIONS :: "string list" where
  "VALID_ACTIONS = [''accept'', ''reject'']"

definition resolve :: "int \<Rightarrow> user \<Rightarrow> int \<Rightarrow> string \<Rightarrow> string \<Rightarrow> db \<Rightarrow> db \<times> reply" where
  "resolve now u dispute_id action raw_note d =
     (case subject_id_for_dispute d dispute_id of
        None \<Rightarrow> (d, HttpError 404 '''')
      | Some subject_id \<Rightarrow>
     (case require_subject_access d subject_id u of
        Inl r \<Rightarrow> (d, r)
      | Inr _ \<Rightarrow>
     (case get_row dis_id dispute_id (db_disputes d) of
        None \<Rightarrow> (d, HttpError 404 '''')
      | Some x \<Rightarrow>
          if action \<notin> set VALID_ACTIONS then (d, HttpError 400 ''action must be accept or reject'')
          else
            let note = py_strip raw_note in
            if note = '''' then (d, HttpError 400 ''A note explaining the decision is required'')
            else if dis_status x \<noteq> Dispute_OPEN then (d, HttpError 409 ''This report has already been resolved'')
            else
              (case resolve_dispute now x (action = ''accept'') note (usr_id u) d of
                 Inl (FinalizeExn e) \<Rightarrow> (d, ServerError e)
               | Inl (FinalizeTransition _) \<Rightarrow> (d, ServerError ValueError)
               | Inr (d', _, _) \<Rightarrow>
                   (audit (''teacher_'' @ action @ ''_question_dispute'') (Some (usr_id u)) (Some dispute_id) d',
                    Redirect ''/teacher/disputes'')))))"

section \<open>The attempts\<close>

lemma apply_one_override:
  assumes "answers_ok a"
  shows "fst (apply_question_overrides a ids) =
    a\<lparr>att_answers := credit_spec ids (att_questions_snapshot a) (att_answers a)\<rparr>"
  by (simp add: apply_question_overrides_spec [OF assms])

text \<open>An attempt scored again keeps everything but its answers, score and verdict; the question is
  worth its points to it, and its score has not fallen.\<close>

definition credited_version :: "int \<Rightarrow> quiz_attempt \<Rightarrow> quiz_attempt \<Rightarrow> bool" where
  "credited_version question_id a b \<longleftrightarrow>
     same_exam a b \<and> att_status b = att_status a \<and> att_submitted_at b = att_submitted_at a \<and>
     att_violations b = att_violations a \<and> answers_ok b \<and>
     (\<forall>q \<in> set (att_questions_snapshot a). earned_on (att_answers b) (q_id q) =
        (if q_id q = question_id then q_points q else earned_on (att_answers a) (q_id q))) \<and>
     (\<exists>s m. att_score b = Some s \<and> att_max_score b = Some m \<and> s \<le> m \<and>
        sum_list (map earned (att_answers a)) \<le> s \<and>
        att_is_passed b = Some (\<not> force_fail a \<and> 0 < m \<and> of_int s / of_int m \<ge> pass_threshold (att_config_snapshot a)))"

lemma rescored_attempt_credited:
  assumes "answers_ok a"
  shows "credited_version qid a (rescored_attempt qid a)"
proof -
  let ?c = "fst (apply_question_overrides a [qid])"
  have c: "?c = a\<lparr>att_answers := credit_spec [qid] (att_questions_snapshot a) (att_answers a)\<rparr>"
    by (rule apply_one_override [OF assms])
  have ok: "answers_ok ?c" unfolding c by (rule answers_ok_credit_spec [OF assms])
  obtain s m p f where sc: "score_attempt ?c = (s, m, p, f)" by (cases "score_attempt ?c") auto
  have b: "rescored_attempt qid a = ?c\<lparr>att_score := Some s, att_max_score := Some m, att_is_passed := Some p\<rparr>"
    by (simp add: rescored_attempt_def Let_def sc)
  have e: "earned_on (att_answers ?c) (q_id q) = (if q_id q = qid then q_points q else earned_on (att_answers a) (q_id q))"
    if "q \<in> set (att_questions_snapshot a)" for q
    using earned_on_credit_spec [OF assms that, of "[qid]"] by (simp add: c)
  have d: "distinct (map q_id (att_questions_snapshot a))" using assms by (simp add: answers_ok_def snapshot_ok_def)
  have sum: "s = sum_list (map earned (att_answers ?c))" "m = sum_list (map q_points (att_questions_snapshot a))"
    "p = (\<not> force_fail a \<and> 0 < m \<and> of_int s / of_int m \<ge> pass_threshold (att_config_snapshot a))"
    using sc unfolding c by (auto simp: score_attempt_def Let_def force_fail_def split: if_splits)
  have "sum_list (map earned (att_answers a)) = sum_list (map (\<lambda>q. earned_on (att_answers a) (q_id q)) (att_questions_snapshot a))"
    by (rule sum_earned_split [OF d answers_ok_ids [OF assms]])
  also have "\<dots> \<le> sum_list (map (\<lambda>q. earned_on (att_answers ?c) (q_id q)) (att_questions_snapshot a))"
    by (rule sum_list_mono_int) (use e earned_on_bounds [OF assms] in auto)
  also have "\<dots> = s"
    unfolding sum(1) using sum_earned_split [of "att_questions_snapshot a" "att_answers ?c"] d answers_ok_ids [OF ok] by simp
  finally have le: "sum_list (map earned (att_answers a)) \<le> s" .
  have sm: "s \<le> m" using score_attempt_bounds [OF ok sc] by simp
  show ?thesis
    unfolding credited_version_def
  proof (intro conjI ballI)
    show "same_exam a (rescored_attempt qid a)" by (simp add: b c same_exam_def)
    show "answers_ok (rescored_attempt qid a)" using ok by (simp add: b answers_ok_def)
    show "\<exists>s m. att_score (rescored_attempt qid a) = Some s \<and> att_max_score (rescored_attempt qid a) = Some m \<and> s \<le> m \<and>
        sum_list (map earned (att_answers a)) \<le> s \<and>
        att_is_passed (rescored_attempt qid a) = Some (\<not> force_fail a \<and> 0 < m \<and> of_int s / of_int m \<ge> pass_threshold (att_config_snapshot a))"
      using le sm sum(3) by (intro exI [of _ s] exI [of _ m]) (simp add: b)
    fix q assume "q \<in> set (att_questions_snapshot a)"
    then show "earned_on (att_answers (rescored_attempt qid a)) (q_id q) =
        (if q_id q = qid then q_points q else earned_on (att_answers a) (q_id q))"
      using e by (simp add: b)
  qed (simp_all add: b c)
qed

section \<open>What moving a submission leaves alone\<close>

definition ruling_frame :: "db \<Rightarrow> db \<Rightarrow> bool" where
  "ruling_frame d d' \<longleftrightarrow>
     db_attempts d' = db_attempts d \<and> db_disputes d' = db_disputes d \<and> db_overrides d' = db_overrides d"

lemma ruling_frame_refl [simp]: "ruling_frame d d"
  by (simp add: ruling_frame_def)

lemma ruling_frame_trans: "ruling_frame d d1 \<Longrightarrow> ruling_frame d1 d2 \<Longrightarrow> ruling_frame d d2"
  by (simp add: ruling_frame_def)

lemma ruling_frame_grade: "grade_frame d d' \<Longrightarrow> ruling_frame d d'"
proof -
  assume "grade_frame d d'"
  then have e: "d' = d\<lparr>db_sas := db_sas d', db_next := db_next d', db_submissions := db_submissions d'\<rparr>"
    by (simp add: grade_frame_def)
  have "db_attempts d' = db_attempts d" "db_disputes d' = db_disputes d" "db_overrides d' = db_overrides d"
    by (subst e, simp)+
  then show ?thesis by (simp add: ruling_frame_def)
qed

lemma ruling_frame_queue: "ruling_frame d (enqueue_teacher_review_notification i d)"
  by (subst enqueue_only) (simp add: ruling_frame_def)

lemma ruling_frame_fire: "fire e sub d = Inr d' \<Longrightarrow> ruling_frame d d'"
  by (auto simp: fire_def ruling_frame_def store_submission_def upd_submission_def split: sum.splits)

lemma advance_event_frame: "advance_event e t sub d = Inr d' \<Longrightarrow> ruling_frame d d'"
  by (auto simp: advance_event_def bind_result_eq_Inr split: if_splits
      intro: ruling_frame_trans [OF ruling_frame_fire ruling_frame_queue]
        ruling_frame_trans [OF ruling_frame_fire ruling_frame_grade [OF grade_frame_finalize_stored]])

lemma advance_event_moves:
  assumes "advance_event e t sub d = Inr d'" and "get_submission d i = Some sub"
  obtains s where "transition (sub_status sub) e = Inr s" and "moves_to i s d d'"
proof -
  from assms(1) obtain d1 where f: "fire e sub d = Inr d1"
    and r: "(if t then Inr (enqueue_teacher_review_notification (sub_id sub) d1) else finalize_stored (sub_id sub) d1) = Inr d'"
    by (auto simp: advance_event_def bind_result_eq_Inr)
  from f assms(2) obtain s where s: "transition (sub_status sub) e = Inr s" "moves_to i s d d1" by (rule fire_moves)
  with r have "moves_to i s d d'"
    by (auto split: if_splits intro: moves_to_queue moves_to_frame [OF _ grade_frame_finalize_stored])
  with s(1) show thesis by (rule that)
qed

text \<open>A ruling takes a submission from its quiz, or from failure, to completion or to the teacher.\<close>

definition advances :: "submission_status \<Rightarrow> submission_status \<Rightarrow> bool" where
  "advances s s' \<longleftrightarrow> s' = s \<or> s \<in> {QUIZ_SENT, FAILED} \<and> s' \<in> {COMPLETED, AWAITING_TEACHER_REVIEW}"

lemma advances_trans: "advances s t \<Longrightarrow> advances t u \<Longrightarrow> advances s u"
  by (auto simp: advances_def)

lemma advances_step: "advances s t \<Longrightarrow> t = s \<or> status_step s t"
  by (auto simp: advances_def)

definition all_advance :: "db \<Rightarrow> db \<Rightarrow> bool" where
  "all_advance d d' \<longleftrightarrow>
     (\<forall>i. case status_in d i of Some s \<Rightarrow> (\<exists>s'. status_in d' i = Some s' \<and> advances s s') | None \<Rightarrow> status_in d' i = None)"

lemma all_advance_refl [simp]: "all_advance d d"
  by (auto simp: all_advance_def advances_def split: option.split)

lemma all_advance_trans:
  assumes "all_advance d d1" and "all_advance d1 d2"
  shows "all_advance d d2"
  unfolding all_advance_def
proof
  fix i
  note h = assms [unfolded all_advance_def, THEN spec, of i]
  show "case status_in d i of Some s \<Rightarrow> (\<exists>s'. status_in d2 i = Some s' \<and> advances s s') | None \<Rightarrow> status_in d2 i = None"
  proof (cases "status_in d i")
    case None
    then show ?thesis using h by simp
  next
    case (Some s)
    with h obtain t u where "status_in d1 i = Some t" "advances s t" "status_in d2 i = Some u" "advances t u" by auto
    then show ?thesis using Some advances_trans by auto
  qed
qed

lemma all_advance_moves:
  assumes "moves_to i s' d d'" and "status_in d i = Some s" and "advances s s'"
  shows "all_advance d d'"
  unfolding all_advance_def
proof
  fix j
  show "case status_in d j of Some s \<Rightarrow> (\<exists>s'. status_in d' j = Some s' \<and> advances s s') | None \<Rightarrow> status_in d' j = None"
    using assms by (cases "j = i") (simp_all add: moves_to_def advances_def split: option.split)
qed

lemma all_advance_same: "db_submissions d' = db_submissions d \<Longrightarrow> all_advance d d'"
  by (simp add: all_advance_def status_in_def get_submission_def advances_def split: option.split)

lemma advance_submission_effect:
  assumes "advance_submission a d = Inr d'"
  shows "ruling_frame d d'" and "all_advance d d'"
proof -
  have "ruling_frame d d' \<and> all_advance d d'"
  proof (cases "get_submission d (att_submission_id a)")
    case None
    then show ?thesis using assms by (simp add: advance_submission_def)
  next
    case (Some sub)
    let ?i = "att_submission_id a"
    have st: "status_in d ?i = Some (sub_status sub)" by (simp add: status_in_def Some)
    obtain t where g: "goes_to_teacher d sub a = Inr t"
      using assms Some by (auto simp: advance_submission_def bind_result_eq_Inr)
    have "(if sub_status sub = QUIZ_SENT then
              (if \<not> quiz_complete d sub then Inr d
               else advance_event (if t then ''quiz_passed_teacher'' else ''quiz_passed'') t sub d)
            else if sub_status sub = FAILED then
              (if \<not> quiz_complete d sub then Inr d
               else advance_event (if t then ''dispute_regrade_passed_teacher'' else ''dispute_regrade_passed'') t sub d)
            else if sub_status sub = COMPLETED then finalize_stored (sub_id sub) d else Inr d) = Inr d'"
      using assms by (simp only: advance_submission_def Some g option.case bind_result_simps)
    note run = this
    define e where "e = (if sub_status sub = QUIZ_SENT then (if t then ''quiz_passed_teacher'' else ''quiz_passed'')
      else if t then ''dispute_regrade_passed_teacher'' else ''dispute_regrade_passed'')"
    consider (moved) "sub_status sub \<in> {QUIZ_SENT, FAILED}" "quiz_complete d sub"
      | (graded) "sub_status sub = COMPLETED" | (kept) "sub_status sub \<in> {QUIZ_SENT, FAILED}" "\<not> quiz_complete d sub"
      | (other) "sub_status sub \<notin> {QUIZ_SENT, FAILED, COMPLETED}" by auto
    then show ?thesis
    proof cases
      case kept
      then have "d' = d" using run by auto
      then show ?thesis by simp
    next
      case other
      then have "d' = d" using run by simp
      then show ?thesis by simp
    next
      case graded
      then have "finalize_stored (sub_id sub) d = Inr d'" using run by simp
      then have g: "grade_frame d d'" by (rule grade_frame_finalize_stored)
      then have "statuses d' = statuses d" by (rule grade_frame_statuses)
      then have "all_advance d d'" by (simp add: all_advance_def status_in_statuses advances_def split: option.split)
      with g show ?thesis by (simp add: ruling_frame_grade)
    next
      case moved
      then have ev: "advance_event e t sub d = Inr d'" using run by (auto simp: e_def)
      from ev Some obtain s where s: "transition (sub_status sub) e = Inr s" "moves_to ?i s d d'"
        by (rule advance_event_moves)
      have "advances (sub_status sub) s"
        using s(1) moved(1) by (auto simp: e_def transition_table advances_def split: if_splits)
      with s(2) st show ?thesis using advance_event_frame [OF ev] by (auto intro: all_advance_moves)
    qed
  qed
  then show "ruling_frame d d'" and "all_advance d d'" by blast+
qed

lemma advance_loop_effect:
  "advance_loop_rescored rs d = Inr d' \<Longrightarrow> ruling_frame d d' \<and> all_advance d d'"
proof (induction rs d arbitrary: d' rule: advance_loop_rescored.induct)
  case (1 d)
  then show ?case by simp
next
  case (2 r rs d)
  show ?case
  proof (cases "\<not> flipped r \<or> get_attempt d (rs_attempt_id r) = None")
    case True
    then show ?thesis using 2 by (auto split: if_splits)
  next
    case False
    then obtain a d1 where a: "get_attempt d (rs_attempt_id r) = Some a" "advance_submission a d = Inr d1"
      "advance_loop_rescored rs d1 = Inr d'" using "2.prems" by (auto simp: bind_result_eq_Inr)
    have "ruling_frame d1 d' \<and> all_advance d1 d'" using "2.IH"(3) [of a d1 d'] False a by simp
    then show ?thesis using advance_submission_effect [OF a(2)] by (auto intro: ruling_frame_trans all_advance_trans)
  qed
qed

lemma push_in_app_fields [simp]:
  "db_attempts (push_in_app s i t n d) = db_attempts d" "db_disputes (push_in_app s i t n d) = db_disputes d"
  "db_overrides (push_in_app s i t n d) = db_overrides d" "db_submissions (push_in_app s i t n d) = db_submissions d"
  by (simp_all add: push_in_app_def push_notification_def split: option.split)

lemma add_outbox_fields [simp]:
  "db_attempts (add_outbox e p d) = db_attempts d" "db_disputes (add_outbox e p d) = db_disputes d"
  "db_overrides (add_outbox e p d) = db_overrides d" "db_submissions (add_outbox e p d) = db_submissions d"
  by (simp_all add: add_outbox_def)

lemma tell_classmate_fields [simp]:
  "db_attempts (tell_classmate x n r d) = db_attempts d" "db_disputes (tell_classmate x n r d) = db_disputes d"
  "db_overrides (tell_classmate x n r d) = db_overrides d" "db_submissions (tell_classmate x n r d) = db_submissions d"
  by (simp_all add: tell_classmate_def)

lemma notify_students_fields [simp]:
  "db_attempts (notify_students x ok n rs d) = db_attempts d" "db_disputes (notify_students x ok n rs d) = db_disputes d"
  "db_overrides (notify_students x ok n rs d) = db_overrides d" "db_submissions (notify_students x ok n rs d) = db_submissions d"
proof -
  have "db_attempts (fold (tell_classmate x n) rs d) = db_attempts d \<and> db_disputes (fold (tell_classmate x n) rs d) = db_disputes d \<and>
      db_overrides (fold (tell_classmate x n) rs d) = db_overrides d \<and>
      db_submissions (fold (tell_classmate x n) rs d) = db_submissions d" for d
    by (induction rs arbitrary: d) simp_all
  then show "db_attempts (notify_students x ok n rs d) = db_attempts d" "db_disputes (notify_students x ok n rs d) = db_disputes d"
    "db_overrides (notify_students x ok n rs d) = db_overrides d" "db_submissions (notify_students x ok n rs d) = db_submissions d"
    by (simp_all add: notify_students_def Let_def)
qed

section \<open>The ruling as a whole\<close>

text \<open>What an accepted report does to the rows of one question of one configuration version.\<close>

definition cohort_credited :: "int \<Rightarrow> int \<Rightarrow> int \<Rightarrow> db \<Rightarrow> db \<Rightarrow> bool" where
  "cohort_credited c v qid d d' \<longleftrightarrow>
     list_all2 (\<lambda>a b. if candidate c v a \<and> drew qid a then credited_version qid a b else b = a)
       (db_attempts d) (db_attempts d')"

lemma regrade_question_cohort:
  assumes "\<forall>a \<in> set (db_attempts d). answers_ok a"
  shows "cohort_credited c v qid d (fst (regrade_question c v qid d))"
  unfolding cohort_credited_def regrade_question_def Let_def
  using assms by (simp add: list_all2_map2 list.rel_refl_strong rescored_attempt_credited)

lemma add_override_fields [simp]:
  "db_attempts (add_override c v q i d) = db_attempts d" "db_disputes (add_override c v q i d) = db_disputes d"
  "db_submissions (add_override c v q i d) = db_submissions d"
  by (simp_all add: add_override_def)

lemma add_override_adds:
  "\<exists>o' \<in> set (db_overrides (add_override c v q i d)). ovr_plugin_config_id o' = c \<and>
     ovr_plugin_config_version o' = v \<and> ovr_question_id o' = q"
  by (auto simp: add_override_def list_ex_iff)

lemma regrade_question_fields [simp]:
  "db_disputes (fst (regrade_question c v q d)) = db_disputes d" "db_overrides (fst (regrade_question c v q d)) = db_overrides d"
  "db_submissions (fst (regrade_question c v q d)) = db_submissions d"
  by (simp_all add: regrade_question_def Let_def)

lemma sibling_ruled [simp]: "sibling x (ruled now b note uid y) \<longleftrightarrow> False"
  by (simp add: sibling_def ruled_def)

lemma ruled_id [simp]: "dis_id (ruled now b note uid y) = dis_id y"
  by (simp add: ruled_def)

definition ruled_disputes :: "int \<Rightarrow> quiz_question_dispute \<Rightarrow> string \<Rightarrow> int \<Rightarrow> db \<Rightarrow> quiz_question_dispute list" where
  "ruled_disputes now x note uid d =
     map (\<lambda>y. if dis_id y = dis_id x \<or> sibling x y then ruled now True note uid y else y) (db_disputes d)"

lemma accepted_ruling:
  assumes "resolve_dispute now x True note uid d = Inr (d', rescored, ids)"
    and "dis_plugin_config_id x = Some c" and "dis_plugin_config_version x = Some v"
  obtains d4 where "db_attempts d' = db_attempts (fst (regrade_question c v (dis_question_id x) d4))"
    and "db_attempts d4 = db_attempts d" and "db_disputes d' = ruled_disputes now x note uid d"
    and "\<exists>o' \<in> set (db_overrides d'). ovr_plugin_config_id o' = c \<and> ovr_plugin_config_version o' = v \<and>
      ovr_question_id o' = dis_question_id x"
    and "all_advance d d'"
proof -
  let ?q = "dis_question_id x"
  define d1 where "d1 = d\<lparr>db_disputes := upd_row dis_id (dis_id x) (ruled now True note uid) (db_disputes d)\<rparr>"
  define d2 where "d2 = add_override c v ?q (dis_id x) d1"
  define d3 where "d3 = d2\<lparr>db_disputes := map (\<lambda>y. if sibling x y then ruled now True note uid y else y) (db_disputes d2)\<rparr>"
  obtain d4 rs where r: "regrade_question c v ?q d3 = (d4, rs)" by fastforce
  have d3: "d2\<lparr>db_disputes := map (\<lambda>y. if sibling x y then ruled now True note uid y else y) (db_disputes d1)\<rparr> = d3"
    by (simp add: d3_def d2_def)
  have "bind_result (advance_loop_rescored rs d4) (\<lambda>d5. Inr (notify_students x True note rs d5, rs,
      dis_id x # map dis_id (filter (sibling x) (db_disputes d1)))) = Inr (d', rescored, ids)"
    using assms by (simp add: resolve_dispute_def Let_def d3 r flip: d1_def d2_def)
  then obtain d5 where l: "advance_loop_rescored rs d4 = Inr d5" and d': "d' = notify_students x True note rs d5"
    by (auto simp: bind_result_eq_Inr)
  have g: "d4 = fst (regrade_question c v ?q d3)" by (simp add: r)
  have f: "ruling_frame d4 d5" "all_advance d4 d5" using advance_loop_effect [OF l] by auto
  have a: "all_advance d d4" by (rule all_advance_same) (simp add: g d3_def d2_def d1_def)
  have z: "all_advance d5 d'" by (rule all_advance_same) (simp add: d')
  show thesis
  proof (rule that [of d3])
    show "db_attempts d' = db_attempts (fst (regrade_question c v ?q d3))"
      using f(1) by (simp add: d' ruling_frame_def flip: g)
    show "db_attempts d3 = db_attempts d" by (simp add: d3_def d2_def d1_def)
    have "db_disputes d' = db_disputes d3" using f(1) by (simp add: d' ruling_frame_def g)
    also have "\<dots> = ruled_disputes now x note uid d"
      by (simp add: d3_def d2_def d1_def ruled_disputes_def upd_row_def)
    finally show "db_disputes d' = ruled_disputes now x note uid d" .
    have "db_overrides d' = db_overrides d2" using f(1) by (simp add: d' ruling_frame_def g d3_def)
    then show "\<exists>o' \<in> set (db_overrides d'). ovr_plugin_config_id o' = c \<and> ovr_plugin_config_version o' = v \<and>
        ovr_question_id o' = ?q" using add_override_adds by (simp add: d2_def)
    show "all_advance d d'" using a f(2) z by (blast intro: all_advance_trans)
  qed
qed

lemma rejected_ruling:
  "resolve_dispute now x False note uid d =
     Inr (notify_students x False note []
            (d\<lparr>db_disputes := upd_row dis_id (dis_id x) (ruled now False note uid) (db_disputes d)\<rparr>), [], [dis_id x])"
  by (simp add: resolve_dispute_def Let_def)

lemma dispute_after_ruling:
  assumes "resolve_dispute now x b note uid d = Inr (d', rescored, ids)"
    and "get_row dis_id i (db_disputes d) = Some x"
  shows "get_row dis_id i (db_disputes d') = Some (ruled now b note uid x)"
proof -
  have i: "dis_id x = i" using assms(2) by (auto dest: get_row_Some)
  have one: "get_row dis_id i (upd_row dis_id i (ruled now b note uid) (db_disputes d)) = Some (ruled now b note uid x)"
    using assms(2) by (simp add: get_row_upd_row)
  show ?thesis
  proof (cases "b \<and> dis_plugin_config_id x \<noteq> None \<and> dis_plugin_config_version x \<noteq> None")
    case False
    then have "db_disputes d' = upd_row dis_id i (ruled now b note uid) (db_disputes d)"
      using assms(1) i by (auto simp: resolve_dispute_def Let_def split: option.splits if_splits)
    with one show ?thesis by simp
  next
    case True
    with assms(1) i have "db_disputes d' = ruled_disputes now x note uid d"
      by (auto elim!: accepted_ruling)
    moreover have "get_row dis_id i (map (\<lambda>y. if dis_id y = i \<or> sibling x y then ruled now True note uid y else y) ys) =
        map_option (ruled now True note uid) (get_row dis_id i ys)" for ys
      by (induction ys) auto
    ultimately show ?thesis using True assms(2) by (simp add: ruled_disputes_def i)
  qed
qed

section \<open>Properties\<close>

lemma all_advance_status:
  "all_advance d d' \<Longrightarrow> status_in d i = Some s \<Longrightarrow>
     \<exists>s'. status_in d' i = Some s' \<and> (s' = s \<or> s \<in> {QUIZ_SENT, FAILED} \<and> s' \<in> {COMPLETED, AWAITING_TEACHER_REVIEW})"
  unfolding all_advance_def advances_def by (auto dest: spec [of _ i])

lemma ruled_disputes_closed:
  "\<forall>y \<in> set (ruled_disputes now x note uid d). dis_plugin_config_id y = dis_plugin_config_id x \<and>
     dis_plugin_config_version y = dis_plugin_config_version x \<and> dis_question_id y = dis_question_id x \<longrightarrow>
     dis_status y \<noteq> Dispute_OPEN"
  by (auto simp: ruled_disputes_def ruled_def sibling_def split: if_splits)

text \<open>Student 1 of a squad of two failed the quiz on question 2, and has reported it; student 2 passed.\<close>

definition sample_report :: quiz_question_dispute where
  "sample_report =
     \<lparr>dis_id = 70, dis_attempt_id = 1, dis_question_id = 2, dis_student_id = 1, dis_plugin_config_id = Some 1,
      dis_plugin_config_version = Some 1, dis_student_note = None, dis_status = Dispute_OPEN,
      dis_teacher_note = None, dis_resolved_by_user_id = None, dis_resolved_at = None\<rparr>"

definition sample_lost :: quiz_attempt where
  "sample_lost =
     (sample_attempt [sample_question 1 2 True, sample_question 2 3 True] [sample_answer 1 2 True, sample_answer 2 0 False] [])
       \<lparr>att_submission_id := 30, att_status := Attempt_COMPLETED, att_submitted_at := Some 5, att_score := Some 2,
        att_max_score := Some 5, att_is_passed := Some False\<rparr>"

definition sample_reported :: db where
  "sample_reported = sample_failed\<lparr>
     db_disputes := [sample_report, sample_report\<lparr>dis_id := 71, dis_student_id := 2\<rparr>],
     db_attempts := [sample_lost, (passed_with 2 7 10)\<lparr>att_id := 2, att_submission_id := 30\<rparr>]\<rparr>"



text \<open>A ruling is refused or it is final: a refused or failing request changes nothing; an accepted
  one closes the report the way the teacher said, with the note and the teacher on it, and from
  then on nobody can rule on it again. A rejected report moves no attempt and no submission.\<close>

theorem ruling_is_final:
  assumes "resolve now u i action raw_note d = (d', r)"
  shows "(if r = Redirect ''/teacher/disputes''
     then (\<exists>x. get_row dis_id i (db_disputes d) = Some x \<and> dis_status x = Dispute_OPEN \<and> py_strip raw_note \<noteq> '''' \<and>
         get_row dis_id i (db_disputes d') = Some (ruled now (action = ''accept'') (py_strip raw_note) (usr_id u) x) \<and>
         (\<forall>now2 u2 action2 note2. fst (resolve now2 u2 i action2 note2 d') = d' \<and>
            snd (resolve now2 u2 i action2 note2 d') \<noteq> Redirect ''/teacher/disputes'') \<and>
         (action = ''reject'' \<longrightarrow> db_attempts d' = db_attempts d \<and> db_submissions d' = db_submissions d))
     else d' = d)"
proof -
  have closed_stays: "fst (resolve now2 u2 i action2 note2 e) = e \<and> snd (resolve now2 u2 i action2 note2 e) \<noteq> Redirect ''/teacher/disputes''"
    if "get_row dis_id i (db_disputes e) = Some x" "dis_status x \<noteq> Dispute_OPEN" for e x now2 u2 action2 note2
    using that by (auto simp: resolve_def require_subject_access_def Let_def split: option.split if_splits)
  consider (refused) "d' = d" "r \<noteq> Redirect ''/teacher/disputes''"
    | (ruled) x d1 rescored ids where "get_row dis_id i (db_disputes d) = Some x" "dis_status x = Dispute_OPEN"
        "py_strip raw_note \<noteq> ''''" "r = Redirect ''/teacher/disputes''"
        "resolve_dispute now x (action = ''accept'') (py_strip raw_note) (usr_id u) d = Inr (d1, rescored, ids)"
        "db_disputes d' = db_disputes d1" "db_attempts d' = db_attempts d1" "db_submissions d' = db_submissions d1"
    using assms by (auto simp: resolve_def require_subject_access_def Let_def audit_def split: option.splits sum.splits if_splits
        prod.splits finalize_error.splits)
  then show ?thesis
  proof cases
    case refused
    then show ?thesis by simp
  next
    case ruled
    note after = dispute_after_ruling [OF ruled(5,1), folded ruled(6)]
    have "action = ''reject'' \<Longrightarrow> db_attempts d1 = db_attempts d \<and> db_submissions d1 = db_submissions d"
      using ruled(5) by (auto simp: rejected_ruling)
    with ruled after closed_stays [OF after] show ?thesis by (simp add: ruled_def)
  qed
qed

theorem ruling_is_final_witness:
  "(let u = \<lparr>usr_id = 4, usr_role = ADMIN, usr_student_id = None, usr_is_active = True, usr_username = ''t'', usr_email = None\<rparr>;
       (d', r) = resolve 9 u 70 ''reject'' '' as written '' sample_reported in
    r = Redirect ''/teacher/disputes'' \<and> fst (resolve 10 u 70 ''accept'' ''again'' d') = d')"
proof -
  let ?u = "\<lparr>usr_id = 4, usr_role = ADMIN, usr_student_id = None, usr_is_active = True, usr_username = ''t'', usr_email = None\<rparr>"
  obtain d' r where r: "resolve 9 ?u 70 ''reject'' '' as written '' sample_reported = (d', r)" by fastforce
  have "snd (resolve 9 ?u 70 ''reject'' '' as written '' sample_reported) = Redirect ''/teacher/disputes''" by code_simp
  then have "r = Redirect ''/teacher/disputes''" by (simp add: r)
  with ruling_is_final [OF r] show ?thesis by (auto simp: r)
qed

end
