(* ===== verification/SafeZip.thy ===== *)
theory SafeZip
  imports Prelude "HOL-Library.Word" "HOL-Library.Sublist"
begin

unbundle bit_operations_syntax

text \<open>
  \<open>utils/safe_zip.py\<close>: the check an uploaded archive passes before it is unpacked, and what
  \<open>zipfile.extractall\<close> then writes. A path is the list of its components. The destination is a
  fresh directory, so no component of it is a symbolic link and \<open>resolve\<close> is the lexical walk.
  \<open>external_attr\<close> is the 32-bit field of the archive's directory.
\<close>

section \<open>Paths\<close>

fun split_slash :: "string \<Rightarrow> string list" where
  "split_slash [] = [[]]"
| "split_slash (c # cs) =
     (if c = CHR ''/'' then [] # split_slash cs
      else case split_slash cs of [] \<Rightarrow> [[c]] | w # ws \<Rightarrow> (c # w) # ws)"

fun walk :: "string list \<Rightarrow> string list \<Rightarrow> string list" where
  "walk base [] = base"
| "walk base (p # ps) =
     (if p = [] \<or> p = ''.'' then walk base ps
      else if p = ''..'' then walk (butlast base) ps
      else walk (base @ [p]) ps)"

definition resolve_target :: "string list \<Rightarrow> string \<Rightarrow> string list" where
  "resolve_target dest name = walk dest (split_slash name)"

section \<open>The check\<close>

definition MAX_TOTAL_UNCOMPRESSED_BYTES :: int where
  "MAX_TOTAL_UNCOMPRESSED_BYTES = 500 * 1024 * 1024"

definition MAX_ENTRY_COUNT :: nat where
  "MAX_ENTRY_COUNT = 10000"

record zip_info =
  zi_filename :: string
  zi_file_size :: int
  zi_external_attr :: "32 word"

datatype unsafe_archive =
    TooManyEntries nat
  | TooLarge int
  | AbsolutePath string
  | Symlink string
  | PathTraversal string

definition is_absolute_name :: "string \<Rightarrow> bool" where
  "is_absolute_name name \<longleftrightarrow>
     take 1 name = ''/'' \<or> take 1 name = [CHR 0x5C] \<or> (1 < length name \<and> name ! 1 = CHR '':'')"

definition is_symlink :: "zip_info \<Rightarrow> bool" where
  "is_symlink i = ((drop_bit 16 (zi_external_attr i) AND 0xF000) = 0xA000)"

fun check_entries :: "string list \<Rightarrow> zip_info list \<Rightarrow> unsafe_archive + unit" where
  "check_entries dest [] = Inr ()"
| "check_entries dest (i # is') =
     (let name = zi_filename i; target = resolve_target dest name in
      if is_absolute_name name then Inl (AbsolutePath name)
      else if is_symlink i then Inl (Symlink name)
      else if target \<noteq> dest \<and> \<not> strict_prefix dest target then Inl (PathTraversal name)
      else check_entries dest is')"

text \<open>\<open>ZipFile._extract_member\<close> drops the components \<open>""\<close>, \<open>"."\<close> and \<open>".."\<close> of a name and joins what is
  left to the destination.\<close>

definition written_path :: "string list \<Rightarrow> string \<Rightarrow> string list" where
  "written_path dest name = dest @ filter (\<lambda>p. p \<noteq> [] \<and> p \<noteq> ''.'' \<and> p \<noteq> ''..'') (split_slash name)"

definition safe_extract :: "int \<Rightarrow> nat \<Rightarrow> string list \<Rightarrow> zip_info list \<Rightarrow> unsafe_archive + string list list" where
  "safe_extract max_total_bytes max_entries dest infos =
     (if length infos > max_entries then Inl (TooManyEntries (length infos))
      else
        let total = sum_list (map zi_file_size infos) in
        if total > max_total_bytes then Inl (TooLarge total)
        else bind_result (check_entries dest infos) (\<lambda>_. Inr (map (written_path dest \<circ> zi_filename) infos)))"

section \<open>What an accepted archive can do\<close>

lemma check_entries_Inr:
  "check_entries dest is' = Inr () \<longleftrightarrow>
     (\<forall>i \<in> set is'. \<not> is_absolute_name (zi_filename i) \<and> \<not> is_symlink i \<and> prefix dest (resolve_target dest (zi_filename i)))"
  by (induction is') (auto simp: Let_def strict_prefix_def)

lemma written_path_prefix: "prefix dest (written_path dest name)"
  by (simp add: written_path_def)

lemma walk_plain:
  "\<forall>p \<in> set ps. p \<noteq> ''..'' \<Longrightarrow> walk base ps = base @ filter (\<lambda>p. p \<noteq> [] \<and> p \<noteq> ''.'') ps"
  by (induction ps arbitrary: base) auto

text \<open>Without \<open>".."\<close> the place checked is the place written.\<close>

lemma written_is_resolved:
  "''..'' \<notin> set (split_slash name) \<Longrightarrow> written_path dest name = resolve_target dest name"
  unfolding written_path_def resolve_target_def
  by (subst walk_plain) (auto intro!: filter_cong)

text \<open>With it the two may differ, both inside: \<open>a/../b\<close> is checked at \<open>b\<close> and written to \<open>a/b\<close>.\<close>

lemma written_may_differ:
  "resolve_target [] ''a/../b'' = [''b'']" "written_path [] ''a/../b'' = [''a'', ''b'']"
  by code_simp+

text \<open>C20. An archive is unpacked only if it is safe: at most the allowed number of entries and of
  bytes, no absolute name, no symbolic link, and every file lands in the destination directory or
  below it. A name that climbs out is refused.\<close>

theorem accepted_archive_stays_inside:
  assumes "safe_extract max_total max_entries dest infos = Inr paths"
  shows "length infos \<le> max_entries \<and> sum_list (map zi_file_size infos) \<le> max_total \<and>
    length paths = length infos \<and> (\<forall>p \<in> set paths. prefix dest p) \<and>
    (\<forall>i \<in> set infos. \<not> is_absolute_name (zi_filename i) \<and> \<not> is_symlink i \<and>
       prefix dest (resolve_target dest (zi_filename i)))"
proof -
  from assms have "length infos \<le> max_entries" "sum_list (map zi_file_size infos) \<le> max_total"
    "check_entries dest infos = Inr ()" "paths = map (written_path dest \<circ> zi_filename) infos"
    by (auto simp: safe_extract_def Let_def bind_result_eq_Inr split: if_splits)
  then show ?thesis by (auto simp: check_entries_Inr written_path_prefix)
qed

theorem accepted_archive_stays_inside_witness:
  "prefix [''tmp'', ''x''] [''tmp'', ''x'', ''src'', ''main.c'']"
proof -
  have "safe_extract MAX_TOTAL_UNCOMPRESSED_BYTES MAX_ENTRY_COUNT [''tmp'', ''x'']
      [\<lparr>zi_filename = ''src/./main.c'', zi_file_size = 10, zi_external_attr = 0x81A40000\<rparr>] =
    Inr [[''tmp'', ''x'', ''src'', ''main.c'']]" by code_simp
  from accepted_archive_stays_inside [OF this] show ?thesis by simp
qed

end
