(* ===== verification/StatusFlow.thy ===== *)
theory StatusFlow
  imports QuizRegrade
begin

text \<open>
  What every operation of the program does to the statuses of submissions: each stays or moves along
  the table of \<open>core/state_machine.py\<close>, by zero or more calls of \<open>transition\<close>. The interface
  \<open>status_service\<close> is that promise for a part that serves requests; it is interpreted for the
  teacher's routes, for the worker's tasks and for the quiz.
\<close>

definition flows :: "db \<Rightarrow> db \<Rightarrow> bool" where
  "flows d d' \<longleftrightarrow> (\<forall>i s. status_in d i = Some s \<longrightarrow> (\<exists>s'. status_in d' i = Some s' \<and> status_step\<^sup>*\<^sup>* s s'))"

named_theorems flow "operations along which statuses follow the table"

lemma flows_refl [simp, flow]: "flows d d"
  by (auto simp: flows_def)

lemma flows_trans: "flows d d1 \<Longrightarrow> flows d1 d2 \<Longrightarrow> flows d d2"
  unfolding flows_def by (meson rtranclp_trans)

lemma flows_at: "flows d d' \<Longrightarrow> status_in d i = Some s \<Longrightarrow> \<exists>s'. status_in d' i = Some s' \<and> status_step\<^sup>*\<^sup>* s s'"
  by (simp add: flows_def)

lemma flows_statuses: "statuses d' = statuses d \<Longrightarrow> flows d d'"
  by (auto simp: flows_def status_in_statuses)

lemma flows_same: "db_submissions d' = db_submissions d \<Longrightarrow> flows d d'"
  by (rule flows_statuses) (simp add: statuses_def)

lemma flows_moves:
  assumes "moves_to i s' d d'" and "status_in d i = Some s" and "status_step\<^sup>*\<^sup>* s s'"
  shows "flows d d'"
  unfolding flows_def
proof (intro allI impI)
  fix j t
  assume "status_in d j = Some t"
  then show "\<exists>s'. status_in d' j = Some s' \<and> status_step\<^sup>*\<^sup>* t s'"
    using assms by (cases "j = i") (auto simp: moves_to_def)
qed

lemma flows_fire:
  assumes "fire e sub d = Inr d'" and "get_submission d i = Some sub"
  shows "flows d d'"
proof -
  from fire_moves [OF assms] obtain s where s: "transition (sub_status sub) e = Inr s" "moves_to i s d d'" by metis
  from s(1) have "status_step\<^sup>*\<^sup>* (sub_status sub) s" by (auto intro: status_step.intros)
  then show ?thesis using s(2) assms(2) by (auto intro!: flows_moves simp: status_in_def)
qed

lemma flows_grade: "grade_frame d d' \<Longrightarrow> flows d d'"
  by (rule flows_statuses) (rule grade_frame_statuses)

lemma flows_finalize: "finalize_stored i d = Inr d' \<Longrightarrow> flows d d'"
  by (rule flows_grade) (rule grade_frame_finalize_stored)

lemma flows_queue [flow]: "flows d (enqueue_teacher_review_notification i d)"
  by (rule flows_same) (subst enqueue_only, simp)

lemma flows_outbox [flow]: "flows d (add_outbox e p d)"
  by (rule flows_same) (simp add: add_outbox_def)

lemma flows_audit [flow]: "flows d (audit a u t d)"
  by (rule flows_same) (simp add: audit_def)

lemma flows_push [flow]: "flows d (push_notification u t a l d)"
  by (rule flows_same) (simp add: push_notification_def)

text \<open>Writing other columns of a submission.\<close>

lemma flows_upd_submission:
  assumes "\<And>s. sub_id (f s) = sub_id s" and "\<And>s. sub_status (f s) = sub_status s"
  shows "flows d (upd_submission i f d)"
proof (rule flows_statuses)
  show "statuses (upd_submission i f d) = statuses d"
    by (simp add: statuses_def upd_submission_def upd_row_def assms)
qed

lemma flows_all_advance:
  assumes "all_advance d d'"
  shows "flows d d'"
  unfolding flows_def
proof (intro allI impI)
  fix i s
  assume "status_in d i = Some s"
  with assms [unfolded all_advance_def, THEN spec, of i]
  obtain s' where "status_in d' i = Some s'" "advances s s'" by auto
  then show "\<exists>s'. status_in d' i = Some s' \<and> status_step\<^sup>*\<^sup>* s s'" using advances_step by blast
qed

lemma completed_star: "status_step\<^sup>*\<^sup>* COMPLETED s \<Longrightarrow> s = COMPLETED"
  by (induction rule: rtranclp_induct) auto

section \<open>The interface\<close>

locale status_service =
  fixes serve :: "'req \<Rightarrow> db \<Rightarrow> db"
  assumes serve_flows: "flows d (serve r d)"
begin

lemma good_serve: "flows d0 d \<Longrightarrow> flows d0 (serve r d)"
  by (rule flows_trans [OF _ serve_flows])

end

text \<open>Then it keeps the invariant ``reached along the table from where we started''.\<close>

sublocale status_service \<subseteq> reach: invariant_service "flows d0" serve for d0
  by unfold_locales (rule good_serve)

context status_service
begin

lemma run_flows: "flows d (fold serve rs d)"
  by (rule reach.run_good) simp

lemma completed_stays: "status_in d i = Some COMPLETED \<Longrightarrow> status_in (fold serve rs d) i = Some COMPLETED"
  using flows_at [OF run_flows] completed_star by blast

end

end
