(* ===== verification/CheckCore.thy ===== *)
theory CheckCore
  imports QuizGrants
begin

text \<open>
  \<open>services/check_core.py\<close>: resolving what to run for a submission from the subject's configuration,
  bounding the resources it may ask for, running the scripts and scoring their results.

  The sandbox (a Docker container) is a parameter: what the n-th run of a submission's check answers.
  So is \<open>json.loads\<close>, \<open>None\<close> for a \<open>JSONDecodeError\<close>. Commands, images and tools are handed to
  the sandbox as the configuration has them.
\<close>

section \<open>Memory sizes\<close>

definition memory_unit :: "char \<Rightarrow> rat option" where
  "memory_unit c =
     (if c \<in> set ''bB'' then Some 1 else if c \<in> set ''kK'' then Some 1024
      else if c \<in> set ''mM'' then Some (1024 ^ 2) else if c \<in> set ''gG'' then Some (1024 ^ 3) else None)"

text \<open>The digits of the amount: \<open>\d+(?:\.\d+)?\<close>, with what follows.\<close>

definition memory_amount :: "string \<Rightarrow> (rat \<times> string) option" where
  "memory_amount s =
     (let whole = takeWhile is_dec_digit s; rest = dropWhile is_dec_digit s;
          frac = takeWhile is_dec_digit (drop 1 rest) in
      if whole = '''' then None
      else if take 1 rest = ''.'' \<and> frac \<noteq> ''''
        then map_option (\<lambda>x. (x, dropWhile is_dec_digit (drop 1 rest))) (parse_fraction (whole @ ''.'' @ frac))
      else map_option (\<lambda>x. (x, rest)) (parse_fraction whole))"

definition parse_memory_text :: "string \<Rightarrow> int option" where
  "parse_memory_text s =
     (case memory_amount (dropWhile is_ws s) of
        None \<Rightarrow> None
      | Some (amount, r) \<Rightarrow>
          (case dropWhile is_ws r of
             [] \<Rightarrow> Some (py_trunc amount)
           | c # cs \<Rightarrow>
               (case memory_unit c of
                  None \<Rightarrow> None
                | Some u \<Rightarrow> if list_all is_ws cs then Some (py_trunc (amount * u)) else None)))"

text \<open>\<open>parse_memory(str(value))\<close>: a number is read back from its own text (a float whose text has an
  exponent, and any other value, does not match).\<close>

fun parse_memory :: "json \<Rightarrow> int option" where
  "parse_memory (JStr s) = parse_memory_text s"
| "parse_memory (JInt n) = (if 0 \<le> n then Some n else None)"
| "parse_memory (JFloat x) = (if x = 0 \<or> (1 / 10 ^ 4 \<le> x \<and> x < 10 ^ 16) then Some (py_trunc x) else None)"
| "parse_memory _ = None"

section \<open>Limits\<close>

definition DEFAULT_MAX_MEMORY :: string where
  "DEFAULT_MAX_MEMORY = ''512m''"

definition DEFAULT_MAX_CPUS :: rat where
  "DEFAULT_MAX_CPUS = 1"

record sandbox_limits =
  lim_max_memory :: string
  lim_max_cpus :: rat

text \<open>\<open>SandboxLimits.from_env\<close>, the environment as a function.\<close>

definition from_env :: "(string \<Rightarrow> string option) \<Rightarrow> sandbox_limits" where
  "from_env env =
     (let max_memory = (case env ''SANDBOX_MAX_MEMORY'' of Some m \<Rightarrow> m | None \<Rightarrow> DEFAULT_MAX_MEMORY);
          max_memory = (if parse_memory_text max_memory = None then DEFAULT_MAX_MEMORY else max_memory);
          max_cpus = (case env ''SANDBOX_MAX_CPUS'' of
             None \<Rightarrow> DEFAULT_MAX_CPUS
           | Some raw \<Rightarrow> (case parse_float raw of Some x \<Rightarrow> x | None \<Rightarrow> DEFAULT_MAX_CPUS))
      in \<lparr>lim_max_memory = max_memory, lim_max_cpus = max_cpus\<rparr>)"

definition limit_bytes :: "sandbox_limits \<Rightarrow> int option" where
  "limit_bytes bnds =
     (case parse_memory_text (lim_max_memory bnds) of
        Some n \<Rightarrow> if n = 0 then parse_memory_text DEFAULT_MAX_MEMORY else Some n
      | None \<Rightarrow> parse_memory_text DEFAULT_MAX_MEMORY)"

definition clamp_memory :: "sandbox_limits \<Rightarrow> json \<Rightarrow> json" where
  "clamp_memory bnds requested =
     (case parse_memory requested of
        None \<Rightarrow> JStr (lim_max_memory bnds)
      | Some n \<Rightarrow>
          (case limit_bytes bnds of
             Some b \<Rightarrow> if n > b then JStr (lim_max_memory bnds) else requested
           | None \<Rightarrow> requested))"

definition clamp_cpus :: "sandbox_limits \<Rightarrow> rat \<Rightarrow> rat" where
  "clamp_cpus bnds requested = (if requested > lim_max_cpus bnds then lim_max_cpus bnds else requested)"

section \<open>The plan\<close>

record check_plan =
  cp_image :: json
  cp_tool :: json
  cp_memory :: json
  cp_cpus :: rat
  cp_timeout :: int
  cp_min_pass_score :: int
  cp_validate_command :: json
  cp_common_check :: json
  cp_variant_check :: json
  cp_variant :: "string option"

datatype config_problem = NotConfigured | VariantNotAssigned | NoCheckCommand

text \<open>\<open>a or b\<close>.\<close>

definition py_or :: "json \<Rightarrow> json \<Rightarrow> json" where
  "py_or a b = (if truthy a then a else b)"

text \<open>\<open>==\<close> between two truthy values: numbers compare by value.\<close>

definition py_eq :: "json \<Rightarrow> json \<Rightarrow> bool" where
  "py_eq a b = (if is_number a \<and> is_number b then number_value a = number_value b else a = b)"

text \<open>\<open>variants.get(str(variant), {})\<close> when a variant is assigned.\<close>

definition variant_entry :: "pydict \<Rightarrow> string option \<Rightarrow> py_exn + pydict" where
  "variant_entry pa variant =
     (case variant of
        None \<Rightarrow> Inr []
      | Some v \<Rightarrow> if v = '''' then Inr [] else bind_result (sub_dict pa ''variants'') (\<lambda>vs. sub_dict vs v))"

text \<open>The sandbox block, the validation command, the common and the variant check: the
  \<open>common\<close>/\<open>variants\<close> structure, else the older flat one.\<close>

definition commands_of :: "pydict \<Rightarrow> string option \<Rightarrow> py_exn + (pydict \<times> json \<times> json \<times> json)" where
  "commands_of pa variant =
     (let common_cfg = dget pa ''common'' (JObj []) in
      if truthy common_cfg then
        (case common_cfg of
           JObj common \<Rightarrow>
             bind_result (sub_dict common ''sandbox'') (\<lambda>sandbox.
             bind_result (variant_entry pa variant) (\<lambda>entry.
             bind_result (sub_dict entry ''sandbox'') (\<lambda>vs.
               Inr (sandbox,
                    py_or (dget vs ''validate_command'' JNull) (dget sandbox ''validate_command'' JNull),
                    dget sandbox ''check_command'' JNull, dget vs ''check_command'' JNull))))
         | _ \<Rightarrow> Inl AttributeError)
      else
        bind_result (sub_dict pa ''sandbox'') (\<lambda>sandbox.
        bind_result (variant_entry pa variant) (\<lambda>vo.
          Inr (sandbox,
               py_or (dget vo ''validate_command'' JNull) (dget sandbox ''validate_command'' JNull),
               JNull, py_or (dget vo ''check_command'' JNull) (dget sandbox ''check_command'' JNull)))))"

definition is_assigned :: "string option \<Rightarrow> bool" where
  "is_assigned variant = (variant \<noteq> None \<and> variant \<noteq> Some '''')"

definition plan_of ::
  "sandbox_limits \<Rightarrow> pydict \<Rightarrow> json \<Rightarrow> json \<Rightarrow> json \<Rightarrow> string option \<Rightarrow> py_exn + check_plan"
where
  "plan_of bnds sandbox validate common_check variant_check variant =
     bind_result (py_float (dget sandbox ''cpus'' (JFloat (1 / 2)))) (\<lambda>cpus.
     bind_result (py_int (dget sandbox ''timeout_seconds'' (JInt 30))) (\<lambda>timeout.
     bind_result (py_int (dget sandbox ''min_pass_score'' (JInt 100))) (\<lambda>min_pass.
       Inr \<lparr>cp_image = dget sandbox ''image'' (JStr ''python:3.12-slim''),
            cp_tool = dget sandbox ''tool'' (JStr ''python3''),
            cp_memory = clamp_memory bnds (dget sandbox ''memory'' (JStr ''256m'')),
            cp_cpus = clamp_cpus bnds cpus, cp_timeout = timeout, cp_min_pass_score = min_pass,
            cp_validate_command = validate, cp_common_check = common_check, cp_variant_check = variant_check,
            cp_variant = (if is_assigned variant then variant else None)\<rparr>)))"

text \<open>\<open>code not in config.get("assignments", {})\<close>, then indexing: a list or a string may contain the
  code but cannot be indexed by it.\<close>

definition lookup_assignment :: "pydict \<Rightarrow> string \<Rightarrow> py_exn + json option" where
  "lookup_assignment config code =
     (case dget config ''assignments'' (JObj []) of
        JObj a \<Rightarrow> Inr (map_of a code)
      | JList xs \<Rightarrow> if JStr code \<in> set xs then Inl TypeError else Inr None
      | JStr s \<Rightarrow> if list_ex (\<lambda>k. take (length code) (drop k s) = code) [0..<Suc (length s)] then Inl TypeError else Inr None
      | _ \<Rightarrow> Inl TypeError)"

definition resolve_check_plan ::
  "sandbox_limits \<Rightarrow> pydict \<Rightarrow> string \<Rightarrow> string option \<Rightarrow> py_exn + (config_problem + check_plan)"
where
  "resolve_check_plan bnds config code variant =
     (if code = '''' then Inr (Inl NotConfigured)
      else
        bind_result (lookup_assignment config code) (\<lambda>entry.
        case entry of
          None \<Rightarrow> Inr (Inl NotConfigured)
        | Some (JObj pa) \<Rightarrow>
            bind_result (commands_of pa variant) (\<lambda>(sandbox, validate, common_check, variant_check0).
              let variant_check =
                (if truthy common_check \<and> truthy variant_check0 \<and> py_eq common_check variant_check0 then JNull
                 else variant_check0)
              in
                if truthy (dget pa ''variants_required'' JNull) \<and> \<not> is_assigned variant then Inr (Inl VariantNotAssigned)
                else if \<not> truthy common_check \<and> \<not> truthy variant_check then Inr (Inl NoCheckCommand)
                else map_sum id Inr (plan_of bnds sandbox validate common_check variant_check variant))
        | Some _ \<Rightarrow> Inl AttributeError))"

section \<open>The run\<close>

record sandbox_call =
  sc_image :: json
  sc_tool :: json
  sc_script :: json
  sc_variant :: "string option"
  sc_memory :: json
  sc_cpus :: rat
  sc_timeout :: int

record sandbox_result =
  sr_exit_code :: int
  sr_stderr :: string
  sr_output_files :: "(string \<times> string) list"

type_synonym sandbox = "nat \<Rightarrow> sandbox_call \<Rightarrow> sandbox_result"

definition call_for :: "check_plan \<Rightarrow> json \<Rightarrow> sandbox_call" where
  "call_for plan script =
     \<lparr>sc_image = cp_image plan, sc_tool = cp_tool plan, sc_script = script, sc_variant = cp_variant plan,
      sc_memory = cp_memory plan, sc_cpus = cp_cpus plan, sc_timeout = cp_timeout plan\<rparr>"

datatype execution_failure =
    NonZeroExit json int string
  | NoResultFile json
  | BadResultJson json
  | BadTests json

datatype check_error = CheckExecutionError execution_failure | CheckExn py_exn

datatype check_status = Check_passed | Check_failed | Check_validation_failed

record check_outcome =
  co_status :: check_status
  co_score :: json
  co_max_score :: json
  co_tests :: "json list"
  co_reason :: "string option"

text \<open>One check script: its exit code, its \<open>result.json\<close>, and the list under \<open>tests\<close>. A document that
  is not a dictionary has no \<open>get\<close>; that exception is nobody's.\<close>

definition run_one_check ::
  "(string \<Rightarrow> json option) \<Rightarrow> sandbox \<Rightarrow> nat \<Rightarrow> check_plan \<Rightarrow> json \<Rightarrow> check_error + json list"
where
  "run_one_check loads sandbox n plan script =
     (let result = sandbox n (call_for plan script) in
      if sr_exit_code result \<noteq> 0
      then Inl (CheckExecutionError (NonZeroExit script (sr_exit_code result) (take 500 (sr_stderr result))))
      else
        case map_of (sr_output_files result) ''result.json'' of
          None \<Rightarrow> Inl (CheckExecutionError (NoResultFile script))
        | Some raw \<Rightarrow>
            if raw = '''' then Inl (CheckExecutionError (NoResultFile script))
            else
              (case loads raw of
                 None \<Rightarrow> Inl (CheckExecutionError (BadResultJson script))
               | Some (JObj parsed) \<Rightarrow>
                   (case dget parsed ''tests'' (JList []) of
                      JList tests \<Rightarrow> Inr tests
                    | _ \<Rightarrow> Inl (CheckExecutionError (BadTests script)))
               | Some _ \<Rightarrow> Inl (CheckExn AttributeError)))"

fun run_scripts ::
  "(string \<Rightarrow> json option) \<Rightarrow> sandbox \<Rightarrow> nat \<Rightarrow> check_plan \<Rightarrow> json list \<Rightarrow> check_error + json list"
where
  "run_scripts loads sandbox n plan [] = Inr []"
| "run_scripts loads sandbox n plan (script # scripts) =
     (if \<not> truthy script then run_scripts loads sandbox n plan scripts
      else
        bind_result (run_one_check loads sandbox n plan script) (\<lambda>tests.
        bind_result (run_scripts loads sandbox (n + 1) plan scripts) (\<lambda>more. Inr (tests @ more))))"

text \<open>\<open>+\<close> on numbers: of two integers an integer.\<close>

fun py_add :: "json \<Rightarrow> json \<Rightarrow> py_exn + json" where
  "py_add a b =
     (if \<not> is_number a \<or> \<not> is_number b then Inl TypeError
      else case (a, b) of
        (JFloat _, _) \<Rightarrow> Inr (JFloat (number_value a + number_value b))
      | (_, JFloat _) \<Rightarrow> Inr (JFloat (number_value a + number_value b))
      | _ \<Rightarrow> Inr (JInt (\<lfloor>number_value a\<rfloor> + \<lfloor>number_value b\<rfloor>)))"

fun sum_tests :: "(pydict \<Rightarrow> json) \<Rightarrow> json \<Rightarrow> json list \<Rightarrow> py_exn + json" where
  "sum_tests f acc [] = Inr acc"
| "sum_tests f acc (JObj t # ts) = bind_result (py_add acc (f t)) (\<lambda>s. sum_tests f s ts)"
| "sum_tests f acc (_ # ts) = Inl AttributeError"

definition points_earned :: "pydict \<Rightarrow> json" where
  "points_earned t = dget t ''points_earned'' (JInt (if truthy (dget t ''passed'' JNull) then 1 else 0))"

definition max_points :: "pydict \<Rightarrow> json" where
  "max_points t = dget t ''max_points'' (JInt 1)"

definition validation_reason :: "sandbox_result \<Rightarrow> string" where
  "validation_reason vr =
     py_strip
       (case map_of (sr_output_files vr) ''validate_error.txt'' of
          Some s \<Rightarrow> if s \<noteq> '''' then s else if py_strip (sr_stderr vr) \<noteq> '''' then py_strip (sr_stderr vr)
                     else ''Validation failed: submitted files do not meet requirements.''
        | None \<Rightarrow> if py_strip (sr_stderr vr) \<noteq> '''' then py_strip (sr_stderr vr)
                  else ''Validation failed: submitted files do not meet requirements.'')"

definition score_tests :: "check_plan \<Rightarrow> json list \<Rightarrow> py_exn + check_outcome" where
  "score_tests plan tests =
     bind_result (sum_tests points_earned (JInt 0) tests) (\<lambda>total.
     bind_result (sum_tests max_points (JInt 0) tests) (\<lambda>mx.
       let passed = (number_value mx > 0 \<and> number_value total / number_value mx * 100 \<ge> of_int (cp_min_pass_score plan)) in
       Inr \<lparr>co_status = (if passed then Check_passed else Check_failed), co_score = total, co_max_score = mx,
            co_tests = tests, co_reason = None\<rparr>))"

definition run_check :: "(string \<Rightarrow> json option) \<Rightarrow> sandbox \<Rightarrow> check_plan \<Rightarrow> check_error + check_outcome" where
  "run_check loads sandbox plan =
     (let validates = truthy (cp_validate_command plan);
          vr = sandbox 0 (call_for plan (cp_validate_command plan)) in
      if validates \<and> sr_exit_code vr \<noteq> 0
      then Inr \<lparr>co_status = Check_validation_failed, co_score = JInt 0, co_max_score = JInt 0, co_tests = [],
               co_reason = Some (validation_reason vr)\<rparr>
      else
        bind_result (run_scripts loads sandbox (if validates then 1 else 0) plan [cp_common_check plan, cp_variant_check plan])
          (\<lambda>tests. map_sum CheckExn id (score_tests plan tests)))"

text \<open>\<open>check_submission\<close>, the entry of the standalone runner: resolve, then run.\<close>

definition check_submission ::
  "(string \<Rightarrow> json option) \<Rightarrow> sandbox \<Rightarrow> sandbox_limits \<Rightarrow> pydict \<Rightarrow> string \<Rightarrow> string option \<Rightarrow>
     check_error + (config_problem + check_outcome)"
where
  "check_submission loads sandbox bnds config code variant =
     (case resolve_check_plan bnds config code variant of
        Inl e \<Rightarrow> Inl (CheckExn e)
      | Inr (Inl p) \<Rightarrow> Inr (Inl p)
      | Inr (Inr plan) \<Rightarrow> map_sum id Inr (run_check loads sandbox plan))"

section \<open>Bounds\<close>

lemma parse_limit_pos: "parse_memory_text DEFAULT_MAX_MEMORY = Some (512 * 1024 ^ 2)"
  by code_simp

text \<open>A request the code can read is kept when it fits; every other becomes the ceiling.\<close>

lemma clamp_memory_cases:
  assumes "parse_memory_text (lim_max_memory bnds) = Some b" and "0 < b"
  shows "clamp_memory bnds requested = JStr (lim_max_memory bnds) \<or>
    clamp_memory bnds requested = requested \<and> (\<exists>n. parse_memory requested = Some n \<and> n \<le> b)"
  using assms by (auto simp: clamp_memory_def limit_bytes_def split: option.split)

lemma resolve_check_plan_Inr:
  assumes "resolve_check_plan bnds config code variant = Inr (Inr plan)"
  obtains sandbox validate common_check variant_check
  where "plan_of bnds sandbox validate common_check variant_check variant = Inr plan"
    and "truthy common_check \<or> truthy variant_check"
    and "\<not> (truthy common_check \<and> truthy variant_check \<and> py_eq common_check variant_check)"
proof -
  have code: "code \<noteq> ''''" using assms by (auto simp: resolve_check_plan_def)
  obtain entry where e: "lookup_assignment config code = Inr entry"
    using assms code by (cases "lookup_assignment config code") (simp_all add: resolve_check_plan_def)
  obtain pa where pa: "entry = Some (JObj pa)"
  proof (cases entry)
    case None
    then show thesis using assms code e by (simp add: resolve_check_plan_def)
  next
    case (Some v)
    then show thesis using assms code e that by (cases v) (simp_all add: resolve_check_plan_def)
  qed
  obtain sandbox validate cc vc where c: "commands_of pa variant = Inr (sandbox, validate, cc, vc)"
    using assms code e pa by (cases "commands_of pa variant") (auto simp: resolve_check_plan_def)
  define vc' where "vc' = (if truthy cc \<and> truthy vc \<and> py_eq cc vc then JNull else vc)"
  have "(if truthy (dget pa ''variants_required'' JNull) \<and> \<not> is_assigned variant then Inr (Inl VariantNotAssigned)
      else if \<not> truthy cc \<and> \<not> truthy vc' then Inr (Inl NoCheckCommand)
      else map_sum id Inr (plan_of bnds sandbox validate cc vc' variant)) = Inr (Inr plan)"
    using assms unfolding resolve_check_plan_def vc'_def
    by (simp only: code e pa c if_False bind_result_simps option.case json.case prod.case Let_def)
  then have "plan_of bnds sandbox validate cc vc' variant = Inr plan" "truthy cc \<or> truthy vc'"
    by (cases "plan_of bnds sandbox validate cc vc' variant"; simp split: if_splits)+
  moreover have "\<not> (truthy cc \<and> truthy vc' \<and> py_eq cc vc')" by (simp add: vc'_def)
  ultimately show thesis by (rule that)
qed


definition sample_limits :: sandbox_limits where
  "sample_limits = \<lparr>lim_max_memory = ''512m'', lim_max_cpus = 1\<rparr>"

definition greedy_config :: pydict where
  "greedy_config = [(''assignments'', JObj [(''lab1'', JObj [(''sandbox'', JObj
     [(''check_command'', JStr ''check.py''), (''memory'', JStr ''2G''), (''cpus'', JInt 8)])])])]"


text \<open>A request of nothing is below every ceiling and is handed on; Docker takes a zero to mean no limit.\<close>

lemma zero_is_not_clamped:
  "clamp_memory sample_limits (JStr ''0'') = JStr ''0''" "clamp_cpus sample_limits 0 = 0"
  by code_simp+

section \<open>The score\<close>

lemma py_add_value: "py_add a b = Inr c \<Longrightarrow> is_number c \<and> number_value c = number_value a + number_value b"
  by (cases a; cases b) (auto split: if_splits)

lemma sum_tests_value:
  "sum_tests f acc ts = Inr r \<Longrightarrow>
     \<exists>ds. ts = map JObj ds \<and> number_value r = number_value acc + sum_list (map (number_value \<circ> f) ds)"
proof (induction f acc ts rule: sum_tests.induct)
  case (1 f acc)
  then show ?case by simp
next
  case (2 f acc t ts)
  then obtain s where s: "py_add acc (f t) = Inr s" "sum_tests f s ts = Inr r" by (auto simp: bind_result_eq_Inr)
  from "2.IH" [OF s(2)] obtain ds where "ts = map JObj ds"
    "number_value r = number_value s + sum_list (map (number_value \<circ> f) ds)" by blast
  then show ?case using py_add_value [OF s(1)] by (intro exI [of _ "t # ds"]) (simp add: comp_def)
qed simp_all

lemma score_tests_value:
  assumes "score_tests plan tests = Inr out"
  obtains ds where "tests = map JObj ds" and "co_tests out = tests"
    and "number_value (co_score out) = sum_list (map (number_value \<circ> points_earned) ds)"
    and "number_value (co_max_score out) = sum_list (map (number_value \<circ> max_points) ds)"
    and "co_status out = (if 0 < number_value (co_max_score out) \<and>
      of_int (cp_min_pass_score plan) \<le> number_value (co_score out) / number_value (co_max_score out) * 100
      then Check_passed else Check_failed)"
proof -
  from assms obtain total mx where t: "sum_tests points_earned (JInt 0) tests = Inr total"
    "sum_tests max_points (JInt 0) tests = Inr mx"
    and out: "co_tests out = tests" "co_score out = total" "co_max_score out = mx"
      "co_status out = (if 0 < number_value mx \<and> of_int (cp_min_pass_score plan) \<le> number_value total / number_value mx * 100
        then Check_passed else Check_failed)"
    by (auto simp: score_tests_def bind_result_eq_Inr Let_def)
  from sum_tests_value [OF t(1)] obtain ds where ds: "tests = map JObj ds"
    "number_value total = sum_list (map (number_value \<circ> points_earned) ds)" by auto
  from sum_tests_value [OF t(2)] obtain ds' where ds': "tests = map JObj ds'"
    "number_value mx = sum_list (map (number_value \<circ> max_points) ds')" by auto
  have "ds' = ds" using ds(1) ds'(1) by (metis json.inject(6) list.inj_map_strong)
  with ds ds' out show thesis by (intro that) auto
qed

text \<open>A check passes on its points alone. When the validation did not stop it, every script exited
  normally and reported its tests; score and maximum are the sums of the points over the tests of
  the common and then the variant's script, and the check passes exactly when there is something to
  earn and the percentage earned reaches the configured minimum. So full marks pass every minimum up
  to a hundred.\<close>

theorem check_passes_on_points:
  assumes "run_check loads sandbox plan = Inr out" and "co_status out \<noteq> Check_validation_failed"
  shows "\<exists>n ds. run_scripts loads sandbox n plan [cp_common_check plan, cp_variant_check plan] = Inr (map JObj ds) \<and>
    co_tests out = map JObj ds \<and>
    number_value (co_score out) = sum_list (map (number_value \<circ> points_earned) ds) \<and>
    number_value (co_max_score out) = sum_list (map (number_value \<circ> max_points) ds) \<and>
    (co_status out = Check_passed \<longleftrightarrow> 0 < number_value (co_max_score out) \<and>
       of_int (cp_min_pass_score plan) * number_value (co_max_score out) \<le> 100 * number_value (co_score out)) \<and>
    (0 < number_value (co_max_score out) \<and> number_value (co_score out) = number_value (co_max_score out) \<and>
       cp_min_pass_score plan \<le> 100 \<longrightarrow> co_status out = Check_passed)"
proof -
  obtain n tests where t: "run_scripts loads sandbox n plan [cp_common_check plan, cp_variant_check plan] = Inr tests"
    and sc: "score_tests plan tests = Inr out"
  proof -
    have "\<exists>n tests. run_scripts loads sandbox n plan [cp_common_check plan, cp_variant_check plan] = Inr tests \<and>
        map_sum CheckExn id (score_tests plan tests) = Inr out"
      using assms by (auto simp: run_check_def Let_def bind_result_eq_Inr split: if_splits)
    then obtain n tests where "run_scripts loads sandbox n plan [cp_common_check plan, cp_variant_check plan] = Inr tests"
      "map_sum CheckExn id (score_tests plan tests) = Inr out" by blast
    then show thesis using that by (cases "score_tests plan tests") auto
  qed
  show ?thesis
  proof (rule score_tests_value [OF sc])
    fix ds
    assume h: "tests = map JObj ds" "co_tests out = tests"
      "number_value (co_score out) = sum_list (map (number_value \<circ> points_earned) ds)"
      "number_value (co_max_score out) = sum_list (map (number_value \<circ> max_points) ds)"
      and st: "co_status out = (if 0 < number_value (co_max_score out) \<and>
        of_int (cp_min_pass_score plan) \<le> number_value (co_score out) / number_value (co_max_score out) * 100
        then Check_passed else Check_failed)"
    have iff: "co_status out = Check_passed \<longleftrightarrow> 0 < number_value (co_max_score out) \<and>
       of_int (cp_min_pass_score plan) * number_value (co_max_score out) \<le> 100 * number_value (co_score out)"
      by (auto simp: st field_simps)
    moreover have "0 < number_value (co_max_score out) \<and> number_value (co_score out) = number_value (co_max_score out) \<and>
       cp_min_pass_score plan \<le> 100 \<longrightarrow> co_status out = Check_passed"
      by (auto simp: iff)
    ultimately show ?thesis using t h by (intro exI [of _ n] exI [of _ ds] conjI) simp_all
  qed
qed

definition sample_sandbox :: sandbox where
  "sample_sandbox n c = \<lparr>sr_exit_code = 0, sr_stderr = '''', sr_output_files = [(''result.json'', ''x'')]\<rparr>"

definition sample_report_json :: json where
  "sample_report_json = JObj [(''tests'', JList [JObj [(''passed'', JBool True)], JObj [(''points_earned'', JInt 3), (''max_points'', JInt 4)]])]"

definition sample_plan :: check_plan where
  "sample_plan =
     \<lparr>cp_image = JNull, cp_tool = JNull, cp_memory = JStr ''256m'', cp_cpus = 1, cp_timeout = 30, cp_min_pass_score = 80,
      cp_validate_command = JNull, cp_common_check = JStr ''check.py'', cp_variant_check = JNull, cp_variant = None\<rparr>"

theorem check_passes_on_points_witness:
  "(case run_check (\<lambda>_. Some sample_report_json) sample_sandbox sample_plan of
      Inr out \<Rightarrow> co_status out = Check_passed \<and> co_score out = JInt 4 \<and>
        of_int 80 * number_value (co_max_score out) \<le> 100 * number_value (co_score out)
    | Inl _ \<Rightarrow> False)"
proof -
  let ?r = "run_check (\<lambda>_. Some sample_report_json) sample_sandbox sample_plan"
  have run: "map_sum id (\<lambda>out. (co_status out, co_score out)) ?r = Inr (Check_passed, JInt 4)" by code_simp
  then obtain out where out: "?r = Inr out" "co_status out = Check_passed" "co_score out = JInt 4" by (cases ?r) auto
  then have "co_status out \<noteq> Check_validation_failed" by simp
  from check_passes_on_points [OF out(1) this] out(2)
  have "of_int (cp_min_pass_score sample_plan) * number_value (co_max_score out) \<le> 100 * number_value (co_score out)" by blast
  with out show ?thesis by (simp add: sample_plan_def)
qed

end
