(* ===== verification/AiReview.thy ===== *)
theory AiReview
  imports StatusFlow
begin

text \<open>
  The tasks of the worker, first half: what a task may do to the database when it raises, the AI
  review (\<open>workers/tasks/review_tasks.py\<close>) and its verdict (\<open>services/ai_verdict.py\<close>).

  A task that raises is not rolled back: the outbox processor catches the exception and commits what
  was done so far together with the message's error. A task therefore answers the database it leaves
  and, if it raised, the error.
\<close>

section \<open>Tasks\<close>

datatype task_error =
    TaskExn py_exn
  | TaskTransition transition_error
  | RuntimeError string
  | AIProviderError string

type_synonym task = "db \<Rightarrow> db \<times> task_error option"

definition task_raise :: "task_error \<Rightarrow> task" where
  "task_raise e d = (d, Some e)"

definition task_skip :: task where
  "task_skip d = (d, None)"

definition task_do :: "(db \<Rightarrow> db) \<Rightarrow> task" where
  "task_do f d = (f d, None)"

definition task_then :: "task \<Rightarrow> task \<Rightarrow> task" where
  "task_then t u d = (case t d of (d', Some e) \<Rightarrow> (d', Some e) | (d', None) \<Rightarrow> u d')"

text \<open>\<open>transition(submission, event)\<close>: raises before it writes.\<close>

definition task_fire :: "int \<Rightarrow> string \<Rightarrow> task" where
  "task_fire i event d =
     (case get_submission d i of
        None \<Rightarrow> (d, Some (TaskExn AttributeError))
      | Some sub \<Rightarrow>
          (case transition (sub_status sub) event of
             Inl e \<Rightarrow> (d, Some (TaskTransition e))
           | Inr st \<Rightarrow> (store_submission (sub\<lparr>sub_status := st\<rparr>) d, None)))"

definition task_finalize :: "int \<Rightarrow> task" where
  "task_finalize i d =
     (case finalize_grade i d of Inl e \<Rightarrow> (d, Some (TaskExn e)) | Inr (d', _) \<Rightarrow> (d', None))"

section \<open>The verdict\<close>

definition DEFAULT_THRESHOLD :: rat where
  "DEFAULT_THRESHOLD = 1 / 2"

record verdict_summary =
  vs_cheating :: bool
  vs_ai_generated :: bool
  vs_cheating_confidence :: rat
  vs_ai_generated_confidence :: rat
  vs_code_mark :: "int option"

definition flagged_summary :: "verdict_summary \<Rightarrow> bool" where
  "flagged_summary s = (vs_cheating s \<or> vs_ai_generated s)"

definition hit :: "json \<Rightarrow> string \<Rightarrow> rat \<Rightarrow> bool \<times> rat" where
  "hit block flag_key threshold =
     (case block of
        JObj b \<Rightarrow>
          let c = dget b ''confidence'' (JInt 0);
              confidence = (case py_float (if truthy c then c else JInt 0) of Inr x \<Rightarrow> x | Inl _ \<Rightarrow> 0)
          in (truthy (dget b flag_key JNull) \<and> confidence \<ge> threshold, confidence)
      | _ \<Rightarrow> (False, 0))"

definition summarize :: "pydict \<Rightarrow> pydict \<Rightarrow> py_exn + verdict_summary option" where
  "summarize verdict cfg =
     (if verdict = [] then Inr None
      else
        bind_result (py_float (dget cfg ''cheating_threshold'' (JFloat DEFAULT_THRESHOLD))) (\<lambda>cheat_thr.
        bind_result (py_float (dget cfg ''ai_generated_threshold'' (JFloat DEFAULT_THRESHOLD))) (\<lambda>aigen_thr.
          let (cheating, cheat_conf) = hit (dget verdict ''cheating'' JNull) ''is_cheating'' cheat_thr;
              (aigen, aigen_conf) = hit (dget verdict ''ai_generated'' JNull) ''is_ai_generated'' aigen_thr;
              raw_mark = dget verdict ''code_mark'' JNull
          in Inr (Some \<lparr>vs_cheating = cheating, vs_ai_generated = aigen, vs_cheating_confidence = cheat_conf,
                vs_ai_generated_confidence = aigen_conf,
                vs_code_mark = (if is_number raw_mark then Some (py_trunc (number_value raw_mark)) else None)\<rparr>))))"

definition is_flagged :: "pydict \<Rightarrow> pydict \<Rightarrow> py_exn + bool" where
  "is_flagged verdict cfg =
     bind_result (summarize verdict cfg) (\<lambda>s. Inr (case s of Some x \<Rightarrow> flagged_summary x | None \<Rightarrow> False))"

section \<open>The review task\<close>

text \<open>\<open>_enter_reviewing\<close>: a retried message finds the submission in review or already failed.\<close>

definition enter_reviewing :: "int \<Rightarrow> task" where
  "enter_reviewing i d =
     (case status_in d i of
        Some AWAITING_AI_REVIEW \<Rightarrow> task_fire i ''start_ai_review'' d
      | Some AI_REVIEW_FAILED \<Rightarrow> task_fire i ''retry_ai_review'' d
      | Some AI_REVIEWING \<Rightarrow> (d, None)
      | _ \<Rightarrow> task_fire i ''start_ai_review'' d)"

definition validate_verdict :: "pydict \<Rightarrow> string + unit" where
  "validate_verdict parsed =
     (case find (\<lambda>k. map_of parsed k = None) [''cheating'', ''ai_generated'', ''code_mark'', ''comment''] of
        Some k \<Rightarrow> Inl (''AI verdict missing required field: '' @ k)
      | None \<Rightarrow>
          if is_number (dget parsed ''code_mark'' JNull) then Inr ()
          else Inl ''AI verdict 'code_mark' is not a number'')"

text \<open>The provider is a parameter: its name, its model and what it answers about a submission, given the
  file extensions to read (\<open>Inl\<close> an \<open>AIProviderError\<close>).\<close>

record ai_provider =
  ai_name :: string
  ai_model :: string
  ai_review_of :: "int \<Rightarrow> json list \<Rightarrow> string + pydict"

definition ai_answer :: "ai_provider \<Rightarrow> int \<Rightarrow> json list \<Rightarrow> string + pydict" where
  "ai_answer p i exts =
     bind_result (ai_review_of p i exts) (\<lambda>v. bind_result (validate_verdict v) (\<lambda>_. Inr v))"

definition store_verdict :: "ai_provider \<Rightarrow> int \<Rightarrow> pydict \<Rightarrow> db \<Rightarrow> db" where
  "store_verdict p i v =
     upd_submission i (\<lambda>s. s\<lparr>sub_ai_review :=
       Some (dict_set ''model'' (JStr (ai_model p)) (dict_set ''provider'' (JStr (ai_name p)) v))\<rparr>)"

definition hand_over :: "int \<Rightarrow> string \<Rightarrow> task" where
  "hand_over i event = task_then (task_fire i event) (task_do (enqueue_teacher_review_notification i))"

definition route_verdict :: "ai_provider \<Rightarrow> int \<Rightarrow> json \<Rightarrow> pydict \<Rightarrow> pydict \<Rightarrow> task" where
  "route_verdict p i next_step v cfg =
     (if next_step = JStr ''quiz'' then
        (case is_flagged (dict_set ''model'' (JStr (ai_model p)) (dict_set ''provider'' (JStr (ai_name p)) v)) cfg of
           Inl e \<Rightarrow> task_raise (TaskExn e)
         | Inr True \<Rightarrow> hand_over i ''ai_review_done_teacher''
         | Inr False \<Rightarrow> task_fire i ''ai_review_passed_quiz'')
      else if next_step = JStr ''teacher'' then hand_over i ''ai_review_done_teacher''
      else task_then (task_fire i ''ai_review_done_completed'') (task_finalize i))"

text \<open>The \<open>ai_review\<close> block of the assignment and the extensions it names.\<close>

definition review_config :: "db \<Rightarrow> int \<Rightarrow> py_exn + (pydict \<times> json list)" where
  "review_config d i =
     (case Option.bind (get_submission d i) (assignment_of d) of
        None \<Rightarrow> Inl AttributeError
      | Some (_, asg) \<Rightarrow>
          bind_result (or_dict (dget (asg_config asg) ''ai_review'' JNull)) (\<lambda>cfg.
          bind_result (or_list (dget cfg ''source_extensions'' JNull)) (\<lambda>exts. Inr (cfg, exts))))"

definition review_with :: "ai_provider \<Rightarrow> int \<Rightarrow> json \<Rightarrow> task" where
  "review_with p i next_step d =
     (case review_config d i of
        Inl e \<Rightarrow> (d, Some (TaskExn e))
      | Inr (cfg, exts) \<Rightarrow>
          (case ai_answer p i exts of
             Inl msg \<Rightarrow> task_then (task_fire i ''ai_review_failed'') (task_raise (AIProviderError msg)) d
           | Inr v \<Rightarrow> task_then (task_do (store_verdict p i v)) (route_verdict p i next_step v cfg) d))"

text \<open>\<open>scalar_one()\<close> raises when the submission is gone.\<close>

definition execute_ai_review_task :: "ai_provider \<Rightarrow> pydict \<Rightarrow> task" where
  "execute_ai_review_task p payload d =
     (let next_step = dget payload ''next_step'' (JStr ''completed'') in
      case dget payload ''submission_id'' JNull of
        JInt i \<Rightarrow>
          if get_submission d i = None then (d, Some (RuntimeError ''NoResultFound''))
          else task_then (enter_reviewing i) (review_with p i next_step) d
      | _ \<Rightarrow> (d, Some (RuntimeError ''NoResultFound'')))"

section \<open>Tasks and the table\<close>

definition task_flows :: "task \<Rightarrow> bool" where
  "task_flows t \<longleftrightarrow> (\<forall>d. flows d (fst (t d)))"

lemma task_flowsI: "(\<And>d. flows d (fst (t d))) \<Longrightarrow> task_flows t"
  by (simp add: task_flows_def)

lemma task_flowsD: "task_flows t \<Longrightarrow> flows d (fst (t d))"
  by (simp add: task_flows_def)

lemma task_flows_basic [flow]:
  "task_flows (task_raise e)" "task_flows task_skip" "(\<And>d. flows d (f d)) \<Longrightarrow> task_flows (task_do f)"
  by (simp_all add: task_flows_def task_raise_def task_skip_def task_do_def)

lemma task_flows_then [flow]:
  assumes "task_flows t" and "task_flows u"
  shows "task_flows (task_then t u)"
proof (rule task_flowsI)
  fix d
  obtain d1 e where t: "t d = (d1, e)" by fastforce
  have "flows d d1" using task_flowsD [OF assms(1), of d] by (simp add: t)
  with task_flowsD [OF assms(2), of d1] show "flows d (fst (task_then t u d))"
    by (cases e) (auto simp: task_then_def t intro: flows_trans)
qed

lemma task_flows_fire [flow]: "task_flows (task_fire i e)"
proof (rule task_flowsI)
  fix d
  show "flows d (fst (task_fire i e d))"
  proof (cases "get_submission d i")
    case None
    then show ?thesis by (simp add: task_fire_def)
  next
    case (Some sub)
    show ?thesis
    proof (cases "transition (sub_status sub) e")
      case (Inl x)
      then show ?thesis using Some by (simp add: task_fire_def)
    next
      case (Inr st)
      then have "fire e sub d = Inr (fst (task_fire i e d))" using Some by (simp add: task_fire_def fire_def)
      with Some show ?thesis by (rule flows_fire [rotated])
    qed
  qed
qed

lemma task_flows_finalize [flow]: "task_flows (task_finalize i)"
proof (rule task_flowsI)
  fix d
  show "flows d (fst (task_finalize i d))"
  proof (cases "finalize_grade i d")
    case (Inl e)
    then show ?thesis by (simp add: task_finalize_def)
  next
    case (Inr r)
    then have "finalize_stored i d = Inr (fst r)" by (simp add: finalize_stored_def)
    then show ?thesis using Inr by (cases r) (auto simp: task_finalize_def intro: flows_finalize)
  qed
qed

lemma task_flows_if [flow]: "task_flows t \<Longrightarrow> task_flows u \<Longrightarrow> task_flows (if b then t else u)"
  by simp

lemma task_flows_hand_over [flow]: "task_flows (hand_over i e)"
  unfolding hand_over_def by (intro flow)

lemma task_flows_store_verdict [flow]: "flows d (store_verdict p i v d)"
  unfolding store_verdict_def by (rule flows_upd_submission) simp_all

lemma task_flows_route [flow]: "task_flows (route_verdict p i n v cfg)"
  unfolding route_verdict_def by (auto intro!: flow split: sum.split bool.split)

lemma task_flows_enter [flow]: "task_flows (enter_reviewing i)"
  by (rule task_flowsI) (auto simp: enter_reviewing_def intro: task_flowsD [OF task_flows_fire] split: option.split submission_status.split)

lemma task_flows_review [flow]: "task_flows (review_with p i n)"
  by (rule task_flowsI) (auto simp: review_with_def intro!: task_flowsD flow split: sum.split)

lemma task_flows_ai_review [flow]: "task_flows (execute_ai_review_task p payload)"
  by (rule task_flowsI) (auto simp: execute_ai_review_task_def Let_def intro!: task_flowsD flow split: json.split)

section \<open>What a task does to one submission\<close>

text \<open>\<open>runs i s t Q\<close>: run from any database where submission \<open>i\<close> has status \<open>s\<close>, the task \<open>t\<close>
  leaves the statuses of the others, and status and error of \<open>i\<close> satisfy \<open>Q\<close>.\<close>

definition runs ::
  "int \<Rightarrow> submission_status \<Rightarrow> task \<Rightarrow> (submission_status \<Rightarrow> task_error option \<Rightarrow> bool) \<Rightarrow> bool"
where
  "runs i s t Q \<longleftrightarrow>
     (\<forall>d d' r. status_in d i = Some s \<longrightarrow> t d = (d', r) \<longrightarrow>
        (\<forall>j. j \<noteq> i \<longrightarrow> status_in d' j = status_in d j) \<and> (\<exists>s'. status_in d' i = Some s' \<and> Q s' r))"

named_theorems runs_rule "rules for runs"

lemma runsI:
  assumes "\<And>d d' r. status_in d i = Some s \<Longrightarrow> t d = (d', r) \<Longrightarrow>
    (\<forall>j. j \<noteq> i \<longrightarrow> status_in d' j = status_in d j) \<and> (\<exists>s'. status_in d' i = Some s' \<and> Q s' r)"
  shows "runs i s t Q"
  using assms by (auto simp: runs_def)

lemma runsD:
  assumes "runs i s t Q" and "status_in d i = Some s" and "t d = (d', r)"
  shows "\<exists>s'. status_in d' i = Some s' \<and> Q s' r" and "j \<noteq> i \<Longrightarrow> status_in d' j = status_in d j"
  using assms by (auto simp: runs_def)

lemma runs_conseq: "runs i s t P \<Longrightarrow> (\<And>s' r. P s' r \<Longrightarrow> Q s' r) \<Longrightarrow> runs i s t Q"
  unfolding runs_def by meson

lemma runs_raise [runs_rule]: "Q s (Some e) \<Longrightarrow> runs i s (task_raise e) Q"
  by (auto simp: runs_def task_raise_def)

lemma runs_skip [runs_rule]: "Q s None \<Longrightarrow> runs i s task_skip Q"
  by (auto simp: runs_def task_skip_def)

lemma runs_do [runs_rule]:
  assumes "\<And>d. statuses (f d) = statuses d" and "Q s None"
  shows "runs i s (task_do f) Q"
  using assms by (auto simp: runs_def task_do_def status_in_statuses)

lemma runs_fire [runs_rule]:
  assumes "case transition s e of Inl x \<Rightarrow> Q s (Some (TaskTransition x)) | Inr s' \<Rightarrow> Q s' None"
  shows "runs i s (task_fire i e) Q"
proof (rule runsI)
  fix d d' r
  assume s: "status_in d i = Some s" and run: "task_fire i e d = (d', r)"
  then obtain sub where sub: "get_submission d i = Some sub" "sub_status sub = s" by (auto simp: status_in_def)
  show "(\<forall>j. j \<noteq> i \<longrightarrow> status_in d' j = status_in d j) \<and> (\<exists>s'. status_in d' i = Some s' \<and> Q s' r)"
  proof (cases "transition s e")
    case (Inl x)
    then have "d' = d" "r = Some (TaskTransition x)" using run sub by (auto simp: task_fire_def)
    then show ?thesis using s assms Inl by simp
  next
    case (Inr s')
    then have f: "fire e sub d = Inr d'" and r: "r = None" using run sub by (auto simp: task_fire_def fire_def)
    from fire_moves [OF f sub(1)] Inr sub(2) have "moves_to i s' d d'" by auto
    then show ?thesis using r assms Inr by (auto simp: moves_to_def)
  qed
qed

lemma runs_finalize [runs_rule]:
  assumes "Q s None" and "\<And>e. Q s (Some (TaskExn e))"
  shows "runs i s (task_finalize i) Q"
proof (rule runsI)
  fix d d' r
  assume s: "status_in d i = Some s" and run: "task_finalize i d = (d', r)"
  have "statuses d' = statuses d \<and> (r = None \<or> (\<exists>e. r = Some (TaskExn e)))"
  proof (cases "finalize_grade i d")
    case (Inl e)
    then show ?thesis using run by (auto simp: task_finalize_def)
  next
    case (Inr x)
    then have "finalize_stored i d = Inr (fst x)" by (simp add: finalize_stored_def)
    from grade_frame_statuses [OF grade_frame_finalize_stored [OF this]]
    show ?thesis using run Inr by (cases x) (auto simp: task_finalize_def)
  qed
  then show "(\<forall>j. j \<noteq> i \<longrightarrow> status_in d' j = status_in d j) \<and> (\<exists>s'. status_in d' i = Some s' \<and> Q s' r)"
    using s assms by (auto simp: status_in_statuses)
qed

lemma runs_then [runs_rule]:
  assumes "runs i s t (\<lambda>s' r. case r of None \<Rightarrow> runs i s' u Q | Some e \<Rightarrow> Q s' (Some e))"
  shows "runs i s (task_then t u) Q"
proof (rule runsI)
  fix d d' r
  assume s: "status_in d i = Some s" and run: "task_then t u d = (d', r)"
  obtain d1 r1 where t: "t d = (d1, r1)" by fastforce
  note first = runsD [OF assms s t]
  show "(\<forall>j. j \<noteq> i \<longrightarrow> status_in d' j = status_in d j) \<and> (\<exists>s'. status_in d' i = Some s' \<and> Q s' r)"
  proof (cases r1)
    case (Some e)
    then show ?thesis using first run t by (auto simp: task_then_def)
  next
    case None
    with first obtain s1 where s1: "status_in d1 i = Some s1" "runs i s1 u Q" by auto
    moreover have "u d1 = (d', r)" using run t None by (simp add: task_then_def)
    ultimately show ?thesis using runsD [OF s1(2,1)] first(2) by auto
  qed
qed

lemma runs_if [runs_rule]: "(b \<Longrightarrow> runs i s t Q) \<Longrightarrow> (\<not> b \<Longrightarrow> runs i s u Q) \<Longrightarrow> runs i s (if b then t else u) Q"
  by simp

lemma statuses_same: "db_submissions d' = db_submissions d \<Longrightarrow> statuses d' = statuses d"
  by (simp add: statuses_def)

lemma statuses_upd:
  "(\<And>s. sub_id (f s) = sub_id s) \<Longrightarrow> (\<And>s. sub_status (f s) = sub_status s) \<Longrightarrow> statuses (upd_submission i f d) = statuses d"
  by (simp add: statuses_def upd_submission_def upd_row_def)

lemma statuses_queue [simp]: "statuses (enqueue_teacher_review_notification i d) = statuses d"
  by (rule statuses_same) (subst enqueue_only, simp)

lemma runs_agree:
  "(\<And>d. status_in d i = Some s \<Longrightarrow> t d = u d) \<Longrightarrow> runs i s u Q \<Longrightarrow> runs i s t Q"
  by (simp add: runs_def)

lemma runs_seq:
  "runs i s t (\<lambda>s' r. r = None \<and> s' = sm) \<Longrightarrow> runs i sm u Q \<Longrightarrow> runs i s (task_then t u) Q"
  by (rule runs_then) (auto intro: runs_conseq)

lemma runs_fire_to: "transition s e = Inr s' \<Longrightarrow> runs i s (task_fire i e) (\<lambda>s'' r. r = None \<and> s'' = s')"
  by (rule runs_fire) simp

lemma runs_do_first: "(\<And>d. statuses (f d) = statuses d) \<Longrightarrow> runs i s u Q \<Longrightarrow> runs i s (task_then (task_do f) u) Q"
  by (rule runs_seq [where sm = s]) (auto intro: runs_do)

section \<open>Where a review can leave a submission\<close>

lemma statuses_store_verdict [simp]: "statuses (store_verdict p i v d) = statuses d"
  unfolding store_verdict_def by (rule statuses_upd) simp_all

definition signed :: "ai_provider \<Rightarrow> pydict \<Rightarrow> pydict" where
  "signed p v = dict_set ''model'' (JStr (ai_model p)) (dict_set ''provider'' (JStr (ai_name p)) v)"

text \<open>Where a verdict leads, by the message's next step.\<close>

definition verdict_leads_to :: "ai_provider \<Rightarrow> json \<Rightarrow> pydict \<Rightarrow> pydict \<Rightarrow> submission_status \<Rightarrow> bool" where
  "verdict_leads_to p next_step cfg v s' \<longleftrightarrow>
     (if next_step = JStr ''quiz'' then
        is_flagged (signed p v) cfg = Inr True \<and> s' = AWAITING_TEACHER_REVIEW \<or>
        is_flagged (signed p v) cfg = Inr False \<and> s' = QUIZ_SENT
      else s' = (if next_step = JStr ''teacher'' then AWAITING_TEACHER_REVIEW else COMPLETED))"

definition review_leaves ::
  "ai_provider \<Rightarrow> int \<Rightarrow> json \<Rightarrow> pydict \<Rightarrow> json list \<Rightarrow> submission_status \<Rightarrow> task_error option \<Rightarrow> bool"
where
  "review_leaves p i next_step cfg exts s' r \<longleftrightarrow>
     (case r of
        None \<Rightarrow> (\<exists>v. ai_answer p i exts = Inr v \<and> verdict_leads_to p next_step cfg v s')
      | Some (AIProviderError msg) \<Rightarrow> ai_answer p i exts = Inl msg \<and> s' = AI_REVIEW_FAILED
      | Some _ \<Rightarrow> s' \<in> {AI_REVIEWING, COMPLETED})"

lemma runs_hand_over: "transition s e = Inr s' \<Longrightarrow> Q s' None \<Longrightarrow> runs i s (hand_over i e) Q"
  unfolding hand_over_def by (intro runs_seq [OF runs_fire_to] runs_do) simp_all

lemma runs_route:
  assumes "ai_answer p i exts = Inr v"
  shows "runs i AI_REVIEWING (route_verdict p i n v cfg) (review_leaves p i n cfg exts)"
proof (cases "n = JStr ''quiz''")
  case True
  then show ?thesis
  proof (cases "is_flagged (signed p v) cfg")
    case (Inl e)
    then show ?thesis using True by (simp add: route_verdict_def signed_def review_leaves_def runs_raise)
  next
    case (Inr b)
    then show ?thesis using True assms
      by (cases b) (auto simp: route_verdict_def signed_def review_leaves_def verdict_leads_to_def transition_table
          intro!: runs_hand_over runs_fire)
  qed
next
  case False
  have "runs i AI_REVIEWING (task_then (task_fire i ''ai_review_done_completed'') (task_finalize i)) (review_leaves p i n cfg exts)"
    if "n \<noteq> JStr ''teacher''"
    by (rule runs_seq [OF runs_fire_to [where s' = COMPLETED]])
       (use False that assms in \<open>auto simp: transition_table review_leaves_def verdict_leads_to_def intro!: runs_finalize\<close>)
  then show ?thesis using False assms
    by (auto simp: route_verdict_def review_leaves_def verdict_leads_to_def transition_table intro!: runs_hand_over)
qed

lemma runs_enter:
  "s \<in> {AWAITING_AI_REVIEW, AI_REVIEWING, AI_REVIEW_FAILED} \<Longrightarrow>
     runs i s (enter_reviewing i) (\<lambda>s' r. r = None \<and> s' = AI_REVIEWING)"
proof -
  assume "s \<in> {AWAITING_AI_REVIEW, AI_REVIEWING, AI_REVIEW_FAILED}"
  then consider "s = AWAITING_AI_REVIEW" | "s = AI_REVIEWING" | "s = AI_REVIEW_FAILED" by blast
  then show ?thesis
  proof cases
    case 1
    then show ?thesis
      by (auto simp: enter_reviewing_def transition_table
          intro!: runs_agree [OF _ runs_fire [where e = "''start_ai_review''"]])
  next
    case 2
    then show ?thesis by (auto simp: enter_reviewing_def task_skip_def intro!: runs_agree [OF _ runs_skip])
  next
    case 3
    then show ?thesis
      by (auto simp: enter_reviewing_def transition_table
          intro!: runs_agree [OF _ runs_fire [where e = "''retry_ai_review''"]])
  qed
qed

lemma review_config_store:
  assumes "get_submission d i = Some sub"
  shows "review_config (store_submission (sub\<lparr>sub_status := st\<rparr>) d) i = review_config d i"
proof -
  have i: "sub_id sub = i" using assms by (simp add: get_submission_def get_row_Some)
  have "assignment_of (store_submission (sub\<lparr>sub_status := st\<rparr>) d) (sub\<lparr>sub_status := st\<rparr>) = assignment_of d sub"
    by (simp add: assignment_of_def get_sa_def get_assignment_def split: option.split)
  then show ?thesis using assms i by (simp add: review_config_def get_submission_store)
qed

lemma review_config_fire: "review_config (fst (task_fire i e d)) i = review_config d i"
  by (auto simp: task_fire_def review_config_store split: option.split sum.split)

lemma review_config_enter: "review_config (fst (enter_reviewing i d)) i = review_config d i"
  by (auto simp: enter_reviewing_def review_config_fire split: option.splits submission_status.splits)


definition sample_provider :: ai_provider where
  "sample_provider =
     \<lparr>ai_name = ''p'', ai_model = ''m'', ai_review_of = (\<lambda>_ _. Inr
       [(''cheating'', JObj [(''is_cheating'', JBool True), (''confidence'', JFloat (9 / 10))]),
        (''ai_generated'', JObj []), (''code_mark'', JInt 80), (''comment'', JStr '''')])\<rparr>"


end
