(* ===== verification/CheckTasks.thy ===== *)
theory CheckTasks
  imports AiReview CheckCore SafeZip
begin

text \<open>
  The tasks of the worker, second half: \<open>workers/tasks/check_tasks.py\<close>, which checks a submission and
  moves it on, with \<open>services/subject_config.py\<close>'s check of a subject code.

  Outside the program, and parameters of the model (\<open>world\<close>): the sandbox and \<open>json.loads\<close>
  (see \<open>CheckCore\<close>), what object storage and \<open>zipfile\<close> answer for an upload, and whether the
  subject's archive can be unpacked. The upload's entries go through \<open>safe_extract\<close> of \<open>SafeZip\<close>.
\<close>

section \<open>Subject codes\<close>

definition is_code_start :: "char \<Rightarrow> bool" where
  "is_code_start c = (let n = of_char c :: nat in
     48 \<le> n \<and> n \<le> 57 \<or> 65 \<le> n \<and> n \<le> 90 \<or> 97 \<le> n \<and> n \<le> 122)"

definition is_code_char :: "char \<Rightarrow> bool" where
  "is_code_char c = (is_code_start c \<or> c \<in> set ''_.-'')"

definition subject_code_re_match :: "string \<Rightarrow> bool" where
  "subject_code_re_match s =
     (case s of [] \<Rightarrow> False | c # cs \<Rightarrow> is_code_start c \<and> list_all is_code_char cs \<and> length cs \<le> 63)"

fun has_dotdot :: "string \<Rightarrow> bool" where
  "has_dotdot (a # b # cs) = (a = CHR ''.'' \<and> b = CHR ''.'' \<or> has_dotdot (b # cs))"
| "has_dotdot _ = False"

definition validate_subject_code :: "json \<Rightarrow> string option" where
  "validate_subject_code code =
     (case code of
        JStr s \<Rightarrow> if subject_code_re_match s \<and> \<not> has_dotdot s then Some s else None
      | _ \<Rightarrow> None)"

section \<open>The world outside\<close>

datatype stored_zip = NotStored | NotAZip string | Zip "zip_info list"

datatype plugin_tree = PluginUnusable string | PluginMissing | PluginReady

record world =
  w_loads :: "string \<Rightarrow> json option"
  w_sandbox :: sandbox
  w_limits :: sandbox_limits
  w_zip :: "string \<Rightarrow> stored_zip"
  w_plugin :: "subject_plugin_config \<Rightarrow> string \<Rightarrow> plugin_tree"

section \<open>Refusing, accepting, moving on\<close>

definition set_results :: "int \<Rightarrow> pydict \<Rightarrow> db \<Rightarrow> db" where
  "set_results i r = upd_submission i (\<lambda>s. s\<lparr>sub_test_results := Some r\<rparr>)"

definition fail_validation :: "int \<Rightarrow> string \<Rightarrow> task" where
  "fail_validation i reason =
     task_then (task_do (set_results i [(''check_reason'', JStr reason)]))
     (task_then (\<lambda>d. if status_in d i = Some PENDING then task_fire i ''start_validation'' d else task_skip d)
       (task_fire i ''validation_failed''))"

definition QUIZ_FIRST_MODES :: "string list" where
  "QUIZ_FIRST_MODES = [''quiz_only'', ''quiz_then_teacher'', ''quiz_and_teacher_scores'']"

text \<open>\<open>review_mode in _QUIZ_FIRST_MODES\<close>: testing a list or a dictionary for membership in a frozenset
  raises, it cannot be hashed.\<close>

fun is_quiz_first :: "json \<Rightarrow> py_exn + bool" where
  "is_quiz_first (JStr s) = Inr (s \<in> set QUIZ_FIRST_MODES)"
| "is_quiz_first (JList _) = Inl TypeError"
| "is_quiz_first (JObj _) = Inl TypeError"
| "is_quiz_first _ = Inr False"

definition is_quiz_first_assignment :: "db \<Rightarrow> int \<Rightarrow> string option \<Rightarrow> py_exn + bool" where
  "is_quiz_first_assignment d subject_id code =
     (case code of
        None \<Rightarrow> Inr False
      | Some c \<Rightarrow>
          if c = '''' then Inr False
          else
            (case latest_config d subject_id of
               None \<Rightarrow> Inr False
             | Some cfg \<Rightarrow>
                 bind_result (sub_dict (spc_config cfg) ''assignments'') (\<lambda>assignments.
                 bind_result (sub_dict assignments c) (\<lambda>pa.
                   is_quiz_first (dget pa ''review_mode'' (JStr ''tests_only''))))))"

definition unsafe_text :: "unsafe_archive \<Rightarrow> string" where
  "unsafe_text u = ''Submitted ZIP archive is unsafe: '' @
     (case u of
        TooManyEntries _ \<Rightarrow> ''too many entries'' | TooLarge _ \<Rightarrow> ''too large uncompressed''
      | AbsolutePath n \<Rightarrow> ''absolute path: '' @ n | Symlink n \<Rightarrow> ''symlink: '' @ n
      | PathTraversal n \<Rightarrow> ''path traversal: '' @ n)"

text \<open>Opening and unpacking the upload: a reason to refuse it, or nothing.\<close>

definition unpack_upload :: "world \<Rightarrow> string \<Rightarrow> string + unit" where
  "unpack_upload w saved_as =
     (case w_zip w saved_as of
        NotStored \<Rightarrow> Inl ''Could not open submitted ZIP: file not found in storage''
      | NotAZip e \<Rightarrow> Inl (''Could not open submitted ZIP: '' @ e)
      | Zip infos \<Rightarrow>
          (case safe_extract MAX_TOTAL_UNCOMPRESSED_BYTES MAX_ENTRY_COUNT [] infos of
             Inl u \<Rightarrow> Inl (unsafe_text u)
           | Inr _ \<Rightarrow> Inr ()))"

definition no_saved_as :: task_error where
  "no_saved_as = RuntimeError ''Submission has no saved_as in source_metadata''"

definition upload_of :: "submission \<Rightarrow> string option" where
  "upload_of sub = (case md_saved_as (sub_source_metadata sub) of Some s \<Rightarrow> if s = '''' then None else Some s | None \<Rightarrow> None)"

definition accept_without_checks :: "world \<Rightarrow> submission \<Rightarrow> json \<Rightarrow> task" where
  "accept_without_checks w sub review_mode =
     (let i = sub_id sub in
      case upload_of sub of
        None \<Rightarrow> task_raise no_saved_as
      | Some saved_as \<Rightarrow>
          (case unpack_upload w saved_as of
             Inl reason \<Rightarrow> fail_validation i reason
           | Inr _ \<Rightarrow>
               task_then (task_do (set_results i [(''skipped'', JBool True), (''reason'', review_mode)]))
               (task_then (task_fire i ''start_validation'')
               (task_then (task_fire i ''validation_passed'') (task_fire i ''test_passed_quiz'')))))"

definition notify_check :: "string \<Rightarrow> submission \<Rightarrow> db \<Rightarrow> db" where
  "notify_check verdict sub d =
     (case assignment_of d sub of
        None \<Rightarrow> d
      | Some (sa, asg) \<Rightarrow>
          (case user_of_student d (sa_student_id sa) of
             None \<Rightarrow> d
           | Some user_id \<Rightarrow>
               push_notification user_id (asg_title asg @ verdict) [(''title'', asg_title asg)]
                 (''/portal/subjects/'' @ str_of_int (asg_subject_id asg) @ ''/assignments/'' @ str_of_int (asg_id asg)) d))"

definition enqueue_ai_review :: "int \<Rightarrow> string option \<Rightarrow> db \<Rightarrow> db" where
  "enqueue_ai_review i next_step =
     add_outbox RUN_AI_REVIEW
       ((''submission_id'', JInt i) # (case next_step of Some s \<Rightarrow> [(''next_step'', JStr s)] | None \<Rightarrow> []))"

definition advance_after_tests :: "submission \<Rightarrow> json \<Rightarrow> task" where
  "advance_after_tests sub review_mode =
     (let i = sub_id sub; mode = (case review_mode of JStr s \<Rightarrow> s | _ \<Rightarrow> '''') in
      if mode = ''tests_then_ai'' then
        task_then (task_fire i ''test_passed_ai'') (task_do (enqueue_ai_review i None))
      else if mode = ''tests_then_teacher'' then hand_over i ''test_passed_teacher''
      else if mode = ''tests_then_ai_then_teacher'' \<or> mode = ''tests_then_ai_teacher'' then
        task_then (task_fire i ''test_passed_ai'') (task_do (enqueue_ai_review i (Some ''teacher'')))
      else if mode = ''tests_then_ai_then_quiz'' then
        task_then (task_fire i ''test_passed_ai'') (task_do (enqueue_ai_review i (Some ''quiz'')))
      else if mode = ''tests_then_quiz'' then task_fire i ''test_passed_quiz''
      else
        task_then (task_fire i ''test_passed_tests_only'')
        (task_then (task_finalize i) (task_do (notify_check '': passed'' sub))))"

section \<open>The check\<close>

definition problem_text :: "config_problem \<Rightarrow> string" where
  "problem_text p =
     (case p of
        NotConfigured \<Rightarrow> ''Assignment is not configured in plugin. Contact your teacher.''
      | VariantNotAssigned \<Rightarrow> ''Your variant has not been assigned yet. Contact your teacher to have your variant set.''
      | NoCheckCommand \<Rightarrow> ''No check_command configured for this assignment. Contact your teacher.'')"

definition failure_text :: "execution_failure \<Rightarrow> string" where
  "failure_text f =
     (let name = (\<lambda>script. case script of JStr s \<Rightarrow> s | _ \<Rightarrow> '''') in
      case f of
        NonZeroExit s n err \<Rightarrow> ''Sandbox technical failure running '' @ name s @ '' (exit '' @ str_of_int n @ ''): '' @ err
      | NoResultFile s \<Rightarrow> ''Check script '' @ name s @ '' did not write /output/result.json''
      | BadResultJson s \<Rightarrow> ''result.json from '' @ name s @ '' is not valid JSON''
      | BadTests s \<Rightarrow> ''result.json from '' @ name s @ '' has a non-list 'tests' key'')"

definition results_of :: "int \<Rightarrow> check_outcome \<Rightarrow> pydict" where
  "results_of version out =
     [(''passed'', JBool (co_status out = Check_passed)), (''score'', co_score out),
      (''max_score'', co_max_score out), (''tests'', JList (co_tests out)), (''plugin_config_version'', JInt version)]"

text \<open>After the sandbox: the outcome becomes transitions.\<close>

definition settle_check :: "submission \<Rightarrow> json \<Rightarrow> int \<Rightarrow> check_error + check_outcome \<Rightarrow> task" where
  "settle_check sub review_mode version outcome =
     (let i = sub_id sub in
      case outcome of
        Inl (CheckExecutionError f) \<Rightarrow> fail_validation i (failure_text f)
      | Inl (CheckExn e) \<Rightarrow> task_raise (TaskExn e)
      | Inr out \<Rightarrow>
          if co_status out = Check_validation_failed then
            task_then
              (task_do (set_results i [(''check_reason'', case co_reason out of Some r \<Rightarrow> JStr r | None \<Rightarrow> JNull)]))
              (task_fire i ''validation_failed'')
          else
            task_then (task_fire i ''validation_passed'')
            (task_then (task_do (set_results i (results_of version out)))
              (if co_status out \<noteq> Check_passed
               then task_then (task_fire i ''test_failed'') (task_do (notify_check '': didn't pass'' sub))
               else advance_after_tests sub review_mode)))"

definition run_plan :: "world \<Rightarrow> submission \<Rightarrow> subject_plugin_config \<Rightarrow> json \<Rightarrow> check_plan \<Rightarrow> task" where
  "run_plan w sub cfg review_mode plan =
     (let i = sub_id sub in
      case validate_subject_code (dget (spc_config cfg) ''subjectCode'' JNull) of
        None \<Rightarrow> fail_validation i ''Invalid subjectCode in plugin config''
      | Some subject_code \<Rightarrow>
          (case w_plugin w cfg subject_code of
             PluginUnusable e \<Rightarrow> fail_validation i (''Stored subject archive is unusable: '' @ e)
           | PluginMissing \<Rightarrow>
               fail_validation i ''Subject config has no stored archive -- re-apply the subject config.''
           | PluginReady \<Rightarrow>
               (case upload_of sub of
                  None \<Rightarrow> task_raise no_saved_as
                | Some saved_as \<Rightarrow>
                    (case unpack_upload w saved_as of
                       Inl reason \<Rightarrow> fail_validation i reason
                     | Inr _ \<Rightarrow>
                         task_then (task_fire i ''start_validation'')
                           (settle_check sub review_mode (spc_version cfg) (run_check (w_loads w) (w_sandbox w) plan))))))"

definition check_with ::
  "world \<Rightarrow> submission \<Rightarrow> subject_plugin_config \<Rightarrow> string option \<Rightarrow> string option \<Rightarrow> task"
where
  "check_with w sub cfg code variant =
     (let i = sub_id sub in
      case bind_result (sub_dict (spc_config cfg) ''assignments'') (\<lambda>assignments.
             case code of Some c \<Rightarrow> sub_dict assignments c | None \<Rightarrow> Inr []) of
        Inl e \<Rightarrow> task_raise (TaskExn e)
      | Inr pa \<Rightarrow>
          let review_mode = dget pa ''review_mode'' (JStr ''tests_only'') in
          case is_quiz_first review_mode of
            Inl e \<Rightarrow> task_raise (TaskExn e)
          | Inr True \<Rightarrow> accept_without_checks w sub review_mode
          | Inr False \<Rightarrow>
              (case code of
                 None \<Rightarrow> fail_validation i ''This assignment has no plugin code set, so no check can be selected.''
               | Some c \<Rightarrow>
                   (case resolve_check_plan (w_limits w) (spc_config cfg) c variant of
                      Inl e \<Rightarrow> task_raise (TaskExn e)
                    | Inr (Inl problem) \<Rightarrow> fail_validation i (problem_text problem)
                    | Inr (Inr plan) \<Rightarrow> run_plan w sub cfg review_mode plan)))"

text \<open>The configuration is pinned when the first check starts; a later one uses the pinned version.\<close>

definition pin_config :: "int \<Rightarrow> int \<Rightarrow> db \<Rightarrow> db" where
  "pin_config i cfg_id = upd_submission i (\<lambda>s. s\<lparr>sub_plugin_config_id := Some cfg_id\<rparr>)"

definition execute_check :: "world \<Rightarrow> int \<Rightarrow> task" where
  "execute_check w i d =
     (case get_submission d i of
        None \<Rightarrow> (d, None)
      | Some sub \<Rightarrow>
          (case assignment_of d sub of
             None \<Rightarrow> (d, Some (TaskExn AttributeError))
           | Some (sa, asg) \<Rightarrow>
               (case sub_plugin_config_id sub of
                  None \<Rightarrow>
                    (case latest_config d (asg_subject_id asg) of
                       None \<Rightarrow>
                         fail_validation i ''No plugin configuration found for this subject. Contact your teacher.'' d
                     | Some cfg \<Rightarrow>
                         task_then (task_do (pin_config i (spc_id cfg)))
                           (check_with w sub cfg (asg_code asg) (sa_variant sa)) d)
                | Some cfg_id \<Rightarrow>
                    (case get_config d cfg_id of
                       None \<Rightarrow> (d, Some (RuntimeError ''Pinned plugin_config_id not found''))
                     | Some cfg \<Rightarrow> check_with w sub cfg (asg_code asg) (sa_variant sa) d))))"

definition execute_check_task :: "world \<Rightarrow> pydict \<Rightarrow> task" where
  "execute_check_task w payload d =
     (case map_of payload ''submission_id'' of
        None \<Rightarrow> (d, Some (TaskExn KeyError))
      | Some (JInt i) \<Rightarrow> execute_check w i d
      | Some _ \<Rightarrow> (d, None))"

section \<open>Statuses follow the table\<close>

lemma flows_set_results [flow]: "flows d (set_results i r d)"
  unfolding set_results_def by (rule flows_upd_submission) simp_all

lemma flows_pin_config [flow]: "flows d (pin_config i c d)"
  unfolding pin_config_def by (rule flows_upd_submission) simp_all

lemma flows_notify_check [flow]: "flows d (notify_check v sub d)"
  by (auto simp: notify_check_def intro: flow split: option.split)

lemma flows_enqueue_ai [flow]: "flows d (enqueue_ai_review i n d)"
  by (simp add: enqueue_ai_review_def flow)

lemma task_flows_fail_validation [flow]: "task_flows (fail_validation i r)"
  unfolding fail_validation_def
  by (intro flow task_flowsI) (auto intro: task_flowsD flow)

lemma task_flows_accept [flow]: "task_flows (accept_without_checks w sub m)"
  unfolding accept_without_checks_def Let_def by (auto intro!: flow split: option.split sum.split)

lemma task_flows_advance [flow]: "task_flows (advance_after_tests sub m)"
  unfolding advance_after_tests_def Let_def by (intro flow)

lemma task_flows_settle [flow]: "task_flows (settle_check sub m v out)"
  unfolding settle_check_def Let_def by (auto intro!: flow split: sum.split check_error.split)

lemma task_flows_run_plan [flow]: "task_flows (run_plan w sub cfg m plan)"
  unfolding run_plan_def Let_def by (auto intro!: flow split: option.split plugin_tree.split sum.split)

lemma task_flows_check_with [flow]: "task_flows (check_with w sub cfg code v)"
  unfolding check_with_def Let_def by (auto intro!: flow split: option.split sum.split bool.split)

lemma task_flows_execute_check [flow]: "task_flows (execute_check w i)"
  by (rule task_flowsI) (auto simp: execute_check_def intro!: task_flowsD flow split: option.split)

lemma task_flows_check_task [flow]: "task_flows (execute_check_task w payload)"
  by (rule task_flowsI) (auto simp: execute_check_task_def intro!: task_flowsD flow split: option.split json.split)

section \<open>What refusing does to a submission\<close>

lemma task_statuses [simp]:
  "statuses (set_results i r d) = statuses d" "statuses (pin_config i c d) = statuses d"
  unfolding set_results_def pin_config_def by (rule statuses_upd; simp)+

lemma statuses_messages [simp]:
  "statuses (notify_check v sub d) = statuses d" "statuses (enqueue_ai_review i n d) = statuses d"
  by (rule statuses_same;
      simp add: notify_check_def enqueue_ai_review_def add_outbox_def push_notification_def split: option.split)+

lemma runs_fail_validation [runs_rule]:
  assumes "s \<in> {PENDING, VALIDATING} \<Longrightarrow> Q VALIDATION_FAILED None"
    and "s \<notin> {PENDING, VALIDATING} \<Longrightarrow> Q s (Some (TaskTransition (InvalidTransitionError s ''validation_failed'')))"
  shows "runs i s (fail_validation i reason) Q"
proof -
  have mid: "runs i s (\<lambda>d. if status_in d i = Some PENDING then task_fire i ''start_validation'' d else task_skip d)
     (\<lambda>s' r. r = None \<and> s' = (if s = PENDING then VALIDATING else s))"
    by (rule runs_agree [where u = "if s = PENDING then task_fire i ''start_validation'' else task_skip"])
       (auto intro!: runs_rule simp: transition_table)
  have "runs i (if s = PENDING then VALIDATING else s) (task_fire i ''validation_failed'') Q"
    by (rule runs_fire) (use assms in \<open>cases s; simp add: transition_table\<close>)
  then show ?thesis
    unfolding fail_validation_def
    by - (rule runs_then, rule runs_do, simp, simp, rule runs_then, rule runs_conseq [OF mid], simp)
qed

section \<open>Where a check can leave a submission\<close>

text \<open>What the tests lead to, by the review mode.\<close>

definition after_tests :: "json \<Rightarrow> submission_status" where
  "after_tests review_mode =
     (let mode = (case review_mode of JStr s \<Rightarrow> s | _ \<Rightarrow> '''') in
      if mode \<in> {''tests_then_ai'', ''tests_then_ai_then_teacher'', ''tests_then_ai_teacher'', ''tests_then_ai_then_quiz''}
      then AWAITING_AI_REVIEW
      else if mode = ''tests_then_teacher'' then AWAITING_TEACHER_REVIEW
      else if mode = ''tests_then_quiz'' then QUIZ_SENT
      else COMPLETED)"

lemma runs_advance:
  assumes "Q (after_tests m) None" and "after_tests m = COMPLETED \<Longrightarrow> (\<And>e. Q COMPLETED (Some (TaskExn e)))"
  shows "runs (sub_id sub) TESTING (advance_after_tests sub m) Q"
  using assms unfolding advance_after_tests_def Let_def hand_over_def
  by (intro runs_if runs_then runs_fire) (auto simp: transition_table after_tests_def Let_def intro!: runs_rule)

lemma start_validation_only_pending:
  "s \<noteq> PENDING \<Longrightarrow> transition s ''start_validation'' = Inl (InvalidTransitionError s ''start_validation'')"
  by (cases s) (simp_all add: transition_table)

text \<open>What a check that returns has seen: a reason to refuse the upload, or an upload it could unpack and
  either a quiz that examines the student or a script that passed or failed it.\<close>

definition plugin_assignment :: "subject_plugin_config \<Rightarrow> string option \<Rightarrow> py_exn + pydict" where
  "plugin_assignment cfg code =
     bind_result (sub_dict (spc_config cfg) ''assignments'') (\<lambda>assignments.
       case code of Some c \<Rightarrow> sub_dict assignments c | None \<Rightarrow> Inr [])"

definition mode_of :: "pydict \<Rightarrow> json" where
  "mode_of pa = dget pa ''review_mode'' (JStr ''tests_only'')"

definition examined_by ::
  "world \<Rightarrow> submission \<Rightarrow> subject_plugin_config \<Rightarrow> string option \<Rightarrow> string option \<Rightarrow> submission_status \<Rightarrow> bool"
where
  "examined_by w sub cfg code variant s' \<longleftrightarrow>
     (\<exists>saved pa. upload_of sub = Some saved \<and> unpack_upload w saved = Inr () \<and> plugin_assignment cfg code = Inr pa \<and>
       (is_quiz_first (mode_of pa) = Inr True \<and> s' = QUIZ_SENT \<or>
        is_quiz_first (mode_of pa) = Inr False \<and>
        (\<exists>c plan out. code = Some c \<and> resolve_check_plan (w_limits w) (spc_config cfg) c variant = Inr (Inr plan) \<and>
           run_check (w_loads w) (w_sandbox w) plan = Inr out \<and>
           (co_status out = Check_failed \<and> s' = TEST_FAILED \<or>
            co_status out = Check_passed \<and> s' = after_tests (mode_of pa)))))"

definition check_leaves ::
  "submission_status \<Rightarrow> (submission_status \<Rightarrow> bool) \<Rightarrow> submission_status \<Rightarrow> task_error option \<Rightarrow> bool"
where
  "check_leaves s seen s' r \<longleftrightarrow>
     (if s = PENDING
      then (case r of None \<Rightarrow> s' = VALIDATION_FAILED \<or> seen s' | Some _ \<Rightarrow> s' \<in> {PENDING, VALIDATING, COMPLETED})
      else (case r of None \<Rightarrow> s = VALIDATING \<and> s' = VALIDATION_FAILED | Some _ \<Rightarrow> s' = s))"

lemma check_leaves_raise [simp]: "check_leaves s seen s (Some e) \<longleftrightarrow> True"
  by (simp add: check_leaves_def)

lemma check_leaves_refused [simp]: "s \<in> {PENDING, VALIDATING} \<Longrightarrow> check_leaves s seen VALIDATION_FAILED None"
  by (auto simp: check_leaves_def)

lemma runs_refuse: "runs i s (fail_validation i reason) (check_leaves s seen)"
  by (rule runs_fail_validation) simp_all

lemma runs_start:
  assumes "s = PENDING \<Longrightarrow> runs i VALIDATING u (check_leaves PENDING seen)"
  shows "runs i s (task_then (task_fire i ''start_validation'') u) (check_leaves s seen)"
proof (cases "s = PENDING")
  case True
  show ?thesis
    unfolding True
    by (rule runs_seq [where sm = VALIDATING], rule runs_fire_to) (use assms True in \<open>simp_all add: transition_table\<close>)
next
  case False
  then show ?thesis by (intro runs_then runs_fire) (simp add: start_validation_only_pending)
qed

lemma runs_settle:
  assumes "\<And>out. outcome = Inr out \<Longrightarrow> co_status out = Check_failed \<Longrightarrow> seen TEST_FAILED"
    and "\<And>out. outcome = Inr out \<Longrightarrow> co_status out = Check_passed \<Longrightarrow> seen (after_tests m)"
  shows "runs (sub_id sub) VALIDATING (settle_check sub m v outcome) (check_leaves PENDING seen)"
proof (cases outcome)
  case (Inl e)
  then show ?thesis
    by (cases e) (auto simp: settle_check_def Let_def check_leaves_def intro!: runs_raise runs_fail_validation)
next
  case (Inr out)
  show ?thesis
  proof (cases "co_status out")
    case Check_validation_failed
    then show ?thesis
      by (auto simp: settle_check_def Let_def Inr transition_table check_leaves_def intro!: runs_do_first runs_fire)
  next
    case Check_failed
    with Inr assms(1) have "seen TEST_FAILED" by blast
    then have "runs (sub_id sub) TESTING (task_then (task_fire (sub_id sub) ''test_failed'')
        (task_do (notify_check '': didn't pass'' sub))) (check_leaves PENDING seen)"
      by (intro runs_seq [OF runs_fire_to [where s' = TEST_FAILED]] runs_do) (simp_all add: transition_table check_leaves_def)
    then have "runs (sub_id sub) VALIDATING (task_then (task_fire (sub_id sub) ''validation_passed'')
        (task_then (task_do (set_results (sub_id sub) (results_of v out)))
        (task_then (task_fire (sub_id sub) ''test_failed'') (task_do (notify_check '': didn't pass'' sub))))) (check_leaves PENDING seen)"
      by - (rule runs_seq [OF runs_fire_to [where s' = TESTING]], simp add: transition_table, rule runs_do_first, simp_all)
    then show ?thesis by (simp add: settle_check_def Let_def Inr Check_failed)
  next
    case Check_passed
    with Inr assms(2) have "seen (after_tests m)" by blast
    then show ?thesis using Check_passed
      by (auto simp: settle_check_def Let_def Inr transition_table check_leaves_def
          intro!: runs_seq [OF runs_fire_to [where s' = TESTING]] runs_do_first runs_advance)
  qed
qed

lemma runs_accept:
  assumes "\<And>saved. upload_of sub = Some saved \<Longrightarrow> unpack_upload w saved = Inr () \<Longrightarrow> seen QUIZ_SENT"
  shows "runs (sub_id sub) s (accept_without_checks w sub m) (check_leaves s seen)"
proof (cases "upload_of sub")
  case None
  then show ?thesis by (simp add: accept_without_checks_def runs_raise)
next
  case (Some saved)
  show ?thesis
  proof (cases "unpack_upload w saved")
    case (Inl reason)
    then show ?thesis using Some by (simp add: accept_without_checks_def runs_refuse)
  next
    case (Inr u)
    then have "seen QUIZ_SENT" using assms Some by (cases u) auto
    then have "runs (sub_id sub) VALIDATING (task_then (task_fire (sub_id sub) ''validation_passed'') (task_fire (sub_id sub) ''test_passed_quiz''))
        (check_leaves PENDING seen)"
      by (auto intro!: runs_seq [OF runs_fire_to [where s' = TESTING]] runs_fire simp: transition_table check_leaves_def)
    then show ?thesis using Some Inr
      by (auto simp: accept_without_checks_def Let_def intro!: runs_do_first runs_start)
  qed
qed

lemma runs_plan:
  assumes "\<And>saved out. upload_of sub = Some saved \<Longrightarrow> unpack_upload w saved = Inr () \<Longrightarrow>
      run_check (w_loads w) (w_sandbox w) plan = Inr out \<Longrightarrow>
      (co_status out = Check_failed \<longrightarrow> seen TEST_FAILED) \<and> (co_status out = Check_passed \<longrightarrow> seen (after_tests m))"
  shows "runs (sub_id sub) s (run_plan w sub cfg m plan) (check_leaves s seen)"
proof -
  have "runs (sub_id sub) s (task_then (task_fire (sub_id sub) ''start_validation'')
      (settle_check sub m (spc_version cfg) (run_check (w_loads w) (w_sandbox w) plan))) (check_leaves s seen)"
    if "upload_of sub = Some saved" "unpack_upload w saved = Inr u" for saved u
    by (rule runs_start, rule runs_settle) (use assms that in auto)
  then show ?thesis
    unfolding run_plan_def Let_def
    by (auto intro!: runs_refuse runs_raise split: option.split plugin_tree.split sum.split)
qed

lemma runs_check_with:
  "runs (sub_id sub) s (check_with w sub cfg code variant) (check_leaves s (examined_by w sub cfg code variant))"
proof (cases "plugin_assignment cfg code")
  case (Inl e)
  then show ?thesis by (simp add: check_with_def plugin_assignment_def runs_raise)
next
  case (Inr pa)
  let ?Q = "check_leaves s (examined_by w sub cfg code variant)"
  have unfold: "check_with w sub cfg code variant =
      (case is_quiz_first (mode_of pa) of
         Inl e \<Rightarrow> task_raise (TaskExn e)
       | Inr True \<Rightarrow> accept_without_checks w sub (mode_of pa)
       | Inr False \<Rightarrow>
          (case code of
             None \<Rightarrow> fail_validation (sub_id sub) ''This assignment has no plugin code set, so no check can be selected.''
           | Some c \<Rightarrow>
               (case resolve_check_plan (w_limits w) (spc_config cfg) c variant of
                  Inl e \<Rightarrow> task_raise (TaskExn e)
                | Inr (Inl problem) \<Rightarrow> fail_validation (sub_id sub) (problem_text problem)
                | Inr (Inr plan) \<Rightarrow> run_plan w sub cfg (mode_of pa) plan)))"
    using Inr unfolding check_with_def mode_of_def Let_def plugin_assignment_def by simp
  show ?thesis
  proof (cases "is_quiz_first (mode_of pa)")
    case (Inl e)
    then show ?thesis by (simp add: unfold runs_raise)
  next
    case q: (Inr b)
    show ?thesis
    proof (cases b)
      case True
      have "runs (sub_id sub) s (accept_without_checks w sub (mode_of pa)) ?Q"
        by (rule runs_accept) (use Inr q True in \<open>auto simp: examined_by_def\<close>)
      then show ?thesis by (simp add: unfold q True)
    next
      case False
      have "runs (sub_id sub) s (run_plan w sub cfg (mode_of pa) plan) ?Q"
        if "code = Some c" "resolve_check_plan (w_limits w) (spc_config cfg) c variant = Inr (Inr plan)" for c plan
        by (rule runs_plan) (use Inr q False that in \<open>auto simp: examined_by_def\<close>)
      then show ?thesis
        by (auto simp: unfold q False intro!: runs_refuse runs_raise split: option.split sum.split)
    qed
  qed
qed

definition config_for :: "db \<Rightarrow> submission \<Rightarrow> subjects_assignment \<Rightarrow> subject_plugin_config option" where
  "config_for d sub asg =
     (case sub_plugin_config_id sub of None \<Rightarrow> latest_config d (asg_subject_id asg) | Some c \<Rightarrow> get_config d c)"

definition check_seen :: "world \<Rightarrow> db \<Rightarrow> int \<Rightarrow> submission_status \<Rightarrow> bool" where
  "check_seen w d i s' \<longleftrightarrow>
     (\<exists>sub sa asg cfg. get_submission d i = Some sub \<and> assignment_of d sub = Some (sa, asg) \<and>
        config_for d sub asg = Some cfg \<and> examined_by w sub cfg (asg_code asg) (sa_variant sa) s')"

lemma execute_check_leaves:
  assumes s: "status_in d i = Some s" and run: "execute_check w i d = (d', r)"
  shows "(\<exists>s'. status_in d' i = Some s' \<and> check_leaves s (check_seen w d i) s' r) \<and>
    (\<forall>j. j \<noteq> i \<longrightarrow> status_in d' j = status_in d j)"
proof -
  from s obtain sub where sub: "get_submission d i = Some sub" and st: "sub_status sub = s" by (auto simp: status_in_def)
  have i: "sub_id sub = i" using sub by (simp add: get_submission_def get_row_Some)
  have by_task: ?thesis if "runs i s t (check_leaves s (check_seen w d i))" "t d = (d', r)" for t
    using runsD [OF that(1) s that(2)] by blast
  show ?thesis
  proof (cases "assignment_of d sub")
    case None
    then show ?thesis using run sub s by (auto simp: execute_check_def)
  next
    case (Some x)
    obtain sa asg where x: "x = (sa, asg)" by fastforce
    have go: "runs i s (check_with w sub cfg (asg_code asg) (sa_variant sa)) (check_leaves s (check_seen w d i))"
      if "config_for d sub asg = Some cfg" for cfg
    proof -
      have "runs (sub_id sub) s (check_with w sub cfg (asg_code asg) (sa_variant sa))
          (check_leaves s (examined_by w sub cfg (asg_code asg) (sa_variant sa)))"
        by (rule runs_check_with)
      then show ?thesis
        unfolding i
        by (rule runs_conseq)
           (use that sub Some x in \<open>auto simp: check_leaves_def check_seen_def split: if_splits option.splits\<close>)
    qed
    show ?thesis
    proof (cases "sub_plugin_config_id sub")
      case None
      show ?thesis
      proof (cases "latest_config d (asg_subject_id asg)")
        case none: None
        show ?thesis
          by (rule by_task [OF runs_refuse])
             (use run sub Some x None none in \<open>simp add: execute_check_def\<close>)
      next
        case (Some cfg)
        with None have "config_for d sub asg = Some cfg" by (simp add: config_for_def)
        from go [OF this] have "runs i s (task_then (task_do (pin_config i (spc_id cfg)))
            (check_with w sub cfg (asg_code asg) (sa_variant sa))) (check_leaves s (check_seen w d i))"
          by (intro runs_do_first) simp
        then show ?thesis
          by (rule by_task) (use run sub \<open>assignment_of d sub = Some x\<close> x None Some in \<open>simp add: execute_check_def\<close>)
      qed
    next
      case pinned: (Some c)
      show ?thesis
      proof (cases "get_config d c")
        case None
        then show ?thesis using run sub Some x pinned s by (auto simp: execute_check_def)
      next
        case cfg: (Some cfg)
        with pinned have "config_for d sub asg = Some cfg" by (simp add: config_for_def)
        from go [OF this] show ?thesis
          by (rule by_task) (use run sub Some x pinned cfg in \<open>simp add: execute_check_def\<close>)
      qed
    qed
  qed
qed

section \<open>Properties\<close>


definition sample_world :: "sandbox_result \<Rightarrow> json \<Rightarrow> world" where
  "sample_world result parsed =
     \<lparr>w_loads = (\<lambda>_. Some parsed), w_sandbox = (\<lambda>_ _. result),
      w_limits = \<lparr>lim_max_memory = ''512m'', lim_max_cpus = 1\<rparr>,
      w_zip = (\<lambda>_. Zip [\<lparr>zi_filename = ''main.py'', zi_file_size = 9, zi_external_attr = 0\<rparr>]),
      w_plugin = (\<lambda>_ _. PluginReady)\<rparr>"

definition sample_result :: sandbox_result where
  "sample_result = \<lparr>sr_exit_code = 0, sr_stderr = '''', sr_output_files = [(''result.json'', ''x'')]\<rparr>"

definition sample_upload :: db where
  "sample_upload = sample_failed\<lparr>
     db_configs := [\<lparr>spc_id = 5, spc_subject_id = 1, spc_version = 1, spc_content_hash = '''', spc_config =
       [(''subjectCode'', JStr ''S''), (''assignments'', JObj [(''lab1'', JObj
          [(''review_mode'', JStr ''tests_then_teacher''),
           (''sandbox'', JObj [(''check_command'', JStr ''check.py'')])])])]\<rparr>],
     db_submissions := map (\<lambda>s. s\<lparr>sub_status := PENDING, sub_plugin_config_id := None,
       sub_source_metadata := (sub_source_metadata s)\<lparr>md_saved_as := Some ''a.zip''\<rparr>\<rparr>) (db_submissions sample_failed)\<rparr>"


text \<open>C18. A check that raises leaves the submission where it was: waiting, mid-check, or completed when
  only its grade failed. One left mid-check or completed is out of the worker's reach: whatever the
  world answers the next time, running the check again changes no status, or at most records a
  refusal, so no later run gives it a test verdict.\<close>

theorem crashed_check_is_not_retried:
  assumes "status_in d i = Some PENDING" and "execute_check w i d = (d', Some e)"
  shows "\<exists>s. status_in d' i = Some s \<and> s \<in> {PENDING, VALIDATING, COMPLETED} \<and>
    (\<forall>w2 d2 d3 r. status_in d2 i = Some s \<longrightarrow> s \<noteq> PENDING \<longrightarrow> execute_check w2 i d2 = (d3, r) \<longrightarrow>
       (if r = None then s = VALIDATING \<and> status_in d3 i = Some VALIDATION_FAILED else status_in d3 i = Some s))"
proof -
  from execute_check_leaves [OF assms] obtain s where s: "status_in d' i = Some s" "s \<in> {PENDING, VALIDATING, COMPLETED}"
    by (auto simp: check_leaves_def)
  have "if r = None then s = VALIDATING \<and> status_in d3 i = Some VALIDATION_FAILED else status_in d3 i = Some s"
    if "status_in d2 i = Some s" "s \<noteq> PENDING" "execute_check w2 i d2 = (d3, r)" for w2 d2 d3 r
    using execute_check_leaves [OF that(1,3)] that(2) by (auto simp: check_leaves_def split: option.splits)
  with s show ?thesis by blast
qed

theorem crashed_check_is_not_retried_witness:
  "(let w = sample_world sample_result (JList []); good = sample_world sample_result (JObj [(''tests'', JList [])]);
       (d', r) = execute_check w 30 sample_upload in
    r = Some (TaskExn AttributeError) \<and> status_in d' 30 = Some VALIDATING \<and>
    status_in (fst (execute_check good 30 d')) 30 \<in> {Some VALIDATING, Some VALIDATION_FAILED})"
proof -
  let ?w = "sample_world sample_result (JList [])" and ?good = "sample_world sample_result (JObj [(''tests'', JList [])])"
  obtain d' r where run: "execute_check ?w 30 sample_upload = (d', r)" by fastforce
  obtain d3 r3 where again: "execute_check ?good 30 d' = (d3, r3)" by fastforce
  have "(case execute_check ?w 30 sample_upload of (d', r) \<Rightarrow> (status_in d' 30, r)) =
      (Some VALIDATING, Some (TaskExn AttributeError))" by code_simp
  then have st: "status_in d' 30 = Some VALIDATING" "r = Some (TaskExn AttributeError)" by (simp_all add: run)
  have "status_in sample_upload 30 = Some PENDING" by code_simp
  from crashed_check_is_not_retried [OF this run [unfolded st(2)]] obtain s where s: "status_in d' 30 = Some s"
    and next': "\<forall>w2 d2 d3 r. status_in d2 30 = Some s \<longrightarrow> s \<noteq> PENDING \<longrightarrow> execute_check w2 30 d2 = (d3, r) \<longrightarrow>
       (if r = None then s = VALIDATING \<and> status_in d3 30 = Some VALIDATION_FAILED else status_in d3 30 = Some s)"
    by (elim exE conjE) (rule that)
  from s have "s = VALIDATING" using st(1) by simp
  with next' [rule_format, OF s _ again]
  have "status_in d3 30 = Some VALIDATION_FAILED \<or> status_in d3 30 = Some VALIDATING" by (simp split: if_splits)
  with st run again show ?thesis by auto
qed

end
