(* ===== verification/LlmBoard.thy ===== *)
theory LlmBoard
  imports StatusFlow
begin

text \<open>
  Draft grades by a language model: the \<open>llm_grading\<close> block of an assignment
  (\<open>services/llm_grading/config.py\<close>), the links between Classroom accounts and students
  (\<open>services/google/links.py\<close>) and what the assignment board shows of each student's works
  (\<open>services/llm_grading/board.py\<close>).

  A criterion's title and requirements stay values of the document, as in \<open>TeacherScores\<close>;
  the reader of a task file is a parameter. The properties: a validated block gives the grader a task
  and at least one criterion it can score, and the board shows the newest finished draft of the
  student's group.
\<close>

section \<open>The configuration block\<close>

definition SOURCES :: "string list" where
  "SOURCES = [''google_classroom'']"

record llm_criterion =
  lc_key :: string
  lc_title :: json
  lc_max :: int
  lc_requirements :: json

definition is_llm_graded :: "pydict \<Rightarrow> py_exn + bool" where
  "is_llm_graded cfg =
     (if \<not> is_scored_mode cfg then Inr False
      else bind_result (or_dict (dget cfg ''llm_grading'' JNull)) (\<lambda>b.
        Inr (dget b ''enabled'' JNull = JBool True)))"

text \<open>\<open>str(v or "").strip()\<close>, with a value that is no text left as it is.\<close>

definition stripped :: "json \<Rightarrow> json" where
  "stripped v = (case v of JStr s \<Rightarrow> JStr (py_strip s) | _ \<Rightarrow> if truthy v then v else JStr '''')"

text \<open>\<open>str(v or "").strip()\<close> is not empty: the text of a truthy number, list or dictionary is not blank.\<close>

definition has_text :: "json \<Rightarrow> bool" where
  "has_text v = (case v of JStr s \<Rightarrow> py_strip s \<noteq> '''' | _ \<Rightarrow> truthy v)"

text \<open>\<open>raw.get("llm") is not False\<close>; only a dictionary has a \<open>get\<close>.\<close>

fun scored_by_llm :: "json \<Rightarrow> py_exn + bool" where
  "scored_by_llm (JObj raw) = Inr (dget raw ''llm'' JNull \<noteq> JBool False)"
| "scored_by_llm _ = Inl AttributeError"

fun llm_criterion_of :: "json \<Rightarrow> py_exn + llm_criterion" where
  "llm_criterion_of (JObj raw) =
     (case map_of raw ''key'' of
        None \<Rightarrow> Inl KeyError
      | Some (JStr k) \<Rightarrow>
          (case map_of raw ''max'' of
             None \<Rightarrow> Inl KeyError
           | Some m \<Rightarrow>
               bind_result (py_int m) (\<lambda>mx.
                 Inr \<lparr>lc_key = k,
                      lc_title = (let t = dget raw ''title'' JNull in if truthy t then t else JStr k),
                      lc_max = mx,
                      lc_requirements = stripped (dget raw ''requirements'' JNull)\<rparr>))
      | Some _ \<Rightarrow> Inl TypeError)"
| "llm_criterion_of _ = Inl TypeError"

fun filter_result :: "('a \<Rightarrow> 'e + bool) \<Rightarrow> 'a list \<Rightarrow> 'e + 'a list" where
  "filter_result p [] = Inr []"
| "filter_result p (x # xs) =
     bind_result (p x) (\<lambda>b. bind_result (filter_result p xs) (\<lambda>ys. Inr (if b then x # ys else ys)))"

text \<open>The comprehension tests and builds one element after the other.\<close>

fun llm_criteria_loop :: "json list \<Rightarrow> py_exn + llm_criterion list" where
  "llm_criteria_loop [] = Inr []"
| "llm_criteria_loop (raw # raws) =
     bind_result (scored_by_llm raw) (\<lambda>b.
       if b then bind_result (llm_criterion_of raw) (\<lambda>c. map_sum id ((#) c) (llm_criteria_loop raws))
       else llm_criteria_loop raws)"

definition llm_criteria :: "pydict \<Rightarrow> py_exn + llm_criterion list" where
  "llm_criteria grading_cfg =
     bind_result (or_list (dget grading_cfg ''teacher_criteria'' JNull)) llm_criteria_loop"

fun subject_uses_llm :: "pydict list \<Rightarrow> py_exn + bool" where
  "subject_uses_llm [] = Inr False"
| "subject_uses_llm (cfg # cfgs) =
     bind_result (is_llm_graded cfg) (\<lambda>b. if b then Inr True else subject_uses_llm cfgs)"

datatype llm_config_error =
    MustBeMapping
  | WrongReviewMode
  | EnabledNotBool
  | UnknownSource
  | TaskFileMissing json
  | NoTask
  | NoLlmCriterion
  | NoRequirements json
  | LlmRaised py_exn

definition lift_llm :: "py_exn + 'a \<Rightarrow> llm_config_error + 'a" where
  "lift_llm r = map_sum LlmRaised id r"

text \<open>\<open>source not in SOURCES\<close>: a list or a dictionary cannot be hashed.\<close>

fun known_source :: "json \<Rightarrow> py_exn + bool" where
  "known_source (JStr s) = Inr (s \<in> set SOURCES)"
| "known_source (JList _) = Inl TypeError"
| "known_source (JObj _) = Inl TypeError"
| "known_source _ = Inr False"

definition check_task :: "(json \<Rightarrow> string option) \<Rightarrow> pydict \<Rightarrow> llm_config_error + unit" where
  "check_task read_text block =
     (let task_file = dget block ''task_file'' JNull in
      if truthy task_file then
        (case read_text task_file of
           None \<Rightarrow> Inl (TaskFileMissing task_file)
         | Some text \<Rightarrow> if py_strip text = '''' then Inl (TaskFileMissing task_file) else Inr ())
      else if has_text (dget block ''task'' JNull) then Inr () else Inl NoTask)"

fun check_requirements :: "json list \<Rightarrow> llm_config_error + unit" where
  "check_requirements [] = Inr ()"
| "check_requirements (JObj c # cs) =
     (if has_text (dget c ''requirements'' JNull) then check_requirements cs
      else Inl (NoRequirements (dget c ''key'' JNull)))"
| "check_requirements (_ # cs) = Inl (LlmRaised AttributeError)"

definition validate_llm :: "(json \<Rightarrow> string option) \<Rightarrow> pydict \<Rightarrow> llm_config_error + unit" where
  "validate_llm read_text a_cfg =
     (case dget a_cfg ''llm_grading'' JNull of
        JObj block \<Rightarrow>
          if \<not> is_scored_mode a_cfg then Inl WrongReviewMode
          else if \<not> (case dget block ''enabled'' JNull of JBool _ \<Rightarrow> True | _ \<Rightarrow> False) then Inl EnabledNotBool
          else
            bind_result (lift_llm (known_source (dget block ''source'' JNull))) (\<lambda>known.
            if \<not> known then Inl UnknownSource
            else
            bind_result (check_task read_text block) (\<lambda>_.
            bind_result (lift_llm (or_dict (dget a_cfg ''grading'' JNull))) (\<lambda>grading.
            bind_result (lift_llm (or_list (dget grading ''teacher_criteria'' JNull))) (\<lambda>raws.
            bind_result (lift_llm (filter_result scored_by_llm raws)) (\<lambda>llm_ones.
              if llm_ones = [] then Inl NoLlmCriterion else check_requirements llm_ones)))))
      | _ \<Rightarrow> Inl MustBeMapping)"

definition inline_task :: "(json \<Rightarrow> string option) \<Rightarrow> pydict \<Rightarrow> py_exn + pydict" where
  "inline_task read_text a_cfg =
     bind_result (or_dict (dget a_cfg ''llm_grading'' JNull)) (\<lambda>block.
       let task_file = dget block ''task_file'' JNull in
       Inr (if truthy task_file
            then dict_set ''llm_grading''
                   (JObj (dict_set ''task'' (case read_text task_file of Some t \<Rightarrow> JStr t | None \<Rightarrow> JNull) block)) a_cfg
            else a_cfg))"

section \<open>Links\<close>

text \<open>Unconfirmed before confirmed, old before new; a later entry of the dictionary replaces an
  earlier one.\<close>

definition link_state_for_students :: "db \<Rightarrow> int \<Rightarrow> (int \<times> classroom_student_link) list" where
  "link_state_for_students d subject_id =
     (let links = filter (\<lambda>l. lk_subject_id l = subject_id \<and> lk_student_id l \<noteq> None) (db_links d);
          ordered = sort_key lk_confirmed (sort_key lk_id links)
      in rev (map (\<lambda>l. (the (lk_student_id l), l)) ordered))"

definition unconfirmed_name :: "classroom_student_link \<Rightarrow> bool" where
  "unconfirmed_name l = (lk_method l = Link_NAME \<and> \<not> lk_confirmed l)"

section \<open>The board\<close>

text \<open>A student is in one squad of a subject at most, so which of several would win does not matter.\<close>

definition squad_group :: "db \<Rightarrow> int \<Rightarrow> int \<Rightarrow> int list" where
  "squad_group d subject_id sid =
     (case find (\<lambda>m. mem_subject_id m = subject_id \<and> mem_student_id m = sid) (db_members d) of
        None \<Rightarrow> [sid]
      | Some m \<Rightarrow>
          map mem_student_id
            (filter (\<lambda>x. mem_subject_id x = subject_id \<and> mem_squad_id x = mem_squad_id m) (db_members d)))"

text \<open>\<open>ORDER BY seen_at DESC, id DESC\<close>.\<close>

definition newest_first :: "classroom_work list \<Rightarrow> classroom_work list" where
  "newest_first ws = rev (sort_key wk_seen_at (sort_key wk_id ws))"

text \<open>The join of a work with its link, when the link belongs to one of the students.\<close>

definition linked :: "db \<Rightarrow> int list \<Rightarrow> classroom_work \<Rightarrow> (classroom_work \<times> classroom_student_link) option" where
  "linked d everyone w =
     (case get_row lk_id (wk_link_id w) (db_links d) of
        Some lk \<Rightarrow>
          (case lk_student_id lk of
             Some sid \<Rightarrow> if sid \<in> set everyone then Some (w, lk) else None
           | None \<Rightarrow> None)
      | None \<Rightarrow> None)"

definition works_of :: "db \<Rightarrow> int \<Rightarrow> int list \<Rightarrow> (classroom_work \<times> classroom_student_link) list" where
  "works_of d asg everyone =
     List.map_filter (linked d everyone)
       (newest_first (filter (\<lambda>w. wk_subjects_assignment_id w = asg) (db_works d)))"

definition grading_of :: "db \<Rightarrow> classroom_work \<Rightarrow> llm_grading option" where
  "grading_of d w = find (\<lambda>g. lg_classroom_work_id g = wk_id w) (db_gradings d)"

definition is_done :: "llm_grading option \<Rightarrow> bool" where
  "is_done g = (case g of Some x \<Rightarrow> lg_status x = Grading_DONE | None \<Rightarrow> False)"

text \<open>\<open>max(approvals, key=...)\<close>: the first of the latest.\<close>

fun first_max :: "('a \<Rightarrow> int) \<Rightarrow> 'a list \<Rightarrow> 'a option" where
  "first_max f [] = None"
| "first_max f (x # xs) =
     (case first_max f xs of None \<Rightarrow> Some x | Some y \<Rightarrow> Some (if f x \<ge> f y then x else y))"

definition has_scores :: "db \<Rightarrow> int \<Rightarrow> int \<Rightarrow> bool" where
  "has_scores d asg sid =
     list_ex (\<lambda>sa. sa_subjects_assignment_id sa = asg \<and> sa_student_id sa = sid \<and>
       sa_teacher_scores sa \<noteq> None \<and> sa_teacher_scores sa \<noteq> Some []) (db_sas d)"

fun prefill_loop :: "pydict \<Rightarrow> string list \<Rightarrow> (string \<times> int) list \<Rightarrow> py_exn + (string \<times> int) list" where
  "prefill_loop crit [] out = Inr out"
| "prefill_loop crit (k # ks) out =
     bind_result (or_dict (dget crit k JNull)) (\<lambda>c.
       let points = dget c ''points'' JNull in
       if is_number points then prefill_loop crit ks (dict_set k (py_trunc (number_value points)) out)
       else prefill_loop crit ks out)"

definition draft_criteria :: "pydict option \<Rightarrow> py_exn + pydict" where
  "draft_criteria draft = or_dict (dget (case draft of Some x \<Rightarrow> x | None \<Rightarrow> []) ''criteria'' JNull)"

definition prefill :: "pydict option \<Rightarrow> string list \<Rightarrow> py_exn + (string \<times> int) list" where
  "prefill draft keys = bind_result (draft_criteria draft) (\<lambda>crit. prefill_loop crit keys [])"

record board_row =
  br_link :: "classroom_student_link option"
  br_work :: "classroom_work option"
  br_grading :: "llm_grading option"
  br_draft :: "pydict option"
  br_draft_work :: "classroom_work option"
  br_draft_grading_id :: "int option"
  br_draft_link_id :: "int option"
  br_approved_grading_id :: "int option"
  br_needs_review :: bool
  br_needs_link_confirm :: bool
  br_confirm_link :: "classroom_student_link option"
  br_prefill :: "(string \<times> int) list"

definition board_row_of ::
  "db \<Rightarrow> int \<Rightarrow> int \<Rightarrow> (classroom_work \<times> classroom_student_link) list \<Rightarrow> string list \<Rightarrow> int \<Rightarrow> py_exn + board_row"
where
  "board_row_of d subject_id asg works keys sid =
     (let grp = squad_group d subject_id sid;
          mine = filter (\<lambda>(w, lk). lk_student_id lk \<in> Some ` set grp) works;
          work = (case mine of [] \<Rightarrow> None | (w, _) # _ \<Rightarrow> Some w);
          done_pair = find (\<lambda>(w, lk). is_done (grading_of d w)) mine;
          dn = Option.bind done_pair (\<lambda>(w, lk). grading_of d w);
          approvals = filter (\<lambda>g. lg_approved_at g \<noteq> None) (List.map_filter (\<lambda>(w, lk). grading_of d w) mine);
          approved = first_max (\<lambda>g. the (lg_approved_at g)) approvals;
          draft_id = map_option lg_id dn;
          approved_id = map_option lg_id approved;
          link = map_of (link_state_for_students d subject_id) sid;
          candidates = (case done_pair of Some (w, lk) \<Rightarrow> [lk] | None \<Rightarrow> []) @ map snd mine @
            (case link of Some l \<Rightarrow> [l] | None \<Rightarrow> []);
          confirm_link = find unconfirmed_name candidates;
          draft = Option.bind dn lg_draft
      in
        bind_result (if has_scores d asg sid then Inr [] else prefill draft keys) (\<lambda>pre.
          Inr \<lparr>br_link = link, br_work = work, br_grading = Option.bind work (grading_of d), br_draft = draft,
               br_draft_work = map_option fst done_pair, br_draft_grading_id = draft_id,
               br_draft_link_id = map_option (lk_id \<circ> snd) done_pair, br_approved_grading_id = approved_id,
               br_needs_review = (draft_id \<noteq> None \<and> draft_id \<noteq> Some 0 \<and> approved_id \<noteq> None \<and> draft_id \<noteq> approved_id),
               br_needs_link_confirm = (confirm_link \<noteq> None), br_confirm_link = confirm_link,
               br_prefill = pre\<rparr>))"

definition llm_board_state :: "db \<Rightarrow> subjects_assignment \<Rightarrow> int list \<Rightarrow> py_exn + (int \<times> board_row) list" where
  "llm_board_state d asg student_ids =
     (let subject_id = asg_subject_id asg;
          everyone = concat (map (squad_group d subject_id) student_ids);
          works = works_of d (asg_id asg) everyone
      in
        bind_result (or_dict (dget (asg_config asg) ''grading'' JNull)) (\<lambda>grading.
        bind_result (llm_criteria grading) (\<lambda>crits.
          map_result (\<lambda>sid. map_sum id (Pair sid) (board_row_of d subject_id (asg_id asg) works (map lc_key crits) sid))
            student_ids)))"

section \<open>What a validated block guarantees\<close>

lemma filter_result_eq:
  "filter_result p xs = Inr ys \<Longrightarrow> ys = filter (\<lambda>x. p x = Inr True) xs \<and> (\<forall>x \<in> set xs. \<exists>b. p x = Inr b)"
  by (induction xs arbitrary: ys) (auto simp: bind_result_eq_Inr split: if_splits)

text \<open>A criterion the teacher's rules accept and that is not marked \<open>llm: false\<close> reads as one for the
  grader, with the same key and maximum.\<close>

lemma llm_criterion_of_criterion:
  assumes "criterion_of raw = Inr c"
  obtains lc where "llm_criterion_of raw = Inr lc" and "lc_key lc = crit_key c" and "lc_max lc = crit_max c"
    and "lc_requirements lc = stripped (case raw of JObj r \<Rightarrow> dget r ''requirements'' JNull | _ \<Rightarrow> JNull)"
  using assms by (cases raw) (auto simp: bind_result_eq_Inr split: option.splits json.splits)

lemma py_strip_nonblank: "py_strip s \<noteq> [] \<longleftrightarrow> (\<exists>c \<in> set s. \<not> is_ws c)"
proof -
  have "c \<in> set (dropWhile is_ws s)" if "c \<in> set s" "\<not> is_ws c" for c
    using that takeWhile_dropWhile_id [of is_ws s] by (metis Un_iff set_append set_takeWhileD)
  then show ?thesis unfolding py_strip_def by (auto simp: dropWhile_eq_Nil_conv dest: set_dropWhileD)
qed

lemma py_strip_text:
  assumes "py_strip s \<noteq> []"
  shows "py_strip (py_strip s) \<noteq> []"
proof -
  let ?u = "dropWhile is_ws (rev (dropWhile is_ws s))"
  have u: "?u \<noteq> []" using assms by (simp add: py_strip_def)
  then have "\<not> is_ws (hd ?u)" by (rule hd_dropWhile)
  with u have "\<exists>c \<in> set (py_strip s). \<not> is_ws c" unfolding py_strip_def set_rev by (meson hd_in_set)
  then show ?thesis by (simp only: py_strip_nonblank)
qed

lemma llm_criteria_loop_total:
  assumes "map_result criterion_of raws = Inr crits" and "filter_result scored_by_llm raws = Inr llm_ones"
    and "check_requirements llm_ones = Inr ()"
  obtains lcs where "llm_criteria_loop raws = Inr lcs" and "length lcs = length llm_ones"
    and "\<And>lc. lc \<in> set lcs \<Longrightarrow> has_text (lc_requirements lc) \<and>
      (\<exists>c \<in> set crits. lc_key lc = crit_key c \<and> lc_max lc = crit_max c)"
proof -
  have txt_ok: "has_text (stripped v)" if "has_text v" for v
    using that by (cases v) (auto simp: has_text_def stripped_def dest: py_strip_text)
  have "\<exists>lcs. llm_criteria_loop raws = Inr lcs \<and> length lcs = length llm_ones \<and>
    (\<forall>lc \<in> set lcs. has_text (lc_requirements lc) \<and>
      (\<exists>c \<in> set crits. lc_key lc = crit_key c \<and> lc_max lc = crit_max c))"
    using assms
  proof (induction raws arbitrary: crits llm_ones)
    case Nil
    then show ?case by simp
  next
    case (Cons raw raws)
    from Cons.prems(1) obtain c cs where c: "criterion_of raw = Inr c" "map_result criterion_of raws = Inr cs" "crits = c # cs"
      by (auto simp: bind_result_eq_Inr)
    from Cons.prems(2) obtain b ys where b: "scored_by_llm raw = Inr b" "filter_result scored_by_llm raws = Inr ys"
      "llm_ones = (if b then raw # ys else ys)" by (auto simp: bind_result_eq_Inr)
    from b(1) obtain r where r: "raw = JObj r" by (cases raw) auto
    from llm_criterion_of_criterion [OF c(1)] obtain lc where lc: "llm_criterion_of raw = Inr lc"
      "lc_key lc = crit_key c" "lc_max lc = crit_max c"
      "lc_requirements lc = stripped (dget r ''requirements'' JNull)" unfolding r json.case by blast
    have "check_requirements ys = Inr ()" "b \<Longrightarrow> has_text (dget r ''requirements'' JNull)"
      using Cons.prems(3) b(3) by (auto simp: r split: if_splits)
    moreover from Cons.IH [OF c(2) b(2) this(1)] obtain lcs where
      "llm_criteria_loop raws = Inr lcs" "length lcs = length ys"
      "\<forall>lc \<in> set lcs. has_text (lc_requirements lc) \<and> (\<exists>c \<in> set cs. lc_key lc = crit_key c \<and> lc_max lc = crit_max c)"
      by blast
    ultimately show ?case using lc b txt_ok by (auto simp: c(3))
  qed
  with that show ?thesis by blast
qed

lemma validate_llm_Inr:
  assumes "validate_llm read_text a_cfg = Inr ()"
  obtains block grading raws llm_ones where "dget a_cfg ''llm_grading'' JNull = JObj block"
    and "check_task read_text block = Inr ()" and "or_dict (dget a_cfg ''grading'' JNull) = Inr grading"
    and "or_list (dget grading ''teacher_criteria'' JNull) = Inr raws"
    and "filter_result scored_by_llm raws = Inr llm_ones" and "llm_ones \<noteq> []" and "check_requirements llm_ones = Inr ()"
proof -
  from assms obtain block where b: "dget a_cfg ''llm_grading'' JNull = JObj block"
    by (auto simp: validate_llm_def split: json.splits)
  from assms [unfolded validate_llm_def b, simplified] show thesis
    by (auto simp: bind_result_eq_Inr lift_llm_def map_sum_eq_Inr split: if_splits intro!: that [OF b])
qed

text \<open>A configuration that passes both checks gives the grader something to grade: its task, inlined from
  the task file where one is named, is not blank, and there is at least one criterion to score, each
  with requirements, a key and the maximum that the teacher's form uses.\<close>

theorem validated_llm_block_is_usable:
  assumes "validate_assignment a_cfg = Inr ()" and "validate_llm read_text a_cfg = Inr ()"
  shows "\<exists>grading crits lcs cfg' block'. or_dict (dget a_cfg ''grading'' JNull) = Inr grading \<and>
    criteria grading = Inr crits \<and> llm_criteria grading = Inr lcs \<and> lcs \<noteq> [] \<and>
    (\<forall>lc \<in> set lcs. has_text (lc_requirements lc) \<and> (\<exists>c \<in> set crits. lc_key lc = crit_key c \<and> lc_max lc = crit_max c \<and> 0 < crit_max c)) \<and>
    inline_task read_text a_cfg = Inr cfg' \<and> dget cfg' ''llm_grading'' JNull = JObj block' \<and>
    has_text (dget block' ''task'' JNull)"
proof -
  from validate_assignment_sound [OF assms(1)] obtain grading crits qp lo hi where
    g: "or_dict (dget a_cfg ''grading'' JNull) = Inr grading" "criteria grading = Inr crits"
      "list_all (\<lambda>c. 0 < crit_max c) crits" by metis
  from validate_llm_Inr [OF assms(2)] obtain block grading' raws llm_ones where
    b: "dget a_cfg ''llm_grading'' JNull = JObj block" "check_task read_text block = Inr ()"
      "or_dict (dget a_cfg ''grading'' JNull) = Inr grading'" "or_list (dget grading' ''teacher_criteria'' JNull) = Inr raws"
      "filter_result scored_by_llm raws = Inr llm_ones" "llm_ones \<noteq> []" "check_requirements llm_ones = Inr ()" by blast
  have g': "grading' = grading" using g(1) b(3) by simp
  have "map_result criterion_of raws = Inr crits" using g(2) b(4) by (simp add: criteria_def g')
  from llm_criteria_loop_total [OF this b(5,7)] obtain lcs where lcs: "llm_criteria_loop raws = Inr lcs"
    "length lcs = length llm_ones" "\<And>lc. lc \<in> set lcs \<Longrightarrow> has_text (lc_requirements lc) \<and>
      (\<exists>c \<in> set crits. lc_key lc = crit_key c \<and> lc_max lc = crit_max c)" by blast
  have "llm_criteria grading = Inr lcs" using b(4) lcs(1) by (simp add: llm_criteria_def g')
  moreover obtain cfg' block' where "inline_task read_text a_cfg = Inr cfg'" "dget cfg' ''llm_grading'' JNull = JObj block'"
    "has_text (dget block' ''task'' JNull)"
    using b(1,2) by (auto simp: inline_task_def check_task_def Let_def has_text_def split: if_splits option.splits)
  moreover have "lcs \<noteq> []" using lcs(2) b(6) by auto
  ultimately show ?thesis using g lcs(3) by (fastforce simp: list_all_iff)
qed

definition sample_llm_cfg :: pydict where
  "sample_llm_cfg =
     [(''review_mode'', JStr MODE), (''max_grade'', JInt 10),
      (''quiz'', JObj [(''questions'', JList [JObj []])]),
      (''grading'', JObj [(''quiz_points'', JInt 4), (''teacher_criteria'', JList
        [JObj [(''key'', JStr ''style''), (''max'', JInt 4), (''requirements'', JStr ''readable'')],
         JObj [(''key'', JStr ''defence''), (''max'', JInt 2), (''llm'', JBool False)]])]),
      (''llm_grading'', JObj [(''enabled'', JBool True), (''source'', JStr ''google_classroom''),
        (''task_file'', JStr ''task.md'')])]"

theorem validated_llm_block_is_usable_witness:
  "\<exists>lcs. llm_criteria (case dget sample_llm_cfg ''grading'' JNull of JObj g \<Rightarrow> g | _ \<Rightarrow> []) = Inr lcs \<and> lcs \<noteq> []"
proof -
  have "validate_assignment sample_llm_cfg = Inr ()" "validate_llm (\<lambda>_. Some ''Build a parser'') sample_llm_cfg = Inr ()"
    by code_simp+
  from validated_llm_block_is_usable [OF this] show ?thesis by (auto simp: sample_llm_cfg_def dget_def)
qed

section \<open>What the board shows\<close>

definition feeds :: "db \<Rightarrow> int \<Rightarrow> int \<Rightarrow> int \<Rightarrow> classroom_work \<Rightarrow> classroom_student_link \<Rightarrow> bool" where
  "feeds d subject_id asg sid w lk \<longleftrightarrow>
     w \<in> set (db_works d) \<and> wk_subjects_assignment_id w = asg \<and> get_row lk_id (wk_link_id w) (db_links d) = Some lk \<and>
     (\<exists>s \<in> set (squad_group d subject_id sid). lk_student_id lk = Some s)"

lemma newest_first_sorted: "sorted_wrt (\<lambda>x y. wk_seen_at y \<le> wk_seen_at x) (newest_first ws)"
proof -
  have "sorted (map wk_seen_at (sort_key wk_seen_at (sort_key wk_id ws)))" by simp
  then show ?thesis by (simp add: newest_first_def sorted_wrt_rev sorted_wrt_map)
qed

lemma in_map_filter: "y \<in> set (List.map_filter f xs) \<longleftrightarrow> (\<exists>x \<in> set xs. f x = Some y)"
  by (induction xs) (auto simp: map_filter_simps split: option.splits)

lemma linked_Some:
  "linked d everyone w = Some (v, lk) \<longleftrightarrow>
     v = w \<and> get_row lk_id (wk_link_id w) (db_links d) = Some lk \<and> (\<exists>s \<in> set everyone. lk_student_id lk = Some s)"
proof (cases "get_row lk_id (wk_link_id w) (db_links d)")
  case None
  then show ?thesis by (simp add: linked_def)
next
  case (Some l)
  then show ?thesis by (cases "lk_student_id l") (auto simp: linked_def)
qed

lemma works_of_mem:
  "(w, lk) \<in> set (works_of d asg everyone) \<longleftrightarrow>
     w \<in> set (db_works d) \<and> wk_subjects_assignment_id w = asg \<and> get_row lk_id (wk_link_id w) (db_links d) = Some lk \<and>
     (\<exists>s \<in> set everyone. lk_student_id lk = Some s)"
  by (auto simp: works_of_def in_map_filter newest_first_def linked_Some)

lemma works_of_sorted: "sorted_wrt (\<lambda>(x, _) (y, _). wk_seen_at y \<le> wk_seen_at x) (works_of d asg everyone)"
proof -
  have "sorted_wrt (\<lambda>(x, _) (y, _). wk_seen_at y \<le> wk_seen_at x) (List.map_filter (linked d everyone) ws)"
    if "sorted_wrt (\<lambda>x y. wk_seen_at y \<le> wk_seen_at x) ws" for ws
    using that
  proof (induction ws)
    case Nil
    then show ?case by (simp add: map_filter_simps)
  next
    case (Cons w ws)
    then show ?case
      by (auto simp: map_filter_simps in_map_filter linked_Some split: option.splits)
  qed
  then show ?thesis unfolding works_of_def using newest_first_sorted by blast
qed

lemma find_first:
  assumes "find p xs = Some x" and "sorted_wrt r xs" and "y \<in> set xs" and "p y"
  shows "y = x \<or> r x y"
  using assms by (induction xs) (auto split: if_splits)

lemma find_none_iff: "find p xs = None \<longleftrightarrow> (\<forall>x \<in> set xs. \<not> p x)"
  by (auto simp: find_None_iff)

lemma find_mem: "find p xs = Some x \<Longrightarrow> x \<in> set xs \<and> p x"
  by (induction xs) (auto split: if_splits)

lemma list_all2_right: "list_all2 p xs ys \<Longrightarrow> y \<in> set ys \<Longrightarrow> \<exists>x \<in> set xs. p x y"
  by (induction rule: list_all2_induct) auto

lemma board_row_of_Inr:
  assumes "board_row_of d subject_id asg works keys sid = Inr row"
    and "\<And>w lk. feeds d subject_id asg sid w lk \<longleftrightarrow>
      (w, lk) \<in> set works \<and> lk_student_id lk \<in> Some ` set (squad_group d subject_id sid)"
    and "sorted_wrt (\<lambda>(x, _) (y, _). wk_seen_at y \<le> wk_seen_at x) works"
  shows "case br_draft_grading_id row of
      None \<Rightarrow> \<forall>w lk. feeds d subject_id asg sid w lk \<longrightarrow> \<not> is_done (grading_of d w)
    | Some g \<Rightarrow> \<exists>w lk x. feeds d subject_id asg sid w lk \<and> grading_of d w = Some x \<and> lg_id x = g \<and>
        lg_status x = Grading_DONE \<and> br_draft row = lg_draft x \<and>
        (\<forall>w' lk'. feeds d subject_id asg sid w' lk' \<and> is_done (grading_of d w') \<longrightarrow> wk_seen_at w' \<le> wk_seen_at w)"
    and "\<not> br_needs_link_confirm row \<Longrightarrow> feeds d subject_id asg sid w lk \<Longrightarrow> \<not> unconfirmed_name lk"
proof -
  define mine where "mine = filter (\<lambda>(w, lk). lk_student_id lk \<in> Some ` set (squad_group d subject_id sid)) works"
  define pr where "pr = find (\<lambda>(w, lk). is_done (grading_of d w)) mine"
  have mine: "(w, lk) \<in> set mine \<longleftrightarrow> feeds d subject_id asg sid w lk" for w lk
    by (auto simp: mine_def assms(2))
  have srt: "sorted_wrt (\<lambda>(x, _) (y, _). wk_seen_at y \<le> wk_seen_at x) mine"
    unfolding mine_def using assms(3) by (rule sorted_wrt_filter)
  have row: "br_draft_grading_id row = map_option lg_id (Option.bind pr (\<lambda>(w, lk). grading_of d w))"
    "br_draft row = Option.bind (Option.bind pr (\<lambda>(w, lk). grading_of d w)) lg_draft"
    "br_needs_link_confirm row = (find unconfirmed_name ((case pr of Some (w, lk) \<Rightarrow> [lk] | None \<Rightarrow> []) @ map snd mine @
            (case map_of (link_state_for_students d subject_id) sid of Some l \<Rightarrow> [l] | None \<Rightarrow> [])) \<noteq> None)"
    using assms(1) unfolding board_row_of_def Let_def mine_def [symmetric] pr_def [symmetric]
    by (auto simp: bind_result_eq_Inr)
  show "case br_draft_grading_id row of
      None \<Rightarrow> \<forall>w lk. feeds d subject_id asg sid w lk \<longrightarrow> \<not> is_done (grading_of d w)
    | Some g \<Rightarrow> \<exists>w lk x. feeds d subject_id asg sid w lk \<and> grading_of d w = Some x \<and> lg_id x = g \<and>
        lg_status x = Grading_DONE \<and> br_draft row = lg_draft x \<and>
        (\<forall>w' lk'. feeds d subject_id asg sid w' lk' \<and> is_done (grading_of d w') \<longrightarrow> wk_seen_at w' \<le> wk_seen_at w)"
  proof (cases pr)
    case None
    then have "\<forall>x \<in> set mine. \<not> (case x of (w, lk) \<Rightarrow> is_done (grading_of d w))"
      unfolding pr_def by (simp only: find_none_iff)
    then show ?thesis using None by (auto simp: row(1) mine [symmetric])
  next
    case (Some p)
    obtain w lk where p: "p = (w, lk)" by fastforce
    have hit: "(w, lk) \<in> set mine" "is_done (grading_of d w)"
      using find_mem [OF Some [unfolded pr_def]] by (auto simp: p)
    then obtain x where x: "grading_of d w = Some x" "lg_status x = Grading_DONE"
      by (auto simp: is_done_def split: option.splits)
    have "wk_seen_at w' \<le> wk_seen_at w" if "feeds d subject_id asg sid w' lk'" "is_done (grading_of d w')" for w' lk'
      using find_first [OF Some [unfolded pr_def] srt, of "(w', lk')"] that by (auto simp: p mine)
    then show ?thesis using hit(1) x by (auto simp: row Some p mine)
  qed
  show "\<not> unconfirmed_name lk" if "\<not> br_needs_link_confirm row" "feeds d subject_id asg sid w lk"
    using that mine [of w lk] by (force simp: row(3) find_none_iff)
qed

text \<open>The board's draft for a student is the newest finished one among the works of the student and the
  student's squad-mates, and no draft is shown only when none of them has a finished grading. A row
  that does not ask for a link to be confirmed is fed by no unconfirmed name match.\<close>

theorem board_shows_newest_draft:
  assumes "llm_board_state d asg student_ids = Inr state" and "(sid, row) \<in> set state"
  shows "sid \<in> set student_ids \<and>
    (case br_draft_grading_id row of
       None \<Rightarrow> \<forall>w lk. feeds d (asg_subject_id asg) (asg_id asg) sid w lk \<longrightarrow> \<not> is_done (grading_of d w)
     | Some g \<Rightarrow> \<exists>w lk x. feeds d (asg_subject_id asg) (asg_id asg) sid w lk \<and> grading_of d w = Some x \<and> lg_id x = g \<and>
         lg_status x = Grading_DONE \<and> br_draft row = lg_draft x \<and>
         (\<forall>w' lk'. feeds d (asg_subject_id asg) (asg_id asg) sid w' lk' \<and> is_done (grading_of d w') \<longrightarrow>
            wk_seen_at w' \<le> wk_seen_at w)) \<and>
    (\<not> br_needs_link_confirm row \<longrightarrow>
       (\<forall>w lk. feeds d (asg_subject_id asg) (asg_id asg) sid w lk \<longrightarrow> \<not> unconfirmed_name lk))"
proof -
  define works where "works = works_of d (asg_id asg) (concat (map (squad_group d (asg_subject_id asg)) student_ids))"
  from assms(1) obtain keys where
    "map_result (\<lambda>sid. map_sum id (Pair sid) (board_row_of d (asg_subject_id asg) (asg_id asg) works keys sid)) student_ids = Inr state"
    by (auto simp: llm_board_state_def Let_def bind_result_eq_Inr works_def)
  then have "list_all2 (\<lambda>i r. map_sum id (Pair i) (board_row_of d (asg_subject_id asg) (asg_id asg) works keys i) = Inr r)
      student_ids state" by (simp only: map_result_Inr_iff)
  from list_all2_right [OF this assms(2)] have sid: "sid \<in> set student_ids"
    and row: "board_row_of d (asg_subject_id asg) (asg_id asg) works keys sid = Inr row"
    by (auto simp: map_sum_eq_Inr)
  have mem: "feeds d (asg_subject_id asg) (asg_id asg) sid w lk \<longleftrightarrow>
      (w, lk) \<in> set works \<and> lk_student_id lk \<in> Some ` set (squad_group d (asg_subject_id asg) sid)" for w lk
    using sid by (auto simp: feeds_def works_def works_of_mem)
  have srt: "sorted_wrt (\<lambda>(x, _) (y, _). wk_seen_at y \<le> wk_seen_at x) works"
    unfolding works_def by (rule works_of_sorted)
  show ?thesis using sid board_row_of_Inr [OF row mem srt] by blast
qed

definition sample_board :: db where
  "sample_board = empty_db
     \<lparr>db_links := [\<lparr>lk_id = 1, lk_subject_id = 1, lk_student_id = Some 3, lk_method = Link_EMAIL, lk_confirmed = True,
        lk_classroom_user_id = ''u'', lk_classroom_email = None, lk_classroom_name = ''N'', lk_score = None, lk_candidates = JNull\<rparr>],
      db_works := [\<lparr>wk_id = 4, wk_subjects_assignment_id = 10, wk_link_id = 1, wk_seen_at = 5,
          wk_classroom_submission_id = ''s'', wk_state = ''TURNED_IN'', wk_late = False, wk_content_hash = ''a'', wk_manifest = [], wk_created_at = 0\<rparr>,
        \<lparr>wk_id = 5, wk_subjects_assignment_id = 10, wk_link_id = 1, wk_seen_at = 9,
          wk_classroom_submission_id = ''s'', wk_state = ''TURNED_IN'', wk_late = False, wk_content_hash = ''b'', wk_manifest = [], wk_created_at = 0\<rparr>],
      db_gradings := [\<lparr>lg_id = 71, lg_classroom_work_id = 4, lg_status = Grading_DONE,
          lg_draft = Some [(''criteria'', JObj [(''style'', JObj [(''points'', JInt 3)])])],
          lg_approved_by = None, lg_approved_at = None,
          lg_attempts = 0, lg_error = None, lg_provider = None, lg_model = None, lg_graded_at = None, lg_updated_at = 0\<rparr>,
        \<lparr>lg_id = 72, lg_classroom_work_id = 5, lg_status = Grading_PENDING, lg_draft = None,
          lg_approved_by = None, lg_approved_at = None,
          lg_attempts = 0, lg_error = None, lg_provider = None, lg_model = None, lg_graded_at = None, lg_updated_at = 0\<rparr>]\<rparr>"

definition sample_llm_assignment :: subjects_assignment where
  "sample_llm_assignment =
     \<lparr>asg_id = 10, asg_subject_id = 1, asg_code = Some ''lab1'', asg_title = ''Lab 1'', asg_description = None, asg_content_files = None, asg_coursework_id = None, asg_coursework_title = None, asg_deadline = None,
      asg_min_grade = 0, asg_max_grade = 10, asg_config = sample_llm_cfg\<rparr>"

theorem board_shows_newest_draft_witness:
  "\<exists>w lk x. feeds sample_board 1 10 3 w lk \<and> grading_of sample_board w = Some x \<and> lg_id x = 71 \<and>
     lg_status x = Grading_DONE"
proof -
  have "map_sum id (map (\<lambda>(s, r). (s, br_draft_grading_id r, br_prefill r)))
      (llm_board_state sample_board sample_llm_assignment [3]) = Inr [(3, Some 71, [(''style'', 3)])]"
    by code_simp
  then obtain row where "llm_board_state sample_board sample_llm_assignment [3] = Inr [(3, row)]"
    "br_draft_grading_id row = Some 71" by (auto simp: map_sum_eq_Inr)
  with board_shows_newest_draft [OF this(1), of 3 row] show ?thesis
    by (auto simp: sample_llm_assignment_def)
qed

end
