(* ===== verification/TeacherReview.thy ===== *)
theory TeacherReview
  imports LlmBoard CheckTasks "HOL-Library.Sublist"
begin

text \<open>
  What a teacher does to submissions on the assignment board (\<open>api/routes/teacher_portal.py\<close>): approve
  or reject one or many, re-run the checks, retry or skip a failed AI review, and type the work points
  of the review mode \<open>quiz_and_teacher_scores\<close>.

  A route works on the session's objects and commits at its end, so one that raises leaves the
  database as it was. The properties: an approval completes a submission only when no quiz is left, a
  retried AI review routes as the first would have, and saved points reach the whole squad and
  complete only what passed its quiz.
\<close>

section \<open>One decision\<close>

datatype review_error =
    ReviewNotAllowedError string
  | ScoresIncompleteError
  | InvalidAction
  | ReviewFailed finalize_error

definition quiz_passed :: "db \<Rightarrow> submission \<Rightarrow> bool" where
  "quiz_passed d sub = list_ex (\<lambda>a. att_submission_id a = sub_id sub \<and> att_is_passed a = Some True) (db_attempts d)"

text \<open>The assignment's block in the pinned configuration has quiz questions.\<close>

definition configured_quiz :: "db \<Rightarrow> submission \<Rightarrow> subjects_assignment \<Rightarrow> py_exn + bool" where
  "configured_quiz d sub asg =
     (case (Option.bind (sub_plugin_config_id sub) (get_config d), asg_code asg) of
        (Some cfg, Some code) \<Rightarrow>
          if code = '''' then Inr False
          else
            bind_result (sub_dict (spc_config cfg) ''assignments'') (\<lambda>assignments.
            bind_result (sub_dict assignments code) (\<lambda>a.
            bind_result (sub_dict a ''quiz'') (\<lambda>quiz. Inr (truthy (dget quiz ''questions'' JNull)))))
      | _ \<Rightarrow> Inr False)"

definition assignment_criteria :: "subjects_assignment \<Rightarrow> py_exn + criterion list" where
  "assignment_criteria asg = bind_result (or_dict (dget (asg_config asg) ''grading'' JNull)) criteria"

definition review_raises :: "py_exn + 'a \<Rightarrow> review_error + 'a" where
  "review_raises r = map_sum (ReviewFailed \<circ> FinalizeExn) id r"

definition scores_allow :: "student_assignment \<Rightarrow> subjects_assignment \<Rightarrow> review_error + unit" where
  "scores_allow sa asg =
     (if is_scored_mode (asg_config asg) then
        bind_result (review_raises (assignment_criteria asg)) (\<lambda>crits.
          if is_complete crits (sa_teacher_scores sa) then Inr () else Inl ScoresIncompleteError)
      else Inr ())"

definition approve_event :: "db \<Rightarrow> submission \<Rightarrow> student_assignment \<Rightarrow> subjects_assignment \<Rightarrow> review_error + string" where
  "approve_event d sub sa asg =
     bind_result (scores_allow sa asg) (\<lambda>_.
     bind_result (review_raises (configured_quiz d sub asg)) (\<lambda>has_quiz.
       Inr (if has_quiz \<and> \<not> quiz_passed d sub then ''teacher_send_quiz'' else ''teacher_approve'')))"

definition decided ::
  "string \<Rightarrow> submission \<Rightarrow> student_assignment \<Rightarrow> subjects_assignment \<Rightarrow> string \<Rightarrow> db \<Rightarrow>
     review_error + (submission \<times> string)"
where
  "decided action sub sa asg clean_reason d =
     (if action = ''approve'' then bind_result (approve_event d sub sa asg) (\<lambda>event. Inr (sub, event))
      else if action = ''reject'' then
        (if is_scored_mode (asg_config asg)
         then Inl (ReviewNotAllowedError ''Rejecting is not available here; enter the points'')
         else Inr (sub\<lparr>sub_test_results := Some [(''check_reason'',
                    JStr (if clean_reason = '''' then ''Rejected by teacher'' else clean_reason))]\<rparr>, ''teacher_reject''))
      else Inl InvalidAction)"

definition reviewed_payload :: "int \<Rightarrow> string \<Rightarrow> string \<Rightarrow> pydict" where
  "reviewed_payload i action reason =
     [(''submission_id'', JInt i), (''action'', JStr action), (''reason'', JStr reason)]"

definition apply_review_decision ::
  "submission \<Rightarrow> string \<Rightarrow> string \<Rightarrow> user \<Rightarrow> db \<Rightarrow> review_error + (db \<times> string)"
where
  "apply_review_decision sub action reason u d =
     (let clean_reason = py_strip reason in
      case assignment_of d sub of
        None \<Rightarrow> Inl (ReviewFailed (FinalizeExn AttributeError))
      | Some (sa, asg) \<Rightarrow>
          bind_result (decided action sub sa asg clean_reason d) (\<lambda>(sub', event).
          bind_result (map_sum ReviewFailed id (fire event sub' d)) (\<lambda>d1.
          bind_result (if event = ''teacher_approve'' then map_sum ReviewFailed id (finalize_stored (sub_id sub) d1)
                       else Inr d1) (\<lambda>d2.
            Inr (audit (''teacher_'' @ action @ ''_submission'') (Some (usr_id u)) (Some (sub_id sub))
                   (add_outbox SUBMISSION_REVIEWED (reviewed_payload (sub_id sub) action clean_reason) d2), event)))))"

definition server_error :: "finalize_error \<Rightarrow> reply" where
  "server_error e = (case e of FinalizeExn x \<Rightarrow> ServerError x | FinalizeTransition _ \<Rightarrow> ServerError ValueError)"

definition SCORES_MISSING :: string where
  "SCORES_MISSING = ''Enter the work points on the assignment board first''"

definition review_reply :: "review_error \<Rightarrow> reply" where
  "review_reply e =
     (case e of ReviewNotAllowedError m \<Rightarrow> HttpError 409 m | ScoresIncompleteError \<Rightarrow> HttpError 409 SCORES_MISSING
      | InvalidAction \<Rightarrow> HttpError 400 ''Invalid action'' | ReviewFailed x \<Rightarrow> server_error x)"

definition assignment_url :: "int \<Rightarrow> int \<Rightarrow> string" where
  "assignment_url subject_id asg = ''/teacher/subjects/'' @ str_of_int subject_id @ ''/assignments/'' @ str_of_int asg"

definition teacher_review_submission_action :: "user \<Rightarrow> int \<Rightarrow> string \<Rightarrow> string \<Rightarrow> db \<Rightarrow> db \<times> reply" where
  "teacher_review_submission_action u submission_id action reason d =
     (case get_submission d submission_id of
        None \<Rightarrow> (d, HttpError 404 '''')
      | Some sub \<Rightarrow>
          if sub_status sub \<noteq> AWAITING_TEACHER_REVIEW then (d, HttpError 404 '''')
          else
            (case assignment_of d sub of
               None \<Rightarrow> (d, ServerError AttributeError)
             | Some (_, asg) \<Rightarrow>
                 (case require_subject_access d (asg_subject_id asg) u of
                    Inl r \<Rightarrow> (d, r)
                  | Inr _ \<Rightarrow>
                      (case apply_review_decision sub action reason u d of
                         Inl e \<Rightarrow> (d, review_reply e)
                       | Inr (d', _) \<Rightarrow> (d', Redirect (assignment_url (asg_subject_id asg) (asg_id asg)))))))"

section \<open>Unsticking a submission\<close>

text \<open>The \<open>next_step\<close> of the payload, from the review mode: the text of a value that is no string never
  ends in one of the suffixes.\<close>

definition next_step_for :: "json \<Rightarrow> string" where
  "next_step_for review_mode =
     (case review_mode of
        JStr m \<Rightarrow>
          if suffix ''then_teacher'' m \<or> suffix ''ai_teacher'' m then ''teacher''
          else if suffix ''then_quiz'' m then ''quiz''
          else ''completed''
      | _ \<Rightarrow> ''completed'')"

datatype requeue_error = NothingToRecheck | RequeueTransition transition_error

definition requeue_checks :: "submission \<Rightarrow> db \<Rightarrow> requeue_error + db" where
  "requeue_checks sub d =
     (if sub_source_type sub = QUIZ_ONLY then Inl NothingToRecheck
      else
        case transition (sub_status sub) ''requeue_checks'' of
          Inl e \<Rightarrow> Inl (RequeueTransition e)
        | Inr st \<Rightarrow>
            Inr (add_outbox RUN_CHECKS [(''submission_id'', JInt (sub_id sub))]
              (store_submission (sub\<lparr>sub_status := st, sub_plugin_config_id := None, sub_test_results := None,
                 sub_ai_review := None\<rparr>) d)))"

definition not_now :: reply where
  "not_now = HttpError 409 ''Submission is not in a state that allows this action''"

definition teacher_rerun_checks :: "user \<Rightarrow> int \<Rightarrow> db \<Rightarrow> db \<times> reply" where
  "teacher_rerun_checks u submission_id d =
     (case load_submission_for_teacher d submission_id u of
        Inl r \<Rightarrow> (d, r)
      | Inr sub \<Rightarrow>
          (case requeue_checks sub d of
             Inl _ \<Rightarrow> (d, not_now)
           | Inr d' \<Rightarrow>
               (audit ''rerun_checks'' (Some (usr_id u)) (Some submission_id) d', Redirect (board_url d sub))))"

definition retry_payload :: "int \<Rightarrow> pydict \<Rightarrow> pydict" where
  "retry_payload i cfg =
     [(''submission_id'', JInt i),
      (''next_step'', JStr (next_step_for (dget cfg ''review_mode'' (JStr ''tests_only''))))]"

definition teacher_retry_ai_review :: "user \<Rightarrow> int \<Rightarrow> db \<Rightarrow> db \<times> reply" where
  "teacher_retry_ai_review u submission_id d =
     (case load_submission_for_teacher d submission_id u of
        Inl r \<Rightarrow> (d, r)
      | Inr sub \<Rightarrow>
          if sub_status sub \<noteq> AI_REVIEW_FAILED then (d, not_now)
          else
            (case assignment_of d sub of
               None \<Rightarrow> (d, ServerError AttributeError)
             | Some (_, asg) \<Rightarrow>
                 (audit ''retry_ai_review'' (Some (usr_id u)) (Some submission_id)
                    (add_outbox RUN_AI_REVIEW (retry_payload (sub_id sub) (asg_config asg)) d),
                  Redirect (board_url d sub))))"

definition teacher_skip_ai_review :: "user \<Rightarrow> int \<Rightarrow> db \<Rightarrow> db \<times> reply" where
  "teacher_skip_ai_review u submission_id d =
     (case load_submission_for_teacher d submission_id u of
        Inl r \<Rightarrow> (d, r)
      | Inr sub \<Rightarrow>
          if sub_status sub \<noteq> AI_REVIEW_FAILED then (d, not_now)
          else
            (case fire ''ai_review_skip_to_teacher'' sub d of
               Inl e \<Rightarrow> (d, server_error e)
             | Inr d' \<Rightarrow>
                 (audit ''ai_review_skip_to_teacher'' (Some (usr_id u)) (Some submission_id)
                    (enqueue_teacher_review_notification (sub_id sub) d'),
                  Redirect (board_url d sub))))"

section \<open>Many decisions at once\<close>

text \<open>One selected row: applied (\<open>True\<close>) or skipped. An exception the loop does not catch ends the
  request.\<close>

definition bulk_one ::
  "user \<Rightarrow> int \<Rightarrow> string \<Rightarrow> string \<Rightarrow> submission \<Rightarrow> db \<Rightarrow> review_error + (db \<times> bool)"
where
  "bulk_one u asg action reason sub d =
     (case get_sa d (sub_students_assignment_id sub) of
        None \<Rightarrow> Inl (ReviewFailed (FinalizeExn AttributeError))
      | Some sa \<Rightarrow>
          if sa_subjects_assignment_id sa \<noteq> asg then Inr (d, False)
          else if action = ''rerun'' then
            (case requeue_checks sub d of Inl _ \<Rightarrow> Inr (d, False) | Inr d' \<Rightarrow> Inr (d', True))
          else if sub_status sub \<noteq> AWAITING_TEACHER_REVIEW then Inr (d, False)
          else
            (case apply_review_decision sub action reason u d of
               Inl (ReviewNotAllowedError _) \<Rightarrow> Inr (d, False)
             | Inl ScoresIncompleteError \<Rightarrow> Inr (d, False)
             | Inl e \<Rightarrow> Inl e
             | Inr (d', _) \<Rightarrow> Inr (d', True)))"

text \<open>The objects were loaded by one query; each row is read when its turn comes, and no row is
  selected twice.\<close>

fun bulk_loop ::
  "user \<Rightarrow> int \<Rightarrow> string \<Rightarrow> string \<Rightarrow> int list \<Rightarrow> nat \<times> nat \<Rightarrow> db \<Rightarrow> review_error + (db \<times> nat \<times> nat)"
where
  "bulk_loop u asg action reason [] (applied, skipped) d = Inr (d, applied, skipped)"
| "bulk_loop u asg action reason (i # is) (applied, skipped) d =
     (case get_submission d i of
        None \<Rightarrow> bulk_loop u asg action reason is (applied, skipped) d
      | Some sub \<Rightarrow>
          bind_result (bulk_one u asg action reason sub d) (\<lambda>(d', ok).
            bulk_loop u asg action reason is (if ok then (applied + 1, skipped) else (applied, skipped + 1)) d'))"

definition teacher_bulk_board_action ::
  "user \<Rightarrow> int \<Rightarrow> int \<Rightarrow> string \<Rightarrow> int list \<Rightarrow> string \<Rightarrow> db \<Rightarrow> db \<times> reply"
where
  "teacher_bulk_board_action u subject_id asg action submission_ids reason d =
     (case require_subject_access d subject_id u of
        Inl r \<Rightarrow> (d, r)
      | Inr _ \<Rightarrow>
          if action \<notin> set [''approve'', ''reject'', ''rerun''] then (d, HttpError 400 ''Invalid action'')
          else if action = ''reject'' \<and> py_strip reason = '''' then (d, HttpError 422 ''A reason is required to reject'')
          else
            let selected = map sub_id (filter (\<lambda>s. sub_id s \<in> set submission_ids) (db_submissions d)) in
            (case bulk_loop u asg action reason selected (0, 0) d of
               Inl e \<Rightarrow> (d, review_reply e)
             | Inr (d', applied, skipped) \<Rightarrow>
                 (audit ''bulk_review'' (Some (usr_id u)) None d',
                  Redirect (assignment_url subject_id asg @ ''?bulk='' @ str_of_nat applied @ '','' @ str_of_nat skipped))))"

section \<open>Work points\<close>

text \<open>What the request must be before anything is read: an assignment of the subject that takes points,
  and an enrolled student.\<close>

definition scores_target :: "user \<Rightarrow> int \<Rightarrow> int \<Rightarrow> form \<Rightarrow> db \<Rightarrow> reply + (subjects_assignment \<times> int)" where
  "scores_target u subject_id asg_no form d =
     bind_result (require_subject_access d subject_id u) (\<lambda>_.
       case get_assignment d asg_no of
         None \<Rightarrow> Inl (HttpError 404 ''Assignment not found'')
       | Some asg \<Rightarrow>
           if asg_subject_id asg \<noteq> subject_id then Inl (HttpError 404 ''Assignment not found'')
           else if \<not> is_scored_mode (asg_config asg) then Inl (HttpError 409 ''This assignment takes no teacher points'')
           else
             (case parse_int (form_get form ''student_id'' '''') of
                None \<Rightarrow> Inl (HttpError 422 ''student_id is required'')
              | Some student_id \<Rightarrow>
                  if enrolled d subject_id student_id then Inr (asg, student_id)
                  else Inl (HttpError 404 ''Student is not enrolled'')))"

definition raises :: "py_exn + 'a \<Rightarrow> reply + 'a" where
  "raises r = map_sum ServerError id r"

text \<open>The draft the row showed: no unconfirmed name match may feed it, and it must be the one the
  page was rendered with. Vocabulary texts are named by their keys.\<close>

definition posted_draft :: "form \<Rightarrow> int option" where
  "posted_draft form =
     (let posted = py_strip (form_get form ''llm_grading_id'' '''') in
      if posted \<noteq> '''' \<and> list_all is_dec_digit posted then parse_int posted else None)"

definition shown_draft :: "subjects_assignment \<Rightarrow> int \<Rightarrow> form \<Rightarrow> db \<Rightarrow> reply + board_row option" where
  "shown_draft asg student_id form d =
     bind_result (raises (is_llm_graded (asg_config asg))) (\<lambda>graded.
       if \<not> graded then Inr None
       else
         bind_result (raises (llm_board_state d asg [student_id])) (\<lambda>state.
           case state of
             (_, shown) # _ \<Rightarrow>
               if br_needs_link_confirm shown then Inl (HttpError 409 ''confirm_student_first'')
               else if br_draft_grading_id shown \<noteq> posted_draft form then Inl (HttpError 409 ''draft_changed'')
               else Inr (Some shown)
           | [] \<Rightarrow> Inl (ServerError KeyError)))"

definition new_scores :: "criterion list \<Rightarrow> form \<Rightarrow> reply + (string \<times> int) list" where
  "new_scores crits form =
     (case parse_form crits (rev form) of
        Inl IntValueError \<Rightarrow> Inl (ServerError ValueError)
      | Inl (NotWholeNumber _ _) \<Rightarrow> Inl (HttpError 422 ''not a whole number'')
      | Inl (AboveMaximum _ _ _) \<Rightarrow> Inl (HttpError 422 ''above the maximum'')
      | Inr s \<Rightarrow> Inr s)"

text \<open>The student's own row, created when missing.\<close>

definition own_row :: "int \<Rightarrow> int \<Rightarrow> db \<Rightarrow> student_assignment \<times> db" where
  "own_row student_id asg_no d =
     (case find_sa d student_id asg_no of
        Some sa \<Rightarrow> (sa, d)
      | None \<Rightarrow>
          (\<lparr>sa_id = db_next d, sa_student_id = student_id, sa_subjects_assignment_id = asg_no, sa_grade = None,
            sa_variant = None, sa_teacher_scores = None\<rparr>, snd (add_sa student_id asg_no d)))"

definition set_scores :: "(string \<times> int) list \<Rightarrow> int \<Rightarrow> db \<Rightarrow> db" where
  "set_scores scores i d = upd_sa i (\<lambda>r. r\<lparr>sa_teacher_scores := Some scores\<rparr>) d"

text \<open>The audit row compares the points with the draft's, which reads every criterion of it.\<close>

definition approve_draft :: "int \<Rightarrow> user \<Rightarrow> board_row option \<Rightarrow> db \<Rightarrow> py_exn + db" where
  "approve_draft now u shown d =
     (case Option.bind shown (\<lambda>s. map_option (Pair s) (br_draft_grading_id s)) of
        None \<Rightarrow> Inr d
      | Some (s, grading_id) \<Rightarrow>
          if get_row lg_id grading_id (db_gradings d) = None then Inr d
          else
            bind_result (draft_criteria (br_draft s)) (\<lambda>crit.
            bind_result (map_result (\<lambda>(k, v). or_dict v) crit) (\<lambda>_.
              Inr (d\<lparr>db_gradings := upd_row lg_id grading_id
                     (\<lambda>g. g\<lparr>lg_approved_by := Some (usr_id u), lg_approved_at := Some now\<rparr>) (db_gradings d)\<rparr>))))"

text \<open>\<open>db.refresh(submission, attribute_names=["status"])\<close>: the status as the row has it now.\<close>

definition refreshed :: "db \<Rightarrow> submission \<Rightarrow> submission" where
  "refreshed d s = (case status_in d (sub_id s) of Some st \<Rightarrow> s\<lparr>sub_status := st\<rparr> | None \<Rightarrow> s)"

text \<open>A submission that waits for the points only is completed by them, a completed one is graded again.\<close>

definition settle_scores :: "bool \<Rightarrow> submission option \<Rightarrow> db \<Rightarrow> finalize_error + db" where
  "settle_scores full sub d =
     (case sub of
        None \<Rightarrow> Inr d
      | Some s \<Rightarrow>
          if \<not> full then Inr d
          else if sub_status s = AWAITING_TEACHER_REVIEW \<and> quiz_passed d s then
            bind_result (fire ''teacher_approve'' s d) (\<lambda>d1.
            bind_result (finalize_stored (sub_id s) d1) (\<lambda>d2.
              Inr (add_outbox SUBMISSION_REVIEWED (reviewed_payload (sub_id s) ''approve'' '''') d2)))
          else if sub_status s = COMPLETED then finalize_stored (sub_id s) d
          else Inr d)"

definition store_scores ::
  "int \<Rightarrow> user \<Rightarrow> subjects_assignment \<Rightarrow> int \<Rightarrow> board_row option \<Rightarrow> criterion list \<Rightarrow> (string \<times> int) list \<Rightarrow> db \<Rightarrow>
     reply + db"
where
  "store_scores now u asg student_id shown crits scores d =
     (let (own, d1) = own_row student_id (asg_id asg) d;
          (latest, d2) = latest_submission own d1;
          sub = map_option (refreshed d2) latest;
          full = is_complete crits (Some scores)
      in
        if (case sub of Some s \<Rightarrow> sub_status s = COMPLETED | None \<Rightarrow> False) \<and> \<not> full
        then Inl (HttpError 422 ''A graded work cannot lose a required score'')
        else
          let (ids, d3) = (case squad_of d2 (asg_subject_id asg) student_id False of
                             Some sq \<Rightarrow> member_sa_ids (sq_id sq) (asg_id asg) d2
                           | None \<Rightarrow> ([sa_id own], d2));
              d4 = fold (set_scores scores) ids d3
          in
            bind_result (raises (approve_draft now u shown d4)) (\<lambda>d5.
              map_sum server_error id
                (settle_scores full sub (audit ''teacher_scores_set'' (Some (usr_id u)) (Some (sa_id own)) d5))))"

definition save_scores :: "int \<Rightarrow> user \<Rightarrow> int \<Rightarrow> int \<Rightarrow> form \<Rightarrow> db \<Rightarrow> reply + db" where
  "save_scores now u subject_id asg_no form d =
     bind_result (scores_target u subject_id asg_no form d) (\<lambda>(asg, student_id).
     bind_result (shown_draft asg student_id form d) (\<lambda>shown.
     bind_result (raises (assignment_criteria asg)) (\<lambda>crits.
     bind_result (new_scores crits form) (\<lambda>scores.
       store_scores now u asg student_id shown crits scores d))))"

definition teacher_save_scores :: "int \<Rightarrow> user \<Rightarrow> int \<Rightarrow> int \<Rightarrow> form \<Rightarrow> db \<Rightarrow> db \<times> reply" where
  "teacher_save_scores now u subject_id asg_no form d =
     (case save_scores now u subject_id asg_no form d of
        Inl r \<Rightarrow> (d, r)
      | Inr d' \<Rightarrow> (d', Redirect (assignment_url subject_id asg_no)))"

section \<open>Decisions and the table\<close>

declare flows_trans [trans]

lemma status_in_store:
  "status_in (store_submission s d) j =
     (if sub_id s = j then map_option (\<lambda>_. sub_status s) (status_in d j) else status_in d j)"
  by (simp add: status_in_def get_submission_store option.map_comp comp_def)

lemma flows_store:
  assumes "\<And>t. status_in d (sub_id s) = Some t \<Longrightarrow> status_step\<^sup>*\<^sup>* t (sub_status s)"
  shows "flows d (store_submission s d)"
  unfolding flows_def by (auto simp: status_in_store assms)

text \<open>\<open>fire\<close> on an object whose status is the row's.\<close>

definition in_step :: "submission \<Rightarrow> db \<Rightarrow> bool" where
  "in_step s d \<longleftrightarrow> (\<forall>t. status_in d (sub_id s) = Some t \<longrightarrow> t = sub_status s)"

lemma flows_fire_step: "fire e s d = Inr d' \<Longrightarrow> in_step s d \<Longrightarrow> flows d d'"
  by (auto simp: fire_def in_step_def split: sum.splits intro!: flows_store r_into_rtranclp status_step.intros)

lemma in_step_get: "get_submission d i = Some s \<Longrightarrow> in_step s d"
  using get_row_Some [of sub_id i "db_submissions d" s]
  by (auto simp: in_step_def status_in_def get_submission_def)

lemma in_step_cong: "sub_id s' = sub_id s \<Longrightarrow> sub_status s' = sub_status s \<Longrightarrow> in_step s' d = in_step s d"
  by (simp add: in_step_def)

lemma in_step_refreshed: "in_step (refreshed d s) d"
  by (simp add: in_step_def refreshed_def split: option.split)

lemma decided_same:
  "decided action sub sa asg reason d = Inr (sub', event) \<Longrightarrow> sub_id sub' = sub_id sub \<and> sub_status sub' = sub_status sub"
  by (auto simp: decided_def bind_result_eq_Inr split: if_splits)

lemma apply_review_decision_Inr:
  assumes "apply_review_decision sub action reason u d = Inr (d', event)"
  obtains sa asg sub' d1 d2 where "assignment_of d sub = Some (sa, asg)"
    and "decided action sub sa asg (py_strip reason) d = Inr (sub', event)" and "fire event sub' d = Inr d1"
    and "if event = ''teacher_approve'' then finalize_stored (sub_id sub) d1 = Inr d2 else d2 = d1"
    and "d' = audit (''teacher_'' @ action @ ''_submission'') (Some (usr_id u)) (Some (sub_id sub))
      (add_outbox SUBMISSION_REVIEWED (reviewed_payload (sub_id sub) action (py_strip reason)) d2)"
  using assms
  by (auto simp: apply_review_decision_def Let_def bind_result_eq_Inr map_sum_eq_Inr split: option.splits if_splits)

lemma flows_review [flow]:
  assumes "apply_review_decision sub action reason u d = Inr (d', event)" and "in_step sub d"
  shows "flows d d'"
proof -
  obtain sa asg sub' d1 d2 where "assignment_of d sub = Some (sa, asg)"
    and s: "decided action sub sa asg (py_strip reason) d = Inr (sub', event)" and s': "fire event sub' d = Inr d1"
    and f: "if event = ''teacher_approve'' then finalize_stored (sub_id sub) d1 = Inr d2 else d2 = d1"
    and d': "d' = audit (''teacher_'' @ action @ ''_submission'') (Some (usr_id u)) (Some (sub_id sub))
      (add_outbox SUBMISSION_REVIEWED (reviewed_payload (sub_id sub) action (py_strip reason)) d2)"
    using assms(1) by (rule apply_review_decision_Inr)
  have "flows d d1" using flows_fire_step [OF s'] in_step_cong decided_same [OF s] assms(2) by blast
  also have "flows d1 d2" using f by (auto intro: flows_finalize split: if_splits)
  also have "flows d2 d'" unfolding d' by (rule flows_trans [OF flows_outbox flows_audit])
  finally show ?thesis .
qed

lemma flows_requeue [flow]: "requeue_checks sub d = Inr d' \<Longrightarrow> in_step sub d \<Longrightarrow> flows d d'"
proof -
  assume r: "requeue_checks sub d = Inr d'" and i: "in_step sub d"
  from r obtain st where st: "transition (sub_status sub) ''requeue_checks'' = Inr st"
    and d': "d' = add_outbox RUN_CHECKS [(''submission_id'', JInt (sub_id sub))]
      (store_submission (sub\<lparr>sub_status := st, sub_plugin_config_id := None, sub_test_results := None,
         sub_ai_review := None\<rparr>) d)"
    by (auto simp: requeue_checks_def split: if_splits sum.splits)
  from st have "status_step (sub_status sub) st" by (rule status_step.intros)
  with i have "flows d (store_submission (sub\<lparr>sub_status := st, sub_plugin_config_id := None, sub_test_results := None,
         sub_ai_review := None\<rparr>) d)" by (auto simp: in_step_def intro!: flows_store)
  then show "flows d d'" unfolding d' using flows_outbox by (rule flows_trans)
qed

lemma flows_bulk_one:
  assumes "bulk_one u asg action reason sub d = Inr (d', ok)" and "in_step sub d"
  shows "flows d d'"
  using assms
  by (auto simp: bulk_one_def split: option.splits if_splits sum.splits review_error.splits
      intro: flows_requeue flows_review)

lemma flows_bulk_loop: "bulk_loop u asg action reason is c d = Inr (d', c') \<Longrightarrow> flows d d'"
proof (induction u asg action reason "is" c d rule: bulk_loop.induct)
  case (1 u asg action reason a s d)
  then show ?case by simp
next
  case (2 u asg action reason i "is" a s d)
  show ?case
  proof (cases "get_submission d i")
    case None
    with 2 show ?thesis by simp
  next
    case (Some sub)
    with "2.prems" obtain d1 ok where b: "bulk_one u asg action reason sub d = Inr (d1, ok)"
      and l: "bulk_loop u asg action reason is (if ok then (a + 1, s) else (a, s + 1)) d1 = Inr (d', c')"
      by (auto simp: bind_result_eq_Inr)
    have "flows d d1" using b in_step_get [OF Some] by (rule flows_bulk_one)
    then show ?thesis using "2.IH"(2) [OF Some l] by (rule flows_trans)
  qed
qed

lemma set_scores_submissions [simp]: "db_submissions (fold (set_scores scores) is d) = db_submissions d"
  by (induction "is" arbitrary: d) (simp_all add: set_scores_def upd_sa_def)

lemma own_row_submissions: "own_row sid asg d = (own, d1) \<Longrightarrow> db_submissions d1 = db_submissions d"
  by (auto simp: own_row_def add_sa_def split: option.splits)

lemma approve_draft_submissions: "approve_draft now u shown d = Inr d' \<Longrightarrow> db_submissions d' = db_submissions d"
  by (auto simp: approve_draft_def bind_result_eq_Inr split: option.splits if_splits prod.splits)

lemma flows_settle_scores:
  assumes "settle_scores full sub d = Inr d'" and "\<And>s. sub = Some s \<Longrightarrow> in_step s d"
  shows "flows d d'"
  using assms
  by (auto simp: settle_scores_def bind_result_eq_Inr split: option.splits if_splits
      intro: flows_finalize flows_trans [OF flows_fire_step flows_trans [OF flows_finalize flows_outbox]])

text \<open>What a successful save went through.\<close>

lemma store_scores_Inr:
  assumes "store_scores now u asg student_id shown crits scores d = Inr d'"
  obtains own d1 latest d2 ids d3 d5 where "own_row student_id (asg_id asg) d = (own, d1)"
    and "latest_submission own d1 = (latest, d2)"
    and "\<And>s. latest = Some s \<Longrightarrow> sub_status (refreshed d2 s) = COMPLETED \<Longrightarrow> is_complete crits (Some scores)"
    and "(case squad_of d2 (asg_subject_id asg) student_id False of
            Some sq \<Rightarrow> member_sa_ids (sq_id sq) (asg_id asg) d2 | None \<Rightarrow> ([sa_id own], d2)) = (ids, d3)"
    and "approve_draft now u shown (fold (set_scores scores) ids d3) = Inr d5"
    and "settle_scores (is_complete crits (Some scores)) (map_option (refreshed d2) latest)
      (audit ''teacher_scores_set'' (Some (usr_id u)) (Some (sa_id own)) d5) = Inr d'"
proof -
  obtain own d1 where o': "own_row student_id (asg_id asg) d = (own, d1)" by fastforce
  obtain latest d2 where l: "latest_submission own d1 = (latest, d2)" by fastforce
  obtain ids d3 where t: "(case squad_of d2 (asg_subject_id asg) student_id False of
      Some sq \<Rightarrow> member_sa_ids (sq_id sq) (asg_id asg) d2 | None \<Rightarrow> ([sa_id own], d2)) = (ids, d3)" by fastforce
  note run = assms [unfolded store_scores_def o' l t Let_def split_conv]
  from run have c: "\<And>s. latest = Some s \<Longrightarrow> sub_status (refreshed d2 s) = COMPLETED \<Longrightarrow> is_complete crits (Some scores)"
    by (auto split: if_splits)
  from run obtain d5 where "approve_draft now u shown (fold (set_scores scores) ids d3) = Inr d5"
    "settle_scores (is_complete crits (Some scores)) (map_option (refreshed d2) latest)
      (audit ''teacher_scores_set'' (Some (usr_id u)) (Some (sa_id own)) d5) = Inr d'"
    by (auto simp: bind_result_eq_Inr map_sum_eq_Inr raises_def split: if_splits)
  with o' l c t show thesis by (rule that)
qed

section \<open>Points\<close>

text \<open>From \<open>d\<close> to \<open>d'\<close> every row of a student keeps its points.\<close>

definition points_kept :: "db \<Rightarrow> db \<Rightarrow> bool" where
  "points_kept d d' \<longleftrightarrow>
     (\<forall>s a r. find_sa d s a = Some r \<longrightarrow> (\<exists>r'. find_sa d' s a = Some r' \<and> sa_teacher_scores r' = sa_teacher_scores r))"

lemma points_kept_trans [trans]: "points_kept d d1 \<Longrightarrow> points_kept d1 d2 \<Longrightarrow> points_kept d d2"
  unfolding points_kept_def by metis

lemma points_kept_same: "db_sas d' = db_sas d \<Longrightarrow> points_kept d d'"
  by (simp add: points_kept_def find_sa_def)

lemma points_kept_grades: "points_kept d (fold (set_grade g) is d)"
proof (induction "is" arbitrary: d)
  case Nil
  then show ?case by (simp add: points_kept_same)
next
  case (Cons i "is")
  have "points_kept d (set_grade g i d)" by (simp add: points_kept_def find_sa_set_grade)
  with Cons show ?case by (auto intro: points_kept_trans)
qed

lemma points_kept_store:
  assumes "store_grade sub sa asg body sq members g d = (d', bd)"
  shows "points_kept d d'"
proof -
  obtain ids d1 where t: "(case sq of None \<Rightarrow> ([sa_id sa], d) | Some s \<Rightarrow> member_sa_ids (sq_id s) asg d) = (ids, d1)"
    by fastforce
  then have "points_kept d d1"
    using member_sa_ids_loop_spec [of asg _ d ids d1]
    by (auto simp: member_sa_ids_def points_kept_same points_kept_def split: option.splits)
  also have "points_kept d1 (fold (set_grade g) ids d1)" by (rule points_kept_grades)
  also have "points_kept (fold (set_grade g) ids d1) d'"
    using assms t by (auto simp: store_grade_def Let_def upd_submission_def intro!: points_kept_same)
  finally show ?thesis .
qed

lemma points_kept_finalize: "finalize_stored i d = Inr d' \<Longrightarrow> points_kept d d'"
proof -
  assume "finalize_stored i d = Inr d'"
  then obtain r where r: "finalize_grade i d = Inr (d', r)" by (auto simp: finalize_stored_def map_sum_eq_Inr)
  show ?thesis
  proof (cases r)
    case (Some bd)
    with r show ?thesis by (auto elim!: finalize_grade_Some intro: points_kept_store)
  next
    case None
    have "d' = d" using r unfolding None finalize_grade_def Let_def case_prod_unfold
      by (auto simp: bind_result_eq_Inr split: option.splits if_splits)
    then show ?thesis by (simp add: points_kept_same)
  qed
qed

text \<open>Writing the points.\<close>

lemma find_sa_set_scores:
  "find_sa (set_scores p i d) sid asg =
     map_option (\<lambda>r. if sa_id r = i then r\<lparr>sa_teacher_scores := Some p\<rparr> else r) (find_sa d sid asg)"
  unfolding find_sa_def set_scores_def upd_sa_def by (simp add: find_upd)

lemma find_sa_all_scores:
  assumes "find_sa d sid asg = Some r" and "sa_id r \<in> set is \<or> sa_teacher_scores r = Some p"
  shows "\<exists>r'. find_sa (fold (set_scores p) is d) sid asg = Some r' \<and> sa_teacher_scores r' = Some p"
  using assms
proof (induction "is" arbitrary: d r)
  case Nil
  then show ?case by simp
next
  case (Cons i "is")
  let ?r = "if sa_id r = i then r\<lparr>sa_teacher_scores := Some p\<rparr> else r"
  have "find_sa (set_scores p i d) sid asg = Some ?r" using Cons.prems(1) by (simp add: find_sa_set_scores)
  from Cons.IH [OF this] Cons.prems(2) show ?case by auto
qed

lemma grade_frame_own: "own_row sid asg d = (own, d1) \<Longrightarrow> grade_frame d d1"
  by (auto simp: own_row_def add_sa_def grade_frame_def split: option.splits)

lemma own_row_found:
  assumes "own_row sid asg d = (own, d1)"
  shows "find_sa d1 sid asg = Some own"
  using assms find_sa_add [of sid asg d "db_next d" "snd (add_sa sid asg d)" sid asg]
  by (auto simp: own_row_def add_sa_def find_sa_def split: option.splits)

lemma grade_frame_scope: "scope_sa_ids sid subj asg d = (ids, d') \<Longrightarrow> grade_frame d d'"
  using grade_frame_members [of d asg]
  by (auto simp: scope_sa_ids_def member_sa_ids_def split: option.splits) (metis snd_conv)

lemma grade_frame_latest:
  assumes "latest_submission sa d = (r, d')"
  shows "grade_frame d d'" and "find_sa d s a = Some x \<Longrightarrow> find_sa d' s a = Some x"
  using assms scope_finds [of _ _ _ d _ d' s a x]
  by (auto simp: latest_submission_def latest_submission_for_def Let_def
      split: option.splits prod.splits if_splits intro: grade_frame_scope)

lemma grade_frame_scores: "grade_frame d (fold (set_scores p) is d)"
proof (induction "is" arbitrary: d)
  case Nil
  then show ?case by simp
next
  case (Cons i "is")
  have "grade_frame d (set_scores p i d)" by (simp add: grade_frame_def set_scores_def upd_sa_def)
  with Cons show ?case by (auto intro: grade_frame_trans)
qed

text \<open>Settling: one submission may be completed, and nothing else moves.\<close>

lemma gradings_fire: "fire e s d = Inr d' \<Longrightarrow> db_gradings d' = db_gradings d \<and> db_sas d' = db_sas d"
  by (auto simp: fire_def store_submission_def upd_submission_def split: sum.splits)

lemma gradings_frame: "grade_frame d d' \<Longrightarrow> db_gradings d' = db_gradings d"
  by (cases d; cases d') (simp add: grade_frame_def)

lemma fire_approve_status:
  assumes "fire ''teacher_approve'' s d = Inr d'" and "in_step s d"
  shows "status_in d' j = (if sub_id s = j then map_option (\<lambda>_. COMPLETED) (status_in d j) else status_in d j)"
    and "sub_status s = AWAITING_TEACHER_REVIEW"
proof -
  from assms(1) obtain st where st: "transition (sub_status s) ''teacher_approve'' = Inr st"
    and d': "d' = store_submission (s\<lparr>sub_status := st\<rparr>) d" by (auto simp: fire_def split: sum.splits)
  from st have "sub_status s = AWAITING_TEACHER_REVIEW \<and> st = COMPLETED"
    by (cases "sub_status s") (auto simp: transition_table)
  then show "sub_status s = AWAITING_TEACHER_REVIEW"
    "status_in d' j = (if sub_id s = j then map_option (\<lambda>_. COMPLETED) (status_in d j) else status_in d j)"
    by (simp_all add: d' status_in_store)
qed

lemma settle_scores_effect:
  assumes "settle_scores full sub d = Inr d'" and "\<And>s. sub = Some s \<Longrightarrow> in_step s d"
  shows "points_kept d d'" and "db_gradings d' = db_gradings d"
    and "status_in d' j = status_in d j \<or>
      (\<exists>s. sub = Some s \<and> sub_id s = j \<and> full \<and> quiz_passed d s \<and>
        status_in d j = Some AWAITING_TEACHER_REVIEW \<and> status_in d' j = Some COMPLETED)"
proof -
  have "d' = d \<or> (\<exists>i. finalize_stored i d = Inr d') \<or>
      (\<exists>s d1 d2 p. sub = Some s \<and> full \<and> quiz_passed d s \<and> fire ''teacher_approve'' s d = Inr d1 \<and>
         finalize_stored (sub_id s) d1 = Inr d2 \<and> d' = add_outbox SUBMISSION_REVIEWED p d2)"
    using assms(1) by (auto simp: settle_scores_def bind_result_eq_Inr split: option.splits if_splits)
  then have "points_kept d d' \<and> db_gradings d' = db_gradings d \<and> (status_in d' j = status_in d j \<or>
      (\<exists>s. sub = Some s \<and> sub_id s = j \<and> full \<and> quiz_passed d s \<and>
        status_in d j = Some AWAITING_TEACHER_REVIEW \<and> status_in d' j = Some COMPLETED))"
  proof (elim disjE exE conjE)
    assume "d' = d"
    then show ?thesis by (simp add: points_kept_same)
  next
    fix i assume f: "finalize_stored i d = Inr d'"
    then have "status_in d' j = status_in d j"
      by (simp add: status_in_statuses grade_frame_statuses [OF grade_frame_finalize_stored])
    then show ?thesis
      using f points_kept_finalize gradings_frame [OF grade_frame_finalize_stored] by blast
  next
    fix s d1 d2 p
    assume h: "sub = Some s" "full" "quiz_passed d s" "fire ''teacher_approve'' s d = Inr d1"
      "finalize_stored (sub_id s) d1 = Inr d2" "d' = add_outbox SUBMISSION_REVIEWED p d2"
    have "points_kept d d1" using gradings_fire [OF h(4)] by (simp add: points_kept_same)
    also have "points_kept d1 d2" using h(5) by (rule points_kept_finalize)
    also have "points_kept d2 d'" by (simp add: h(6) add_outbox_def points_kept_same)
    finally have p: "points_kept d d'" .
    have "status_in d' j = status_in d2 j" by (simp add: h(6) add_outbox_def status_in_def get_submission_def)
    also have "\<dots> = status_in d1 j"
      by (simp add: status_in_statuses grade_frame_statuses [OF grade_frame_finalize_stored [OF h(5)]])
    finally have "status_in d' j = (if sub_id s = j then map_option (\<lambda>_. COMPLETED) (status_in d j) else status_in d j)"
      "sub_status s = AWAITING_TEACHER_REVIEW"
      using fire_approve_status [OF h(4) assms(2) [OF h(1)]] by simp_all
    then show ?thesis using p h gradings_fire [OF h(4)] gradings_frame [OF grade_frame_finalize_stored [OF h(5)]]
      using assms(2) [OF h(1)] by (cases "status_in d j") (auto simp: add_outbox_def in_step_def)
  qed
  then show "points_kept d d'" "db_gradings d' = db_gradings d"
    "status_in d' j = status_in d j \<or>
      (\<exists>s. sub = Some s \<and> sub_id s = j \<and> full \<and> quiz_passed d s \<and>
        status_in d j = Some AWAITING_TEACHER_REVIEW \<and> status_in d' j = Some COMPLETED)" by blast+
qed

lemma approve_draft_effect:
  assumes "approve_draft now u shown d = Inr d'"
  shows "\<exists>gs. d' = d\<lparr>db_gradings := gs\<rparr>"
    and "db_gradings d' = (case Option.bind shown br_draft_grading_id of
       None \<Rightarrow> db_gradings d
     | Some g \<Rightarrow> upd_row lg_id g (\<lambda>x. x\<lparr>lg_approved_by := Some (usr_id u), lg_approved_at := Some now\<rparr>) (db_gradings d))"
proof -
  have idle: "upd_row lg_id g f t = t" if "get_row lg_id g t = None" for g f and t :: "llm_grading list"
    using that by (induction t) (auto simp: upd_row_def split: if_splits)
  have self: "\<exists>gs. d = d\<lparr>db_gradings := gs\<rparr>" by (rule exI [of _ "db_gradings d"]) simp
  show "\<exists>gs. d' = d\<lparr>db_gradings := gs\<rparr>"
    using assms self by (auto simp: approve_draft_def bind_result_eq_Inr split: option.splits if_splits prod.splits)
  show "db_gradings d' = (case Option.bind shown br_draft_grading_id of
       None \<Rightarrow> db_gradings d
     | Some g \<Rightarrow> upd_row lg_id g (\<lambda>x. x\<lparr>lg_approved_by := Some (usr_id u), lg_approved_at := Some now\<rparr>) (db_gradings d))"
    using assms idle by (cases shown; cases "Option.bind shown br_draft_grading_id")
      (auto simp: approve_draft_def bind_result_eq_Inr split: if_splits)
qed

lemma save_scores_Inr:
  assumes "save_scores now u subject_id asg_no form d = Inr d'"
  obtains asg sid shown crits scores where "scores_target u subject_id asg_no form d = Inr (asg, sid)"
    and "shown_draft asg sid form d = Inr shown" and "assignment_criteria asg = Inr crits"
    and "new_scores crits form = Inr scores" and "store_scores now u asg sid shown crits scores d = Inr d'"
  using assms by (auto simp: save_scores_def bind_result_eq_Inr raises_def map_sum_eq_Inr)

lemma scores_target_Inr:
  assumes "scores_target u subject_id asg_no form d = Inr (asg, sid)"
  shows "get_assignment d asg_no = Some asg" "asg_subject_id asg = subject_id" "is_scored_mode (asg_config asg)"
    "parse_int (form_get form ''student_id'' '''') = Some sid" "enrolled d subject_id sid"
    "\<exists>s. get_subject d subject_id = Some s \<and> (usr_role u = ADMIN \<or> subj_owner_id s = Some (usr_id u))"
  using assms
  by (auto simp: scores_target_def bind_result_eq_Inr require_subject_access_def split: option.splits if_splits)

text \<open>Up to the approval of the draft, saving only writes rows of students; then everyone concerned has
  the points.\<close>

lemma scores_written:
  assumes "own_row sid asg d = (own, d1)" and "latest_submission own d1 = (latest, d2)"
    and "(case squad_of d2 subj sid False of
            Some sq \<Rightarrow> member_sa_ids (sq_id sq) asg d2 | None \<Rightarrow> ([sa_id own], d2)) = (ids, d3)"
  shows "grade_frame d (fold (set_scores p) ids d3)" and "grade_frame d d2"
    and "\<exists>r. find_sa (fold (set_scores p) ids d3) sid asg = Some r \<and> sa_teacher_scores r = Some p"
    and "squad_of d subj sid False = Some sq \<Longrightarrow> m \<in> set (members_of d (sq_id sq)) \<Longrightarrow>
      \<exists>r. find_sa (fold (set_scores p) ids d3) (mem_student_id m) asg = Some r \<and> sa_teacher_scores r = Some p"
proof -
  have f2: "grade_frame d d2"
    using grade_frame_own [OF assms(1)] grade_frame_latest(1) [OF assms(2)] by (rule grade_frame_trans)
  then show "grade_frame d d2" .
  have "grade_frame d2 d3"
    using assms(3) grade_frame_members [of d2 asg]
    by (auto simp: member_sa_ids_def split: option.splits) (metis snd_conv)
  with f2 show "grade_frame d (fold (set_scores p) ids d3)" by (blast intro: grade_frame_trans grade_frame_scores)
  have same: "squad_of d2 subj sid False = squad_of d subj sid False" "members_of d2 i = members_of d i" for i
    using f2 by (cases d; cases d2; simp add: grade_frame_def squad_of_def member_in_def members_of_def)+
  have own: "find_sa d2 sid asg = Some own"
    using own_row_found [OF assms(1)] grade_frame_latest(2) [OF assms(2)] by blast
  have mem: "\<exists>r. find_sa d3 (mem_student_id m) asg = Some r \<and> sa_id r \<in> set ids"
    if "squad_of d subj sid False = Some sq" "m \<in> set (members_of d (sq_id sq))" for sq m
    using assms(3) that member_sa_ids_loop_spec [of asg "members_of d2 (sq_id sq)" d2 ids d3]
    by (auto simp: same member_sa_ids_def)
  show "\<exists>r. find_sa (fold (set_scores p) ids d3) (mem_student_id m) asg = Some r \<and> sa_teacher_scores r = Some p"
    if "squad_of d subj sid False = Some sq" "m \<in> set (members_of d (sq_id sq))"
    using mem [OF that] find_sa_all_scores by blast
  show "\<exists>r. find_sa (fold (set_scores p) ids d3) sid asg = Some r \<and> sa_teacher_scores r = Some p"
  proof (cases "squad_of d subj sid False")
    case None
    with assms(3) have "ids = [sa_id own]" "d3 = d2" by (simp_all add: same)
    with own find_sa_all_scores [of d3 sid asg own ids p] show ?thesis by simp
  next
    case (Some sq)
    then obtain m where "m \<in> set (members_of d (sq_id sq))" "mem_student_id m = sid"
      using squad_of_Some [OF Some] by (auto simp: member_in_def list_ex_iff members_of_def)
    with mem [OF Some] find_sa_all_scores show ?thesis by blast
  qed
qed

lemma frame_fields:
  assumes "grade_frame d d'"
  shows "db_attempts d' = db_attempts d" "db_squads d' = db_squads d" "db_members d' = db_members d"
    "db_gradings d' = db_gradings d" "db_assignments d' = db_assignments d" "status_in d' j = status_in d j"
  using assms grade_frame_statuses [OF assms]
  by (cases d; cases d'; simp add: grade_frame_def status_in_statuses)+

text \<open>The whole effect of a successful save.\<close>

lemma store_scores_effect:
  assumes "store_scores now u asg sid shown crits scores d = Inr d'"
  shows "\<exists>r. find_sa d' sid (asg_id asg) = Some r \<and> sa_teacher_scores r = Some scores"
    and "squad_of d (asg_subject_id asg) sid False = Some sq \<Longrightarrow> m \<in> set (members_of d (sq_id sq)) \<Longrightarrow>
      \<exists>r. find_sa d' (mem_student_id m) (asg_id asg) = Some r \<and> sa_teacher_scores r = Some scores"
    and "db_gradings d' = (case Option.bind shown br_draft_grading_id of
       None \<Rightarrow> db_gradings d
     | Some g \<Rightarrow> upd_row lg_id g (\<lambda>x. x\<lparr>lg_approved_by := Some (usr_id u), lg_approved_at := Some now\<rparr>) (db_gradings d))"
    and "status_in d' j = status_in d j \<or> status_in d j = Some AWAITING_TEACHER_REVIEW \<and>
      is_complete crits (Some scores) \<and> status_in d' j = Some COMPLETED \<and>
      (\<exists>a \<in> set (db_attempts d). att_submission_id a = j \<and> att_is_passed a = Some True)"
proof -
  obtain own d1 latest d2 ids d3 d5 where
    o': "own_row sid (asg_id asg) d = (own, d1)" and l: "latest_submission own d1 = (latest, d2)"
    and "\<And>s. latest = Some s \<Longrightarrow> sub_status (refreshed d2 s) = COMPLETED \<Longrightarrow> is_complete crits (Some scores)"
    and t: "(case squad_of d2 (asg_subject_id asg) sid False of
            Some sq \<Rightarrow> member_sa_ids (sq_id sq) (asg_id asg) d2 | None \<Rightarrow> ([sa_id own], d2)) = (ids, d3)"
    and a: "approve_draft now u shown (fold (set_scores scores) ids d3) = Inr d5"
    and st: "settle_scores (is_complete crits (Some scores)) (map_option (refreshed d2) latest)
      (audit ''teacher_scores_set'' (Some (usr_id u)) (Some (sa_id own)) d5) = Inr d'"
    using assms by (rule store_scores_Inr) blast
  let ?d4 = "fold (set_scores scores) ids d3" and ?d6 = "audit ''teacher_scores_set'' (Some (usr_id u)) (Some (sa_id own)) d5"
  note w = scores_written [OF o' l t]
  obtain gs where d5: "d5 = ?d4\<lparr>db_gradings := gs\<rparr>" using approve_draft_effect(1) [OF a] by blast
  have st6: "status_in ?d6 i = status_in d i" for i
  proof -
    have "status_in ?d6 i = status_in ?d4 i" by (simp add: d5 audit_def status_in_def get_submission_def)
    then show ?thesis using frame_fields(6) [OF w(1)] by simp
  qed
  have "in_step (refreshed d2 s) ?d6" for s
    unfolding in_step_def st6 using frame_fields(6) [OF w(2)]
    by (auto simp: refreshed_def split: option.split)
  then have "\<And>s. map_option (refreshed d2) latest = Some s \<Longrightarrow> in_step s ?d6" by auto
  note e = settle_scores_effect [OF st this]
  have "points_kept ?d4 ?d6" by (rule points_kept_same) (simp add: d5 audit_def)
  also have "points_kept ?d6 d'" by (rule e(1))
  finally have keep: "points_kept ?d4 d'" .
  show "\<exists>r. find_sa d' sid (asg_id asg) = Some r \<and> sa_teacher_scores r = Some scores"
    using w(3) [of scores] keep unfolding points_kept_def by metis
  show "\<exists>r. find_sa d' (mem_student_id m) (asg_id asg) = Some r \<and> sa_teacher_scores r = Some scores"
    if "squad_of d (asg_subject_id asg) sid False = Some sq" "m \<in> set (members_of d (sq_id sq))"
    using w(4) [OF that, of scores] keep unfolding points_kept_def by metis
  have "db_gradings d' = db_gradings d5" using e(2) by (simp add: audit_def)
  then show "db_gradings d' = (case Option.bind shown br_draft_grading_id of
       None \<Rightarrow> db_gradings d
     | Some g \<Rightarrow> upd_row lg_id g (\<lambda>x. x\<lparr>lg_approved_by := Some (usr_id u), lg_approved_at := Some now\<rparr>) (db_gradings d))"
    using approve_draft_effect(2) [OF a] by (simp add: frame_fields(4) [OF w(1)] split: option.split)
  have att: "quiz_passed ?d6 s \<longleftrightarrow> (\<exists>a \<in> set (db_attempts d). att_submission_id a = sub_id s \<and> att_is_passed a = Some True)" for s
    using frame_fields(1) [OF w(1), of scores] by (simp add: quiz_passed_def list_ex_iff d5 audit_def)
  show "status_in d' j = status_in d j \<or> status_in d j = Some AWAITING_TEACHER_REVIEW \<and>
      is_complete crits (Some scores) \<and> status_in d' j = Some COMPLETED \<and>
      (\<exists>a \<in> set (db_attempts d). att_submission_id a = j \<and> att_is_passed a = Some True)"
  proof (cases "status_in d' j = status_in ?d6 j")
    case True
    then show ?thesis by (simp add: st6)
  next
    case False
    with e(3) obtain s where s: "map_option (refreshed d2) latest = Some s" "sub_id s = j" "is_complete crits (Some scores)"
      "quiz_passed ?d6 s" "status_in ?d6 j = Some AWAITING_TEACHER_REVIEW" "status_in d' j = Some COMPLETED" by blast
    then show ?thesis using att st6 by auto
  qed
qed

section \<open>Properties\<close>

text \<open>C13. Saved points are everyone's: the student and, in a squad, every member then has exactly the points
  of the form, on an assignment that takes points and under its criteria. No submission moves except one
  that waited for the teacher, whose quiz is passed and whose required points are now all there; it is
  completed. Only the owner of the subject or an admin can do this.\<close>

theorem saved_points_reach_the_squad:
  assumes "save_scores now u subject_id asg_no form d = Inr d'"
  shows "\<exists>asg sid crits scores. get_assignment d asg_no = Some asg \<and> is_scored_mode (asg_config asg) \<and>
    parse_int (form_get form ''student_id'' '''') = Some sid \<and> assignment_criteria asg = Inr crits \<and>
    parse_form crits (rev form) = Inr scores \<and>
    (\<exists>s. get_subject d subject_id = Some s \<and> (usr_role u = ADMIN \<or> subj_owner_id s = Some (usr_id u))) \<and>
    (\<exists>r. find_sa d' sid asg_no = Some r \<and> sa_teacher_scores r = Some scores) \<and>
    (\<forall>sq m. squad_of d subject_id sid False = Some sq \<and> m \<in> set (members_of d (sq_id sq)) \<longrightarrow>
       (\<exists>r. find_sa d' (mem_student_id m) asg_no = Some r \<and> sa_teacher_scores r = Some scores)) \<and>
    (\<forall>j. status_in d' j \<noteq> status_in d j \<longrightarrow>
       status_in d j = Some AWAITING_TEACHER_REVIEW \<and> status_in d' j = Some COMPLETED \<and>
       is_complete crits (Some scores) \<and>
       (\<exists>a \<in> set (db_attempts d). att_submission_id a = j \<and> att_is_passed a = Some True))"
proof -
  obtain asg sid shown crits scores where t: "scores_target u subject_id asg_no form d = Inr (asg, sid)"
    and "shown_draft asg sid form d = Inr shown" and c: "assignment_criteria asg = Inr crits"
    and n: "new_scores crits form = Inr scores" and st: "store_scores now u asg sid shown crits scores d = Inr d'"
    using assms by (rule save_scores_Inr)
  note t' = scores_target_Inr [OF t]
  have no: "asg_id asg = asg_no" using t'(1) by (simp add: get_assignment_def get_row_Some)
  have p: "parse_form crits (rev form) = Inr scores"
    using n by (auto simp: new_scores_def split: sum.splits score_error.splits)
  note e = store_scores_effect [OF st, unfolded no t'(2)]
  have squads: "\<forall>sq m. squad_of d subject_id sid False = Some sq \<and> m \<in> set (members_of d (sq_id sq)) \<longrightarrow>
       (\<exists>r. find_sa d' (mem_student_id m) asg_no = Some r \<and> sa_teacher_scores r = Some scores)"
    using e(2) by blast
  have moved: "\<forall>j. status_in d' j \<noteq> status_in d j \<longrightarrow>
       status_in d j = Some AWAITING_TEACHER_REVIEW \<and> status_in d' j = Some COMPLETED \<and>
       is_complete crits (Some scores) \<and>
       (\<exists>a \<in> set (db_attempts d). att_submission_id a = j \<and> att_is_passed a = Some True)"
    using e(4) by blast
  from t'(1,3,4,6) c p e(1) squads moved show ?thesis by blast
qed

text \<open>C14. A model's draft is approved only as it was seen: on an assignment graded by the model, saving
  succeeds only when the draft the board shows for the student is the one the form was rendered with
  and no unconfirmed name match feeds the row. That grading is marked approved by the teacher, now, and
  no other grading changes.\<close>

theorem drafts_are_approved_as_seen:
  assumes "save_scores now u subject_id asg_no form d = Inr d'" and "get_assignment d asg_no = Some asg"
    and "is_llm_graded (asg_config asg) = Inr True"
  shows "\<exists>sid row. llm_board_state d asg [sid] = Inr [(sid, row)] \<and>
    parse_int (form_get form ''student_id'' '''') = Some sid \<and>
    br_draft_grading_id row = posted_draft form \<and> \<not> br_needs_link_confirm row \<and>
    db_gradings d' = (case posted_draft form of
        None \<Rightarrow> db_gradings d
      | Some g \<Rightarrow> upd_row lg_id g (\<lambda>x. x\<lparr>lg_approved_by := Some (usr_id u), lg_approved_at := Some now\<rparr>) (db_gradings d))"
proof -
  obtain asg' sid shown crits scores where t: "scores_target u subject_id asg_no form d = Inr (asg', sid)"
    and sh: "shown_draft asg' sid form d = Inr shown" and "assignment_criteria asg' = Inr crits"
    and "new_scores crits form = Inr scores" and st: "store_scores now u asg' sid shown crits scores d = Inr d'"
    using assms(1) by (rule save_scores_Inr)
  have asg: "asg' = asg" using scores_target_Inr(1) [OF t] assms(2) by simp
  from sh assms(3) obtain state where b: "llm_board_state d asg [sid] = Inr state"
    and c: "(case state of
             (_, shown) # _ \<Rightarrow>
               if br_needs_link_confirm shown then Inl (HttpError 409 ''confirm_student_first'')
               else if br_draft_grading_id shown \<noteq> posted_draft form then Inl (HttpError 409 ''draft_changed'')
               else Inr (Some shown)
           | [] \<Rightarrow> Inl (ServerError KeyError)) = (Inr shown :: reply + board_row option)"
    unfolding shown_draft_def asg by (auto simp: bind_result_eq_Inr raises_def map_sum_eq_Inr)
  from b obtain row where state: "state = [(sid, row)]"
    by (auto simp: llm_board_state_def Let_def bind_result_eq_Inr map_sum_eq_Inr)
  with c have row: "\<not> br_needs_link_confirm row" "br_draft_grading_id row = posted_draft form" "shown = Some row"
    by (auto split: if_splits)
  have "db_gradings d' = (case posted_draft form of
        None \<Rightarrow> db_gradings d
      | Some g \<Rightarrow> upd_row lg_id g (\<lambda>x. x\<lparr>lg_approved_by := Some (usr_id u), lg_approved_at := Some now\<rparr>) (db_gradings d))"
    using store_scores_effect(3) [OF st] by (simp add: row)
  with b row(1,2) scores_target_Inr(4) [OF t] show ?thesis unfolding state by blast
qed

definition sample_points :: db where
  "sample_points = sample_graded_squad
     \<lparr>db_assignments := [sample_llm_assignment],
      db_submissions := map (\<lambda>s. s\<lparr>sub_status := QUIZ_SENT\<rparr>) (db_submissions sample_graded_squad),
      db_links := map (\<lambda>l. l\<lparr>lk_student_id := Some 1\<rparr>) (db_links sample_board),
      db_works := db_works sample_board, db_gradings := db_gradings sample_board\<rparr>"

definition sample_admin :: user where
  "sample_admin = \<lparr>usr_id = 9, usr_role = ADMIN, usr_student_id = None, usr_is_active = True, usr_username = ''t'', usr_email = None\<rparr>"

definition sample_form :: form where
  "sample_form = [(''student_id'', ''1''), (''llm_grading_id'', ''71''), (''score_style'', ''3''), (''score_defence'', ''2'')]"

lemma sample_save: "\<exists>d'. save_scores 100 sample_admin 1 10 sample_form sample_points = Inr d'"
proof -
  have "(case save_scores 100 sample_admin 1 10 sample_form sample_points of Inl _ \<Rightarrow> False | Inr _ \<Rightarrow> True)"
    by code_simp
  then show ?thesis by (auto split: sum.splits)
qed

theorem saved_points_reach_the_squad_witness:
  "\<exists>d' r. save_scores 100 sample_admin 1 10 sample_form sample_points = Inr d' \<and> find_sa d' 2 10 = Some r \<and>
     sa_teacher_scores r = Some [(''style'', 3), (''defence'', 2)]"
proof -
  obtain d' where d': "save_scores 100 sample_admin 1 10 sample_form sample_points = Inr d'" using sample_save by blast
  have "map_option (\<lambda>a. map_sum id (\<lambda>c. parse_form c (rev sample_form)) (assignment_criteria a))
      (get_assignment sample_points 10) = Some (Inr (Inr [(''style'', 3), (''defence'', 2)]))"
    "parse_int (form_get sample_form ''student_id'' '''') = Some 1"
    "map_option (\<lambda>s. map mem_student_id (members_of sample_points (sq_id s))) (squad_of sample_points 1 1 False) = Some [1, 2]"
    by code_simp+
  then obtain asg crits sq where a: "get_assignment sample_points 10 = Some asg"
    "assignment_criteria asg = Inr crits" "parse_form crits (rev sample_form) = Inr [(''style'', 3), (''defence'', 2)]"
    and sid: "parse_int (form_get sample_form ''student_id'' '''') = Some 1"
    and sq: "squad_of sample_points 1 1 False = Some sq" "map mem_student_id (members_of sample_points (sq_id sq)) = [1, 2]"
    by (auto simp: map_sum_eq_Inr)
  have "2 \<in> set (map mem_student_id (members_of sample_points (sq_id sq)))" by (simp add: sq(2))
  then obtain m where "m \<in> set (members_of sample_points (sq_id sq))" "mem_student_id m = 2" by auto
  with saved_points_reach_the_squad [OF d'] a sid sq(1) d' show ?thesis by fastforce
qed

theorem drafts_are_approved_as_seen_witness:
  "\<exists>d' row. llm_board_state sample_points sample_llm_assignment [1] = Inr [(1, row)] \<and>
     br_draft_grading_id row = Some 71 \<and>
     save_scores 100 sample_admin 1 10 sample_form sample_points = Inr d' \<and>
     db_gradings d' = upd_row lg_id 71 (\<lambda>x. x\<lparr>lg_approved_by := Some 9, lg_approved_at := Some 100\<rparr>) (db_gradings sample_board)"
proof -
  obtain d' where d': "save_scores 100 sample_admin 1 10 sample_form sample_points = Inr d'" using sample_save by blast
  have "get_assignment sample_points 10 = Some sample_llm_assignment" "is_llm_graded (asg_config sample_llm_assignment) = Inr True"
    "posted_draft sample_form = Some 71" "parse_int (form_get sample_form ''student_id'' '''') = Some 1"
    "db_gradings sample_points = db_gradings sample_board" "usr_id sample_admin = 9"
    by code_simp+
  with drafts_are_approved_as_seen [OF d' this(1,2)] d' show ?thesis by auto
qed



text \<open>Tasks that send no message.\<close>

definition sends_nothing :: "task \<Rightarrow> bool" where
  "sends_nothing t \<longleftrightarrow> (\<forall>d. db_outbox (fst (t d)) = db_outbox d)"

named_theorems silent "tasks that send nothing"

lemma silent_then [silent]: "sends_nothing t \<Longrightarrow> sends_nothing u \<Longrightarrow> sends_nothing (task_then t u)"
  unfolding sends_nothing_def task_then_def by (auto split: prod.splits option.splits) (metis fst_conv)+

lemma silent_fire [silent]: "sends_nothing (task_fire i e)"
  by (auto simp: sends_nothing_def task_fire_def store_submission_def upd_submission_def split: option.splits sum.splits)

lemma silent_finalize [silent]: "sends_nothing (task_finalize i)"
proof -
  have "db_outbox d' = db_outbox d" if "finalize_grade i d = Inr (d', x)" for d d' x
    using grade_frame_finalize [OF that] by (cases d; cases d') (simp add: grade_frame_def)
  then show ?thesis by (auto simp: sends_nothing_def task_finalize_def split: sum.splits)
qed

lemma silent_do [silent]: "(\<And>d. db_outbox (f d) = db_outbox d) \<Longrightarrow> sends_nothing (task_do f)"
  by (simp add: sends_nothing_def task_do_def)

lemma queue_outbox [simp]: "db_outbox (enqueue_teacher_review_notification i d) = db_outbox d"
  by (subst enqueue_only) simp

lemma notify_check_outbox [simp]: "db_outbox (notify_check v s d) = db_outbox d"
  by (auto simp: notify_check_def push_notification_def split: option.splits)

lemma silent_hand_over [silent]: "sends_nothing (hand_over i e)"
  unfolding hand_over_def by (intro silent) simp

lemma sent_review:
  assumes "msg \<in> set (db_outbox (fst (task_then (task_fire i e) (task_do (enqueue_ai_review i n)) d))) - set (db_outbox d)"
  shows "out_payload msg = (''submission_id'', JInt i) # (case n of Some s \<Rightarrow> [(''next_step'', JStr s)] | None \<Rightarrow> [])"
proof -
  obtain d1 x where f: "task_fire i e d = (d1, x)" by fastforce
  then have "db_outbox d1 = db_outbox d" using silent_fire [of i e] by (metis sends_nothing_def fst_conv)
  with assms f show ?thesis by (cases x) (auto simp: task_then_def task_do_def enqueue_ai_review_def add_outbox_def)
qed

text \<open>A retried AI review goes where the first would have gone: the \<open>next_step\<close> that
  \<open>teacher_retry_ai_review\<close> derives from the review mode is the one the check task sent for that mode.\<close>

theorem retry_routes_as_first_review:
  assumes "advance_after_tests sub (JStr m) d = (d', r)" and "msg \<in> set (db_outbox d') - set (db_outbox d)"
  shows "dget (out_payload msg) ''next_step'' (JStr ''completed'') =
    dget (retry_payload (sub_id sub) [(''review_mode'', JStr m)]) ''next_step'' (JStr ''completed'')"
proof -
  have d': "d' = fst (advance_after_tests sub (JStr m) d)" by (simp add: assms(1))
  have none: "\<not> sends_nothing (advance_after_tests sub (JStr m))"
    using assms(2) unfolding d' sends_nothing_def by (metis Diff_iff)
  have "m \<in> {''tests_then_ai'', ''tests_then_ai_then_teacher'', ''tests_then_ai_teacher'', ''tests_then_ai_then_quiz''}"
    using none by (auto simp: advance_after_tests_def Let_def intro!: silent split: if_splits)
  moreover define n where "n = (if m = ''tests_then_ai'' then None else Some (next_step_for (JStr m)))"
  ultimately have
    n: "advance_after_tests sub (JStr m) =
      task_then (task_fire (sub_id sub) ''test_passed_ai'') (task_do (enqueue_ai_review (sub_id sub) n))"
    and step: "next_step_for (JStr m) = (case n of Some t \<Rightarrow> t | None \<Rightarrow> ''completed'')"
    by (auto simp: advance_after_tests_def Let_def next_step_for_def suffix_def)
  from assms(2) have "out_payload msg =
      (''submission_id'', JInt (sub_id sub)) # (case n of Some s \<Rightarrow> [(''next_step'', JStr s)] | None \<Rightarrow> [])"
    unfolding d' n by (rule sent_review)
  then show ?thesis by (auto simp: retry_payload_def dget_def step split: option.split)
qed

theorem retry_routes_as_first_review_witness:
  "next_step_for (JStr ''tests_then_ai_then_quiz'') = ''quiz''"
proof -
  let ?d = "sample_graded_squad\<lparr>db_submissions := map (\<lambda>s. s\<lparr>sub_status := TESTING\<rparr>) (db_submissions sample_graded_squad)\<rparr>"
  let ?sub = "hd (db_submissions ?d)"
  let ?msg = "\<lparr>out_id = 100, out_event_type = RUN_AI_REVIEW,
        out_payload = [(''submission_id'', JInt 30), (''next_step'', JStr ''quiz'')],
        out_state = Outbox_PENDING, out_retry_count = 0, out_finished_at = None, out_error_message = None\<rparr>"
  have "db_outbox (fst (advance_after_tests ?sub (JStr ''tests_then_ai_then_quiz'') ?d)) = [?msg]" "db_outbox ?d = []"
    by code_simp+
  then have "?msg \<in> set (db_outbox (fst (advance_after_tests ?sub (JStr ''tests_then_ai_then_quiz'') ?d))) - set (db_outbox ?d)"
    by (simp only:) simp
  from retry_routes_as_first_review [OF surjective_pairing this] show ?thesis by (simp add: retry_payload_def dget_def)
qed

section \<open>The teacher's requests\<close>

datatype teacher_request =
    ReviewOne int string string
  | ReviewMany int int string "int list" string
  | RerunChecks int
  | RetryAiReview int
  | SkipAiReview int
  | GrantAttempt int "int option"
  | RuleOnReport int string string
  | SaveScores int int form

fun serve_teacher :: "int \<times> user \<times> teacher_request \<Rightarrow> db \<Rightarrow> db" where
  "serve_teacher (now, u, ReviewOne i action reason) d = fst (teacher_review_submission_action u i action reason d)"
| "serve_teacher (now, u, ReviewMany s a action is reason) d = fst (teacher_bulk_board_action u s a action is reason d)"
| "serve_teacher (now, u, RerunChecks i) d = fst (teacher_rerun_checks u i d)"
| "serve_teacher (now, u, RetryAiReview i) d = fst (teacher_retry_ai_review u i d)"
| "serve_teacher (now, u, SkipAiReview i) d = fst (teacher_skip_ai_review u i d)"
| "serve_teacher (now, u, GrantAttempt i s) d = fst (grant_route i u s d)"
| "serve_teacher (now, u, RuleOnReport i action note') d = fst (resolve now u i action note' d)"
| "serve_teacher (now, u, SaveScores s a form) d = fst (teacher_save_scores now u s a form d)"

lemma load_in_step: "load_submission_for_teacher d i u = Inr sub \<Longrightarrow> in_step sub d"
  by (auto simp: load_submission_for_teacher_def split: option.splits if_splits intro: in_step_get)

lemma flows_review_one: "flows d (fst (teacher_review_submission_action u i action reason d))"
  by (auto simp: teacher_review_submission_action_def split: option.splits sum.splits
      intro: flows_review in_step_get)

lemma flows_review_many: "flows d (fst (teacher_bulk_board_action u s a action is reason d))"
  by (auto simp: teacher_bulk_board_action_def Let_def split: sum.splits
      intro: flows_trans [OF flows_bulk_loop flows_audit])

lemma flows_rerun: "flows d (fst (teacher_rerun_checks u i d))"
  by (auto simp: teacher_rerun_checks_def split: sum.splits
      intro: flows_trans [OF flows_requeue flows_audit] load_in_step)

lemma flows_retry: "flows d (fst (teacher_retry_ai_review u i d))"
  by (auto simp: teacher_retry_ai_review_def split: sum.splits option.splits
      intro: flows_trans [OF flows_outbox flows_audit])

lemma flows_skip: "flows d (fst (teacher_skip_ai_review u i d))"
  by (auto simp: teacher_skip_ai_review_def split: sum.splits
      intro: flows_trans [OF flows_fire_step flows_trans [OF flows_queue flows_audit]] load_in_step)

lemma flows_save_scores: "flows d (fst (teacher_save_scores now u s a form d))"
proof (cases "save_scores now u s a form d")
  case (Inl r)
  then show ?thesis by (simp add: teacher_save_scores_def)
next
  case (Inr d')
  obtain asg sid shown crits scores where "scores_target u s a form d = Inr (asg, sid)"
    and "shown_draft asg sid form d = Inr shown" and "assignment_criteria asg = Inr crits"
    and "new_scores crits form = Inr scores" and st: "store_scores now u asg sid shown crits scores d = Inr d'"
    using Inr by (rule save_scores_Inr)
  show ?thesis using store_scores_effect(4) [OF st] unfolding flows_def
    by (auto simp: teacher_save_scores_def Inr) (metis option.inject r_into_rtranclp rtranclp.rtrancl_refl status_step_table(8) insertI1)
qed

lemma flows_grant: "flows d (fst (grant_route i u s d))"
proof -
  have "flows d (store_submission sub' d)" if "grant_extra_attempt d sub t = Inr (sub', n)" "in_step sub d" for sub sub' t n
    using that by (auto elim!: grant_Inr simp: in_step_def intro!: flows_store)
  moreover have "flows d (notify_grant t asg d)" for t asg d
    by (auto simp: notify_grant_def intro: flows_push split: option.split)
  ultimately have step: "flows d (notify_grant t' asg (audit a b c (store_submission sub' d)))"
    if "grant_extra_attempt d sub t = Inr (sub', n)" "in_step sub d" for sub sub' t n t' asg a b c
    using that flows_audit flows_trans by meson
  show ?thesis
    by (auto simp: grant_route_def Let_def split: sum.splits option.splits grant_error.splits intro!: step load_in_step)
qed

lemma flows_resolve_dispute:
  assumes "resolve_dispute now x b note' uid d = Inr (d', rs, ids)"
  shows "flows d d'"
proof (cases "b \<and> dis_plugin_config_id x \<noteq> None \<and> dis_plugin_config_version x \<noteq> None")
  case True
  then obtain c v where "b" "dis_plugin_config_id x = Some c" "dis_plugin_config_version x = Some v" by auto
  with assms accepted_ruling [of now x note' uid d d' rs ids c v] show ?thesis by (metis flows_all_advance)
next
  case False
  with assms have "d' = notify_students x b note' []
      (d\<lparr>db_disputes := upd_row dis_id (dis_id x) (ruled now b note' uid) (db_disputes d)\<rparr>)"
    by (auto simp: resolve_dispute_def Let_def split: option.splits if_splits)
  then show ?thesis by (intro flows_same) simp
qed

lemma flows_resolve: "flows d (fst (resolve now u i action note' d))"
  by (auto simp: resolve_def Let_def split: option.splits sum.splits finalize_error.splits
      intro: flows_trans [OF flows_resolve_dispute flows_audit])

lemma flows_teacher: "flows d (serve_teacher r d)"
  by (cases "(r, d)" rule: serve_teacher.cases) (simp_all add: flows_review_one flows_review_many flows_rerun flows_retry
      flows_skip flows_grant flows_resolve flows_save_scores)

interpretation teacher: status_service serve_teacher
  by unfold_locales (rule flows_teacher)

end
