(* ===== verification/Mail.thy ===== *)
theory Mail
  imports AiReview
begin

text \<open>
  The tasks of the worker that write to students (\<open>workers/tasks/notification_tasks.py\<close>,
  \<open>workers/tasks/send_credentials_tasks.py\<close>), the dispatcher that fans a message out to the configured
  channels (\<open>services/notifications/dispatcher.py\<close>) and the opening of sealed secrets
  (\<open>core/sealed.py\<close>).

  Outside the program, and parameters of the model (\<open>post_office\<close>): whether a provider accepts a
  message, and decryption. A message names its template and what fills it.
\<close>

section \<open>Channels\<close>

datatype channel = Resend | Brevo | Smtp

text \<open>The settings that matter here, and the outside.\<close>

record post_office =
  po_resend_api_key :: "string option"
  po_brevo_api_key :: "string option"
  po_smtp_host :: "string option"
  po_app_base_url :: string
  po_accepts :: "channel \<Rightarrow> mail \<Rightarrow> bool"
  po_decrypt :: "string \<Rightarrow> string option"

definition is_set :: "string option \<Rightarrow> bool" where
  "is_set v = (v \<noteq> None \<and> v \<noteq> Some '''')"

definition build_dispatcher :: "post_office \<Rightarrow> channel list" where
  "build_dispatcher po =
     (if is_set (po_resend_api_key po) then [Resend] else []) @
     (if is_set (po_brevo_api_key po) then [Brevo] else []) @
     (if is_set (po_smtp_host po) then [Smtp] else [])"

text \<open>A channel that refuses ends the round; what was sent before stays sent.\<close>

fun notify_channels :: "post_office \<Rightarrow> mail \<Rightarrow> channel list \<Rightarrow> task" where
  "notify_channels po m [] d = (d, None)"
| "notify_channels po m (c # cs) d =
     (if po_accepts po c m then notify_channels po m cs (d\<lparr>db_mails := db_mails d @ [m]\<rparr>)
      else (d, Some (RuntimeError ''delivery failed'')))"

definition mail_to :: "post_office \<Rightarrow> mail \<Rightarrow> task" where
  "mail_to po m = notify_channels po m (build_dispatcher po)"

definition base_url :: "post_office \<Rightarrow> string" where
  "base_url po = rev (dropWhile (\<lambda>c. c = CHR ''/'') (rev (po_app_base_url po)))"

section \<open>Preferences\<close>

definition is_email_enabled :: "db \<Rightarrow> int \<Rightarrow> notification_case \<Rightarrow> bool" where
  "is_email_enabled d student_id c =
     (case find (\<lambda>p. np_student_id p = student_id \<and> np_case p = c) (db_preferences d) of
        None \<Rightarrow> True
      | Some p \<Rightarrow> np_enabled p)"

section \<open>Secrets\<close>

definition SEALED_PREFIX :: string where
  "SEALED_PREFIX = ''sealed:''"

definition is_sealed :: "json \<Rightarrow> bool" where
  "is_sealed v = (case v of JStr s \<Rightarrow> take (length SEALED_PREFIX) s = SEALED_PREFIX | _ \<Rightarrow> False)"

definition unseal :: "post_office \<Rightarrow> json \<Rightarrow> py_exn + string" where
  "unseal po v =
     (case v of
        JStr s \<Rightarrow>
          if is_sealed v then
            (case po_decrypt po (drop (length SEALED_PREFIX) s) of Some t \<Rightarrow> Inr t | None \<Rightarrow> Inl ValueError)
          else Inl ValueError
      | _ \<Rightarrow> Inl ValueError)"

definition SECRET_KEYS :: "string list" where
  "SECRET_KEYS = [''password_sealed'', ''password'', ''token_sealed'']"

definition redact_credentials :: "pydict \<Rightarrow> pydict" where
  "redact_credentials payload = map (\<lambda>(k, v). (k, if k \<in> set SECRET_KEYS then JStr ''<sent>'' else v)) payload"

section \<open>Payloads\<close>

text \<open>\<open>payload[k]\<close>.\<close>

definition payload_item :: "pydict \<Rightarrow> string \<Rightarrow> py_exn + json" where
  "payload_item payload k = (case map_of payload k of Some v \<Rightarrow> Inr v | None \<Rightarrow> Inl KeyError)"

text \<open>A row looked up by an id of the payload: a value that is no integer matches no row.\<close>

definition row_of_json :: "(int \<Rightarrow> 'r option) \<Rightarrow> json \<Rightarrow> 'r option" where
  "row_of_json get v = (case v of JInt i \<Rightarrow> get i | _ \<Rightarrow> None)"

definition task_of :: "py_exn + task \<Rightarrow> task" where
  "task_of r = (case r of Inl e \<Rightarrow> task_raise (TaskExn e) | Inr t \<Rightarrow> t)"

section \<open>Account credentials\<close>

definition password_from :: "post_office \<Rightarrow> pydict \<Rightarrow> py_exn + json" where
  "password_from po payload =
     (let sealed_value = dget payload ''password_sealed'' JNull in
      if sealed_value \<noteq> JNull then map_sum id JStr (unseal po sealed_value)
      else payload_item payload ''password'')"

definition json_text :: "json \<Rightarrow> string" where
  "json_text v = (case v of JStr s \<Rightarrow> s | _ \<Rightarrow> '''')"

definition execute_send_credentials_task :: "post_office \<Rightarrow> pydict \<Rightarrow> task" where
  "execute_send_credentials_task po payload =
     task_of
       (bind_result (payload_item payload ''student_email'') (\<lambda>student_email.
        bind_result (payload_item payload ''full_name'') (\<lambda>full_name.
        bind_result (payload_item payload ''username'') (\<lambda>username.
        bind_result (password_from po payload) (\<lambda>password.
          Inr (mail_to po
            \<lparr>ml_recipient = json_text student_email, ml_template = ''credentials'',
             ml_args = [(''full_name'', full_name), (''username'', username), (''password'', password),
               (''login_url'', JStr (base_url po @ ''/auth/login''))]\<rparr>))))))"

section \<open>A reviewed submission\<close>

text \<open>Every member of the squad the submission belongs to, or its student.\<close>

definition students_of :: "db \<Rightarrow> submission \<Rightarrow> student_assignment \<Rightarrow> student list" where
  "students_of d sub sa =
     List.map_filter (get_student d)
       (case squad_for_submission d sub of
          Some sq \<Rightarrow> map mem_student_id (members_of d (sq_id sq))
        | None \<Rightarrow> [sa_student_id sa])"

definition member_sa_id :: "db \<Rightarrow> student_assignment \<Rightarrow> subjects_assignment \<Rightarrow> student \<Rightarrow> int" where
  "member_sa_id d sa asg s =
     (if stu_id s \<noteq> sa_student_id sa then
        (case find_sa d (stu_id s) (asg_id asg) of Some r \<Rightarrow> sa_id r | None \<Rightarrow> sa_id sa)
      else sa_id sa)"

definition verb_of :: "string \<Rightarrow> string" where
  "verb_of action = (if action = ''approve'' then ''approved'' else ''rejected'')"

definition reviewed_bell :: "student_assignment \<Rightarrow> subjects_assignment \<Rightarrow> string \<Rightarrow> string \<Rightarrow> student \<Rightarrow> db \<Rightarrow> db" where
  "reviewed_bell sa asg action reason s d =
     (case user_of_student d (stu_id s) of
        None \<Rightarrow> d
      | Some user_id \<Rightarrow>
          push_notification user_id (''Your submission was '' @ verb_of action)
            ((''title'', asg_title asg) # (if reason \<noteq> '''' \<and> action = ''reject'' then [(''reason'', reason)] else []))
            (''/portal/subjects/'' @ str_of_int (asg_subject_id asg) @ ''/assignments/'' @
              str_of_int (member_sa_id d sa asg s)) d)"

definition reviewed_mail ::
  "post_office \<Rightarrow> db \<Rightarrow> student_assignment \<Rightarrow> subjects_assignment \<Rightarrow> string \<Rightarrow> string \<Rightarrow> student \<Rightarrow> mail"
where
  "reviewed_mail po d sa asg action reason s =
     \<lparr>ml_recipient = stu_email s, ml_template = ''submission_reviewed'',
      ml_args = [(''full_name'', JStr (stu_full_name s)), (''assignment_title'', JStr (asg_title asg)),
        (''action'', JStr action), (''reason'', JStr reason),
        (''portal_url'', JStr (base_url po @ ''/portal/subjects/'' @ str_of_int (asg_subject_id asg) @ ''/assignments/'' @
           str_of_int (member_sa_id d sa asg s)))]\<rparr>"

definition tell_member ::
  "post_office \<Rightarrow> student_assignment \<Rightarrow> subjects_assignment \<Rightarrow> string \<Rightarrow> string \<Rightarrow> student \<Rightarrow> task"
where
  "tell_member po sa asg action reason s d =
     (let d1 = reviewed_bell sa asg action reason s d in
      if is_email_enabled d (stu_id s) Case_SUBMISSION_CHECKED
      then mail_to po (reviewed_mail po d sa asg action reason s) d1
      else (d1, None))"

fun tasks_each :: "('a \<Rightarrow> task) \<Rightarrow> 'a list \<Rightarrow> task" where
  "tasks_each f [] = task_skip"
| "tasks_each f (x # xs) = task_then (f x) (tasks_each f xs)"

definition tell_reviewed :: "post_office \<Rightarrow> submission option \<Rightarrow> string \<Rightarrow> string \<Rightarrow> task" where
  "tell_reviewed po sub action reason d =
     (case sub of
        None \<Rightarrow> (d, None)
      | Some s \<Rightarrow>
          (case assignment_of d s of
             None \<Rightarrow> (d, Some (TaskExn AttributeError))
           | Some (sa, asg) \<Rightarrow> tasks_each (tell_member po sa asg action reason) (students_of d s sa) d))"

definition execute_submission_reviewed_task :: "post_office \<Rightarrow> pydict \<Rightarrow> task" where
  "execute_submission_reviewed_task po payload d =
     task_of
       (bind_result (payload_item payload ''submission_id'') (\<lambda>i.
        bind_result (payload_item payload ''action'') (\<lambda>action.
          Inr (tell_reviewed po (row_of_json (get_submission d) i) (json_text action)
                 (json_text (dget payload ''reason'' (JStr ''''))))))) d"

section \<open>A quiz result\<close>

definition result_mail :: "post_office \<Rightarrow> subjects_assignment \<Rightarrow> student \<Rightarrow> pydict \<Rightarrow> json \<Rightarrow> mail" where
  "result_mail po asg s figures attempt_id =
     \<lparr>ml_recipient = stu_email s, ml_template = ''quiz_result'',
      ml_args = [(''full_name'', JStr (stu_full_name s)), (''assignment_title'', JStr (asg_title asg))] @ figures @
        [(''portal_url'', JStr (base_url po @ ''/portal/quiz/'' @
            (case attempt_id of JInt i \<Rightarrow> str_of_int i | _ \<Rightarrow> '''') @ ''/result''))]\<rparr>"

text \<open>The student whose attempt it was: the payload names the member of a squad.\<close>

definition result_student :: "db \<Rightarrow> student \<Rightarrow> json \<Rightarrow> student" where
  "result_student d s member_id =
     (if member_id = JNull \<or> member_id = JInt (stu_id s) then s
      else case row_of_json (get_student d) member_id of Some m \<Rightarrow> m | None \<Rightarrow> s)"

text \<open>The submission with its student and assignment, as the task loads them; a submission that is gone
  ends the task quietly.\<close>

definition with_submission ::
  "submission option \<Rightarrow> (submission \<Rightarrow> student_assignment \<Rightarrow> subjects_assignment \<Rightarrow> student \<Rightarrow> task) \<Rightarrow> task"
where
  "with_submission sub f d =
     (case sub of
        None \<Rightarrow> (d, None)
      | Some s \<Rightarrow>
          (case assignment_of d s of
             None \<Rightarrow> (d, Some (TaskExn AttributeError))
           | Some (sa, asg) \<Rightarrow>
               (case get_student d (sa_student_id sa) of
                  None \<Rightarrow> (d, Some (TaskExn AttributeError))
                | Some stu \<Rightarrow> f s sa asg stu d)))"

definition execute_quiz_result_task :: "post_office \<Rightarrow> pydict \<Rightarrow> task" where
  "execute_quiz_result_task po payload d =
     task_of
       (bind_result (payload_item payload ''submission_id'') (\<lambda>i.
        bind_result (payload_item payload ''score'') (\<lambda>score.
        bind_result (payload_item payload ''max_score'') (\<lambda>max_score.
        bind_result (payload_item payload ''is_passed'') (\<lambda>is_passed.
        bind_result (payload_item payload ''attempt_id'') (\<lambda>attempt_id.
          Inr (with_submission (row_of_json (get_submission d) i) (\<lambda>sub sa asg stu d.
            mail_to po (result_mail po asg (result_student d stu (dget payload ''student_id'' JNull))
              [(''score'', score), (''max_score'', max_score), (''is_passed'', is_passed),
               (''attempts_left'', dget payload ''attempts_left'' JNull)] attempt_id) d)))))))) d"

section \<open>A deadline reminder\<close>

definition reminder_mail :: "post_office \<Rightarrow> student_assignment \<Rightarrow> subjects_assignment \<Rightarrow> subject \<Rightarrow> student \<Rightarrow> json \<Rightarrow> mail" where
  "reminder_mail po sa asg subj s deadline_str =
     \<lparr>ml_recipient = stu_email s, ml_template = ''deadline_reminder'',
      ml_args = [(''full_name'', JStr (stu_full_name s)), (''assignment_title'', JStr (asg_title asg)),
        (''subject_name'', JStr (subj_name subj)), (''deadline_str'', deadline_str),
        (''portal_url'', JStr (base_url po @ ''/portal/subjects/'' @ str_of_int (subj_id subj) @ ''/assignments/'' @
           str_of_int (sa_id sa)))]\<rparr>"

definition remind :: "post_office \<Rightarrow> student_assignment option \<Rightarrow> json \<Rightarrow> task" where
  "remind po sa deadline_str d =
     (case sa of
        None \<Rightarrow> (d, None)
      | Some r \<Rightarrow>
          (case (get_student d (sa_student_id r),
                 Option.bind (get_assignment d (sa_subjects_assignment_id r))
                   (\<lambda>asg. map_option (Pair asg) (get_subject d (asg_subject_id asg)))) of
             (Some s, Some (asg, subj)) \<Rightarrow>
               if is_email_enabled d (stu_id s) Case_DEADLINE_REMINDER
               then mail_to po (reminder_mail po r asg subj s deadline_str) d
               else (d, None)
           | _ \<Rightarrow> (d, Some (TaskExn AttributeError))))"

definition execute_deadline_reminder_task :: "post_office \<Rightarrow> pydict \<Rightarrow> task" where
  "execute_deadline_reminder_task po payload d =
     task_of
       (bind_result (payload_item payload ''student_id'') (\<lambda>sid.
        bind_result (payload_item payload ''subjects_assignment_id'') (\<lambda>asg.
        bind_result (payload_item payload ''deadline_str'') (\<lambda>deadline_str.
          Inr (remind po
            (case (sid, asg) of (JInt s, JInt a) \<Rightarrow> find_sa d s a | _ \<Rightarrow> None) deadline_str))))) d"

section \<open>The outcome of a report\<close>

definition question_text :: "quiz_attempt \<Rightarrow> json \<Rightarrow> string" where
  "question_text a question_id =
     (case find (\<lambda>q. JInt (q_id q) = question_id) (att_questions_snapshot a) of
        Some q \<Rightarrow> q_text q
      | None \<Rightarrow> ''#'' @ (case question_id of JInt i \<Rightarrow> str_of_int i | _ \<Rightarrow> ''''))"

definition dispute_mail :: "post_office \<Rightarrow> quiz_attempt \<Rightarrow> subjects_assignment \<Rightarrow> student \<Rightarrow> pydict \<Rightarrow> mail" where
  "dispute_mail po a asg s payload =
     \<lparr>ml_recipient = stu_email s, ml_template = ''quiz_dispute_resolved'',
      ml_args = [(''full_name'', JStr (stu_full_name s)), (''assignment_title'', JStr (asg_title asg)),
        (''question_text'', JStr (question_text a (dget payload ''question_id'' (JInt (- 1))))),
        (''decision'', dget payload ''decision'' (JStr ''regraded'')), (''note'', dget payload ''note'' (JStr '''')),
        (''score'', dget payload ''score'' JNull), (''max_score'', dget payload ''max_score'' JNull),
        (''is_passed'', dget payload ''is_passed'' JNull),
        (''portal_url'', JStr (base_url po @ ''/portal/quiz/'' @ str_of_int (att_id a) @ ''/result''))]\<rparr>"

definition execute_quiz_dispute_resolved_task :: "post_office \<Rightarrow> pydict \<Rightarrow> task" where
  "execute_quiz_dispute_resolved_task po payload d =
     task_of
       (bind_result (payload_item payload ''attempt_id'') (\<lambda>i.
          Inr (case row_of_json (get_attempt d) i of
                 None \<Rightarrow> task_skip
               | Some a \<Rightarrow>
                   with_submission (get_submission d (att_submission_id a)) (\<lambda>sub sa asg stu d.
                     if is_email_enabled d (stu_id stu) Case_SUBMISSION_CHECKED
                     then mail_to po (dispute_mail po a asg stu payload) d
                     else (d, None))))) d"

section \<open>A feedback link\<close>

definition raw_token :: "post_office \<Rightarrow> feedback_token \<Rightarrow> pydict \<Rightarrow> py_exn + string option" where
  "raw_token po t payload =
     (let sealed_token = dget payload ''token_sealed'' JNull in
      if sealed_token \<noteq> JNull then map_sum id Some (unseal po sealed_token) else Inr (ft_token t))"

definition feedback_mail :: "post_office \<Rightarrow> student \<Rightarrow> subject \<Rightarrow> semester \<Rightarrow> string \<Rightarrow> mail" where
  "feedback_mail po s subj sem token =
     \<lparr>ml_recipient = stu_email s, ml_template = ''feedback_request'',
      ml_args = [(''full_name'', JStr (stu_full_name s)), (''subject_name'', JStr (subj_name subj)),
        (''semester_name'', JStr (sem_name sem)), (''feedback_url'', JStr (base_url po @ ''/feedback/'' @ token))]\<rparr>"

definition send_feedback_link :: "post_office \<Rightarrow> feedback_token \<Rightarrow> pydict \<Rightarrow> task" where
  "send_feedback_link po t payload d =
     (case get_student d (ft_student_id t) of
        None \<Rightarrow> (d, None)
      | Some s \<Rightarrow>
          if \<not> is_email_enabled d (stu_id s) Case_FEEDBACK_REQUEST then (d, None)
          else
            (case get_row fr_id (ft_feedback_request_id t) (db_feedback_requests d) of
               None \<Rightarrow> (d, None)
             | Some fr \<Rightarrow>
                 (case (get_subject d (fr_subject_id fr), get_row sem_id (fr_semester_id fr) (db_semesters d)) of
                    (Some subj, Some sem) \<Rightarrow>
                      (case raw_token po t payload of
                         Inl e \<Rightarrow> (d, Some (TaskExn e))
                       | Inr token \<Rightarrow>
                           if is_set token then mail_to po (feedback_mail po s subj sem (the token)) d else (d, None))
                  | _ \<Rightarrow> (d, None))))"

definition execute_feedback_request_task :: "post_office \<Rightarrow> pydict \<Rightarrow> task" where
  "execute_feedback_request_task po payload d =
     task_of
       (bind_result (payload_item payload ''feedback_token_id'') (\<lambda>i.
          Inr (case row_of_json (\<lambda>i. get_row ft_id i (db_feedback_tokens d)) i of
                 None \<Rightarrow> task_skip
               | Some t \<Rightarrow> send_feedback_link po t payload))) d"

section \<open>What these tasks touch\<close>

text \<open>They push notifications and hand mails over, and change nothing else, whether they raise or not.\<close>

definition only_mail :: "db \<Rightarrow> db \<Rightarrow> bool" where
  "only_mail d d' \<longleftrightarrow> d' = d\<lparr>db_notifications := db_notifications d', db_mails := db_mails d'\<rparr>"

definition mail_only :: "task \<Rightarrow> bool" where
  "mail_only t \<longleftrightarrow> (\<forall>d. only_mail d (fst (t d)))"

named_theorems mailing "tasks that only write to students"

lemma only_mail_refl [simp]: "only_mail d d"
  by (simp add: only_mail_def)

lemma only_mail_trans: "only_mail d d1 \<Longrightarrow> only_mail d1 d2 \<Longrightarrow> only_mail d d2"
  by (cases d; cases d1; cases d2) (simp add: only_mail_def)

lemma only_mail_fields:
  "only_mail d d' \<Longrightarrow> db_outbox d' = db_outbox d \<and> db_submissions d' = db_submissions d"
  by (cases d; cases d') (simp add: only_mail_def)

lemma only_mail_sent: "only_mail d (d\<lparr>db_mails := ms\<rparr>)"
  by (simp add: only_mail_def)

lemma only_mail_bell: "only_mail d (reviewed_bell sa asg action reason s d)"
  by (simp add: reviewed_bell_def push_notification_def only_mail_def split: option.split)

lemma mail_onlyI: "(\<And>d. only_mail d (fst (t d))) \<Longrightarrow> mail_only t"
  by (simp add: mail_only_def)

lemma mail_onlyD [mailing]: "mail_only t \<Longrightarrow> only_mail d (fst (t d))"
  by (simp add: mail_only_def)

lemma mail_only_basic [mailing]: "mail_only task_skip" "mail_only (task_raise e)"
  by (simp_all add: mail_only_def task_skip_def task_raise_def)

lemma mail_only_then [mailing]:
  assumes "mail_only t" and "mail_only u"
  shows "mail_only (task_then t u)"
proof (rule mail_onlyI)
  fix d
  obtain d1 e where t: "t d = (d1, e)" by fastforce
  then have "only_mail d d1" using mail_onlyD [OF assms(1), of d] by simp
  then show "only_mail d (fst (task_then t u d))"
    using mail_onlyD [OF assms(2), of d1] t by (cases e) (auto simp: task_then_def intro: only_mail_trans)
qed

lemma only_mail_channels: "only_mail d (fst (notify_channels po m cs d))"
  by (induction po m cs d rule: notify_channels.induct) (auto intro: only_mail_trans only_mail_sent)

lemma mail_only_mail [mailing]: "mail_only (mail_to po m)"
  by (rule mail_onlyI) (simp add: mail_to_def only_mail_channels)

lemma mail_only_tell [mailing]: "mail_only (tell_member po sa asg action reason s)"
  by (rule mail_onlyI)
    (auto simp: tell_member_def Let_def intro: only_mail_bell only_mail_trans [OF only_mail_bell mail_onlyD] mailing)

lemma mail_only_each [mailing]: "(\<And>x. mail_only (f x)) \<Longrightarrow> mail_only (tasks_each f xs)"
  by (induction xs) (auto intro: mailing)

lemma mail_only_with: "(\<And>s sa asg stu. mail_only (f s sa asg stu)) \<Longrightarrow> mail_only (with_submission sub f)"
  by (rule mail_onlyI) (auto simp: with_submission_def intro: mailing split: option.split)

lemma only_mail_task_of: "(\<And>t. r = Inr t \<Longrightarrow> mail_only t) \<Longrightarrow> only_mail d (fst (task_of r d))"
  by (cases r) (auto simp: task_of_def intro: mailing)

lemma mail_only_task_of: "(\<And>t. r = Inr t \<Longrightarrow> mail_only t) \<Longrightarrow> mail_only (task_of r)"
  by (cases r) (auto simp: task_of_def intro: mailing)

lemma mail_only_tasks:
  "mail_only (execute_send_credentials_task po payload)"
  "mail_only (execute_submission_reviewed_task po payload)"
  "mail_only (execute_quiz_result_task po payload)"
  "mail_only (execute_deadline_reminder_task po payload)"
  "mail_only (execute_quiz_dispute_resolved_task po payload)"
  "mail_only (execute_feedback_request_task po payload)"
proof -
  have tell: "mail_only (tell_reviewed po sub action reason)" for sub action reason
    by (rule mail_onlyI) (auto simp: tell_reviewed_def intro: mailing split: option.split)
  have remind: "mail_only (remind po sa str)" for sa str
    by (rule mail_onlyI) (auto simp: remind_def intro: mailing split: option.split)
  have link: "mail_only (send_feedback_link po t payload)" for t
    by (rule mail_onlyI) (auto simp: send_feedback_link_def intro: mailing split: option.split sum.split)
  have mail: "mail_only (\<lambda>d. mail_to po (f d) d)" for f
    by (rule mail_onlyI) (rule mail_onlyD [OF mail_only_mail])
  have opt: "mail_only (\<lambda>d. if b d then mail_to po m d else (d, None))" for b m
    by (rule mail_onlyI) (auto intro: mailing)
  show "mail_only (execute_send_credentials_task po payload)"
    unfolding execute_send_credentials_task_def
    by (rule mail_only_task_of) (auto simp: bind_result_eq_Inr intro: mailing)
  show "mail_only (execute_submission_reviewed_task po payload)"
    by (rule mail_onlyI)
      (auto simp: execute_submission_reviewed_task_def bind_result_eq_Inr intro!: only_mail_task_of tell)
  show "mail_only (execute_quiz_result_task po payload)"
    by (rule mail_onlyI)
      (auto simp: execute_quiz_result_task_def bind_result_eq_Inr intro!: only_mail_task_of mail_only_with mail)
  show "mail_only (execute_deadline_reminder_task po payload)"
    by (rule mail_onlyI)
      (auto simp: execute_deadline_reminder_task_def bind_result_eq_Inr intro!: only_mail_task_of remind)
  show "mail_only (execute_quiz_dispute_resolved_task po payload)"
    by (rule mail_onlyI)
      (auto simp: execute_quiz_dispute_resolved_task_def bind_result_eq_Inr
        intro!: only_mail_task_of mail_only_with opt mail_only_basic split: option.splits)
  show "mail_only (execute_feedback_request_task po payload)"
    by (rule mail_onlyI)
      (auto simp: execute_feedback_request_task_def bind_result_eq_Inr
        intro!: only_mail_task_of link mail_only_basic split: option.splits)
qed


section \<open>Who hears of a review\<close>

definition review_mails ::
  "post_office \<Rightarrow> db \<Rightarrow> student_assignment \<Rightarrow> subjects_assignment \<Rightarrow> string \<Rightarrow> string \<Rightarrow> student list \<Rightarrow> mail list"
where
  "review_mails po d sa asg action reason ss =
     concat (map (\<lambda>s. replicate (length (build_dispatcher po)) (reviewed_mail po d sa asg action reason s))
       (filter (\<lambda>s. is_email_enabled d (stu_id s) Case_SUBMISSION_CHECKED) ss))"

lemma notify_channels_sent:
  "notify_channels po m cs d = (d', None) \<Longrightarrow> d' = d\<lparr>db_mails := db_mails d @ replicate (length cs) m\<rparr>"
  by (induction po m cs d rule: notify_channels.induct) (auto split: if_splits)

text \<open>What is read of the rows is not written by these tasks.\<close>

lemma mail_update_keeps:
  "is_email_enabled (d\<lparr>db_mails := ms\<rparr>) = is_email_enabled d"
  "member_sa_id (d\<lparr>db_mails := ms\<rparr>) = member_sa_id d"
  "reviewed_mail po (d\<lparr>db_mails := ms\<rparr>) = reviewed_mail po d"
  "user_of_student (d\<lparr>db_mails := ms\<rparr>) = user_of_student d"
  "push_notification u t args l (d\<lparr>db_mails := ms\<rparr>) = (push_notification u t args l d)\<lparr>db_mails := ms\<rparr>"
  by (simp_all add: fun_eq_iff is_email_enabled_def reviewed_mail_def member_sa_id_def find_sa_def
      user_of_student_def push_notification_def)

lemma bell_update_keeps:
  "is_email_enabled (d\<lparr>db_notifications := ns\<rparr>) = is_email_enabled d"
  "member_sa_id (d\<lparr>db_notifications := ns\<rparr>) = member_sa_id d"
  "reviewed_mail po (d\<lparr>db_notifications := ns\<rparr>) = reviewed_mail po d"
  by (simp_all add: fun_eq_iff is_email_enabled_def reviewed_mail_def member_sa_id_def find_sa_def)

lemma reviewed_bell_mails:
  "reviewed_bell sa asg action reason s (d\<lparr>db_mails := ms\<rparr>) =
     (reviewed_bell sa asg action reason s d)\<lparr>db_mails := ms\<rparr>"
  by (cases "user_of_student d (stu_id s)")
    (simp_all add: reviewed_bell_def mail_update_keeps)

lemma reviewed_bell_keeps:
  "db_mails (reviewed_bell sa asg action reason s d) = db_mails d"
  "is_email_enabled (reviewed_bell sa asg action reason s d) = is_email_enabled d"
  "reviewed_mail po (reviewed_bell sa asg action reason s d) = reviewed_mail po d"
  by (cases "user_of_student d (stu_id s)"; simp add: reviewed_bell_def push_notification_def bell_update_keeps)+

lemma tell_member_effect:
  assumes "tell_member po sa asg action reason s d = (d', None)"
  shows "d' = (reviewed_bell sa asg action reason s d)
           \<lparr>db_mails := db_mails d @ review_mails po d sa asg action reason [s]\<rparr>"
proof (cases "is_email_enabled d (stu_id s) Case_SUBMISSION_CHECKED")
  case True
  then have "notify_channels po (reviewed_mail po d sa asg action reason s) (build_dispatcher po)
      (reviewed_bell sa asg action reason s d) = (d', None)"
    using assms by (simp add: tell_member_def mail_to_def Let_def)
  from notify_channels_sent [OF this] True show ?thesis
    by (simp add: review_mails_def reviewed_bell_keeps)
next
  case False
  then have "d' = reviewed_bell sa asg action reason s d" using assms by (simp add: tell_member_def Let_def)
  moreover have "db_mails (reviewed_bell sa asg action reason s d) = db_mails d" by (rule reviewed_bell_keeps)
  ultimately show ?thesis using False by (simp add: review_mails_def)
qed

lemma tell_members_effect:
  assumes "tasks_each (tell_member po sa asg action reason) ss d = (d', None)"
  shows "d' = (fold (reviewed_bell sa asg action reason) ss d)
           \<lparr>db_mails := db_mails d @ review_mails po d sa asg action reason ss\<rparr>"
  using assms
proof (induction ss arbitrary: d)
  case Nil
  then show ?case by (simp add: task_skip_def review_mails_def)
next
  case (Cons s ss)
  let ?b = "reviewed_bell sa asg action reason"
  obtain d1 where s: "tell_member po sa asg action reason s d = (d1, None)"
    and ss: "tasks_each (tell_member po sa asg action reason) ss d1 = (d', None)"
    using Cons.prems by (auto simp: task_then_def split: prod.splits option.splits)
  have d1: "d1 = (?b s d)\<lparr>db_mails := db_mails d @ review_mails po d sa asg action reason [s]\<rparr>"
    by (rule tell_member_effect [OF s])
  have "fold ?b ss (x\<lparr>db_mails := ms\<rparr>) = (fold ?b ss x)\<lparr>db_mails := ms\<rparr>" for x ms
    by (induction ss arbitrary: x) (simp_all add: reviewed_bell_mails)
  moreover have "review_mails po d1 sa asg action reason = review_mails po d sa asg action reason"
    by (auto simp: fun_eq_iff d1 review_mails_def mail_update_keeps reviewed_bell_keeps)
  ultimately show ?case
    using Cons.IH [OF ss] d1 by (simp add: review_mails_def)
qed



definition sample_post :: post_office where
  "sample_post = \<lparr>po_resend_api_key = None, po_brevo_api_key = Some '''', po_smtp_host = Some ''mx'',
     po_app_base_url = ''https://c/'', po_accepts = (\<lambda>c m. c = Smtp), po_decrypt = Some\<rparr>"

definition sample_opted_out :: db where
  "sample_opted_out = sample_graded_squad\<lparr>db_preferences :=
     [\<lparr>np_student_id = 2, np_case = Case_SUBMISSION_CHECKED, np_enabled = False\<rparr>]\<rparr>"


end
