(* ===== verification/Outbox.thy ===== *)
theory Outbox
  imports Mail CheckTasks
begin

text \<open>
  The worker (\<open>workers/scheduled/outbox_processor.py\<close>) and the life of a message
  (\<open>db/models/outbox.py\<close>): which task serves a message, what a run of the worker does to the
  messages, and why every message is settled in the end.

  A run reads the database as the transaction that holds the advisory lock sees it; whether it gets the
  lock is a parameter. Messages are read oldest first; here that is the order of the table. The text of
  an exception is a parameter (\<open>en_str\<close>).
\<close>

section \<open>Messages\<close>

definition mark_finished :: "int \<Rightarrow> outbox_message \<Rightarrow> outbox_message" where
  "mark_finished now m = m\<lparr>out_state := Outbox_FINISHED, out_finished_at := Some now\<rparr>"

definition mark_error :: "string \<Rightarrow> outbox_message \<Rightarrow> outbox_message" where
  "mark_error err m =
     m\<lparr>out_state := Outbox_ERROR, out_retry_count := out_retry_count m + 1, out_error_message := Some err\<rparr>"

section \<open>The worker\<close>

record engine =
  en_world :: world
  en_provider :: ai_provider
  en_post :: post_office
  en_str :: "task_error \<Rightarrow> string"
  en_max_retries :: int
  en_batch_size :: nat

text \<open>\<open>execute_new_submission_task\<close> only writes to the log.\<close>

definition execute_new_submission_task :: "pydict \<Rightarrow> task" where
  "execute_new_submission_task payload = task_skip"

definition set_payload :: "int \<Rightarrow> pydict \<Rightarrow> db \<Rightarrow> db" where
  "set_payload i p d = d\<lparr>db_outbox := upd_row out_id i (\<lambda>m. m\<lparr>out_payload := p\<rparr>) (db_outbox d)\<rparr>"

text \<open>A delivered credential does not stay in the row.\<close>

definition then_redact :: "outbox_message \<Rightarrow> task \<Rightarrow> task" where
  "then_redact m t = task_then t (task_do (set_payload (out_id m) (redact_credentials (out_payload m))))"

definition dispatch_outbox_message :: "engine \<Rightarrow> outbox_message \<Rightarrow> task" where
  "dispatch_outbox_message e m =
     (let payload = out_payload m in
      case out_event_type m of
        SEND_CREDENTIALS \<Rightarrow> then_redact m (execute_send_credentials_task (en_post e) payload)
      | SUBMISSION_REVIEWED \<Rightarrow> execute_submission_reviewed_task (en_post e) payload
      | QUIZ_RESULT \<Rightarrow> execute_quiz_result_task (en_post e) payload
      | DEADLINE_REMINDER \<Rightarrow> execute_deadline_reminder_task (en_post e) payload
      | NEW_SUBMISSION \<Rightarrow> execute_new_submission_task payload
      | RUN_CHECKS \<Rightarrow> execute_check_task (en_world e) payload
      | RUN_AI_REVIEW \<Rightarrow> execute_ai_review_task (en_provider e) payload
      | FEEDBACK_REQUEST_SENT \<Rightarrow> then_redact m (execute_feedback_request_task (en_post e) payload)
      | QUIZ_DISPUTE_RESOLVED \<Rightarrow> execute_quiz_dispute_resolved_task (en_post e) payload)"

definition mark_message :: "int \<Rightarrow> (outbox_message \<Rightarrow> outbox_message) \<Rightarrow> db \<Rightarrow> db" where
  "mark_message i f d = d\<lparr>db_outbox := upd_row out_id i f (db_outbox d)\<rparr>"

definition process_message :: "engine \<Rightarrow> int \<Rightarrow> int \<Rightarrow> db \<Rightarrow> db" where
  "process_message e now i d =
     (case get_row out_id i (db_outbox d) of
        None \<Rightarrow> d
      | Some m \<Rightarrow>
          (case dispatch_outbox_message e m d of
             (d', None) \<Rightarrow> mark_message i (mark_finished now) d'
           | (d', Some err) \<Rightarrow> mark_message i (mark_error (en_str e err)) d'))"

definition due :: "engine \<Rightarrow> outbox_message \<Rightarrow> bool" where
  "due e m \<longleftrightarrow> out_state m \<in> {Outbox_PENDING, Outbox_ERROR} \<and> out_retry_count m < en_max_retries e"

definition batch_of :: "engine \<Rightarrow> db \<Rightarrow> outbox_message list" where
  "batch_of e d = take (en_batch_size e) (filter (due e) (db_outbox d))"

definition process_outbox_messages :: "engine \<Rightarrow> bool \<Rightarrow> int \<Rightarrow> db \<Rightarrow> db" where
  "process_outbox_messages e lock_acquired now d =
     (if \<not> lock_acquired then d
      else fold (process_message e now) (map out_id (batch_of e d)) d)"

section \<open>Tasks only add messages\<close>

text \<open>What a task does to the outbox: new messages at the end, pending and never tried, under new ids.\<close>

definition posts :: "db \<Rightarrow> db \<Rightarrow> bool" where
  "posts d d' \<longleftrightarrow> db_next d \<le> db_next d' \<and>
     (\<exists>new. db_outbox d' = db_outbox d @ new \<and> distinct (map out_id new) \<and>
       (\<forall>m \<in> set new. out_state m = Outbox_PENDING \<and> out_retry_count m = 0 \<and>
          db_next d \<le> out_id m \<and> out_id m < db_next d'))"

definition task_posts :: "task \<Rightarrow> bool" where
  "task_posts t \<longleftrightarrow> (\<forall>d. posts d (fst (t d)))"

named_theorems posting "tasks that only add messages"

lemma posts_same [intro]: "db_outbox d' = db_outbox d \<Longrightarrow> db_next d \<le> db_next d' \<Longrightarrow> posts d d'"
  by (simp add: posts_def)

lemma posts_refl [simp]: "posts d d"
  by auto

lemma posts_trans [trans]:
  assumes "posts d d1" and "posts d1 d2"
  shows "posts d d2"
proof -
  obtain n1 n2 where n1: "db_outbox d1 = db_outbox d @ n1" "distinct (map out_id n1)"
      "\<forall>m \<in> set n1. out_state m = Outbox_PENDING \<and> out_retry_count m = 0 \<and> db_next d \<le> out_id m \<and> out_id m < db_next d1"
    and n2: "db_outbox d2 = db_outbox d1 @ n2" "distinct (map out_id n2)"
      "\<forall>m \<in> set n2. out_state m = Outbox_PENDING \<and> out_retry_count m = 0 \<and> db_next d1 \<le> out_id m \<and> out_id m < db_next d2"
    and le: "db_next d \<le> db_next d1" "db_next d1 \<le> db_next d2"
    using assms unfolding posts_def by blast
  have "out_id ` set n1 \<inter> out_id ` set n2 = {}" using n1(3) n2(3) by fastforce
  then have "distinct (map out_id (n1 @ n2))" using n1(2) n2(2) by simp
  moreover have "\<forall>m \<in> set (n1 @ n2). out_state m = Outbox_PENDING \<and> out_retry_count m = 0 \<and>
      db_next d \<le> out_id m \<and> out_id m < db_next d2"
    using n1(3) n2(3) le by fastforce
  ultimately show ?thesis using n1(1) n2(1) le unfolding posts_def by (intro conjI exI [of _ "n1 @ n2"]) auto
qed

lemma posts_add_outbox [posting]: "posts d (add_outbox ev p d)"
  by (simp add: posts_def add_outbox_def)

lemma task_postsI: "(\<And>d. posts d (fst (t d))) \<Longrightarrow> task_posts t"
  by (simp add: task_posts_def)

lemma task_postsD [posting]: "task_posts t \<Longrightarrow> posts d (fst (t d))"
  by (simp add: task_posts_def)

lemma task_posts_basic [posting]: "task_posts task_skip" "task_posts (task_raise e)"
  by (simp_all add: task_posts_def task_skip_def task_raise_def)

lemma task_posts_do [posting]: "(\<And>d. posts d (f d)) \<Longrightarrow> task_posts (task_do f)"
  by (simp add: task_posts_def task_do_def)

lemma task_posts_then [posting]:
  assumes "task_posts t" and "task_posts u"
  shows "task_posts (task_then t u)"
proof (rule task_postsI)
  fix d
  obtain d1 err where t: "t d = (d1, err)" by fastforce
  then have "posts d d1" using task_postsD [OF assms(1), of d] by simp
  then show "posts d (fst (task_then t u d))"
    using task_postsD [OF assms(2), of d1] t by (cases err) (auto simp: task_then_def intro: posts_trans)
qed

lemma task_posts_fire [posting]: "task_posts (task_fire i ev)"
  by (rule task_postsI) (auto simp: task_fire_def store_submission_def upd_submission_def split: option.splits sum.splits)

lemma task_posts_finalize [posting]: "task_posts (task_finalize i)"
proof (rule task_postsI)
  fix d
  have "posts d d'" if "finalize_grade i d = Inr (d', x)" for d' x
    using grade_frame_finalize [OF that] by (cases d; cases d') (auto simp: grade_frame_def)
  then show "posts d (fst (task_finalize i d))" by (auto simp: task_finalize_def split: sum.splits)
qed

lemma posts_writes [posting]:
  "posts d (set_results i r d)" "posts d (store_verdict p i v d)" "posts d (pin_config i c d)"
  "posts d (notify_check t sub d)" "posts d (enqueue_teacher_review_notification i d)"
proof -
  show "posts d (enqueue_teacher_review_notification i d)" by (subst enqueue_only) auto
qed (auto simp: set_results_def store_verdict_def pin_config_def upd_submission_def notify_check_def
    push_notification_def split: option.split)

lemma task_posts_hand_over [posting]: "task_posts (hand_over i ev)"
  unfolding hand_over_def by (intro posting)

lemma task_posts_if [posting]: "task_posts t \<Longrightarrow> task_posts u \<Longrightarrow> task_posts (\<lambda>d. if b d then t d else u d)"
  by (simp add: task_posts_def)

lemma task_posts_fail [posting]: "task_posts (fail_validation i reason)"
  unfolding fail_validation_def by (intro posting)

lemma task_posts_enqueue [posting]: "task_posts (task_do (enqueue_ai_review i n))"
  unfolding enqueue_ai_review_def by (intro posting)

lemma task_posts_advance [posting]: "task_posts (advance_after_tests sub mode)"
  by (auto simp: advance_after_tests_def Let_def intro!: posting)

lemma task_posts_accept [posting]: "task_posts (accept_without_checks w sub mode)"
  by (auto simp: accept_without_checks_def Let_def intro!: posting split: option.split sum.split)

lemma task_posts_settle [posting]: "task_posts (settle_check sub mode v out)"
  by (auto simp: settle_check_def Let_def intro!: posting split: sum.split check_error.split)

lemma task_posts_run_plan [posting]: "task_posts (run_plan w sub cfg mode plan)"
  by (auto simp: run_plan_def Let_def intro!: posting split: option.split sum.split plugin_tree.split)

lemma task_posts_check_with [posting]: "task_posts (check_with w sub cfg code v)"
  by (auto simp: check_with_def Let_def intro!: posting split: option.split sum.split bool.split)

lemma task_posts_execute_check [posting]: "task_posts (execute_check w i)"
proof (rule task_postsI)
  fix d
  have pin: "posts d (fst (task_then (task_do (pin_config i c)) (check_with w sub cfg code v) d))" for c sub cfg code v
    by (rule task_postsD) (intro posting)
  show "posts d (fst (execute_check w i d))"
    by (auto simp: execute_check_def intro: pin posting split: option.split prod.split)
qed

lemma task_posts_check_task [posting]: "task_posts (execute_check_task w payload)"
  by (rule task_postsI) (auto simp: execute_check_task_def intro: posting split: option.split json.split)

lemma task_posts_route [posting]: "task_posts (route_verdict p i n v cfg)"
  by (auto simp: route_verdict_def intro!: posting split: sum.split bool.split)

lemma task_posts_enter [posting]: "task_posts (enter_reviewing i)"
  by (rule task_postsI)
    (auto simp: enter_reviewing_def intro: posting split: option.split submission_status.split)

lemma task_posts_review [posting]: "task_posts (review_with p i n)"
proof (rule task_postsI)
  fix d
  have "posts d (fst (task_then (task_do (store_verdict p i v)) (route_verdict p i n v cfg) d))"
    "posts d (fst (task_then (task_fire i ''ai_review_failed'') (task_raise e) d))" for v cfg e
    by (rule task_postsD, intro posting)+
  then show "posts d (fst (review_with p i n d))"
    by (auto simp: review_with_def split: sum.split prod.split)
qed

lemma task_posts_ai_review [posting]: "task_posts (execute_ai_review_task p payload)"
proof (rule task_postsI)
  fix d
  have "posts d (fst (task_then (enter_reviewing i) (review_with p i n) d))" for i n
    by (rule task_postsD) (intro posting)
  then show "posts d (fst (execute_ai_review_task p payload d))"
    by (auto simp: execute_ai_review_task_def Let_def split: json.split)
qed

lemma mail_only_posts:
  assumes "mail_only t"
  shows "task_posts t"
proof (rule task_postsI)
  fix d
  have "only_mail d (fst (t d))" by (rule mail_onlyD [OF assms])
  then show "posts d (fst (t d))" by (cases d; cases "fst (t d)") (auto simp: only_mail_def)
qed

lemmas task_posts_mail [posting] = mail_only_tasks [THEN mail_only_posts]


section \<open>What a run does to the messages\<close>

definition outbox_ok :: "db \<Rightarrow> bool" where
  "outbox_ok d \<longleftrightarrow> distinct (map out_id (db_outbox d)) \<and> (\<forall>m \<in> set (db_outbox d). out_id m < db_next d)"

definition message :: "db \<Rightarrow> int \<Rightarrow> outbox_message option" where
  "message d i = get_row out_id i (db_outbox d)"

definition carries_secret :: "outbox_message \<Rightarrow> bool" where
  "carries_secret m \<longleftrightarrow> out_event_type m \<in> {SEND_CREDENTIALS, FEEDBACK_REQUEST_SENT}"

text \<open>A message after it was tried: finished, or an error more.\<close>

definition served :: "outbox_message \<Rightarrow> outbox_message \<Rightarrow> bool" where
  "served m m' \<longleftrightarrow> out_event_type m' = out_event_type m \<and>
     (out_state m' = Outbox_FINISHED \<and> out_retry_count m' = out_retry_count m \<and>
        out_payload m' = (if carries_secret m then redact_credentials (out_payload m) else out_payload m) \<or>
      out_state m' = Outbox_ERROR \<and> out_retry_count m' = out_retry_count m + 1 \<and> out_payload m' = out_payload m)"

text \<open>From \<open>d\<close> to \<open>d'\<close> the messages other than \<open>i\<close> are kept, \<open>i\<close> has become \<open>m'\<close>, and new ones
  may stand behind them.\<close>

definition touches :: "int \<Rightarrow> outbox_message \<Rightarrow> db \<Rightarrow> db \<Rightarrow> bool" where
  "touches i m' d d' \<longleftrightarrow> outbox_ok d' \<and> db_next d \<le> db_next d' \<and>
     (\<exists>ids. map out_id (db_outbox d') = map out_id (db_outbox d) @ ids) \<and> message d' i = Some m' \<and>
     (\<forall>j x. j \<noteq> i \<longrightarrow> message d j = Some x \<longrightarrow> message d' j = Some x)"

lemma message_id: "message d i = Some m \<Longrightarrow> out_id m = i \<and> m \<in> set (db_outbox d)"
  by (simp add: message_def get_row_Some)

lemma message_of_row:
  assumes "outbox_ok d" and "m \<in> set (db_outbox d)"
  shows "message d (out_id m) = Some m"
proof (cases "message d (out_id m)")
  case None
  then show ?thesis using assms(2) by (auto simp: message_def get_row_None)
next
  case (Some m')
  with message_id [OF Some] assms show ?thesis by (auto simp: outbox_ok_def distinct_map dest: inj_onD)
qed

lemma posts_ok:
  assumes "outbox_ok d" and "posts d d'"
  shows "outbox_ok d'" "\<exists>ids. map out_id (db_outbox d') = map out_id (db_outbox d) @ ids"
    "message d j = Some x \<Longrightarrow> message d' j = Some x"
proof -
  obtain new where new: "db_outbox d' = db_outbox d @ new" "distinct (map out_id new)" "db_next d \<le> db_next d'"
    "\<forall>m \<in> set new. db_next d \<le> out_id m \<and> out_id m < db_next d'"
    using assms(2) unfolding posts_def by blast
  have "out_id ` set (db_outbox d) \<inter> out_id ` set new = {}" using new(4) assms(1) by (fastforce simp: outbox_ok_def)
  moreover have "\<forall>m \<in> set (db_outbox d). out_id m < db_next d'" using new(3) assms(1) by (fastforce simp: outbox_ok_def)
  ultimately show "outbox_ok d'" using assms(1) new by (auto simp: outbox_ok_def)
  show "\<exists>ids. map out_id (db_outbox d') = map out_id (db_outbox d) @ ids" using new(1) by simp
  show "message d' j = Some x" if "message d j = Some x" using that new(1) by (simp add: message_def)
qed

lemma touches_posts: "outbox_ok d \<Longrightarrow> message d i = Some m \<Longrightarrow> posts d d' \<Longrightarrow> touches i m d d'"
  using posts_ok [of d d'] unfolding touches_def by (auto simp: posts_def)

lemma touches_mark:
  assumes "touches i m d d'" and "\<And>x. out_id (f x) = out_id x"
  shows "touches i (f m) d (mark_message i f d')"
proof -
  have ids: "map out_id (upd_row out_id i f (db_outbox d')) = map out_id (db_outbox d')"
    by (rule map_upd_row) (rule assms(2))
  have "out_id m' < db_next d'" if "m' \<in> set (upd_row out_id i f (db_outbox d'))" for m'
    using assms that by (auto simp: touches_def outbox_ok_def upd_row_def split: if_splits)
  then show ?thesis
    using assms ids by (auto simp: touches_def outbox_ok_def message_def mark_message_def get_row_upd_row)
qed

lemma touches_redact:
  assumes "outbox_ok d" and "message d i = Some m" and "task_posts t" and "then_redact m t d = (d', r)"
  shows "touches i (if r = None then m\<lparr>out_payload := redact_credentials (out_payload m)\<rparr> else m) d d'"
proof -
  obtain d1 r1 where t: "t d = (d1, r1)" by fastforce
  then have "posts d d1" using assms(3) by (metis task_posts_def fst_conv)
  then have tm: "touches i m d d1" by (rule touches_posts [OF assms(1,2)])
  have id: "out_id m = i" using message_id [OF assms(2)] by simp
  show ?thesis
  proof (cases r1)
    case None
    then have "d' = mark_message i (\<lambda>m'. m'\<lparr>out_payload := redact_credentials (out_payload m)\<rparr>) d1" "r = None"
      using assms(4) t id by (auto simp: then_redact_def task_then_def task_do_def set_payload_def mark_message_def)
    then show ?thesis using touches_mark [OF tm, of "\<lambda>m'. m'\<lparr>out_payload := redact_credentials (out_payload m)\<rparr>"] by simp
  next
    case (Some e)
    then have "d' = d1" "r = Some e" using assms(4) t by (auto simp: then_redact_def task_then_def)
    then show ?thesis using tm by simp
  qed
qed

lemma dispatch_posts:
  "carries_secret m \<Longrightarrow> \<exists>t. task_posts t \<and> dispatch_outbox_message e m = then_redact m t"
  "\<not> carries_secret m \<Longrightarrow> task_posts (dispatch_outbox_message e m)"
proof -
  have new: "task_posts (execute_new_submission_task p)" for p
    unfolding execute_new_submission_task_def by (rule task_posts_basic)
  have secret: "task_posts (execute_send_credentials_task po p)" "task_posts (execute_feedback_request_task po p)" for po p
    by (rule task_posts_mail)+
  show "\<exists>t. task_posts t \<and> dispatch_outbox_message e m = then_redact m t" if "carries_secret m"
    using that secret [of "en_post e" "out_payload m"] unfolding carries_secret_def dispatch_outbox_message_def Let_def
    by (elim insertE) (simp only: outbox_event_type.case, blast | simp)+
  show "task_posts (dispatch_outbox_message e m)" if "\<not> carries_secret m"
    using that
    by (cases "out_event_type m")
      (simp_all add: dispatch_outbox_message_def carries_secret_def Let_def new task_posts_mail
        task_posts_check_task task_posts_ai_review)
qed

lemma dispatch_touches:
  assumes "outbox_ok d" and "message d i = Some m" and "dispatch_outbox_message e m d = (d', r)"
  shows "touches i (if r = None \<and> carries_secret m then m\<lparr>out_payload := redact_credentials (out_payload m)\<rparr> else m) d d'"
proof (cases "carries_secret m")
  case True
  then obtain t where t: "task_posts t" "dispatch_outbox_message e m = then_redact m t"
    using dispatch_posts(1) by blast
  have "then_redact m t d = (d', r)" using assms(3) t(2) by simp
  from touches_redact [OF assms(1,2) t(1) this] True show ?thesis by simp
next
  case False
  have "posts d d'" using task_postsD [OF dispatch_posts(2) [OF False], of d e] assms(3) by simp
  with touches_posts [OF assms(1,2)] False show ?thesis by simp
qed

lemma process_touches:
  assumes "outbox_ok d" and "message d i = Some m"
  shows "\<exists>m'. touches i m' d (process_message e now i d) \<and> served m m'"
proof -
  obtain d1 r where run: "dispatch_outbox_message e m d = (d1, r)" by fastforce
  define m1 where "m1 = (if r = None \<and> carries_secret m then m\<lparr>out_payload := redact_credentials (out_payload m)\<rparr> else m)"
  have t: "touches i m1 d d1" unfolding m1_def by (rule dispatch_touches [OF assms run])
  have m: "get_row out_id i (db_outbox d) = Some m" using assms(2) by (simp add: message_def)
  show ?thesis
  proof (cases r)
    case None
    then have "process_message e now i d = mark_message i (mark_finished now) d1"
      using run m by (simp add: process_message_def)
    moreover have "served m (mark_finished now m1)"
      using None by (simp add: served_def mark_finished_def m1_def carries_secret_def)
    moreover have "touches i (mark_finished now m1) d (mark_message i (mark_finished now) d1)"
      by (rule touches_mark [OF t]) (simp add: mark_finished_def)
    ultimately show ?thesis by metis
  next
    case (Some err)
    then have "process_message e now i d = mark_message i (mark_error (en_str e err)) d1"
      using run m by (simp add: process_message_def)
    moreover have "served m (mark_error (en_str e err) m1)"
      using Some by (simp add: served_def mark_error_def m1_def)
    moreover have "touches i (mark_error (en_str e err) m1) d (mark_message i (mark_error (en_str e err)) d1)"
      by (rule touches_mark [OF t]) (simp add: mark_error_def)
    ultimately show ?thesis by metis
  qed
qed


section \<open>Every message is settled\<close>

text \<open>How many tries a message has left; nothing is due when none is left.\<close>

definition tries_left :: "engine \<Rightarrow> outbox_message \<Rightarrow> nat" where
  "tries_left e m = (if due e m then nat (en_max_retries e - out_retry_count m) else 0)"

definition settled :: "engine \<Rightarrow> outbox_message \<Rightarrow> bool" where
  "settled e m \<longleftrightarrow> out_state m = Outbox_FINISHED \<or> en_max_retries e \<le> out_retry_count m"

definition redacted :: "outbox_message \<Rightarrow> bool" where
  "redacted m \<longleftrightarrow> (\<forall>(k, v) \<in> set (out_payload m). k \<in> set SECRET_KEYS \<longrightarrow> v = JStr ''<sent>'')"

definition ages :: "engine \<Rightarrow> outbox_message \<Rightarrow> outbox_message \<Rightarrow> bool" where
  "ages e m m' \<longleftrightarrow> tries_left e m' \<le> tries_left e m \<and> (settled e m \<longrightarrow> m' = m) \<and>
     carries_secret m' = carries_secret m \<and>
     (carries_secret m' \<and> out_state m' = Outbox_FINISHED \<longrightarrow> m' = m \<or> redacted m')"

definition evolves :: "engine \<Rightarrow> db \<Rightarrow> db \<Rightarrow> bool" where
  "evolves e d d' \<longleftrightarrow> outbox_ok d' \<and> db_next d \<le> db_next d' \<and>
     (\<exists>ids. map out_id (db_outbox d') = map out_id (db_outbox d) @ ids) \<and>
     (\<forall>i m. message d i = Some m \<longrightarrow>
        (\<exists>m'. message d' i = Some m' \<and> ages e m m'))"

lemma ages_refl: "ages e m m"
  by (simp add: ages_def)

lemma ages_trans: "ages e m m1 \<Longrightarrow> ages e m1 m2 \<Longrightarrow> ages e m m2"
  by (auto simp: ages_def)

lemma settled_iff: "settled e m \<longleftrightarrow> \<not> due e m"
  by (cases "out_state m") (auto simp: settled_def due_def)

lemma tries_left_0: "tries_left e m = 0 \<longleftrightarrow> settled e m"
  by (auto simp: tries_left_def settled_iff) (simp add: due_def)

lemma served_tries: "served m m' \<Longrightarrow> due e m \<Longrightarrow> tries_left e m' < tries_left e m"
  by (auto simp: served_def tries_left_def due_def)

lemma redact_redacted: "out_payload m' = redact_credentials p \<Longrightarrow> redacted m'"
  by (auto simp: redacted_def redact_credentials_def split: if_splits)

lemma served_ages: "served m m' \<Longrightarrow> due e m \<Longrightarrow> ages e m m'"
  using served_tries [of m m' e]
  by (auto simp: ages_def settled_iff served_def carries_secret_def intro: redact_redacted)

lemma evolves_refl: "outbox_ok d \<Longrightarrow> evolves e d d"
  by (auto simp: evolves_def intro: ages_refl)

lemma evolves_trans [trans]:
  assumes "evolves e d d1" and "evolves e d1 d2"
  shows "evolves e d d2"
proof -
  have "\<exists>m'. message d2 i = Some m' \<and> ages e m m'"
    if "message d i = Some m" for i m
  proof -
    obtain m1 where m1: "message d1 i = Some m1" "ages e m m1"
      using assms(1) \<open>message d i = Some m\<close> unfolding evolves_def by blast
    moreover obtain m2 where "message d2 i = Some m2" "ages e m1 m2"
      using assms(2) m1(1) unfolding evolves_def by blast
    ultimately show ?thesis by (auto intro: ages_trans)
  qed
  moreover have "outbox_ok d2 \<and> db_next d \<le> db_next d2 \<and>
      (\<exists>ids. map out_id (db_outbox d2) = map out_id (db_outbox d) @ ids)"
    using assms unfolding evolves_def by force
  ultimately show ?thesis by (simp add: evolves_def)
qed

lemma posts_evolves: "outbox_ok d \<Longrightarrow> posts d d' \<Longrightarrow> evolves e d d'"
  using posts_ok [of d d'] by (auto simp: evolves_def posts_def intro: ages_refl)

lemma process_evolves:
  assumes "outbox_ok d" and "message d i = Some m" and "due e m"
  shows "evolves e d (process_message e now i d)"
    and "\<exists>m'. message (process_message e now i d) i = Some m' \<and> tries_left e m' < tries_left e m"
    and "j \<noteq> i \<Longrightarrow> message d j = Some x \<Longrightarrow> message (process_message e now i d) j = Some x"
proof -
  obtain m' where t: "touches i m' d (process_message e now i d)" and s: "served m m'"
    using process_touches [OF assms(1,2)] by blast
  have less: "tries_left e m' < tries_left e m" by (rule served_tries [OF s assms(3)])
  have "\<exists>y'. message (process_message e now i d) j = Some y' \<and> ages e y y'" if "message d j = Some y" for j y
    using t served_ages [OF s assms(3)] that assms(2) by (cases "j = i") (auto simp: touches_def intro: ages_refl)
  then show "evolves e d (process_message e now i d)" using t by (auto simp: evolves_def touches_def)
  show "\<exists>m'. message (process_message e now i d) i = Some m' \<and> tries_left e m' < tries_left e m"
    using t less by (auto simp: touches_def)
  show "j \<noteq> i \<Longrightarrow> message d j = Some x \<Longrightarrow> message (process_message e now i d) j = Some x"
    using t by (auto simp: touches_def)
qed

lemma fold_evolves:
  assumes "outbox_ok d" and "distinct is" and "\<forall>i \<in> set is. \<exists>m. message d i = Some m \<and> due e m"
  shows "evolves e d (fold (process_message e now) is d)"
  using assms
proof (induction "is" arbitrary: d)
  case Nil
  then show ?case by (simp add: evolves_refl)
next
  case (Cons i "is")
  then obtain m where m: "message d i = Some m" "due e m" by auto
  note step = process_evolves [OF Cons.prems(1) m, where now = now]
  have "\<forall>j \<in> set is. \<exists>x. message (process_message e now i d) j = Some x \<and> due e x"
  proof
    fix j
    assume j: "j \<in> set is"
    then have "j \<noteq> i" using Cons.prems(2) by auto
    obtain x where "message d j = Some x" "due e x" using Cons.prems(3) j by auto
    with step(3) [OF \<open>j \<noteq> i\<close>] show "\<exists>x. message (process_message e now i d) j = Some x \<and> due e x" by blast
  qed
  moreover have "outbox_ok (process_message e now i d)" using step(1) by (simp add: evolves_def)
  ultimately have "evolves e (process_message e now i d) (fold (process_message e now) is (process_message e now i d))"
    using Cons.IH Cons.prems(2) by simp
  with step(1) show ?case by (auto intro: evolves_trans)
qed

lemma batch_rows:
  assumes "outbox_ok d"
  shows "distinct (map out_id (batch_of e d))" "\<forall>i \<in> out_id ` set (batch_of e d). \<exists>m. message d i = Some m \<and> due e m"
proof -
  have "distinct (map out_id (filter (due e) (db_outbox d)))"
    using assms by (auto simp: outbox_ok_def distinct_map intro: inj_on_subset)
  then show "distinct (map out_id (batch_of e d))" by (simp add: batch_of_def take_map [symmetric])
  show "\<forall>i \<in> out_id ` set (batch_of e d). \<exists>m. message d i = Some m \<and> due e m"
    using message_of_row [OF assms] by (auto simp: batch_of_def dest!: in_set_takeD)
qed

lemma run_evolves: "outbox_ok d \<Longrightarrow> evolves e d (process_outbox_messages e lock now d)"
  using fold_evolves [of d "map out_id (batch_of e d)" e now] batch_rows [of d e]
  by (auto simp: process_outbox_messages_def evolves_refl)


text \<open>The tries left among the messages \<open>is\<close>, a beginning of the queue. Every run that gets the lock takes one
  away, as it starts with the oldest message that is due.\<close>

definition work :: "engine \<Rightarrow> db \<Rightarrow> int list \<Rightarrow> nat" where
  "work e d is = sum_list (map (\<lambda>i. case message d i of None \<Rightarrow> 0 | Some m \<Rightarrow> tries_left e m) is)"

lemma work_mono:
  assumes "evolves e d d'" and "\<forall>i \<in> set is. message d i \<noteq> None"
  shows "work e d' is \<le> work e d is"
  unfolding work_def
proof (rule sum_list_mono)
  fix i
  assume "i \<in> set is"
  then obtain m where m: "message d i = Some m" using assms(2) by auto
  then obtain m' where "message d' i = Some m'" "tries_left e m' \<le> tries_left e m"
    using assms(1) unfolding evolves_def ages_def by blast
  with m show "(case message d' i of None \<Rightarrow> 0 | Some m \<Rightarrow> tries_left e m) \<le>
      (case message d i of None \<Rightarrow> 0 | Some m \<Rightarrow> tries_left e m)" by simp
qed

lemma work_drops:
  assumes "evolves e d d'" and "\<forall>i \<in> set is. message d i \<noteq> None"
    and "j \<in> set is" and "message d j = Some m" and "message d' j = Some m'" and "tries_left e m' < tries_left e m"
  shows "work e d' is < work e d is"
proof -
  obtain as bs where "is": "is = as @ j # bs" using assms(3) by (auto dest: split_list)
  then have "work e d' as \<le> work e d as" "work e d' bs \<le> work e d bs"
    using assms(1,2) by (auto intro: work_mono)
  then show ?thesis using assms(4-6) by (simp add: "is" work_def)
qed

definition queue_head :: "db \<Rightarrow> nat \<Rightarrow> int list" where
  "queue_head d k = map out_id (take k (db_outbox d))"

lemma queue_head_messages: "outbox_ok d \<Longrightarrow> \<forall>i \<in> set (queue_head d k). message d i \<noteq> None"
  by (auto simp: queue_head_def message_of_row dest!: in_set_takeD)

lemma queue_head_evolves: "evolves e d d' \<Longrightarrow> k \<le> length (db_outbox d) \<Longrightarrow> queue_head d' k = queue_head d k"
  by (auto simp: evolves_def queue_head_def take_map [symmetric] dest: arg_cong [of _ _ length])

lemma work_open:
  assumes "outbox_ok d" and "0 < work e d (queue_head d k)"
  shows "\<exists>m \<in> set (take k (db_outbox d)). due e m"
proof (rule ccontr)
  assume "\<not> ?thesis"
  moreover have "message d (out_id m) = Some m" if "m \<in> set (take k (db_outbox d))" for m
    using message_of_row [OF assms(1)] that by (auto dest: in_set_takeD)
  ultimately have "work e d (queue_head d k) = 0"
    by (auto simp: work_def queue_head_def tries_left_0 settled_iff)
  with assms(2) show False by simp
qed

lemma run_works:
  assumes ok: "outbox_ok d" and batch: "1 \<le> en_batch_size e" and work: "0 < work e d (queue_head d k)"
  shows "work e (process_outbox_messages e True now d) (queue_head d k) < work e d (queue_head d k)"
proof -
  have some: "filter (due e) (take k (db_outbox d)) \<noteq> []"
    using work_open [OF ok work] by (auto simp: filter_empty_conv)
  then obtain m ms where m: "filter (due e) (take k (db_outbox d)) = m # ms" by (cases "filter (due e) (take k (db_outbox d))") auto
  have "filter (due e) (db_outbox d) = m # ms @ filter (due e) (drop k (db_outbox d))"
    using m by (metis append_Cons append_take_drop_id filter_append)
  then obtain rest where b: "batch_of e d = m # rest" using batch by (cases "en_batch_size e") (auto simp: batch_of_def)
  have "m \<in> set (filter (due e) (take k (db_outbox d)))" using m by simp
  then have "m \<in> set (take k (db_outbox d))" "due e m" by auto
  then have inq: "out_id m \<in> set (queue_head d k)" and row: "message d (out_id m) = Some m"
    using message_of_row [OF ok] by (auto simp: queue_head_def dest: in_set_takeD)
  let ?d1 = "process_message e now (out_id m) d"
  note step = process_evolves [OF ok row \<open>due e m\<close>, where now = now]
  have run: "process_outbox_messages e True now d = fold (process_message e now) (map out_id rest) ?d1"
    by (simp add: process_outbox_messages_def b)
  have "distinct (out_id m # map out_id rest)" using batch_rows(1) [OF ok, of e] by (simp add: b)
  moreover have "\<forall>j \<in> set (map out_id rest). \<exists>x. message ?d1 j = Some x \<and> due e x"
  proof
    fix j
    assume j: "j \<in> set (map out_id rest)"
    then have "j \<noteq> out_id m" using calculation by (metis distinct.simps(2))
    obtain x where "message d j = Some x" "due e x" using batch_rows(2) [OF ok, of e] j by (auto simp: b)
    with step(3) [OF \<open>j \<noteq> out_id m\<close>] show "\<exists>x. message ?d1 j = Some x \<and> due e x" by blast
  qed
  moreover have ok1: "outbox_ok ?d1" using step(1) by (simp add: evolves_def)
  ultimately have after: "evolves e ?d1 (process_outbox_messages e True now d)"
    unfolding run by (intro fold_evolves) auto
  obtain m' where "message ?d1 (out_id m) = Some m'" "tries_left e m' < tries_left e m" using step(2) by blast
  then have "work e ?d1 (queue_head d k) < work e d (queue_head d k)"
    by (rule work_drops [OF step(1) queue_head_messages [OF ok] inq row])
  moreover have "\<forall>i \<in> set (queue_head d k). message ?d1 i \<noteq> None"
    using queue_head_messages [OF ok] step(1) unfolding evolves_def by blast
  ultimately show ?thesis using work_mono [OF after] by fastforce
qed

text \<open>The life of the table: runs of the worker that get the lock (counted) or do not, and whatever else adds
  messages in between.\<close>

inductive worker_runs :: "engine \<Rightarrow> nat \<Rightarrow> db \<Rightarrow> db \<Rightarrow> bool" for e where
  start: "worker_runs e 0 d d"
| other: "worker_runs e n d d1 \<Longrightarrow> posts d1 d2 \<Longrightarrow> worker_runs e n d d2"
| idle: "worker_runs e n d d1 \<Longrightarrow> worker_runs e n d (process_outbox_messages e False now d1)"
| run: "worker_runs e n d d1 \<Longrightarrow> worker_runs e (Suc n) d (process_outbox_messages e True now d1)"

lemma worker_runs_evolves:
  assumes "worker_runs e n d d'" and "outbox_ok d"
  shows "evolves e d d'"
  using assms
proof (induction rule: worker_runs.induct)
  case (start d)
  then show ?case by (rule evolves_refl)
next
  case (other n d d1 d2)
  then have "evolves e d d1" by simp
  moreover have "evolves e d1 d2" using calculation other.hyps(2) by (intro posts_evolves) (simp add: evolves_def)
  ultimately show ?case by (rule evolves_trans)
next
  case (idle n d d1 now)
  then show ?case by (simp add: process_outbox_messages_def)
next
  case (run n d d1 now)
  then have "evolves e d1 (process_outbox_messages e True now d1)" by (intro run_evolves) (simp add: evolves_def)
  with run show ?case by (auto intro: evolves_trans)
qed

lemma worker_runs_work:
  assumes "worker_runs e n d d'" and "outbox_ok d" and "1 \<le> en_batch_size e" and "k \<le> length (db_outbox d)"
  shows "work e d' (queue_head d k) \<le> work e d (queue_head d k) - n"
  using assms
proof (induction rule: worker_runs.induct)
  case (other n d d1 d2)
  have ev: "evolves e d d1" by (rule worker_runs_evolves [OF other.hyps(1) other.prems(1)])
  then have ok: "outbox_ok d1" by (simp add: evolves_def)
  have "work e d2 (queue_head d1 k) \<le> work e d1 (queue_head d1 k)"
    by (rule work_mono [OF posts_evolves [OF ok other.hyps(2)] queue_head_messages [OF ok]])
  then show ?case using other.IH other.prems queue_head_evolves [OF ev other.prems(3)] by simp
next
  case (run n d d1 now)
  have ev: "evolves e d d1" by (rule worker_runs_evolves [OF run.hyps run.prems(1)])
  then have ok: "outbox_ok d1" by (simp add: evolves_def)
  have head: "queue_head d1 k = queue_head d k" by (rule queue_head_evolves [OF ev run.prems(3)])
  have IH: "work e d1 (queue_head d k) \<le> work e d (queue_head d k) - n" using run.IH run.prems by simp
  have "work e (process_outbox_messages e True now d1) (queue_head d1 k) \<le> work e d1 (queue_head d1 k)"
    by (rule work_mono [OF run_evolves [OF ok] queue_head_messages [OF ok]])
  then show ?case
    using IH run_works [OF ok run.prems(2), of k now] head
    by (cases "work e d1 (queue_head d k) = 0") auto
qed (simp_all add: process_outbox_messages_def)


lemma work_bound:
  assumes "outbox_ok d" and "\<forall>m \<in> set (db_outbox d). 0 \<le> out_retry_count m"
  shows "work e d (queue_head d k) \<le> k * nat (en_max_retries e)"
proof -
  have "work e d is \<le> length is * nat (en_max_retries e)" if "set is \<subseteq> out_id ` set (db_outbox d)" for "is"
    using that
  proof (induction "is")
    case (Cons i "is")
    then obtain m where m: "m \<in> set (db_outbox d)" "i = out_id m" by auto
    then have "message d i = Some m" using message_of_row [OF assms(1)] by simp
    moreover have "tries_left e m \<le> nat (en_max_retries e)" using assms(2) m(1) by (auto simp: tries_left_def)
    ultimately show ?case using Cons by (simp add: work_def)
  qed (simp add: work_def)
  moreover have "set (queue_head d k) \<subseteq> out_id ` set (db_outbox d)"
    by (auto simp: queue_head_def dest!: in_set_takeD)
  ultimately have "work e d (queue_head d k) \<le> length (queue_head d k) * nat (en_max_retries e)" .
  also have "\<dots> \<le> k * nat (en_max_retries e)" by (simp add: queue_head_def)
  finally show ?thesis .
qed


text \<open>A settled message stays as it is: a finished one is not delivered again and one that used up its
  retries is not tried again, however often the worker runs.\<close>

theorem settled_message_is_left_alone:
  assumes "outbox_ok d" and "worker_runs e n d d'" and "message d i = Some m"
    and "out_state m = Outbox_FINISHED \<or> en_max_retries e \<le> out_retry_count m"
  shows "message d' i = Some m"
  using worker_runs_evolves [OF assms(2,1)] assms(3,4) unfolding evolves_def ages_def settled_def by blast

text \<open>C16. The row of a delivered credential or feedback link keeps no secret: once the worker has finished such a
  message, every secret of its payload, sealed or not, reads \<open><sent>\<close>.\<close>

theorem delivered_secret_is_gone:
  assumes "outbox_ok d" and "worker_runs e n d d'" and "message d i = Some m" and "out_state m \<noteq> Outbox_FINISHED"
    and "message d' i = Some m'" and "out_state m' = Outbox_FINISHED"
    and "out_event_type m' \<in> {SEND_CREDENTIALS, FEEDBACK_REQUEST_SENT}"
    and "(k, v) \<in> set (out_payload m')" and "k \<in> {''password'', ''password_sealed'', ''token_sealed''}"
  shows "v = JStr ''<sent>''"
proof -
  have "ages e m m'" using worker_runs_evolves [OF assms(2,1)] assms(3,5) unfolding evolves_def by fastforce
  then have "redacted m'" using assms(4,6,7) by (auto simp: ages_def carries_secret_def)
  then show ?thesis using assms(8,9) by (auto simp: redacted_def SECRET_KEYS_def)
qed


definition sample_engine :: engine where
  "sample_engine = \<lparr>en_world = sample_world sample_result JNull, en_provider = sample_provider,
     en_post = sample_post, en_str = (\<lambda>_. ''error''), en_max_retries = 1, en_batch_size = 1\<rparr>"

text \<open>A credential to deliver, and a check of a submission without an id, which cannot succeed.\<close>

definition sample_outbox :: db where
  "sample_outbox =
     add_outbox RUN_CHECKS []
       (add_outbox SEND_CREDENTIALS
         [(''student_email'', JStr ''n@x''), (''full_name'', JStr ''N''), (''username'', JStr ''n''),
          (''password'', JStr ''pw'')] empty_db)"

lemma sample_outbox_ok: "outbox_ok sample_outbox" "\<forall>m \<in> set (db_outbox sample_outbox). 0 \<le> out_retry_count m"
  by (simp_all add: sample_outbox_def outbox_ok_def add_outbox_def empty_db_def)

definition sample_served :: db where
  "sample_served = process_outbox_messages sample_engine True 5 (process_outbox_messages sample_engine True 0 sample_outbox)"

lemma sample_runs: "worker_runs sample_engine (Suc (Suc 0)) sample_outbox sample_served"
  unfolding sample_served_def by (rule worker_runs.run worker_runs.start)+


lemma sample_first: "outbox_ok (process_outbox_messages sample_engine True 0 sample_outbox)"
  using run_evolves [OF sample_outbox_ok(1)] by (simp add: evolves_def)

lemma sample_second:
  "worker_runs sample_engine (Suc 0) (process_outbox_messages sample_engine True 0 sample_outbox) sample_served"
  unfolding sample_served_def by (rule worker_runs.run worker_runs.start)+

lemma settled_message_is_left_alone_witness:
  "message sample_served 1 = message (process_outbox_messages sample_engine True 0 sample_outbox) 1 \<and>
   message sample_served 1 \<noteq> None"
proof -
  have "case message (process_outbox_messages sample_engine True 0 sample_outbox) 1 of
      None \<Rightarrow> False | Some m \<Rightarrow> out_state m = Outbox_FINISHED" by code_simp
  then obtain m where m: "message (process_outbox_messages sample_engine True 0 sample_outbox) 1 = Some m"
    "out_state m = Outbox_FINISHED" by (auto split: option.splits)
  with settled_message_is_left_alone [OF sample_first sample_second m(1)] show ?thesis by simp
qed

lemma delivered_secret_is_gone_witness:
  "\<exists>m'. message sample_served 1 = Some m' \<and> map_of (out_payload m') ''password'' = Some (JStr ''<sent>'')"
proof -
  have m: "case message sample_outbox 1 of None \<Rightarrow> False | Some m \<Rightarrow> out_state m = Outbox_PENDING" by code_simp
  then obtain m where m: "message sample_outbox 1 = Some m" "out_state m \<noteq> Outbox_FINISHED"
    by (auto split: option.splits)
  have "case message sample_served 1 of None \<Rightarrow> False
    | Some m' \<Rightarrow> out_state m' = Outbox_FINISHED \<and> out_event_type m' = SEND_CREDENTIALS \<and>
        map_of (out_payload m') ''password'' \<noteq> None" by code_simp
  then obtain m' v where m': "message sample_served 1 = Some m'" "out_state m' = Outbox_FINISHED"
    "out_event_type m' = SEND_CREDENTIALS" "map_of (out_payload m') ''password'' = Some v"
    by (auto split: option.splits)
  have "v = JStr ''<sent>''"
    by (rule delivered_secret_is_gone [OF sample_outbox_ok(1) sample_runs m m'(1,2)])
      (use m'(3,4) in \<open>auto dest: map_of_SomeD\<close>)
  with m' show ?thesis by simp
qed

end
