(* ===== verification/ConfigCheck.thy ===== *)
theory ConfigCheck
  imports LlmBoard CheckTasks
begin

text \<open>
  Reading the configuration of a subject from an uploaded archive, first half of
  \<open>services/config_apply.py\<close>: the checks of \<open>config.yml\<close> before anything is written.

  Outside the program, and parameters of the model: the archive as \<open>zipfile\<close>, \<open>yaml\<close> and \<open>hashlib\<close> read it
  (\<open>archive\<close>) and the object store. A YAML value that has no JSON counterpart, a date for example, cannot
  be stored in the \<open>JSONB\<close> column and is not considered.
\<close>

section \<open>Equality of values\<close>

text \<open>\<open>==\<close> on JSON values: numbers and booleans compare by value, dictionaries without regard to the
  order of their keys.\<close>

fun str_le :: "string \<Rightarrow> string \<Rightarrow> bool" where
  "str_le [] _ = True"
| "str_le (x # xs) [] = False"
| "str_le (x # xs) (y # ys) = (if x = y then str_le xs ys else (of_char x :: nat) < of_char y)"

fun insert_item :: "string \<times> 'v \<Rightarrow> (string \<times> 'v) list \<Rightarrow> (string \<times> 'v) list" where
  "insert_item x [] = [x]"
| "insert_item x (y # ys) = (if str_le (fst x) (fst y) then x # y # ys else y # insert_item x ys)"

definition sort_items :: "(string \<times> 'v) list \<Rightarrow> (string \<times> 'v) list" where
  "sort_items xs = foldr insert_item xs []"

lemma set_insert_item: "set (insert_item x ys) = insert x (set ys)"
  by (induction ys) auto

lemma set_sort_items: "set (sort_items xs) = set xs"
  by (induction xs) (simp_all add: sort_items_def set_insert_item)

primrec canon :: "json \<Rightarrow> json" where
  "canon JNull = JNull"
| "canon (JBool b) = JInt (if b then 1 else 0)"
| "canon (JInt n) = JInt n"
| "canon (JFloat x) = (if of_int \<lfloor>x\<rfloor> = x then JInt \<lfloor>x\<rfloor> else JFloat x)"
| "canon (JStr s) = JStr s"
| "canon (JList xs) = JList (map canon xs)"
| "canon (JObj d) = JObj (sort_items (map (map_prod id canon) d))"

definition same_value :: "json \<Rightarrow> json \<Rightarrow> bool" where
  "same_value a b = (canon a = canon b)"

section \<open>Errors, the archive, the store\<close>

datatype apply_error =
    BadConfig string
  | NotTheOwner
  | BadScores config_error
  | BadLlmGrading llm_config_error
  | UploadFailed string
  | ColumnError
  | IntegrityError
  | YamlError
  | ApplyExn py_exn

definition lift_apply :: "py_exn + 'a \<Rightarrow> apply_error + 'a" where
  "lift_apply = map_sum ApplyExn id"

record archive =
  ar_size :: int
  ar_is_zip :: bool
  ar_infos :: "zip_info list"
  ar_config :: "json option option"
  ar_text :: "json \<Rightarrow> string option"
  ar_exists :: "string \<Rightarrow> bool"
  ar_sha256 :: string

text \<open>\<open>ar_config\<close>: no \<open>config.yml\<close>, one that is not YAML, or its value. \<open>ar_exists\<close> is asked for a path below the
  directory the archive was unpacked to, as \<open>Path.exists\<close>.\<close>

type_synonym object_store = "(string \<Rightarrow> string option) option"

section \<open>Checks before anything is written\<close>

definition MAX_ZIP_BYTES :: int where
  "MAX_ZIP_BYTES = 50 * 1024 * 1024"

definition ALLOWED_QUESTION_TYPES :: "string list" where
  "ALLOWED_QUESTION_TYPES = [''single_choice'', ''multiple_choice'', ''true_false'', ''ordering'']"

definition QUIZ_REACHABLE_MODES :: "string list" where
  "QUIZ_REACHABLE_MODES =
     [''tests_then_quiz'', ''tests_then_ai_then_quiz'', ''quiz_only'', ''quiz_then_teacher'',
      ''quiz_and_teacher_scores'', ''tests_then_teacher'', ''tests_then_ai_then_teacher'', ''tests_then_ai_teacher'']"

fun check_all :: "('a \<Rightarrow> 'e + unit) \<Rightarrow> 'a list \<Rightarrow> 'e + unit" where
  "check_all f [] = Inr ()"
| "check_all f (x # xs) = bind_result (f x) (\<lambda>_. check_all f xs)"

text \<open>\<open>for code, a_cfg in (new_cfg.get("assignments") or {}).items()\<close>, each as \<open>a_cfg or {}\<close>.\<close>

definition check_assignments :: "(string \<Rightarrow> pydict \<Rightarrow> apply_error + unit) \<Rightarrow> pydict \<Rightarrow> apply_error + unit" where
  "check_assignments f cfg =
     bind_result (lift_apply (or_dict (dget cfg ''assignments'' JNull))) (\<lambda>items.
       check_all (\<lambda>(code, a). bind_result (lift_apply (or_dict a)) (f code)) items)"

text \<open>\<open>((a.get("quiz") or {}).get("questions"))\<close>.\<close>

definition quiz_questions :: "pydict \<Rightarrow> py_exn + json" where
  "quiz_questions a = map_sum id (\<lambda>quiz. dget quiz ''questions'' JNull) (or_dict (dget a ''quiz'' JNull))"

definition question_type_ok :: "json \<Rightarrow> apply_error + unit" where
  "question_type_ok q =
     bind_result (lift_apply (or_dict q)) (\<lambda>qd.
       case dget qd ''type'' (JStr '''') of
         JStr s \<Rightarrow>
           if map lower_char s \<in> set ALLOWED_QUESTION_TYPES then Inr () else Inl (BadConfig ''question type'')
       | _ \<Rightarrow> Inl (BadConfig ''question type''))"

definition validate_quiz_questions :: "pydict \<Rightarrow> apply_error + unit" where
  "validate_quiz_questions =
     check_assignments (\<lambda>code a.
       bind_result (lift_apply (bind_result (quiz_questions a) or_list)) (check_all question_type_ok))"

text \<open>\<open>((x or {}).get("sandbox") or {}).get("check_command")\<close>.\<close>

definition check_command :: "json \<Rightarrow> py_exn + json" where
  "check_command x =
     bind_result (or_dict x) (\<lambda>b.
     map_sum id (\<lambda>s. dget s ''check_command'' JNull) (or_dict (dget b ''sandbox'' JNull)))"

definition check_commands_of :: "pydict \<Rightarrow> apply_error + unit" where
  "check_commands_of a =
     bind_result (lift_apply (check_command (dget a ''common'' JNull))) (\<lambda>common_cmd.
       if \<not> truthy common_cmd then Inr ()
       else
         bind_result (lift_apply (or_dict (dget a ''variants'' JNull))) (\<lambda>variants.
           check_all (\<lambda>(variant, v).
             bind_result (lift_apply (check_command v)) (\<lambda>v_cmd.
               if truthy v_cmd \<and> same_value v_cmd common_cmd then Inl (BadConfig ''same check_command'') else Inr ()))
             variants))"

definition validate_check_commands :: "pydict \<Rightarrow> apply_error + unit" where
  "validate_check_commands = check_assignments (\<lambda>code. check_commands_of)"

text \<open>\<open>str(a.get("review_mode", "tests_only")) in _QUIZ_REACHABLE_MODES\<close>: only a string is.\<close>

definition quiz_reachable :: "pydict \<Rightarrow> bool" where
  "quiz_reachable a =
     (case dget a ''review_mode'' (JStr ''tests_only'') of JStr s \<Rightarrow> s \<in> set QUIZ_REACHABLE_MODES | _ \<Rightarrow> False)"

definition validate_quiz_reachability :: "pydict \<Rightarrow> apply_error + unit" where
  "validate_quiz_reachability =
     check_assignments (\<lambda>code a.
       bind_result (lift_apply (quiz_questions a)) (\<lambda>qs.
         if truthy qs \<and> \<not> quiz_reachable a then Inl (BadConfig ''quiz is never sent'') else Inr ()))"

definition validate_teacher_scores :: "pydict \<Rightarrow> apply_error + unit" where
  "validate_teacher_scores =
     check_assignments (\<lambda>code a.
       if is_scored_mode a then map_sum BadScores id (validate_assignment a) else Inr ())"

definition parse_squad_max_size :: "pydict \<Rightarrow> apply_error + int option" where
  "parse_squad_max_size cfg =
     (case dget cfg ''squads'' JNull of
        JNull \<Rightarrow> Inr None
      | JObj block \<Rightarrow>
          (case dget block ''maxAllowedSize'' JNull of
             JInt n \<Rightarrow> if 2 \<le> n \<and> n \<le> 6 then Inr (Some n) else Inl (BadConfig ''squads.maxAllowedSize'')
           | _ \<Rightarrow> Inl (BadConfig ''squads.maxAllowedSize''))
      | _ \<Rightarrow> Inl (BadConfig ''squads.maxAllowedSize''))"

text \<open>The draft-grading block is checked and its task text put into the configuration.\<close>

definition inline_llm :: "archive \<Rightarrow> json \<Rightarrow> apply_error + json" where
  "inline_llm ar a =
     (case a of
        JObj d \<Rightarrow>
          if map_of d ''llm_grading'' = None then Inr a
          else
            bind_result (map_sum BadLlmGrading id (validate_llm (ar_text ar) d)) (\<lambda>_.
              lift_apply (map_sum id JObj (inline_task (ar_text ar) d)))
      | _ \<Rightarrow> Inr a)"

definition inline_all :: "archive \<Rightarrow> pydict \<Rightarrow> apply_error + pydict" where
  "inline_all ar cfg =
     bind_result (lift_apply (or_dict (dget cfg ''assignments'' JNull))) (\<lambda>items.
       if items = [] then Inr cfg
       else
         map_sum id (\<lambda>as. dict_set ''assignments'' (JObj as) cfg)
           (map_result (\<lambda>(code, a). map_sum id (Pair code) (inline_llm ar a)) items))"

definition read_config :: "archive \<Rightarrow> apply_error + pydict" where
  "read_config ar =
     (if ar_size ar > MAX_ZIP_BYTES then Inl (BadConfig ''too large'')
      else if \<not> ar_is_zip ar then Inl (BadConfig ''not a ZIP archive'')
      else
        (case safe_extract MAX_TOTAL_UNCOMPRESSED_BYTES MAX_ENTRY_COUNT [] (ar_infos ar) of
           Inl u \<Rightarrow> Inl (BadConfig ''unsafe archive'')
         | Inr _ \<Rightarrow>
             (case ar_config ar of
                None \<Rightarrow> Inl (BadConfig ''no config.yml'')
              | Some None \<Rightarrow> Inl YamlError
              | Some (Some (JObj cfg)) \<Rightarrow> inline_all ar cfg
              | Some (Some _) \<Rightarrow> Inl (ApplyExn AttributeError))))"

definition checked_config :: "archive \<Rightarrow> apply_error + (string \<times> pydict)" where
  "checked_config ar =
     bind_result (read_config ar) (\<lambda>cfg.
     let subject_code = dget cfg ''subjectCode'' (JStr '''') in
     if \<not> truthy subject_code then Inl (BadConfig ''no subjectCode'')
     else
       (case validate_subject_code subject_code of
          None \<Rightarrow> Inl (BadConfig ''subjectCode'')
        | Some code \<Rightarrow>
            bind_result (validate_quiz_questions cfg) (\<lambda>_.
            bind_result (validate_check_commands cfg) (\<lambda>_.
            bind_result (validate_quiz_reachability cfg) (\<lambda>_.
            bind_result (validate_teacher_scores cfg) (\<lambda>_.
            bind_result (parse_squad_max_size cfg) (\<lambda>_. Inr (code, cfg))))))))"


section \<open>What an accepted configuration is good for\<close>

lemma lift_apply_Inr [simp]: "lift_apply r = Inr x \<longleftrightarrow> r = Inr x"
  by (cases r) (auto simp: lift_apply_def)

lemma lift_apply_simps [simp]: "lift_apply (Inr x) = Inr x" "lift_apply (Inl e) = Inl (ApplyExn e)"
  by (simp_all add: lift_apply_def)

lemma check_all_Inr: "check_all f xs = Inr () \<longleftrightarrow> (\<forall>x \<in> set xs. f x = Inr ())"
  by (induction xs) (auto simp: bind_result_eq_Inr)

lemma check_assignments_Inr:
  assumes "check_assignments f cfg = Inr ()" and "dget cfg ''assignments'' JNull = JObj items"
    and "(code, JObj a) \<in> set items"
  shows "f code a = Inr ()"
proof -
  have "\<forall>item \<in> set items. (\<lambda>(code, a). bind_result (lift_apply (or_dict a)) (f code)) item = Inr ()"
    using assms(1,2) unfolding check_assignments_def by (auto simp: bind_result_eq_Inr check_all_Inr)
  from bspec [OF this assms(3)] show ?thesis by (auto simp: bind_result_eq_Inr)
qed

lemma question_type_ok_Inr:
  assumes "question_type_ok q = Inr ()"
  shows "\<exists>d s. q = JObj d \<and> dget d ''type'' (JStr '''') = JStr s \<and> map lower_char s \<in> set ALLOWED_QUESTION_TYPES"
proof -
  obtain d where d: "or_dict q = Inr d" and
    ok: "(case dget d ''type'' (JStr '''') of
         JStr s \<Rightarrow>
           if map lower_char s \<in> set ALLOWED_QUESTION_TYPES then Inr () else Inl (BadConfig ''question type'')
       | _ \<Rightarrow> Inl (BadConfig ''question type'')) = Inr ()"
    using assms by (auto simp: question_type_ok_def bind_result_eq_Inr)
  then obtain s where s: "dget d ''type'' (JStr '''') = JStr s" "map lower_char s \<in> set ALLOWED_QUESTION_TYPES"
    by (auto split: json.splits if_splits)
  then have "d \<noteq> []" by (auto simp: dget_def ALLOWED_QUESTION_TYPES_def)
  then have "q = JObj d" using d by (cases q) (auto split: if_splits)
  with s show ?thesis by blast
qed

lemma checked_config_Inr:
  assumes "checked_config ar = Inr (code, cfg)"
  shows "validate_subject_code (dget cfg ''subjectCode'' (JStr '''')) = Some code" "validate_quiz_questions cfg = Inr ()"
    "validate_check_commands cfg = Inr ()" "validate_quiz_reachability cfg = Inr ()" "validate_teacher_scores cfg = Inr ()"
    "\<exists>n. parse_squad_max_size cfg = Inr n"
  using assms unfolding checked_config_def
  by (auto simp: bind_result_eq_Inr Let_def split: if_splits option.splits)

lemma squad_size_range: "parse_squad_max_size cfg = Inr (Some n) \<Longrightarrow> 2 \<le> n \<and> n \<le> 6"
  by (auto simp: parse_squad_max_size_def split: json.splits if_splits)

lemma safe_subject_code:
  assumes "validate_subject_code v = Some code"
  shows "code \<noteq> '''' \<and> CHR ''/'' \<notin> set code \<and> \<not> has_dotdot code"
  using assms
  by (auto simp: validate_subject_code_def subject_code_re_match_def is_code_char_def is_code_start_def
      list_all_iff split: json.splits if_splits list.splits)


lemma sub_dict_or: "sub_dict d k = Inr x \<Longrightarrow> or_dict (dget d k JNull) = Inr x"
  by (auto simp: sub_dict_def dget_def split: json.splits option.splits)

lemma check_command_of:
  "sub_dict d ''sandbox'' = Inr sandbox \<Longrightarrow> check_command (JObj d) = Inr (dget sandbox ''check_command'' JNull)"
  by (simp add: check_command_def sub_dict_or)

lemma py_eq_same: "py_eq a b \<Longrightarrow> same_value b a"
  by (cases a; cases b) (auto simp: py_eq_def same_value_def split: if_splits)

lemma commands_not_doubled:
  assumes "check_commands_of a = Inr ()" and "commands_of a variant = Inr (sandbox, validate, cc, vc)"
  shows "\<not> (truthy cc \<and> truthy vc \<and> py_eq cc vc)"
proof
  assume both: "truthy cc \<and> truthy vc \<and> py_eq cc vc"
  then have "truthy (dget a ''common'' (JObj []))"
    using assms(2) by (auto simp: commands_of_def Let_def bind_result_eq_Inr split: if_splits)
  then obtain common entry vs where c: "dget a ''common'' (JObj []) = JObj common" "common \<noteq> []"
      "sub_dict common ''sandbox'' = Inr sandbox" "variant_entry a variant = Inr entry" "sub_dict entry ''sandbox'' = Inr vs"
      "cc = dget sandbox ''check_command'' JNull" "vc = dget vs ''check_command'' JNull"
    using assms(2) by (auto simp: commands_of_def Let_def bind_result_eq_Inr split: json.splits)
  have "dget a ''common'' JNull = JObj common" using c(1,2) by (auto simp: dget_def split: option.splits)
  then have cmd: "check_command (dget a ''common'' JNull) = Inr cc" using check_command_of [OF c(3)] c(6) by simp
  have "entry \<noteq> []" using c(5,7) both by (auto simp: sub_dict_def dget_def)
  then obtain v vars where v: "variant = Some v" "sub_dict a ''variants'' = Inr vars" "sub_dict vars v = Inr entry"
    using c(4) by (auto simp: variant_entry_def bind_result_eq_Inr split: option.splits if_splits)
  then have mem: "(v, JObj entry) \<in> set vars"
    using \<open>entry \<noteq> []\<close> by (auto simp: sub_dict_def dget_def dest: map_of_SomeD split: option.splits json.splits)
  have "check_all (\<lambda>(variant, x). bind_result (lift_apply (check_command x)) (\<lambda>v_cmd.
      if truthy v_cmd \<and> same_value v_cmd cc then Inl (BadConfig ''same check_command'') else Inr ())) vars = Inr ()"
    using assms(1) cmd both sub_dict_or [OF v(2)]
    by (auto simp: check_commands_of_def bind_result_eq_Inr split: if_splits)
  then have "(\<lambda>(variant, x). bind_result (lift_apply (check_command x)) (\<lambda>v_cmd.
      if truthy v_cmd \<and> same_value v_cmd cc then Inl (BadConfig ''same check_command'') else Inr ())) (v, JObj entry) = Inr ()"
    using mem unfolding check_all_Inr by blast
  then have "\<not> (truthy vc \<and> same_value vc cc)"
    using check_command_of [OF c(5)] c(7) by (auto simp: bind_result_eq_Inr split: if_splits)
  then show False using both py_eq_same by blast
qed

text \<open>Under an accepted configuration every script runs that is configured: the plan of a check has the
  command of the variant as written, it is never dropped as a double of the common one.\<close>

theorem accepted_config_runs_every_script:
  assumes "checked_config ar = Inr (code, cfg)" and "dget cfg ''assignments'' JNull = JObj items"
    and "map_of items c = Some (JObj a)" and "resolve_check_plan bnds cfg c variant = Inr (Inr plan)"
    and "commands_of a variant = Inr (sandbox, validate, common_check, variant_check)"
  shows "cp_common_check plan = common_check \<and> cp_variant_check plan = variant_check"
proof -
  have "check_commands_of a = Inr ()"
    using check_assignments_Inr [OF checked_config_Inr(3) [OF assms(1), unfolded validate_check_commands_def] assms(2)]
      map_of_SomeD [OF assms(3)] by blast
  then have once: "\<not> (truthy common_check \<and> truthy variant_check \<and> py_eq common_check variant_check)"
    using commands_not_doubled [OF _ assms(5)] by blast
  have "dget cfg ''assignments'' (JObj []) = JObj items" using assms(2) by (auto simp: dget_def split: option.splits)
  then have entry: "lookup_assignment cfg c = Inr (Some (JObj a))" by (simp add: lookup_assignment_def assms(3))
  have "c \<noteq> ''''" using assms(4) by (auto simp: resolve_check_plan_def)
  then obtain v2 where "plan_of bnds sandbox validate common_check variant_check variant = Inr plan"
    using assms(4) once unfolding resolve_check_plan_def
    by (auto simp: entry assms(5) map_sum_eq_Inr Let_def split: if_splits)
  then show ?thesis by (auto simp: plan_of_def bind_result_eq_Inr)
qed


definition sample_lab :: pydict where
  "sample_lab =
     [(''title'', JStr ''Lab''), (''review_mode'', JStr ''tests_then_quiz''),
      (''quiz'', JObj [(''questions'', JList [JObj [(''type'', JStr ''Single_Choice'')]])]),
      (''common'', JObj [(''sandbox'', JObj [(''check_command'', JStr ''a.py'')])]),
      (''variants'', JObj [(''1'', JObj [(''sandbox'', JObj [(''check_command'', JStr ''b.py'')])])])]"

definition sample_config :: pydict where
  "sample_config =
     [(''subjectCode'', JStr ''S''), (''squads'', JObj [(''maxAllowedSize'', JInt 3)]),
      (''assignments'', JObj [(''lab'', JObj sample_lab)])]"

definition sample_archive :: archive where
  "sample_archive =
     \<lparr>ar_size = 10, ar_is_zip = True, ar_infos = [], ar_config = Some (Some (JObj sample_config)),
      ar_text = (\<lambda>_. None), ar_exists = (\<lambda>_. False), ar_sha256 = ''h''\<rparr>"

lemma sample_config_ok: "checked_config sample_archive = Inr (''S'', sample_config)"
  by code_simp

lemma sample_config_items:
  "dget sample_config ''assignments'' JNull = JObj [(''lab'', JObj sample_lab)]"
  by (simp add: sample_config_def dget_def)


lemma accepted_config_runs_every_script_witness:
  "\<exists>plan. resolve_check_plan \<lparr>lim_max_memory = ''512m'', lim_max_cpus = 1\<rparr> sample_config ''lab'' (Some ''1'') = Inr (Inr plan) \<and>
     cp_common_check plan = JStr ''a.py'' \<and> cp_variant_check plan = JStr ''b.py''"
proof -
  let ?bnds = "\<lparr>lim_max_memory = ''512m'', lim_max_cpus = 1\<rparr>"
  have "case resolve_check_plan ?bnds sample_config ''lab'' (Some ''1'') of Inr (Inr _) \<Rightarrow> True | _ \<Rightarrow> False" by code_simp
  then obtain plan where plan: "resolve_check_plan ?bnds sample_config ''lab'' (Some ''1'') = Inr (Inr plan)"
    by (auto split: sum.splits)
  have "commands_of sample_lab (Some ''1'') =
      Inr ([(''check_command'', JStr ''a.py'')], JNull, JStr ''a.py'', JStr ''b.py'')" by code_simp
  from accepted_config_runs_every_script [OF sample_config_ok sample_config_items _ plan this] plan
  show ?thesis by simp
qed

end
