(* ===== verification/ConfigApply.thy ===== *)
theory ConfigApply
  imports ConfigCheck
begin

text \<open>
  Applying the configuration of a subject, second half of \<open>services/config_apply.py\<close>: the difference to the
  configuration stored before, and its execution on the rows the portal reads.

  \<open>datetime.fromisoformat\<close> is a parameter (\<open>isodate\<close>); an apply that raises is not committed.
\<close>

section \<open>The plan\<close>

datatype subject_action = Create | Update | Unchanged

record apply_plan =
  pl_subject_action :: subject_action
  pl_subject_fields_changed :: "string list"
  pl_new_s3_files :: "(string \<times> string) list"
  pl_removed_s3_keys :: "string list"
  pl_to_create :: "string list"
  pl_to_update :: "(string \<times> string list) list"
  pl_to_delete :: "string list"

definition none_if_falsy :: "json \<Rightarrow> json" where
  "none_if_falsy v = (if truthy v then v else JNull)"

fun str_value :: "string option \<Rightarrow> json" where
  "str_value None = JNull"
| "str_value (Some s) = JStr s"

fun int_value :: "int option \<Rightarrow> json" where
  "int_value None = JNull"
| "int_value (Some n) = JInt n"

definition wanted_name :: "string \<Rightarrow> pydict \<Rightarrow> json" where
  "wanted_name code cfg = dget cfg ''name'' (JStr code)"

definition wanted_description :: "pydict \<Rightarrow> json" where
  "wanted_description cfg = none_if_falsy (dget cfg ''description'' JNull)"

definition meta_changes :: "pydict \<Rightarrow> string \<Rightarrow> subject option \<Rightarrow> apply_error + string list" where
  "meta_changes cfg code s =
     bind_result (parse_squad_max_size cfg) (\<lambda>n.
       let changed = (\<lambda>f new cur. if same_value new cur then [] else [f]) in
       Inr (changed ''name'' (wanted_name code cfg) (str_value (map_option subj_name s)) @
            changed ''description'' (wanted_description cfg) (str_value (Option.bind s subj_description)) @
            changed ''squad_max_size'' (int_value n) (int_value (Option.bind s subj_squad_max_size))))"

text \<open>A file name joined to a path: what is no string cannot be joined.\<close>

definition file_name :: "json \<Rightarrow> py_exn + string" where
  "file_name v = (case v of JStr s \<Rightarrow> Inr s | _ \<Rightarrow> Inl TypeError)"

definition image_key :: "string \<Rightarrow> string \<Rightarrow> string" where
  "image_key code filename = ''subjects/'' @ code @ ''/images/'' @ filename"

definition content_key :: "string \<Rightarrow> string \<Rightarrow> string \<Rightarrow> string" where
  "content_key subject_code code filename = ''subjects/'' @ subject_code @ ''/assignments/'' @ code @ ''/'' @ filename"

definition image_upload ::
  "archive \<Rightarrow> string \<Rightarrow> string \<Rightarrow> json \<Rightarrow> json \<Rightarrow> apply_plan \<Rightarrow> py_exn + apply_plan"
where
  "image_upload ar code column new prev p =
     (if truthy new \<and> \<not> same_value new prev then
        bind_result (file_name new) (\<lambda>f. Inr
          (if ar_exists ar f
           then p\<lparr>pl_new_s3_files := pl_new_s3_files p @ [(f, image_key code f)],
                  pl_subject_fields_changed := pl_subject_fields_changed p @ [column]\<rparr>
           else p))
      else Inr p)"

definition image_removal :: "string \<Rightarrow> string option \<Rightarrow> json \<Rightarrow> json \<Rightarrow> apply_plan \<Rightarrow> py_exn + apply_plan" where
  "image_removal code current_url new prev p =
     (if truthy prev \<and> \<not> same_value prev new \<and> truthy (str_value current_url) then
        bind_result (file_name prev) (\<lambda>f. Inr (p\<lparr>pl_removed_s3_keys := pl_removed_s3_keys p @ [image_key code f]\<rparr>))
      else Inr p)"

definition image_diff ::
  "archive \<Rightarrow> string \<Rightarrow> pydict \<Rightarrow> pydict \<Rightarrow> string \<Rightarrow> string \<Rightarrow> string option \<Rightarrow> apply_plan \<Rightarrow> py_exn + apply_plan"
where
  "image_diff ar code cfg prev_cfg cfg_key column current_url p =
     (let new = dget cfg cfg_key JNull; prev = dget prev_cfg cfg_key JNull in
      bind_result (image_upload ar code column new prev p) (image_removal code current_url new prev))"

text \<open>\<open>for entry in a.get("contentFiles", [])\<close>, then \<open>entry.get("filename")\<close>; a falsy name is skipped.\<close>

definition content_entries :: "pydict \<Rightarrow> py_exn + pydict list" where
  "content_entries a =
     (case dget a ''contentFiles'' (JList []) of
        JList es \<Rightarrow> map_result (\<lambda>e. case e of JObj d \<Rightarrow> Inr d | _ \<Rightarrow> Inl AttributeError) es
      | JObj [] \<Rightarrow> Inr []
      | JObj _ \<Rightarrow> Inl AttributeError
      | JStr '''' \<Rightarrow> Inr []
      | JStr _ \<Rightarrow> Inl AttributeError
      | _ \<Rightarrow> Inl TypeError)"

definition entry_name :: "pydict \<Rightarrow> json" where
  "entry_name e = dget e ''filename'' JNull"

definition local_path :: "string \<Rightarrow> string \<Rightarrow> string" where
  "local_path code filename = ''assignments/'' @ code @ ''/'' @ filename"

fun collect_uploads ::
  "archive \<Rightarrow> string \<Rightarrow> string \<Rightarrow> pydict list \<Rightarrow> py_exn + (string \<times> string) list"
where
  "collect_uploads ar subject_code code [] = Inr []"
| "collect_uploads ar subject_code code (e # es) =
     (if \<not> truthy (entry_name e) then collect_uploads ar subject_code code es
      else
        bind_result (file_name (entry_name e)) (\<lambda>f.
          map_sum id (\<lambda>rest. if ar_exists ar (local_path code f)
                            then (local_path code f, content_key subject_code code f) # rest else rest)
            (collect_uploads ar subject_code code es)))"

definition config_keys :: "string list" where
  "config_keys = [''review_mode'', ''late_policy'', ''max_submissions'', ''download_links'', ''variants_required'',
     ''sandbox'', ''variants'', ''ai_review'', ''grading'']"

definition restrict_keys :: "string list \<Rightarrow> pydict \<Rightarrow> pydict" where
  "restrict_keys ks a = List.map_filter (\<lambda>k. map_option (Pair k) (map_of a k)) ks"

definition simple_fields :: "string list" where
  "simple_fields = [''title'', ''description'', ''deadline'', ''min_grade'', ''max_grade'']"

definition diff_assignment :: "pydict \<Rightarrow> pydict \<Rightarrow> string list" where
  "diff_assignment new prev =
     filter (\<lambda>f. \<not> same_value (dget new f JNull) (dget prev f JNull)) simple_fields @
     (if same_value (JObj (restrict_keys config_keys new)) (JObj (restrict_keys config_keys prev)) then [] else [''config'']) @
     (if same_value (dget new ''contentFiles'' JNull) (dget prev ''contentFiles'' JNull) then [] else [''content_files''])"

definition removed_content :: "string \<Rightarrow> string \<Rightarrow> pydict list \<Rightarrow> pydict list \<Rightarrow> py_exn + string list" where
  "removed_content subject_code code new_entries old_entries =
     map_result (\<lambda>v. map_sum id (content_key subject_code code) (file_name v))
       (filter (\<lambda>v. truthy v \<and> v \<notin> entry_name ` set new_entries) (map entry_name old_entries))"

definition as_dict :: "json \<Rightarrow> py_exn + pydict" where
  "as_dict v = (case v of JObj d \<Rightarrow> Inr d | _ \<Rightarrow> Inl AttributeError)"

definition plan_assignment ::
  "archive \<Rightarrow> string \<Rightarrow> pydict \<Rightarrow> string \<times> json \<Rightarrow> apply_plan \<Rightarrow> py_exn + apply_plan"
where
  "plan_assignment ar subject_code prev_as item p =
     (let code = fst item in
      bind_result (as_dict (snd item)) (\<lambda>a.
      bind_result (content_entries a) (\<lambda>entries.
      bind_result (collect_uploads ar subject_code code entries) (\<lambda>files.
      let p1 = p\<lparr>pl_new_s3_files := pl_new_s3_files p @ files\<rparr> in
      case map_of prev_as code of
        None \<Rightarrow> Inr (p1\<lparr>pl_to_create := pl_to_create p1 @ [code]\<rparr>)
      | Some prev \<Rightarrow>
          bind_result (as_dict prev) (\<lambda>prev_a.
          bind_result (content_entries prev_a) (\<lambda>old_entries.
          bind_result (removed_content subject_code code entries old_entries) (\<lambda>gone.
          let changed = diff_assignment a prev_a; p2 = p1\<lparr>pl_removed_s3_keys := pl_removed_s3_keys p1 @ gone\<rparr> in
          Inr (if changed = [] then p2 else p2\<lparr>pl_to_update := pl_to_update p2 @ [(code, changed)]\<rparr>))))))))"

fun plan_assignments ::
  "archive \<Rightarrow> string \<Rightarrow> pydict \<Rightarrow> (string \<times> json) list \<Rightarrow> apply_plan \<Rightarrow> py_exn + apply_plan"
where
  "plan_assignments ar subject_code prev_as [] p = Inr p"
| "plan_assignments ar subject_code prev_as (item # items) p =
     bind_result (plan_assignment ar subject_code prev_as item p) (plan_assignments ar subject_code prev_as items)"

definition plan_deletes :: "pydict \<Rightarrow> pydict \<Rightarrow> apply_plan \<Rightarrow> apply_plan" where
  "plan_deletes new_as prev_as p =
     p\<lparr>pl_to_delete := filter (\<lambda>code. map_of new_as code = None) (map fst prev_as)\<rparr>"

definition close_plan :: "apply_plan \<Rightarrow> apply_plan" where
  "close_plan p =
     (if pl_subject_action p = Update \<and> pl_subject_fields_changed p = [] \<and> pl_to_create p = [] \<and>
         pl_to_update p = [] \<and> pl_to_delete p = []
      then p\<lparr>pl_subject_action := Unchanged\<rparr> else p)"

definition compute_plan ::
  "archive \<Rightarrow> string \<Rightarrow> pydict \<Rightarrow> pydict \<Rightarrow> subject option \<Rightarrow> apply_error + apply_plan"
where
  "compute_plan ar code cfg prev_cfg s =
     bind_result (meta_changes cfg code s) (\<lambda>fields.
     let p = \<lparr>pl_subject_action = (if s = None then Create else Update), pl_subject_fields_changed = fields,
              pl_new_s3_files = [], pl_removed_s3_keys = [], pl_to_create = [], pl_to_update = [], pl_to_delete = []\<rparr> in
     lift_apply
       (bind_result (case dget prev_cfg ''assignments'' (JObj []) of JObj d \<Rightarrow> Inr d | _ \<Rightarrow> Inl TypeError) (\<lambda>prev_as.
        bind_result (image_diff ar code cfg prev_cfg ''gridPicture'' ''grid_picture_url'' (Option.bind s subj_grid_picture_url) p) (\<lambda>p1.
        bind_result (image_diff ar code cfg prev_cfg ''mainPicture'' ''main_picture_url'' (Option.bind s subj_main_picture_url) p1) (\<lambda>p2.
        bind_result (as_dict (dget cfg ''assignments'' (JObj []))) (\<lambda>new_as.
        bind_result (plan_assignments ar code prev_as new_as p2) (\<lambda>p3.
          Inr (close_plan (plan_deletes new_as prev_as p3)))))))))"


section \<open>Execution\<close>

datatype apply_result = Applied_created string | Applied_updated string | Applied_unchanged

text \<open>A value written to a column: text and integer columns refuse what is neither (a boolean passes for
  an integer), and \<open>NOT NULL\<close> refuses nothing at all.\<close>

fun text_column :: "json \<Rightarrow> apply_error + string" where
  "text_column (JStr s) = Inr s"
| "text_column JNull = Inl IntegrityError"
| "text_column _ = Inl ColumnError"

fun opt_text_column :: "json \<Rightarrow> apply_error + string option" where
  "opt_text_column (JStr s) = Inr (Some s)"
| "opt_text_column JNull = Inr None"
| "opt_text_column _ = Inl ColumnError"

fun int_column :: "json \<Rightarrow> apply_error + int" where
  "int_column (JInt n) = Inr n"
| "int_column (JBool b) = Inr (if b then 1 else 0)"
| "int_column JNull = Inl IntegrityError"
| "int_column _ = Inl ColumnError"

text \<open>\<open>datetime.fromisoformat(str(value))\<close>: \<open>isodate\<close> reads the text, and no text of any other value is a date.\<close>

definition parse_deadline :: "(string \<Rightarrow> int option) \<Rightarrow> json \<Rightarrow> int option" where
  "parse_deadline isodate v =
     (if \<not> truthy v then None
      else case v of JStr s \<Rightarrow> isodate s | JInt n \<Rightarrow> isodate (str_of_int n) | _ \<Rightarrow> None)"

fun upload_files :: "object_store \<Rightarrow> (string \<times> string) list \<Rightarrow> apply_error + (string \<times> string) list" where
  "upload_files None files = Inr []"
| "upload_files (Some up) [] = Inr []"
| "upload_files (Some up) ((path, key) # files) =
     (case up key of
        None \<Rightarrow> Inl (UploadFailed key)
      | Some url \<Rightarrow> map_sum id (Cons (key, url)) (upload_files (Some up) files))"

definition url_of :: "(string \<times> string) list \<Rightarrow> string \<Rightarrow> string option" where
  "url_of urls key = map_of (rev urls) key"

definition image_url :: "(string \<times> string) list \<Rightarrow> string \<Rightarrow> pydict \<Rightarrow> string \<Rightarrow> string option" where
  "image_url urls code cfg cfg_key =
     (case dget cfg cfg_key JNull of JStr f \<Rightarrow> if f = '''' then None else url_of urls (image_key code f) | _ \<Rightarrow> None)"

definition or_else :: "'a option \<Rightarrow> 'a option \<Rightarrow> 'a option" where
  "or_else a b = (case a of Some x \<Rightarrow> Some x | None \<Rightarrow> b)"

definition build_assignment_config :: "pydict \<Rightarrow> pydict" where
  "build_assignment_config a = restrict_keys (config_keys @ [''llm_grading'']) a"

definition build_content_files :: "(string \<times> string) list \<Rightarrow> string \<Rightarrow> string \<Rightarrow> pydict list \<Rightarrow> json list" where
  "build_content_files urls subject_code code entries =
     List.map_filter (\<lambda>e. case entry_name e of
         JStr f \<Rightarrow>
           if f = '''' then None
           else Some (JObj
             [(''url'', JStr (case url_of urls (content_key subject_code code f) of Some u \<Rightarrow> u | None \<Rightarrow> '''')),
              (''display_name'', dget e ''displayName'' (JStr f)), (''filename'', JStr f)])
       | _ \<Rightarrow> None) entries"

definition new_subject ::
  "int \<Rightarrow> int \<Rightarrow> string \<Rightarrow> pydict \<Rightarrow> (string \<times> string) list \<Rightarrow> apply_error + subject"
where
  "new_subject i owner_id code cfg urls =
     bind_result (text_column (wanted_name code cfg)) (\<lambda>name.
     bind_result (opt_text_column (wanted_description cfg)) (\<lambda>description.
     bind_result (parse_squad_max_size cfg) (\<lambda>n.
       Inr \<lparr>subj_id = i, subj_name = name, subj_code = Some code, subj_owner_id = Some owner_id,
            subj_squad_max_size = n, subj_status = Subject_ACTIVE, subj_description = description,
            subj_grid_picture_url = image_url urls code cfg ''gridPicture'',
            subj_main_picture_url = image_url urls code cfg ''mainPicture'',
            subj_classroom_course_id = None, subj_classroom_course_name = None, subj_classroom_connection_id = None,
            subj_classroom_synced_at = None, subj_classroom_sync_error = None\<rparr>)))"

definition apply_subject_field ::
  "string \<Rightarrow> pydict \<Rightarrow> (string \<times> string) list \<Rightarrow> string \<Rightarrow> subject \<Rightarrow> apply_error + subject"
where
  "apply_subject_field code cfg urls f s =
     (if f = ''name'' then map_sum id (\<lambda>t. s\<lparr>subj_name := t\<rparr>) (text_column (wanted_name code cfg))
      else if f = ''description''
      then map_sum id (\<lambda>t. s\<lparr>subj_description := t\<rparr>) (opt_text_column (wanted_description cfg))
      else if f = ''squad_max_size''
      then map_sum id (\<lambda>n. s\<lparr>subj_squad_max_size := n\<rparr>) (parse_squad_max_size cfg)
      else if f = ''grid_picture_url''
      then Inr (s\<lparr>subj_grid_picture_url := or_else (image_url urls code cfg ''gridPicture'') (subj_grid_picture_url s)\<rparr>)
      else if f = ''main_picture_url''
      then Inr (s\<lparr>subj_main_picture_url := or_else (image_url urls code cfg ''mainPicture'') (subj_main_picture_url s)\<rparr>)
      else Inr s)"

fun fold_result :: "('a \<Rightarrow> 's \<Rightarrow> 'e + 's) \<Rightarrow> 'a list \<Rightarrow> 's \<Rightarrow> 'e + 's" where
  "fold_result f [] s = Inr s"
| "fold_result f (x # xs) s = bind_result (f x s) (fold_result f xs)"

definition claim_subject :: "int \<Rightarrow> subject \<Rightarrow> subject" where
  "claim_subject owner_id s = (if subj_owner_id s = None then s\<lparr>subj_owner_id := Some owner_id\<rparr> else s)"

definition apply_subject_fields ::
  "apply_plan \<Rightarrow> int \<Rightarrow> string \<Rightarrow> pydict \<Rightarrow> (string \<times> string) list \<Rightarrow> subject \<Rightarrow> apply_error + subject"
where
  "apply_subject_fields p owner_id code cfg urls s =
     fold_result (apply_subject_field code cfg urls) (pl_subject_fields_changed p) (claim_subject owner_id s)"

text \<open>The check constraint on the grades.\<close>

definition grades_ok :: "subjects_assignment \<Rightarrow> apply_error + subjects_assignment" where
  "grades_ok r =
     (if 0 \<le> asg_min_grade r \<and> asg_min_grade r \<le> asg_max_grade r then Inr r else Inl IntegrityError)"

definition assignment_row :: "db \<Rightarrow> int \<Rightarrow> string \<Rightarrow> subjects_assignment option" where
  "assignment_row d subject_id code =
     find (\<lambda>r. asg_subject_id r = subject_id \<and> asg_code r = Some code) (db_assignments d)"

definition new_assignment ::
  "(string \<Rightarrow> int option) \<Rightarrow> (string \<times> string) list \<Rightarrow> string \<Rightarrow> int \<Rightarrow> string \<Rightarrow> pydict \<Rightarrow> int \<Rightarrow>
     apply_error + subjects_assignment"
where
  "new_assignment isodate urls subject_code subject_id code a i =
     bind_result (lift_apply (content_entries a)) (\<lambda>entries.
     bind_result (text_column (dget a ''title'' (JStr code))) (\<lambda>title.
     bind_result (opt_text_column (none_if_falsy (dget a ''description'' JNull))) (\<lambda>description.
     bind_result (int_column (dget a ''min_grade'' (JInt 0))) (\<lambda>lo.
     bind_result (int_column (dget a ''max_grade'' (JInt 100))) (\<lambda>hi.
     let files = build_content_files urls subject_code code entries in
       grades_ok \<lparr>asg_id = i, asg_subject_id = subject_id, asg_code = Some code, asg_title = title,
         asg_description = description, asg_content_files = (if files = [] then None else Some files),
         asg_coursework_id = None, asg_coursework_title = None, asg_deadline = parse_deadline isodate (dget a ''deadline'' JNull),
         asg_min_grade = lo, asg_max_grade = hi, asg_config = build_assignment_config a\<rparr>)))))"

definition enrol_one :: "int \<Rightarrow> int \<Rightarrow> db \<Rightarrow> db" where
  "enrol_one asg student_id d = snd (add_sa student_id asg d)"

definition create_assignment ::
  "(string \<Rightarrow> int option) \<Rightarrow> (string \<times> string) list \<Rightarrow> string \<Rightarrow> int \<Rightarrow> pydict \<Rightarrow> string \<Rightarrow> db \<Rightarrow> apply_error + db"
where
  "create_assignment isodate urls subject_code subject_id new_as code d =
     bind_result (lift_apply (as_dict (dget new_as code JNull))) (\<lambda>a.
     bind_result (new_assignment isodate urls subject_code subject_id code a (db_next d)) (\<lambda>r.
       if assignment_row d subject_id code \<noteq> None then Inl IntegrityError
       else
         let d1 = d\<lparr>db_assignments := db_assignments d @ [r], db_next := db_next d + 1\<rparr> in
         Inr (fold (enrol_one (asg_id r))
               (map enr_student_id (filter (\<lambda>e. enr_subject_id e = subject_id) (db_enrolments d))) d1)))"

definition apply_assignment_field ::
  "(string \<Rightarrow> int option) \<Rightarrow> (string \<times> string) list \<Rightarrow> string \<Rightarrow> string \<Rightarrow> pydict \<Rightarrow> string \<Rightarrow> subjects_assignment \<Rightarrow>
     apply_error + subjects_assignment"
where
  "apply_assignment_field isodate urls subject_code code a f r =
     (if f = ''title'' then map_sum id (\<lambda>t. r\<lparr>asg_title := t\<rparr>) (text_column (dget a ''title'' (JStr code)))
      else if f = ''description'' then
        map_sum id (\<lambda>t. r\<lparr>asg_description := t\<rparr>) (opt_text_column (none_if_falsy (dget a ''description'' JNull)))
      else if f = ''deadline'' then Inr (r\<lparr>asg_deadline := parse_deadline isodate (dget a ''deadline'' JNull)\<rparr>)
      else if f = ''min_grade'' then map_sum id (\<lambda>n. r\<lparr>asg_min_grade := n\<rparr>) (int_column (dget a ''min_grade'' (JInt 0)))
      else if f = ''max_grade'' then map_sum id (\<lambda>n. r\<lparr>asg_max_grade := n\<rparr>) (int_column (dget a ''max_grade'' (JInt 100)))
      else if f = ''config'' then Inr (r\<lparr>asg_config := build_assignment_config a\<rparr>)
      else if f = ''content_files'' then
        map_sum ApplyExn (\<lambda>es. r\<lparr>asg_content_files := Some (build_content_files urls subject_code code es)\<rparr>) (content_entries a)
      else Inr r)"

definition update_assignment ::
  "(string \<Rightarrow> int option) \<Rightarrow> (string \<times> string) list \<Rightarrow> string \<Rightarrow> int \<Rightarrow> pydict \<Rightarrow> string \<times> string list \<Rightarrow> db \<Rightarrow> apply_error + db"
where
  "update_assignment isodate urls subject_code subject_id new_as item d =
     (case assignment_row d subject_id (fst item) of
        None \<Rightarrow> Inr d
      | Some r \<Rightarrow>
          bind_result (lift_apply (as_dict (dget new_as (fst item) JNull))) (\<lambda>a.
          bind_result (fold_result (apply_assignment_field isodate urls subject_code (fst item) a) (snd item) r) (\<lambda>r1.
          bind_result (grades_ok r1) (\<lambda>r2.
            Inr (d\<lparr>db_assignments := upd_row asg_id (asg_id r) (\<lambda>_. r2) (db_assignments d)\<rparr>)))))"

text \<open>The rows of the students keep their assignment (\<open>ON DELETE RESTRICT\<close>, and the key may not become
  \<open>NULL\<close>); works fetched from Classroom go with it.\<close>

definition delete_assignment :: "int \<Rightarrow> string \<Rightarrow> db \<Rightarrow> apply_error + db" where
  "delete_assignment subject_id code d =
     (case assignment_row d subject_id code of
        None \<Rightarrow> Inr d
      | Some r \<Rightarrow>
          if list_ex (\<lambda>sa. sa_subjects_assignment_id sa = asg_id r) (db_sas d) then Inl IntegrityError
          else
            let gone = map wk_id (filter (\<lambda>w. wk_subjects_assignment_id w = asg_id r) (db_works d)) in
            Inr (d\<lparr>db_assignments := filter (\<lambda>x. asg_id x \<noteq> asg_id r) (db_assignments d),
                   db_works := filter (\<lambda>w. wk_subjects_assignment_id w \<noteq> asg_id r) (db_works d),
                   db_gradings := filter (\<lambda>g. lg_classroom_work_id g \<notin> set gone) (db_gradings d)\<rparr>))"

definition next_version :: "db \<Rightarrow> int \<Rightarrow> int" where
  "next_version d subject_id =
     foldr max (map spc_version (filter (\<lambda>c. spc_subject_id c = subject_id) (db_configs d))) 0 + 1"

definition add_config :: "int \<Rightarrow> string \<Rightarrow> pydict \<Rightarrow> db \<Rightarrow> db" where
  "add_config subject_id sha cfg d =
     d\<lparr>db_configs := db_configs d @
         [\<lparr>spc_id = db_next d, spc_subject_id = subject_id, spc_version = next_version d subject_id,
           spc_content_hash = sha, spc_config = cfg\<rparr>],
       db_next := db_next d + 1\<rparr>"

definition store_subject ::
  "apply_plan \<Rightarrow> int \<Rightarrow> string \<Rightarrow> pydict \<Rightarrow> (string \<times> string) list \<Rightarrow> subject option \<Rightarrow> db \<Rightarrow> apply_error + (subject \<times> db)"
where
  "store_subject p owner_id code cfg urls s d =
     (case s of
        None \<Rightarrow>
          map_sum id (\<lambda>r. (r, d\<lparr>db_subjects := db_subjects d @ [r], db_next := db_next d + 1\<rparr>))
            (new_subject (db_next d) owner_id code cfg urls)
      | Some r \<Rightarrow>
          map_sum id (\<lambda>r1. (r1, d\<lparr>db_subjects := upd_row subj_id (subj_id r) (\<lambda>_. r1) (db_subjects d)\<rparr>))
            (apply_subject_fields p owner_id code cfg urls r))"

definition execute_plan ::
  "(string \<Rightarrow> int option) \<Rightarrow> object_store \<Rightarrow> apply_plan \<Rightarrow> pydict \<Rightarrow> string \<Rightarrow> subject option \<Rightarrow> int \<Rightarrow> string \<Rightarrow> db \<Rightarrow>
     apply_error + (db \<times> apply_result)"
where
  "execute_plan isodate storage p cfg sha s owner_id code d =
     bind_result (upload_files storage (pl_new_s3_files p)) (\<lambda>urls.
     bind_result (store_subject p owner_id code cfg urls s d) (\<lambda>(r, d1).
     bind_result (lift_apply (as_dict (dget cfg ''assignments'' (JObj [])))) (\<lambda>new_as.
     bind_result (fold_result (create_assignment isodate urls code (subj_id r) new_as) (pl_to_create p) d1) (\<lambda>d2.
     bind_result (fold_result (update_assignment isodate urls code (subj_id r) new_as) (pl_to_update p) d2) (\<lambda>d3.
     bind_result (fold_result (delete_assignment (subj_id r)) (pl_to_delete p) d3) (\<lambda>d4.
       Inr (add_config (subj_id r) sha cfg d4,
            if s = None then Applied_created (subj_name r) else Applied_updated (subj_name r))))))))"

section \<open>The service\<close>

definition active_subject :: "db \<Rightarrow> string \<Rightarrow> subject option" where
  "active_subject d code =
     find (\<lambda>s. subj_code s = Some code \<and> subj_status s = Subject_ACTIVE) (db_subjects d)"

definition previous_config :: "db \<Rightarrow> int \<Rightarrow> pydict" where
  "previous_config d subject_id = (case latest_config d subject_id of Some c \<Rightarrow> spc_config c | None \<Rightarrow> [])"

definition check_ownership :: "db \<Rightarrow> string \<Rightarrow> int \<Rightarrow> apply_error + (subject option \<times> pydict)" where
  "check_ownership d code owner_id =
     (case active_subject d code of
        None \<Rightarrow> Inr (None, [])
      | Some s \<Rightarrow>
          if subj_owner_id s \<noteq> None \<and> subj_owner_id s \<noteq> Some owner_id then Inl NotTheOwner
          else Inr (Some s, previous_config d (subj_id s)))"

definition check_duplicate :: "db \<Rightarrow> subject \<Rightarrow> string \<Rightarrow> bool" where
  "check_duplicate d s sha = (map_option spc_content_hash (latest_config d (subj_id s)) = Some sha)"

definition apply_config ::
  "(string \<Rightarrow> int option) \<Rightarrow> object_store \<Rightarrow> archive \<Rightarrow> int \<Rightarrow> db \<Rightarrow> apply_error + (db \<times> apply_result)"
where
  "apply_config isodate storage ar owner_id d =
     bind_result (checked_config ar) (\<lambda>(code, cfg).
     bind_result (check_ownership d code owner_id) (\<lambda>(s, prev_cfg).
       if (case s of Some r \<Rightarrow> check_duplicate d r (ar_sha256 ar) | None \<Rightarrow> False) then Inr (d, Applied_unchanged)
       else
         bind_result (compute_plan ar code cfg prev_cfg s) (\<lambda>p.
           execute_plan isodate storage p cfg (ar_sha256 ar) s owner_id code d)))"

text \<open>The route: whatever goes wrong becomes a message on the dashboard, and nothing was committed.\<close>

definition apply_subject_config ::
  "(string \<Rightarrow> int option) \<Rightarrow> object_store \<Rightarrow> archive \<Rightarrow> int \<Rightarrow> db \<Rightarrow> db \<times> reply"
where
  "apply_subject_config isodate storage ar owner_id d =
     (case apply_config isodate storage ar owner_id d of
        Inr (d', Applied_created _) \<Rightarrow> (d', Redirect ''/teacher?apply_result=created'')
      | Inr (d', Applied_updated _) \<Rightarrow> (d', Redirect ''/teacher?apply_result=updated'')
      | Inr (d', Applied_unchanged) \<Rightarrow> (d', Redirect ''/teacher?apply_result=unchanged'')
      | Inl _ \<Rightarrow> (d, Redirect ''/teacher?apply_error=''))"


section \<open>Looking up values that are equal\<close>

lemma restrict_keys_lookup: "map_of (restrict_keys ks a) k = (if k \<in> set ks then map_of a k else None)"
  by (induction ks) (auto simp: restrict_keys_def map_filter_simps split: option.split)

lemma restrict_keys_distinct: "distinct ks \<Longrightarrow> distinct (map fst (restrict_keys ks a))"
proof (induction ks)
  case (Cons k ks)
  have "fst ` set (restrict_keys ks a) \<subseteq> set ks"
    by (auto simp: restrict_keys_def List.map_filter_def)
  with Cons show ?case by (auto simp: restrict_keys_def map_filter_simps split: option.split)
qed (simp add: restrict_keys_def map_filter_simps)

lemma map_of_canon: "map_of (map (map_prod id canon) d) k = map_option canon (map_of d k)"
  by (induction d) auto

lemma same_dict_lookup:
  assumes "same_value (JObj d) (JObj e)" and "distinct (map fst d)" and "distinct (map fst e)"
  shows "map_option canon (map_of d k) = map_option canon (map_of e k)"
proof -
  let ?d = "map (map_prod id canon) d" and ?e = "map (map_prod id canon) e"
  have "sort_items ?d = sort_items ?e" using assms(1) by (simp add: same_value_def)
  then have "set ?d = set ?e" by (metis set_sort_items)
  moreover have "distinct (map fst ?d)" "distinct (map fst ?e)" using assms(2,3) by (simp_all add: comp_def)
  ultimately have "map_of ?d = map_of ?e" by (simp only: map_of_inject_set)
  then show ?thesis by (simp only: map_of_canon [symmetric])
qed

lemma same_config_lookup:
  assumes "same_value (JObj (restrict_keys config_keys a)) (JObj (restrict_keys config_keys b))" and "k \<in> set config_keys"
  shows "map_option canon (map_of a k) = map_option canon (map_of b k)"
proof -
  have "distinct config_keys" by (simp add: config_keys_def)
  then show ?thesis using same_dict_lookup [OF assms(1) restrict_keys_distinct restrict_keys_distinct, of k] assms(2)
    by (simp add: restrict_keys_lookup)
qed

section \<open>Rows that mirror the configuration\<close>

definition mirrored_fields :: "string list" where
  "mirrored_fields = simple_fields @ [''config'']"

text \<open>Field \<open>f\<close> of the row is what assignment \<open>a\<close> of the configuration says; a value the column cannot hold
  says nothing.\<close>

definition field_mirrors :: "(string \<Rightarrow> int option) \<Rightarrow> string \<Rightarrow> pydict \<Rightarrow> subjects_assignment \<Rightarrow> string \<Rightarrow> bool" where
  "field_mirrors isodate code a r f \<longleftrightarrow>
     (if f = ''title'' then
        (case canon (dget a ''title'' JNull) of JNull \<Rightarrow> asg_title r = code | JStr t \<Rightarrow> asg_title r = t | _ \<Rightarrow> True)
      else if f = ''description'' then
        (case canon (dget a ''description'' JNull) of
           JNull \<Rightarrow> asg_description r = None
         | JStr t \<Rightarrow> asg_description r = (if t = '''' then None else Some t)
         | _ \<Rightarrow> True)
      else if f = ''deadline'' then
        (case canon (dget a ''deadline'' JNull) of
           JNull \<Rightarrow> asg_deadline r = None
         | JStr t \<Rightarrow> asg_deadline r = parse_deadline isodate (JStr t)
         | _ \<Rightarrow> True)
      else if f = ''min_grade'' then
        (case canon (dget a ''min_grade'' JNull) of JNull \<Rightarrow> asg_min_grade r = 0 | JInt n \<Rightarrow> asg_min_grade r = n | _ \<Rightarrow> True)
      else if f = ''max_grade'' then
        (case canon (dget a ''max_grade'' JNull) of JNull \<Rightarrow> asg_max_grade r = 100 | JInt n \<Rightarrow> asg_max_grade r = n | _ \<Rightarrow> True)
      else
        (\<forall>k \<in> set config_keys. map_option canon (map_of (asg_config r) k) = map_option canon (map_of a k)))"

definition row_mirrors :: "(string \<Rightarrow> int option) \<Rightarrow> string \<Rightarrow> pydict \<Rightarrow> subjects_assignment \<Rightarrow> bool" where
  "row_mirrors isodate code a r \<longleftrightarrow> (\<forall>f \<in> set mirrored_fields. field_mirrors isodate code a r f)"

definition config_items :: "pydict \<Rightarrow> pydict" where
  "config_items cfg = (case dget cfg ''assignments'' (JObj []) of JObj d \<Rightarrow> d | _ \<Rightarrow> [])"

text \<open>The assignments of a subject are those of its configuration, each as it says.\<close>

definition in_sync :: "(string \<Rightarrow> int option) \<Rightarrow> db \<Rightarrow> int \<Rightarrow> pydict \<Rightarrow> bool" where
  "in_sync isodate d subject_id cfg \<longleftrightarrow>
     (\<forall>code. case assignment_row d subject_id code of
        None \<Rightarrow> map_of (config_items cfg) code = None
      | Some r \<Rightarrow> \<exists>a. map_of (config_items cfg) code = Some (JObj a) \<and> row_mirrors isodate code a r)"

lemma field_mirrors_simps:
  "field_mirrors isodate code a r ''title'' \<longleftrightarrow>
     (case canon (dget a ''title'' JNull) of JNull \<Rightarrow> asg_title r = code | JStr t \<Rightarrow> asg_title r = t | _ \<Rightarrow> True)"
  "field_mirrors isodate code a r ''description'' \<longleftrightarrow>
     (case canon (dget a ''description'' JNull) of
        JNull \<Rightarrow> asg_description r = None
      | JStr t \<Rightarrow> asg_description r = (if t = '''' then None else Some t)
      | _ \<Rightarrow> True)"
  "field_mirrors isodate code a r ''deadline'' \<longleftrightarrow>
     (case canon (dget a ''deadline'' JNull) of
        JNull \<Rightarrow> asg_deadline r = None
      | JStr t \<Rightarrow> asg_deadline r = parse_deadline isodate (JStr t)
      | _ \<Rightarrow> True)"
  "field_mirrors isodate code a r ''min_grade'' \<longleftrightarrow>
     (case canon (dget a ''min_grade'' JNull) of JNull \<Rightarrow> asg_min_grade r = 0 | JInt n \<Rightarrow> asg_min_grade r = n | _ \<Rightarrow> True)"
  "field_mirrors isodate code a r ''max_grade'' \<longleftrightarrow>
     (case canon (dget a ''max_grade'' JNull) of JNull \<Rightarrow> asg_max_grade r = 100 | JInt n \<Rightarrow> asg_max_grade r = n | _ \<Rightarrow> True)"
  "field_mirrors isodate code a r ''config'' \<longleftrightarrow>
     (\<forall>k \<in> set config_keys. map_option canon (map_of (asg_config r) k) = map_option canon (map_of a k))"
  by (simp_all add: field_mirrors_def)

lemma mirrored_field_cases:
  assumes "f \<in> set mirrored_fields"
  obtains "f = ''title''" | "f = ''description''" | "f = ''deadline''" | "f = ''min_grade''" | "f = ''max_grade''"
    | "f = ''config''"
proof -
  have "f = ''title'' \<or> f = ''description'' \<or> f = ''deadline'' \<or> f = ''min_grade'' \<or> f = ''max_grade'' \<or> f = ''config''"
    using assms by (simp add: mirrored_fields_def simple_fields_def)
  then show thesis by (elim disjE) (erule that)+
qed

lemma field_mirrors_same:
  assumes "f \<in> set mirrored_fields" and "f \<noteq> ''config''" and "canon (dget a f JNull) = canon (dget b f JNull)"
  shows "field_mirrors isodate code a r f = field_mirrors isodate code b r f"
proof (rule mirrored_field_cases [OF assms(1)])
  assume f: "f = ''title''"
  show ?thesis using assms(3) unfolding f field_mirrors_simps by simp
next
  assume f: "f = ''description''"
  show ?thesis using assms(3) unfolding f field_mirrors_simps by simp
next
  assume f: "f = ''deadline''"
  show ?thesis using assms(3) unfolding f field_mirrors_simps by simp
next
  assume f: "f = ''min_grade''"
  show ?thesis using assms(3) unfolding f field_mirrors_simps by simp
next
  assume f: "f = ''max_grade''"
  show ?thesis using assms(3) unfolding f field_mirrors_simps by simp
qed (use assms(2) in simp)

lemma unchanged_field:
  assumes "f \<in> set mirrored_fields" and "f \<notin> set (diff_assignment new prev)"
    and "field_mirrors isodate code prev r f"
  shows "field_mirrors isodate code new r f"
proof (cases "f = ''config''")
  case True
  have "same_value (JObj (restrict_keys config_keys new)) (JObj (restrict_keys config_keys prev))"
  proof (rule ccontr)
    assume "\<not> ?thesis"
    then have "''config'' \<in> set (diff_assignment new prev)" unfolding diff_assignment_def by simp
    with assms(2) show False unfolding True by (rule notE)
  qed
  note lookup = same_config_lookup [OF this]
  show ?thesis using assms(3) lookup unfolding True field_mirrors_simps by simp
next
  case False
  then have simple: "f \<in> set simple_fields" using assms(1) by (simp add: mirrored_fields_def)
  have "same_value (dget new f JNull) (dget prev f JNull)"
  proof (rule ccontr)
    assume "\<not> ?thesis"
    then have "f \<in> set (diff_assignment new prev)" using simple unfolding diff_assignment_def by simp
    with assms(2) show False by (rule notE)
  qed
  then have "canon (dget new f JNull) = canon (dget prev f JNull)" by (simp only: same_value_def)
  from field_mirrors_same [OF assms(1) False this] assms(3) show ?thesis by blast
qed

lemma build_config_lookup: "k \<in> set config_keys \<Longrightarrow> map_of (build_assignment_config a) k = map_of a k"
  by (simp add: build_assignment_config_def restrict_keys_lookup)

lemma dget_default: "dget a k v = (if map_of a k = None then v else dget a k JNull)"
  by (auto simp: dget_def)

lemma text_column_canon: "text_column v = Inr t \<Longrightarrow> v = JStr t"
  by (cases v) auto

lemma opt_text_column_canon: "opt_text_column v = Inr t \<Longrightarrow> v = str_value t"
  by (cases v) auto

lemma int_column_canon: "int_column v = Inr n \<Longrightarrow> canon v = JInt n"
  by (cases v) auto

lemma title_mirrors:
  assumes "text_column (dget a ''title'' (JStr code)) = Inr t"
  shows "case canon (dget a ''title'' JNull) of JNull \<Rightarrow> t = code | JStr u \<Rightarrow> t = u | _ \<Rightarrow> True"
  using text_column_canon [OF assms] by (auto simp: dget_def split: option.splits json.splits)

lemma grade_mirrors:
  assumes "int_column (dget a k (JInt n0)) = Inr n"
  shows "case canon (dget a k JNull) of JNull \<Rightarrow> n = n0 | JInt m \<Rightarrow> n = m | _ \<Rightarrow> True"
  using int_column_canon [OF assms] assms by (auto simp: dget_def split: option.splits json.splits)

lemma description_mirrors:
  assumes "opt_text_column (none_if_falsy (dget a ''description'' JNull)) = Inr t"
  shows "case canon (dget a ''description'' JNull) of
           JNull \<Rightarrow> t = None | JStr u \<Rightarrow> t = (if u = '''' then None else Some u) | _ \<Rightarrow> True"
  using assms by (cases "dget a ''description'' JNull") (auto simp: none_if_falsy_def split: if_splits json.splits)

lemma deadline_mirrors:
  "case canon (dget a ''deadline'' JNull) of
     JNull \<Rightarrow> parse_deadline isodate (dget a ''deadline'' JNull) = None
   | JStr u \<Rightarrow> parse_deadline isodate (dget a ''deadline'' JNull) = parse_deadline isodate (JStr u)
   | _ \<Rightarrow> True"
  by (cases "dget a ''deadline'' JNull") (auto simp: parse_deadline_def split: json.splits)

lemma apply_field_simps:
  "apply_assignment_field isodate urls sc code a ''title'' r =
     map_sum id (\<lambda>t. r\<lparr>asg_title := t\<rparr>) (text_column (dget a ''title'' (JStr code)))"
  "apply_assignment_field isodate urls sc code a ''description'' r =
     map_sum id (\<lambda>t. r\<lparr>asg_description := t\<rparr>) (opt_text_column (none_if_falsy (dget a ''description'' JNull)))"
  "apply_assignment_field isodate urls sc code a ''deadline'' r =
     Inr (r\<lparr>asg_deadline := parse_deadline isodate (dget a ''deadline'' JNull)\<rparr>)"
  "apply_assignment_field isodate urls sc code a ''min_grade'' r =
     map_sum id (\<lambda>n. r\<lparr>asg_min_grade := n\<rparr>) (int_column (dget a ''min_grade'' (JInt 0)))"
  "apply_assignment_field isodate urls sc code a ''max_grade'' r =
     map_sum id (\<lambda>n. r\<lparr>asg_max_grade := n\<rparr>) (int_column (dget a ''max_grade'' (JInt 100)))"
  "apply_assignment_field isodate urls sc code a ''config'' r = Inr (r\<lparr>asg_config := build_assignment_config a\<rparr>)"
  by (simp_all add: apply_assignment_field_def)

lemma applied_field:
  assumes "apply_assignment_field isodate urls sc code a f r = Inr r'" and "f \<in> set mirrored_fields"
  shows "field_mirrors isodate code a r' f"
proof (rule mirrored_field_cases [OF assms(2)])
  assume f: "f = ''title''"
  obtain t where "text_column (dget a ''title'' (JStr code)) = Inr t" "r' = r\<lparr>asg_title := t\<rparr>"
    using assms(1) unfolding f apply_field_simps by (auto simp: map_sum_eq_Inr)
  then show ?thesis using title_mirrors unfolding f field_mirrors_simps by simp
next
  assume f: "f = ''description''"
  obtain t where t: "opt_text_column (none_if_falsy (dget a ''description'' JNull)) = Inr t"
      "r' = r\<lparr>asg_description := t\<rparr>"
    using assms(1) unfolding f apply_field_simps by (auto simp: map_sum_eq_Inr)
  show ?thesis using description_mirrors [OF t(1)] unfolding f field_mirrors_simps t(2)
    by (simp cong: json.case_cong)
next
  assume f: "f = ''deadline''"
  have "r' = r\<lparr>asg_deadline := parse_deadline isodate (dget a ''deadline'' JNull)\<rparr>"
    using assms(1) unfolding f apply_field_simps by simp
  then show ?thesis using deadline_mirrors [of _ a] unfolding f field_mirrors_simps
    by (simp cong: json.case_cong)
next
  assume f: "f = ''min_grade''"
  obtain n where "int_column (dget a ''min_grade'' (JInt 0)) = Inr n" "r' = r\<lparr>asg_min_grade := n\<rparr>"
    using assms(1) unfolding f apply_field_simps by (auto simp: map_sum_eq_Inr)
  then show ?thesis using grade_mirrors unfolding f field_mirrors_simps by simp
next
  assume f: "f = ''max_grade''"
  obtain n where "int_column (dget a ''max_grade'' (JInt 100)) = Inr n" "r' = r\<lparr>asg_max_grade := n\<rparr>"
    using assms(1) unfolding f apply_field_simps by (auto simp: map_sum_eq_Inr)
  then show ?thesis using grade_mirrors unfolding f field_mirrors_simps by simp
next
  assume f: "f = ''config''"
  show ?thesis using assms(1) unfolding f apply_field_simps field_mirrors_simps by (auto simp: build_config_lookup)
qed

text \<open>What a field writes, and that it is read by no other field.\<close>

lemma field_mirrors_other:
  "g \<noteq> ''title'' \<Longrightarrow> field_mirrors isodate code b (r\<lparr>asg_title := t\<rparr>) g = field_mirrors isodate code b r g"
  "g \<noteq> ''description'' \<Longrightarrow> field_mirrors isodate code b (r\<lparr>asg_description := u\<rparr>) g = field_mirrors isodate code b r g"
  "g \<noteq> ''deadline'' \<Longrightarrow> field_mirrors isodate code b (r\<lparr>asg_deadline := v\<rparr>) g = field_mirrors isodate code b r g"
  "g \<noteq> ''min_grade'' \<Longrightarrow> field_mirrors isodate code b (r\<lparr>asg_min_grade := m\<rparr>) g = field_mirrors isodate code b r g"
  "g \<noteq> ''max_grade'' \<Longrightarrow> field_mirrors isodate code b (r\<lparr>asg_max_grade := m\<rparr>) g = field_mirrors isodate code b r g"
  "field_mirrors isodate code b (r\<lparr>asg_content_files := c\<rparr>) g = field_mirrors isodate code b r g"
  by (simp_all add: field_mirrors_def cong: json.case_cong)

lemma other_fields:
  assumes "apply_assignment_field isodate urls sc code a f r = Inr r'" and "f \<in> set (mirrored_fields @ [''content_files''])"
    and "g \<in> set mirrored_fields" and "g \<noteq> f"
  shows "field_mirrors isodate code b r' g = field_mirrors isodate code b r g"
proof (cases "f = ''content_files''")
  case True
  then obtain c where "r' = r\<lparr>asg_content_files := c\<rparr>"
    using assms(1) by (auto simp: apply_assignment_field_def map_sum_eq_Inr)
  then show ?thesis by (simp add: field_mirrors_other)
next
  case False
  then have "f \<in> set mirrored_fields" using assms(2) by simp
  then show ?thesis
  proof (rule mirrored_field_cases)
    assume "f = ''config''"
    then have f: "r' = r\<lparr>asg_config := build_assignment_config a\<rparr>" "g \<noteq> ''config''"
      using assms(1,4) by (simp_all add: apply_field_simps)
    show ?thesis
      by (rule mirrored_field_cases [OF assms(3)])
        (simp_all add: f field_mirrors_simps cong: json.case_cong)
  qed (use assms(1,4) in \<open>auto simp: apply_field_simps map_sum_eq_Inr field_mirrors_other\<close>)
qed

lemma applied_field_keys:
  assumes "apply_assignment_field isodate urls sc code a f r = Inr r'"
  shows "asg_id r' = asg_id r \<and> asg_subject_id r' = asg_subject_id r \<and> asg_code r' = asg_code r"
  using assms by (auto simp: apply_assignment_field_def map_sum_eq_Inr split: if_splits)


section \<open>What each step does to the assignments\<close>

text \<open>Ids are unique and taken from the counter, and a code names one assignment of a subject (the unique
  constraint).\<close>

definition rows_ok :: "db \<Rightarrow> bool" where
  "rows_ok d \<longleftrightarrow> distinct (map asg_id (db_assignments d)) \<and>
     (\<forall>r \<in> set (db_assignments d). asg_id r < db_next d \<and> asg_subject_id r < db_next d) \<and>
     (\<forall>r \<in> set (db_assignments d). \<forall>r' \<in> set (db_assignments d).
        asg_subject_id r = asg_subject_id r' \<and> asg_code r = asg_code r' \<and> asg_code r \<noteq> None \<longrightarrow> r = r')"

text \<open>From \<open>d\<close> to \<open>d'\<close> only assignments of \<open>subject_id\<close> with a code in \<open>C\<close> changed, each as \<open>Q\<close> says.\<close>

definition changes ::
  "int \<Rightarrow> string set \<Rightarrow> (string \<Rightarrow> subjects_assignment option \<Rightarrow> subjects_assignment option \<Rightarrow> bool) \<Rightarrow> db \<Rightarrow> db \<Rightarrow> bool"
where
  "changes subject_id C Q d d' \<longleftrightarrow> rows_ok d' \<and> db_next d \<le> db_next d' \<and>
     db_subjects d' = db_subjects d \<and> db_configs d' = db_configs d \<and>
     (\<forall>s c. s \<noteq> subject_id \<or> c \<notin> C \<longrightarrow> assignment_row d' s c = assignment_row d s c) \<and>
     (\<forall>c \<in> C. Q c (assignment_row d subject_id c) (assignment_row d' subject_id c))"

lemma assignment_row_Some:
  "assignment_row d s c = Some r \<Longrightarrow> r \<in> set (db_assignments d) \<and> asg_subject_id r = s \<and> asg_code r = Some c"
  by (auto simp: assignment_row_def find_Some_iff)

lemma assignment_row_iff:
  assumes "rows_ok d"
  shows "assignment_row d s c = Some r \<longleftrightarrow> r \<in> set (db_assignments d) \<and> asg_subject_id r = s \<and> asg_code r = Some c"
proof
  assume r: "r \<in> set (db_assignments d) \<and> asg_subject_id r = s \<and> asg_code r = Some c"
  then have "assignment_row d s c \<noteq> None" by (auto simp: assignment_row_def find_None_iff)
  then obtain r' where r': "assignment_row d s c = Some r'" by blast
  with assignment_row_Some [OF r'] r assms have "r' = r" unfolding rows_ok_def by (metis option.distinct(1))
  with r' show "assignment_row d s c = Some r" by simp
qed (rule assignment_row_Some)

lemma same_option: "(\<And>x. a = Some x \<longleftrightarrow> b = Some x) \<Longrightarrow> a = b"
  by (cases a; cases b) auto

lemma changes_at: "changes s C Q d d' \<Longrightarrow> c \<in> C \<Longrightarrow> Q c (assignment_row d s c) (assignment_row d' s c)"
  by (simp add: changes_def)

lemma changes_refl: "rows_ok d \<Longrightarrow> changes s {} Q d d"
  by (simp add: changes_def)

lemma fold_changes:
  assumes "fold_result f xs d = Inr d'" and "rows_ok d" and "distinct (map key xs)" and "s < db_next d"
    and step: "\<And>x d d'. x \<in> set xs \<Longrightarrow> rows_ok d \<Longrightarrow> s < db_next d \<Longrightarrow> f x d = Inr d' \<Longrightarrow> changes s {key x} Q d d'"
  shows "changes s (key ` set xs) Q d d'"
  using assms
proof (induction xs arbitrary: d)
  case Nil
  then show ?case by (simp add: changes_refl)
next
  case (Cons x xs)
  obtain d1 where x: "f x d = Inr d1" and xs: "fold_result f xs d1 = Inr d'"
    using Cons.prems(1) by (auto simp: bind_result_eq_Inr)
  have c1: "changes s {key x} Q d d1" by (rule Cons.prems(5) [OF _ Cons.prems(2,4) x]) simp
  have "changes s (key ` set xs) Q d1 d'"
  proof (rule Cons.IH [OF xs])
    show "rows_ok d1" using c1 by (simp add: changes_def)
    show "distinct (map key xs)" using Cons.prems(3) by simp
    show "s < db_next d1" using c1 Cons.prems(4) by (simp add: changes_def)
    show "\<And>x d d'. x \<in> set xs \<Longrightarrow> rows_ok d \<Longrightarrow> s < db_next d \<Longrightarrow> f x d = Inr d' \<Longrightarrow> changes s {key x} Q d d'"
      using Cons.prems(5) by simp
  qed
  moreover have "key x \<notin> key ` set xs" using Cons.prems(3) by auto
  ultimately show ?case using c1 unfolding changes_def by auto (metis image_eqI)
qed

lemma enrol_all_rows:
  "db_assignments (fold (enrol_one a) ss d) = db_assignments d"
  "db_next d \<le> db_next (fold (enrol_one a) ss d)"
  "db_subjects (fold (enrol_one a) ss d) = db_subjects d" "db_configs (fold (enrol_one a) ss d) = db_configs d"
proof (induction ss arbitrary: d)
  case (Cons s ss)
  {
    case 1
    show ?case using Cons.IH(1) [of "enrol_one a s d"] by (simp add: enrol_one_def add_sa_def)
  next
    case 2
    show ?case using Cons.IH(2) [of "enrol_one a s d"] by (simp add: enrol_one_def add_sa_def)
  next
    case 3
    show ?case using Cons.IH(3) [of "enrol_one a s d"] by (simp add: enrol_one_def add_sa_def)
  next
    case 4
    show ?case using Cons.IH(4) [of "enrol_one a s d"] by (simp add: enrol_one_def add_sa_def)
  }
qed simp_all

lemma assignment_row_cong: "db_assignments d' = db_assignments d \<Longrightarrow> assignment_row d' s c = assignment_row d s c"
  by (simp add: assignment_row_def)

definition created_as ::
  "(string \<Rightarrow> int option) \<Rightarrow> pydict \<Rightarrow> string \<Rightarrow> subjects_assignment option \<Rightarrow> subjects_assignment option \<Rightarrow> bool"
where
  "created_as isodate new_as c old new \<longleftrightarrow>
     (\<exists>a r. map_of new_as c = Some (JObj a) \<and> new = Some r \<and> row_mirrors isodate c a r)"

lemma row_mirrorsI:
  "(\<And>f. f \<in> set mirrored_fields \<Longrightarrow> field_mirrors isodate c a r f) \<Longrightarrow> row_mirrors isodate c a r"
  by (simp add: row_mirrors_def)

lemma new_assignment_Inr:
  assumes "new_assignment isodate urls sc subject_id code a i = Inr r"
  shows "asg_id r = i \<and> asg_subject_id r = subject_id \<and> asg_code r = Some code" and "row_mirrors isodate code a r"
proof -
  obtain title description lo hi where
    t: "text_column (dget a ''title'' (JStr code)) = Inr title"
    and u: "opt_text_column (none_if_falsy (dget a ''description'' JNull)) = Inr description"
    and lo: "int_column (dget a ''min_grade'' (JInt 0)) = Inr lo" and hi: "int_column (dget a ''max_grade'' (JInt 100)) = Inr hi"
    and r: "asg_id r = i" "asg_subject_id r = subject_id" "asg_code r = Some code" "asg_title r = title"
      "asg_description r = description" "asg_deadline r = parse_deadline isodate (dget a ''deadline'' JNull)"
      "asg_min_grade r = lo" "asg_max_grade r = hi" "asg_config r = build_assignment_config a"
    using assms unfolding new_assignment_def Let_def grades_ok_def by (auto simp: bind_result_eq_Inr split: if_splits)
  show "asg_id r = i \<and> asg_subject_id r = subject_id \<and> asg_code r = Some code" using r by simp
  have lookup: "\<forall>k \<in> set config_keys. map_option canon (map_of (asg_config r) k) = map_option canon (map_of a k)"
    by (simp add: r build_config_lookup)
  show "row_mirrors isodate code a r"
  proof (rule row_mirrorsI)
    fix f
    assume "f \<in> set mirrored_fields"
    then show "field_mirrors isodate code a r f"
    proof (rule mirrored_field_cases)
      assume f: "f = ''title''"
      show ?thesis using title_mirrors [OF t] unfolding f field_mirrors_simps r by (simp cong: json.case_cong)
    next
      assume f: "f = ''description''"
      show ?thesis using description_mirrors [OF u] unfolding f field_mirrors_simps r by (simp cong: json.case_cong)
    next
      assume f: "f = ''deadline''"
      show ?thesis using deadline_mirrors [of _ a] unfolding f field_mirrors_simps r by (simp cong: json.case_cong)
    next
      assume f: "f = ''min_grade''"
      show ?thesis using grade_mirrors [OF lo] unfolding f field_mirrors_simps r by (simp cong: json.case_cong)
    next
      assume f: "f = ''max_grade''"
      show ?thesis using grade_mirrors [OF hi] unfolding f field_mirrors_simps r by (simp cong: json.case_cong)
    next
      assume f: "f = ''config''"
      show ?thesis using lookup unfolding f field_mirrors_simps .
    qed
  qed
qed

lemma create_changes:
  assumes "create_assignment isodate urls sc subject_id new_as code d = Inr d'" and ok: "rows_ok d"
    and "subject_id < db_next d"
  shows "changes subject_id {code} (created_as isodate new_as) d d'"
proof -
  obtain a r where a: "as_dict (dget new_as code JNull) = Inr a"
    and r: "new_assignment isodate urls sc subject_id code a (db_next d) = Inr r"
    and none: "assignment_row d subject_id code = None"
    and d': "d' = fold (enrol_one (asg_id r)) (map enr_student_id (filter (\<lambda>e. enr_subject_id e = subject_id) (db_enrolments d)))
                 (d\<lparr>db_assignments := db_assignments d @ [r], db_next := db_next d + 1\<rparr>)"
    using assms(1) unfolding create_assignment_def Let_def by (auto simp: bind_result_eq_Inr split: if_splits)
  note keys = new_assignment_Inr [OF r]
  have as: "db_assignments d' = db_assignments d @ [r]" by (simp add: d' enrol_all_rows)
  have next': "db_next d + 1 \<le> db_next d'" unfolding d' by (rule order_trans [OF _ enrol_all_rows(2)]) simp
  have fresh: "x \<in> set (db_assignments d) \<Longrightarrow> asg_code x = Some code \<Longrightarrow> asg_subject_id x \<noteq> subject_id" for x
    using none by (auto simp: assignment_row_def find_None_iff)
  have rows: "rows_ok d'"
  proof -
    have "distinct (map asg_id (db_assignments d'))"
      using ok keys(1) by (auto simp: rows_ok_def as)
    moreover have "\<forall>x \<in> set (db_assignments d'). asg_id x < db_next d' \<and> asg_subject_id x < db_next d'"
      using ok keys(1) next' assms(3) unfolding rows_ok_def as by fastforce
    moreover have "\<forall>x \<in> set (db_assignments d'). \<forall>y \<in> set (db_assignments d').
        asg_subject_id x = asg_subject_id y \<and> asg_code x = asg_code y \<and> asg_code x \<noteq> None \<longrightarrow> x = y"
    proof (intro ballI impI)
      fix x y
      assume xy: "x \<in> set (db_assignments d')" "y \<in> set (db_assignments d')"
        "asg_subject_id x = asg_subject_id y \<and> asg_code x = asg_code y \<and> asg_code x \<noteq> None"
      then consider "x = r" "y = r" | "x = r" "y \<in> set (db_assignments d)" | "x \<in> set (db_assignments d)" "y = r"
        | "x \<in> set (db_assignments d)" "y \<in> set (db_assignments d)"
        unfolding as by fastforce
      then show "x = y"
        by cases (use xy(3) ok keys(1) fresh [of x] fresh [of y] in \<open>auto simp: rows_ok_def\<close>)
    qed
    ultimately show ?thesis by (simp add: rows_ok_def)
  qed
  have "map_of new_as code = Some (JObj a)"
    using a by (auto simp: as_dict_def dget_def split: json.splits option.splits)
  moreover have "assignment_row d' subject_id code = Some r"
    using keys(1) rows by (simp add: assignment_row_iff as)
  moreover have "assignment_row d' s c = assignment_row d s c" if "s \<noteq> subject_id \<or> c \<noteq> code" for s c
  proof (rule same_option)
    show "assignment_row d' s c = Some x \<longleftrightarrow> assignment_row d s c = Some x" for x
      using that keys(1) by (auto simp: assignment_row_iff [OF rows] assignment_row_iff [OF ok] as)
  qed
  ultimately show ?thesis using rows next' keys(2)
    by (auto simp: changes_def created_as_def d' enrol_all_rows)
qed


definition updated_as ::
  "(string \<Rightarrow> int option) \<Rightarrow> pydict \<Rightarrow> string list \<Rightarrow> string \<Rightarrow> subjects_assignment option \<Rightarrow> subjects_assignment option \<Rightarrow> bool"
where
  "updated_as isodate new_as changed c old new \<longleftrightarrow>
     (case old of
        None \<Rightarrow> new = None
      | Some r \<Rightarrow> \<exists>a r'. map_of new_as c = Some (JObj a) \<and> new = Some r' \<and>
          (\<forall>f \<in> set mirrored_fields.
             if f \<in> set changed then field_mirrors isodate c a r' f
             else \<forall>b. field_mirrors isodate c b r' f = field_mirrors isodate c b r f))"

lemma applied_fields:
  assumes "fold_result (apply_assignment_field isodate urls sc code a) fs r = Inr r'"
    and "set fs \<subseteq> set (mirrored_fields @ [''content_files''])"
  shows "asg_id r' = asg_id r \<and> asg_subject_id r' = asg_subject_id r \<and> asg_code r' = asg_code r"
    and "\<forall>g \<in> set mirrored_fields.
           if g \<in> set fs then field_mirrors isodate code a r' g
           else \<forall>b. field_mirrors isodate code b r' g = field_mirrors isodate code b r g"
  using assms
proof (induction fs arbitrary: r)
  case (Cons f fs)
  {
    case 1
    then obtain r1 where r1: "apply_assignment_field isodate urls sc code a f r = Inr r1"
      and r': "fold_result (apply_assignment_field isodate urls sc code a) fs r1 = Inr r'"
      by (auto simp: bind_result_eq_Inr)
    show ?case using Cons.IH(1) [OF r'] applied_field_keys [OF r1] 1(2) by simp
  next
    case 2
    then obtain r1 where r1: "apply_assignment_field isodate urls sc code a f r = Inr r1"
      and r': "fold_result (apply_assignment_field isodate urls sc code a) fs r1 = Inr r'"
      by (auto simp: bind_result_eq_Inr)
    have IH: "\<forall>g \<in> set mirrored_fields.
        if g \<in> set fs then field_mirrors isodate code a r' g
        else \<forall>b. field_mirrors isodate code b r' g = field_mirrors isodate code b r1 g"
      by (rule Cons.IH(2) [OF r']) (use 2(2) in simp)
    have f: "f \<in> set (mirrored_fields @ [''content_files''])" using 2(2) by simp
    show ?case
    proof
      fix g
      assume g: "g \<in> set mirrored_fields"
      show "if g \<in> set (f # fs) then field_mirrors isodate code a r' g
          else \<forall>b. field_mirrors isodate code b r' g = field_mirrors isodate code b r g"
      proof (cases "g \<in> set fs")
        case True
        then show ?thesis using IH g by simp
      next
        case False
        then have same: "\<forall>b. field_mirrors isodate code b r' g = field_mirrors isodate code b r1 g" using IH g by simp
        show ?thesis
        proof (cases "g = f")
          case True
          then show ?thesis using same applied_field [OF r1] g by simp
        next
          case False
          then show ?thesis using same other_fields [OF r1 f g False] \<open>g \<notin> set fs\<close> by simp
        qed
      qed
    qed
  }
qed simp_all

lemma diff_fields: "set (diff_assignment new prev) \<subseteq> set (mirrored_fields @ [''content_files''])"
  unfolding diff_assignment_def mirrored_fields_def by auto

lemma replace_rows:
  assumes "rows_ok d" and "r \<in> set (db_assignments d)"
    and "asg_id r' = asg_id r \<and> asg_subject_id r' = asg_subject_id r \<and> asg_code r' = asg_code r"
  shows "rows_ok (d\<lparr>db_assignments := upd_row asg_id (asg_id r) (\<lambda>_. r') (db_assignments d)\<rparr>)"
    and "assignment_row (d\<lparr>db_assignments := upd_row asg_id (asg_id r) (\<lambda>_. r') (db_assignments d)\<rparr>) s c =
      (if s = asg_subject_id r \<and> asg_code r = Some c then Some r' else assignment_row d s c)"
proof -
  let ?d = "d\<lparr>db_assignments := upd_row asg_id (asg_id r) (\<lambda>_. r') (db_assignments d)\<rparr>"
  have inj: "x \<in> set (db_assignments d) \<Longrightarrow> asg_id x = asg_id r \<Longrightarrow> x = r" for x
    using assms(1,2) by (auto simp: rows_ok_def distinct_map dest: inj_onD)
  have mem: "x \<in> set (db_assignments ?d) \<longleftrightarrow> x = r' \<or> x \<in> set (db_assignments d) \<and> x \<noteq> r" for x
    using assms(2) inj by (auto simp: upd_row_def image_iff)
  have ids: "map asg_id (db_assignments ?d) = map asg_id (db_assignments d)"
    using assms(3) by (auto simp: upd_row_def)
  have uniq: "x \<in> set (db_assignments d) \<Longrightarrow> y \<in> set (db_assignments d) \<Longrightarrow> asg_subject_id x = asg_subject_id y \<Longrightarrow>
      asg_code x = asg_code y \<Longrightarrow> asg_code x \<noteq> None \<Longrightarrow> x = y" for x y
    using assms(1) unfolding rows_ok_def by blast
  have "\<forall>x \<in> set (db_assignments ?d). \<forall>y \<in> set (db_assignments ?d).
      asg_subject_id x = asg_subject_id y \<and> asg_code x = asg_code y \<and> asg_code x \<noteq> None \<longrightarrow> x = y"
  proof (intro ballI impI)
    fix x y
    assume x: "x \<in> set (db_assignments ?d)" and y: "y \<in> set (db_assignments ?d)"
      and key: "asg_subject_id x = asg_subject_id y \<and> asg_code x = asg_code y \<and> asg_code x \<noteq> None"
    have x': "x = r' \<or> x \<in> set (db_assignments d) \<and> x \<noteq> r" using x mem [of x] by blast
    have y': "y = r' \<or> y \<in> set (db_assignments d) \<and> y \<noteq> r" using y mem [of y] by blast
    show "x = y"
    proof (cases "x = r'")
      case True
      then show ?thesis using y' key assms(2,3) uniq [OF _ assms(2), of y] by metis
    next
      case False
      then show ?thesis using x' y' key assms(2,3) uniq [OF _ assms(2), of x] uniq [of x y] by metis
    qed
  qed
  moreover have "asg_id x < db_next ?d \<and> asg_subject_id x < db_next ?d" if "x \<in> set (db_assignments ?d)" for x
    using that mem [of x] assms by (auto simp: rows_ok_def)
  ultimately show ok: "rows_ok ?d" using assms(1) ids by (simp add: rows_ok_def)
  show "assignment_row ?d s c = (if s = asg_subject_id r \<and> asg_code r = Some c then Some r' else assignment_row d s c)"
  proof (rule same_option)
    show "assignment_row ?d s c = Some x \<longleftrightarrow>
        (if s = asg_subject_id r \<and> asg_code r = Some c then Some r' else assignment_row d s c) = Some x" for x
      unfolding assignment_row_iff [OF ok] mem using assms(2,3) uniq [of x r]
      by (auto simp: assignment_row_iff [OF assms(1)])
  qed
qed

lemma update_changes:
  assumes "update_assignment isodate urls sc subject_id new_as item d = Inr d'" and ok: "rows_ok d"
    and "set (snd item) \<subseteq> set (mirrored_fields @ [''content_files''])"
  shows "changes subject_id {fst item} (\<lambda>c. updated_as isodate new_as (snd item) c) d d'"
proof (cases "assignment_row d subject_id (fst item)")
  case None
  then have "d' = d" using assms(1) by (simp add: update_assignment_def)
  then show ?thesis using ok None by (simp add: changes_def updated_as_def)
next
  case (Some r)
  then obtain a r1 where a: "as_dict (dget new_as (fst item) JNull) = Inr a"
    and r1: "fold_result (apply_assignment_field isodate urls sc (fst item) a) (snd item) r = Inr r1"
    and d': "d' = d\<lparr>db_assignments := upd_row asg_id (asg_id r) (\<lambda>_. r1) (db_assignments d)\<rparr>"
    using assms(1) unfolding update_assignment_def grades_ok_def by (auto simp: bind_result_eq_Inr split: if_splits)
  note r = assignment_row_Some [OF Some]
  note fields = applied_fields [OF r1 assms(3)]
  have row: "assignment_row d' s c = (if s = subject_id \<and> c = fst item then Some r1 else assignment_row d s c)" for s c
    unfolding d' using replace_rows(2) [OF ok _ fields(1), of s c] r by auto
  have "map_of new_as (fst item) = Some (JObj a)"
    using a by (auto simp: as_dict_def dget_def split: json.splits option.splits)
  moreover have "rows_ok d'" unfolding d' by (rule replace_rows(1) [OF ok _ fields(1)]) (use r in simp)
  ultimately show ?thesis using fields(2) row Some by (simp add: changes_def updated_as_def d')
qed

lemma delete_changes:
  assumes "delete_assignment subject_id code d = Inr d'" and ok: "rows_ok d"
  shows "changes subject_id {code} (\<lambda>c old new. new = None) d d'"
proof (cases "assignment_row d subject_id code")
  case None
  then have "d' = d" using assms(1) by (simp add: delete_assignment_def)
  then show ?thesis using ok None by (simp add: changes_def)
next
  case (Some r)
  then have as: "db_assignments d' = filter (\<lambda>x. asg_id x \<noteq> asg_id r) (db_assignments d)"
    and rest: "db_next d' = db_next d" "db_subjects d' = db_subjects d" "db_configs d' = db_configs d"
    using assms(1) by (auto simp: delete_assignment_def Let_def split: if_splits)
  note r = assignment_row_Some [OF Some]
  have inj: "x \<in> set (db_assignments d) \<Longrightarrow> asg_id x = asg_id r \<longleftrightarrow> x = r" for x
    using ok r by (auto simp: rows_ok_def distinct_map dest: inj_onD)
  have mem: "x \<in> set (db_assignments d') \<longleftrightarrow> x \<in> set (db_assignments d) \<and> x \<noteq> r" for x
    using inj by (auto simp: as)
  have "distinct (map asg_id (db_assignments d'))" using ok by (auto simp: rows_ok_def as distinct_map intro: inj_on_subset)
  moreover have "asg_id x < db_next d' \<and> asg_subject_id x < db_next d'" if "x \<in> set (db_assignments d')" for x
    using that mem [of x] ok by (auto simp: rows_ok_def rest)
  moreover have "x = y" if "x \<in> set (db_assignments d')" "y \<in> set (db_assignments d')"
    "asg_subject_id x = asg_subject_id y" "asg_code x = asg_code y" "asg_code x \<noteq> None" for x y
    using that mem [of x] mem [of y] ok unfolding rows_ok_def by blast
  ultimately have ok': "rows_ok d'" using ok unfolding rows_ok_def rest by blast
  have uniq: "x \<in> set (db_assignments d) \<Longrightarrow> asg_subject_id x = subject_id \<Longrightarrow> asg_code x = Some code \<Longrightarrow> x = r" for x
    using assignment_row_iff [OF ok, of subject_id code x] Some by simp
  have "assignment_row d' subject_id code = None"
    using assignment_row_iff [OF ok', of subject_id code] mem uniq by (metis option.exhaust)
  moreover have "assignment_row d' s c = assignment_row d s c" if "s \<noteq> subject_id \<or> c \<noteq> code" for s c
  proof (rule same_option)
    show "assignment_row d' s c = Some x \<longleftrightarrow> assignment_row d s c = Some x" for x
      using that r by (auto simp: assignment_row_iff [OF ok'] assignment_row_iff [OF ok] mem)
  qed
  ultimately show ?thesis using ok' rest by (auto simp: changes_def)
qed

section \<open>What the plan says\<close>

definition codes_to_create :: "pydict \<Rightarrow> pydict \<Rightarrow> string list" where
  "codes_to_create prev_as items = map fst (filter (\<lambda>item. map_of prev_as (fst item) = None) items)"

definition fields_to_update :: "pydict \<Rightarrow> string \<times> json \<Rightarrow> (string \<times> string list) list" where
  "fields_to_update prev_as item =
     (case (snd item, map_of prev_as (fst item)) of
        (JObj a, Some (JObj b)) \<Rightarrow> if diff_assignment a b = [] then [] else [(fst item, diff_assignment a b)]
      | _ \<Rightarrow> [])"

lemma planned_assignment:
  assumes "plan_assignment ar sc prev_as item p = Inr p'"
  shows "pl_to_create p' = pl_to_create p @ codes_to_create prev_as [item] \<and>
     pl_to_update p' = pl_to_update p @ fields_to_update prev_as item \<and>
     pl_subject_fields_changed p' = pl_subject_fields_changed p \<and>
     (\<exists>a. snd item = JObj a) \<and> (\<forall>v. map_of prev_as (fst item) = Some v \<longrightarrow> (\<exists>b. v = JObj b))"
proof -
  obtain a entries files where a: "as_dict (snd item) = Inr a" and
    rest: "(let p1 = p\<lparr>pl_new_s3_files := pl_new_s3_files p @ files\<rparr> in
      case map_of prev_as (fst item) of
        None \<Rightarrow> Inr (p1\<lparr>pl_to_create := pl_to_create p1 @ [fst item]\<rparr>)
      | Some prev \<Rightarrow>
          bind_result (as_dict prev) (\<lambda>prev_a.
          bind_result (content_entries prev_a) (\<lambda>old_entries.
          bind_result (removed_content sc (fst item) entries old_entries) (\<lambda>gone.
          let changed = diff_assignment a prev_a; p2 = p1\<lparr>pl_removed_s3_keys := pl_removed_s3_keys p1 @ gone\<rparr> in
          Inr (if changed = [] then p2 else p2\<lparr>pl_to_update := pl_to_update p2 @ [(fst item, changed)]\<rparr>))))) = Inr p'"
    using assms unfolding plan_assignment_def Let_def bind_result_eq_Inr by blast
  have item: "snd item = JObj a" using a by (auto simp: as_dict_def split: json.splits)
  show ?thesis
  proof (cases "map_of prev_as (fst item)")
    case None
    then show ?thesis using rest item by (auto simp: codes_to_create_def fields_to_update_def Let_def)
  next
    case (Some v)
    let ?q = "p\<lparr>pl_new_s3_files := pl_new_s3_files p @ files\<rparr>"
    let ?r = "\<lambda>gone. ?q\<lparr>pl_removed_s3_keys := pl_removed_s3_keys ?q @ gone\<rparr>"
    obtain b gone where b: "as_dict v = Inr b" and
      p': "Inr (if diff_assignment a b = [] then ?r gone
        else ?r gone\<lparr>pl_to_update := pl_to_update (?r gone) @ [(fst item, diff_assignment a b)]\<rparr>) = (Inr p' :: py_exn + apply_plan)"
      using rest unfolding Let_def Some option.case bind_result_eq_Inr by blast
    have v: "v = JObj b" using b by (auto simp: as_dict_def split: json.splits)
    have "pl_to_create p' = pl_to_create p \<and> pl_subject_fields_changed p' = pl_subject_fields_changed p \<and>
        pl_to_update p' = pl_to_update p @ (if diff_assignment a b = [] then [] else [(fst item, diff_assignment a b)])"
      using p' by (cases "diff_assignment a b = []") auto
    then show ?thesis using Some item v
      by (simp add: codes_to_create_def fields_to_update_def Let_def)
  qed
qed

lemma planned_assignments:
  assumes "plan_assignments ar sc prev_as items p = Inr p'"
  shows "pl_to_create p' = pl_to_create p @ codes_to_create prev_as items \<and>
     pl_to_update p' = pl_to_update p @ concat (map (fields_to_update prev_as) items) \<and>
     pl_subject_fields_changed p' = pl_subject_fields_changed p \<and>
     (\<forall>item \<in> set items. (\<exists>a. snd item = JObj a) \<and>
        (\<forall>v. map_of prev_as (fst item) = Some v \<longrightarrow> (\<exists>b. v = JObj b)))"
  using assms
proof (induction items arbitrary: p)
  case (Cons item items)
  then obtain p1 where p1: "plan_assignment ar sc prev_as item p = Inr p1"
    and p': "plan_assignments ar sc prev_as items p1 = Inr p'" by (auto simp: bind_result_eq_Inr)
  show ?case using planned_assignment [OF p1] Cons.IH [OF p'] by (auto simp: codes_to_create_def)
qed (simp add: codes_to_create_def)

lemma image_diff_keeps:
  assumes "image_diff ar sc cfg prev_cfg k column url p = Inr p'"
  shows "pl_to_create p' = pl_to_create p \<and> pl_to_update p' = pl_to_update p"
  using assms unfolding image_diff_def image_upload_def image_removal_def Let_def
  by (auto simp: bind_result_eq_Inr split: if_splits)

lemma close_plan_keeps:
  "pl_to_create (close_plan p) = pl_to_create p \<and> pl_to_update (close_plan p) = pl_to_update p \<and>
     pl_to_delete (close_plan p) = pl_to_delete p"
  by (simp add: close_plan_def)

lemma computed_plan:
  assumes "compute_plan ar sc cfg prev_cfg s = Inr p"
  obtains new_as where "dget cfg ''assignments'' (JObj []) = JObj new_as"
    and "config_items cfg = new_as"
    and "pl_to_create p = codes_to_create (config_items prev_cfg) new_as"
    and "pl_to_update p = concat (map (fields_to_update (config_items prev_cfg)) new_as)"
    and "pl_to_delete p = filter (\<lambda>code. map_of new_as code = None) (map fst (config_items prev_cfg))"
    and "\<forall>item \<in> set new_as. (\<exists>a. snd item = JObj a) \<and>
        (\<forall>v. map_of (config_items prev_cfg) (fst item) = Some v \<longrightarrow> (\<exists>b. v = JObj b))"
proof -
  let ?p0 = "\<lambda>fields. \<lparr>pl_subject_action = (if s = None then Create else Update), pl_subject_fields_changed = fields,
      pl_new_s3_files = [], pl_removed_s3_keys = [], pl_to_create = [], pl_to_update = [], pl_to_delete = []\<rparr>"
  obtain fs prev_v p1 p2 new_as p3 where
    prev_v: "(case dget prev_cfg ''assignments'' (JObj []) of JObj d \<Rightarrow> Inr d | _ \<Rightarrow> Inl TypeError) = Inr prev_v" and
    p1: "image_diff ar sc cfg prev_cfg ''gridPicture'' ''grid_picture_url'' (Option.bind s subj_grid_picture_url) (?p0 fs) = Inr p1" and
    p2: "image_diff ar sc cfg prev_cfg ''mainPicture'' ''main_picture_url'' (Option.bind s subj_main_picture_url) p1 = Inr p2" and
    new_v: "as_dict (dget cfg ''assignments'' (JObj [])) = Inr new_as" and
    p3: "plan_assignments ar sc prev_v new_as p2 = Inr p3" and
    p: "p = close_plan (plan_deletes new_as prev_v p3)"
    using assms unfolding compute_plan_def Let_def bind_result_eq_Inr lift_apply_Inr sum.inject by blast
  define p0 where "p0 = ?p0 fs"
  note p1 = p1 [folded p0_def]
  have p0: "pl_to_create p0 = []" "pl_to_update p0 = []" by (simp_all add: p0_def)
  have prev': "config_items prev_cfg = prev_v" using prev_v by (auto simp: config_items_def split: json.splits)
  have new: "dget cfg ''assignments'' (JObj []) = JObj new_as" using new_v by (auto simp: as_dict_def split: json.splits)
  have new': "config_items cfg = new_as" by (simp add: config_items_def new)
  note planned = planned_assignments [OF p3]
  show thesis
  proof (rule that [OF new new'])
    show "pl_to_create p = codes_to_create (config_items prev_cfg) new_as"
      using planned image_diff_keeps [OF p1] image_diff_keeps [OF p2] p0
      by (simp add: p prev' close_plan_keeps plan_deletes_def)
    show "pl_to_update p = concat (map (fields_to_update (config_items prev_cfg)) new_as)"
      using planned image_diff_keeps [OF p1] image_diff_keeps [OF p2] p0
      by (simp add: p prev' close_plan_keeps plan_deletes_def)
    show "pl_to_delete p = filter (\<lambda>code. map_of new_as code = None) (map fst (config_items prev_cfg))"
      by (simp add: p prev' close_plan_keeps plan_deletes_def)
  qed (use planned prev' in simp)
qed

lemma subset_single_disjoint: "A \<subseteq> {x} \<Longrightarrow> x \<notin> B \<Longrightarrow> A \<inter> B = {}"
  by blast

lemma updated_codes:
  assumes "distinct (map fst items)"
  shows "distinct (map fst (concat (map (fields_to_update prev_as) items)))"
    and "map_of (concat (map (fields_to_update prev_as) items)) c =
      (case map_of items c of None \<Rightarrow> None | Some v \<Rightarrow> map_of (fields_to_update prev_as (c, v)) c)"
proof -
  have one: "fst ` set (fields_to_update prev_as item) \<subseteq> {fst item}"
    "distinct (map fst (fields_to_update prev_as item))" for item
    by (auto simp: fields_to_update_def split: json.splits option.splits if_splits)
  have sub: "fst ` set (concat (map (fields_to_update prev_as) items)) \<subseteq> fst ` set items" for items
  proof (induction items)
    case (Cons x xs)
    then show ?case using one(1) [of x] by (simp add: image_Un) blast
  qed simp
  show "distinct (map fst (concat (map (fields_to_update prev_as) items)))"
    using assms
  proof (induction items)
    case (Cons item items)
    then have "fst item \<notin> fst ` set (concat (map (fields_to_update prev_as) items))"
      using sub [of items] by (auto simp del: set_concat)
    then have "fst ` set (fields_to_update prev_as item) \<inter> fst ` set (concat (map (fields_to_update prev_as) items)) = {}"
      by (rule subset_single_disjoint [OF one(1)])
    with Cons one(2) [of item] show ?case by (simp del: set_concat)
  qed simp
  show "map_of (concat (map (fields_to_update prev_as) items)) c =
      (case map_of items c of None \<Rightarrow> None | Some v \<Rightarrow> map_of (fields_to_update prev_as (c, v)) c)"
    using assms
  proof (induction items)
    case (Cons item items)
    have others: "map_of (fields_to_update prev_as item) c = None" if "c \<noteq> fst item"
      using one(1) [of item] that by (auto simp: map_of_eq_None_iff)
    have split: "map_of (concat (map (fields_to_update prev_as) (item # items))) c =
        (case map_of (fields_to_update prev_as item) c of
           None \<Rightarrow> map_of (concat (map (fields_to_update prev_as) items)) c | Some v \<Rightarrow> Some v)"
      by (simp only: list.map concat.simps map_of_append map_add_def)
    have IH: "map_of (concat (map (fields_to_update prev_as) items)) c =
      (case map_of items c of None \<Rightarrow> None | Some v \<Rightarrow> map_of (fields_to_update prev_as (c, v)) c)"
      using Cons by simp
    show ?case
    proof (cases "c = fst item")
      case True
      then have "map_of items c = None" using Cons.prems by (auto simp: map_of_eq_None_iff)
      moreover have "map_of (item # items) c = Some (snd item)" "(c, snd item) = item" using True by (cases item; simp)+
      ultimately show ?thesis unfolding split IH by (simp only: option.case) (simp split: option.split)
    next
      case False
      then have "map_of (item # items) c = map_of items c" by (cases item) simp
      then show ?thesis unfolding split IH others [OF False] by (simp only: option.case)
    qed
  qed simp
qed


section \<open>The rows after an apply\<close>

lemma codes_to_create_iff: "c \<in> set (codes_to_create prev_as items) \<longleftrightarrow> c \<in> fst ` set items \<and> map_of prev_as c = None"
  by (auto simp: codes_to_create_def)

lemma created_updated_deleted:
  assumes "dget cfg ''assignments'' (JObj []) = JObj items" and "config_items cfg = items" and "distinct (map fst items)"
    and ups: "ups = concat (map (fields_to_update (config_items prev_cfg)) items)"
    and dels: "dels = filter (\<lambda>code. map_of items code = None) (map fst (config_items prev_cfg))"
    and dicts: "\<forall>item \<in> set items. (\<exists>a. snd item = JObj a) \<and>
        (\<forall>v. map_of (config_items prev_cfg) (fst item) = Some v \<longrightarrow> (\<exists>b. v = JObj b))"
    and d2: "changes s (set (codes_to_create (config_items prev_cfg) items)) (created_as isodate items) d1 d2"
    and d3: "changes s (fst ` set ups) (\<lambda>c. updated_as isodate items (the (map_of ups c)) c) d2 d3"
    and d4: "changes s (set dels) (\<lambda>c old new. new = None) d3 d4"
    and sync: "in_sync isodate d1 s prev_cfg"
  shows "in_sync isodate d4 s cfg"
  unfolding in_sync_def assms(2)
proof
  fix c
  note [simp del] = set_concat
  let ?row = "\<lambda>d. assignment_row d s c"
  have prev: "case ?row d1 of
        None \<Rightarrow> map_of (config_items prev_cfg) c = None
      | Some r \<Rightarrow> \<exists>a. map_of (config_items prev_cfg) c = Some (JObj a) \<and> row_mirrors isodate c a r"
    using sync by (simp add: in_sync_def)
  show "case ?row d4 of None \<Rightarrow> map_of items c = None
      | Some r \<Rightarrow> \<exists>a. map_of items c = Some (JObj a) \<and> row_mirrors isodate c a r"
  proof (cases "map_of items c")
    case None
    then have "c \<notin> set (codes_to_create (config_items prev_cfg) items)"
      by (auto simp: codes_to_create_iff map_of_eq_None_iff)
    moreover have "map_of ups c = None" unfolding ups updated_codes(2) [OF assms(3)] None option.case by (rule refl)
    then have "c \<notin> fst ` set ups" by (simp add: map_of_eq_None_iff)
    ultimately have new: "c \<notin> set (codes_to_create (config_items prev_cfg) items)" "c \<notin> fst ` set ups" by blast+
    have "?row d4 = None"
    proof (cases "c \<in> set dels")
      case True
      then show ?thesis using d4 by (simp add: changes_def)
    next
      case False
      then have "map_of (config_items prev_cfg) c = None" using None by (auto simp: dels map_of_eq_None_iff)
      then have "?row d1 = None" using prev by (simp split: option.splits)
      then show ?thesis using d2 d3 d4 new False by (simp add: changes_def)
    qed
    with None show ?thesis by simp
  next
    case (Some v)
    then obtain a where a: "map_of items c = Some (JObj a)" using dicts map_of_SomeD [OF Some] by fastforce
    have "c \<notin> set dels" using Some by (simp add: dels)
    then have d43: "?row d4 = ?row d3" using d4 by (simp add: changes_def)
    have upd: "map_of ups c = map_of (fields_to_update (config_items prev_cfg) (c, JObj a)) c"
      using updated_codes(2) [OF assms(3), of _ c] a by (simp add: ups)
    show ?thesis
    proof (cases "map_of (config_items prev_cfg) c")
      case None
      then have "c \<in> set (codes_to_create (config_items prev_cfg) items)"
        using Some map_of_SomeD [OF Some] by (force simp: codes_to_create_iff)
      then have "created_as isodate items c (?row d1) (?row d2)" using d2 by (simp add: changes_def)
      moreover have "map_of ups c = None" using upd None by (simp add: fields_to_update_def)
      then have "c \<notin> fst ` set ups" by (simp add: map_of_eq_None_iff)
      then have "?row d3 = ?row d2" using d3 by (simp add: changes_def)
      ultimately show ?thesis using a d43 by (auto simp: created_as_def)
    next
      case (Some w)
      then obtain b r where b: "map_of (config_items prev_cfg) c = Some (JObj b)" and r: "?row d1 = Some r"
        and mirrors: "row_mirrors isodate c b r"
        using prev by (auto split: option.splits)
      have "c \<notin> set (codes_to_create (config_items prev_cfg) items)" using Some by (simp add: codes_to_create_iff)
      then have r2: "?row d2 = Some r" using d2 r by (simp add: changes_def)
      have "\<exists>r'. ?row d3 = Some r' \<and> row_mirrors isodate c a r'"
      proof (cases "diff_assignment a b = []")
        case True
        then have "map_of ups c = None" using upd b by (simp add: fields_to_update_def)
        then have "c \<notin> fst ` set ups" by (simp add: map_of_eq_None_iff)
        then have "?row d3 = Some r" using d3 r2 by (simp add: changes_def)
        moreover have "row_mirrors isodate c a r"
          using mirrors unchanged_field [of _ a b] True by (simp add: row_mirrors_def)
        ultimately show ?thesis by blast
      next
        case False
        then have ups_c: "map_of ups c = Some (diff_assignment a b)" using upd b by (simp add: fields_to_update_def)
        then have "c \<in> fst ` set ups" by (metis map_of_eq_None_iff option.distinct(1))
        then have "updated_as isodate items (diff_assignment a b) c (Some r) (?row d3)"
          using changes_at [OF d3, of c] by (simp only: r2 ups_c option.sel)
        then obtain r' where r': "?row d3 = Some r'" and
          fields': "\<forall>f \<in> set mirrored_fields.
             if f \<in> set (diff_assignment a b) then field_mirrors isodate c a r' f
             else \<forall>x. field_mirrors isodate c x r' f = field_mirrors isodate c x r f"
          using a by (auto simp: updated_as_def)
        have "row_mirrors isodate c a r'"
        proof (rule row_mirrorsI)
          fix f
          assume f: "f \<in> set mirrored_fields"
          show "field_mirrors isodate c a r' f"
          proof (cases "f \<in> set (diff_assignment a b)")
            case True
            then show ?thesis using fields' f by simp
          next
            case False
            then have "field_mirrors isodate c a r f"
              using unchanged_field [OF f False] mirrors f by (simp add: row_mirrors_def)
            then show ?thesis using fields' f False by simp
          qed
        qed
        with r' show ?thesis by blast
      qed
      then show ?thesis using a d43 by auto
    qed
  qed
qed


lemma newest_first:
  assumes "\<forall>x \<in> set xs. f y < (f x :: int)"
  shows "\<exists>zs. sort_key f (xs @ [y]) = y # zs"
proof -
  obtain z zs where l: "sort_key f (xs @ [y]) = z # zs"
    by (cases "sort_key f (xs @ [y])") (simp_all flip: length_0_conv)
  have s: "set (z # zs) = insert y (set xs)" unfolding l [symmetric] by simp
  have "sorted (map f (z # zs))" unfolding l [symmetric] by (rule sorted_sort_key)
  then have "\<forall>w \<in> set (z # zs). f z \<le> f w" by auto
  moreover have "y \<in> set (z # zs)" using s by blast
  ultimately have "f z \<le> f y" by blast
  moreover have "z = y \<or> z \<in> set xs" using s by auto
  ultimately have "z = y" using assms by force
  with l show ?thesis by blast
qed

lemma latest_added:
  "latest_config (add_config subject_id sha cfg d) s =
     (if s = subject_id
      then Some \<lparr>spc_id = db_next d, spc_subject_id = subject_id, spc_version = next_version d subject_id,
                 spc_content_hash = sha, spc_config = cfg\<rparr>
      else latest_config d s)"
proof (cases "s = subject_id")
  case True
  let ?xs = "filter (\<lambda>c. spc_subject_id c = subject_id) (db_configs d)"
  let ?new = "\<lparr>spc_id = db_next d, spc_subject_id = subject_id, spc_version = next_version d subject_id,
                 spc_content_hash = sha, spc_config = cfg\<rparr>"
  have "v \<le> foldr max vs (0 :: int)" if "v \<in> set vs" for v vs
    using that by (induction vs) (auto simp: le_max_iff_disj)
  then have "\<forall>c \<in> set ?xs. spc_version c < spc_version ?new"
    by (fastforce simp: next_version_def)
  then have "\<exists>zs. sort_key (\<lambda>c. - spc_version c) (?xs @ [?new]) = ?new # zs"
    by (intro newest_first) simp
  then show ?thesis using True by (auto simp: latest_config_def add_config_def)
next
  case False
  then show ?thesis by (simp add: latest_config_def add_config_def)
qed

lemma latest_config_cong: "db_configs d' = db_configs d \<Longrightarrow> latest_config d' s = latest_config d s"
  by (simp add: latest_config_def)

text \<open>Every subject's assignments are those of its latest configuration; what has no configuration has none.
  The rest is what the keys of the tables keep: ids are unique and below the next one, and a stored
  configuration is a dictionary, with no key twice.\<close>

definition configs_mirrored :: "(string \<Rightarrow> int option) \<Rightarrow> db \<Rightarrow> bool" where
  "configs_mirrored isodate d \<longleftrightarrow>
     rows_ok d \<and> distinct (map subj_id (db_subjects d)) \<and> (\<forall>s \<in> set (db_subjects d). subj_id s < db_next d) \<and>
     (\<forall>c \<in> set (db_configs d). spc_subject_id c < db_next d \<and> distinct (map fst (config_items (spc_config c)))) \<and>
     (\<forall>s \<in> set (db_subjects d). in_sync isodate d (subj_id s) (previous_config d (subj_id s)))"

lemma previous_config_items:
  assumes "configs_mirrored isodate d"
  shows "distinct (map fst (config_items (previous_config d s)))"
proof (cases "latest_config d s")
  case None
  then show ?thesis by (simp add: previous_config_def config_items_def dget_def)
next
  case (Some c)
  then obtain cs where "sort_key (\<lambda>c. - spc_version c) (filter (\<lambda>c. spc_subject_id c = s) (db_configs d)) = c # cs"
    by (auto simp: latest_config_def split: list.splits)
  then have "c \<in> set (sort_key (\<lambda>c. - spc_version c) (filter (\<lambda>c. spc_subject_id c = s) (db_configs d)))"
    by (simp only: list.set_intros)
  then have "c \<in> set (db_configs d)" by simp
  then show ?thesis using assms Some by (simp add: previous_config_def configs_mirrored_def)
qed

lemma active_subject_Some:
  "active_subject d code = Some s \<Longrightarrow> s \<in> set (db_subjects d) \<and> subj_code s = Some code \<and> subj_status s = Subject_ACTIVE"
  by (auto simp: active_subject_def find_Some_iff)

lemma apply_subject_field_keys:
  "apply_subject_field code cfg urls f s = Inr s' \<Longrightarrow>
     subj_id s' = subj_id s \<and> subj_code s' = subj_code s \<and> subj_status s' = subj_status s"
  by (auto simp: apply_subject_field_def map_sum_eq_Inr split: if_splits)

lemma apply_subject_fields_keys:
  assumes "apply_subject_fields p owner_id code cfg urls s = Inr s'"
  shows "subj_id s' = subj_id s \<and> subj_code s' = subj_code s \<and> subj_status s' = subj_status s"
proof -
  have "fold_result (apply_subject_field code cfg urls) fs r = Inr r' \<Longrightarrow>
      subj_id r' = subj_id r \<and> subj_code r' = subj_code r \<and> subj_status r' = subj_status r" for fs r r'
    by (induction fs arbitrary: r) (auto simp: bind_result_eq_Inr dest!: apply_subject_field_keys)
  from this [OF assms [unfolded apply_subject_fields_def]] show ?thesis by (simp add: claim_subject_def split: if_splits)
qed


lemma subject_stored:
  assumes "store_subject p owner_id code cfg urls s d = Inr (r, d1)" and "configs_mirrored isodate d"
    and "s = active_subject d code"
  shows "r \<in> set (db_subjects d1) \<and> subj_code r = Some code \<and> subj_status r = Subject_ACTIVE \<and> subj_id r < db_next d1 \<and>
     distinct (map subj_id (db_subjects d1)) \<and> db_next d \<le> db_next d1 \<and> db_assignments d1 = db_assignments d \<and>
     db_configs d1 = db_configs d \<and>
     (\<forall>x \<in> set (db_subjects d1). x = r \<or> x \<in> set (db_subjects d) \<and> subj_id x \<noteq> subj_id r) \<and>
     in_sync isodate d (subj_id r) (case s of None \<Rightarrow> [] | Some x \<Rightarrow> previous_config d (subj_id x))"
proof (cases s)
  case None
  then obtain r0 where r0: "new_subject (db_next d) owner_id code cfg urls = Inr r"
    and d1: "d1 = d\<lparr>db_subjects := db_subjects d @ [r], db_next := db_next d + 1\<rparr>"
    using assms(1) by (auto simp: store_subject_def map_sum_eq_Inr)
  have r: "subj_id r = db_next d" "subj_code r = Some code" "subj_status r = Subject_ACTIVE"
    using r0 by (auto simp: new_subject_def bind_result_eq_Inr)
  have old: "\<forall>x \<in> set (db_subjects d). subj_id x < db_next d" "distinct (map subj_id (db_subjects d))" "rows_ok d"
    using assms(2) by (simp_all add: configs_mirrored_def)
  have "assignment_row d (db_next d) c = None" for c
    using old(3) by (auto simp: assignment_row_def find_None_iff rows_ok_def)
  then have "in_sync isodate d (subj_id r) []" by (simp add: in_sync_def r config_items_def dget_def)
  then show ?thesis using old r None by (auto simp: d1)
next
  case (Some x)
  then have x: "x \<in> set (db_subjects d)" "subj_code x = Some code" "subj_status x = Subject_ACTIVE"
    using active_subject_Some assms(3) by metis+
  have r: "apply_subject_fields p owner_id code cfg urls x = Inr r"
    and d1: "d1 = d\<lparr>db_subjects := upd_row subj_id (subj_id x) (\<lambda>_. r) (db_subjects d)\<rparr>"
    using assms(1) Some by (auto simp: store_subject_def map_sum_eq_Inr)
  note keys = apply_subject_fields_keys [OF r]
  have inv: "distinct (map subj_id (db_subjects d))" "subj_id x < db_next d"
    "in_sync isodate d (subj_id x) (previous_config d (subj_id x))"
    using assms(2) x(1) by (auto simp: configs_mirrored_def)
  have "map subj_id (db_subjects d1) = map subj_id (db_subjects d)" using keys by (auto simp: d1 upd_row_def)
  moreover have "r \<in> set (db_subjects d1)" using x(1) by (auto simp: d1 upd_row_def image_iff)
  moreover have "\<forall>y \<in> set (db_subjects d1). y = r \<or> y \<in> set (db_subjects d) \<and> subj_id y \<noteq> subj_id r"
    using keys by (auto simp: d1 upd_row_def)
  ultimately show ?thesis using x keys inv Some by (simp add: d1)
qed

lemma config_items_Nil [simp]: "config_items [] = []"
  by (simp add: config_items_def dget_def)

lemma executed_plan:
  assumes "execute_plan isodate storage p cfg sha s owner_id code d = Inr (d', res)" and "configs_mirrored isodate d"
    and "s = active_subject d code" and prev: "prev = (case s of None \<Rightarrow> [] | Some x \<Rightarrow> previous_config d (subj_id x))"
    and p: "compute_plan ar code cfg prev s = Inr p" and "distinct (map fst (config_items cfg))"
  obtains urls r d1 d4 where "store_subject p owner_id code cfg urls s d = Inr (r, d1)"
    and "d' = add_config (subj_id r) sha cfg d4" and "in_sync isodate d4 (subj_id r) cfg"
    and "changes (subj_id r) UNIV (\<lambda>_ _ _. True) d1 d4"
proof -
  obtain urls r d1 new_as d2 d3 d4 where r: "store_subject p owner_id code cfg urls s d = Inr (r, d1)" and
    new_as: "as_dict (dget cfg ''assignments'' (JObj [])) = Inr new_as" and
    d2: "fold_result (create_assignment isodate urls code (subj_id r) new_as) (pl_to_create p) d1 = Inr d2" and
    d3: "fold_result (update_assignment isodate urls code (subj_id r) new_as) (pl_to_update p) d2 = Inr d3" and
    d4: "fold_result (delete_assignment (subj_id r)) (pl_to_delete p) d3 = Inr d4" and
    d': "d' = add_config (subj_id r) sha cfg d4"
    using assms(1) by (auto simp: execute_plan_def bind_result_eq_Inr)
  obtain items where items: "dget cfg ''assignments'' (JObj []) = JObj items" "config_items cfg = items"
    and plan: "pl_to_create p = codes_to_create (config_items prev) items"
      "pl_to_update p = concat (map (fields_to_update (config_items prev)) items)"
      "pl_to_delete p = filter (\<lambda>code. map_of items code = None) (map fst (config_items prev))"
    and dicts: "\<forall>item \<in> set items. (\<exists>a. snd item = JObj a) \<and>
      (\<forall>v. map_of (config_items prev) (fst item) = Some v \<longrightarrow> (\<exists>b. v = JObj b))"
    by (rule computed_plan [OF p])
  have same: "new_as = items" using new_as items(1) by (simp add: as_dict_def)
  note stored = subject_stored [OF r assms(2,3)]
  have keys: "distinct (map fst items)" using assms(6) items by simp
  have prev_keys: "distinct (map fst (config_items prev))"
    using previous_config_items [OF assms(2)] by (simp add: prev split: option.split)
  have ok: "rows_ok d1" using assms(2) stored by (auto simp: configs_mirrored_def rows_ok_def intro: less_le_trans)
  have c2: "changes (subj_id r) (set (pl_to_create p)) (created_as isodate items) d1 d2"
    using fold_changes [OF d2 ok, where key = id and s = "subj_id r" and Q = "created_as isodate items"]
      create_changes [where new_as = items] keys stored
    by (simp add: plan(1) codes_to_create_def same distinct_map_filter)
  have c3: "changes (subj_id r) (fst ` set (pl_to_update p))
      (\<lambda>c. updated_as isodate items (the (map_of (pl_to_update p) c)) c) d2 d3"
  proof (rule fold_changes [OF d3])
    show "rows_ok d2" "subj_id r < db_next d2" using c2 stored by (simp_all add: changes_def)
    show keys_u: "distinct (map fst (pl_to_update p))" unfolding plan(2) by (rule updated_codes(1) [OF keys])
    fix item da db
    assume item: "item \<in> set (pl_to_update p)" and "rows_ok da"
      and step: "update_assignment isodate urls code (subj_id r) new_as item da = Inr db"
    have "snd item = the (map_of (pl_to_update p) (fst item))" using map_of_is_SomeI [OF keys_u, of "fst item" "snd item"] item by simp
    moreover have "set (snd item) \<subseteq> set (mirrored_fields @ [''content_files''])"
      using item diff_fields by (fastforce simp: plan(2) fields_to_update_def split: json.splits option.splits if_splits)
    ultimately show "changes (subj_id r) {fst item}
        (\<lambda>c. updated_as isodate items (the (map_of (pl_to_update p) c)) c) da db"
      using update_changes [OF step \<open>rows_ok da\<close>] by (simp add: same changes_def)
  qed
  have c4: "changes (subj_id r) (set (pl_to_delete p)) (\<lambda>c old new. new = None) d3 d4"
  proof -
    have "rows_ok d3" "subj_id r < db_next d3" using c2 c3 stored by (simp_all add: changes_def)
    then show ?thesis
      using fold_changes [OF d4, where key = id and s = "subj_id r" and Q = "\<lambda>c old new. new = None"]
        delete_changes prev_keys by (simp add: plan(3))
  qed
  have row1: "assignment_row d1 = assignment_row d" using stored by (simp add: assignment_row_def fun_eq_iff)
  have "in_sync isodate d1 (subj_id r) prev" using stored by (simp add: in_sync_def row1 prev)
  then have sync4: "in_sync isodate d4 (subj_id r) cfg"
    by (rule created_updated_deleted [OF items keys plan(2,3) dicts c2 [unfolded plan(1)] c3 c4])
  have "changes (subj_id r) UNIV (\<lambda>_ _ _. True) d1 d4" using c2 c3 c4 by (simp add: changes_def)
  then show thesis using that r d' sync4 by blast
qed

lemma in_sync_cong:
  "(\<And>c. assignment_row d' s c = assignment_row d s c) \<Longrightarrow> in_sync isodate d' s cfg = in_sync isodate d s cfg"
  by (simp add: in_sync_def)

lemma rows_ok_cong: "db_assignments d' = db_assignments d \<Longrightarrow> db_next d \<le> db_next d' \<Longrightarrow> rows_ok d \<Longrightarrow> rows_ok d'"
  by (auto simp: rows_ok_def intro: less_le_trans)

lemma mirrored_again:
  assumes inv: "configs_mirrored isodate d" and s: "s = active_subject d code"
    and r: "store_subject p owner_id code cfg urls s d = Inr (r, d1)" and d': "d' = add_config (subj_id r) sha cfg d4"
    and sync: "in_sync isodate d4 (subj_id r) cfg" and c: "changes (subj_id r) UNIV (\<lambda>_ _ _. True) d1 d4"
    and keys: "distinct (map fst (config_items cfg))"
  shows "configs_mirrored isodate d' \<and> r \<in> set (db_subjects d') \<and> previous_config d' (subj_id r) = cfg \<and>
     in_sync isodate d' (subj_id r) cfg"
proof -
  note stored = subject_stored [OF r inv s]
  have kept: "db_subjects d' = db_subjects d1" "db_next d1 < db_next d'" "db_assignments d' = db_assignments d4"
    "db_configs d4 = db_configs d1" "rows_ok d4" "db_next d4 \<le> db_next d'"
    using c by (auto simp: d' add_config_def changes_def)
  have row: "assignment_row d' s' k = assignment_row d4 s' k" for s' k
    by (rule assignment_row_cong [OF kept(3)])
  have sync': "in_sync isodate d' (subj_id r) cfg" using sync in_sync_cong [OF row] by simp
  have latest: "previous_config d' s' = (if s' = subj_id r then cfg else previous_config d s')" for s'
    using latest_config_cong [of d4 d] kept stored by (simp add: previous_config_def d' latest_added)
  have others: "in_sync isodate d' (subj_id x) (previous_config d' (subj_id x))" if "x \<in> set (db_subjects d')" for x
  proof (cases "subj_id x = subj_id r")
    case True
    then show ?thesis using sync' latest by simp
  next
    case False
    then have "x \<in> set (db_subjects d)" using that stored kept by auto
    then have "in_sync isodate d (subj_id x) (previous_config d (subj_id x))" using inv by (simp add: configs_mirrored_def)
    moreover have "assignment_row d' (subj_id x) k = assignment_row d (subj_id x) k" for k
      using False c assignment_row_cong [of d1 d] stored by (simp add: row changes_def)
    ultimately show ?thesis using in_sync_cong [of d' "subj_id x" d] latest False by simp
  qed
  have "rows_ok d'" by (rule rows_ok_cong [OF kept(3,6,5)])
  moreover have "distinct (map subj_id (db_subjects d'))" using stored kept by simp
  moreover have "\<forall>x \<in> set (db_subjects d'). subj_id x < db_next d'"
    using stored kept inv unfolding configs_mirrored_def by force
  moreover have "\<forall>y \<in> set (db_configs d'). spc_subject_id y < db_next d' \<and> distinct (map fst (config_items (spc_config y)))"
  proof
    fix y
    assume "y \<in> set (db_configs d')"
    then consider "spc_subject_id y = subj_id r" "spc_config y = cfg" | "y \<in> set (db_configs d)"
      using kept stored by (auto simp: d' add_config_def)
    then show "spc_subject_id y < db_next d' \<and> distinct (map fst (config_items (spc_config y)))"
      by cases (use stored kept keys inv in \<open>auto simp: configs_mirrored_def\<close>)
  qed
  ultimately show ?thesis using others stored kept sync' latest by (simp add: configs_mirrored_def)
qed


lemma find_map_same: "(\<And>x. x \<in> set xs \<Longrightarrow> P (g x) = P x) \<Longrightarrow> find P (map g xs) = map_option g (find P xs)"
  by (induction xs) auto

lemma find_last_new: "find P xs = None \<Longrightarrow> P x \<Longrightarrow> find P (xs @ [x]) = Some x"
  by (induction xs) (auto split: if_splits)

lemma apply_subject_fields_owner:
  assumes "apply_subject_fields p owner_id code cfg urls s = Inr s'"
  shows "subj_owner_id s' = (if subj_owner_id s = None then Some owner_id else subj_owner_id s)"
proof -
  have step: "apply_subject_field code cfg urls f r = Inr r' \<Longrightarrow> subj_owner_id r' = subj_owner_id r" for f r r'
    by (auto simp: apply_subject_field_def map_sum_eq_Inr split: if_splits)
  have "fold_result (apply_subject_field code cfg urls) fs r = Inr r' \<Longrightarrow> subj_owner_id r' = subj_owner_id r" for fs r r'
    by (induction fs arbitrary: r) (auto simp: bind_result_eq_Inr dest!: step)
  from this [OF assms [unfolded apply_subject_fields_def]] show ?thesis by (simp add: claim_subject_def)
qed

lemma stored_subject_is_active:
  assumes "store_subject p owner_id code cfg urls (active_subject d code) d = Inr (r, d1)"
    and own: "check_ownership d code owner_id = Inr (active_subject d code, prev)" and ids: "distinct (map subj_id (db_subjects d))"
  shows "active_subject d1 code = Some r \<and> subj_owner_id r = Some owner_id"
proof (cases "active_subject d code")
  case None
  then have r0: "new_subject (db_next d) owner_id code cfg urls = Inr r"
    and d1: "d1 = d\<lparr>db_subjects := db_subjects d @ [r], db_next := db_next d + 1\<rparr>"
    using assms(1) by (auto simp: store_subject_def map_sum_eq_Inr)
  have "subj_owner_id r = Some owner_id \<and> subj_code r = Some code \<and> subj_status r = Subject_ACTIVE"
    using r0 by (auto simp: new_subject_def bind_result_eq_Inr)
  then show ?thesis using None find_last_new by (fastforce simp: active_subject_def d1)
next
  case (Some x)
  then have r: "apply_subject_fields p owner_id code cfg urls x = Inr r"
    and d1: "d1 = d\<lparr>db_subjects := upd_row subj_id (subj_id x) (\<lambda>_. r) (db_subjects d)\<rparr>"
    using assms(1) by (auto simp: store_subject_def map_sum_eq_Inr)
  note x = active_subject_Some [OF Some]
  note keys = apply_subject_fields_keys [OF r]
  have one: "y \<in> set (db_subjects d) \<Longrightarrow> subj_id y = subj_id x \<Longrightarrow> y = x" for y
    using ids x by (auto simp: distinct_map dest: inj_onD)
  have "active_subject d1 code = map_option (\<lambda>y. if subj_id y = subj_id x then r else y) (active_subject d code)"
    unfolding active_subject_def d1 upd_row_def
    by (simp, rule find_map_same) (use one keys in auto)
  moreover have "subj_owner_id x = None \<or> subj_owner_id x = Some owner_id"
    using own Some by (auto simp: check_ownership_def split: if_splits)
  ultimately show ?thesis using Some apply_subject_fields_owner [OF r] by auto
qed

text \<open>C28. Applying an archive once more changes nothing: the second apply finds the digest of the first and
  answers that nothing has changed.\<close>

theorem applied_twice_is_applied_once:
  assumes "apply_config isodate storage ar owner_id d = Inr (d', res)" and "configs_mirrored isodate d"
    and "checked_config ar = Inr (code, cfg)" and "distinct (map fst (config_items cfg))"
  shows "apply_config isodate' storage' ar owner_id d' = Inr (d', Applied_unchanged)"
proof -
  obtain s prev where own: "check_ownership d code owner_id = Inr (s, prev)" and
    rest: "(if (case s of Some r \<Rightarrow> check_duplicate d r (ar_sha256 ar) | None \<Rightarrow> False) then Inr (d, Applied_unchanged)
       else bind_result (compute_plan ar code cfg prev s) (\<lambda>p.
           execute_plan isodate storage p cfg (ar_sha256 ar) s owner_id code d)) = Inr (d', res)"
    using assms(1,3) by (auto simp: apply_config_def bind_result_eq_Inr)
  have s: "s = active_subject d code" and prev: "prev = (case s of None \<Rightarrow> [] | Some x \<Rightarrow> previous_config d (subj_id x))"
    using own by (auto simp: check_ownership_def split: option.splits if_splits)
  show ?thesis
  proof (cases "case s of Some r \<Rightarrow> check_duplicate d r (ar_sha256 ar) | None \<Rightarrow> False")
    case True
    then have "d' = d" using rest by simp
    then show ?thesis using True own assms(3) by (simp add: apply_config_def)
  next
    case False
    then obtain p where p: "compute_plan ar code cfg prev s = Inr p"
      and x: "execute_plan isodate storage p cfg (ar_sha256 ar) s owner_id code d = Inr (d', res)"
      using rest by (auto simp: bind_result_eq_Inr)
    obtain urls r d1 d4 where r: "store_subject p owner_id code cfg urls s d = Inr (r, d1)"
      and d': "d' = add_config (subj_id r) (ar_sha256 ar) cfg d4" and c: "changes (subj_id r) UNIV (\<lambda>_ _ _. True) d1 d4"
      by (rule executed_plan [OF x assms(2) s prev p assms(4)])
    have "db_subjects d' = db_subjects d1" using c by (simp add: d' add_config_def changes_def)
    then have "active_subject d' code = Some r \<and> subj_owner_id r = Some owner_id"
      using stored_subject_is_active [OF r [unfolded s] own [unfolded s]] assms(2) by (simp add: active_subject_def configs_mirrored_def)
    then show ?thesis using assms(3)
      by (simp add: apply_config_def check_ownership_def check_duplicate_def d' latest_added)
  qed
qed


definition sample_enrolled :: db where
  "sample_enrolled =
     empty_db\<lparr>db_next := 5, db_enrolments := [\<lparr>enr_subject_id = 5, enr_student_id = 3\<rparr>]\<rparr>"

lemma sample_mirrored: "configs_mirrored (\<lambda>_. None) sample_enrolled"
  by (simp add: configs_mirrored_def rows_ok_def sample_enrolled_def empty_db_def)

lemma sample_keys: "distinct (map fst (config_items sample_config))"
  by (simp add: config_items_def sample_config_def dget_def)

definition sample_applied :: "apply_error + (db \<times> apply_result)" where
  "sample_applied = apply_config (\<lambda>_. None) None sample_archive 7 sample_enrolled"

lemma sample_applied_ok: "\<exists>d'. sample_applied = Inr (d', Applied_created ''S'')"
proof -
  have "case sample_applied of Inr (_, r) \<Rightarrow> r = Applied_created ''S'' | Inl _ \<Rightarrow> False" by code_simp
  then show ?thesis by (auto split: sum.splits)
qed


lemma applied_twice_is_applied_once_witness:
  "\<exists>d'. sample_applied = Inr (d', Applied_created ''S'') \<and>
     apply_config (\<lambda>_. None) None sample_archive 7 d' = Inr (d', Applied_unchanged)"
proof -
  obtain d' where d': "sample_applied = Inr (d', Applied_created ''S'')" using sample_applied_ok by blast
  show ?thesis
    using applied_twice_is_applied_once [OF d' [unfolded sample_applied_def] sample_mirrored sample_config_ok sample_keys] d' by auto
qed

end
