(* ===== verification/Similarity.thy ===== *)
theory Similarity
  imports CheckTasks
begin

text \<open>
  How alike two uploads are, \<open>services/similarity.py\<close>: the identifiers of their code files without comments
  and strings, and the Jaccard index of the two sets.

  Text is a list of characters of which the ASCII letters, digits and the underscore are word characters.
  What \<open>zipfile\<close> makes of an archive is a parameter: nothing, when it cannot be read, or its entries, each
  with the text its bytes decode to, or nothing where reading it fails.
\<close>

type_synonym zip_source = "(string \<times> string option) list option"

section \<open>Removing comments and strings\<close>

fun drop_prefix :: "string \<Rightarrow> string \<Rightarrow> string option" where
  "drop_prefix [] s = Some s"
| "drop_prefix (p # ps) [] = None"
| "drop_prefix (p # ps) (c # cs) = (if p = c then drop_prefix ps cs else None)"

text \<open>What follows the first occurrence of \<open>closing\<close>.\<close>

fun after_first :: "string \<Rightarrow> string \<Rightarrow> string option" where
  "after_first closing [] = drop_prefix closing []"
| "after_first closing (c # cs) =
     (case drop_prefix closing (c # cs) of Some rest \<Rightarrow> Some rest | None \<Rightarrow> after_first closing cs)"

definition block_end :: "string \<Rightarrow> string \<Rightarrow> string \<Rightarrow> string option" where
  "block_end opening closing s = Option.bind (drop_prefix opening s) (after_first closing)"

lemma drop_prefix_length: "drop_prefix p s = Some r \<Longrightarrow> length r + length p = length s"
  by (induction p s rule: drop_prefix.induct) (auto split: if_splits)

lemma after_first_length: "after_first p s = Some r \<Longrightarrow> length r + length p \<le> length s"
  by (induction p s rule: after_first.induct) (auto dest: drop_prefix_length split: option.splits)

lemma block_end_length:
  "block_end opening closing s = Some r \<Longrightarrow> length r + length opening + length closing \<le> length s"
  by (auto simp: block_end_def bind_eq_Some_conv dest!: drop_prefix_length after_first_length)

text \<open>\<open>re.sub(opening + ".*?" + closing, " ", s, flags=DOTALL)\<close>, from left to right; with a quote for both it is
  \<open>re.sub(quote + "[^quote]*" + quote, " ", s)\<close> too. An opening without its closing stays.\<close>

function strip_blocks :: "string \<Rightarrow> string \<Rightarrow> string \<Rightarrow> string" where
  "strip_blocks opening closing [] = []"
| "strip_blocks opening closing (c # cs) =
     (case block_end opening closing (c # cs) of
        Some rest \<Rightarrow> if length rest < length (c # cs) then CHR '' '' # strip_blocks opening closing rest else c # cs
      | None \<Rightarrow> c # strip_blocks opening closing cs)"
  by pat_completeness auto
termination
  by (relation "measure (\<lambda>(a, b, s). length s)") auto

text \<open>\<open>re.sub(r"(#|//).*", " ", s)\<close>: \<open>.\<close> stops at the end of the line.\<close>

fun strip_line_comments :: "bool \<Rightarrow> string \<Rightarrow> string" where
  "strip_line_comments inside [] = []"
| "strip_line_comments inside (c # cs) =
     (if inside then (if c = CHR 0x0A then c # strip_line_comments False cs else strip_line_comments True cs)
      else if c = CHR ''#'' then CHR '' '' # strip_line_comments True cs
      else if c = CHR ''/'' \<and> take 1 cs = ''/'' then CHR '' '' # strip_line_comments True cs
      else c # strip_line_comments False cs)"

definition is_ident_start :: "char \<Rightarrow> bool" where
  "is_ident_start c = (let n = of_char c :: nat in 65 \<le> n \<and> n \<le> 90 \<or> 97 \<le> n \<and> n \<le> 122 \<or> c = CHR ''_'')"

definition is_word_char :: "char \<Rightarrow> bool" where
  "is_word_char c = (is_ident_start c \<or> (let n = of_char c :: nat in 48 \<le> n \<and> n \<le> 57))"

text \<open>\<open>_IDENTIFIER.findall\<close>.\<close>

function identifiers :: "string \<Rightarrow> string list" where
  "identifiers [] = []"
| "identifiers (c # cs) =
     (if is_ident_start c
      then (c # takeWhile is_word_char cs) # identifiers (dropWhile is_word_char cs)
      else identifiers cs)"
  by pat_completeness auto
termination
  by (relation "measure length") (auto simp: less_Suc_eq_le length_dropWhile_le)

definition DOUBLE_QUOTE :: string where
  "DOUBLE_QUOTE = [CHR 0x22]"

definition SINGLE_QUOTE :: string where
  "SINGLE_QUOTE = [CHR 0x27]"

definition thrice :: "string \<Rightarrow> string" where
  "thrice s = s @ s @ s"

definition strip_source :: "string \<Rightarrow> string" where
  "strip_source s =
     (let s1 = strip_blocks (thrice DOUBLE_QUOTE) (thrice DOUBLE_QUOTE) s;
          s2 = strip_blocks (thrice SINGLE_QUOTE) (thrice SINGLE_QUOTE) s1;
          s3 = strip_blocks ''/*'' ''*/'' s2;
          s4 = strip_line_comments False s3;
          s5 = strip_blocks DOUBLE_QUOTE DOUBLE_QUOTE s4
      in strip_blocks SINGLE_QUOTE SINGLE_QUOTE s5)"

definition normalize :: "string \<Rightarrow> string list" where
  "normalize s = map (map lower_char) (identifiers (strip_source s))"

section \<open>Tokens of an archive\<close>

text \<open>\<open>Path(name).name\<close> and \<open>Path(name).suffix\<close>.\<close>

definition path_name :: "string \<Rightarrow> string" where
  "path_name s = (case rev (filter (\<lambda>p. p \<noteq> '''' \<and> p \<noteq> ''.'') (split_on (CHR ''/'') s)) of [] \<Rightarrow> '''' | p # _ \<Rightarrow> p)"

definition path_suffix :: "string \<Rightarrow> string" where
  "path_suffix s =
     (let name = path_name s; ext = takeWhile (\<lambda>c. c \<noteq> CHR ''.'') (rev name) in
      if ext = '''' \<or> length ext + 1 \<ge> length name then '''' else CHR ''.'' # rev ext)"

definition CODE_EXTENSIONS :: "string list" where
  "CODE_EXTENSIONS = [''.py'', ''.java'', ''.c'', ''.cpp'', ''.h'', ''.js'', ''.ts'', ''.cs'', ''.go'', ''.rs'']"

definition is_code_file :: "string \<Rightarrow> bool" where
  "is_code_file name = (map lower_char (path_suffix name) \<in> set CODE_EXTENSIONS)"

definition entry_tokens :: "string \<times> string option \<Rightarrow> string list" where
  "entry_tokens e = (if is_code_file (fst e) then (case snd e of Some text \<Rightarrow> normalize text | None \<Rightarrow> []) else [])"

definition extract_tokens :: "zip_source \<Rightarrow> string list" where
  "extract_tokens src = (case src of None \<Rightarrow> [] | Some entries \<Rightarrow> concat (map entry_tokens entries))"

section \<open>The Jaccard index\<close>

definition jaccard_similarity :: "string list \<Rightarrow> string list \<Rightarrow> rat" where
  "jaccard_similarity a b =
     (if set a = {} \<and> set b = {} then 0
      else
        let union = card (set a \<union> set b) in
        if union = 0 then 0 else of_nat (card (set a \<inter> set b)) / of_nat union)"

definition compare_zip_files :: "zip_source \<Rightarrow> zip_source \<Rightarrow> rat" where
  "compare_zip_files a b = jaccard_similarity (extract_tokens a) (extract_tokens b)"

definition token_set_for_zip :: "zip_source \<Rightarrow> string set" where
  "token_set_for_zip src = set (extract_tokens src)"

definition pair_score :: "string set \<Rightarrow> string set \<Rightarrow> rat" where
  "pair_score a b =
     (let union = card (a \<union> b) in if union = 0 then 0 else of_nat (card (a \<inter> b)) / of_nat union)"

fun score_pairs :: "(int \<Rightarrow> string set) \<Rightarrow> int list \<Rightarrow> (int \<times> int \<times> rat) list" where
  "score_pairs items [] = []"
| "score_pairs items (a # ks) = map (\<lambda>b. (a, b, pair_score (items a) (items b))) ks @ score_pairs items ks"

text \<open>\<open>items\<close> is a dictionary, so its keys are distinct; \<open>sort(reverse=True)\<close> keeps equal scores in order.\<close>

definition pairwise_similarity :: "(int \<times> string set) list \<Rightarrow> (int \<times> int \<times> rat) list" where
  "pairwise_similarity items =
     sort_key (\<lambda>t. - snd (snd t)) (score_pairs (\<lambda>k. the (map_of items k)) (sort (map fst items)))"

section \<open>The index is one\<close>

lemma jaccard_pair: "jaccard_similarity a b = pair_score (set a) (set b)"
  by (auto simp: jaccard_similarity_def pair_score_def Let_def)

lemma pair_score_range:
  assumes "finite a" and "finite b"
  shows "0 \<le> pair_score a b \<and> pair_score a b \<le> 1"
proof -
  have "card (a \<inter> b) \<le> card (a \<union> b)" using assms by (intro card_mono) auto
  then have "(of_nat (card (a \<inter> b)) :: rat) \<le> of_nat (card (a \<union> b))" by (rule of_nat_mono)
  then show ?thesis by (simp add: pair_score_def Let_def divide_le_eq_1)
qed

lemma pair_score_sym: "pair_score a b = pair_score b a"
  unfolding pair_score_def Un_commute [of a b] Int_commute [of a b] by (rule refl)

lemma pair_score_one_iff:
  assumes "finite a" and "finite b"
  shows "pair_score a b = 1 \<longleftrightarrow> a = b \<and> a \<noteq> {}"
proof
  assume one: "pair_score a b = 1"
  then have "card (a \<union> b) \<noteq> 0" "card (a \<inter> b) = card (a \<union> b)"
    by (auto simp: pair_score_def Let_def split: if_splits)
  moreover have "a \<inter> b \<subseteq> a \<union> b" by auto
  ultimately have "a \<inter> b = a \<union> b" using assms by (simp add: card_subset_eq)
  then show "a = b \<and> a \<noteq> {}" using \<open>card (a \<union> b) \<noteq> 0\<close> by auto
qed (use assms in \<open>auto simp: pair_score_def\<close>)

text \<open>The similarity of two uploads lies between 0 and 1, does not depend on which of them came first, is 1
  exactly when both have code and use the same identifiers, and 0 when they share none.\<close>

theorem similarity_is_an_index:
  "0 \<le> compare_zip_files a b \<and> compare_zip_files a b \<le> 1 \<and>
   compare_zip_files a b = compare_zip_files b a \<and>
   (compare_zip_files a b = 1 \<longleftrightarrow> token_set_for_zip a = token_set_for_zip b \<and> token_set_for_zip a \<noteq> {}) \<and>
   (compare_zip_files a b = 0 \<longleftrightarrow> token_set_for_zip a \<inter> token_set_for_zip b = {})"
proof -
  have fin: "finite (token_set_for_zip z)" for z by (simp add: token_set_for_zip_def)
  have c: "compare_zip_files x y = pair_score (token_set_for_zip x) (token_set_for_zip y)" for x y
    by (simp add: compare_zip_files_def jaccard_pair token_set_for_zip_def)
  have zero: "pair_score x y = 0 \<longleftrightarrow> x \<inter> y = {}" if "finite x" "finite y" for x y
    using that by (auto simp: pair_score_def Let_def)
  show ?thesis
    unfolding c zero [OF fin fin] pair_score_one_iff [OF fin fin]
    using pair_score_range [OF fin fin, of a b] pair_score_sym by blast
qed

lemma score_pairs_members:
  assumes "sorted ks" and "distinct ks"
  shows "(a, b, x) \<in> set (score_pairs items ks) \<longleftrightarrow>
     a \<in> set ks \<and> b \<in> set ks \<and> a < b \<and> x = pair_score (items a) (items b)"
  using assms
proof (induction ks)
  case (Cons k ks)
  then have "\<forall>y \<in> set ks. k < y" by (metis distinct.simps(2) order_le_less sorted_simps(2))
  with Cons show ?case by auto
qed simp

lemma score_pairs_distinct: "distinct ks \<Longrightarrow> distinct (map (\<lambda>(a, b, x). (a, b)) (score_pairs items ks))"
proof (induction ks)
  case (Cons k ks)
  have "fst ` set (score_pairs items ks) \<subseteq> set ks" for ks by (induction ks) auto
  with Cons show ?case by (force simp: comp_def distinct_map inj_on_def)
qed simp

text \<open>The comparison of a whole assignment lists every pair of submissions exactly once, the smaller id first,
  each with the similarity of the two, the most alike pair first.\<close>

theorem pairwise_lists_every_pair_once:
  assumes "distinct (map fst items)"
  shows "distinct (map (\<lambda>(a, b, x). (a, b)) (pairwise_similarity items)) \<and>
    (\<forall>a b x. (a, b, x) \<in> set (pairwise_similarity items) \<longleftrightarrow>
       (\<exists>s t. map_of items a = Some s \<and> map_of items b = Some t \<and> a < b \<and> x = pair_score s t)) \<and>
    sorted_wrt (\<lambda>p q. snd (snd q) \<le> snd (snd p)) (pairwise_similarity items)"
proof -
  let ?pairs = "score_pairs (\<lambda>k. the (map_of items k)) (sort (map fst items))"
  have key: "k \<in> fst ` set items \<longleftrightarrow> (\<exists>v. map_of items k = Some v)" for k
    using map_of_eq_None_iff [of items k] by auto
  have m: "mset (pairwise_similarity items) = mset ?pairs" by (simp add: pairwise_similarity_def)
  have "distinct (map (\<lambda>(a, b, x). (a, b)) ?pairs)" using assms by (intro score_pairs_distinct) simp
  then have "distinct (map (\<lambda>(a, b, x). (a, b)) (pairwise_similarity items))"
    by (metis (no_types, lifting) m mset_eq_imp_distinct_iff mset_map)
  moreover have "(a, b, x) \<in> set (pairwise_similarity items) \<longleftrightarrow>
       (\<exists>s t. map_of items a = Some s \<and> map_of items b = Some t \<and> a < b \<and> x = pair_score s t)" for a b x
  proof -
    have "(a, b, x) \<in> set (pairwise_similarity items) \<longleftrightarrow> (a, b, x) \<in> set ?pairs" using m by (metis set_mset_mset)
    also have "\<dots> \<longleftrightarrow> a \<in> fst ` set items \<and> b \<in> fst ` set items \<and> a < b \<and>
        x = pair_score (the (map_of items a)) (the (map_of items b))"
      using score_pairs_members [of "sort (map fst items)"] assms by simp
    also have "\<dots> \<longleftrightarrow> (\<exists>s t. map_of items a = Some s \<and> map_of items b = Some t \<and> a < b \<and> x = pair_score s t)"
      unfolding key by auto
    finally show ?thesis .
  qed
  moreover have "sorted (map (\<lambda>t. - snd (snd t)) (pairwise_similarity items))"
    unfolding pairwise_similarity_def by (rule sorted_sort_key)
  then have "sorted_wrt (\<lambda>p q. snd (snd q) \<le> snd (snd p)) (pairwise_similarity items)"
    by (simp add: sorted_map)
  ultimately show ?thesis by blast
qed

lemma pairwise_lists_every_pair_once_witness:
  "\<exists>x. (1, 2, x) \<in> set (pairwise_similarity [(2, {''a'', ''b''}), (1, {''a''})])"
  using pairwise_lists_every_pair_once [of "[(2, {''a'', ''b''}), (1, {''a''})]"] by simp

end
