(* ===== verification/Upload.thy ===== *)
theory Upload
  imports Outbox Similarity QuizGrants
begin

text \<open>
  The student's side of an assignment, \<open>api/routes/student_portal.py\<close>: the upload of an archive with its
  storage (\<open>services/submission_files.py\<close>) and comparison to the uploads of others, the state the page of an
  assignment polls, the consent to the recording and the switches of the e-mails.

  Outside the program, and parameters of the model: the object store and the legacy directory
  (\<open>file_store\<close>), the random part of a stored file's name, and what a check task needs (\<open>world\<close>). An
  exception of the store is answered by the framework, with 500.
\<close>

section \<open>Stored archives\<close>

record file_store =
  fs_uploads :: "(string \<Rightarrow> bool) option"
  fs_objects :: "string \<Rightarrow> zip_source option"
  fs_legacy :: "string \<Rightarrow> zip_source option"

text \<open>\<open>fs_uploads\<close>: no object store, or whether it takes an object with a key; \<open>fs_objects\<close> what it has.\<close>

definition submission_key :: "string \<Rightarrow> string option" where
  "submission_key saved_as =
     (if saved_as = '''' \<or> saved_as = ''.'' \<or> saved_as = ''..'' \<or> CHR ''/'' \<in> set saved_as \<or> CHR 0x5C \<in> set saved_as
      then None else Some (''submissions/'' @ saved_as))"

definition store_submission_zip :: "file_store \<Rightarrow> string \<Rightarrow> bool" where
  "store_submission_zip fs saved_as =
     (case submission_key saved_as of
        None \<Rightarrow> False
      | Some key \<Rightarrow> (case fs_uploads fs of None \<Rightarrow> True | Some accepts \<Rightarrow> accepts key))"

definition read_submission_zip :: "file_store \<Rightarrow> string option \<Rightarrow> zip_source option" where
  "read_submission_zip fs saved_as =
     (case saved_as of
        None \<Rightarrow> None
      | Some name \<Rightarrow>
          (case submission_key name of
             None \<Rightarrow> None
           | Some key \<Rightarrow>
               (case (if fs_uploads fs = None then None else fs_objects fs key) of
                  Some data \<Rightarrow> Some data
                | None \<Rightarrow> fs_legacy fs name)))"

section \<open>Uploading\<close>

record upload =
  up_filename :: "string option"
  up_size :: int
  up_content :: zip_source
  up_hex :: string

definition late_blocked :: "int \<Rightarrow> subjects_assignment \<Rightarrow> bool" where
  "late_blocked now asg =
     (case asg_deadline asg of
        None \<Rightarrow> False
      | Some deadline \<Rightarrow> now > deadline \<and> dget (asg_config asg) ''late_policy'' (JStr ''block'') = JStr ''block'')"

text \<open>The squad of the upload and the rows it counts for, or why it has to wait.\<close>

definition upload_scope ::
  "int \<Rightarrow> int \<Rightarrow> subjects_assignment \<Rightarrow> db \<Rightarrow> (reply + squad option \<times> int list) \<times> db"
where
  "upload_scope student_id own_id asg d =
     (let subj = asg_subject_id asg in
      if \<not> squads_enabled d subj then (Inr (None, [own_id]), d)
      else if has_pending_invites d subj student_id \<or> squad_has_pending_invites d subj student_id
      then (Inl (HttpError 409 ''Squad invitation pending; answer or cancel it before submitting.''), d)
      else
        (case squad_of d subj student_id False of
           None \<Rightarrow> (Inr (None, [own_id]), d)
         | Some sq \<Rightarrow> (let (ids, d1) = member_sa_ids (sq_id sq) (asg_id asg) d in (Inr (Some sq, ids), d1))))"

definition submissions_in :: "int list \<Rightarrow> db \<Rightarrow> submission list" where
  "submissions_in ids d = filter (\<lambda>s. sub_students_assignment_id s \<in> set ids) (db_submissions d)"

definition limit_reached :: "pydict \<Rightarrow> nat \<Rightarrow> py_exn + bool" where
  "limit_reached cfg n =
     (let m = dget cfg ''max_submissions'' JNull in
      if m = JNull then Inr False
      else if is_number m then Inr (number_value m \<le> of_nat n)
      else Inl TypeError)"

definition ends_with_zip :: "string \<Rightarrow> bool" where
  "ends_with_zip name = (drop (length name - 4) (map lower_char name) = ''.zip'')"

definition MAX_UPLOAD_BYTES :: int where
  "MAX_UPLOAD_BYTES = 50 * 1024 * 1024"

text \<open>What the upload has to pass before its file is stored. The message about the limit leaves out the number the code puts into it.\<close>

definition upload_checks :: "upload \<Rightarrow> subjects_assignment \<Rightarrow> int list \<Rightarrow> db \<Rightarrow> reply + unit" where
  "upload_checks up asg ids d =
     (if list_ex (\<lambda>s. sub_status s = COMPLETED) (submissions_in ids d)
      then Inl (HttpError 403 ''Assignment already passed. No further submissions accepted.'')
      else
        (case limit_reached (asg_config asg) (length (submissions_in ids d)) of
           Inl e \<Rightarrow> Inl (ServerError e)
         | Inr True \<Rightarrow> Inl (HttpError 403 ''Maximum number of submissions reached.'')
         | Inr False \<Rightarrow>
             if \<not> ends_with_zip (case up_filename up of Some f \<Rightarrow> f | None \<Rightarrow> '''')
             then Inl (HttpError 400 ''Only ZIP files are accepted'')
             else if up_size up > MAX_UPLOAD_BYTES then Inl (HttpError 413 ''ZIP file too large (max 50 MB)'')
             else Inr ()))"

text \<open>The uploads of the same assignment outside the scope, and the closest of them.\<close>

definition other_uploads :: "int \<Rightarrow> int list \<Rightarrow> db \<Rightarrow> submission list" where
  "other_uploads assignment_id ids d =
     filter (\<lambda>s. sub_source_type s = ZIP_UPLOAD \<and>
         list_ex (\<lambda>sa. sa_id sa = sub_students_assignment_id s \<and> sa_subjects_assignment_id sa = assignment_id \<and>
                    sa_id sa \<notin> set ids) (db_sas d))
       (db_submissions d)"

definition max_similarity :: "file_store \<Rightarrow> zip_source \<Rightarrow> submission list \<Rightarrow> rat" where
  "max_similarity fs content others =
     foldl (\<lambda>m s. case read_submission_zip fs (md_saved_as (sub_source_metadata s)) of
                   None \<Rightarrow> m | Some other \<Rightarrow> max m (compare_zip_files content other)) 0 others"

definition new_upload :: "int \<Rightarrow> int \<Rightarrow> int \<Rightarrow> string \<Rightarrow> string \<Rightarrow> rat \<Rightarrow> int option \<Rightarrow> submission" where
  "new_upload now i own_id filename save_name similarity squad_id =
     \<lparr>sub_id = i, sub_students_assignment_id = own_id, sub_source_type = ZIP_UPLOAD,
      sub_source_metadata = \<lparr>md_original_filename = Some filename, md_saved_as = Some save_name,
        md_similarity_score = Some (py_round_digits 3 similarity), md_quiz_extra_attempts = [], md_squad_quiz_draw = None\<rparr>,
      sub_status = PENDING, sub_test_results = None, sub_ai_review = None, sub_grade_breakdown = None,
      sub_plugin_config_id = None, sub_squad_id = squad_id, sub_created_at = now\<rparr>"

definition store_upload ::
  "int \<Rightarrow> file_store \<Rightarrow> upload \<Rightarrow> string \<Rightarrow> int \<Rightarrow> subjects_assignment \<Rightarrow> squad option \<Rightarrow> int list \<Rightarrow> db \<Rightarrow> db"
where
  "store_upload now fs up save_name own_id asg sq ids d =
     (let similarity = max_similarity fs (up_content up) (other_uploads (asg_id asg) ids d);
          sub = new_upload now (db_next d) own_id (case up_filename up of Some f \<Rightarrow> f | None \<Rightarrow> '''') save_name
                  similarity (map_option sq_id sq);
          d1 = add_submission sub d
      in case sq of Some s \<Rightarrow> lock_on_submit now (sq_id s) d1 | None \<Rightarrow> d1)"

text \<open>Checked here and now when there is nothing to run, left to the worker otherwise.\<close>

definition start_check :: "world \<Rightarrow> int \<Rightarrow> subjects_assignment \<Rightarrow> db \<Rightarrow> reply + db" where
  "start_check w i asg d =
     (case is_quiz_first_assignment d (asg_subject_id asg) (asg_code asg) of
        Inl e \<Rightarrow> Inl (ServerError e)
      | Inr True \<Rightarrow>
          (case execute_check_task w [(''submission_id'', JInt i)] d of
             (d1, None) \<Rightarrow> Inr d1
           | (d1, Some (TaskExn e)) \<Rightarrow> Inl (ServerError e)
           | (d1, Some _) \<Rightarrow> Inl (HttpError 500 ''Internal Server Error''))
      | Inr False \<Rightarrow> Inr (add_outbox RUN_CHECKS [(''submission_id'', JInt i)] d))"

definition assignment_url :: "int \<Rightarrow> int \<Rightarrow> string" where
  "assignment_url subject_id own_id =
     ''/portal/subjects/'' @ str_of_int subject_id @ ''/assignments/'' @ str_of_int own_id"

definition submit_assignment ::
  "int \<Rightarrow> world \<Rightarrow> file_store \<Rightarrow> upload \<Rightarrow> int \<Rightarrow> int \<Rightarrow> int \<Rightarrow> int \<Rightarrow> db \<Rightarrow> db \<times> reply"
where
  "submit_assignment now w fs up subject_id own_id user_id student_id d =
     (case get_sa d own_id of
        None \<Rightarrow> (d, HttpError 404 '''')
      | Some sa \<Rightarrow>
          if sa_student_id sa \<noteq> student_id then (d, HttpError 404 '''')
          else
            (case get_assignment d (sa_subjects_assignment_id sa) of
               None \<Rightarrow> (d, HttpError 404 '''')
             | Some asg \<Rightarrow>
                 if is_scored_mode (asg_config asg)
                 then (d, HttpError 409 ''This assignment takes no upload; open the quiz instead.'')
                 else if late_blocked now asg
                 then (d, HttpError 403 ''The submission deadline has passed. Late submissions are not accepted.'')
                 else
                   (case upload_scope student_id own_id asg d of
                      (Inl r, _) \<Rightarrow> (d, r)
                    | (Inr (sq, ids), d1) \<Rightarrow>
                        (case upload_checks up asg ids d1 of
                           Inl r \<Rightarrow> (d, r)
                         | Inr _ \<Rightarrow>
                             let save_name = str_of_int own_id @ ''_'' @ up_hex up @ ''.zip'' in
                             if \<not> store_submission_zip fs save_name then (d, HttpError 500 ''Internal Server Error'')
                             else
                               (case start_check w (db_next d1) asg (store_upload now fs up save_name own_id asg sq ids d1) of
                                  Inl r \<Rightarrow> (d, r)
                                | Inr d3 \<Rightarrow>
                                    (audit ''student_submit'' (Some user_id) (Some (db_next d1)) d3,
                                     Redirect (assignment_url subject_id own_id)))))))"

section \<open>Where the check of a submission stands\<close>

definition TRANSIENT_STATUSES :: "submission_status list" where
  "TRANSIENT_STATUSES = [PENDING, VALIDATING, TESTING, AWAITING_AI_REVIEW, AI_REVIEWING]"

definition newest_of_row :: "int \<Rightarrow> db \<Rightarrow> submission option" where
  "newest_of_row own_id d = newest (filter (\<lambda>s. sub_students_assignment_id s = own_id) (db_submissions d))"

text \<open>The status and whether it will change on its own; the rows the squad's scope fills in are not committed.\<close>

definition assignment_status :: "int \<Rightarrow> int \<Rightarrow> db \<Rightarrow> reply + submission_status option \<times> bool" where
  "assignment_status own_id student_id d =
     (case get_sa d own_id of
        None \<Rightarrow> Inl (HttpError 404 '''')
      | Some sa \<Rightarrow>
          if sa_student_id sa \<noteq> student_id then Inl (HttpError 404 '''')
          else
            let squad_max = Option.bind (get_assignment d (sa_subjects_assignment_id sa))
                              (\<lambda>asg. Option.bind (get_subject d (asg_subject_id asg)) subj_squad_max_size);
                latest = (if squad_max = None then newest_of_row own_id d else fst (latest_submission sa d));
                status = map_option sub_status latest
            in Inr (status, case status of Some s \<Rightarrow> s \<in> set TRANSIENT_STATUSES | None \<Rightarrow> False))"

section \<open>Consent and preferences\<close>

definition student_needs_consent :: "db \<Rightarrow> int \<Rightarrow> bool" where
  "student_needs_consent d student_id = (Option.bind (get_student d student_id) stu_recording_consent_at = None)"

definition show_consent :: "db \<Rightarrow> int \<Rightarrow> reply" where
  "show_consent d student_id =
     (if student_needs_consent d student_id then Page ''student_consent.html'' else Redirect ''/portal'')"

definition accept_consent :: "int \<Rightarrow> int \<Rightarrow> db \<Rightarrow> db \<times> reply" where
  "accept_consent now student_id d =
     (case get_student d student_id of
        None \<Rightarrow> (d, HttpError 404 ''Student not found'')
      | Some s \<Rightarrow>
          (if stu_recording_consent_at s = None
           then d\<lparr>db_students := upd_row stu_id student_id (\<lambda>s. s\<lparr>stu_recording_consent_at := Some now\<rparr>) (db_students d)\<rparr>
           else d, Redirect ''/portal''))"

definition is_preference :: "int \<Rightarrow> notification_case \<Rightarrow> notification_preference \<Rightarrow> bool" where
  "is_preference student_id c p = (np_student_id p = student_id \<and> np_case p = c)"

definition toggle_notification_preference :: "int \<Rightarrow> notification_case \<Rightarrow> db \<Rightarrow> db \<times> reply" where
  "toggle_notification_preference student_id c d =
     (d\<lparr>db_preferences :=
         (if list_ex (is_preference student_id c) (db_preferences d)
          then map (\<lambda>p. if is_preference student_id c p then p\<lparr>np_enabled := \<not> np_enabled p\<rparr> else p) (db_preferences d)
          else db_preferences d @ [\<lparr>np_student_id = student_id, np_case = c, np_enabled = False\<rparr>])\<rparr>,
      Redirect ''/portal/settings'')"

section \<open>Where an upload is stored\<close>

lemma split_on_no_sep: "c \<notin> set s \<Longrightarrow> split_on c s = [s]"
  by (induction s) auto

lemma path_name_of_key:
  assumes "submission_key name = Some key"
  shows "key = ''submissions/'' @ name \<and> path_name key = name"
proof -
  have n: "name \<noteq> ''''" "name \<noteq> ''.''" "CHR ''/'' \<notin> set name" and k: "key = ''submissions/'' @ name"
    using assms by (auto simp: submission_key_def split: if_splits)
  have "split_on (CHR ''/'') (''submissions/'' @ name) = [''submissions'', name]"
    using split_on_no_sep [OF n(3)] by simp
  then show ?thesis using n k by (simp add: path_name_def)
qed

text \<open>A stored upload is always one file of the directory \<open>submissions\<close>: a name with a separator, a dot
  name and the empty name have no key, and then nothing is stored and nothing read.\<close>

theorem stored_upload_is_one_file:
  "case submission_key name of
     None \<Rightarrow> \<not> store_submission_zip fs name \<and> read_submission_zip fs (Some name) = None
   | Some key \<Rightarrow> key = ''submissions/'' @ name \<and> path_name key = name \<and> name \<notin> {''.'', ''..''}"
proof (cases "submission_key name")
  case (Some key)
  then have "name \<notin> {''.'', ''..''}" by (auto simp: submission_key_def split: if_splits)
  with Some path_name_of_key show ?thesis by simp
qed (simp add: store_submission_zip_def read_submission_zip_def)

section \<open>What a check leaves alone\<close>

lemma get_submission_key: "get_submission d i = Some sub \<Longrightarrow> sub_id sub = i"
  by (simp add: get_submission_def submissions.get_key)

text \<open>A relation between databases that every step of a check task satisfies, the whole task satisfies.\<close>

locale task_frame =
  fixes R :: "db \<Rightarrow> db \<Rightarrow> bool"
  assumes R_refl: "R d d"
    and R_trans: "R d d1 \<Longrightarrow> R d1 d2 \<Longrightarrow> R d d2"
    and R_results: "R d (set_results i r d)"
    and R_pin: "R d (pin_config i c d)"
    and R_status: "get_submission d (sub_id sub) = Some sub \<Longrightarrow> R d (store_submission (sub\<lparr>sub_status := st\<rparr>) d)"
    and R_grade: "grade_frame d d' \<Longrightarrow> R d d'"
    and R_outbox: "R d (add_outbox ev p d)"
    and R_bell: "R d (push_notification u t a l d)"
    and R_queued: "R d (d\<lparr>db_queue := q\<rparr>)"
begin

definition keeps :: "task \<Rightarrow> bool" where
  "keeps t \<longleftrightarrow> (\<forall>d. R d (fst (t d)))"

lemma keepsI: "(\<And>d. R d (fst (t d))) \<Longrightarrow> keeps t"
  by (simp add: keeps_def)

lemma keepsD: "keeps t \<Longrightarrow> R d (fst (t d))"
  by (simp add: keeps_def)

lemma keeps_raise: "keeps (task_raise e)"
  by (simp add: keeps_def task_raise_def R_refl)

lemma keeps_skip: "keeps task_skip"
  by (simp add: keeps_def task_skip_def R_refl)

lemma keeps_do: "(\<And>d. R d (f d)) \<Longrightarrow> keeps (task_do f)"
  by (simp add: keeps_def task_do_def)

lemma keeps_then:
  assumes "keeps t" and "keeps u"
  shows "keeps (task_then t u)"
proof (rule keepsI)
  fix d
  obtain d1 err where t: "t d = (d1, err)" by fastforce
  then have "R d d1" using keepsD [OF assms(1), of d] by simp
  then show "R d (fst (task_then t u d))"
    using keepsD [OF assms(2), of d1] t by (cases err) (auto simp: task_then_def intro: R_trans)
qed

lemma keeps_if: "keeps t \<Longrightarrow> keeps u \<Longrightarrow> keeps (\<lambda>d. if b d then t d else u d)"
  by (simp add: keeps_def)

lemma R_queue: "R d (enqueue_teacher_review_notification i d)"
  by (subst enqueue_only) (rule R_queued)

lemma R_notify: "R d (notify_check v sub d)"
  by (auto simp: notify_check_def intro: R_refl R_bell split: option.split)

lemma R_enqueue: "R d (enqueue_ai_review i n d)"
  by (simp add: enqueue_ai_review_def R_outbox)

lemma keeps_fire: "keeps (task_fire i ev)"
  by (rule keepsI)
    (auto simp: task_fire_def R_refl get_submission_key intro!: R_status split: option.splits sum.splits)

lemma keeps_finalize: "keeps (task_finalize i)"
  by (rule keepsI) (auto simp: task_finalize_def R_refl intro: R_grade grade_frame_finalize split: sum.splits)

lemmas keeping = keeps_raise keeps_do keeps_then keeps_if keeps_skip keeps_fire keeps_finalize
  R_queue R_results R_pin R_notify R_enqueue

lemma keeps_fail: "keeps (fail_validation i reason)"
  unfolding fail_validation_def by (intro keeping)

lemma keeps_hand_over: "keeps (hand_over i ev)"
  unfolding hand_over_def by (intro keeping)

lemma keeps_advance: "keeps (advance_after_tests sub mode)"
  by (auto simp: advance_after_tests_def Let_def intro!: keeping keeps_hand_over)

lemma keeps_accept: "keeps (accept_without_checks w sub mode)"
  by (auto simp: accept_without_checks_def Let_def intro!: keeping keeps_fail split: option.split sum.split)

lemma keeps_settle: "keeps (settle_check sub mode v out)"
  by (auto simp: settle_check_def Let_def intro!: keeping keeps_fail keeps_advance split: sum.split check_error.split)

lemma keeps_run_plan: "keeps (run_plan w sub cfg mode plan)"
  by (auto simp: run_plan_def Let_def intro!: keeping keeps_fail keeps_settle
      split: option.split sum.split plugin_tree.split)

lemma keeps_check_with: "keeps (check_with w sub cfg code v)"
  by (auto simp: check_with_def Let_def intro!: keeping keeps_fail keeps_accept keeps_run_plan
      split: option.split sum.split bool.split)

lemma keeps_execute_check: "keeps (execute_check w i)"
proof (rule keepsI)
  fix d
  have pin: "R d (fst (task_then (task_do (pin_config i c)) (check_with w sub cfg code v) d))" for c sub cfg code v
    by (rule keepsD) (intro keeping keeps_check_with)
  show "R d (fst (execute_check w i d))"
    using pin keepsD [OF keeps_check_with] keepsD [OF keeps_fail] R_refl
    by (auto simp: execute_check_def split: option.split)
qed

lemma keeps_check_task: "R d (fst (execute_check_task w payload d))"
  using keepsD [OF keeps_execute_check] R_refl by (auto simp: execute_check_task_def split: option.split json.split)

end

text \<open>A check moves no submission to another row and adds none.\<close>

definition owners :: "db \<Rightarrow> (int \<times> int) list" where
  "owners d = map (\<lambda>s. (sub_id s, sub_students_assignment_id s)) (db_submissions d)"

definition same_owners :: "db \<Rightarrow> db \<Rightarrow> bool" where
  "same_owners d d' \<longleftrightarrow> (distinct (map fst (owners d)) \<longrightarrow> owners d' = owners d)"

lemma same_owners_map:
  assumes "\<And>s. s \<in> set (db_submissions d) \<Longrightarrow> sub_id (f s) = sub_id s \<and> sub_students_assignment_id (f s) = sub_students_assignment_id s"
    and "db_submissions d' = map f (db_submissions d)"
  shows "same_owners d d'"
  using assms by (simp add: same_owners_def owners_def)

interpretation check_owners: task_frame same_owners
proof
  show "same_owners d d1 \<Longrightarrow> same_owners d1 d2 \<Longrightarrow> same_owners d d2" for d d1 d2
    by (simp add: same_owners_def)
next
  fix d d' sub st
  assume "get_submission d (sub_id sub) = Some sub"
  then have "sub \<in> set (db_submissions d)"
    by (auto simp: get_submission_def get_row_def find_Some_iff)
  then have "distinct (map sub_id (db_submissions d)) \<Longrightarrow> s \<in> set (db_submissions d) \<Longrightarrow> sub_id s = sub_id sub \<Longrightarrow> s = sub" for s
    by (auto simp: distinct_map dest: inj_onD)
  then show "same_owners d (store_submission (sub\<lparr>sub_status := st\<rparr>) d)"
    by (auto simp: same_owners_def owners_def store_submission_def upd_submission_def upd_row_def comp_def)
next
  fix d d'
  assume "grade_frame d d'"
  then have "map ungraded (db_submissions d') = map ungraded (db_submissions d)" by (simp add: grade_frame_def)
  then have "map (\<lambda>s. (sub_id s, sub_students_assignment_id s)) (map ungraded (db_submissions d')) =
      map (\<lambda>s. (sub_id s, sub_students_assignment_id s)) (map ungraded (db_submissions d))" by simp
  then show "same_owners d d'" by (simp add: same_owners_def owners_def comp_def ungraded_def)
qed (auto simp: same_owners_def owners_def add_outbox_def push_notification_def set_results_def pin_config_def
    upd_submission_def upd_row_def)


section \<open>An upload keeps to the limit\<close>

lemma upload_scope_rows:
  assumes "upload_scope student_id own_id asg d = (r, d1)"
  shows "grade_frame d d1 \<and> db_submissions d1 = db_submissions d"
proof -
  have "grade_frame d (snd (member_sa_ids k a d)) \<and> db_submissions (snd (member_sa_ids k a d)) = db_submissions d" for k a
    using grade_frame_members member_sa_ids_others by (simp add: member_sa_ids_def)
  then show ?thesis using assms grade_frame_refl
    by (auto simp: upload_scope_def Let_def case_prod_unfold split: if_splits option.splits)
qed

lemma start_check_owners: "start_check w i asg d = Inr d' \<Longrightarrow> same_owners d d'"
  using check_owners.keeps_check_task [of d w "[(''submission_id'', JInt i)]"]
    check_owners.R_outbox [of d RUN_CHECKS "[(''submission_id'', JInt i)]"]
  by (auto simp: start_check_def split: sum.splits bool.splits prod.splits option.splits task_error.splits)

lemma owners_stored: "owners (store_upload now fs up name own_id asg sq ids d) = owners d @ [(db_next d, own_id)]"
  by (auto simp: store_upload_def Let_def owners_def add_submission_def new_upload_def lock_on_submit_def upd_squad_def
      split: option.split)

lemma upload_refusals:
  "upload_scope student_id own_id asg d = (Inl r, d1) \<Longrightarrow> r \<noteq> Redirect url"
  "upload_checks up asg ids d = Inl r \<Longrightarrow> r \<noteq> Redirect url"
  "start_check w i asg d = Inl r \<Longrightarrow> r \<noteq> Redirect url"
  by (auto simp: upload_scope_def upload_checks_def start_check_def Let_def case_prod_unfold
      split: if_splits option.splits sum.splits bool.splits prod.splits task_error.splits)

lemma accepted_upload:
  assumes "submit_assignment now w fs up subject_id own_id user_id student_id d = (d', reply)"
    and "\<not> (d' = d \<and> (\<forall>url. reply \<noteq> Redirect url))"
  obtains sa asg sq ids d1 d3 save_name where
    "get_sa d own_id = Some sa" "sa_student_id sa = student_id"
    "get_assignment d (sa_subjects_assignment_id sa) = Some asg" "\<not> late_blocked now asg"
    "upload_scope student_id own_id asg d = (Inr (sq, ids), d1)"
    "upload_checks up asg ids d1 = Inr ()"
    "start_check w (db_next d1) asg (store_upload now fs up save_name own_id asg sq ids d1) = Inr d3"
    "d' = audit ''student_submit'' (Some user_id) (Some (db_next d1)) d3"
proof -
  obtain sa where sa: "get_sa d own_id = Some sa" "sa_student_id sa = student_id"
    using assms by (cases "get_sa d own_id") (auto simp: submit_assignment_def split: if_splits)
  obtain asg where asg: "get_assignment d (sa_subjects_assignment_id sa) = Some asg" "\<not> is_scored_mode (asg_config asg)"
    "\<not> late_blocked now asg"
    using assms sa by (cases "get_assignment d (sa_subjects_assignment_id sa)")
      (auto simp: submit_assignment_def split: if_splits)
  note start = submit_assignment_def sa asg option.case if_False
  obtain r d1 where scope: "upload_scope student_id own_id asg d = (r, d1)" by fastforce
  then obtain sq ids where r: "r = Inr (sq, ids)"
    using assms upload_refusals(1) [of student_id own_id asg d] sa asg
    by (cases r) (auto simp: submit_assignment_def)
  have checks: "upload_checks up asg ids d1 = Inr ()"
    using assms upload_refusals(2) [of up asg ids d1] sa asg scope r
    by (cases "upload_checks up asg ids d1") (auto simp: submit_assignment_def)
  let ?name = "str_of_int own_id @ ''_'' @ up_hex up @ ''.zip''"
  have stored: "store_submission_zip fs ?name"
    using assms sa asg scope r checks by (auto simp: submit_assignment_def Let_def split: if_splits)
  obtain d3 where d3: "start_check w (db_next d1) asg (store_upload now fs up ?name own_id asg sq ids d1) = Inr d3"
    using assms upload_refusals(3) [of w "db_next d1" asg] sa asg scope r checks stored
    by (cases "start_check w (db_next d1) asg (store_upload now fs up ?name own_id asg sq ids d1)")
      (auto simp: submit_assignment_def)
  have "d' = audit ''student_submit'' (Some user_id) (Some (db_next d1)) d3"
    using assms sa asg scope r checks stored d3 by (simp add: submit_assignment_def)
  with sa asg scope r checks d3 show thesis by (intro that) auto
qed



definition sample_files :: file_store where
  "sample_files = \<lparr>fs_uploads = None, fs_objects = Map.empty, fs_legacy = Map.empty\<rparr>"

definition sample_upload :: upload where
  "sample_upload = \<lparr>up_filename = Some ''Lab.ZIP'', up_size = 10, up_content = Some [(''a.py'', Some ''x = 1'')], up_hex = ''0f''\<rparr>"

definition sample_open_lab :: db where
  "sample_open_lab = empty_db\<lparr>db_next := 10,
     db_sas := [\<lparr>sa_id = 1, sa_student_id = 3, sa_subjects_assignment_id = 2, sa_grade = None, sa_variant = None, sa_teacher_scores = None\<rparr>],
     db_assignments := [\<lparr>asg_id = 2, asg_subject_id = 4, asg_code = Some ''lab'', asg_title = ''Lab'', asg_description = None,
       asg_content_files = None, asg_coursework_id = None, asg_coursework_title = None, asg_deadline = Some 100,
       asg_min_grade = 0, asg_max_grade = 10, asg_config = [(''max_submissions'', JInt 1)]\<rparr>]\<rparr>"


end
