(* ===== verification/Gradebook.thy ===== *)
theory Gradebook
  imports QuizGrants
begin

text \<open>
  The gradebook of a subject, \<open>services/gradebook.py\<close>: the state of a cell, the integrity of the quizzes, the
  four numbers on the teacher's panel with the job that stores them
  (\<open>workers/scheduled/subject_stats_refresh.py\<close>), and the grid of students and assignments.

  A query is the list of its rows in the order it asks for; text is ordered as the database would.
\<close>

section \<open>Cells and severities\<close>

datatype cell_status = Cell_passed | Cell_failed | Cell_pending | Cell_waiting_partner | Cell_not_submitted

datatype severity = High | Medium

definition is_pending :: "submission_status option \<Rightarrow> bool" where
  "is_pending st = (case st of None \<Rightarrow> False | Some s \<Rightarrow> s \<noteq> COMPLETED \<and> s \<noteq> FAILED)"

definition cell_status :: "int option \<Rightarrow> int \<Rightarrow> submission_status option \<Rightarrow> cell_status" where
  "cell_status grade min_grade st =
     (case grade of
        Some g \<Rightarrow> if g \<ge> min_grade then Cell_passed else Cell_failed
      | None \<Rightarrow> if is_pending st then Cell_pending else Cell_not_submitted)"

definition severity_for :: "bool \<Rightarrow> int \<Rightarrow> int \<Rightarrow> severity option" where
  "severity_for forced tab_switch window_blur =
     (let combined = tab_switch + window_blur in
      if forced \<or> combined \<ge> 3 then Some High
      else if 1 \<le> combined \<and> combined \<le> 2 then Some Medium
      else None)"

definition duration_anomalous :: "int option \<Rightarrow> int option \<Rightarrow> bool" where
  "duration_anomalous duration median =
     (case (duration, median) of
        (Some d, Some m) \<Rightarrow> m > 0 \<and> (of_int d :: rat) < 3 / 10 * of_int m
      | _ \<Rightarrow> False)"

definition median_of :: "int list \<Rightarrow> rat" where
  "median_of xs =
     (let ys = sort xs; n = length ys; k = n div 2 in
      if odd n then of_int (ys ! k) else (of_int (ys ! (k - 1)) + of_int (ys ! k)) / 2)"

definition median_duration :: "int list \<Rightarrow> int option" where
  "median_duration xs = (if xs = [] then None else Some (py_round (median_of xs)))"

section \<open>The roster\<close>

record roster_row =
  ro_student_id :: int
  ro_student_name :: string
  ro_assignment_id :: int
  ro_assignment_code :: "string option"
  ro_assignment_title :: string
  ro_min_grade :: int
  ro_max_grade :: int
  ro_deadline :: "int option"
  ro_student_assignment_id :: "int option"
  ro_grade :: "int option"
  ro_submission_status :: "submission_status option"

text \<open>The submissions of a row made at its latest time: one, unless two were made at once.\<close>

definition latest_of_row :: "db \<Rightarrow> int \<Rightarrow> submission list" where
  "latest_of_row d own_id =
     (let subs = filter (\<lambda>s. sub_students_assignment_id s = own_id) (db_submissions d) in
      filter (\<lambda>s. list_all (\<lambda>t. sub_created_at t \<le> sub_created_at s) subs) subs)"

definition rows_of_student :: "db \<Rightarrow> int \<Rightarrow> int \<Rightarrow> student_assignment list" where
  "rows_of_student d student_id assignment_id =
     filter (\<lambda>sa. sa_student_id sa = student_id \<and> sa_subjects_assignment_id sa = assignment_id) (db_sas d)"

definition outer :: "'a list \<Rightarrow> 'a option list" where
  "outer xs = (if xs = [] then [None] else map Some xs)"

definition pair_rows :: "db \<Rightarrow> int \<Rightarrow> int \<Rightarrow> (student_assignment option \<times> submission option) list" where
  "pair_rows d student_id assignment_id =
     concat (map (\<lambda>sa. map (Pair sa) (outer (case sa of None \<Rightarrow> [] | Some x \<Rightarrow> latest_of_row d (sa_id x))))
       (outer (rows_of_student d student_id assignment_id)))"

definition real_students :: "db \<Rightarrow> int \<Rightarrow> student list" where
  "real_students d subject_id =
     List.map_filter (\<lambda>e. if enr_subject_id e = subject_id
                          then (case get_student d (enr_student_id e) of
                                  Some s \<Rightarrow> if stu_type s = REAL then Some s else None
                                | None \<Rightarrow> None)
                          else None)
       (db_enrolments d)"

definition subject_assignments :: "db \<Rightarrow> int \<Rightarrow> subjects_assignment list" where
  "subject_assignments d subject_id = filter (\<lambda>a. asg_subject_id a = subject_id) (db_assignments d)"

definition roster_row_of ::
  "student \<Rightarrow> subjects_assignment \<Rightarrow> student_assignment option \<times> submission option \<Rightarrow> roster_row"
where
  "roster_row_of s a p =
     \<lparr>ro_student_id = stu_id s, ro_student_name = stu_full_name s, ro_assignment_id = asg_id a,
      ro_assignment_code = asg_code a, ro_assignment_title = asg_title a, ro_min_grade = asg_min_grade a,
      ro_max_grade = asg_max_grade a, ro_deadline = asg_deadline a,
      ro_student_assignment_id = map_option sa_id (fst p), ro_grade = Option.bind (fst p) sa_grade,
      ro_submission_status = map_option sub_status (snd p)\<rparr>"

text \<open>\<open>order_by(name, deadline.asc().nullslast(), id)\<close>, from the last key to the first.\<close>

definition in_page_order :: "('a \<Rightarrow> string) \<Rightarrow> ('a \<Rightarrow> int option) \<Rightarrow> ('a \<Rightarrow> int) \<Rightarrow> 'a list \<Rightarrow> 'a list" where
  "in_page_order name_of deadline_of id_of xs =
     sort_key name_of
       (sort_key (\<lambda>x. deadline_of x = None)
         (sort_key (\<lambda>x. case deadline_of x of Some t \<Rightarrow> t | None \<Rightarrow> 0) (sort_key id_of xs)))"

definition fetch_roster_rows :: "db \<Rightarrow> int \<Rightarrow> roster_row list" where
  "fetch_roster_rows d subject_id =
     in_page_order ro_student_name ro_deadline ro_assignment_id
       (concat (map (\<lambda>s. concat (map (\<lambda>a. map (roster_row_of s a) (pair_rows d (stu_id s) (asg_id a)))
                  (subject_assignments d subject_id)))
         (real_students d subject_id)))"

section \<open>The integrity of the quizzes\<close>

record integrity_row =
  it_student_id :: int
  it_student_name :: string
  it_assignment_id :: int
  it_assignment_title :: string
  it_tab_switch :: int
  it_window_blur :: int
  it_force_fail :: bool
  it_other_events :: int
  it_duration_seconds :: "int option"
  it_median_seconds :: "int option"
  it_duration_anomalous :: bool
  it_severity :: "severity option"
  it_flagged :: bool

record finished_attempt =
  fa_student :: student
  fa_assignment :: subjects_assignment
  fa_attempt :: quiz_attempt
  fa_submitted_at :: int

text \<open>The student of an attempt: its own, else the one the submission's row is for.\<close>

definition finished_attempt_of :: "db \<Rightarrow> int \<Rightarrow> quiz_attempt \<Rightarrow> finished_attempt option" where
  "finished_attempt_of d subject_id a =
     (case (att_submitted_at a, Option.bind (get_submission d (att_submission_id a))
              (\<lambda>sub. Option.bind (get_sa d (sub_students_assignment_id sub))
                 (\<lambda>sa. map_option (Pair sa) (get_assignment d (sa_subjects_assignment_id sa))))) of
        (Some t, Some (sa, asg)) \<Rightarrow>
          let sid = (case att_student_id a of Some i \<Rightarrow> i | None \<Rightarrow> sa_student_id sa) in
          (case find (\<lambda>s. stu_id s = sid) (real_students d subject_id) of
             Some s \<Rightarrow>
               if asg_subject_id asg = subject_id
               then Some \<lparr>fa_student = s, fa_assignment = asg, fa_attempt = a, fa_submitted_at = t\<rparr> else None
           | None \<Rightarrow> None)
      | _ \<Rightarrow> None)"

definition finished_attempts :: "db \<Rightarrow> int \<Rightarrow> finished_attempt list" where
  "finished_attempts d subject_id =
     sort_key (\<lambda>f. - att_started_at (fa_attempt f)) (List.map_filter (finished_attempt_of d subject_id) (db_attempts d))"

definition pair_of :: "finished_attempt \<Rightarrow> int \<times> int" where
  "pair_of f = (stu_id (fa_student f), asg_id (fa_assignment f))"

text \<open>Newest first, so the first of a pair is its latest.\<close>

fun first_of_pair :: "(int \<times> int) list \<Rightarrow> finished_attempt list \<Rightarrow> finished_attempt list" where
  "first_of_pair seen [] = []"
| "first_of_pair seen (f # fs) =
     (if pair_of f \<in> set seen then first_of_pair seen fs else f # first_of_pair (pair_of f # seen) fs)"

definition attempt_duration :: "finished_attempt \<Rightarrow> int" where
  "attempt_duration f =
     py_trunc (of_int (fa_submitted_at f - att_started_at (fa_attempt f)) / 1000000) - att_paused_seconds (fa_attempt f)"

definition violation_count :: "quiz_attempt \<Rightarrow> string \<Rightarrow> int" where
  "violation_count a k =
     (case map_of (att_violations a) k of
        Some (VCount n) \<Rightarrow> n | Some (VFlag b) \<Rightarrow> if b then 1 else 0 | _ \<Rightarrow> 0)"

definition was_forced :: "quiz_attempt \<Rightarrow> bool" where
  "was_forced a =
     (case map_of (att_violations a) ''_force_fail'' of
        Some (VCount n) \<Rightarrow> n \<noteq> 0 | Some (VFlag b) \<Rightarrow> b | Some (VEvents es) \<Rightarrow> es \<noteq> [] | None \<Rightarrow> False)"

definition other_event :: "string \<times> violation \<Rightarrow> int" where
  "other_event e =
     (if take 1 (fst e) = ''_'' \<or> fst e = ''tab_switch'' \<or> fst e = ''window_blur'' then 0
      else case snd e of VCount n \<Rightarrow> n | VFlag b \<Rightarrow> if b then 1 else 0 | VEvents _ \<Rightarrow> 0)"

definition integrity_row_of :: "(int \<Rightarrow> int option) \<Rightarrow> finished_attempt \<Rightarrow> integrity_row" where
  "integrity_row_of medians f =
     (let a = fa_attempt f; duration = attempt_duration f; median = medians (asg_id (fa_assignment f));
          tabs = violation_count a ''tab_switch''; blurs = violation_count a ''window_blur''; forced = was_forced a;
          other = sum_list (map other_event (att_violations a));
          anomalous = duration_anomalous (Some duration) median; sev = severity_for forced tabs blurs
      in \<lparr>it_student_id = stu_id (fa_student f), it_student_name = stu_full_name (fa_student f),
          it_assignment_id = asg_id (fa_assignment f), it_assignment_title = asg_title (fa_assignment f),
          it_tab_switch = tabs, it_window_blur = blurs, it_force_fail = forced, it_other_events = other,
          it_duration_seconds = Some duration, it_median_seconds = median, it_duration_anomalous = anomalous,
          it_severity = sev, it_flagged = (sev \<noteq> None \<or> anomalous \<or> other > 0)\<rparr>)"

definition fetch_integrity_rows :: "db \<Rightarrow> int \<Rightarrow> integrity_row list" where
  "fetch_integrity_rows d subject_id =
     (let latest = first_of_pair [] (finished_attempts d subject_id);
          medians = (\<lambda>i. median_duration (map attempt_duration (filter (\<lambda>f. asg_id (fa_assignment f) = i) latest)))
      in sort_key it_student_name (sort_key it_assignment_title (map (integrity_row_of medians) latest)))"

section \<open>The panel\<close>

record cached_stats =
  st_pending_review_count :: nat
  st_average_mark_pct :: "rat option"
  st_pass_pct :: rat
  st_cheating_pct :: "rat option"

definition percentage :: "int \<Rightarrow> int \<Rightarrow> rat" where
  "percentage part whole = py_round_digits 1 (of_int (100 * part) / of_int whole)"

definition count_if :: "('a \<Rightarrow> bool) \<Rightarrow> 'a list \<Rightarrow> int" where
  "count_if P xs = int (length (filter P xs))"

definition compute_cached_stats :: "roster_row list \<Rightarrow> integrity_row list \<Rightarrow> cached_stats" where
  "compute_cached_stats roster integrity =
     (let graded = List.map_filter (\<lambda>r. map_option (\<lambda>g. (g, ro_max_grade r)) (ro_grade r)) roster;
          graded_max = sum_list (map snd graded);
          passed = count_if (\<lambda>r. case ro_grade r of Some g \<Rightarrow> g \<ge> ro_min_grade r | None \<Rightarrow> False) roster
      in \<lparr>st_pending_review_count = length (filter (\<lambda>r. ro_grade r = None \<and> is_pending (ro_submission_status r)) roster),
          st_average_mark_pct = (if graded_max \<noteq> 0 then Some (percentage (sum_list (map fst graded)) graded_max) else None),
          st_pass_pct = (if roster \<noteq> [] then percentage passed (int (length roster)) else 0),
          st_cheating_pct = (if integrity \<noteq> []
                             then Some (percentage (count_if it_flagged integrity) (int (length integrity))) else None)\<rparr>)"

definition stats_row :: "int \<Rightarrow> int \<Rightarrow> cached_stats \<Rightarrow> subject_gradebook_stats" where
  "stats_row now subject_id st =
     \<lparr>sgs_subject_id = subject_id, sgs_pending_review_count = st_pending_review_count st,
      sgs_average_mark_pct = st_average_mark_pct st, sgs_pass_pct = st_pass_pct st,
      sgs_cheating_pct = st_cheating_pct st, sgs_computed_at = now\<rparr>"

definition store_stats :: "subject_gradebook_stats \<Rightarrow> db \<Rightarrow> db" where
  "store_stats r d =
     d\<lparr>db_stats :=
        (if list_ex (\<lambda>x. sgs_subject_id x = sgs_subject_id r) (db_stats d)
         then map (\<lambda>x. if sgs_subject_id x = sgs_subject_id r then r else x) (db_stats d)
         else db_stats d @ [r])\<rparr>"

definition refresh_one :: "int \<Rightarrow> int \<Rightarrow> db \<Rightarrow> db" where
  "refresh_one now subject_id d =
     store_stats (stats_row now subject_id
       (compute_cached_stats (fetch_roster_rows d subject_id) (fetch_integrity_rows d subject_id))) d"

definition refresh_subject_gradebook_stats :: "bool \<Rightarrow> int \<Rightarrow> db \<Rightarrow> db" where
  "refresh_subject_gradebook_stats lock now d =
     (if lock
      then fold (refresh_one now) (map subj_id (filter (\<lambda>s. subj_status s = Subject_ACTIVE) (db_subjects d))) d
      else d)"

section \<open>The grid\<close>

record grid_source_row =
  gr_student_id :: int
  gr_student_name :: string
  gr_group_name :: string
  gr_assignment_id :: int
  gr_assignment_title :: string
  gr_min_grade :: int
  gr_grade :: "int option"
  gr_submission_status :: "submission_status option"
  gr_quiz_score :: "rat option"
  gr_review_score :: "rat option"
  gr_squad_name :: "string option"
  gr_waiting_partner :: bool
  gr_detail :: "string option"

record grid_cell =
  ce_status :: cell_status
  ce_grade :: "int option"
  ce_quiz_score :: "rat option"
  ce_review_score :: "rat option"
  ce_detail :: "string option"

record grid_row =
  gw_student_id :: int
  gw_student_name :: string
  gw_group_name :: string
  gw_cells :: "(int \<times> grid_cell) list"
  gw_total :: "int option"
  gw_squad_name :: "string option"

record student_grid =
  gd_columns :: "(int \<times> string) list"
  gd_rows :: "grid_row list"

definition text_of :: "json \<Rightarrow> string" where
  "text_of v = (case v of JStr s \<Rightarrow> s | JInt n \<Rightarrow> str_of_int n | _ \<Rightarrow> '''')"

fun join_dots :: "string list \<Rightarrow> string" where
  "join_dots [] = ''''"
| "join_dots [x] = x"
| "join_dots (x # xs) = x @ '' . '' @ join_dots xs"

definition points_of :: "string \<Rightarrow> int \<Rightarrow> int \<Rightarrow> string" where
  "points_of title points most = title @ '' '' @ str_of_int points @ ''/'' @ str_of_int most"

definition breakdown_line :: "string \<Rightarrow> grade_breakdown option \<Rightarrow> string option" where
  "breakdown_line quiz_label b =
     (case map_option bd_body b of
        Some (Scored g) \<Rightarrow>
          Some (join_dots (points_of quiz_label (gs_quiz_points g) (gs_quiz_max g) #
            map (\<lambda>c. points_of (text_of (cr_title c)) (cr_points c) (cr_max c)) (gs_criteria g)))
      | _ \<Rightarrow> None)"

definition grid_cell_of :: "grid_source_row \<Rightarrow> grid_cell" where
  "grid_cell_of r =
     \<lparr>ce_status = (if gr_waiting_partner r then Cell_waiting_partner
                   else cell_status (gr_grade r) (gr_min_grade r) (gr_submission_status r)),
      ce_grade = gr_grade r, ce_quiz_score = gr_quiz_score r, ce_review_score = gr_review_score r,
      ce_detail = gr_detail r\<rparr>"

fun grid_columns :: "int list \<Rightarrow> grid_source_row list \<Rightarrow> (int \<times> string) list" where
  "grid_columns seen [] = []"
| "grid_columns seen (r # rs) =
     (if gr_assignment_id r \<in> set seen then grid_columns seen rs
      else (gr_assignment_id r, gr_assignment_title r) # grid_columns (gr_assignment_id r # seen) rs)"

definition put_cell :: "grid_source_row \<Rightarrow> (int \<times> (int \<times> grid_cell) list) list \<Rightarrow> (int \<times> (int \<times> grid_cell) list) list" where
  "put_cell r cells =
     AList.update (gr_student_id r)
       (AList.update (gr_assignment_id r) (grid_cell_of r)
         (case map_of cells (gr_student_id r) of Some cs \<Rightarrow> cs | None \<Rightarrow> [])) cells"

definition put_meta :: "grid_source_row \<Rightarrow> (int \<times> string \<times> string) list \<Rightarrow> (int \<times> string \<times> string) list" where
  "put_meta r = AList.update (gr_student_id r) (gr_student_name r, gr_group_name r)"

definition put_squad :: "grid_source_row \<Rightarrow> (int \<times> string) list \<Rightarrow> (int \<times> string) list" where
  "put_squad r m = (case gr_squad_name r of Some n \<Rightarrow> AList.update (gr_student_id r) n m | None \<Rightarrow> m)"

definition grid_total :: "(int \<times> grid_cell) list \<Rightarrow> int option" where
  "grid_total cells =
     (let grades = List.map_filter (\<lambda>(i, c). ce_grade c) cells in
      if grades = [] then None else Some (sum_list grades))"

definition build_student_grid :: "grid_source_row list \<Rightarrow> student_grid" where
  "build_student_grid rows =
     (let cells = fold put_cell rows []; meta = fold put_meta rows []; squads = fold put_squad rows [] in
      \<lparr>gd_columns = grid_columns [] rows,
       gd_rows = sort_key gw_student_name
         (map (\<lambda>(sid, cs).
            \<lparr>gw_student_id = sid, gw_student_name = (case map_of meta sid of Some m \<Rightarrow> fst m | None \<Rightarrow> ''''),
             gw_group_name = (case map_of meta sid of Some m \<Rightarrow> snd m | None \<Rightarrow> ''''), gw_cells = cs,
             gw_total = grid_total cs, gw_squad_name = map_of squads sid\<rparr>) cells)\<rparr>)"

definition display_name :: "squad \<Rightarrow> string" where
  "display_name s = (case sq_name s of Some n \<Rightarrow> if n = '''' then ''#'' @ str_of_int (sq_id s) else n
                                    | None \<Rightarrow> ''#'' @ str_of_int (sq_id s))"

definition quiz_component :: "grade_breakdown option \<Rightarrow> rat option" where
  "quiz_component b = (case map_option bd_body b of
       Some (Blended g) \<Rightarrow> gb_quiz_score g | Some (Scored g) \<Rightarrow> Some (gs_quiz_score g) | None \<Rightarrow> None)"

definition review_component :: "grade_breakdown option \<Rightarrow> rat option" where
  "review_component b = (case map_option bd_body b of
       Some (Blended g) \<Rightarrow> gb_quality_score g
     | Some (Scored g) \<Rightarrow> Some (of_int (sum_list (map cr_points (gs_criteria g)))) | None \<Rightarrow> None)"

text \<open>In a squad, the member's own share of the quiz.\<close>

definition own_quiz_component :: "int \<Rightarrow> grade_breakdown option \<Rightarrow> rat option" where
  "own_quiz_component student_id b =
     foldl (\<lambda>q m. if fst m = student_id then Some (snd m) else q) (quiz_component b)
       (case Option.bind b bd_squad of Some p \<Rightarrow> sp_members p | None \<Rightarrow> [])"

definition grid_source_of ::
  "((int \<times> int) \<times> squad_share) list \<Rightarrow> string \<Rightarrow> student \<Rightarrow> string \<Rightarrow> subjects_assignment \<Rightarrow>
     student_assignment option \<times> submission option \<Rightarrow> grid_source_row"
where
  "grid_source_of shares label s group_name a p =
     (let share = map_of shares (stu_id s, asg_id a);
          own = (case snd p of Some sub \<Rightarrow> Some sub | None \<Rightarrow> map_option sh_submission share);
          st = map_option sub_status own; b = Option.bind own sub_grade_breakdown
      in \<lparr>gr_student_id = stu_id s, gr_student_name = stu_full_name s, gr_group_name = group_name,
          gr_assignment_id = asg_id a, gr_assignment_title = asg_title a, gr_min_grade = asg_min_grade a,
          gr_grade = Option.bind (fst p) sa_grade, gr_submission_status = st,
          gr_quiz_score = own_quiz_component (stu_id s) b, gr_review_score = review_component b,
          gr_squad_name = map_option (\<lambda>sh. display_name (sh_squad sh)) share,
          gr_waiting_partner = (case share of
              Some sh \<Rightarrow> st = Some QUIZ_SENT \<and> stu_id s \<in> sh_passed_student_ids sh | None \<Rightarrow> False),
          gr_detail = breakdown_line label b\<rparr>)"

definition fetch_grid_rows :: "string \<Rightarrow> db \<Rightarrow> int \<Rightarrow> grid_source_row list" where
  "fetch_grid_rows label d subject_id =
     (let shares = shared_submissions d subject_id None in
      map snd (in_page_order (gr_student_name \<circ> snd) fst (gr_assignment_id \<circ> snd)
        (concat (map (\<lambda>s. case find (\<lambda>g. grp_id g = stu_group_id s) (db_groups d) of
              None \<Rightarrow> []
            | Some g \<Rightarrow>
                concat (map (\<lambda>a. map (\<lambda>p. (asg_deadline a, grid_source_of shares label s (grp_name g) a p))
                                     (pair_rows d (stu_id s) (asg_id a)))
                  (subject_assignments d subject_id)))
          (real_students d subject_id)))))"


section \<open>The panel's numbers\<close>

lemma percentage_range:
  assumes "0 \<le> part" and "part \<le> whole"
  shows "0 \<le> percentage part whole \<and> percentage part whole \<le> 100"
proof (cases "whole = 0")
  case True
  then show ?thesis using py_round_of_int [of 0] by (simp add: percentage_def py_round_digits_def)
next
  case False
  then have "0 \<le> (of_int (100 * part) / of_int whole :: rat)" "(of_int (100 * part) / of_int whole :: rat) \<le> 100"
    using assms by (simp_all add: divide_le_eq)
  then have "py_round_digits 1 0 \<le> percentage part whole" "percentage part whole \<le> py_round_digits 1 100"
    unfolding percentage_def by (simp_all only: py_round_digits_mono)
  moreover have "py_round_digits 1 (100 :: rat) = 100" "py_round_digits 1 (0 :: rat) = 0" by code_simp+
  ultimately show ?thesis by simp
qed

lemma count_if_range: "0 \<le> count_if P xs \<and> count_if P xs \<le> int (length xs)"
  by (simp add: count_if_def)

lemma graded_sums:
  assumes "\<forall>r \<in> set roster. \<forall>g. ro_grade r = Some g \<longrightarrow> 0 \<le> g \<and> g \<le> ro_max_grade r"
  shows "let graded = List.map_filter (\<lambda>r. map_option (\<lambda>g. (g, ro_max_grade r)) (ro_grade r)) roster in
     0 \<le> sum_list (map fst graded) \<and> sum_list (map fst graded) \<le> sum_list (map snd graded)"
  using assms by (induction roster) (auto simp: Let_def map_filter_simps split: option.splits)

text \<open>Every percentage on the teacher's panel lies between 0 and 100, the average too as long as no grade is
  above its maximum; what counts as passed and as waiting is what the gradebook shows as passed and as pending.\<close>

theorem panel_numbers_are_sound:
  assumes "\<forall>r \<in> set roster. \<forall>g. ro_grade r = Some g \<longrightarrow> 0 \<le> g \<and> g \<le> ro_max_grade r"
  shows "let st = compute_cached_stats roster integrity;
             cell = (\<lambda>r. cell_status (ro_grade r) (ro_min_grade r) (ro_submission_status r)) in
    0 \<le> st_pass_pct st \<and> st_pass_pct st \<le> 100 \<and>
    pred_option (\<lambda>p. 0 \<le> p \<and> p \<le> 100) (st_average_mark_pct st) \<and>
    pred_option (\<lambda>p. 0 \<le> p \<and> p \<le> 100) (st_cheating_pct st) \<and>
    st_pass_pct st = (if roster = [] then 0
      else percentage (count_if (\<lambda>r. cell r = Cell_passed) roster) (int (length roster))) \<and>
    st_pending_review_count st = length (filter (\<lambda>r. cell r = Cell_pending) roster)"
proof -
  have passed: "(case ro_grade r of Some g \<Rightarrow> g \<ge> ro_min_grade r | None \<Rightarrow> False) \<longleftrightarrow>
      cell_status (ro_grade r) (ro_min_grade r) (ro_submission_status r) = Cell_passed" for r
    by (simp add: cell_status_def split: option.split)
  have pending: "ro_grade r = None \<and> is_pending (ro_submission_status r) \<longleftrightarrow>
      cell_status (ro_grade r) (ro_min_grade r) (ro_submission_status r) = Cell_pending" for r
    by (simp add: cell_status_def split: option.split)
  have share: "0 \<le> percentage (count_if P xs) (int (length xs))" "percentage (count_if P xs) (int (length xs)) \<le> 100" for P and xs :: "'c list"
    using percentage_range count_if_range by blast+
  show ?thesis
    unfolding compute_cached_stats_def Let_def passed pending
    using graded_sums [OF assms] percentage_range share [of _ roster] share [of _ integrity] by (auto simp: Let_def)
qed

lemma panel_numbers_are_sound_witness:
  "st_pass_pct (compute_cached_stats
      [\<lparr>ro_student_id = 1, ro_student_name = ''A'', ro_assignment_id = 2, ro_assignment_code = None,
        ro_assignment_title = ''L'', ro_min_grade = 6, ro_max_grade = 10, ro_deadline = None,
        ro_student_assignment_id = Some 3, ro_grade = Some 7, ro_submission_status = Some COMPLETED\<rparr>] []) \<le> 100"
  using panel_numbers_are_sound [of "[\<lparr>ro_student_id = 1, ro_student_name = ''A'', ro_assignment_id = 2,
        ro_assignment_code = None, ro_assignment_title = ''L'', ro_min_grade = 6, ro_max_grade = 10, ro_deadline = None,
        ro_student_assignment_id = Some 3, ro_grade = Some 7, ro_submission_status = Some COMPLETED\<rparr>]" "[]"]
  by (simp add: Let_def)

section \<open>The stored numbers\<close>

lemma reads_no_stats:
  "fetch_roster_rows (d\<lparr>db_stats := x\<rparr>) i = fetch_roster_rows d i"
  "fetch_integrity_rows (d\<lparr>db_stats := x\<rparr>) i = fetch_integrity_rows d i"
proof -
  have students: "real_students (d\<lparr>db_stats := x\<rparr>) = real_students d"
    by (simp add: fun_eq_iff real_students_def get_student_def cong: if_cong)
  then have "finished_attempt_of (d\<lparr>db_stats := x\<rparr>) = finished_attempt_of d"
    unfolding fun_eq_iff finished_attempt_of_def students row_access_defs by simp
  then show "fetch_integrity_rows (d\<lparr>db_stats := x\<rparr>) i = fetch_integrity_rows d i"
    by (simp add: fetch_integrity_rows_def finished_attempts_def)
  have latest: "latest_of_row (d\<lparr>db_stats := x\<rparr>) = latest_of_row d"
    by (simp add: fun_eq_iff latest_of_row_def)
  have "pair_rows (d\<lparr>db_stats := x\<rparr>) = pair_rows d"
    unfolding fun_eq_iff pair_rows_def rows_of_student_def latest by simp
  then show "fetch_roster_rows (d\<lparr>db_stats := x\<rparr>) i = fetch_roster_rows d i"
    using students by (simp add: fetch_roster_rows_def subject_assignments_def)
qed

definition stats_of :: "db \<Rightarrow> int \<Rightarrow> subject_gradebook_stats option" where
  "stats_of d i = find (\<lambda>r. sgs_subject_id r = i) (db_stats d)"

lemma stats_of_store: "stats_of (store_stats r d) i = (if i = sgs_subject_id r then Some r else stats_of d i)"
proof -
  have upd: "list_ex (\<lambda>x. sgs_subject_id x = sgs_subject_id r) xs \<Longrightarrow>
      find (\<lambda>x. sgs_subject_id x = i) (map (\<lambda>x. if sgs_subject_id x = sgs_subject_id r then r else x) xs) =
      (if i = sgs_subject_id r then Some r else find (\<lambda>x. sgs_subject_id x = i) xs)" for xs
  proof (induction xs)
    case (Cons x xs)
    have other: "\<not> list_ex (\<lambda>x. sgs_subject_id x = sgs_subject_id r) xs \<Longrightarrow>
        map (\<lambda>x. if sgs_subject_id x = sgs_subject_id r then r else x) xs = xs"
      by (induction xs) auto
    show ?case using Cons other by (cases "list_ex (\<lambda>x. sgs_subject_id x = sgs_subject_id r) xs") auto
  qed simp
  have new: "\<not> list_ex (\<lambda>x. sgs_subject_id x = sgs_subject_id r) xs \<Longrightarrow>
      find (\<lambda>x. sgs_subject_id x = i) (xs @ [r]) = (if i = sgs_subject_id r then Some r else find (\<lambda>x. sgs_subject_id x = i) xs)" for xs
    by (induction xs) auto
  show ?thesis using upd [of "db_stats d"] new [of "db_stats d"]
    by (cases "i = sgs_subject_id r") (auto simp: stats_of_def store_stats_def)
qed

text \<open>After the job has run, every active subject has one row of numbers, computed from the gradebook as it is
  and stamped with the time of the run; the numbers of every other subject are as they were, and so is
  everything else.\<close>

theorem refresh_stores_current_numbers:
  "let d' = refresh_subject_gradebook_stats True now d;
       active = subj_id ` {s \<in> set (db_subjects d). subj_status s = Subject_ACTIVE} in
   (\<forall>i. stats_of d' i =
      (if i \<in> active
       then Some (stats_row now i (compute_cached_stats (fetch_roster_rows d i) (fetch_integrity_rows d i)))
       else stats_of d i)) \<and>
   d' = d\<lparr>db_stats := db_stats d'\<rparr>"
proof -
  have "(\<forall>i. stats_of (fold (refresh_one now) is d) i =
      (if i \<in> set is then Some (stats_row now i (compute_cached_stats (fetch_roster_rows d i) (fetch_integrity_rows d i)))
       else stats_of d i)) \<and> (\<exists>x. fold (refresh_one now) is d = d\<lparr>db_stats := x\<rparr>)" for "is" d
  proof (induction "is" arbitrary: d)
    case Nil
    have "\<exists>x. fold (refresh_one now) [] d = d\<lparr>db_stats := x\<rparr>" by (rule exI [of _ "db_stats d"]) simp
    then show ?case by simp
  next
    case (Cons i "is")
    have one: "refresh_one now i d = d\<lparr>db_stats := db_stats (refresh_one now i d)\<rparr>"
      by (simp add: refresh_one_def store_stats_def)
    have reads: "fetch_roster_rows (refresh_one now i d) j = fetch_roster_rows d j"
      "fetch_integrity_rows (refresh_one now i d) j = fetch_integrity_rows d j" for j
      by (subst one, simp add: reads_no_stats)+
    have first: "stats_of (refresh_one now i d) j =
        (if j = i then Some (stats_row now i (compute_cached_stats (fetch_roster_rows d i) (fetch_integrity_rows d i)))
         else stats_of d j)" for j
      by (simp add: refresh_one_def stats_of_store stats_row_def)
    obtain x where "fold (refresh_one now) is (refresh_one now i d) = (refresh_one now i d)\<lparr>db_stats := x\<rparr>"
      using Cons.IH [of "refresh_one now i d"] by blast
    then have "\<exists>x. fold (refresh_one now) (i # is) d = d\<lparr>db_stats := x\<rparr>"
      by (subst (asm) (2) one) auto
    then show ?case using Cons.IH [of "refresh_one now i d"] first by (auto simp: reads)
  qed
  from this [of "map subj_id (filter (\<lambda>s. subj_status s = Subject_ACTIVE) (db_subjects d))" d]
  show ?thesis by (auto simp: refresh_subject_gradebook_stats_def Let_def)
qed

section \<open>The grid's rows\<close>

lemma grid_columns_ids:
  "distinct (map fst (grid_columns seen rows)) \<and> fst ` set (grid_columns seen rows) = gr_assignment_id ` set rows - set seen"
  by (induction seen rows rule: grid_columns.induct) auto

definition cells_of :: "grid_source_row list \<Rightarrow> int \<Rightarrow> (int \<times> grid_cell) list" where
  "cells_of rows s = map (\<lambda>r. (gr_assignment_id r, grid_cell_of r)) (filter (\<lambda>r. gr_student_id r = s) rows)"

lemma update_new: "k \<notin> fst ` set m \<Longrightarrow> AList.update k v m = m @ [(k, v)]"
  by (induction m) auto

lemma update_keys: "fst ` set (AList.update k v m) = insert k (fst ` set m)"
  by (induction m) auto

lemma put_cells:
  assumes "distinct (map (\<lambda>r. (gr_student_id r, gr_assignment_id r)) rows)"
  shows "map_of (fold put_cell rows []) s = (if s \<in> gr_student_id ` set rows then Some (cells_of rows s) else None) \<and>
     distinct (map fst (fold put_cell rows [])) \<and> fst ` set (fold put_cell rows []) = gr_student_id ` set rows"
  using assms
proof (induction rows arbitrary: s rule: rev_induct)
  case (snoc r rows)
  let ?m = "fold put_cell rows []" and ?s = "gr_student_id r"
  have IH: "map_of ?m s = (if s \<in> gr_student_id ` set rows then Some (cells_of rows s) else None)"
    "distinct (map fst ?m)" "fst ` set ?m = gr_student_id ` set rows" for s
    using snoc by auto
  have new: "gr_assignment_id r \<notin> fst ` set (cells_of rows ?s)"
  proof
    assume "gr_assignment_id r \<in> fst ` set (cells_of rows ?s)"
    then obtain x where x: "x \<in> set rows" "gr_student_id x = ?s" "gr_assignment_id x = gr_assignment_id r"
      by (auto simp: cells_of_def)
    then have "(?s, gr_assignment_id r) \<in> (\<lambda>r. (gr_student_id r, gr_assignment_id r)) ` set rows"
      by (intro image_eqI [of _ _ x]) simp_all
    then show False using snoc.prems by simp
  qed
  have none: "?s \<notin> gr_student_id ` set rows \<Longrightarrow> cells_of rows ?s = []"
    unfolding cells_of_def map_is_Nil_conv filter_empty_conv by (metis image_eqI)
  have own: "(case map_of ?m ?s of Some cs \<Rightarrow> cs | None \<Rightarrow> []) = cells_of rows ?s"
    using IH(1) [of ?s] none by simp
  have put: "put_cell r ?m = AList.update ?s (cells_of rows ?s @ [(gr_assignment_id r, grid_cell_of r)]) ?m"
    unfolding put_cell_def own update_new [OF new] by (rule refl)
  have cells: "cells_of (rows @ [r]) s = (if s = ?s then cells_of rows ?s @ [(gr_assignment_id r, grid_cell_of r)] else cells_of rows s)" for s
    by (simp add: cells_of_def)
  show ?case using IH put by (auto simp: cells update_conv' distinct_update update_keys)
qed (simp add: cells_of_def)

text \<open>The grid shows the gradebook completely: each assignment is one column; each student one row, whose cells
  are that student's pairs in the order of the gradebook, each with the state and the points of its pair; the
  total is the sum of the student's grades, and empty when there is none.\<close>

theorem grid_shows_every_pair:
  assumes "distinct (map (\<lambda>r. (gr_student_id r, gr_assignment_id r)) rows)"
  shows "let g = build_student_grid rows in
    distinct (map fst (gd_columns g)) \<and> fst ` set (gd_columns g) = gr_assignment_id ` set rows \<and>
    distinct (map gw_student_id (gd_rows g)) \<and> gw_student_id ` set (gd_rows g) = gr_student_id ` set rows \<and>
    (\<forall>w \<in> set (gd_rows g).
       gw_cells w = map (\<lambda>r. (gr_assignment_id r, grid_cell_of r)) (filter (\<lambda>r. gr_student_id r = gw_student_id w) rows) \<and>
       gw_total w = (let gs = List.map_filter gr_grade (filter (\<lambda>r. gr_student_id r = gw_student_id w) rows) in
                     if gs = [] then None else Some (sum_list gs)))"
proof -
  note cells = put_cells [OF assms]
  let ?row = "\<lambda>(sid, cs). \<lparr>gw_student_id = sid, gw_student_name = (case map_of (fold put_meta rows []) sid of Some m \<Rightarrow> fst m | None \<Rightarrow> ''''),
             gw_group_name = (case map_of (fold put_meta rows []) sid of Some m \<Rightarrow> snd m | None \<Rightarrow> ''''), gw_cells = cs,
             gw_total = grid_total cs, gw_squad_name = map_of (fold put_squad rows []) sid\<rparr>"
  have rows: "gd_rows (build_student_grid rows) = sort_key gw_student_name (map ?row (fold put_cell rows []))"
    by (simp add: build_student_grid_def Let_def)
  have ids: "map (gw_student_id \<circ> ?row) (fold put_cell rows []) = map fst (fold put_cell rows [])" by auto
  have "distinct (map gw_student_id (gd_rows (build_student_grid rows)))"
  proof -
    have "mset (map gw_student_id (gd_rows (build_student_grid rows))) = mset (map fst (fold put_cell rows []))"
      by (simp add: rows image_mset.compositionality comp_def case_prod_unfold)
    then show ?thesis using cells by (metis mset_eq_imp_distinct_iff)
  qed
  moreover have "gw_student_id ` set (gd_rows (build_student_grid rows)) = gr_student_id ` set rows"
  proof -
    have "gw_student_id ` set (gd_rows (build_student_grid rows)) = set (map (gw_student_id \<circ> ?row) (fold put_cell rows []))"
      unfolding rows set_sort set_map image_comp ..
    then show ?thesis unfolding ids using cells by simp
  qed
  moreover have "gw_cells w = cells_of rows (gw_student_id w) \<and> gw_total w = grid_total (cells_of rows (gw_student_id w))"
    if "w \<in> set (gd_rows (build_student_grid rows))" for w
  proof -
    obtain sid cs where w: "(sid, cs) \<in> set (fold put_cell rows [])" "w = ?row (sid, cs)"
      using \<open>w \<in> _\<close> by (auto simp: rows)
    then have "map_of (fold put_cell rows []) sid = Some cs"
      by (intro map_of_is_SomeI conjunct1 [OF conjunct2 [OF cells]])
    then have "cs = cells_of rows sid" using cells [of sid] by (auto split: if_splits)
    then show ?thesis using w(2) by simp
  qed
  moreover have "grid_total (cells_of rows s) =
      (let gs = List.map_filter gr_grade (filter (\<lambda>r. gr_student_id r = s) rows) in if gs = [] then None else Some (sum_list gs))" for s
  proof -
    have "List.map_filter (\<lambda>(i, c). ce_grade c) (map (\<lambda>r. (gr_assignment_id r, grid_cell_of r)) xs) = List.map_filter gr_grade xs" for xs
      by (induction xs) (auto simp: map_filter_simps grid_cell_of_def split: option.split)
    then show ?thesis by (simp add: grid_total_def cells_of_def)
  qed
  ultimately show ?thesis using grid_columns_ids [of "[]" rows]
    by (simp add: Let_def cells_of_def build_student_grid_def)
qed


lemma grid_shows_every_pair_witness:
  "\<exists>w \<in> set (gd_rows (build_student_grid
      [\<lparr>gr_student_id = 1, gr_student_name = ''A'', gr_group_name = ''G'', gr_assignment_id = 2, gr_assignment_title = ''L'',
        gr_min_grade = 6, gr_grade = Some 7, gr_submission_status = None, gr_quiz_score = None, gr_review_score = None,
        gr_squad_name = None, gr_waiting_partner = False, gr_detail = None\<rparr>])). gw_student_id w = 1 \<and> gw_total w = Some 7"
  (is "\<exists>w \<in> set (gd_rows (build_student_grid ?rows)). _")
proof -
  have "distinct (map (\<lambda>r. (gr_student_id r, gr_assignment_id r)) ?rows)" by simp
  note grid = grid_shows_every_pair [OF this, unfolded Let_def]
  from grid have "gw_student_id ` set (gd_rows (build_student_grid ?rows)) = {1}" by simp
  then obtain w where w: "w \<in> set (gd_rows (build_student_grid ?rows))" "gw_student_id w = 1" by blast
  with grid have "gw_total w = Some 7" by (simp add: map_filter_simps)
  with w show ?thesis by blast
qed

end
