(* ===== verification/Jobs.thy ===== *)
theory Jobs
  imports Outbox
begin

text \<open>
  The jobs that only post or send messages: the reminders of deadlines
  (\<open>workers/scheduled/deadline_reminders.py\<close>) and the digest of waiting reviews
  (\<open>workers/scheduled/teacher_digest_processor.py\<close>).

  The advisory lock of a job is a parameter (\<open>lock\<close>), and so are the text of a date (\<open>date_text\<close>) and the time a
  row of the queue was made (\<open>queued_at\<close>), a column no other operation of the model reads.
\<close>

section \<open>Reminders\<close>

definition due_assignments :: "int \<Rightarrow> int \<Rightarrow> db \<Rightarrow> subjects_assignment list" where
  "due_assignments now horizon d =
     filter (\<lambda>a. map_option subj_status (get_subject d (asg_subject_id a)) = Some Subject_ACTIVE \<and>
         (case asg_deadline a of None \<Rightarrow> False | Some t \<Rightarrow> now < t \<and> t \<le> horizon)) (db_assignments d)"

definition is_reminder_of :: "int \<Rightarrow> int \<Rightarrow> outbox_message \<Rightarrow> bool" where
  "is_reminder_of student_id assignment_id m =
     (out_event_type m = DEADLINE_REMINDER \<and> map_of (out_payload m) ''student_id'' = Some (JInt student_id) \<and>
      map_of (out_payload m) ''subjects_assignment_id'' = Some (JInt assignment_id))"

definition has_own_submission :: "db \<Rightarrow> int \<Rightarrow> int \<Rightarrow> bool" where
  "has_own_submission d student_id assignment_id =
     (case find_sa d student_id assignment_id of
        None \<Rightarrow> False
      | Some sa \<Rightarrow> list_ex (\<lambda>s. sub_students_assignment_id s = sa_id sa) (db_submissions d))"

definition opted_out :: "db \<Rightarrow> int \<Rightarrow> bool" where
  "opted_out d student_id =
     list_ex (\<lambda>p. np_student_id p = student_id \<and> np_case p = Case_DEADLINE_REMINDER \<and> \<not> np_enabled p) (db_preferences d)"

definition to_remind :: "db \<Rightarrow> subjects_assignment \<Rightarrow> int \<Rightarrow> bool" where
  "to_remind d a student_id =
     (map_option stu_type (get_student d student_id) = Some REAL \<and>
      \<not> has_own_submission d student_id (asg_id a) \<and>
      \<not> list_ex (is_reminder_of student_id (asg_id a)) (db_outbox d) \<and> \<not> opted_out d student_id)"

definition students_to_remind :: "db \<Rightarrow> subjects_assignment \<Rightarrow> int list" where
  "students_to_remind d a =
     filter (to_remind d a) (map enr_student_id (filter (\<lambda>e. enr_subject_id e = asg_subject_id a) (db_enrolments d)))"

definition reminder_payload :: "(int \<Rightarrow> string) \<Rightarrow> subjects_assignment \<Rightarrow> int \<Rightarrow> pydict" where
  "reminder_payload date_text a student_id =
     [(''student_id'', JInt student_id), (''subjects_assignment_id'', JInt (asg_id a)),
      (''deadline_str'', JStr (case asg_deadline a of Some t \<Rightarrow> date_text t | None \<Rightarrow> ''''))]"

definition remind_students :: "(int \<Rightarrow> string) \<Rightarrow> subjects_assignment \<Rightarrow> db \<times> nat \<Rightarrow> db \<times> nat" where
  "remind_students date_text a = (\<lambda>(d, n).
     (fold (\<lambda>s. add_outbox DEADLINE_REMINDER (reminder_payload date_text a s)) (students_to_remind d a) d,
      n + length (students_to_remind d a)))"

definition enqueue_due_deadline_reminders :: "(int \<Rightarrow> string) \<Rightarrow> int \<Rightarrow> int \<Rightarrow> db \<Rightarrow> db \<times> nat" where
  "enqueue_due_deadline_reminders date_text now days_before d =
     fold (remind_students date_text) (due_assignments now (now + days_before * 86400000000) d) (d, 0)"

definition run_deadline_reminders :: "bool \<Rightarrow> (int \<Rightarrow> string) \<Rightarrow> int \<Rightarrow> int \<Rightarrow> db \<Rightarrow> db" where
  "run_deadline_reminders lock date_text now days_before d =
     (if lock then fst (enqueue_due_deadline_reminders date_text now days_before d) else d)"

section \<open>The digest\<close>

record digest_settings =
  dg_enabled :: bool
  dg_window_seconds :: int
  dg_max_batch :: nat

record digest_entry =
  de_row :: teacher_queue_row
  de_user :: user
  de_full_name :: string
  de_title :: string

definition digest_entry_of :: "db \<Rightarrow> teacher_queue_row \<Rightarrow> digest_entry option" where
  "digest_entry_of d r =
     (if tq_sent_at r \<noteq> None then None
      else
        (case (get_row usr_id (tq_teacher_id r) (db_users d),
               Option.bind (get_submission d (tq_submission_id r)) (assignment_of d)) of
           (Some u, Some (sa, asg)) \<Rightarrow>
             map_option (\<lambda>s. \<lparr>de_row = r, de_user = u, de_full_name = stu_full_name s, de_title = asg_title asg\<rparr>)
               (get_student d (sa_student_id sa))
         | _ \<Rightarrow> None))"

definition unsent_entries :: "(teacher_queue_row \<Rightarrow> int) \<Rightarrow> db \<Rightarrow> digest_entry list" where
  "unsent_entries queued_at d =
     sort_key (\<lambda>e. tq_teacher_id (de_row e))
       (sort_key (queued_at \<circ> de_row) (List.map_filter (digest_entry_of d) (db_queue d)))"

definition by_teacher :: "digest_entry list \<Rightarrow> (int \<times> digest_entry list) list" where
  "by_teacher es =
     map (\<lambda>t. (t, filter (\<lambda>e. tq_teacher_id (de_row e) = t) es)) (remdups (map (\<lambda>e. tq_teacher_id (de_row e)) es))"

definition digest_ready :: "digest_settings \<Rightarrow> (teacher_queue_row \<Rightarrow> int) \<Rightarrow> int \<Rightarrow> digest_entry list \<Rightarrow> bool" where
  "digest_ready cfg queued_at now es =
     (case es of
        [] \<Rightarrow> False
      | e # _ \<Rightarrow> length es \<ge> dg_max_batch cfg \<or> seconds (now - queued_at (de_row e)) \<ge> of_int (dg_window_seconds cfg))"

definition digest_item :: "post_office \<Rightarrow> digest_entry \<Rightarrow> json" where
  "digest_item po e =
     JList [JStr (de_full_name e), JStr (de_title e),
            JStr (base_url po @ ''/teacher/submissions/'' @ str_of_int (tq_submission_id (de_row e)) @ ''/review'')]"

definition digest_mail :: "post_office \<Rightarrow> string \<Rightarrow> digest_entry list \<Rightarrow> mail" where
  "digest_mail po email es =
     \<lparr>ml_recipient = email, ml_template = ''teacher_digest'',
      ml_args = [(''teacher_name'', JStr (usr_username (de_user (hd es)))), (''items'', JList (map (digest_item po) es)),
                 (''dashboard_url'', JStr (base_url po @ ''/teacher''))]\<rparr>"

definition mark_sent :: "int \<Rightarrow> digest_entry list \<Rightarrow> db \<Rightarrow> db" where
  "mark_sent now es d =
     d\<lparr>db_queue := map (\<lambda>r. if r \<in> de_row ` set es then r\<lparr>tq_sent_at := Some now\<rparr> else r) (db_queue d)\<rparr>"

text \<open>A digest that could not be sent leaves its rows; what some channel sent before stays sent.\<close>

definition flush_teacher ::
  "post_office \<Rightarrow> digest_settings \<Rightarrow> (teacher_queue_row \<Rightarrow> int) \<Rightarrow> int \<Rightarrow> int \<times> digest_entry list \<Rightarrow> db \<Rightarrow> db"
where
  "flush_teacher po cfg queued_at now group_entries d =
     (let es = snd group_entries in
      if \<not> digest_ready cfg queued_at now es then d
      else
        (case usr_email (de_user (hd es)) of
           None \<Rightarrow> d
         | Some email \<Rightarrow>
             if email = '''' then d
             else
               (case mail_to po (digest_mail po email es) d of
                  (d1, Some err) \<Rightarrow> d1
                | (d1, None) \<Rightarrow> mark_sent now es d1)))"

definition flush_teacher_digests ::
  "bool \<Rightarrow> post_office \<Rightarrow> digest_settings \<Rightarrow> (teacher_queue_row \<Rightarrow> int) \<Rightarrow> int \<Rightarrow> db \<Rightarrow> db"
where
  "flush_teacher_digests lock po cfg queued_at now d =
     (if \<not> dg_enabled cfg \<or> \<not> lock \<or> build_dispatcher po = [] then d
      else fold (flush_teacher po cfg queued_at now) (by_teacher (unsent_entries queued_at d)) d)"

section \<open>No reminder twice\<close>

definition reminded :: "db \<Rightarrow> int \<Rightarrow> int \<Rightarrow> nat" where
  "reminded d student_id assignment_id = length (filter (is_reminder_of student_id assignment_id) (db_outbox d))"

lemma reminded_none: "\<not> list_ex (is_reminder_of s a) (db_outbox d) \<longleftrightarrow> reminded d s a = 0"
  by (auto simp: reminded_def list_ex_iff filter_empty_conv)

lemma add_outbox_only: "\<exists>q n. add_outbox ev p d = d\<lparr>db_outbox := q, db_next := n\<rparr>"
  by (auto simp: add_outbox_def)

lemma reminders_added:
  assumes "distinct ss"
  shows "reminded (fold (\<lambda>s. add_outbox DEADLINE_REMINDER (reminder_payload date_text a s)) ss d) s b =
      reminded d s b + (if b = asg_id a \<and> s \<in> set ss then 1 else 0)"
  using assms
proof (induction ss arbitrary: d)
  case (Cons x xs)
  have one: "reminded (add_outbox DEADLINE_REMINDER (reminder_payload date_text a x) d) s b =
      reminded d s b + (if b = asg_id a \<and> s = x then 1 else 0)"
    by (auto simp: reminded_def add_outbox_def is_reminder_of_def reminder_payload_def)
  show ?case using Cons one by auto
qed (simp add: reminded_def)

lemma reminders_only:
  "\<exists>q n. fold (\<lambda>s. add_outbox DEADLINE_REMINDER (reminder_payload date_text a s)) ss d = d\<lparr>db_outbox := q, db_next := n\<rparr>"
proof (induction ss arbitrary: d)
  case Nil
  have "fold (\<lambda>s. add_outbox DEADLINE_REMINDER (reminder_payload date_text a s)) [] d = d\<lparr>db_outbox := db_outbox d, db_next := db_next d\<rparr>"
    by simp
  then show ?case by blast
next
  case (Cons s ss)
  obtain q n where 1: "add_outbox DEADLINE_REMINDER (reminder_payload date_text a s) d = d\<lparr>db_outbox := q, db_next := n\<rparr>"
    using add_outbox_only by blast
  show ?case using Cons.IH [of "d\<lparr>db_outbox := q, db_next := n\<rparr>"] 1 by auto
qed

definition wants_reminder :: "db \<Rightarrow> subjects_assignment \<Rightarrow> int \<Rightarrow> bool" where
  "wants_reminder d a s \<longleftrightarrow>
     s \<in> enr_student_id ` {e \<in> set (db_enrolments d). enr_subject_id e = asg_subject_id a} \<and>
     map_option stu_type (get_student d s) = Some REAL \<and> \<not> has_own_submission d s (asg_id a) \<and> \<not> opted_out d s"

lemma wants_reminder_cong:
  "wants_reminder (d\<lparr>db_outbox := q, db_next := n\<rparr>) a s = wants_reminder d a s"
  by (simp add: wants_reminder_def has_own_submission_def opted_out_def get_student_def find_sa_def cong: option.case_cong)

lemma remind_one:
  assumes "distinct (map enr_student_id (filter (\<lambda>e. enr_subject_id e = asg_subject_id a) (db_enrolments d)))"
    and "remind_students date_text a (d, k) = (d', k')"
  shows "\<forall>s b. reminded d' s b =
      (if b = asg_id a \<and> wants_reminder d a s \<and> reminded d s b = 0 then 1 else reminded d s b)"
    and "\<exists>q n. d' = d\<lparr>db_outbox := q, db_next := n\<rparr>"
proof -
  have d': "d' = fold (\<lambda>s. add_outbox DEADLINE_REMINDER (reminder_payload date_text a s)) (students_to_remind d a) d"
    using assms(2) by (simp add: remind_students_def)
  have "distinct (students_to_remind d a)" using assms(1) by (simp add: students_to_remind_def)
  note added = reminders_added [OF this]
  have mem: "s \<in> set (students_to_remind d a) \<longleftrightarrow> wants_reminder d a s \<and> reminded d s (asg_id a) = 0" for s
    by (auto simp: students_to_remind_def to_remind_def wants_reminder_def reminded_none)
  show "\<forall>s b. reminded d' s b =
      (if b = asg_id a \<and> wants_reminder d a s \<and> reminded d s b = 0 then 1 else reminded d s b)"
    unfolding d' added mem by auto
  show "\<exists>q n. d' = d\<lparr>db_outbox := q, db_next := n\<rparr>" unfolding d' by (rule reminders_only)
qed

lemma remind_all:
  assumes "\<forall>a \<in> set as. distinct (map enr_student_id (filter (\<lambda>e. enr_subject_id e = asg_subject_id a) (db_enrolments d)))"
    and "distinct (map asg_id as)"
  shows "\<forall>s b. reminded (fst (fold (remind_students date_text) as (d, k))) s b =
      (if (\<exists>a \<in> set as. b = asg_id a \<and> wants_reminder d a s) \<and> reminded d s b = 0 then 1 else reminded d s b)"
  using assms
proof (induction as arbitrary: d k)
  case (Cons a as)
  obtain d1 k1 where 1: "remind_students date_text a (d, k) = (d1, k1)" by fastforce
  note one = remind_one [OF _ 1]
  have a: "distinct (map enr_student_id (filter (\<lambda>e. enr_subject_id e = asg_subject_id a) (db_enrolments d)))"
    using Cons.prems by simp
  obtain q n where d1: "d1 = d\<lparr>db_outbox := q, db_next := n\<rparr>" using one(2) [OF a] by blast
  have IH: "\<forall>s b. reminded (fst (fold (remind_students date_text) as (d1, k1))) s b =
      (if (\<exists>a \<in> set as. b = asg_id a \<and> wants_reminder d1 a s) \<and> reminded d1 s b = 0 then 1 else reminded d1 s b)"
    by (rule Cons.IH) (use Cons.prems d1 in auto)
  have notin: "asg_id a \<notin> asg_id ` set as" using Cons.prems by simp
  show ?case
  proof (intro allI)
    fix s b
    have same: "wants_reminder d1 = wants_reminder d" by (simp add: fun_eq_iff d1 wants_reminder_cong)
    have first: "reminded d1 s b = (if b = asg_id a \<and> wants_reminder d a s \<and> reminded d s b = 0 then 1 else reminded d s b)"
      using one(1) [OF a] by blast
    have rest: "reminded (fst (fold (remind_students date_text) (a # as) (d, k))) s b =
        (if (\<exists>a \<in> set as. b = asg_id a \<and> wants_reminder d a s) \<and> reminded d1 s b = 0 then 1 else reminded d1 s b)"
      using IH 1 by (simp add: same)
    show "reminded (fst (fold (remind_students date_text) (a # as) (d, k))) s b =
      (if (\<exists>x \<in> set (a # as). b = asg_id x \<and> wants_reminder d x s) \<and> reminded d s b = 0 then 1 else reminded d s b)"
      unfolding rest first using notin by auto
  qed
qed simp


definition sample_due :: db where
  "sample_due = empty_db\<lparr>db_next := 100,
     db_subjects := [\<lparr>subj_id = 1, subj_name = ''S'', subj_code = None, subj_owner_id = None,
       subj_squad_max_size = None, subj_status = Subject_ACTIVE,
       subj_description = None, subj_grid_picture_url = None, subj_main_picture_url = None, subj_classroom_course_id = None, subj_classroom_course_name = None,
       subj_classroom_connection_id = None, subj_classroom_synced_at = None, subj_classroom_sync_error = None\<rparr>],
     db_students := map (\<lambda>i. \<lparr>stu_id = i, stu_full_name = ''N'', stu_email = ''n@x'', stu_group_id = 1, stu_type = REAL,
       stu_recording_consent_at = None\<rparr>) [3, 4],
     db_enrolments := map (\<lambda>i. \<lparr>enr_subject_id = 1, enr_student_id = i\<rparr>) [3, 4],
     db_preferences := [\<lparr>np_student_id = 4, np_case = Case_DEADLINE_REMINDER, np_enabled = False\<rparr>],
     db_assignments := [\<lparr>asg_id = 2, asg_subject_id = 1, asg_code = Some ''lab'', asg_title = ''Lab'', asg_description = None,
       asg_content_files = None, asg_coursework_id = None, asg_coursework_title = None, asg_deadline = Some 100,
       asg_min_grade = 0, asg_max_grade = 10, asg_config = []\<rparr>]\<rparr>"



section \<open>A review is taken off the queue only with a mail\<close>

definition mails_review :: "post_office \<Rightarrow> mail \<Rightarrow> teacher_queue_row \<Rightarrow> bool" where
  "mails_review po m r \<longleftrightarrow>
     (\<exists>its name title. map_of (ml_args m) ''items'' = Some (JList its) \<and>
        JList [JStr name, JStr title,
          JStr (base_url po @ ''/teacher/submissions/'' @ str_of_int (tq_submission_id r) @ ''/review'')] \<in> set its)"

definition told_of :: "post_office \<Rightarrow> db \<Rightarrow> mail list \<Rightarrow> teacher_queue_row \<Rightarrow> bool" where
  "told_of po d ms r \<longleftrightarrow>
     (\<exists>m \<in> set ms. \<exists>u. get_row usr_id (tq_teacher_id r) (db_users d) = Some u \<and> usr_email u = Some (ml_recipient m) \<and>
        mails_review po m r)"

definition sent_rows :: "int \<Rightarrow> teacher_queue_row set \<Rightarrow> teacher_queue_row list \<Rightarrow> teacher_queue_row list" where
  "sent_rows now S rows = map (\<lambda>r. if r \<in> S then r\<lparr>tq_sent_at := Some now\<rparr> else r) rows"

definition entry_ok :: "db \<Rightarrow> digest_entry \<Rightarrow> bool" where
  "entry_ok d e \<longleftrightarrow> tq_sent_at (de_row e) = None \<and>
     get_row usr_id (tq_teacher_id (de_row e)) (db_users d) = Some (de_user e)"

lemma entries_ok:
  assumes "e \<in> set (unsent_entries queued_at d)"
  shows "entry_ok d e"
  using assms
  by (auto simp: unsent_entries_def map_filter_def digest_entry_of_def entry_ok_def
      split: if_splits option.splits)

lemma group_ok:
  assumes "g \<in> set (by_teacher (unsent_entries queued_at d))" and "e \<in> set (snd g)"
  shows "entry_ok d e" "tq_teacher_id (de_row e) = fst g"
  using assms by (auto simp: by_teacher_def intro: entries_ok)

lemma mail_sent_to_someone:
  assumes "mail_to po m d = (d1, None)" and "build_dispatcher po \<noteq> []"
  shows "\<exists>ms. d1 = d\<lparr>db_mails := db_mails d @ ms\<rparr> \<and> m \<in> set ms"
  using notify_channels_sent [OF assms(1) [unfolded mail_to_def]] assms(2) by (auto simp: set_replicate_conv_if)

lemma mail_only_appends: "\<exists>ms. fst (mail_to po m d) = d\<lparr>db_mails := db_mails d @ ms\<rparr>"
proof -
  have "\<exists>ms. fst (notify_channels po m cs d) = d\<lparr>db_mails := db_mails d @ ms\<rparr>" for cs
  proof (induction po m cs d rule: notify_channels.induct)
    case (1 po m d)
    have "fst (notify_channels po m [] d) = d\<lparr>db_mails := db_mails d @ []\<rparr>" by simp
    then show ?case by blast
  next
    case (2 po m c cs d)
    have stay: "d = d\<lparr>db_mails := db_mails d @ []\<rparr>" by simp
    show ?case
    proof (cases "po_accepts po c m")
      case True
      with 2 show ?thesis by auto
    next
      case False
      with stay show ?thesis by (metis fst_conv notify_channels.simps(2))
    qed
  qed
  then show ?thesis by (simp add: mail_to_def)
qed

definition digest_step :: "post_office \<Rightarrow> int \<Rightarrow> db \<Rightarrow> db \<Rightarrow> teacher_queue_row set \<Rightarrow> bool" where
  "digest_step po now d d' S \<longleftrightarrow>
     (\<exists>ms. db_mails d' = db_mails d @ ms \<and> (\<forall>r \<in> S. tq_sent_at r = None \<and> told_of po d ms r)) \<and>
     db_queue d' = sent_rows now S (db_queue d)"

lemma mails_entry:
  assumes "e \<in> set es"
  shows "mails_review po (digest_mail po email es) (de_row e)"
  using assms by (auto simp: mails_review_def digest_mail_def digest_item_def)

lemma flush_teacher_step:
  assumes step: "digest_step po now d0 d S" and sub: "\<forall>e \<in> set (snd g). entry_ok d0 e \<and> tq_teacher_id (de_row e) = fst g"
    and some: "build_dispatcher po \<noteq> []"
  shows "\<exists>S'. digest_step po now d0 (flush_teacher po cfg queued_at now g d) S'"
proof (cases "digest_ready cfg queued_at now (snd g)")
  case False
  then show ?thesis using step by (auto simp: flush_teacher_def)
next
  case ready: True
  let ?es = "snd g"
  obtain ms where ms: "db_mails d = db_mails d0 @ ms" "\<forall>r \<in> S. tq_sent_at r = None \<and> told_of po d0 ms r"
    and q: "db_queue d = sent_rows now S (db_queue d0)" using step by (auto simp: digest_step_def)
  have told_more: "told_of po d0 ms r \<Longrightarrow> told_of po d0 (ms @ more) r" for r more
    by (fastforce simp: told_of_def)
  have keep: "\<exists>S'. digest_step po now d0 d1 S'" if "d1 = d\<lparr>db_mails := db_mails d @ more\<rparr>" for d1 more
    using that ms q told_more by (intro exI [of _ S]) (auto simp: digest_step_def)
  have unsent: "\<forall>r \<in> de_row ` set ?es. tq_sent_at r = None" using sub by (auto simp: entry_ok_def)
  show ?thesis
  proof (cases "\<exists>email. usr_email (de_user (hd ?es)) = Some email \<and> email \<noteq> ''''")
    case False
    then have "flush_teacher po cfg queued_at now g d = d"
      by (auto simp: flush_teacher_def Let_def split: option.splits)
    then show ?thesis using step by auto
  next
    case True
    then obtain email where email: "usr_email (de_user (hd ?es)) = Some email" "email \<noteq> ''''" by blast
    let ?m = "digest_mail po email ?es"
    obtain d1 r where sent: "mail_to po ?m d = (d1, r)" by fastforce
    obtain more where d1: "d1 = d\<lparr>db_mails := db_mails d @ more\<rparr>" using mail_only_appends [of po ?m d] sent by auto
    show ?thesis
    proof (cases r)
      case (Some err)
      then show ?thesis using keep [OF d1] sent ready email by (simp add: flush_teacher_def)
    next
      case None
      then have flush: "flush_teacher po cfg queued_at now g d = mark_sent now ?es d1"
        using sent ready email by (simp add: flush_teacher_def)
      have more: "?m \<in> set more" using mail_sent_to_someone [OF sent [unfolded None] some] d1
        by (metis append_same_eq db.ext_inject db.surjective db.select_convs(33) db.update_convs(33) same_append_eq)
      have ne: "hd ?es \<in> set ?es" using ready by (cases ?es) (auto simp: digest_ready_def)
      have told: "told_of po d0 (ms @ more) (de_row e)" if "e \<in> set ?es" for e
      proof -
        have "get_row usr_id (tq_teacher_id (de_row e)) (db_users d0) = Some (de_user (hd ?es))"
          using sub ne that by (auto simp: entry_ok_def)
        then show ?thesis
          unfolding told_of_def using more mails_entry [OF that, of po email] email(1)
          by (intro bexI [of _ ?m]) (auto simp: digest_mail_def)
      qed
      have "digest_step po now d0 (mark_sent now ?es d1) (S \<union> de_row ` set ?es)"
        unfolding digest_step_def
      proof (intro conjI exI ballI)
        show "db_mails (mark_sent now ?es d1) = db_mails d0 @ (ms @ more)" by (simp add: mark_sent_def d1 ms)
        show "tq_sent_at r = None" if "r \<in> S \<union> de_row ` set ?es" for r using that ms(2) unsent by auto
        show "told_of po d0 (ms @ more) r" if "r \<in> S \<union> de_row ` set ?es" for r
          using that ms(2) told told_more by auto
        show "db_queue (mark_sent now ?es d1) = sent_rows now (S \<union> de_row ` set ?es) (db_queue d0)"
          using unsent by (force simp: mark_sent_def d1 q sent_rows_def)
      qed
      then show ?thesis using flush by auto
    qed
  qed
qed

text \<open>C31. The digest takes a review off the queue only when it has been mailed: after a run every row of the queue is
  as it was or, when it was unsent, stamped with the time of the run; and for each stamped row a digest went
  out in this run to the teacher of the row, at the teacher's own address, that lists the review.\<close>

theorem digest_takes_only_what_it_mailed:
  "\<exists>S. digest_step po now d (flush_teacher_digests lock po cfg queued_at now d) S"
proof -
  have start: "digest_step po now d d {}" by (simp add: digest_step_def sent_rows_def)
  have run: "\<exists>S. digest_step po now d (fold (flush_teacher po cfg queued_at now) gs x) S"
    if "digest_step po now d x S0" "set gs \<subseteq> set (by_teacher (unsent_entries queued_at d))" "build_dispatcher po \<noteq> []" for gs x S0
    using that
  proof (induction gs arbitrary: x S0)
    case (Cons g gs)
    have "\<forall>e \<in> set (snd g). entry_ok d e \<and> tq_teacher_id (de_row e) = fst g"
      using Cons.prems(2) group_ok [of g queued_at d] by (metis list.set_intros(1) subsetD)
    from flush_teacher_step [OF Cons.prems(1) this Cons.prems(3)] obtain S1 where
      "digest_step po now d (flush_teacher po cfg queued_at now g x) S1" by blast
    from Cons.IH [OF this] Cons.prems(2,3) show ?case by simp
  qed auto
  show ?thesis
  proof (cases "\<not> dg_enabled cfg \<or> \<not> lock \<or> build_dispatcher po = []")
    case True
    then show ?thesis using start by (auto simp: flush_teacher_digests_def)
  next
    case False
    then show ?thesis using run [OF start subset_refl] by (auto simp: flush_teacher_digests_def)
  qed
qed

end
