(* ===== verification/Matching.thy ===== *)
theory Matching
  imports Models
begin

text \<open>
  The matching of Classroom accounts with students, \<open>services/google/matching.py\<close>: the similarity of names, and the
  decision between an exact e-mail, a name that stands out and no match.

  Parameters: \<open>tokens\<close> splits a name into its transliterated words (\<open>name_tokens\<close>, tables of Cyrillic letters) and
  \<open>ratio\<close> is \<open>SequenceMatcher.ratio\<close> of the standard library. The properties hold for whatever they return.
\<close>

definition NAME_THRESHOLD :: rat where
  "NAME_THRESHOLD = 85 / 100"

definition MARGIN :: rat where
  "MARGIN = 1 / 10"

record match_candidate =
  ca_student_id :: int
  ca_full_name :: string
  ca_email :: string
  ca_group :: "string option"

record roster_entry =
  re_user_id :: string
  re_full_name :: string
  re_email :: "string option"

record match_result =
  ma_method :: classroom_link_method
  ma_student_id :: "int option"
  ma_score :: "rat option"
  ma_candidates :: "json list"
  ma_certain :: bool

text \<open>The tokens of the part before the at sign, without those that hold a digit.\<close>

definition lower_text :: "string \<Rightarrow> string" where
  "lower_text s = map (\<lambda>c. let n = of_char c :: nat in if 65 \<le> n \<and> n \<le> 90 then char_of (n + 32) else c) s"

fun split_tokens :: "string \<Rightarrow> string \<Rightarrow> string list" where
  "split_tokens acc [] = [rev acc]"
| "split_tokens acc (c # cs) =
     (if c \<in> set ''._-'' then rev acc # split_tokens [] cs else split_tokens (c # acc) cs)"

definition email_tokens :: "string option \<Rightarrow> string list" where
  "email_tokens email =
     (let local_part = lower_text (takeWhile (\<lambda>c. c \<noteq> CHR ''@'') (case email of Some e \<Rightarrow> e | None \<Rightarrow> ''''))
      in filter (\<lambda>t. t \<noteq> '''' \<and> \<not> list_ex is_digit_char t) (split_tokens '''' local_part))"

text \<open>\<open>itertools.permutations(range(n), 2)\<close>.\<close>

definition index_pairs :: "nat \<Rightarrow> (nat \<times> nat) list" where
  "index_pairs n = concat (map (\<lambda>i. map (Pair i) (filter (\<lambda>j. j \<noteq> i) [0..<n])) [0..<n])"

fun max_of :: "rat list \<Rightarrow> rat" where
  "max_of [] = 0"
| "max_of (x # xs) = fold max xs x"

definition name_sim :: "(string \<Rightarrow> string \<Rightarrow> rat) \<Rightarrow> string list \<Rightarrow> string list \<Rightarrow> rat" where
  "name_sim ratio xs ys =
     (let a = take 3 xs; b = take 3 ys in
      if a = [] \<or> b = [] then 0
      else if length a = 1 \<or> length b = 1
      then max_of (concat (map (\<lambda>x. map (ratio x) b) a)) * (1 / 2)
      else
        fold max
          (concat (map (\<lambda>(i, j). map (\<lambda>(k, m). (ratio (a ! i) (b ! k) + ratio (a ! j) (b ! m)) / 2)
             (index_pairs (length b))) (index_pairs (length a)))) 0)"

definition combined_score ::
  "(string \<Rightarrow> string list) \<Rightarrow> (string \<Rightarrow> string \<Rightarrow> rat) \<Rightarrow> roster_entry \<Rightarrow> match_candidate \<Rightarrow> rat"
where
  "combined_score tokens ratio entry c =
     (let nt = tokens (re_full_name entry); et = email_tokens (re_email entry); ct = tokens (ca_full_name c)
      in max (name_sim ratio nt ct) (if length et \<ge> 2 then name_sim ratio et ct else 0))"

definition normal_email :: "string \<Rightarrow> string" where
  "normal_email e = lower_text (py_strip e)"

definition entry_email :: "roster_entry \<Rightarrow> string" where
  "entry_email entry = normal_email (case re_email entry of Some e \<Rightarrow> e | None \<Rightarrow> '''')"

definition suggestion :: "rat \<times> match_candidate \<Rightarrow> json" where
  "suggestion sc =
     JObj [(''student_id'', JInt (ca_student_id (snd sc))), (''full_name'', JStr (ca_full_name (snd sc))),
       (''score'', JFloat (py_round_digits 2 (fst sc)))]"

text \<open>The decision over the candidates by descending score.\<close>

definition by_score :: "(rat \<times> match_candidate) list \<Rightarrow> match_result" where
  "by_score scored =
     (case scored of
        [] \<Rightarrow> \<lparr>ma_method = Link_NONE, ma_student_id = None, ma_score = None, ma_candidates = [], ma_certain = False\<rparr>
      | (best, c) # rest \<Rightarrow>
          let top = map suggestion (take 3 scored);
              second = (case rest of [] \<Rightarrow> 0 | (s, _) # _ \<Rightarrow> s)
          in
            if best \<ge> NAME_THRESHOLD \<and> best - second \<ge> MARGIN
            then \<lparr>ma_method = Link_NAME, ma_student_id = Some (ca_student_id c), ma_score = Some (py_round_digits 2 best),
                  ma_candidates = top, ma_certain = (best = 1)\<rparr>
            else \<lparr>ma_method = Link_NONE, ma_student_id = None, ma_score = Some (py_round_digits 2 best),
                  ma_candidates = top, ma_certain = False\<rparr>)"

definition match_entry ::
  "(string \<Rightarrow> string list) \<Rightarrow> (string \<Rightarrow> string \<Rightarrow> rat) \<Rightarrow> roster_entry \<Rightarrow> match_candidate list \<Rightarrow> match_result"
where
  "match_entry tokens ratio entry candidates =
     (let email = entry_email entry in
      case find (\<lambda>c. email \<noteq> '''' \<and> normal_email (ca_email c) = email) candidates of
        Some c \<Rightarrow> \<lparr>ma_method = Link_EMAIL, ma_student_id = Some (ca_student_id c), ma_score = Some 1, ma_candidates = [], ma_certain = True\<rparr>
      | None \<Rightarrow> by_score (sort_key_desc fst (map (\<lambda>c. (combined_score tokens ratio entry c, c)) candidates)))"

section \<open>A match by name stands out\<close>

lemma by_score_NAME:
  assumes "ma_method (by_score scored) = Link_NAME" and "sorted (map (\<lambda>x. - fst x) scored)"
  obtains best c rest where "scored = (best, c) # rest" and "ma_student_id (by_score scored) = Some (ca_student_id c)"
    and "best \<ge> NAME_THRESHOLD" and "\<forall>x \<in> set rest. fst x \<le> best - MARGIN"
    and "ma_certain (by_score scored) \<longleftrightarrow> best = 1"
proof -
  obtain best c rest where s: "scored = (best, c) # rest"
    using assms(1) by (cases scored) (auto simp: by_score_def)
  have b: "best \<ge> NAME_THRESHOLD" "best - (case rest of [] \<Rightarrow> 0 | (s, _) # _ \<Rightarrow> s) \<ge> MARGIN"
    using assms(1) by (auto simp: s by_score_def Let_def split: if_splits)
  have "fst x \<le> best - MARGIN" if "x \<in> set rest" for x
  proof (cases rest)
    case Nil
    with that show ?thesis by simp
  next
    case (Cons y ys)
    have "fst x \<le> fst y" using assms(2) that by (auto simp: s Cons)
    moreover have "fst y \<le> best - MARGIN" using b(2) by (cases y) (simp add: Cons)
    ultimately show ?thesis by simp
  qed
  with that [OF s] b show thesis by (auto simp: s by_score_def Let_def)
qed

lemma perm_split:
  assumes "mset (x # ys) = mset zs"
  obtains pre post where "zs = pre @ x # post" and "set (pre @ post) = set ys"
proof -
  have "x \<in> set zs" using assms by (metis list.set_intros(1) mset_eq_setD)
  then obtain pre post where z: "zs = pre @ x # post" by (meson split_list)
  have "mset ys = mset (pre @ post)" using assms by (simp add: z)
  then have "set (pre @ post) = set ys" by (metis mset_eq_setD)
  with z that show thesis by blast
qed

text \<open>C40. A Classroom account is tied to a student only on good grounds: by e-mail only when the two addresses are the
  same up to case and outer spaces, and by name only when the student's score is at least 0.85 and every other
  student scores at least 0.10 less; a match counts as certain only for an equal address or a full score.\<close>

theorem match_is_unambiguous:
  assumes "ma_student_id (match_entry tokens ratio entry candidates) = Some sid"
  shows "\<exists>pre c post. candidates = pre @ c # post \<and> ca_student_id c = sid \<and>
    (ma_method (match_entry tokens ratio entry candidates) = Link_EMAIL \<and> entry_email entry \<noteq> '''' \<and>
       normal_email (ca_email c) = entry_email entry \<or>
     ma_method (match_entry tokens ratio entry candidates) = Link_NAME \<and>
       combined_score tokens ratio entry c \<ge> NAME_THRESHOLD \<and>
       list_all (\<lambda>x. combined_score tokens ratio entry x \<le> combined_score tokens ratio entry c - MARGIN) (pre @ post) \<and>
       (ma_certain (match_entry tokens ratio entry candidates) \<longleftrightarrow> combined_score tokens ratio entry c = 1))"
proof (cases "find (\<lambda>c. entry_email entry \<noteq> '''' \<and> normal_email (ca_email c) = entry_email entry) candidates")
  case (Some c)
  then have c: "c \<in> set candidates" "entry_email entry \<noteq> ''''" "normal_email (ca_email c) = entry_email entry"
    by (auto simp: find_Some_iff)
  obtain pre post where "candidates = pre @ c # post" using c(1) by (meson split_list)
  with c assms Some show ?thesis by (intro exI [of _ pre] exI [of _ c] exI [of _ post]) (auto simp: match_entry_def)
next
  case None
  let ?score = "combined_score tokens ratio entry"
  let ?scored = "sort_key_desc fst (map (\<lambda>c. (?score c, c)) candidates)"
  have m: "match_entry tokens ratio entry candidates = by_score ?scored"
    using None by (simp add: match_entry_def)
  have name: "ma_method (by_score ?scored) = Link_NAME"
    using assms unfolding m by (auto simp: by_score_def Let_def split: list.splits if_splits)
  obtain best c rest where s: "?scored = (best, c) # rest" "ma_student_id (by_score ?scored) = Some (ca_student_id c)"
    "best \<ge> NAME_THRESHOLD" "\<forall>x \<in> set rest. fst x \<le> best - MARGIN" "ma_certain (by_score ?scored) \<longleftrightarrow> best = 1"
    using by_score_NAME [OF name] by (auto simp: sort_key_desc_def)
  have perm: "mset ((best, c) # rest) = mset (map (\<lambda>c. (?score c, c)) candidates)"
    unfolding s(1) [symmetric] by (simp add: sort_key_desc_def)
  obtain pre' post' where p: "map (\<lambda>c. (?score c, c)) candidates = pre' @ (best, c) # post'" "set (pre' @ post') = set rest"
    using perm_split [OF perm] by blast
  obtain pre c' post where q: "candidates = pre @ c' # post" "pre' = map (\<lambda>c. (?score c, c)) pre"
    "(best, c) = (?score c', c')" "post' = map (\<lambda>c. (?score c, c)) post"
    using p(1) by (auto simp: map_eq_append_conv map_eq_Cons_conv)
  have "?score x \<le> ?score c' - MARGIN" if "x \<in> set (pre @ post)" for x
  proof -
    have "(?score x, x) \<in> set (pre' @ post')" using that q by auto
    then have "(?score x, x) \<in> set rest" by (simp only: p(2))
    with s(4) have "fst (?score x, x) \<le> best - MARGIN" by blast
    with q(3) show ?thesis by simp
  qed
  with s q assms name show ?thesis unfolding m
    by (intro exI [of _ pre] exI [of _ c'] exI [of _ post]) (auto simp: list_all_iff)
qed

definition sample_tokens :: "string \<Rightarrow> string list" where
  "sample_tokens name = (if name = ''Ann Lee'' then [''ann'', ''lee''] else [''bob'', ''fox''])"

definition sample_ratio :: "string \<Rightarrow> string \<Rightarrow> rat" where
  "sample_ratio x y = (if x = y then 1 else 0)"

definition sample_pupils :: "match_candidate list" where
  "sample_pupils =
     [\<lparr>ca_student_id = 1, ca_full_name = ''Bob Fox'', ca_email = ''b@x'', ca_group = None\<rparr>,
      \<lparr>ca_student_id = 2, ca_full_name = ''Ann Lee'', ca_email = ''a@x'', ca_group = None\<rparr>]"

lemma match_is_unambiguous_witness:
  "\<exists>pre c post. sample_pupils = pre @ c # post \<and> ca_student_id c = 2 \<and>
     combined_score sample_tokens sample_ratio \<lparr>re_user_id = ''u'', re_full_name = ''Ann Lee'', re_email = None\<rparr> c \<ge> NAME_THRESHOLD"
proof -
  let ?e = "\<lparr>re_user_id = ''u'', re_full_name = ''Ann Lee'', re_email = None\<rparr>"
  have "ma_student_id (match_entry sample_tokens sample_ratio ?e sample_pupils) = Some 2" by code_simp
  from match_is_unambiguous [OF this] show ?thesis by (fastforce simp: entry_email_def normal_email_def lower_text_def py_strip_def)
qed

end
