(* ===== verification/Runner.thy ===== *)
theory Runner
  imports LlmBoard
begin

text \<open>
  The runner of the draft grades, \<open>services/llm_grading/runner.py\<close>: one job, the reaping of crashed jobs and
  the nightly loop.

  The judge, the object store and Python's \<open>str\<close> of a value that is no text are parameters (\<open>runner_world\<close>).
  The clock is a sequence of readings, \<open>clock k\<close> the \<open>k\<close>-th; \<open>others k\<close> is what other sessions commit before the
  loop goes on after that reading, so a grading may be approved, superseded or unlinked between the list and the job
  and while the judge works. The loop returns the outcomes of its jobs; the number the code returns is their count.
  Metrics and logs are left out.
\<close>

definition MAX_ATTEMPTS :: int where
  "MAX_ATTEMPTS = 3"

text \<open>One hour, in microseconds.\<close>

definition STALE_AFTER :: int where
  "STALE_AFTER = 3600000000"

definition NO_GRADABLE_FILES :: string where
  "NO_GRADABLE_FILES = ''no_gradable_files''"

definition MAX_ERROR_CHARS :: nat where
  "MAX_ERROR_CHARS = 2000"

definition JUDGE_ERROR_STREAK :: nat where
  "JUDGE_ERROR_STREAK = 3"

datatype job_outcome = Done | Failed | Judge_error | No_files

section \<open>The judge\<close>

record judge_file =
  wf_name :: string
  wf_content :: string
  wf_mime :: string

record grading_request =
  gq_task :: string
  gq_instructions :: string
  gq_criteria :: "llm_criterion list"
  gq_files :: "judge_file list"

record criterion_verdict =
  cv_points :: int
  cv_justification :: string
  cv_evidence :: string

record grading_result =
  gr_criteria :: "(string \<times> criterion_verdict) list"
  gr_comment :: string
  gr_provider :: string
  gr_model :: string
  gr_usage :: pydict

text \<open>An exception: whether it is a \<open>JudgeError\<close>, its text and the name of its class.\<close>

record failure =
  fl_judge :: bool
  fl_text :: string
  fl_class :: string

record runner_world =
  rw_grade :: "grading_request \<Rightarrow> failure + grading_result"
  rw_blob :: "string \<Rightarrow> failure + string"
  rw_str :: "json \<Rightarrow> string"
  rw_exn_text :: "py_exn \<Rightarrow> string"

definition exn_class :: "py_exn \<Rightarrow> string" where
  "exn_class e =
     (case e of TypeError \<Rightarrow> ''TypeError'' | ValueError \<Rightarrow> ''ValueError'' | KeyError \<Rightarrow> ''KeyError''
        | AttributeError \<Rightarrow> ''AttributeError'' | IndexError \<Rightarrow> ''IndexError'' | OverflowError \<Rightarrow> ''OverflowError'')"

definition raised_failure :: "runner_world \<Rightarrow> py_exn \<Rightarrow> failure" where
  "raised_failure w e = \<lparr>fl_judge = False, fl_text = rw_exn_text w e, fl_class = exn_class e\<rparr>"

definition runtime_error :: "string \<Rightarrow> failure" where
  "runtime_error msg = \<lparr>fl_judge = False, fl_text = msg, fl_class = ''RuntimeError''\<rparr>"

definition or_fail :: "runner_world \<Rightarrow> py_exn + 'a \<Rightarrow> failure + 'a" where
  "or_fail w r = map_sum (raised_failure w) id r"

definition text_value :: "runner_world \<Rightarrow> json \<Rightarrow> string" where
  "text_value w v = (case v of JStr s \<Rightarrow> s | _ \<Rightarrow> rw_str w v)"

text \<open>\<open>str(v or default)\<close>.\<close>

definition text_or :: "runner_world \<Rightarrow> string \<Rightarrow> json \<Rightarrow> string" where
  "text_or w alt v = (if truthy v then text_value w v else alt)"

definition gradable :: "pydict list \<Rightarrow> pydict list" where
  "gradable manifest = filter (\<lambda>e. \<not> truthy (dget e ''skipped'' JNull) \<and> truthy (dget e ''storage_key'' JNull)) manifest"

definition get_work :: "db \<Rightarrow> int \<Rightarrow> classroom_work option" where
  "get_work d i = get_row wk_id i (db_works d)"

definition get_link :: "db \<Rightarrow> int \<Rightarrow> classroom_student_link option" where
  "get_link d i = get_row lk_id i (db_links d)"

definition get_grading :: "db \<Rightarrow> int \<Rightarrow> llm_grading option" where
  "get_grading d i = get_row lg_id i (db_gradings d)"

definition upd_grading :: "int \<Rightarrow> (llm_grading \<Rightarrow> llm_grading) \<Rightarrow> db \<Rightarrow> db" where
  "upd_grading i f d = d\<lparr>db_gradings := upd_row lg_id i f (db_gradings d)\<rparr>"

definition work_file_of :: "runner_world \<Rightarrow> pydict \<Rightarrow> failure + judge_file" where
  "work_file_of w e =
     (case map_of e ''name'' of
        None \<Rightarrow> Inl (raised_failure w KeyError)
      | Some name \<Rightarrow>
          bind_result (rw_blob w (text_value w (dget e ''storage_key'' JNull))) (\<lambda>content.
            Inr \<lparr>wf_name = text_value w name, wf_content = content,
                 wf_mime = text_or w ''application/octet-stream'' (dget e ''mime'' JNull)\<rparr>))"

definition build_request :: "runner_world \<Rightarrow> db \<Rightarrow> llm_grading \<Rightarrow> failure + grading_request" where
  "build_request w d g =
     (case get_work d (lg_classroom_work_id g) of
        None \<Rightarrow> Inl (runtime_error (''classroom work '' @ str_of_int (lg_classroom_work_id g) @ '' not found''))
      | Some wk \<Rightarrow>
          (case get_assignment d (wk_subjects_assignment_id wk) of
             None \<Rightarrow> Inl (runtime_error (''assignment '' @ str_of_int (wk_subjects_assignment_id wk) @ '' not found''))
           | Some asg \<Rightarrow>
               bind_result (or_fail w (or_dict (dget (asg_config asg) ''llm_grading'' JNull))) (\<lambda>block.
               bind_result (or_fail w (bind_result (or_dict (dget (asg_config asg) ''grading'' JNull)) llm_criteria)) (\<lambda>crits.
               bind_result (map_result (work_file_of w) (gradable (wk_manifest wk))) (\<lambda>files.
                 Inr \<lparr>gq_task = text_or w '''' (dget block ''task'' JNull),
                      gq_instructions = text_or w '''' (dget block ''instructions'' JNull),
                      gq_criteria = crits, gq_files = files\<rparr>)))))"

section \<open>One job\<close>

definition draft_of :: "grading_result \<Rightarrow> pydict" where
  "draft_of r =
     [(''criteria'', JObj (map (\<lambda>(k, v). (k, JObj [(''points'', JInt (cv_points v)),
          (''justification'', JStr (cv_justification v)), (''evidence'', JStr (cv_evidence v))])) (gr_criteria r))),
      (''comment'', JStr (gr_comment r)), (''usage'', JObj (gr_usage r))]"

definition started :: "int \<Rightarrow> llm_grading \<Rightarrow> llm_grading" where
  "started now g = g\<lparr>lg_status := Grading_RUNNING, lg_updated_at := now\<rparr>"

definition without_files :: "int \<Rightarrow> llm_grading \<Rightarrow> llm_grading" where
  "without_files now g =
     g\<lparr>lg_status := Grading_FAILED, lg_error := Some NO_GRADABLE_FILES, lg_attempts := MAX_ATTEMPTS, lg_updated_at := now\<rparr>"

definition judge_error_text :: "failure \<Rightarrow> string" where
  "judge_error_text f = take MAX_ERROR_CHARS (if fl_text f = '''' then fl_class f else fl_text f)"

definition failed_try :: "int \<Rightarrow> failure \<Rightarrow> llm_grading \<Rightarrow> llm_grading" where
  "failed_try now f g =
     g\<lparr>lg_status := Grading_FAILED, lg_error := Some (judge_error_text f), lg_attempts := lg_attempts g + 1, lg_updated_at := now\<rparr>"

definition graded :: "int \<Rightarrow> grading_result \<Rightarrow> llm_grading \<Rightarrow> llm_grading" where
  "graded now r g =
     g\<lparr>lg_status := Grading_DONE, lg_draft := Some (draft_of r), lg_provider := Some (gr_provider r),
       lg_model := Some (gr_model r), lg_graded_at := Some now, lg_updated_at := now, lg_error := None\<rparr>"

text \<open>\<open>None\<close> is an exception that leaves \<open>grade_one\<close>: the work is gone. \<open>meanwhile\<close> is what others commit while the
  judge works; it does not delete the grading.\<close>

definition grade_one ::
  "runner_world \<Rightarrow> (db \<Rightarrow> db) \<Rightarrow> int \<Rightarrow> int \<Rightarrow> llm_grading \<Rightarrow> db \<Rightarrow> db \<times> job_outcome option"
where
  "grade_one w meanwhile t1 t2 g d =
     (let i = lg_id g;
          d1 = upd_grading i (started t1) d
      in
        (case get_work d1 (lg_classroom_work_id g) of
           None \<Rightarrow> (d1, None)
         | Some wk \<Rightarrow>
             if gradable (wk_manifest wk) = [] then (upd_grading i (without_files t2) d1, Some No_files)
             else
               (case bind_result (build_request w d1 g) (rw_grade w) of
                  Inl f \<Rightarrow> (upd_grading i (failed_try t2 f) (meanwhile d1), Some (if fl_judge f then Judge_error else Failed))
                | Inr r \<Rightarrow> (upd_grading i (graded t2 r) (meanwhile d1), Some Done))))"

section \<open>Crashed jobs\<close>

definition is_stale_job :: "int \<Rightarrow> llm_grading \<Rightarrow> bool" where
  "is_stale_job now g = (lg_status g = Grading_RUNNING \<and> lg_updated_at g < now - STALE_AFTER)"

definition reaped :: "int \<Rightarrow> llm_grading \<Rightarrow> llm_grading" where
  "reaped now g =
     g\<lparr>lg_status := Grading_FAILED, lg_error := Some ''stale'', lg_attempts := lg_attempts g + 1, lg_updated_at := now\<rparr>"

definition reap_stale :: "int \<Rightarrow> db \<Rightarrow> db \<times> nat" where
  "reap_stale now d =
     (d\<lparr>db_gradings := map (\<lambda>g. if is_stale_job now g then reaped now g else g) (db_gradings d)\<rparr>,
      length (filter (is_stale_job now) (db_gradings d)))"

section \<open>The night's list\<close>

definition finished_tonight :: "int \<Rightarrow> llm_grading \<Rightarrow> bool" where
  "finished_tonight night_start g =
     (lg_status g = Grading_DONE \<and> (case lg_graded_at g of Some t \<Rightarrow> t \<ge> night_start | None \<Rightarrow> False) \<or>
      lg_status g = Grading_FAILED \<and> lg_updated_at g \<ge> night_start)"

definition used_tonight :: "int \<Rightarrow> db \<Rightarrow> nat" where
  "used_tonight night_start d = length (filter (finished_tonight night_start) (db_gradings d))"

definition eligible :: "llm_grading \<Rightarrow> bool" where
  "eligible g = (lg_status g = Grading_PENDING \<or> lg_status g = Grading_FAILED \<and> lg_attempts g < MAX_ATTEMPTS)"

definition job_candidate :: "int \<Rightarrow> llm_grading \<Rightarrow> bool" where
  "job_candidate night_start g = (eligible g \<and> (lg_status g \<noteq> Grading_FAILED \<or> lg_updated_at g < night_start))"

definition is_newer :: "classroom_work \<Rightarrow> classroom_work \<Rightarrow> bool" where
  "is_newer w n =
     (wk_classroom_submission_id n = wk_classroom_submission_id w \<and>
      (wk_seen_at n > wk_seen_at w \<or> wk_seen_at n = wk_seen_at w \<and> wk_id n > wk_id w))"

text \<open>The work of a grading and the configuration of its assignment, when a teacher will see it.\<close>

definition in_scope :: "db \<Rightarrow> llm_grading \<Rightarrow> (classroom_work \<times> pydict) option" where
  "in_scope d g =
     (case get_work d (lg_classroom_work_id g) of
        None \<Rightarrow> None
      | Some wk \<Rightarrow>
          (case (get_link d (wk_link_id wk), get_assignment d (wk_subjects_assignment_id wk)) of
             (Some lk, Some asg) \<Rightarrow>
               if lk_method lk \<noteq> Link_IGNORED \<and>
                  map_option subj_status (get_subject d (asg_subject_id asg)) = Some Subject_ACTIVE \<and>
                  asg_coursework_id asg \<noteq> None \<and> \<not> list_ex (is_newer wk) (db_works d)
               then Some (wk, asg_config asg) else None
           | _ \<Rightarrow> None))"

text \<open>\<open>ORDER BY subjects_assignment_id, id\<close>, then the assignments that are graded by the model.\<close>

definition scoped_jobs :: "int \<Rightarrow> db \<Rightarrow> (llm_grading \<times> classroom_work \<times> pydict) list" where
  "scoped_jobs night_start d =
     sort_key (\<lambda>(g, wk, cfg). wk_subjects_assignment_id wk)
       (sort_key (\<lambda>(g, wk, cfg). lg_id g)
         (List.map_filter (\<lambda>g. map_option (Pair g) (in_scope d g)) (filter (job_candidate night_start) (db_gradings d))))"

definition night_list :: "int \<Rightarrow> nat \<Rightarrow> db \<Rightarrow> py_exn + int list" where
  "night_list night_start budget d =
     bind_result (filter_result (\<lambda>(g, wk, cfg). is_llm_graded cfg) (scoped_jobs night_start d)) (\<lambda>jobs.
       Inr (take budget (map (\<lambda>(g, wk, cfg). lg_id g) jobs)))"

section \<open>The loop\<close>

text \<open>The grading when it is still to be graded; an exception here only loses the job.\<close>

definition take_job :: "db \<Rightarrow> int \<Rightarrow> llm_grading option" where
  "take_job d i =
     (case get_grading d i of
        None \<Rightarrow> None
      | Some g \<Rightarrow>
          if \<not> eligible g then None
          else
            (case in_scope d g of
               None \<Rightarrow> None
             | Some (wk, cfg) \<Rightarrow> if is_llm_graded cfg = Inr True then Some g else None))"

fun run_jobs ::
  "runner_world \<Rightarrow> (nat \<Rightarrow> db \<Rightarrow> db) \<Rightarrow> (nat \<Rightarrow> int) \<Rightarrow> int \<Rightarrow> int list \<Rightarrow> nat \<Rightarrow> nat \<Rightarrow> db \<Rightarrow> db \<times> job_outcome list"
where
  "run_jobs w others clock deadline [] k errors d = (d, [])"
| "run_jobs w others clock deadline (i # ids) k errors d =
     (if clock k \<ge> deadline \<or> errors \<ge> JUDGE_ERROR_STREAK then (d, [])
      else
        let d0 = others k d in
        (case take_job d0 i of
           None \<Rightarrow> run_jobs w others clock deadline ids (k + 1) errors d0
         | Some g \<Rightarrow>
             (case grade_one w (others (k + 1)) (clock (k + 1)) (clock (k + 2)) g d0 of
                (d1, None) \<Rightarrow> run_jobs w others clock deadline ids (k + 2) errors d1
              | (d1, Some out) \<Rightarrow>
                  (let (d2, outs) = run_jobs w others clock deadline ids (k + 3)
                         (if out = Judge_error then errors + 1 else 0) d1
                   in (d2, out # outs)))))"

definition grading_loop ::
  "runner_world \<Rightarrow> (nat \<Rightarrow> db \<Rightarrow> db) \<Rightarrow> (nat \<Rightarrow> int) \<Rightarrow> int \<Rightarrow> int \<Rightarrow> int \<Rightarrow> db \<Rightarrow> py_exn + db \<times> job_outcome list"
where
  "grading_loop w others clock deadline cap night_start d =
     (let budget = cap - int (used_tonight night_start d) in
      if budget \<le> 0 then Inr (d, [])
      else
        map_sum id (\<lambda>ids. run_jobs w others clock deadline ids 0 0 d) (night_list night_start (nat budget) d))"

section \<open>Budget and breaker\<close>

lemma jobs_at_most: "length (snd (run_jobs w others clock deadline ids k errors d)) \<le> length ids"
proof (induction ids arbitrary: k errors d)
  case (Cons i ids)
  then show ?case by (auto simp: Let_def case_prod_beta intro: le_SucI split: option.split)
qed simp

lemma breaker:
  assumes "errors \<le> JUDGE_ERROR_STREAK"
    and "run_jobs w others clock deadline ids k errors d = (d', outs)"
  shows "outs = replicate (JUDGE_ERROR_STREAK - errors) Judge_error @ post \<Longrightarrow> post = []"
    and "outs = pre @ replicate JUDGE_ERROR_STREAK Judge_error @ post \<Longrightarrow> post = []"
proof -
  have "(\<forall>post. outs = replicate (JUDGE_ERROR_STREAK - errors) Judge_error @ post \<longrightarrow> post = []) \<and>
      (\<forall>pre post. outs = pre @ replicate JUDGE_ERROR_STREAK Judge_error @ post \<longrightarrow> post = [])"
    using assms
  proof (induction ids arbitrary: k errors d d' outs)
    case Nil
    then show ?case by simp
  next
    case (Cons i ids)
    show ?case
    proof (cases "clock k \<ge> deadline \<or> errors \<ge> JUDGE_ERROR_STREAK")
      case True
      with Cons.prems show ?thesis by auto
    next
      case False
      let ?d0 = "others k d"
      have le: "errors < JUDGE_ERROR_STREAK" using False by simp
      show ?thesis
      proof (cases "take_job ?d0 i")
        case None
        with False Cons.prems(2) have "run_jobs w others clock deadline ids (k + 1) errors ?d0 = (d', outs)"
          by (simp add: Let_def)
        from Cons.IH [OF Cons.prems(1) this] show ?thesis .
      next
        case (Some g)
        obtain d1 r where one: "grade_one w (others (k + 1)) (clock (k + 1)) (clock (k + 2)) g ?d0 = (d1, r)" by fastforce
        show ?thesis
        proof (cases r)
          case None
          with False Some one Cons.prems(2) have "run_jobs w others clock deadline ids (k + 2) errors d1 = (d', outs)"
            by (simp add: Let_def)
          from Cons.IH [OF Cons.prems(1) this] show ?thesis .
        next
          case (Some out)
          let ?n = "if out = Judge_error then errors + 1 else 0"
          obtain rest where rest: "run_jobs w others clock deadline ids (k + 3) ?n d1 = (d', rest)" "outs = out # rest"
            using False \<open>take_job ?d0 i = Some g\<close> one Some Cons.prems(2) by (auto simp: Let_def split: prod.splits)
          have "?n \<le> JUDGE_ERROR_STREAK" using le by simp
          note IH = Cons.IH [OF this rest(1)]
          have first: "post = []" if "outs = replicate (JUDGE_ERROR_STREAK - e) Judge_error @ post" "e \<le> errors" for e post
          proof -
            have e: "JUDGE_ERROR_STREAK - e = Suc (JUDGE_ERROR_STREAK - Suc e)" using le that(2) by simp
            have "out = Judge_error" "rest = replicate (JUDGE_ERROR_STREAK - Suc e) Judge_error @ post"
              using that(1) by (auto simp: rest(2) e)
            moreover have "replicate (JUDGE_ERROR_STREAK - Suc e) Judge_error =
                replicate (JUDGE_ERROR_STREAK - Suc errors) Judge_error @ replicate (errors - e) Judge_error"
              using le that(2) by (simp flip: replicate_add)
            ultimately have "replicate (errors - e) Judge_error @ post = []" using IH by simp
            then show ?thesis by simp
          qed
          have "post = []" if "outs = pre @ replicate JUDGE_ERROR_STREAK Judge_error @ post" for pre post
          proof (cases pre)
            case Nil
            with that first [of 0 post] show ?thesis by simp
          next
            case (Cons x xs)
            with that rest(2) IH show ?thesis by auto
          qed
          with first [of errors] show ?thesis by simp
        qed
      qed
    qed
  qed
  then show "outs = replicate (JUDGE_ERROR_STREAK - errors) Judge_error @ post \<Longrightarrow> post = []"
    and "outs = pre @ replicate JUDGE_ERROR_STREAK Judge_error @ post \<Longrightarrow> post = []" by blast+
qed

text \<open>C35. However many works wait and whatever other sessions do meanwhile, one run of the nightly loop never runs more
  jobs than what is left of the night's cap, and after three judge errors in a row no further job is run.\<close>

theorem night_keeps_to_its_budget:
  assumes "grading_loop w others clock deadline cap night_start d = Inr (d', outs)"
  shows "int (length outs) \<le> max 0 (cap - int (used_tonight night_start d)) \<and>
    \<not> (\<exists>pre out post. outs = pre @ [Judge_error, Judge_error, Judge_error] @ out # post)"
proof (cases "cap - int (used_tonight night_start d) \<le> 0")
  case True
  with assms show ?thesis by (auto simp: grading_loop_def)
next
  case False
  let ?budget = "nat (cap - int (used_tonight night_start d))"
  obtain ids where ids: "night_list night_start ?budget d = Inr ids"
    and run: "run_jobs w others clock deadline ids 0 0 d = (d', outs)"
    using assms False by (auto simp: grading_loop_def Let_def map_sum_eq_Inr split: sum.splits)
  have "length ids \<le> ?budget" using ids by (auto simp: night_list_def bind_result_eq_Inr)
  moreover have "length outs \<le> length ids" using jobs_at_most [of w others clock deadline ids 0 0 d] run by simp
  moreover have "\<nexists>pre out post. outs = pre @ [Judge_error, Judge_error, Judge_error] @ out # post"
    using breaker(2) [OF _ run] by (auto simp: JUDGE_ERROR_STREAK_def numeral_3_eq_3)
  ultimately show ?thesis by auto
qed

section \<open>A job settles its grading\<close>

interpretation gradings: row_store "get_row lg_id" "upd_row lg_id" lg_id
  by (rule row_store_rows)

lemma get_upd_grading:
  assumes "\<And>g. lg_id (f g) = lg_id g"
  shows "get_grading (upd_grading i f d) j = (if i = j then map_option f (get_grading d j) else get_grading d j)"
  using assms by (simp add: get_grading_def upd_grading_def gradings.get_put)

lemma get_work_upd [simp]: "get_work (upd_grading i f d) = get_work d"
  by (simp add: fun_eq_iff get_work_def upd_grading_def)

lemma job_marks [simp]:
  "lg_id (started t g) = lg_id g" "lg_id (without_files t g) = lg_id g" "lg_id (failed_try t f g) = lg_id g"
  "lg_id (graded t r g) = lg_id g" "lg_id (reaped t g) = lg_id g"
  by (simp_all add: started_def without_files_def failed_try_def graded_def reaped_def)

definition settled_grading :: "int \<Rightarrow> llm_grading \<Rightarrow> job_outcome \<Rightarrow> llm_grading \<Rightarrow> bool" where
  "settled_grading t g out g' \<longleftrightarrow>
     lg_id g' = lg_id g \<and> lg_classroom_work_id g' = lg_classroom_work_id g \<and> lg_updated_at g' = t \<and>
     (case out of
        Done \<Rightarrow> lg_status g' = Grading_DONE \<and> lg_draft g' \<noteq> None \<and> lg_graded_at g' = Some t \<and> lg_error g' = None \<and>
          lg_attempts g' = lg_attempts g
      | No_files \<Rightarrow> lg_status g' = Grading_FAILED \<and> lg_attempts g' = MAX_ATTEMPTS \<and> lg_error g' = Some NO_GRADABLE_FILES \<and>
          lg_draft g' = lg_draft g
      | _ \<Rightarrow> lg_status g' = Grading_FAILED \<and> lg_attempts g' = lg_attempts g + 1 \<and> lg_draft g' = lg_draft g \<and>
          (\<exists>e. lg_error g' = Some e \<and> length e \<le> MAX_ERROR_CHARS))"

lemma grade_one_settles:
  assumes "get_grading d (lg_id g) = Some g" and "get_work d (lg_classroom_work_id g) = Some wk"
    and "\<And>x. get_grading (meanwhile x) (lg_id g) = get_grading x (lg_id g)"
  shows "\<exists>d' out g'. grade_one w meanwhile t1 t2 g d = (d', Some out) \<and> get_grading d' (lg_id g) = Some g' \<and>
    settled_grading t2 g out g'"
  using assms
  by (auto simp: grade_one_def Let_def get_upd_grading settled_grading_def started_def without_files_def failed_try_def
      judge_error_text_def graded_def split: sum.split)


section \<open>Retries end\<close>

text \<open>One night after the other, each with a judge of its own, that tries the grading when it is still to be graded.\<close>

definition try_again :: "int \<Rightarrow> runner_world \<times> int \<Rightarrow> db \<Rightarrow> db" where
  "try_again i = (\<lambda>(w, t) d. case take_job d i of None \<Rightarrow> d | Some g \<Rightarrow> fst (grade_one w id t t g d))"

lemma take_job_Some:
  assumes "take_job d i = Some g"
  shows "get_grading d i = Some g" "lg_id g = i" "eligible g" "\<exists>wk. get_work d (lg_classroom_work_id g) = Some wk"
  using assms
  by (auto simp: take_job_def in_scope_def get_grading_def get_row_def find_Some_iff split: option.splits if_splits prod.splits)

lemma not_eligible_no_job: "get_grading d i = Some g \<Longrightarrow> \<not> eligible g \<Longrightarrow> take_job d i = None"
  by (simp add: take_job_def)

lemma try_again_None: "take_job d i = None \<Longrightarrow> fold (try_again i) nights d = d"
  by (induction nights) (auto simp: try_again_def split: prod.splits)

lemma retries_end:
  assumes "nights \<noteq> []" and "get_grading d i = Some g" and "lg_attempts g \<ge> 0"
    and "MAX_ATTEMPTS - lg_attempts g \<le> int (length nights)"
  shows "take_job (fold (try_again i) nights d) i = None"
  using assms
proof (induction nights arbitrary: d g)
  case (Cons n nights)
  show ?case
  proof (cases "take_job d i")
    case None
    then show ?thesis using try_again_None [OF None] by (metis fold_simps(2) list.exhaust)
  next
    case (Some g1)
    from take_job_Some [OF Some] Cons.prems(2) obtain wk where
      g1: "g1 = g" "lg_id g = i" "eligible g" "get_work d (lg_classroom_work_id g) = Some wk" by auto
    obtain w t where n: "n = (w, t)" by fastforce
    obtain d' out g' where one: "grade_one w id t t g d = (d', Some out)" "get_grading d' i = Some g'"
      "settled_grading t g out g'"
      using grade_one_settles [of d g wk id w t t] Cons.prems(2) g1 by auto
    have step: "fold (try_again i) (n # nights) d = fold (try_again i) nights d'"
      using Some g1(1) one(1) by (simp add: try_again_def n)
    show ?thesis
    proof (cases "eligible g'")
      case False
      then show ?thesis using not_eligible_no_job [OF one(2)] try_again_None [of d' i nights] step by simp
    next
      case True
      with one(3) have more: "lg_attempts g' = lg_attempts g + 1" "lg_attempts g' < MAX_ATTEMPTS"
        by (auto simp: settled_grading_def eligible_def MAX_ATTEMPTS_def split: job_outcome.splits)
      then have "nights \<noteq> []" using Cons.prems(4) by auto
      from Cons.IH [OF this one(2)] more Cons.prems(3,4) step show ?thesis by simp
    qed
  qed
qed simp


section \<open>Examples\<close>

definition sample_night :: db where
  "sample_night = sample_board\<lparr>
     db_subjects := [\<lparr>subj_id = 1, subj_name = ''S'', subj_code = None, subj_owner_id = None,
       subj_squad_max_size = None, subj_status = Subject_ACTIVE,
       subj_description = None, subj_grid_picture_url = None, subj_main_picture_url = None, subj_classroom_course_id = Some ''c'',
       subj_classroom_course_name = None, subj_classroom_connection_id = None, subj_classroom_synced_at = None,
       subj_classroom_sync_error = None\<rparr>],
     db_assignments := [sample_llm_assignment\<lparr>asg_coursework_id := Some ''k''\<rparr>],
     db_works := map (\<lambda>w. w\<lparr>wk_manifest := [[(''name'', JStr ''a.py''), (''storage_key'', JStr ''k'')]]\<rparr>) (db_works sample_board)\<rparr>"

definition sample_judge_down :: runner_world where
  "sample_judge_down =
     \<lparr>rw_grade = (\<lambda>q. Inl \<lparr>fl_judge = True, fl_text = ''busy'', fl_class = ''JudgeError''\<rparr>), rw_blob = (\<lambda>k. Inr ''x''),
      rw_str = (\<lambda>v. ''''), rw_exn_text = (\<lambda>e. '''')\<rparr>"

definition sample_pending :: llm_grading where
  "sample_pending = db_gradings sample_night ! 1"

lemma sample_pending_row:
  "get_grading sample_night 72 = Some sample_pending" "lg_id sample_pending = 72" "lg_attempts sample_pending = 0"
  "\<exists>wk. get_work sample_night (lg_classroom_work_id sample_pending) = Some wk"
  by (simp_all add: sample_pending_def sample_night_def sample_board_def get_grading_def get_work_def)

lemma night_keeps_to_its_budget_witness:
  "\<exists>d' outs. grading_loop sample_judge_down (\<lambda>k. id) int 100 5 50 sample_night = Inr (d', outs) \<and> outs = [Judge_error] \<and>
     int (length outs) \<le> max 0 (5 - int (used_tonight 50 sample_night))"
proof -
  have run: "map_sum id snd (grading_loop sample_judge_down (\<lambda>k. id) int 100 5 50 sample_night) = Inr [Judge_error]"
    by code_simp
  then obtain d' where "grading_loop sample_judge_down (\<lambda>k. id) int 100 5 50 sample_night = Inr (d', [Judge_error])"
    by (auto simp: map_sum_eq_Inr)
  with night_keeps_to_its_budget [OF this] show ?thesis by blast
qed



end
