(* ===== verification/Ingest.thy ===== *)
theory Ingest
  imports Runner Matching Similarity
begin

text \<open>
  The ingest of Google Classroom, \<open>services/google/ingest.py\<close>: the roster becomes links, turned-in submissions become
  versioned works with a grading each.

  The Classroom client, the object store, SHA-256 and the two parameters of the matching of names are fields of
  \<open>classroom\<close>; a file's metadata is read with the defaults of the code. A submission is committed on its own, so
  an error inside one leaves the rows as they were before it. Progress reports are collected in order. The column
  \<open>updated_at\<close>, which the runner only reads of failed and running gradings, is not stamped here.
\<close>

datatype ingest_error =
    Auth_error bool
  | Api_error
  | Internal_error

record drive_ref =
  df_id :: string
  df_title :: string

record submission_ref =
  cs_id :: string
  cs_user_id :: string
  cs_state :: string
  cs_late :: bool
  cs_files :: "drive_ref list"

record drive_meta =
  dm_name :: string
  dm_mime :: string
  dm_size :: int
  dm_modified :: string

record downloaded_file =
  dl_name :: string
  dl_mime :: string
  dl_content :: "string option"
  dl_skipped :: "string option"

record classroom =
  cr_students :: "string \<Rightarrow> ingest_error + roster_entry list"
  cr_submissions :: "string \<Rightarrow> string \<Rightarrow> ingest_error + submission_ref list"
  cr_file_meta :: "string \<Rightarrow> ingest_error + drive_meta"
  cr_download :: "string \<Rightarrow> ingest_error + downloaded_file"
  cr_store :: "string \<Rightarrow> bool"
  cr_sha256 :: "string \<Rightarrow> string"
  cr_tokens :: "string \<Rightarrow> string list"
  cr_ratio :: "string \<Rightarrow> string \<Rightarrow> rat"

record ingest_report =
  ir_roster :: nat
  ir_new_links :: nat
  ir_new_versions :: nat
  ir_unchanged :: nat
  ir_errors :: nat

record sync_progress =
  sp_assignments_total :: nat
  sp_assignments_done :: nat
  sp_submissions_total :: nat
  sp_submissions_done :: nat
  sp_new_versions :: nat
  sp_errors :: nat

definition empty_report :: ingest_report where
  "empty_report = \<lparr>ir_roster = 0, ir_new_links = 0, ir_new_versions = 0, ir_unchanged = 0, ir_errors = 0\<rparr>"

definition KEPT_STATES :: "string list" where
  "KEPT_STATES = [''TURNED_IN'', ''RETURNED'']"

definition MAX_FILES_PER_WORK :: nat where
  "MAX_FILES_PER_WORK = 10"

definition MAX_WORK_BYTES :: int where
  "MAX_WORK_BYTES = 40 * 1024 * 1024"

definition SYNC_ERROR_RECONNECT :: string where
  "SYNC_ERROR_RECONNECT = ''reconnect''"

definition SYNC_ERROR_GOOGLE :: string where
  "SYNC_ERROR_GOOGLE = ''google''"

definition SYNC_ERROR_PARTIAL :: string where
  "SYNC_ERROR_PARTIAL = ''partial''"

definition EXPORTS :: "(string \<times> string) list" where
  "EXPORTS = [(''application/vnd.google-apps.document'', ''application/pdf''),
     (''application/vnd.google-apps.presentation'', ''application/pdf'')]"

section \<open>Where a file is stored\<close>

text \<open>\<open>re.sub(r"[^\w.\-]+", "_", name)\<close>, for names in ASCII: a run of other characters becomes one underscore.\<close>

definition is_safe_char :: "char \<Rightarrow> bool" where
  "is_safe_char c = (is_word_char c \<or> c = CHR ''.'' \<or> c = CHR ''-'')"

fun safe_name :: "bool \<Rightarrow> string \<Rightarrow> string" where
  "safe_name in_run [] = []"
| "safe_name in_run (c # cs) =
     (if is_safe_char c then c # safe_name False cs
      else if in_run then safe_name True cs else CHR ''_'' # safe_name True cs)"

definition storage_key :: "int \<Rightarrow> int \<Rightarrow> string \<Rightarrow> string \<Rightarrow> string \<Rightarrow> string" where
  "storage_key subject_id assignment_id submission_id sha256 name =
     (let cut = take 120 (dropWhile (\<lambda>c. c = CHR ''.'') (safe_name False name));
          safe = (if cut = '''' then ''file'' else cut)
      in ''classroom/'' @ str_of_int subject_id @ ''/'' @ str_of_int assignment_id @ ''/'' @ submission_id @
         ''/files/'' @ take 16 sha256 @ ''_'' @ safe)"

section \<open>Links\<close>

definition candidate_of :: "db \<Rightarrow> int \<Rightarrow> match_candidate option" where
  "candidate_of d sid =
     (case get_student d sid of
        None \<Rightarrow> None
      | Some s \<Rightarrow>
          (case get_row grp_id (stu_group_id s) (db_groups d) of
             None \<Rightarrow> None
           | Some g \<Rightarrow> Some \<lparr>ca_student_id = stu_id s, ca_full_name = stu_full_name s, ca_email = stu_email s,
                         ca_group = Some (grp_name g)\<rparr>))"

definition match_candidates :: "db \<Rightarrow> int \<Rightarrow> match_candidate list" where
  "match_candidates d subject_id =
     sort_key ca_student_id (List.map_filter (candidate_of d)
       (map enr_student_id (filter (\<lambda>e. enr_subject_id e = subject_id) (db_enrolments d))))"

definition works_of_link :: "db \<Rightarrow> int \<Rightarrow> int list" where
  "works_of_link d link_id = map wk_id (filter (\<lambda>w. wk_link_id w = link_id) (db_works d))"

definition set_status ::
  "llm_grading_status list \<Rightarrow> int list \<Rightarrow> llm_grading_status \<Rightarrow> db \<Rightarrow> db"
where
  "set_status from work_ids to d =
     d\<lparr>db_gradings := map (\<lambda>g. if lg_status g \<in> set from \<and> lg_classroom_work_id g \<in> set work_ids
         then g\<lparr>lg_status := to\<rparr> else g) (db_gradings d)\<rparr>"

definition release_waiting :: "int \<Rightarrow> db \<Rightarrow> db" where
  "release_waiting link_id d = set_status [Grading_WAITING_LINK] (works_of_link d link_id) Grading_PENDING d"

definition SUPERSEDABLE :: "llm_grading_status list" where
  "SUPERSEDABLE = [Grading_PENDING, Grading_WAITING_LINK, Grading_FAILED]"

definition supersede_others :: "string \<Rightarrow> int \<Rightarrow> db \<Rightarrow> db" where
  "supersede_others submission_id keep_work_id d =
     set_status SUPERSEDABLE
       (map wk_id (filter (\<lambda>w. wk_classroom_submission_id w = submission_id \<and> wk_id w \<noteq> keep_work_id) (db_works d)))
       Grading_SUPERSEDED d"

definition find_link :: "db \<Rightarrow> int \<Rightarrow> string \<Rightarrow> classroom_student_link option" where
  "find_link d subject_id user_id =
     find (\<lambda>l. lk_subject_id l = subject_id \<and> lk_classroom_user_id l = user_id) (db_links d)"

definition upd_link :: "int \<Rightarrow> (classroom_student_link \<Rightarrow> classroom_student_link) \<Rightarrow> db \<Rightarrow> db" where
  "upd_link i f d = d\<lparr>db_links := upd_row lk_id i f (db_links d)\<rparr>"

definition link_name :: "roster_entry \<Rightarrow> string" where
  "link_name entry =
     take 255 (if re_full_name entry \<noteq> '''' then re_full_name entry
               else case re_email entry of Some e \<Rightarrow> if e \<noteq> '''' then e else re_user_id entry | None \<Rightarrow> re_user_id entry)"

definition link_email :: "roster_entry \<Rightarrow> string option" where
  "link_email entry =
     (case re_email entry of None \<Rightarrow> None | Some e \<Rightarrow> if e = '''' then None else Some (take 255 e))"

definition new_link :: "int \<Rightarrow> int \<Rightarrow> roster_entry \<Rightarrow> match_result \<Rightarrow> classroom_student_link" where
  "new_link i subject_id entry m =
     \<lparr>lk_id = i, lk_subject_id = subject_id, lk_student_id = ma_student_id m, lk_method = ma_method m,
      lk_confirmed = ma_certain m, lk_classroom_user_id = re_user_id entry, lk_classroom_email = link_email entry,
      lk_classroom_name = link_name entry, lk_score = ma_score m, lk_candidates = JList (ma_candidates m)\<rparr>"

definition renamed :: "roster_entry \<Rightarrow> classroom_student_link \<Rightarrow> classroom_student_link" where
  "renamed entry l = l\<lparr>lk_classroom_email := link_email entry, lk_classroom_name := link_name entry\<rparr>"

definition rescored :: "match_result \<Rightarrow> classroom_student_link \<Rightarrow> classroom_student_link" where
  "rescored m l = l\<lparr>lk_score := ma_score m, lk_candidates := JList (ma_candidates m)\<rparr>"

definition rematched :: "match_result \<Rightarrow> classroom_student_link \<Rightarrow> classroom_student_link" where
  "rematched m l = l\<lparr>lk_method := ma_method m, lk_student_id := ma_student_id m, lk_confirmed := ma_certain m\<rparr>"

text \<open>One entry of the roster: \<open>True\<close> when a link was created.\<close>

definition upsert_link ::
  "(roster_entry \<Rightarrow> match_result) \<Rightarrow> int \<Rightarrow> roster_entry \<Rightarrow> db \<Rightarrow> db \<times> bool"
where
  "upsert_link matching subject_id entry d =
     (if re_user_id entry = '''' then (d, False)
      else
        (case find_link d subject_id (re_user_id entry) of
           None \<Rightarrow>
             (d\<lparr>db_links := db_links d @ [new_link (db_next d) subject_id entry (matching entry)], db_next := db_next d + 1\<rparr>, True)
         | Some l \<Rightarrow>
             let d1 = upd_link (lk_id l) (renamed entry) d in
             if lk_method l = Link_NAME \<and> \<not> lk_confirmed l then
               (if ma_certain (matching entry) \<and> ma_student_id (matching entry) = lk_student_id l
                then upd_link (lk_id l) (\<lambda>l. l\<lparr>lk_confirmed := True\<rparr>) d1 else d1, False)
             else if lk_method l \<noteq> Link_NONE \<or> lk_student_id l \<noteq> None then (d1, False)
             else
               let m = matching entry; d2 = upd_link (lk_id l) (rescored m) d1 in
               (if ma_method m = Link_NAME \<or> ma_method m = Link_EMAIL
                then release_waiting (lk_id l) (upd_link (lk_id l) (rematched m) d2) else d2, False)))"

fun upsert_entries ::
  "(roster_entry \<Rightarrow> match_result) \<Rightarrow> int \<Rightarrow> roster_entry list \<Rightarrow> db \<Rightarrow> db \<times> nat"
where
  "upsert_entries matching subject_id [] d = (d, 0)"
| "upsert_entries matching subject_id (e # es) d =
     (let (d1, new) = upsert_link matching subject_id e d;
          (d2, n) = upsert_entries matching subject_id es d1
      in (d2, (if new then 1 else 0) + n))"

definition upsert_links :: "classroom \<Rightarrow> int \<Rightarrow> roster_entry list \<Rightarrow> db \<Rightarrow> db \<times> nat" where
  "upsert_links api subject_id roster d =
     upsert_entries (\<lambda>e. match_entry (cr_tokens api) (cr_ratio api) e (match_candidates d subject_id)) subject_id roster d"

section \<open>The files of a submission\<close>

definition entry_text :: "pydict \<Rightarrow> string \<Rightarrow> string" where
  "entry_text e k = (case dget e k JNull of JStr s \<Rightarrow> s | _ \<Rightarrow> ''None'')"

text \<open>The manifests this module writes hold texts under these keys.\<close>

definition modified_set :: "pydict list \<Rightarrow> (string \<times> string) set" where
  "modified_set manifest = set (map (\<lambda>e. (entry_text e ''drive_id'', entry_text e ''modified'')) manifest)"

definition opt_text :: "string option \<Rightarrow> json" where
  "opt_text t = (case t of None \<Rightarrow> JNull | Some s \<Rightarrow> JStr s)"

definition manifest_entry ::
  "drive_ref \<Rightarrow> drive_meta \<Rightarrow> string \<Rightarrow> string \<Rightarrow> int \<Rightarrow> (string \<times> string) option \<Rightarrow> string option \<Rightarrow> pydict"
where
  "manifest_entry ref meta name mime bytes stored skipped =
     [(''drive_id'', JStr (df_id ref)), (''name'', JStr name), (''mime'', JStr mime), (''size'', JInt bytes),
      (''modified'', JStr (dm_modified meta)), (''sha256'', opt_text (map_option fst stored)),
      (''storage_key'', opt_text (map_option snd stored)), (''skipped'', opt_text skipped)]"

definition ref_name :: "drive_ref \<Rightarrow> drive_meta \<Rightarrow> string" where
  "ref_name ref meta =
     (if dm_name meta \<noteq> '''' then dm_name meta else if df_title ref \<noteq> '''' then df_title ref else df_id ref)"

text \<open>One file: its entry and the bytes it adds. A file past the budget or the count is never fetched.\<close>

definition fetch_file ::
  "classroom \<Rightarrow> (string \<Rightarrow> string \<Rightarrow> string) \<Rightarrow> nat \<Rightarrow> int \<Rightarrow> drive_ref \<Rightarrow> drive_meta \<Rightarrow> ingest_error + pydict \<times> int"
where
  "fetch_file api key_of i kept_bytes ref meta =
     (let skip = (\<lambda>name mime why. Inr (manifest_entry ref meta name mime (dm_size meta) None (Some why), 0)) in
      if i \<ge> MAX_FILES_PER_WORK then skip (ref_name ref meta) (dm_mime meta) ''too_many''
      else if kept_bytes + dm_size meta > MAX_WORK_BYTES then skip (ref_name ref meta) (dm_mime meta) ''too_large''
      else
        bind_result (cr_download api (df_id ref)) (\<lambda>f.
          let name = dl_name f;
              mime = (case map_of EXPORTS (dl_mime f) of Some m \<Rightarrow> m | None \<Rightarrow> dl_mime f)
          in
            (case dl_content f of
               None \<Rightarrow>
                 skip name mime (case dl_skipped f of Some s \<Rightarrow> if s \<noteq> '''' then s else ''unavailable'' | None \<Rightarrow> ''unavailable'')
             | Some content \<Rightarrow>
                 if kept_bytes + int (length content) > MAX_WORK_BYTES then skip name mime ''too_large''
                 else
                   let sha = cr_sha256 api content; key = key_of sha name in
                   if \<not> cr_store api key then Inl Internal_error
                   else Inr (manifest_entry ref meta name mime (int (length content)) (Some (sha, key)) None, int (length content)))))"

fun fetch_files ::
  "classroom \<Rightarrow> (string \<Rightarrow> string \<Rightarrow> string) \<Rightarrow> nat \<Rightarrow> int \<Rightarrow> (drive_ref \<times> drive_meta) list \<Rightarrow> ingest_error + pydict list"
where
  "fetch_files api key_of i kept_bytes [] = Inr []"
| "fetch_files api key_of i kept_bytes ((ref, meta) # rest) =
     bind_result (fetch_file api key_of i kept_bytes ref meta) (\<lambda>(e, n).
     bind_result (fetch_files api key_of (i + 1) (kept_bytes + n) rest) (\<lambda>es. Inr (e # es)))"

definition file_shas :: "pydict list \<Rightarrow> string list" where
  "file_shas manifest = List.map_filter (\<lambda>e. case dget e ''sha256'' JNull of JStr s \<Rightarrow> if s = '''' then None else Some s | _ \<Rightarrow> None) manifest"

definition content_hash :: "classroom \<Rightarrow> pydict list \<Rightarrow> string" where
  "content_hash api manifest = cr_sha256 api (concat (sort (file_shas manifest)))"

section \<open>One submission\<close>

definition fresh_status :: "classroom_student_link \<Rightarrow> llm_grading_status" where
  "fresh_status l =
     (case lk_student_id l of Some s \<Rightarrow> if s = 0 then Grading_WAITING_LINK else Grading_PENDING | None \<Rightarrow> Grading_WAITING_LINK)"

definition seen_again :: "submission_ref \<Rightarrow> int \<Rightarrow> classroom_work \<Rightarrow> classroom_work" where
  "seen_again sub now w = w\<lparr>wk_state := cs_state sub, wk_late := cs_late sub, wk_seen_at := now\<rparr>"

definition upd_work :: "int \<Rightarrow> (classroom_work \<Rightarrow> classroom_work) \<Rightarrow> db \<Rightarrow> db" where
  "upd_work i f d = d\<lparr>db_works := upd_row wk_id i f (db_works d)\<rparr>"

definition latest_version :: "db \<Rightarrow> string \<Rightarrow> classroom_work option" where
  "latest_version d submission_id =
     (case newest_first (filter (\<lambda>w. wk_classroom_submission_id w = submission_id) (db_works d)) of
        [] \<Rightarrow> None | w # _ \<Rightarrow> Some w)"

definition new_work ::
  "int \<Rightarrow> int \<Rightarrow> int \<Rightarrow> submission_ref \<Rightarrow> string \<Rightarrow> pydict list \<Rightarrow> int \<Rightarrow> classroom_work"
where
  "new_work i assignment_id link_id sub hash manifest now =
     \<lparr>wk_id = i, wk_subjects_assignment_id = assignment_id, wk_link_id = link_id, wk_seen_at = now,
      wk_classroom_submission_id = cs_id sub, wk_state = cs_state sub, wk_late = cs_late sub,
      wk_content_hash = hash, wk_manifest = manifest, wk_created_at = now\<rparr>"

definition new_grading :: "int \<Rightarrow> int \<Rightarrow> llm_grading_status \<Rightarrow> int \<Rightarrow> llm_grading" where
  "new_grading i work_id st now =
     \<lparr>lg_id = i, lg_classroom_work_id = work_id, lg_status = st, lg_draft = None, lg_approved_by = None,
      lg_approved_at = None, lg_attempts = 0, lg_error = None, lg_provider = None, lg_model = None,
      lg_graded_at = None, lg_updated_at = now\<rparr>"

text \<open>A version with known contents becomes the latest again; new contents become a new version.\<close>

definition keep_version :: "submission_ref \<Rightarrow> classroom_student_link \<Rightarrow> pydict list \<Rightarrow> int \<Rightarrow> classroom_work \<Rightarrow> db \<Rightarrow> db" where
  "keep_version sub link manifest now same d =
     supersede_others (cs_id sub) (wk_id same)
       (set_status [Grading_SUPERSEDED] [wk_id same] (fresh_status link)
         (upd_work (wk_id same) (\<lambda>w. seen_again sub now (w\<lparr>wk_manifest := manifest\<rparr>)) d))"

definition add_version ::
  "int \<Rightarrow> submission_ref \<Rightarrow> classroom_student_link \<Rightarrow> string \<Rightarrow> pydict list \<Rightarrow> int \<Rightarrow> db \<Rightarrow> db"
where
  "add_version assignment_id sub link hash manifest now d =
     (let work_id = db_next d in
      supersede_others (cs_id sub) work_id
        (d\<lparr>db_works := db_works d @ [new_work work_id assignment_id (lk_id link) sub hash manifest now],
           db_gradings := db_gradings d @ [new_grading (work_id + 1) work_id (fresh_status link) now],
           db_next := work_id + 2\<rparr>))"

definition store_version ::
  "classroom \<Rightarrow> int \<Rightarrow> int \<Rightarrow> int \<Rightarrow> submission_ref \<Rightarrow> classroom_student_link \<Rightarrow> (drive_ref \<times> drive_meta) list \<Rightarrow>
   db \<Rightarrow> ingest_report \<Rightarrow> ingest_error + db \<times> ingest_report"
where
  "store_version api now subject_id assignment_id sub link files d rep =
     bind_result (fetch_files api (storage_key subject_id assignment_id (cs_id sub)) 0 0 files) (\<lambda>manifest.
       let hash = content_hash api manifest in
       (case find (\<lambda>w. wk_classroom_submission_id w = cs_id sub \<and> wk_content_hash w = hash) (db_works d) of
          Some same \<Rightarrow> Inr (keep_version sub link manifest now same d, rep\<lparr>ir_unchanged := ir_unchanged rep + 1\<rparr>)
        | None \<Rightarrow>
            Inr (add_version assignment_id sub link hash manifest now d, rep\<lparr>ir_new_versions := ir_new_versions rep + 1\<rparr>)))"

definition ingest_submission ::
  "classroom \<Rightarrow> int \<Rightarrow> int \<Rightarrow> int \<Rightarrow> submission_ref \<Rightarrow> db \<times> ingest_report \<Rightarrow> ingest_error + db \<times> ingest_report"
where
  "ingest_submission api now subject_id assignment_id sub = (\<lambda>(d, rep).
     (case find_link d subject_id (cs_user_id sub) of
        None \<Rightarrow> Inr (d, rep)
      | Some link \<Rightarrow>
          if lk_method link = Link_IGNORED then Inr (d, rep)
          else
            bind_result (map_result (\<lambda>f. cr_file_meta api (df_id f)) (cs_files sub)) (\<lambda>metas.
              let files = zip (cs_files sub) metas;
                  current = set (map (\<lambda>(f, m). (df_id f, dm_modified m)) files);
                  unchanged = rep\<lparr>ir_unchanged := ir_unchanged rep + 1\<rparr>
              in
                (case latest_version d (cs_id sub) of
                   Some latest \<Rightarrow>
                     if modified_set (wk_manifest latest) = current
                     then Inr (upd_work (wk_id latest) (seen_again sub now) d, unchanged)
                     else store_version api now subject_id assignment_id sub link files d rep
                 | None \<Rightarrow> store_version api now subject_id assignment_id sub link files d rep))))"

section \<open>One subject\<close>

definition mark_reconnect :: "int \<Rightarrow> int option \<Rightarrow> db \<Rightarrow> db" where
  "mark_reconnect subject_id connection_id d =
     (let d1 = (case connection_id of
                  None \<Rightarrow> d
                | Some c \<Rightarrow> d\<lparr>db_connections := upd_row gc_id c
                    (\<lambda>x. x\<lparr>gc_status := Connection_ERROR, gc_last_error := Some ''invalid_grant''\<rparr>) (db_connections d)\<rparr>)
      in d1\<lparr>db_subjects := upd_row subj_id subject_id (\<lambda>s. s\<lparr>subj_classroom_sync_error := Some SYNC_ERROR_RECONNECT\<rparr>) (db_subjects d1)\<rparr>)"

definition set_sync_result :: "int \<Rightarrow> int \<Rightarrow> bool \<Rightarrow> string option \<Rightarrow> db \<Rightarrow> db" where
  "set_sync_result now subject_id synced err d =
     d\<lparr>db_subjects := upd_row subj_id subject_id
         (\<lambda>s. s\<lparr>subj_classroom_synced_at := (if synced then Some now else subj_classroom_synced_at s),
                subj_classroom_sync_error := err\<rparr>) (db_subjects d)\<rparr>"

definition is_invalid_grant :: "ingest_error \<Rightarrow> bool" where
  "is_invalid_grant e = (e = Auth_error True)"

record ingest_state =
  ig_db :: db
  ig_report :: ingest_report
  ig_progress :: "sync_progress list"

definition one_error :: "ingest_report \<Rightarrow> ingest_report" where
  "one_error rep = rep\<lparr>ir_errors := ir_errors rep + 1\<rparr>"

definition report_progress :: "nat \<Rightarrow> nat \<Rightarrow> nat \<Rightarrow> nat \<Rightarrow> ingest_state \<Rightarrow> ingest_state" where
  "report_progress all_total done subs_total subs_done st =
     st\<lparr>ig_progress := ig_progress st @
         [\<lparr>sp_assignments_total = all_total, sp_assignments_done = done, sp_submissions_total = subs_total,
           sp_submissions_done = subs_done, sp_new_versions = ir_new_versions (ig_report st),
           sp_errors = ir_errors (ig_report st)\<rparr>]\<rparr>"

text \<open>What the loops run in: the client, the time, the subject, its connection and the number of assignments.\<close>

record ingest_context =
  ic_api :: classroom
  ic_now :: int
  ic_subject_id :: int
  ic_connection_id :: "int option"
  ic_course_id :: string
  ic_total :: nat

definition give_up :: "ingest_context \<Rightarrow> ingest_error \<Rightarrow> ingest_state \<Rightarrow> ingest_state \<times> ingest_error option" where
  "give_up ctx e st = (st\<lparr>ig_db := mark_reconnect (ic_subject_id ctx) (ic_connection_id ctx) (ig_db st)\<rparr>, Some e)"

fun ingest_submissions ::
  "ingest_context \<Rightarrow> int \<Rightarrow> nat \<Rightarrow> nat \<Rightarrow> nat \<Rightarrow> submission_ref list \<Rightarrow> ingest_state \<Rightarrow> ingest_state \<times> ingest_error option"
where
  "ingest_submissions ctx assignment_id index subs_total done [] st = (st, None)"
| "ingest_submissions ctx assignment_id index subs_total done (sub # subs) st =
     (case ingest_submission (ic_api ctx) (ic_now ctx) (ic_subject_id ctx) assignment_id sub (ig_db st, ig_report st) of
        Inl e \<Rightarrow>
          if is_invalid_grant e then give_up ctx e st
          else ingest_submissions ctx assignment_id index subs_total (done + 1) subs
                 (report_progress (ic_total ctx) index subs_total (done + 1) (st\<lparr>ig_report := one_error (ig_report st)\<rparr>))
      | Inr (d, rep) \<Rightarrow>
          ingest_submissions ctx assignment_id index subs_total (done + 1) subs
            (report_progress (ic_total ctx) index subs_total (done + 1) (st\<lparr>ig_db := d, ig_report := rep\<rparr>)))"

definition is_kept :: "submission_ref \<Rightarrow> bool" where
  "is_kept sub = (cs_state sub \<in> set KEPT_STATES \<and> cs_files sub \<noteq> [])"

fun ingest_assignments ::
  "ingest_context \<Rightarrow> nat \<Rightarrow> (int \<times> string) list \<Rightarrow> ingest_state \<Rightarrow> ingest_state \<times> ingest_error option"
where
  "ingest_assignments ctx index [] st = (st, None)"
| "ingest_assignments ctx index ((assignment_id, coursework_id) # rest) st =
     (case cr_submissions (ic_api ctx) (ic_course_id ctx) coursework_id of
        Inl e \<Rightarrow>
          if is_invalid_grant e then give_up ctx e st
          else ingest_assignments ctx (index + 1) rest
                 (report_progress (ic_total ctx) (index + 1) 0 0 (st\<lparr>ig_report := one_error (ig_report st)\<rparr>))
      | Inr submissions \<Rightarrow>
          let kept = filter is_kept submissions; n = length kept in
          (case ingest_submissions ctx assignment_id index n 0 kept (report_progress (ic_total ctx) index n 0 st) of
             (st1, Some e) \<Rightarrow> (st1, Some e)
           | (st1, None) \<Rightarrow> ingest_assignments ctx (index + 1) rest (report_progress (ic_total ctx) (index + 1) n n st1)))"

definition linked_assignments :: "db \<Rightarrow> int \<Rightarrow> py_exn + (int \<times> string) list" where
  "linked_assignments d subject_id =
     bind_result
       (filter_result (\<lambda>a. is_llm_graded (asg_config a))
         (sort_key asg_id (filter (\<lambda>a. asg_subject_id a = subject_id \<and> asg_coursework_id a \<noteq> None) (db_assignments d))))
       (\<lambda>as. Inr (map (\<lambda>a. (asg_id a, the (asg_coursework_id a))) as))"

definition ingest_course :: "ingest_context \<Rightarrow> (int \<times> string) list \<Rightarrow> ingest_state \<Rightarrow> ingest_state \<times> ingest_error option" where
  "ingest_course ctx assignments st =
     (case ingest_assignments ctx 0 assignments (report_progress (ic_total ctx) 0 0 0 st) of
        (st1, Some e) \<Rightarrow> (st1, Some e)
      | (st1, None) \<Rightarrow>
          (st1\<lparr>ig_db := set_sync_result (ic_now ctx) (ic_subject_id ctx) True
              (if ir_errors (ig_report st1) = 0 then None else Some SYNC_ERROR_PARTIAL) (ig_db st1)\<rparr>, None))"

text \<open>The whole sync of a subject: what it leaves, and the error it ends in.\<close>

definition ingest_subject :: "classroom \<Rightarrow> int \<Rightarrow> subject \<Rightarrow> db \<Rightarrow> ingest_state \<times> ingest_error option" where
  "ingest_subject api now subject d =
     (let i = subj_id subject;
          st0 = \<lparr>ig_db = d, ig_report = empty_report, ig_progress = []\<rparr>
      in
        (case subj_classroom_course_id subject of
           None \<Rightarrow> (st0, None)
         | Some course \<Rightarrow>
             if course = '''' then (st0, None)
             else
               (case cr_students api course of
                  Inl e \<Rightarrow>
                    (st0\<lparr>ig_db := (if is_invalid_grant e then mark_reconnect i (subj_classroom_connection_id subject) d
                                  else set_sync_result now i False (Some SYNC_ERROR_GOOGLE) d)\<rparr>, Some e)
                | Inr roster \<Rightarrow>
                    let (d1, n) = upsert_links api i roster d;
                        st1 = st0\<lparr>ig_db := d1, ig_report := empty_report\<lparr>ir_roster := length roster, ir_new_links := n\<rparr>\<rparr>
                    in
                      (case linked_assignments d1 i of
                         Inl x \<Rightarrow> (st1, Some Internal_error)
                       | Inr assignments \<Rightarrow>
                           ingest_course
                             \<lparr>ic_api = api, ic_now = now, ic_subject_id = i,
                              ic_connection_id = subj_classroom_connection_id subject, ic_course_id = course,
                              ic_total = length assignments\<rparr>
                             assignments st1))))"

section \<open>What a sync keeps\<close>

definition has_student :: "classroom_student_link \<Rightarrow> bool" where
  "has_student l \<longleftrightarrow> lk_student_id l \<noteq> None \<and> lk_student_id l \<noteq> Some 0"

definition account :: "classroom_student_link \<Rightarrow> int \<times> string" where
  "account l = (lk_subject_id l, lk_classroom_user_id l)"

definition keys_ok :: "db \<Rightarrow> bool" where
  "keys_ok d \<longleftrightarrow>
     distinct (map wk_id (db_works d)) \<and> distinct (map lk_id (db_links d)) \<and>
     distinct (map account (db_links d)) \<and> distinct (map lg_classroom_work_id (db_gradings d)) \<and>
     (\<forall>w \<in> set (db_works d). wk_id w < db_next d \<and> wk_link_id w \<in> lk_id ` set (db_links d)) \<and>
     (\<forall>g \<in> set (db_gradings d). lg_classroom_work_id g \<in> wk_id ` set (db_works d)) \<and>
     (\<forall>l \<in> set (db_links d). lk_id l < db_next d)"

definition waiting_ok :: "db \<Rightarrow> bool" where
  "waiting_ok d \<longleftrightarrow>
     (\<forall>g \<in> set (db_gradings d). \<forall>w \<in> set (db_works d). \<forall>l \<in> set (db_links d).
        lg_classroom_work_id g = wk_id w \<and> wk_link_id w = lk_id l \<and> has_student l \<longrightarrow> lg_status g \<noteq> Grading_WAITING_LINK)"

text \<open>The subject and the Classroom user a submission belongs to: Classroom never moves one to another user.\<close>

definition owners_ok :: "(string \<Rightarrow> int \<times> string) \<Rightarrow> db \<Rightarrow> bool" where
  "owners_ok owner d \<longleftrightarrow>
     (\<forall>w \<in> set (db_works d). \<forall>l \<in> set (db_links d).
        wk_link_id w = lk_id l \<longrightarrow> owner (wk_classroom_submission_id w) = account l)"

definition classroom_ok :: "(string \<Rightarrow> int \<times> string) \<Rightarrow> db \<Rightarrow> bool" where
  "classroom_ok owner d \<longleftrightarrow> keys_ok d \<and> waiting_ok d \<and> owners_ok owner d"

lemma classroom_ok_cong:
  assumes "db_links d' = db_links d" and "db_works d' = db_works d" and "db_gradings d' = db_gradings d"
    and "db_next d' = db_next d"
  shows "classroom_ok owner d' = classroom_ok owner d"
  using assms by (simp add: classroom_ok_def keys_ok_def waiting_ok_def owners_ok_def)

lemma sync_result_ok: "classroom_ok owner (set_sync_result now i synced err d) = classroom_ok owner d"
  by (rule classroom_ok_cong) (simp_all add: set_sync_result_def)

lemma reconnect_ok: "classroom_ok owner (mark_reconnect i c d) = classroom_ok owner d"
  by (rule classroom_ok_cong) (simp_all add: mark_reconnect_def Let_def split: option.splits)

lemma set_status_keys:
  "map lg_classroom_work_id (db_gradings (set_status from ids to d)) = map lg_classroom_work_id (db_gradings d)"
  by (simp add: set_status_def comp_def if_distrib cong: if_cong)

lemma set_status_work_ids:
  "lg_classroom_work_id ` set (db_gradings (set_status from ids to d)) = lg_classroom_work_id ` set (db_gradings d)"
  using set_status_keys [of "from" ids to d] by (metis list.set_map)

lemma set_status_rows [simp]:
  "db_works (set_status from ids to d) = db_works d" "db_links (set_status from ids to d) = db_links d"
  "db_next (set_status from ids to d) = db_next d"
  by (simp_all add: set_status_def)

lemma all_in_image: "(\<forall>x \<in> set xs. f x \<in> A) \<longleftrightarrow> f ` set xs \<subseteq> A"
  by blast

lemma keys_ok_set_status: "keys_ok (set_status from ids to d) = keys_ok d"
  unfolding keys_ok_def all_in_image by (simp only: set_status_rows set_status_keys set_status_work_ids)

lemma owners_ok_set_status: "owners_ok owner (set_status from ids to d) = owners_ok owner d"
  by (simp add: owners_ok_def)

lemma set_status_mem:
  "g \<in> set (db_gradings (set_status from ids to d)) \<longleftrightarrow>
     (\<exists>g0 \<in> set (db_gradings d). g =
        (if lg_status g0 \<in> set from \<and> lg_classroom_work_id g0 \<in> set ids then g0\<lparr>lg_status := to\<rparr> else g0))"
  by (auto simp: set_status_def)

lemma waiting_ok_set_status:
  assumes "waiting_ok d" and "to \<noteq> Grading_WAITING_LINK"
  shows "waiting_ok (set_status from ids to d)"
  unfolding waiting_ok_def
proof (intro ballI impI)
  fix g w l
  assume g: "g \<in> set (db_gradings (set_status from ids to d))" and w: "w \<in> set (db_works (set_status from ids to d))"
    and l: "l \<in> set (db_links (set_status from ids to d))"
    and k: "lg_classroom_work_id g = wk_id w \<and> wk_link_id w = lk_id l \<and> has_student l"
  obtain g0 where g0: "g0 \<in> set (db_gradings d)"
    "g = (if lg_status g0 \<in> set from \<and> lg_classroom_work_id g0 \<in> set ids then g0\<lparr>lg_status := to\<rparr> else g0)"
    using g unfolding set_status_mem by blast
  have "lg_classroom_work_id g0 = wk_id w" using k g0(2) by (simp split: if_splits)
  then have "lg_status g0 \<noteq> Grading_WAITING_LINK" using assms(1) g0(1) w l k unfolding waiting_ok_def set_status_rows by blast
  then show "lg_status g \<noteq> Grading_WAITING_LINK" using g0(2) assms(2) by simp
qed

lemma set_status_ok:
  assumes "classroom_ok owner d" and "to \<noteq> Grading_WAITING_LINK"
  shows "classroom_ok owner (set_status from ids to d)"
  using assms by (simp add: classroom_ok_def keys_ok_set_status owners_ok_set_status waiting_ok_set_status)

lemma supersede_ok: "classroom_ok owner d \<Longrightarrow> classroom_ok owner (supersede_others sid k d)"
  unfolding supersede_others_def by (rule set_status_ok) simp_all

lemma upd_row_mem: "x \<in> set (upd_row key i f t) \<longleftrightarrow> (\<exists>r \<in> set t. x = (if key r = i then f r else r))"
  by (simp only: upd_row_def set_map image_iff)

text \<open>A write to a link that keeps its keys, its student and its user.\<close>

lemma upd_link_ok:
  assumes ok: "classroom_ok owner d"
    and f: "\<And>l. lk_id (f l) = lk_id l" "\<And>l. lk_subject_id (f l) = lk_subject_id l"
      "\<And>l. lk_classroom_user_id (f l) = lk_classroom_user_id l"
    and st: "\<And>l. l \<in> set (db_links d) \<Longrightarrow> lk_id l = i \<Longrightarrow> has_student (f l) \<Longrightarrow> has_student l \<or>
      (\<forall>g \<in> set (db_gradings d). lg_classroom_work_id g \<in> set (works_of_link d i) \<longrightarrow> lg_status g \<noteq> Grading_WAITING_LINK)"
  shows "classroom_ok owner (upd_link i f d)"
proof -
  have ids: "map lk_id (db_links (upd_link i f d)) = map lk_id (db_links d)"
    by (simp add: upd_link_def map_upd_row f)
  have idset: "lk_id ` set (db_links (upd_link i f d)) = lk_id ` set (db_links d)"
    using ids by (metis list.set_map)
  have accounts: "map account (db_links (upd_link i f d)) = map account (db_links d)"
    by (simp add: upd_link_def map_upd_row account_def f)
  have rest: "db_works (upd_link i f d) = db_works d" "db_gradings (upd_link i f d) = db_gradings d"
    "db_next (upd_link i f d) = db_next d" by (simp_all add: upd_link_def)
  have mem: "\<exists>l0 \<in> set (db_links d). l = (if lk_id l0 = i then f l0 else l0)" if "l \<in> set (db_links (upd_link i f d))" for l
    using that by (simp add: upd_link_def upd_row_mem)
  have lt: "\<forall>l \<in> set (db_links d). lk_id l < db_next d" using ok by (simp add: classroom_ok_def keys_ok_def)
  then have "lk_id ` set (db_links d) \<subseteq> {..< db_next d}" by auto
  then have lt': "\<forall>l \<in> set (db_links (upd_link i f d)). lk_id l < db_next d" unfolding idset [symmetric] by blast
  have "keys_ok (upd_link i f d)"
    using ok lt' unfolding classroom_ok_def keys_ok_def rest ids accounts idset by blast
  moreover have "waiting_ok (upd_link i f d)"
    unfolding waiting_ok_def rest
  proof (intro ballI impI)
    fix g w l
    assume a: "g \<in> set (db_gradings d)" "w \<in> set (db_works d)" "l \<in> set (db_links (upd_link i f d))"
      "lg_classroom_work_id g = wk_id w \<and> wk_link_id w = lk_id l \<and> has_student l"
    obtain l0 where l0: "l0 \<in> set (db_links d)" "l = (if lk_id l0 = i then f l0 else l0)" using mem [OF a(3)] by blast
    have id0: "lk_id l0 = lk_id l" using l0(2) f(1) by simp
    show "lg_status g \<noteq> Grading_WAITING_LINK"
    proof (cases "has_student l0")
      case True
      with id0 show ?thesis using ok a l0(1) unfolding classroom_ok_def waiting_ok_def by metis
    next
      case False
      then have i: "lk_id l0 = i" "has_student (f l0)" using a(4) l0(2) by (auto split: if_splits)
      have "lg_classroom_work_id g \<in> set (works_of_link d i)" using a(2,4) i(1) id0 by (auto simp: works_of_link_def)
      with st [OF l0(1) i] False a(1) show ?thesis by blast
    qed
  qed
  moreover have "owners_ok owner (upd_link i f d)"
    unfolding owners_ok_def rest
  proof (intro ballI impI)
    fix w l
    assume a: "w \<in> set (db_works d)" "l \<in> set (db_links (upd_link i f d))" "wk_link_id w = lk_id l"
    obtain l0 where l0: "l0 \<in> set (db_links d)" "l = (if lk_id l0 = i then f l0 else l0)" using mem [OF a(2)] by blast
    have "owner (wk_classroom_submission_id w) = account l0"
      using ok a l0 f(1) unfolding classroom_ok_def owners_ok_def by (metis (full_types))
    then show "owner (wk_classroom_submission_id w) = account l"
      using l0(2) f by (simp add: account_def)
  qed
  ultimately show ?thesis by (simp add: classroom_ok_def)
qed

lemma works_of_link_upd: "works_of_link (upd_link i f d) k = works_of_link d k"
  by (simp add: works_of_link_def upd_link_def)

lemma release_ok: "classroom_ok owner d \<Longrightarrow> classroom_ok owner (release_waiting i d)"
  unfolding release_waiting_def by (rule set_status_ok) simp_all

lemma release_upd: "release_waiting i (upd_link i f d) = upd_link i f (release_waiting i d)"
  by (simp add: release_waiting_def works_of_link_upd) (simp add: set_status_def upd_link_def)

lemma released:
  assumes "g \<in> set (db_gradings (release_waiting i d))" and "lg_classroom_work_id g \<in> set (works_of_link (release_waiting i d) i)"
  shows "lg_status g \<noteq> Grading_WAITING_LINK"
proof -
  have same: "works_of_link (release_waiting i d) i = works_of_link d i"
    by (simp add: works_of_link_def release_waiting_def)
  obtain g0 where "g = (if lg_status g0 \<in> set [Grading_WAITING_LINK] \<and> lg_classroom_work_id g0 \<in> set (works_of_link d i)
      then g0\<lparr>lg_status := Grading_PENDING\<rparr> else g0)"
    using assms(1) unfolding release_waiting_def set_status_mem by blast
  then show ?thesis using assms(2) unfolding same by (cases "lg_status g0 = Grading_WAITING_LINK") (auto split: if_splits)
qed

lemma link_writes [simp]:
  "lk_id (renamed e l) = lk_id l" "lk_subject_id (renamed e l) = lk_subject_id l"
  "lk_classroom_user_id (renamed e l) = lk_classroom_user_id l" "has_student (renamed e l) = has_student l"
  "lk_id (rescored m l) = lk_id l" "lk_subject_id (rescored m l) = lk_subject_id l"
  "lk_classroom_user_id (rescored m l) = lk_classroom_user_id l" "has_student (rescored m l) = has_student l"
  "lk_id (rematched m l) = lk_id l" "lk_subject_id (rematched m l) = lk_subject_id l"
  "lk_classroom_user_id (rematched m l) = lk_classroom_user_id l"
  by (simp_all add: renamed_def rescored_def rematched_def has_student_def)

lemma add_link_ok:
  assumes ok: "classroom_ok owner d" and l: "lk_id l = db_next d" "account l \<notin> account ` set (db_links d)"
  shows "classroom_ok owner (d\<lparr>db_links := db_links d @ [l], db_next := db_next d + 1\<rparr>)"
proof -
  have keys: "keys_ok d" using ok by (simp add: classroom_ok_def)
  have fresh: "wk_link_id w \<noteq> db_next d" if "w \<in> set (db_works d)" for w
    using keys that unfolding keys_ok_def by (metis imageE less_irrefl)
  have "keys_ok (d\<lparr>db_links := db_links d @ [l], db_next := db_next d + 1\<rparr>)"
    using keys l by (fastforce simp: keys_ok_def)
  then show ?thesis
    using ok l fresh by (auto simp: classroom_ok_def waiting_ok_def owners_ok_def)
qed

lemma upsert_link_ok: "classroom_ok owner d \<Longrightarrow> classroom_ok owner (fst (upsert_link matching subject_id entry d))"
proof (cases "find_link d subject_id (re_user_id entry)")
  case None
  assume "classroom_ok owner d"
  moreover have "account (new_link (db_next d) subject_id entry (matching entry)) \<notin> account ` set (db_links d)"
    using None by (auto simp: find_link_def find_None_iff account_def new_link_def)
  ultimately have "classroom_ok owner (d\<lparr>db_links := db_links d @ [new_link (db_next d) subject_id entry (matching entry)],
      db_next := db_next d + 1\<rparr>)"
    by (intro add_link_ok) (simp_all add: new_link_def)
  with None \<open>classroom_ok owner d\<close> show ?thesis by (simp add: upsert_link_def)
next
  case (Some l)
  assume ok: "classroom_ok owner d"
  let ?m = "matching entry" and ?i = "lk_id l"
  have 1: "classroom_ok owner (upd_link ?i (renamed entry) d)" by (rule upd_link_ok [OF ok]) simp_all
  have 2: "classroom_ok owner (upd_link ?i (\<lambda>l. l\<lparr>lk_confirmed := True\<rparr>) (upd_link ?i (renamed entry) d))"
    by (rule upd_link_ok [OF 1]) (simp_all add: has_student_def)
  have 3: "classroom_ok owner (upd_link ?i (rescored ?m) (upd_link ?i (renamed entry) d))"
    by (rule upd_link_ok [OF 1]) simp_all
  have 4: "classroom_ok owner (release_waiting ?i (upd_link ?i (rematched ?m) (upd_link ?i (rescored ?m) (upd_link ?i (renamed entry) d))))"
    unfolding release_upd [of ?i "rematched ?m"] by (rule upd_link_ok [OF release_ok [OF 3]]) (auto dest: released)
  show ?thesis using Some ok 1 2 3 4 by (simp add: upsert_link_def Let_def)
qed

lemma upsert_links_ok: "classroom_ok owner d \<Longrightarrow> classroom_ok owner (fst (upsert_links api subject_id roster d))"
proof -
  have "classroom_ok owner (fst (upsert_entries m subject_id es d))" if "classroom_ok owner d" for m es d
    using that by (induction es arbitrary: d) (auto simp: case_prod_beta intro: upsert_link_ok)
  then show "classroom_ok owner d \<Longrightarrow> classroom_ok owner (fst (upsert_links api subject_id roster d))"
    by (simp add: upsert_links_def)
qed

lemma upd_work_ok:
  assumes ok: "classroom_ok owner d"
    and f: "\<And>w. wk_id (f w) = wk_id w" "\<And>w. wk_link_id (f w) = wk_link_id w"
      "\<And>w. wk_classroom_submission_id (f w) = wk_classroom_submission_id w"
  shows "classroom_ok owner (upd_work i f d)"
proof -
  have ids: "map wk_id (db_works (upd_work i f d)) = map wk_id (db_works d)"
    by (simp add: upd_work_def map_upd_row f)
  have idset: "wk_id ` set (db_works (upd_work i f d)) = wk_id ` set (db_works d)"
    using ids by (metis list.set_map)
  have rest: "db_links (upd_work i f d) = db_links d" "db_gradings (upd_work i f d) = db_gradings d"
    "db_next (upd_work i f d) = db_next d" by (simp_all add: upd_work_def)
  have old: "\<exists>w0 \<in> set (db_works d). wk_id w = wk_id w0 \<and> wk_link_id w = wk_link_id w0 \<and>
      wk_classroom_submission_id w = wk_classroom_submission_id w0" if "w \<in> set (db_works (upd_work i f d))" for w
  proof -
    have "\<exists>w0 \<in> set (db_works d). w = (if wk_id w0 = i then f w0 else w0)"
      using that by (simp add: upd_work_def upd_row_mem)
    then obtain w0 where "w0 \<in> set (db_works d)" "w = (if wk_id w0 = i then f w0 else w0)" by blast
    then show ?thesis by (intro bexI [of _ w0]) (simp_all add: f)
  qed
  have keys: "keys_ok d" using ok by (simp add: classroom_ok_def)
  have works: "\<forall>w \<in> set (db_works (upd_work i f d)). wk_id w < db_next d \<and> wk_link_id w \<in> lk_id ` set (db_links d)"
    using keys old unfolding keys_ok_def by metis
  have "keys_ok (upd_work i f d)" using keys works unfolding keys_ok_def rest ids idset by blast
  moreover have "waiting_ok (upd_work i f d)"
    unfolding waiting_ok_def rest
  proof (intro ballI impI)
    fix g w l
    assume a: "g \<in> set (db_gradings d)" "w \<in> set (db_works (upd_work i f d))" "l \<in> set (db_links d)"
      "lg_classroom_work_id g = wk_id w \<and> wk_link_id w = lk_id l \<and> has_student l"
    from old [OF a(2)] obtain w0 where "w0 \<in> set (db_works d)" "wk_id w = wk_id w0" "wk_link_id w = wk_link_id w0" by blast
    with ok a show "lg_status g \<noteq> Grading_WAITING_LINK" unfolding classroom_ok_def waiting_ok_def by metis
  qed
  moreover have "owners_ok owner (upd_work i f d)"
    unfolding owners_ok_def rest
  proof (intro ballI impI)
    fix w l
    assume a: "w \<in> set (db_works (upd_work i f d))" "l \<in> set (db_links d)" "wk_link_id w = lk_id l"
    from old [OF a(1)] ok a show "owner (wk_classroom_submission_id w) = account l"
      unfolding classroom_ok_def owners_ok_def by metis
  qed
  ultimately show ?thesis by (simp add: classroom_ok_def)
qed

lemma seen_again_keys [simp]:
  "wk_id (seen_again sub now w) = wk_id w" "wk_link_id (seen_again sub now w) = wk_link_id w"
  "wk_classroom_submission_id (seen_again sub now w) = wk_classroom_submission_id w"
  by (simp_all add: seen_again_def)

lemma find_link_Some:
  "find_link d i u = Some l \<Longrightarrow> l \<in> set (db_links d) \<and> account l = (i, u)"
  by (auto simp: find_link_def find_Some_iff account_def)

lemma fresh_waiting: "fresh_status l = Grading_WAITING_LINK \<longleftrightarrow> \<not> has_student l"
  by (auto simp: fresh_status_def has_student_def split: option.splits)

text \<open>A version of a submission belongs to the link the submission is ingested under.\<close>

lemma link_of_version:
  assumes ok: "classroom_ok owner d" and link: "find_link d i u = Some link" and own: "owner (wk_classroom_submission_id w) = (i, u)"
    and w: "w \<in> set (db_works d)" and l: "l \<in> set (db_links d)" "wk_link_id w = lk_id l"
  shows "l = link"
proof -
  have "account l = account link"
    using ok own w l find_link_Some [OF link] unfolding classroom_ok_def owners_ok_def by metis
  moreover have "inj_on account (set (db_links d))" using ok by (simp add: classroom_ok_def keys_ok_def distinct_map)
  ultimately show ?thesis using l(1) find_link_Some [OF link] by (metis inj_onD)
qed

lemma revive_ok:
  assumes ok: "classroom_ok owner d" and link: "find_link d i u = Some link" and own: "owner (wk_classroom_submission_id same) = (i, u)"
    and same: "same \<in> set (db_works d)"
  shows "classroom_ok owner (set_status [Grading_SUPERSEDED] [wk_id same] (fresh_status link) d)"
proof (cases "has_student link")
  case True
  then show ?thesis by (intro set_status_ok [OF ok]) (simp add: fresh_waiting)
next
  case False
  have "waiting_ok (set_status [Grading_SUPERSEDED] [wk_id same] (fresh_status link) d)"
    unfolding waiting_ok_def
  proof (intro ballI impI)
    fix g w l
    assume a: "g \<in> set (db_gradings (set_status [Grading_SUPERSEDED] [wk_id same] (fresh_status link) d))"
      "w \<in> set (db_works (set_status [Grading_SUPERSEDED] [wk_id same] (fresh_status link) d))"
      "l \<in> set (db_links (set_status [Grading_SUPERSEDED] [wk_id same] (fresh_status link) d))"
      "lg_classroom_work_id g = wk_id w \<and> wk_link_id w = lk_id l \<and> has_student l"
    obtain g0 where g0: "g0 \<in> set (db_gradings d)"
      "g = (if lg_status g0 \<in> set [Grading_SUPERSEDED] \<and> lg_classroom_work_id g0 \<in> set [wk_id same]
        then g0\<lparr>lg_status := fresh_status link\<rparr> else g0)"
      using a(1) unfolding set_status_mem by blast
    have "w \<noteq> same" using False link_of_version [OF ok link own same] a by auto
    moreover have "inj_on wk_id (set (db_works d))" using ok by (simp add: classroom_ok_def keys_ok_def distinct_map)
    ultimately have "wk_id w \<noteq> wk_id same" using a(2) same by (auto dest: inj_onD)
    then have "g = g0" using g0(2) a(4) by (auto split: if_splits)
    then show "lg_status g \<noteq> Grading_WAITING_LINK"
      using ok g0(1) a unfolding classroom_ok_def waiting_ok_def set_status_rows by metis
  qed
  then show ?thesis using ok by (simp add: classroom_ok_def keys_ok_set_status owners_ok_set_status)
qed

lemma keep_version_ok:
  assumes ok: "classroom_ok owner d" and link: "find_link d i u = Some link" and own: "owner (cs_id sub) = (i, u)"
    and same: "same \<in> set (db_works d)" "wk_classroom_submission_id same = cs_id sub"
  shows "classroom_ok owner (keep_version sub link manifest now same d)"
proof -
  let ?f = "\<lambda>w. seen_again sub now (w\<lparr>wk_manifest := manifest\<rparr>)"
  let ?d = "upd_work (wk_id same) ?f d"
  have 1: "classroom_ok owner ?d" by (rule upd_work_ok [OF ok]) simp_all
  have link': "find_link ?d i u = Some link" using link by (simp add: find_link_def upd_work_def)
  have "?f same \<in> set (db_works ?d)" using same(1) by (force simp: upd_work_def upd_row_mem)
  from revive_ok [OF 1 link' _ this] own same(2)
  have "classroom_ok owner (set_status [Grading_SUPERSEDED] [wk_id same] (fresh_status link) ?d)" by simp
  then show ?thesis unfolding keep_version_def by (rule supersede_ok)
qed

lemma add_version_ok:
  assumes ok: "classroom_ok owner d" and link: "find_link d i u = Some link" and own: "owner (cs_id sub) = (i, u)"
  shows "classroom_ok owner (add_version a sub link hash manifest now d)"
proof -
  let ?n = "db_next d"
  let ?w = "new_work ?n a (lk_id link) sub hash manifest now"
  let ?d = "d\<lparr>db_works := db_works d @ [?w], db_gradings := db_gradings d @ [new_grading (?n + 1) ?n (fresh_status link) now],
      db_next := ?n + 2\<rparr>"
  have w [simp]: "wk_id ?w = ?n" "wk_link_id ?w = lk_id link" "wk_classroom_submission_id ?w = cs_id sub"
    by (simp_all add: new_work_def)
  have g [simp]: "lg_classroom_work_id (new_grading (?n + 1) ?n st now) = ?n" "lg_status (new_grading (?n + 1) ?n st now) = st" for st
    by (simp_all add: new_grading_def)
  have keys: "keys_ok d" using ok by (simp add: classroom_ok_def)
  have lk: "link \<in> set (db_links d)" "account link = (i, u)" using find_link_Some [OF link] by auto
  have freshw: "wk_id x < ?n" if "x \<in> set (db_works d)" for x using keys that by (simp add: keys_ok_def)
  have freshg: "lg_classroom_work_id x < ?n" if "x \<in> set (db_gradings d)" for x
    using keys that freshw unfolding keys_ok_def by (metis imageE)
  have inj: "inj_on lk_id (set (db_links d))" using keys by (simp add: keys_ok_def distinct_map)
  have "keys_ok ?d"
  proof -
    have "distinct (map wk_id (db_works ?d))" "distinct (map lg_classroom_work_id (db_gradings ?d))"
      using keys freshw freshg by (force simp: keys_ok_def)+
    moreover have "\<forall>x \<in> set (db_works ?d). wk_id x < db_next ?d \<and> wk_link_id x \<in> lk_id ` set (db_links ?d)"
      using keys freshw lk by (force simp: keys_ok_def)
    moreover have "\<forall>x \<in> set (db_gradings ?d). lg_classroom_work_id x \<in> wk_id ` set (db_works ?d)"
      using keys by (auto simp: keys_ok_def)
    moreover have "\<forall>l \<in> set (db_links ?d). lk_id l < db_next ?d" using keys by (force simp: keys_ok_def)
    ultimately show ?thesis using keys by (simp add: keys_ok_def)
  qed
  moreover have "waiting_ok ?d"
    unfolding waiting_ok_def
  proof (intro ballI impI)
    fix x y l
    assume a: "x \<in> set (db_gradings ?d)" "y \<in> set (db_works ?d)" "l \<in> set (db_links ?d)"
      "lg_classroom_work_id x = wk_id y \<and> wk_link_id y = lk_id l \<and> has_student l"
    show "lg_status x \<noteq> Grading_WAITING_LINK"
    proof (cases "wk_id y = ?n")
      case True
      then have "y = ?w" "x = new_grading (?n + 1) ?n (fresh_status link) now"
        using a freshw [of y] freshg [of x] by auto
      moreover have "l = link" using \<open>y = ?w\<close> a lk inj by (auto dest: inj_onD)
      ultimately show ?thesis using a(4) fresh_waiting [of link] by simp
    next
      case False
      then have "y \<in> set (db_works d)" "x \<in> set (db_gradings d)" using a by auto
      moreover have "l \<in> set (db_links d)" using a(3) by simp
      ultimately show ?thesis using ok a(4) unfolding classroom_ok_def waiting_ok_def by blast
    qed
  qed
  moreover have "owners_ok owner ?d"
    using ok own lk inj by (auto simp: classroom_ok_def owners_ok_def dest: inj_onD)
  ultimately have "classroom_ok owner ?d" by (simp add: classroom_ok_def)
  then show ?thesis unfolding add_version_def Let_def by (rule supersede_ok)
qed

lemma latest_in:
  assumes "latest_version d s = Some w"
  shows "w \<in> set (db_works d)" "wk_classroom_submission_id w = s"
proof -
  let ?ws = "filter (\<lambda>w. wk_classroom_submission_id w = s) (db_works d)"
  obtain ws where "newest_first ?ws = w # ws" using assms by (auto simp: latest_version_def split: list.splits)
  then have "w \<in> set (newest_first ?ws)" by simp
  then have "w \<in> set ?ws" by (simp add: newest_first_def)
  then show "w \<in> set (db_works d)" "wk_classroom_submission_id w = s" by auto
qed

lemma store_version_cases:
  assumes "store_version api now i a sub link files d rep = Inr (d', rep')"
  obtains (kept) manifest same where "fetch_files api (storage_key i a (cs_id sub)) 0 0 files = Inr manifest"
      "same \<in> set (db_works d)" "wk_classroom_submission_id same = cs_id sub" "d' = keep_version sub link manifest now same d"
    | (added) manifest where "fetch_files api (storage_key i a (cs_id sub)) 0 0 files = Inr manifest"
      "d' = add_version a sub link (content_hash api manifest) manifest now d"
proof -
  obtain manifest where m: "fetch_files api (storage_key i a (cs_id sub)) 0 0 files = Inr manifest"
    using assms by (auto simp: store_version_def bind_result_eq_Inr)
  let ?find = "find (\<lambda>w. wk_classroom_submission_id w = cs_id sub \<and> wk_content_hash w = content_hash api manifest) (db_works d)"
  show thesis
  proof (cases ?find)
    case None
    with assms m added [OF m] show thesis by (simp add: store_version_def bind_result_def Let_def)
  next
    case (Some same)
    with assms m kept [OF m, of same] show thesis
      by (auto simp: store_version_def bind_result_def Let_def dest: find_mem)
  qed
qed

lemma ingest_cases:
  assumes "ingest_submission api now i a sub (d, rep) = Inr (d', rep')"
  obtains (nothing) "d' = d" "find_link d i (cs_user_id sub) = None \<or>
      map_option lk_method (find_link d i (cs_user_id sub)) = Some Link_IGNORED"
    | (unchanged) link metas latest where "find_link d i (cs_user_id sub) = Some link"
      "map_result (\<lambda>f. cr_file_meta api (df_id f)) (cs_files sub) = Inr metas"
      "latest_version d (cs_id sub) = Some latest"
      "modified_set (wk_manifest latest) = set (map (\<lambda>(f, m). (df_id f, dm_modified m)) (zip (cs_files sub) metas))"
      "d' = upd_work (wk_id latest) (seen_again sub now) d"
    | (stored) link metas where "find_link d i (cs_user_id sub) = Some link"
      "map_result (\<lambda>f. cr_file_meta api (df_id f)) (cs_files sub) = Inr metas"
      "store_version api now i a sub link (zip (cs_files sub) metas) d rep = Inr (d', rep')"
proof (cases "find_link d i (cs_user_id sub)")
  case None
  with assms have "d' = d" by (simp add: ingest_submission_def)
  then show thesis by (rule nothing) (simp add: None)
next
  case (Some link)
  show thesis
  proof (cases "lk_method link = Link_IGNORED")
    case True
    with assms Some have "d' = d" by (simp add: ingest_submission_def)
    then show thesis by (rule nothing) (simp add: Some True)
  next
    case False
    obtain metas where m: "map_result (\<lambda>f. cr_file_meta api (df_id f)) (cs_files sub) = Inr metas"
      using assms Some False by (auto simp: ingest_submission_def bind_result_eq_Inr)
    show thesis
    proof (cases "latest_version d (cs_id sub)")
      case None
      with assms m False stored [OF Some m] Some show thesis
        by (simp add: ingest_submission_def bind_result_def Let_def)
    next
      case (Some latest)
      note l = this
      show thesis
      proof (cases "modified_set (wk_manifest latest) = set (map (\<lambda>(f, m). (df_id f, dm_modified m)) (zip (cs_files sub) metas))")
        case True
        with assms m False l unchanged [OF \<open>find_link d i (cs_user_id sub) = Some link\<close> m l True]
          \<open>find_link d i (cs_user_id sub) = Some link\<close> show thesis
          by (simp add: ingest_submission_def bind_result_def Let_def)
      next
        case diff: False
        with assms m False l stored [OF \<open>find_link d i (cs_user_id sub) = Some link\<close> m]
          \<open>find_link d i (cs_user_id sub) = Some link\<close> show thesis
          by (simp add: ingest_submission_def bind_result_def Let_def)
      qed
    qed
  qed
qed

lemma store_version_ok:
  assumes "store_version api now i a sub link files d rep = Inr (d', rep')"
    and ok: "classroom_ok owner d" and link: "find_link d i (cs_user_id sub) = Some link" and own: "owner (cs_id sub) = (i, cs_user_id sub)"
  shows "classroom_ok owner d'"
  using assms(1)
  by (cases rule: store_version_cases) (simp_all add: keep_version_ok [OF ok link own] add_version_ok [OF ok link own])

lemma ingest_submission_ok:
  assumes step: "ingest_submission api now i a sub (d, rep) = Inr (d', rep')" and ok: "classroom_ok owner d"
    and own: "owner (cs_id sub) = (i, cs_user_id sub)"
  shows "classroom_ok owner d'"
  using step
proof (cases rule: ingest_cases)
  case nothing
  with ok show ?thesis by simp
next
  case (unchanged link metas latest)
  then show ?thesis by (simp add: upd_work_ok [OF ok])
next
  case (stored link metas)
  then show ?thesis using store_version_ok [OF stored(3) ok stored(1) own] by simp
qed

lemma ingest_submissions_ok:
  assumes "classroom_ok owner (ig_db st)" and "\<forall>s \<in> set subs. owner (cs_id s) = (ic_subject_id ctx, cs_user_id s)"
  shows "classroom_ok owner (ig_db (fst (ingest_submissions ctx a index n k subs st)))"
  using assms
proof (induction subs arbitrary: k st)
  case (Cons sub subs)
  then show ?case
    by (auto simp: give_up_def reconnect_ok report_progress_def ingest_submission_ok split: sum.split)
qed simp

lemma ingest_assignments_ok:
  assumes "classroom_ok owner (ig_db st)"
    and "\<And>k subs s. cr_submissions (ic_api ctx) (ic_course_id ctx) k = Inr subs \<Longrightarrow> s \<in> set subs \<Longrightarrow>
      owner (cs_id s) = (ic_subject_id ctx, cs_user_id s)"
  shows "classroom_ok owner (ig_db (fst (ingest_assignments ctx index as st)))"
  using assms(1)
proof (induction as arbitrary: index st)
  case (Cons x as)
  obtain a k where x: "x = (a, k)" by fastforce
  show ?case
  proof (cases "cr_submissions (ic_api ctx) (ic_course_id ctx) k")
    case (Inl e)
    then show ?thesis using Cons by (simp add: x give_up_def reconnect_ok report_progress_def)
  next
    case (Inr subs)
    let ?kept = "filter is_kept subs"
    let ?st = "report_progress (ic_total ctx) index (length ?kept) 0 st"
    obtain st1 e where step: "ingest_submissions ctx a index (length ?kept) 0 ?kept ?st = (st1, e)" by fastforce
    have "classroom_ok owner (ig_db (fst (ingest_submissions ctx a index (length ?kept) 0 ?kept ?st)))"
      by (rule ingest_submissions_ok) (use Cons.prems assms(2) Inr in \<open>auto simp: report_progress_def\<close>)
    then have ok1: "classroom_ok owner (ig_db st1)" by (simp add: step)
    then have "classroom_ok owner (ig_db (report_progress n j m k st1))" for n j m k by (simp add: report_progress_def)
    then show ?thesis using Cons.IH Inr step ok1 by (simp add: x Let_def split: option.split)
  qed
qed simp


section \<open>The newest version counts\<close>

definition versions_ok :: "db \<Rightarrow> string \<Rightarrow> bool" where
  "versions_ok d s \<longleftrightarrow>
     (\<forall>w \<in> set (db_works d). wk_classroom_submission_id w = s \<longrightarrow>
        (\<forall>g \<in> set (db_gradings d). lg_classroom_work_id g = wk_id w \<longrightarrow>
           (if latest_version d s = Some w then lg_status g \<noteq> Grading_SUPERSEDED else lg_status g \<notin> set SUPERSEDABLE)))"

lemma latest_strict:
  assumes "w \<in> set (db_works d)" and "wk_classroom_submission_id w = s"
    and "\<And>v. v \<in> set (db_works d) \<Longrightarrow> wk_classroom_submission_id v = s \<Longrightarrow> v \<noteq> w \<Longrightarrow> wk_seen_at v < wk_seen_at w"
  shows "latest_version d s = Some w"
proof -
  let ?ws = "filter (\<lambda>w. wk_classroom_submission_id w = s) (db_works d)"
  have set: "set (newest_first ?ws) = set ?ws" by (simp add: newest_first_def)
  then have "w \<in> set (newest_first ?ws)" using assms(1,2) by simp
  then obtain x rest where n: "newest_first ?ws = x # rest" by (cases "newest_first ?ws") auto
  have x: "x \<in> set ?ws" using set n by auto
  have "x = w"
  proof (rule ccontr)
    assume ne: "x \<noteq> w"
    then have "w \<in> set rest" using \<open>w \<in> set (newest_first ?ws)\<close> n by simp
    then have "wk_seen_at w \<le> wk_seen_at x" using newest_first_sorted [of ?ws] n by simp
    moreover have "wk_seen_at x < wk_seen_at w" using assms(3) x ne by simp
    ultimately show False by simp
  qed
  then show ?thesis by (simp add: latest_version_def n)
qed

text \<open>A write to one version that sees it now.\<close>

lemma seen_now:
  assumes ids: "distinct (map wk_id (db_works d))" and w: "w \<in> set (db_works d)"
    and f: "wk_id (f w) = wk_id w" "wk_classroom_submission_id (f w) = wk_classroom_submission_id w" "wk_seen_at (f w) = now"
    and old: "\<forall>v \<in> set (db_works d). wk_seen_at v < now"
  shows "latest_version (upd_work (wk_id w) f d) (wk_classroom_submission_id w) = Some (f w)"
    and "\<And>v. v \<in> set (db_works (upd_work (wk_id w) f d)) \<Longrightarrow> v \<noteq> f w \<Longrightarrow> v \<in> set (db_works d) \<and> wk_id v \<noteq> wk_id w"
proof -
  have inj: "inj_on wk_id (set (db_works d))" using ids by (simp add: distinct_map)
  show others: "v \<in> set (db_works d) \<and> wk_id v \<noteq> wk_id w"
    if v: "v \<in> set (db_works (upd_work (wk_id w) f d))" "v \<noteq> f w" for v
  proof -
    have "\<exists>r \<in> set (db_works d). v = (if wk_id r = wk_id w then f r else r)"
      using v(1) by (simp add: upd_work_def upd_row_mem)
    then obtain r where r: "r \<in> set (db_works d)" "v = (if wk_id r = wk_id w then f r else r)" by blast
    have "wk_id r \<noteq> wk_id w" using r w v(2) inj by (metis inj_onD)
    with r show ?thesis by simp
  qed
  have "f w \<in> set (db_works (upd_work (wk_id w) f d))" using w by (force simp: upd_work_def upd_row_mem)
  then show "latest_version (upd_work (wk_id w) f d) (wk_classroom_submission_id w) = Some (f w)"
    by (rule latest_strict) (use f old others in auto)
qed

lemma fresh_not_superseded [simp]: "fresh_status l \<noteq> Grading_SUPERSEDED"
  by (simp add: fresh_status_def split: option.splits)

lemma superseded_others:
  assumes "g \<in> set (db_gradings (supersede_others s k d))" and "w \<in> set (db_works d)" and "wk_classroom_submission_id w = s"
    and "wk_id w \<noteq> k" and "lg_classroom_work_id g = wk_id w"
  shows "lg_status g \<notin> set SUPERSEDABLE"
proof -
  let ?ids = "map wk_id (filter (\<lambda>w. wk_classroom_submission_id w = s \<and> wk_id w \<noteq> k) (db_works d))"
  obtain g0 where g0: "g = (if lg_status g0 \<in> set SUPERSEDABLE \<and> lg_classroom_work_id g0 \<in> set ?ids
      then g0\<lparr>lg_status := Grading_SUPERSEDED\<rparr> else g0)"
    using assms(1) unfolding supersede_others_def set_status_mem by blast
  have "lg_classroom_work_id g0 = wk_id w" using assms(5) g0 by (simp split: if_splits)
  then have "lg_classroom_work_id g0 \<in> set ?ids" using assms(2-4) by simp
  then show ?thesis using g0 by (cases "lg_status g0 \<in> set SUPERSEDABLE") (simp_all add: SUPERSEDABLE_def)
qed

lemma superseded_same:
  assumes "g \<in> set (db_gradings (supersede_others s k d))" and "lg_classroom_work_id g = k"
  shows "g \<in> set (db_gradings d)"
proof -
  let ?ids = "map wk_id (filter (\<lambda>w. wk_classroom_submission_id w = s \<and> wk_id w \<noteq> k) (db_works d))"
  obtain g0 where g0: "g0 \<in> set (db_gradings d)" "g = (if lg_status g0 \<in> set SUPERSEDABLE \<and> lg_classroom_work_id g0 \<in> set ?ids
      then g0\<lparr>lg_status := Grading_SUPERSEDED\<rparr> else g0)"
    using assms(1) unfolding supersede_others_def set_status_mem by blast
  have "lg_classroom_work_id g0 = k" using assms(2) g0 by (simp split: if_splits)
  then have "g = g0" using g0(2) by auto
  with g0(1) show ?thesis by simp
qed

lemma latest_cong: "db_works d' = db_works d \<Longrightarrow> latest_version d' s = latest_version d s"
  by (simp add: latest_version_def)

lemma supersede_works [simp]: "db_works (supersede_others s k d) = db_works d"
  by (simp add: supersede_others_def)

text \<open>Where a version that others are superseded for is the latest one and not superseded itself, all is well.\<close>

lemma versions_after_supersede:
  assumes ids: "distinct (map wk_id (db_works d))" and w: "w \<in> set (db_works d)" and latest: "latest_version d s = Some w"
    and live: "\<forall>g \<in> set (db_gradings d). lg_classroom_work_id g = wk_id w \<longrightarrow> lg_status g \<noteq> Grading_SUPERSEDED"
  shows "versions_ok (supersede_others s (wk_id w) d) s"
  unfolding versions_ok_def
proof (intro ballI impI)
  fix v g
  assume v: "v \<in> set (db_works (supersede_others s (wk_id w) d))" "wk_classroom_submission_id v = s"
    and g: "g \<in> set (db_gradings (supersede_others s (wk_id w) d))" "lg_classroom_work_id g = wk_id v"
  have l: "latest_version (supersede_others s (wk_id w) d) s = Some w" using latest by (simp only: latest_cong [OF supersede_works])
  show "if latest_version (supersede_others s (wk_id w) d) s = Some v then lg_status g \<noteq> Grading_SUPERSEDED
      else lg_status g \<notin> set SUPERSEDABLE"
  proof (cases "v = w")
    case True
    then show ?thesis using superseded_same [OF g(1)] g(2) live l by simp
  next
    case False
    have "inj_on wk_id (set (db_works d))" using ids by (simp add: distinct_map)
    then have "wk_id v \<noteq> wk_id w" using False v(1) w by (auto dest: inj_onD)
    then show ?thesis using superseded_others [OF g(1) _ v(2) _ g(2)] v(1) l False by simp
  qed
qed

definition drive_state :: "drive_ref \<times> drive_meta \<Rightarrow> string \<times> string" where
  "drive_state = (\<lambda>(f, m). (df_id f, dm_modified m))"

lemma entry_state:
  "entry_text (manifest_entry ref meta name mime n stored skipped) ''drive_id'' = df_id ref"
  "entry_text (manifest_entry ref meta name mime n stored skipped) ''modified'' = dm_modified meta"
  by (simp_all add: entry_text_def manifest_entry_def dget_def)

lemma fetch_file_state:
  assumes "fetch_file api key_of i kept ref meta = Inr (e, n)"
  shows "entry_text e ''drive_id'' = df_id ref" "entry_text e ''modified'' = dm_modified meta"
  using assms by (auto simp: fetch_file_def Let_def entry_state bind_result_eq_Inr split: if_splits option.splits)

lemma fetch_files_state:
  "fetch_files api key_of i kept files = Inr es \<Longrightarrow> modified_set es = set (map drive_state files)"
proof (induction files arbitrary: i kept es)
  case (Cons f files)
  obtain ref meta where f: "f = (ref, meta)" by fastforce
  obtain e n es' where s: "fetch_file api key_of i kept ref meta = Inr (e, n)"
    "fetch_files api key_of (i + 1) (kept + n) files = Inr es'" "es = e # es'"
    using Cons.prems by (auto simp: f bind_result_eq_Inr)
  show ?case using Cons.IH [OF s(2)] fetch_file_state [OF s(1)]
    by (simp add: s(3) modified_set_def f drive_state_def)
qed (simp add: modified_set_def)

definition now_stands_for :: "submission_ref \<Rightarrow> drive_meta list \<Rightarrow> int \<Rightarrow> classroom_work \<Rightarrow> bool" where
  "now_stands_for sub metas now w \<longleftrightarrow>
     wk_seen_at w = now \<and> wk_state w = cs_state sub \<and> wk_late w = cs_late sub \<and>
     modified_set (wk_manifest w) = set (map drive_state (zip (cs_files sub) metas))"

lemma versions_after_seen:
  assumes ok: "versions_ok d s" and ids: "distinct (map wk_id (db_works d))" and latest: "latest_version d s = Some w"
    and old: "\<forall>v \<in> set (db_works d). wk_seen_at v < cs_now"
    and f: "wk_id (f w) = wk_id w" "wk_classroom_submission_id (f w) = s" "wk_seen_at (f w) = cs_now"
  shows "versions_ok (upd_work (wk_id w) f d) s"
  unfolding versions_ok_def
proof (intro ballI impI)
  fix v g
  assume v: "v \<in> set (db_works (upd_work (wk_id w) f d))" "wk_classroom_submission_id v = s"
    and g: "g \<in> set (db_gradings (upd_work (wk_id w) f d))" "lg_classroom_work_id g = wk_id v"
  have w: "w \<in> set (db_works d)" "wk_classroom_submission_id w = s" using latest_in [OF latest] by auto
  note now = seen_now [OF ids w(1), of f cs_now]
  have l: "latest_version (upd_work (wk_id w) f d) s = Some (f w)" using now(1) f w old by simp
  have g0: "g \<in> set (db_gradings d)" using g(1) by (simp add: upd_work_def)
  show "if latest_version (upd_work (wk_id w) f d) s = Some v then lg_status g \<noteq> Grading_SUPERSEDED
      else lg_status g \<notin> set SUPERSEDABLE"
  proof (cases "v = f w")
    case True
    then show ?thesis using ok w latest g0 g(2) f(1) l unfolding versions_ok_def by simp
  next
    case False
    then have "v \<in> set (db_works d)" "v \<noteq> w" using now(2) [OF _ _ _ _ v(1)] f w old by auto
    then show ?thesis using ok v(2) latest g0 g(2) l False unfolding versions_ok_def by auto
  qed
qed

lemma revived:
  assumes "g \<in> set (db_gradings (set_status [Grading_SUPERSEDED] [k] (fresh_status link) d))" and "lg_classroom_work_id g = k"
  shows "lg_status g \<noteq> Grading_SUPERSEDED"
proof -
  obtain g0 where g0: "g = (if lg_status g0 \<in> set [Grading_SUPERSEDED] \<and> lg_classroom_work_id g0 \<in> set [k]
      then g0\<lparr>lg_status := fresh_status link\<rparr> else g0)"
    using assms(1) unfolding set_status_mem by blast
  then show ?thesis using assms(2) by (cases "lg_status g0 = Grading_SUPERSEDED") (auto split: if_splits)
qed

lemma keep_version_versions:
  assumes ids: "distinct (map wk_id (db_works d))" and same: "same \<in> set (db_works d)" "wk_classroom_submission_id same = cs_id sub"
    and old: "\<forall>v \<in> set (db_works d). wk_seen_at v < now"
  shows "versions_ok (keep_version sub link manifest now same d) (cs_id sub)"
    and "latest_version (keep_version sub link manifest now same d) (cs_id sub) =
      Some (seen_again sub now (same\<lparr>wk_manifest := manifest\<rparr>))"
proof -
  let ?f = "\<lambda>w. seen_again sub now (w\<lparr>wk_manifest := manifest\<rparr>)"
  let ?d = "upd_work (wk_id same) ?f d"
  let ?e = "set_status [Grading_SUPERSEDED] [wk_id same] (fresh_status link) ?d"
  have at: "wk_seen_at (?f same) = now" by (simp add: seen_again_def)
  have l: "latest_version ?d (cs_id sub) = Some (?f same)"
    using seen_now(1) [OF ids same(1), of ?f now] at old same(2) by simp
  then have le: "latest_version ?e (cs_id sub) = Some (?f same)" by (simp only: latest_cong [OF set_status_rows(1)])
  have ids': "distinct (map wk_id (db_works ?e))" using ids by (simp add: upd_work_def map_upd_row)
  have f: "?f same \<in> set (db_works ?e)" using latest_in(1) [OF le] .
  have "\<forall>g \<in> set (db_gradings ?e). lg_classroom_work_id g = wk_id (?f same) \<longrightarrow> lg_status g \<noteq> Grading_SUPERSEDED"
    using revived by fastforce
  from versions_after_supersede [OF ids' f le this]
  show "versions_ok (keep_version sub link manifest now same d) (cs_id sub)" by (simp add: keep_version_def)
  show "latest_version (keep_version sub link manifest now same d) (cs_id sub) = Some (?f same)"
    using le unfolding keep_version_def by (simp only: latest_cong [OF supersede_works])
qed

lemma add_version_versions:
  assumes keys: "keys_ok d" and old: "\<forall>v \<in> set (db_works d). wk_seen_at v < now"
  shows "versions_ok (add_version a sub link hash manifest now d) (cs_id sub)"
    and "latest_version (add_version a sub link hash manifest now d) (cs_id sub) =
      Some (new_work (db_next d) a (lk_id link) sub hash manifest now)"
proof -
  let ?n = "db_next d"
  let ?w = "new_work ?n a (lk_id link) sub hash manifest now"
  let ?d = "d\<lparr>db_works := db_works d @ [?w], db_gradings := db_gradings d @ [new_grading (?n + 1) ?n (fresh_status link) now],
      db_next := ?n + 2\<rparr>"
  have w: "wk_id ?w = ?n" "wk_seen_at ?w = now" "wk_classroom_submission_id ?w = cs_id sub" by (simp_all add: new_work_def)
  have le: "latest_version ?d (cs_id sub) = Some ?w" by (rule latest_strict) (use w old in auto)
  have fresh: "\<forall>v \<in> set (db_works d). wk_id v < ?n" using keys by (simp add: keys_ok_def)
  have ids: "distinct (map wk_id (db_works ?d))" using keys fresh w by (force simp: keys_ok_def)
  have none: "lg_classroom_work_id g \<noteq> ?n" if "g \<in> set (db_gradings d)" for g
    using keys that fresh unfolding keys_ok_def by (metis imageE less_irrefl)
  have live: "\<forall>g \<in> set (db_gradings ?d). lg_classroom_work_id g = wk_id ?w \<longrightarrow> lg_status g \<noteq> Grading_SUPERSEDED"
    using none w by (auto simp: new_grading_def)
  from versions_after_supersede [OF ids _ le live] w
  show "versions_ok (add_version a sub link hash manifest now d) (cs_id sub)" by (simp add: add_version_def Let_def)
  show "latest_version (add_version a sub link hash manifest now d) (cs_id sub) = Some ?w"
    using le unfolding add_version_def Let_def by (simp only: latest_cong [OF supersede_works])
qed


section \<open>What is stored of a work\<close>

definition is_stored :: "pydict \<Rightarrow> bool" where
  "is_stored e \<longleftrightarrow> dget e ''storage_key'' JNull \<noteq> JNull"

definition stored_bytes :: "pydict \<Rightarrow> int" where
  "stored_bytes e = (if is_stored e then case dget e ''size'' JNull of JInt n \<Rightarrow> n | _ \<Rightarrow> 0 else 0)"

lemma entry_stored:
  "is_stored (manifest_entry ref meta name mime n stored skipped) \<longleftrightarrow> stored \<noteq> None"
  "stored_bytes (manifest_entry ref meta name mime n stored skipped) = (if stored = None then 0 else n)"
  by (auto simp: stored_bytes_def is_stored_def manifest_entry_def dget_def opt_text_def split: option.splits)

lemma fetch_file_bytes:
  assumes "fetch_file api key_of i kept ref meta = Inr (e, n)" and "kept \<le> MAX_WORK_BYTES"
  shows "stored_bytes e = n" "kept + n \<le> MAX_WORK_BYTES" "is_stored e \<Longrightarrow> i < MAX_FILES_PER_WORK"
  using assms
  by (auto simp: fetch_file_def Let_def entry_stored bind_result_eq_Inr split: if_splits option.splits)

text \<open>Whatever a student hands in, at most 40 MB of it and at most ten files are kept, and every file of the
  submission has its entry in the manifest.\<close>

theorem stored_work_is_bounded:
  assumes "fetch_files api key_of 0 0 files = Inr es"
  shows "length es = length files \<and> sum_list (map stored_bytes es) \<le> MAX_WORK_BYTES \<and>
    length (filter is_stored es) \<le> MAX_FILES_PER_WORK"
proof -
  have "length es = length files \<and> kept + sum_list (map stored_bytes es) \<le> MAX_WORK_BYTES \<and>
      length (filter is_stored es) \<le> MAX_FILES_PER_WORK - i"
    if "fetch_files api key_of i kept files = Inr es" "kept \<le> MAX_WORK_BYTES" for i kept files es
    using that
  proof (induction files arbitrary: i kept es)
    case (Cons f files)
    obtain ref meta where f: "f = (ref, meta)" by fastforce
    obtain e n es' where s: "fetch_file api key_of i kept ref meta = Inr (e, n)"
      "fetch_files api key_of (i + 1) (kept + n) files = Inr es'" "es = e # es'"
      using Cons.prems(1) by (auto simp: f bind_result_eq_Inr)
    note one = fetch_file_bytes [OF s(1) Cons.prems(2)]
    from Cons.IH [OF s(2) one(2)] one(1,3) show ?case by (auto simp: s(3))
  qed simp
  from this [of 0 0 files es] assms show ?thesis by (simp add: MAX_WORK_BYTES_def)
qed

section \<open>Examples\<close>

definition sample_drive :: classroom where
  "sample_drive =
     \<lparr>cr_students = (\<lambda>c. Inr []), cr_submissions = (\<lambda>c k. Inr []),
      cr_file_meta = (\<lambda>f. Inr \<lparr>dm_name = ''a.py'', dm_mime = ''text/plain'', dm_size = 2, dm_modified = ''t1''\<rparr>),
      cr_download = (\<lambda>f. Inr \<lparr>dl_name = ''a.py'', dl_mime = ''text/plain'', dl_content = Some ''xx'', dl_skipped = None\<rparr>),
      cr_store = (\<lambda>k. True), cr_sha256 = id, cr_tokens = (\<lambda>s. [s]), cr_ratio = (\<lambda>x y. 0)\<rparr>"

definition sample_turned_in :: submission_ref where
  "sample_turned_in =
     \<lparr>cs_id = ''s'', cs_user_id = ''u'', cs_state = ''TURNED_IN'', cs_late = False,
      cs_files = [\<lparr>df_id = ''f'', df_title = ''a''\<rparr>]\<rparr>"

definition sample_course :: db where
  "sample_course = empty_db\<lparr>db_next := 10,
     db_subjects := [\<lparr>subj_id = 5, subj_name = ''S'', subj_code = None, subj_owner_id = None,
       subj_squad_max_size = None, subj_status = Subject_ACTIVE,
       subj_description = None, subj_grid_picture_url = None, subj_main_picture_url = None, subj_classroom_course_id = Some ''c'',
       subj_classroom_course_name = None, subj_classroom_connection_id = None, subj_classroom_synced_at = None,
       subj_classroom_sync_error = None\<rparr>],
     db_links := [\<lparr>lk_id = 1, lk_subject_id = 5, lk_student_id = Some 3, lk_method = Link_NAME, lk_confirmed = True,
       lk_classroom_user_id = ''u'', lk_classroom_email = None, lk_classroom_name = ''U'', lk_score = None,
       lk_candidates = JList []\<rparr>],
     db_works := [\<lparr>wk_id = 2, wk_subjects_assignment_id = 6, wk_link_id = 1, wk_seen_at = 0,
       wk_classroom_submission_id = ''s'', wk_state = ''TURNED_IN'', wk_late = False, wk_content_hash = ''old'',
       wk_manifest = [[(''drive_id'', JStr ''f''), (''modified'', JStr ''t0'')]], wk_created_at = 0\<rparr>],
     db_gradings := [new_grading 3 2 Grading_PENDING 0]\<rparr>"

lemma sample_course_keys: "keys_ok sample_course"
  by (simp add: keys_ok_def sample_course_def empty_db_def new_grading_def account_def)

lemma sample_course_ok: "classroom_ok (\<lambda>s. (5, ''u'')) sample_course"
  by (simp add: classroom_ok_def sample_course_keys)
    (simp add: waiting_ok_def owners_ok_def sample_course_def empty_db_def new_grading_def account_def)



lemma stored_work_is_bounded_witness:
  "\<exists>es. fetch_files sample_drive (storage_key 5 6 ''s'') 0 0
       [(\<lparr>df_id = ''f'', df_title = ''a''\<rparr>, \<lparr>dm_name = ''a.py'', dm_mime = ''text/plain'', dm_size = 2, dm_modified = ''t1''\<rparr>)] = Inr es \<and>
     length es = 1 \<and> sum_list (map stored_bytes es) \<le> MAX_WORK_BYTES"
proof -
  let ?run = "fetch_files sample_drive (storage_key 5 6 ''s'') 0 0
       [(\<lparr>df_id = ''f'', df_title = ''a''\<rparr>, \<lparr>dm_name = ''a.py'', dm_mime = ''text/plain'', dm_size = 2, dm_modified = ''t1''\<rparr>)]"
  have "\<not> isl ?run" by code_simp
  then obtain es where "?run = Inr es" by (cases ?run) auto
  from stored_work_is_bounded [OF this] this show ?thesis by auto
qed

end
