(* ===== verification/SyncRuns.thy ===== *)
theory SyncRuns
  imports Ingest
begin

text \<open>
  The manual syncs of a subject, \<open>services/google/sync_runs.py\<close>, and the nightly job,
  \<open>workers/scheduled/classroom_nightly.py\<close>: starting a run, its progress and its end, what the progress panel shows,
  and the night's ingest of every linked subject before the grading.

  Parameters: whether the advisory lock was free, the Classroom client (of the nightly job the client of a stored
  token, \<open>None\<close> when the token cannot be decrypted), the local
  weekday and midnight of the time zone. Progress is written by a session of its own; no row it writes is touched by
  the ingest, so writing it after the ingest leaves the same rows.
\<close>

section \<open>Manual runs\<close>

definition RUN_STALE_AFTER :: int where
  "RUN_STALE_AFTER = 5 * 60 * 1000000"

definition SHOW_FINISHED_FOR :: int where
  "SHOW_FINISHED_FOR = 10 * 60 * 1000000"

definition is_stale :: "classroom_sync_run \<Rightarrow> int \<Rightarrow> bool" where
  "is_stale r now = (syn_status r = Sync_RUNNING \<and> now - syn_heartbeat_at r > RUN_STALE_AFTER)"

definition is_running :: "int \<Rightarrow> classroom_sync_run \<Rightarrow> bool" where
  "is_running subject_id r = (syn_subject_id r = subject_id \<and> syn_status r = Sync_RUNNING)"

definition interrupted :: "int \<Rightarrow> classroom_sync_run \<Rightarrow> classroom_sync_run" where
  "interrupted now r = r\<lparr>syn_status := Sync_FAILED, syn_run_error := Some ''interrupted'', syn_finished_at := Some now\<rparr>"

definition new_run :: "int \<Rightarrow> int \<Rightarrow> int \<Rightarrow> int \<Rightarrow> classroom_sync_run" where
  "new_run i subject_id user_id now =
     \<lparr>syn_id = i, syn_subject_id = subject_id, syn_started_by = Some user_id, syn_status = Sync_RUNNING,
      syn_run_error = None, syn_assignments_total = 0, syn_assignments_done = 0, syn_submissions_total = 0,
      syn_submissions_done = 0, syn_new_versions = 0, syn_errors = 0, syn_heartbeat_at = now, syn_finished_at = None\<rparr>"

text \<open>\<open>None\<close> while a live run exists; then nothing is changed.\<close>

definition start_run :: "int \<Rightarrow> int \<Rightarrow> int \<Rightarrow> db \<Rightarrow> db \<times> classroom_sync_run option" where
  "start_run now subject_id user_id d =
     (if list_ex (\<lambda>r. is_running subject_id r \<and> \<not> is_stale r now) (db_sync_runs d) then (d, None)
      else
        let r = new_run (db_next d) subject_id user_id now in
        (d\<lparr>db_sync_runs := map (\<lambda>r. if is_running subject_id r then interrupted now r else r) (db_sync_runs d) @ [r],
           db_next := db_next d + 1\<rparr>, Some r))"

definition update_run :: "int \<Rightarrow> int \<Rightarrow> (classroom_sync_run \<Rightarrow> classroom_sync_run) \<Rightarrow> db \<Rightarrow> db" where
  "update_run now run_id f d =
     d\<lparr>db_sync_runs := upd_row syn_id run_id (\<lambda>r. (f r)\<lparr>syn_heartbeat_at := now\<rparr>) (db_sync_runs d)\<rparr>"

definition show_progress :: "sync_progress \<Rightarrow> classroom_sync_run \<Rightarrow> classroom_sync_run" where
  "show_progress p r =
     r\<lparr>syn_assignments_total := int (sp_assignments_total p), syn_assignments_done := int (sp_assignments_done p),
       syn_submissions_total := int (sp_submissions_total p), syn_submissions_done := int (sp_submissions_done p),
       syn_new_versions := int (sp_new_versions p), syn_errors := int (sp_errors p)\<rparr>"

definition run_error_of :: "ingest_error \<Rightarrow> string" where
  "run_error_of e =
     (case e of Auth_error dead \<Rightarrow> if dead then ''reconnect'' else ''google'' | Api_error \<Rightarrow> ''google'' | Internal_error \<Rightarrow> ''internal'')"

text \<open>The background half: what is left and the error of the run.\<close>

definition carry_out ::
  "bool \<Rightarrow> classroom \<Rightarrow> int \<Rightarrow> int \<Rightarrow> int \<Rightarrow> int \<Rightarrow> db \<Rightarrow> db \<times> string option"
where
  "carry_out locked api now run_id subject_id user_id d =
     (if \<not> locked then (d, Some ''busy'')
      else
        (case get_subject d subject_id of
           None \<Rightarrow> (d, Some ''not_linked'')
         | Some subject \<Rightarrow>
             let (st, err) = ingest_subject api now subject d;
                 d1 = fold (\<lambda>p. update_run now run_id (show_progress p)) (ig_progress st) (ig_db st)
             in
               (case err of
                  None \<Rightarrow> (audit ''classroom_synced'' (Some user_id) (Some subject_id) d1, None)
                | Some e \<Rightarrow> (d1, Some (run_error_of e)))))"

definition finish_run :: "int \<Rightarrow> string option \<Rightarrow> classroom_sync_run \<Rightarrow> classroom_sync_run" where
  "finish_run now err r =
     r\<lparr>syn_status := (if err = None then Sync_DONE else Sync_FAILED), syn_run_error := err, syn_finished_at := Some now\<rparr>"

definition run_sync ::
  "bool \<Rightarrow> classroom \<Rightarrow> int \<Rightarrow> int \<Rightarrow> int \<Rightarrow> int \<Rightarrow> db \<Rightarrow> db"
where
  "run_sync locked api now run_id subject_id user_id d =
     (let (d1, err) = carry_out locked api now run_id subject_id user_id d
      in update_run now run_id (finish_run now err) d1)"

section \<open>The progress panel\<close>

definition status_text :: "classroom_sync_status \<Rightarrow> string" where
  "status_text s = (case s of Sync_RUNNING \<Rightarrow> ''running'' | Sync_DONE \<Rightarrow> ''done'' | Sync_FAILED \<Rightarrow> ''failed'')"

definition shown_status :: "classroom_sync_run \<Rightarrow> int \<Rightarrow> string" where
  "shown_status r now = (if is_stale r now then ''interrupted'' else status_text (syn_status r))"

definition run_percent :: "classroom_sync_run \<Rightarrow> int \<Rightarrow> int" where
  "run_percent r now =
     (let part = (if syn_submissions_total r \<noteq> 0 then of_int (syn_submissions_done r) / of_int (syn_submissions_total r) else 0);
          percent = (if syn_assignments_total r \<noteq> 0
                     then py_round (100 * (of_int (syn_assignments_done r) + part) / of_int (syn_assignments_total r)) else 0)
      in min (if shown_status r now = ''done'' then 100 else percent) 100)"

definition payload :: "classroom_sync_run \<Rightarrow> string \<Rightarrow> int \<Rightarrow> pydict" where
  "payload r subject_name now =
     [(''id'', JInt (syn_id r)), (''subject_id'', JInt (syn_subject_id r)), (''subject_name'', JStr subject_name),
      (''url'', JStr (''/teacher/subjects/'' @ str_of_int (syn_subject_id r) @ ''?tab=ops'')),
      (''status'', JStr (shown_status r now)),
      (''error'', if is_stale r now then JNull else opt_text (syn_run_error r)),
      (''percent'', JInt (run_percent r now)),
      (''assignments_total'', JInt (syn_assignments_total r)), (''assignments_done'', JInt (syn_assignments_done r)),
      (''submissions_total'', JInt (syn_submissions_total r)), (''submissions_done'', JInt (syn_submissions_done r)),
      (''new_versions'', JInt (syn_new_versions r)), (''errors'', JInt (syn_errors r))]"

definition recent_run :: "int list \<Rightarrow> int \<Rightarrow> classroom_sync_run \<Rightarrow> bool" where
  "recent_run subject_ids now r =
     (syn_subject_id r \<in> set subject_ids \<and>
      (syn_status r = Sync_RUNNING \<or>
       (case syn_finished_at r of None \<Rightarrow> False | Some t \<Rightarrow> t > now - SHOW_FINISHED_FOR)))"

definition panel_run :: "db \<Rightarrow> classroom_sync_run \<Rightarrow> (classroom_sync_run \<times> string) option" where
  "panel_run d r = map_option (\<lambda>s. (r, subj_name s)) (get_subject d (syn_subject_id r))"

definition visible_runs :: "db \<Rightarrow> int list \<Rightarrow> int \<Rightarrow> pydict list" where
  "visible_runs d subject_ids now =
     (if subject_ids = [] then []
      else
        map (\<lambda>(r, name). payload r name now)
          (filter (\<lambda>(r, name). shown_status r now \<noteq> ''interrupted'' \<or>
              now - syn_heartbeat_at r < RUN_STALE_AFTER + SHOW_FINISHED_FOR)
            (take 5 (List.map_filter (panel_run d)
              (rev (sort_key syn_id (filter (recent_run subject_ids now) (db_sync_runs d))))))))"

section \<open>The night\<close>

definition UNCAPPED :: int where
  "UNCAPPED = 1000000"

record night_settings =
  ns_start_hour :: int
  ns_end_hour :: int
  ns_uncapped_end_hour :: int
  ns_uncapped_weekdays :: "int list"
  ns_nightly_cap :: int

text \<open>The deadline and the cap of a run that starts at \<open>start\<close>.\<close>

definition night_limits :: "night_settings \<Rightarrow> (int \<Rightarrow> int) \<Rightarrow> int \<Rightarrow> int \<times> int" where
  "night_limits cfg weekday start =
     (if weekday start \<in> set (ns_uncapped_weekdays cfg)
      then (start + (ns_uncapped_end_hour cfg - ns_start_hour cfg) * 3600000000, UNCAPPED)
      else (start + (ns_end_hour cfg - ns_start_hour cfg) * 3600000000, ns_nightly_cap cfg))"

definition connected_subject :: "db \<Rightarrow> subject \<Rightarrow> (int \<times> string) option" where
  "connected_subject d s =
     (if subj_status s = Subject_ACTIVE \<and> subj_classroom_course_id s \<noteq> None then
        (case Option.bind (subj_classroom_connection_id s) (\<lambda>c. get_row gc_id c (db_connections d)) of
           None \<Rightarrow> None
         | Some c \<Rightarrow> if gc_status c = Connection_ACTIVE then Some (subj_id s, gc_refresh_token_enc c) else None)
      else None)"

text \<open>One subject of the night; whatever happens, the next one follows.\<close>

definition ingest_one :: "(string \<Rightarrow> classroom option) \<Rightarrow> int \<Rightarrow> int \<times> string \<Rightarrow> db \<Rightarrow> db" where
  "ingest_one client now row d =
     (case get_subject d (fst row) of
        None \<Rightarrow> d
      | Some s \<Rightarrow>
          (case client (snd row) of
             None \<Rightarrow> d
           | Some api \<Rightarrow> ig_db (fst (ingest_subject api now s d))))"

definition ingest_all :: "(string \<Rightarrow> classroom option) \<Rightarrow> int \<Rightarrow> db \<Rightarrow> db" where
  "ingest_all client now d =
     fold (ingest_one client now) (List.map_filter (connected_subject d) (sort_key subj_id (db_subjects d))) d"

definition run_nightly ::
  "bool \<Rightarrow> bool \<Rightarrow> night_settings \<Rightarrow> (int \<Rightarrow> int) \<Rightarrow> (int \<Rightarrow> int) \<Rightarrow> (string \<Rightarrow> classroom option) \<Rightarrow> runner_world \<Rightarrow>
   (nat \<Rightarrow> db \<Rightarrow> db) \<Rightarrow> (nat \<Rightarrow> int) \<Rightarrow> int \<Rightarrow> db \<Rightarrow> db"
where
  "run_nightly locked has_storage cfg weekday midnight client w others clock start d =
     (if \<not> locked then d
      else
        let (deadline, cap) = night_limits cfg weekday start;
            d1 = fst (reap_stale start d)
        in
          if \<not> has_storage then d1
          else
            let d2 = ingest_all client start d1 in
            (case grading_loop w others clock deadline cap (midnight start) d2 of
               Inl e \<Rightarrow> d2
             | Inr (d3, outs) \<Rightarrow> d3))"

section \<open>A manual sync ends\<close>

definition get_run :: "db \<Rightarrow> int \<Rightarrow> classroom_sync_run option" where
  "get_run d i = get_row syn_id i (db_sync_runs d)"

interpretation runs: row_store "get_row syn_id" "upd_row syn_id" syn_id
  by (rule row_store_rows)

lemma get_update_run:
  assumes "\<And>r. syn_id (f r) = syn_id r"
  shows "get_run (update_run now i f d) j =
    (if i = j then map_option (\<lambda>r. (f r)\<lparr>syn_heartbeat_at := now\<rparr>) (get_run d j) else get_run d j)"
  using assms by (simp add: get_run_def update_run_def runs.get_put)

lemma update_run_subjects [simp]: "get_subject (update_run now i f d) = get_subject d"
  by (simp add: fun_eq_iff update_run_def get_subject_def)

lemma show_progress_id [simp]: "syn_id (show_progress p r) = syn_id r" "syn_subject_id (show_progress p r) = syn_subject_id r"
  by (simp_all add: show_progress_def)

lemma runs_after_progress:
  "\<exists>r. get_run d i = Some r \<Longrightarrow> \<exists>r. get_run (fold (\<lambda>p. update_run now i (show_progress p)) ps d) i = Some r"
  by (induction ps arbitrary: d) (auto simp: get_update_run)

text \<open>The ingest writes no run.\<close>

lemma set_status_runs [simp]: "db_sync_runs (set_status from ids to d) = db_sync_runs d"
  by (simp add: set_status_def)

lemma upsert_link_runs: "db_sync_runs (fst (upsert_link m i e d)) = db_sync_runs d"
  by (simp add: upsert_link_def Let_def upd_link_def release_waiting_def split: option.split)

lemma upsert_links_runs: "db_sync_runs (fst (upsert_links api i es d)) = db_sync_runs d"
proof -
  have "db_sync_runs (fst (upsert_entries m i es d)) = db_sync_runs d" for m es d
    by (induction es arbitrary: d) (simp_all add: case_prod_beta upsert_link_runs)
  then show ?thesis by (simp add: upsert_links_def)
qed

lemma store_version_runs:
  assumes "store_version api now i a sub link files d rep = Inr (d', rep')"
  shows "db_sync_runs d' = db_sync_runs d"
  using assms
  by (cases rule: store_version_cases)
    (simp_all add: keep_version_def add_version_def supersede_others_def upd_work_def Let_def)

lemma ingest_submission_runs:
  assumes "ingest_submission api now i a sub (d, rep) = Inr (d', rep')"
  shows "db_sync_runs d' = db_sync_runs d"
  using assms by (cases rule: ingest_cases) (simp_all add: upd_work_def store_version_runs)

lemma reconnect_runs: "db_sync_runs (mark_reconnect i c d) = db_sync_runs d"
  by (simp add: mark_reconnect_def Let_def split: option.split)

lemma ingest_submissions_runs:
  "db_sync_runs (ig_db (fst (ingest_submissions ctx a index n k subs st))) = db_sync_runs (ig_db st)"
  by (induction subs arbitrary: k st)
    (auto simp: give_up_def reconnect_runs report_progress_def ingest_submission_runs split: sum.split)

lemma ingest_assignments_runs:
  "db_sync_runs (ig_db (fst (ingest_assignments ctx index as st))) = db_sync_runs (ig_db st)"
proof (induction as arbitrary: index st)
  case (Cons x as)
  obtain a k where x: "x = (a, k)" by fastforce
  show ?case
  proof (cases "cr_submissions (ic_api ctx) (ic_course_id ctx) k")
    case (Inl e)
    then show ?thesis using Cons by (simp add: x give_up_def reconnect_runs report_progress_def)
  next
    case (Inr subs)
    let ?kept = "filter is_kept subs"
    let ?st = "report_progress (ic_total ctx) index (length ?kept) 0 st"
    obtain st1 e where step: "ingest_submissions ctx a index (length ?kept) 0 ?kept ?st = (st1, e)" by fastforce
    have "db_sync_runs (ig_db st1) = db_sync_runs (ig_db st)"
      using ingest_submissions_runs [of ctx a index "length ?kept" 0 ?kept ?st] step by (simp add: report_progress_def)
    then show ?thesis using Cons.IH Inr step by (simp add: x Let_def report_progress_def split: option.split)
  qed
qed simp

lemma ingest_subject_runs: "db_sync_runs (ig_db (fst (ingest_subject api now s d))) = db_sync_runs d"
proof -
  have "db_sync_runs (ig_db (fst (ingest_course ctx as st))) = db_sync_runs (ig_db st)" for ctx as st
    using ingest_assignments_runs [of ctx 0 as "report_progress (ic_total ctx) 0 0 0 st"]
    by (auto simp: ingest_course_def set_sync_result_def report_progress_def split: prod.split option.split)
  then show ?thesis
    using upsert_links_runs
    by (auto simp: ingest_subject_def Let_def case_prod_beta set_sync_result_def reconnect_runs split: option.split sum.split)
qed

lemma carry_out_keeps_run:
  assumes "get_run d i = Some r"
  shows "\<exists>r'. get_run (fst (carry_out locked api now i s u d)) i = Some r'"
proof (cases "locked \<and> get_subject d s \<noteq> None")
  case False
  then show ?thesis using assms by (auto simp: carry_out_def)
next
  case True
  then obtain subject where s: "get_subject d s = Some subject" "locked" by auto
  obtain st e where run: "ingest_subject api now subject d = (st, e)" by fastforce
  have "get_run (ig_db st) i = Some r"
    using ingest_subject_runs [of api now subject d] run assms by (simp add: get_run_def)
  then have "\<exists>r. get_run (fold (\<lambda>p. update_run now i (show_progress p)) (ig_progress st) (ig_db st)) i = Some r"
    by (intro runs_after_progress) blast
  then show ?thesis using s run by (auto simp: carry_out_def get_run_def audit_def Let_def split: option.split)
qed

text \<open>C38. A manual sync always ends: whatever Classroom, the object store or the configuration do, the run is closed
  with a time; it is done exactly when there is no error to show, and it is shown as done with 100 percent.\<close>

theorem manual_sync_ends:
  assumes "get_run d i = Some r"
  shows "\<exists>r'. get_run (run_sync locked api now i subject_id user_id d) i = Some r' \<and> syn_finished_at r' = Some now \<and>
    syn_status r' \<noteq> Sync_RUNNING \<and> (syn_status r' = Sync_DONE \<longleftrightarrow> syn_run_error r' = None) \<and>
    (syn_status r' = Sync_DONE \<longleftrightarrow> snd (carry_out locked api now i subject_id user_id d) = None) \<and>
    (syn_status r' = Sync_DONE \<longrightarrow> run_percent r' later = 100)"
proof -
  obtain d1 err where out: "carry_out locked api now i subject_id user_id d = (d1, err)" by fastforce
  obtain r1 where "get_run d1 i = Some r1"
    using carry_out_keeps_run [OF assms, of locked api now subject_id user_id] out by auto
  then have "get_run (run_sync locked api now i subject_id user_id d) i = Some ((finish_run now err r1)\<lparr>syn_heartbeat_at := now\<rparr>)"
    by (simp add: run_sync_def out get_update_run finish_run_def)
  then show ?thesis by (simp add: out finish_run_def run_percent_def shown_status_def is_stale_def status_text_def Let_def)
qed

section \<open>One live run\<close>

text \<open>A new run is started only when no other run of the subject is alive, and then it is the only one left running:
  runs that were killed are closed as interrupted.\<close>

theorem started_run_is_the_only_one:
  assumes "start_run now subject_id user_id d = (d', Some r)"
  shows "filter (is_running subject_id) (db_sync_runs d') = [r] \<and>
    list_all (\<lambda>x. is_running subject_id x \<longrightarrow> is_stale x now) (db_sync_runs d) \<and>
    filter (\<lambda>x. syn_subject_id x \<noteq> subject_id) (db_sync_runs d') = filter (\<lambda>x. syn_subject_id x \<noteq> subject_id) (db_sync_runs d)"
proof -
  have none: "\<not> list_ex (\<lambda>r. is_running subject_id r \<and> \<not> is_stale r now) (db_sync_runs d)"
    and r: "r = new_run (db_next d) subject_id user_id now"
    and d': "db_sync_runs d' = map (\<lambda>r. if is_running subject_id r then interrupted now r else r) (db_sync_runs d) @ [r]"
    using assms by (auto simp: start_run_def Let_def split: if_splits)
  have "is_running subject_id r" "syn_subject_id r = subject_id" by (simp_all add: r new_run_def is_running_def)
  moreover have "filter (is_running subject_id) (map (\<lambda>r. if is_running subject_id r then interrupted now r else r) rs) = []" for rs
    by (induction rs) (auto simp: is_running_def interrupted_def)
  moreover have "filter (\<lambda>x. syn_subject_id x \<noteq> subject_id) (map (\<lambda>r. if is_running subject_id r then interrupted now r else r) rs) =
      filter (\<lambda>x. syn_subject_id x \<noteq> subject_id) rs" for rs
    by (induction rs) (auto simp: is_running_def interrupted_def)
  ultimately show ?thesis using none by (auto simp: d' list_ex_iff list_all_iff)
qed

definition sample_sync :: db where
  "sample_sync = sample_course\<lparr>db_sync_runs := [new_run 9 5 1 0]\<rparr>"

lemma manual_sync_ends_witness:
  "\<exists>r'. get_run (run_sync True sample_drive 9 9 5 1 sample_sync) 9 = Some r' \<and> syn_status r' \<noteq> Sync_RUNNING"
  using manual_sync_ends [of sample_sync 9 "new_run 9 5 1 0" True sample_drive 9 5 1 0]
  by (auto simp: sample_sync_def get_run_def new_run_def)

lemma started_run_is_the_only_one_witness:
  "\<exists>d' r. start_run 900000000 5 1 sample_sync = (d', Some r) \<and> filter (is_running 5) (db_sync_runs d') = [r]"
proof -
  have "snd (start_run 900000000 5 1 sample_sync) \<noteq> None" by code_simp
  then obtain d' r where run: "start_run 900000000 5 1 sample_sync = (d', Some r)" by (metis not_Some_eq prod.collapse)
  from started_run_is_the_only_one [OF run] run show ?thesis by blast
qed

end
