(* ===== verification/ClassroomRoutes.thy ===== *)
theory ClassroomRoutes
  imports SyncRuns TeacherReview Gradebook
begin

text \<open>
  The teacher's side of Google Classroom: guessing the coursework of an assignment
  (\<open>services/google/coursework_match.py\<close>) and the routes of \<open>api/routes/teacher_classroom.py\<close>: the Google account, the
  course and the coursework of a subject, starting a sync, resolving the links of accounts to students, retrying a
  grading, and the report and the files of a work.

  Google's account API, the encryption of tokens, the text of the error of a dead token and the object store are
  parameters (\<open>google\<close>); the cookie of the
  sign-in has been read (\<open>oauth_state\<close>), and \<open>SequenceMatcher.ratio\<close> of two titles is the parameter \<open>sim\<close>. A page is what
  it shows. The background task a sync starts is \<open>run_sync\<close>.
\<close>

section \<open>Guessing the coursework\<close>

definition MIN_SIMILARITY :: rat where
  "MIN_SIMILARITY = 6 / 10"

text \<open>The first number in a title.\<close>

definition title_number :: "string \<Rightarrow> int option" where
  "title_number title =
     (let digits = takeWhile is_dec_digit (dropWhile (\<lambda>c. \<not> is_dec_digit c) title)
      in if digits = '''' then None else digits_value False 0 digits)"

definition drop_coursework :: "string \<Rightarrow> (string \<times> string) list \<Rightarrow> (string \<times> string) list" where
  "drop_coursework k free = filter (\<lambda>(i, t). i \<noteq> k) free"

text \<open>The first pass: the same number, and the most similar title among those; \<open>max\<close> returns the first of the largest.\<close>

definition suggest_by_number ::
  "(string \<Rightarrow> string \<Rightarrow> rat) \<Rightarrow> int \<times> string \<Rightarrow> (string \<times> string) list \<times> (int \<times> string) list \<Rightarrow>
   (string \<times> string) list \<times> (int \<times> string) list"
where
  "suggest_by_number sim a = (\<lambda>(free, out).
     (case title_number (snd a) of
        None \<Rightarrow> (free, out)
      | Some n \<Rightarrow>
          (case sort_key_desc (\<lambda>(i, t). sim (snd a) t) (filter (\<lambda>(i, t). title_number t = Some n) free) of
             [] \<Rightarrow> (free, out)
           | (best, _) # _ \<Rightarrow> (drop_coursework best free, out @ [(fst a, best)]))))"

text \<open>The second pass: a title that is similar enough and stands out.\<close>

definition suggest_by_title ::
  "(string \<Rightarrow> string \<Rightarrow> rat) \<Rightarrow> int \<times> string \<Rightarrow> (string \<times> string) list \<times> (int \<times> string) list \<Rightarrow>
   (string \<times> string) list \<times> (int \<times> string) list"
where
  "suggest_by_title sim a = (\<lambda>(free, out).
     (if fst a \<in> fst ` set out then (free, out)
      else
        (case sort_key_desc (\<lambda>(i, t). sim (snd a) t) (rev (sort_key fst free)) of
           [] \<Rightarrow> (free, out)
         | (best, t) # rest \<Rightarrow>
             let top = sim (snd a) t; runner_up = (case rest of [] \<Rightarrow> 0 | (_, t') # _ \<Rightarrow> sim (snd a) t') in
             if top \<ge> MIN_SIMILARITY \<and> top - runner_up \<ge> MARGIN
             then (drop_coursework best free, out @ [(fst a, best)]) else (free, out))))"

definition suggest ::
  "(string \<Rightarrow> string \<Rightarrow> rat) \<Rightarrow> (int \<times> string) list \<Rightarrow> (string \<times> string) list \<Rightarrow> string list \<Rightarrow> (int \<times> string) list"
where
  "suggest sim assignments courseworks taken =
     (let free = filter (\<lambda>(i, t). i \<notin> set taken) (fold (\<lambda>(i, t). dict_set i t) courseworks []);
          numbered = fold (suggest_by_number sim) assignments (free, [])
      in snd (fold (suggest_by_title sim) assignments numbered))"

section \<open>Redirects and the Google account\<close>

definition join_params :: "(string \<times> string) list \<Rightarrow> string" where
  "join_params params =
     concat (map (\<lambda>(i, (k, v)). (if i = 0 then ''?'' else ''&'') @ k @ ''='' @ v) (enumerate 0 params))"

definition back_to :: "int \<Rightarrow> (string \<times> string) list \<Rightarrow> reply" where
  "back_to subject_id params = Redirect (''/teacher/subjects/'' @ str_of_int subject_id @ join_params params)"

record google =
  go_enabled :: bool
  go_storage :: bool
  go_encrypt :: "string \<Rightarrow> string"
  go_decrypt :: "string \<Rightarrow> string option"
  go_exchange :: "string \<Rightarrow> string \<Rightarrow> ingest_error + string \<times> string"
  go_courses :: "string \<Rightarrow> ingest_error + (string \<times> string) list"
  go_coursework :: "string \<Rightarrow> string \<Rightarrow> ingest_error + (string \<times> string) list"
  go_blob :: "string \<Rightarrow> string option"
  go_dead_token :: string

definition connection_for :: "db \<Rightarrow> int \<Rightarrow> google_connection option" where
  "connection_for d user_id = find (\<lambda>c. gc_user_id c = user_id) (db_connections d)"

text \<open>A failure of Google is shown; anything else is a server error.\<close>

definition google_failed :: "int \<Rightarrow> ingest_error \<Rightarrow> reply" where
  "google_failed subject_id e =
     (if e = Internal_error then HttpError 500 ''Internal Server Error'' else back_to subject_id [(''classroom_error'', ''google'')])"

definition linking_client :: "google \<Rightarrow> db \<Rightarrow> user \<Rightarrow> reply + google_connection \<times> string" where
  "linking_client gg d u =
     (case connection_for d (usr_id u) of
        None \<Rightarrow> Inl (HttpError 409 ''Google account is not connected'')
      | Some c \<Rightarrow>
          if gc_status c \<noteq> Connection_ACTIVE then Inl (HttpError 409 ''Google account is not connected'')
          else
            (case go_decrypt gg (gc_refresh_token_enc c) of
               None \<Rightarrow> Inl (HttpError 409 ''Google connection is unusable'')
             | Some token \<Rightarrow> Inr (c, token)))"

record oauth_state =
  os_state :: string
  os_verifier :: string
  os_subject_id :: int
  os_uid :: int

definition state_failure :: "oauth_state option \<Rightarrow> reply" where
  "state_failure data =
     (case data of
        Some x \<Rightarrow> back_to (os_subject_id x) [(''classroom_error'', ''state'')]
      | None \<Rightarrow> Redirect ''/teacher?classroom_error=state'')"

text \<open>The account of a teacher is replaced, or added when there is none.\<close>

definition store_connection :: "google \<Rightarrow> int \<Rightarrow> string \<Rightarrow> string \<Rightarrow> db \<Rightarrow> db" where
  "store_connection gg user_id email refresh_token d =
     (let token = go_encrypt gg refresh_token in
      case connection_for d user_id of
        None \<Rightarrow>
          d\<lparr>db_connections := db_connections d @
              [\<lparr>gc_id = db_next d, gc_user_id = user_id, gc_google_email = email, gc_refresh_token_enc = token,
                gc_status = Connection_ACTIVE, gc_last_error = None\<rparr>],
            db_next := db_next d + 1\<rparr>
      | Some c \<Rightarrow>
          d\<lparr>db_connections := upd_row gc_id (gc_id c)
              (\<lambda>c. c\<lparr>gc_google_email := email, gc_refresh_token_enc := token, gc_status := Connection_ACTIVE, gc_last_error := None\<rparr>)
              (db_connections d)\<rparr>)"

definition google_complete ::
  "google \<Rightarrow> oauth_state option \<Rightarrow> user \<Rightarrow> string option \<Rightarrow> string option \<Rightarrow> string option \<Rightarrow> db \<Rightarrow> db \<times> reply"
where
  "google_complete gg data u code state err d =
     (case data of
        None \<Rightarrow> (d, state_failure data)
      | Some x \<Rightarrow>
          if state = None \<or> state = Some '''' \<or> state \<noteq> Some (os_state x) \<or> os_uid x \<noteq> usr_id u
          then (d, state_failure data)
          else
            (case require_subject_access d (os_subject_id x) u of
               Inl r \<Rightarrow> (d, r)
             | Inr subject \<Rightarrow>
                 if err \<noteq> None \<and> err \<noteq> Some '''' \<or> code = None \<or> code = Some ''''
                 then (d, back_to (os_subject_id x) [(''classroom_error'', ''denied'')])
                 else
                   (case go_exchange gg (the code) (os_verifier x) of
                      Inl e \<Rightarrow> (d, back_to (os_subject_id x) [(''classroom_error'', ''exchange'')])
                    | Inr (email, refresh_token) \<Rightarrow>
                        (audit ''google_connected'' (Some (usr_id u)) (Some (usr_id u))
                           (store_connection gg (usr_id u) email refresh_token d),
                         back_to (os_subject_id x) [(''classroom'', ''connected'')]))))"

text \<open>The subjects of a deleted account keep their course and lose the connection.\<close>

definition google_disconnect :: "user \<Rightarrow> int \<Rightarrow> db \<Rightarrow> db \<times> reply" where
  "google_disconnect u subject_id d =
     (case require_subject_access d subject_id u of
        Inl r \<Rightarrow> (d, r)
      | Inr subject \<Rightarrow>
          ((case connection_for d (usr_id u) of
              None \<Rightarrow> d
            | Some c \<Rightarrow>
                audit ''google_disconnected'' (Some (usr_id u)) (Some (usr_id u))
                  (d\<lparr>db_connections := filter (\<lambda>x. gc_id x \<noteq> gc_id c) (db_connections d),
                     db_subjects := map (\<lambda>s. if subj_classroom_connection_id s = Some (gc_id c)
                       then s\<lparr>subj_classroom_connection_id := None\<rparr> else s) (db_subjects d)\<rparr>)),
           back_to subject_id [(''classroom'', ''disconnected'')]))"

section \<open>The course and its coursework\<close>

definition link_course :: "google \<Rightarrow> user \<Rightarrow> int \<Rightarrow> string \<Rightarrow> db \<Rightarrow> db \<times> reply" where
  "link_course gg u subject_id course_id d =
     (case bind_result (require_subject_access d subject_id u) (\<lambda>s. linking_client gg d u) of
        Inl r \<Rightarrow> (d, r)
      | Inr (conn, token) \<Rightarrow>
          (case go_courses gg token of
             Inl e \<Rightarrow> (d, google_failed subject_id e)
           | Inr courses \<Rightarrow>
               (case find (\<lambda>(i, name). i = course_id) courses of
                  None \<Rightarrow> (d, HttpError 422 ''Unknown Classroom course'')
                | Some (i, name) \<Rightarrow>
                    (audit ''classroom_course_linked'' (Some (usr_id u)) (Some subject_id)
                       (d\<lparr>db_subjects := upd_row subj_id subject_id
                           (\<lambda>s. s\<lparr>subj_classroom_course_id := Some i, subj_classroom_course_name := Some (take 255 name),
                             subj_classroom_connection_id := Some (gc_id conn), subj_classroom_synced_at := None,
                             subj_classroom_sync_error := None\<rparr>) (db_subjects d)\<rparr>),
                     back_to subject_id [(''classroom'', ''course_linked'')]))))"

definition form_field :: "subjects_assignment \<Rightarrow> string" where
  "form_field a = ''coursework_'' @ str_of_int (asg_id a)"

definition of_subject :: "db \<Rightarrow> int \<Rightarrow> subjects_assignment list" where
  "of_subject d subject_id = filter (\<lambda>a. asg_subject_id a = subject_id) (db_assignments d)"

text \<open>What the form asks for, of the assignments the model grades.\<close>

definition wanted_coursework :: "(string \<Rightarrow> string option) \<Rightarrow> subjects_assignment list \<Rightarrow> py_exn + (int \<times> string) list" where
  "wanted_coursework form as =
     bind_result (filter_result (\<lambda>a. is_llm_graded (asg_config a)) (filter (\<lambda>a. form (form_field a) \<noteq> None) as)) (\<lambda>graded.
       Inr (map (\<lambda>a. (asg_id a, py_strip (the (form (form_field a))))) graded))"

definition coursework_or_empty :: "subjects_assignment \<Rightarrow> string" where
  "coursework_or_empty a = (case asg_coursework_id a of Some c \<Rightarrow> c | None \<Rightarrow> '''')"

definition final_coursework :: "(int \<times> string) list \<Rightarrow> subjects_assignment \<Rightarrow> string" where
  "final_coursework wanted a = (case map_of wanted (asg_id a) of Some c \<Rightarrow> c | None \<Rightarrow> coursework_or_empty a)"

definition known_titles ::
  "google \<Rightarrow> db \<Rightarrow> user \<Rightarrow> subject \<Rightarrow> (int \<times> string) list \<Rightarrow> reply + (string \<times> string) list"
where
  "known_titles gg d u subject wanted =
     (if list_all (\<lambda>(a, c). c = '''') wanted then Inr []
      else if subj_classroom_course_id subject = None \<or> subj_classroom_course_id subject = Some ''''
      then Inl (HttpError 422 ''Link a Classroom course first'')
      else
        bind_result (linking_client gg d u) (\<lambda>(conn, token).
          (case go_coursework gg token (the (subj_classroom_course_id subject)) of
             Inl e \<Rightarrow> Inl (google_failed (subj_id subject) e)
           | Inr titles \<Rightarrow>
               if list_ex (\<lambda>(a, c). c \<noteq> '''' \<and> c \<notin> fst ` set titles) wanted
               then Inl (HttpError 422 ''Unknown Classroom coursework'')
               else Inr (rev titles))))"

definition set_coursework :: "(string \<times> string) list \<Rightarrow> string \<Rightarrow> subjects_assignment \<Rightarrow> subjects_assignment" where
  "set_coursework titles c a =
     a\<lparr>asg_coursework_id := (if c = '''' then None else Some c),
       asg_coursework_title := (if c = '''' then None else map_option (take 255) (map_of titles c))\<rparr>"

definition apply_coursework ::
  "(int \<times> string) list \<Rightarrow> (string \<times> string) list \<Rightarrow> int \<Rightarrow> subjects_assignment \<Rightarrow> db \<Rightarrow> db"
where
  "apply_coursework wanted titles user_id a d =
     (case map_of wanted (asg_id a) of
        None \<Rightarrow> d
      | Some c \<Rightarrow>
          if c = coursework_or_empty a then d
          else
            audit ''classroom_coursework_linked'' (Some user_id) (Some (asg_id a))
              (d\<lparr>db_assignments := upd_row asg_id (asg_id a) (set_coursework titles c) (db_assignments d)\<rparr>))"

definition link_coursework_batch :: "google \<Rightarrow> user \<Rightarrow> int \<Rightarrow> (string \<Rightarrow> string option) \<Rightarrow> db \<Rightarrow> db \<times> reply" where
  "link_coursework_batch gg u subject_id form d =
     (case require_subject_access d subject_id u of
        Inl r \<Rightarrow> (d, r)
      | Inr subject \<Rightarrow>
          let as = of_subject d subject_id in
          (case wanted_coursework form as of
             Inl e \<Rightarrow> (d, ServerError e)
           | Inr wanted \<Rightarrow>
               if \<not> distinct (filter (\<lambda>c. c \<noteq> '''') (map (final_coursework wanted) as))
               then (d, back_to subject_id [(''classroom_error'', ''coursework_taken'')])
               else
                 (case known_titles gg d u subject wanted of
                    Inl r \<Rightarrow> (d, r)
                  | Inr titles \<Rightarrow>
                      (fold (apply_coursework wanted titles (usr_id u)) as d,
                       back_to subject_id [(''classroom'', ''coursework_linked'')]))))"

section \<open>Starting a sync\<close>

text \<open>The run that was started, for the background task.\<close>

definition sync_now :: "google \<Rightarrow> int \<Rightarrow> user \<Rightarrow> int \<Rightarrow> db \<Rightarrow> db \<times> reply \<times> classroom_sync_run option" where
  "sync_now gg now u subject_id d =
     (case require_subject_access d subject_id u of
        Inl r \<Rightarrow> (d, r, None)
      | Inr subject \<Rightarrow>
          let conn = (case subj_classroom_connection_id subject of
                        None \<Rightarrow> None | Some c \<Rightarrow> if c = 0 then None else get_row gc_id c (db_connections d)) in
          if \<not> go_enabled gg then (d, back_to subject_id [(''classroom_error'', ''not_configured'')], None)
          else if subj_classroom_course_id subject = None \<or> subj_classroom_course_id subject = Some '''' \<or>
                  map_option gc_status conn \<noteq> Some Connection_ACTIVE
          then (d, back_to subject_id [(''classroom_error'', ''not_linked'')], None)
          else if \<not> go_storage gg then (d, back_to subject_id [(''classroom_error'', ''storage'')], None)
          else
            (case start_run now subject_id (usr_id u) d of
               (d1, None) \<Rightarrow> (d1, back_to subject_id [(''classroom_error'', ''busy'')], None)
             | (d1, Some r) \<Rightarrow> (d1, back_to subject_id [(''classroom'', ''sync_started'')], Some r)))"

definition sync_active :: "int \<Rightarrow> user \<Rightarrow> db \<Rightarrow> reply" where
  "sync_active now u d =
     (let own = filter (\<lambda>s. usr_role u = ADMIN \<or> subj_owner_id s = Some (usr_id u)) (db_subjects d)
      in Json [(''runs'', JList (map JObj (visible_runs d (map subj_id own) now)))])"

section \<open>Accounts and students\<close>

definition BULK_CONFIRM :: rat where
  "BULK_CONFIRM = 95 / 100"

definition bulk_confirmable :: "db \<Rightarrow> int \<Rightarrow> classroom_student_link list" where
  "bulk_confirmable d subject_id =
     sort_key lk_id (filter (\<lambda>l. lk_subject_id l = subject_id \<and> lk_method l = Link_NAME \<and> \<not> lk_confirmed l \<and>
       (case lk_score l of None \<Rightarrow> False | Some s \<Rightarrow> s \<ge> BULK_CONFIRM)) (db_links d))"

definition is_candidate :: "json \<Rightarrow> bool" where
  "is_candidate c = (case c of JObj e \<Rightarrow> ''student_id'' \<in> fst ` set e | _ \<Rightarrow> False)"

definition shown_candidates :: "classroom_student_link \<Rightarrow> json list" where
  "shown_candidates l = take 3 (filter is_candidate (case lk_candidates l of JList cs \<Rightarrow> cs | _ \<Rightarrow> []))"

record unmatched_card =
  uc_unmatched :: "(int \<times> string \<times> string option \<times> json list) list"
  uc_name_matched_count :: nat
  uc_enrolled_students :: "(int \<times> string) list"

definition fill_unmatched :: "db \<Rightarrow> int \<Rightarrow> unmatched_card" where
  "fill_unmatched d subject_id =
     (let unmatched = rev (sort_key lk_id (filter (\<lambda>l. lk_subject_id l = subject_id \<and> lk_method l = Link_NONE) (db_links d)));
          pupils = List.map_filter (get_student d)
                     (map enr_student_id (filter (\<lambda>e. enr_subject_id e = subject_id) (db_enrolments d)))
      in \<lparr>uc_unmatched = map (\<lambda>l. (lk_id l, lk_classroom_name l, lk_classroom_email l, shown_candidates l)) unmatched,
          uc_name_matched_count = length (bulk_confirmable d subject_id),
          uc_enrolled_students =
            (if unmatched = [] then []
             else map (\<lambda>s. (stu_id s, stu_full_name s)) (sort_key stu_full_name pupils))\<rparr>)"

definition student_taken :: "db \<Rightarrow> int \<Rightarrow> int \<Rightarrow> int \<Rightarrow> bool" where
  "student_taken d subject_id student_id except_link_id =
     list_ex (\<lambda>l. lk_subject_id l = subject_id \<and> lk_student_id l = Some student_id \<and> lk_confirmed l \<and>
       lk_id l \<noteq> except_link_id) (db_links d)"

definition manual :: "classroom_student_link \<Rightarrow> classroom_student_link" where
  "manual l = l\<lparr>lk_method := Link_MANUAL, lk_confirmed := True\<rparr>"

definition confirm_one ::
  "classroom_student_link \<Rightarrow> int option set \<times> db \<times> nat \<Rightarrow> int option set \<times> db \<times> nat"
where
  "confirm_one l = (\<lambda>(taken, d, n).
     (if lk_student_id l \<in> taken then (taken, d, n)
      else (insert (lk_student_id l) taken, upd_link (lk_id l) manual d, n + 1)))"

definition confirmed_students :: "db \<Rightarrow> int \<Rightarrow> int option set" where
  "confirmed_students d subject_id =
     set (map lk_student_id (filter (\<lambda>l. lk_subject_id l = subject_id \<and> lk_confirmed l \<and> lk_student_id l \<noteq> None) (db_links d)))"

definition confirm_all_links :: "user \<Rightarrow> int \<Rightarrow> db \<Rightarrow> db \<times> reply" where
  "confirm_all_links u subject_id d =
     (case require_subject_access d subject_id u of
        Inl r \<Rightarrow> (d, r)
      | Inr subject \<Rightarrow>
          (case fold confirm_one (bulk_confirmable d subject_id) (confirmed_students d subject_id, d, 0) of
             (taken, d1, n) \<Rightarrow>
               (audit ''classroom_link_confirm_all'' (Some (usr_id u)) (Some subject_id) d1,
                back_to subject_id [(''classroom'', ''links_confirmed''), (''synced'', str_of_nat n)])))"

definition is_enrolled_in :: "db \<Rightarrow> int \<Rightarrow> int \<Rightarrow> bool" where
  "is_enrolled_in d subject_id student_id =
     list_ex (\<lambda>e. enr_subject_id e = subject_id \<and> enr_student_id e = student_id) (db_enrolments d)"

text \<open>What the action does to the link, or why not.\<close>

definition link_action :: "int \<Rightarrow> classroom_student_link \<Rightarrow> string \<Rightarrow> int option \<Rightarrow> db \<Rightarrow> reply + db" where
  "link_action subject_id l action student_id d =
     (if action = ''link'' then
        (case student_id of
           None \<Rightarrow> Inl (back_to subject_id [(''classroom_error'', ''pick_student'')])
         | Some sid \<Rightarrow>
             if \<not> is_enrolled_in d subject_id sid then Inl (HttpError 422 ''Student is not enrolled in this subject'')
             else if student_taken d subject_id sid (lk_id l) then Inl (HttpError 409 ''Student is already linked'')
             else Inr (release_waiting (lk_id l) (upd_link (lk_id l) (\<lambda>l. (manual l)\<lparr>lk_student_id := Some sid\<rparr>) d)))
      else if action = ''ignore'' then
        Inr (upd_link (lk_id l) (\<lambda>l. l\<lparr>lk_method := Link_IGNORED, lk_confirmed := True, lk_student_id := None\<rparr>) d)
      else if action = ''confirm'' then
        (case lk_student_id l of
           None \<Rightarrow> Inl (back_to subject_id [(''classroom_error'', ''not_name_match'')])
         | Some sid \<Rightarrow>
             if lk_method l \<noteq> Link_NAME then Inl (back_to subject_id [(''classroom_error'', ''not_name_match'')])
             else if student_taken d subject_id sid (lk_id l) then Inl (HttpError 409 ''Student is already linked'')
             else Inr (release_waiting (lk_id l) (upd_link (lk_id l) manual d)))
      else Inl (back_to subject_id [(''classroom_error'', ''bad_action'')]))"

definition starts_with :: "string \<Rightarrow> string \<Rightarrow> bool" where
  "starts_with s p = (take (length p) s = p)"

definition resolve_link ::
  "user \<Rightarrow> int \<Rightarrow> int \<Rightarrow> string \<Rightarrow> int option \<Rightarrow> string option \<Rightarrow> db \<Rightarrow> db \<times> reply"
where
  "resolve_link u subject_id link_id action student_id next_url d =
     (case require_subject_access d subject_id u of
        Inl r \<Rightarrow> (d, r)
      | Inr subject \<Rightarrow>
          (case find (\<lambda>l. lk_id l = link_id \<and> lk_subject_id l = subject_id) (db_links d) of
             None \<Rightarrow> (d, HttpError 404 ''Link not found'')
           | Some l \<Rightarrow>
               (case link_action subject_id l action student_id d of
                  Inl r \<Rightarrow> (d, r)
                | Inr d1 \<Rightarrow>
                    (audit (''classroom_link_'' @ action) (Some (usr_id u)) (Some link_id) d1,
                     case next_url of
                       Some url \<Rightarrow>
                         if starts_with url (''/teacher/subjects/'' @ str_of_int subject_id @ ''/'') then Redirect url
                         else back_to subject_id [(''classroom'', ''link_'' @ action)]
                     | None \<Rightarrow> back_to subject_id [(''classroom'', ''link_'' @ action)]))))"

section \<open>Gradings and files\<close>

text \<open>A grading, its work and its assignment, when it belongs to the subject.\<close>

definition subject_grading :: "db \<Rightarrow> int \<Rightarrow> int \<Rightarrow> (llm_grading \<times> classroom_work \<times> subjects_assignment) option" where
  "subject_grading d subject_id grading_id =
     (case get_grading d grading_id of
        None \<Rightarrow> None
      | Some g \<Rightarrow>
          (case get_work d (lg_classroom_work_id g) of
             None \<Rightarrow> None
           | Some w \<Rightarrow>
               (case get_assignment d (wk_subjects_assignment_id w) of
                  None \<Rightarrow> None
                | Some a \<Rightarrow> if asg_subject_id a = subject_id then Some (g, w, a) else None)))"

definition requeued :: "llm_grading \<Rightarrow> llm_grading" where
  "requeued g = g\<lparr>lg_status := Grading_PENDING, lg_attempts := 0, lg_error := None\<rparr>"

definition retry_grading :: "user \<Rightarrow> int \<Rightarrow> int \<Rightarrow> db \<Rightarrow> db \<times> reply" where
  "retry_grading u subject_id grading_id d =
     (case require_subject_access d subject_id u of
        Inl r \<Rightarrow> (d, r)
      | Inr subject \<Rightarrow>
          (case subject_grading d subject_id grading_id of
             None \<Rightarrow> (d, HttpError 404 ''Grading not found'')
           | Some (g, w, a) \<Rightarrow>
               (if lg_status g = Grading_FAILED
                then audit ''llm_grading_retry'' (Some (usr_id u)) (Some grading_id) (upd_grading grading_id requeued d)
                else d,
                Redirect (''/teacher/subjects/'' @ str_of_int subject_id @ ''/assignments/'' @ str_of_int (asg_id a)))))"

record report_row =
  rp_title :: json
  rp_max :: int
  rp_by_llm :: bool
  rp_points :: json
  rp_justification :: json
  rp_evidence :: json
  rp_saved :: "int option"
  rp_changed :: bool

record llm_report =
  rt_student :: "int option"
  rt_criteria :: "report_row list"
  rt_comment :: json

text \<open>The points a teacher saved differ from the draft's; numbers are compared by value.\<close>

definition points_differ :: "int option \<Rightarrow> json \<Rightarrow> bool" where
  "points_differ saved points =
     (case saved of
        None \<Rightarrow> False
      | Some n \<Rightarrow> points \<noteq> JNull \<and> (is_number points \<longrightarrow> number_value points \<noteq> of_int n))"

definition report_row_of :: "string list \<Rightarrow> pydict \<Rightarrow> (string \<rightharpoonup> int) \<Rightarrow> criterion \<Rightarrow> py_exn + report_row" where
  "report_row_of llm_keys draft saved c =
     map_sum id (\<lambda>verdict.
       let points = dget verdict ''points'' JNull in
       \<lparr>rp_title = crit_title c, rp_max = crit_max c, rp_by_llm = (crit_key c \<in> set llm_keys), rp_points = points,
        rp_justification = dget verdict ''justification'' JNull, rp_evidence = dget verdict ''evidence'' JNull,
        rp_saved = saved (crit_key c), rp_changed = points_differ (saved (crit_key c)) points\<rparr>)
       (or_dict (dget draft (crit_key c) JNull))"

definition saved_points :: "db \<Rightarrow> llm_grading \<Rightarrow> int option \<Rightarrow> int \<Rightarrow> (string \<rightharpoonup> int)" where
  "saved_points d g student assignment_id =
     (case student of
        None \<Rightarrow> Map.empty
      | Some sid \<Rightarrow>
          if lg_approved_at g = None then Map.empty
          else (case Option.bind (find_sa d sid assignment_id) sa_teacher_scores of None \<Rightarrow> Map.empty | Some ps \<Rightarrow> map_of ps))"

definition report_of :: "db \<Rightarrow> llm_grading \<Rightarrow> classroom_work \<Rightarrow> subjects_assignment \<Rightarrow> py_exn + llm_report" where
  "report_of d g w a =
     (let student = Option.bind (get_link d (wk_link_id w)) (\<lambda>l. Option.bind (lk_student_id l) (\<lambda>sid.
                      if sid = 0 then None else map_option stu_id (get_student d sid)));
          saved = saved_points d g student (asg_id a)
      in
        bind_result (or_dict (dget (asg_config a) ''grading'' JNull)) (\<lambda>grading.
        bind_result (llm_criteria grading) (\<lambda>llm_ones.
        bind_result (draft_criteria (lg_draft g)) (\<lambda>draft.
        bind_result (criteria grading) (\<lambda>crits.
        bind_result (map_result (report_row_of (map lc_key llm_ones) draft saved) crits) (\<lambda>rows.
          Inr \<lparr>rt_student = student, rt_criteria = rows,
               rt_comment = dget (case lg_draft g of Some x \<Rightarrow> x | None \<Rightarrow> []) ''comment'' JNull\<rparr>))))))"

definition grading_report :: "user \<Rightarrow> int \<Rightarrow> int \<Rightarrow> db \<Rightarrow> reply + llm_report" where
  "grading_report u subject_id grading_id d =
     bind_result (require_subject_access d subject_id u) (\<lambda>subject.
       (case subject_grading d subject_id grading_id of
          None \<Rightarrow> Inl (HttpError 404 ''Grading not found'')
        | Some (g, w, a) \<Rightarrow>
            if get_link d (wk_link_id w) = None then Inl (HttpError 404 ''Grading not found'')
            else map_sum ServerError id (report_of d g w a)))"

text \<open>The content of a file, with the text of its entry for the name and the type.\<close>

definition work_file :: "google \<Rightarrow> user \<Rightarrow> int \<Rightarrow> int \<Rightarrow> int \<Rightarrow> db \<Rightarrow> reply + pydict \<times> string" where
  "work_file gg u subject_id work_id idx d =
     bind_result (require_subject_access d subject_id u) (\<lambda>subject.
       let work = Option.bind (get_work d work_id) (\<lambda>w.
                    if map_option asg_subject_id (get_assignment d (wk_subjects_assignment_id w)) = Some subject_id
                    then Some w else None);
           manifest = (case work of Some w \<Rightarrow> wk_manifest w | None \<Rightarrow> []);
           entry = (if 0 \<le> idx \<and> idx < int (length manifest) then Some (manifest ! nat idx) else None)
       in
         (case entry of
            None \<Rightarrow> Inl (HttpError 404 ''File not found'')
          | Some e \<Rightarrow>
              if gradable [e] = [] then Inl (HttpError 404 ''File not found'')
              else if \<not> go_storage gg then Inl (HttpError 404 ''File storage is not configured'')
              else
                (case go_blob gg (entry_text e ''storage_key'') of
                   None \<Rightarrow> Inl (HttpError 404 ''File is no longer available'')
                 | Some content \<Rightarrow> Inr (e, content))))"

section \<open>The card\<close>

record classroom_card =
  cd_enabled :: bool
  cd_connection :: "google_connection option"
  cd_needs_reconnect :: bool
  cd_assignments :: "(subjects_assignment \<times> string option) list"
  cd_courses :: "(string \<times> string) list"
  cd_coursework_options :: "(string \<times> string) list"
  cd_error :: "string option"
  cd_unmatched :: unmatched_card

definition suggest_coursework ::
  "(string \<Rightarrow> string \<Rightarrow> rat) \<Rightarrow> (string \<times> string) list \<Rightarrow> subjects_assignment list \<Rightarrow> classroom_card \<Rightarrow> classroom_card"
where
  "suggest_coursework sim options all_assignments shown =
     (let taken = filter (\<lambda>c. c \<noteq> '''') (map coursework_or_empty all_assignments);
          unlinked = filter (\<lambda>a. coursework_or_empty a = '''') (map fst (cd_assignments shown));
          guesses = suggest sim (map (\<lambda>a. (asg_id a, asg_title a)) unlinked) options taken
      in shown\<lparr>cd_coursework_options := options,
              cd_assignments := map (\<lambda>(a, s). (a, map_of guesses (asg_id a))) (cd_assignments shown)\<rparr>)"

text \<open>A dead token marks the connection; any other failure of Google is a line on the card.\<close>

definition card_failed :: "google \<Rightarrow> ingest_error \<Rightarrow> google_connection \<Rightarrow> db \<Rightarrow> classroom_card \<Rightarrow> reply + db \<times> classroom_card" where
  "card_failed gg e conn d shown =
     (case e of
        Auth_error True \<Rightarrow>
          Inr (d\<lparr>db_connections := upd_row gc_id (gc_id conn)
                  (\<lambda>c. c\<lparr>gc_status := Connection_ERROR, gc_last_error := Some (take 500 (go_dead_token gg))\<rparr>) (db_connections d)\<rparr>,
               shown\<lparr>cd_needs_reconnect := True\<rparr>)
      | Internal_error \<Rightarrow> Inl (HttpError 500 ''Internal Server Error'')
      | _ \<Rightarrow> Inr (d, shown\<lparr>cd_error := Some ''google''\<rparr>))"

definition classroom_card_context ::
  "(string \<Rightarrow> string \<Rightarrow> rat) \<Rightarrow> google \<Rightarrow> subject \<Rightarrow> user \<Rightarrow> db \<Rightarrow> reply + db \<times> classroom_card option"
where
  "classroom_card_context sim gg subject u d =
     (let assignments = in_page_order (\<lambda>a. '''') asg_deadline asg_id (of_subject d (subj_id subject)) in
      bind_result (map_sum ServerError id (filter_result (\<lambda>a. is_llm_graded (asg_config a)) assignments)) (\<lambda>graded.
        if graded = [] then Inr (d, None)
        else
          let connection = (if go_enabled gg then connection_for d (usr_id u) else None);
              stale = (case connection of Some c \<Rightarrow> gc_status c \<noteq> Connection_ACTIVE | None \<Rightarrow> False);
              shown = \<lparr>cd_enabled = go_enabled gg, cd_connection = connection, cd_needs_reconnect = stale,
                cd_assignments = map (\<lambda>a. (a, None)) graded, cd_courses = [], cd_coursework_options = [],
                cd_error = None, cd_unmatched = fill_unmatched d (subj_id subject)\<rparr>
          in
            (case connection of
               None \<Rightarrow> Inr (d, Some shown)
             | Some c \<Rightarrow>
                 if stale then Inr (d, Some shown)
                 else
                   let failed = (\<lambda>e. map_sum id (\<lambda>(d1, x). (d1, Some x)) (card_failed gg e c d shown)) in
                   (case go_decrypt gg (gc_refresh_token_enc c) of
                      None \<Rightarrow> failed (Auth_error False)
                    | Some token \<Rightarrow>
                        (case subj_classroom_course_id subject of
                           Some course \<Rightarrow>
                             if course = '''' then
                               (case go_courses gg token of
                                  Inl e \<Rightarrow> failed e | Inr cs \<Rightarrow> Inr (d, Some (shown\<lparr>cd_courses := cs\<rparr>)))
                             else
                               (case go_coursework gg token course of
                                  Inl e \<Rightarrow> failed e
                                | Inr options \<Rightarrow> Inr (d, Some (suggest_coursework sim options assignments shown)))
                         | None \<Rightarrow>
                             (case go_courses gg token of
                                Inl e \<Rightarrow> failed e | Inr cs \<Rightarrow> Inr (d, Some (shown\<lparr>cd_courses := cs\<rparr>))))))))"

section \<open>Guesses never clash\<close>

definition guesses_ok :: "string set \<Rightarrow> (string \<times> string) list \<times> (int \<times> string) list \<Rightarrow> bool" where
  "guesses_ok K = (\<lambda>(free, out).
     distinct (map fst out) \<and> distinct (map snd out) \<and> fst ` set free \<inter> snd ` set out = {} \<and>
     fst ` set free \<union> snd ` set out \<subseteq> K)"

lemma drop_coursework_ids: "fst ` set (drop_coursework k free) = fst ` set free - {k}"
  by (auto simp: drop_coursework_def)

lemma take_guess:
  assumes "guesses_ok K (free, out)" and "k \<in> fst ` set free" and "i \<notin> fst ` set out"
  shows "guesses_ok K (drop_coursework k free, out @ [(i, k)])"
  using assms unfolding guesses_ok_def by (auto simp: drop_coursework_ids)

lemma first_of_sorted:
  assumes "sort_key_desc f xs = x # ys"
  shows "x \<in> set xs"
  using assms set_sort_key_desc [of f xs] by (metis list.set_intros(1))

lemma numbered_step:
  assumes "guesses_ok K st" and "fst a \<notin> fst ` set (snd st)"
  shows "guesses_ok K (suggest_by_number sim a st) \<and>
    fst ` set (snd (suggest_by_number sim a st)) \<subseteq> insert (fst a) (fst ` set (snd st))"
proof -
  obtain free out where st: "st = (free, out)" by fastforce
  show ?thesis
  proof (cases "title_number (snd a)")
    case None
    then show ?thesis using assms by (auto simp: st suggest_by_number_def)
  next
    case (Some n)
    let ?same = "filter (\<lambda>(i, t). title_number t = Some n) free"
    show ?thesis
    proof (cases "sort_key_desc (\<lambda>(i, t). sim (snd a) t) ?same")
      case Nil
      then show ?thesis using assms Some by (auto simp: st suggest_by_number_def)
    next
      case (Cons b bs)
      have "b \<in> set free" using first_of_sorted [OF Cons] by simp
      then have "fst b \<in> fst ` set free" by simp
      from take_guess [OF _ this, of K out "fst a"] assms Some Cons show ?thesis
        by (cases b) (auto simp: st suggest_by_number_def)
    qed
  qed
qed

lemma titled_step:
  assumes "guesses_ok K st"
  shows "guesses_ok K (suggest_by_title sim a st) \<and>
    fst ` set (snd (suggest_by_title sim a st)) \<subseteq> insert (fst a) (fst ` set (snd st))"
proof -
  obtain free out where st: "st = (free, out)" by fastforce
  show ?thesis
  proof (cases "fst a \<in> fst ` set out")
    case True
    then show ?thesis using assms by (auto simp: st suggest_by_title_def)
  next
    case False
    show ?thesis
    proof (cases "sort_key_desc (\<lambda>(i, t). sim (snd a) t) (rev (sort_key fst free))")
      case Nil
      then show ?thesis using assms False by (auto simp: st suggest_by_title_def)
    next
      case (Cons b bs)
      have "b \<in> set free" using first_of_sorted [OF Cons] by simp
      then have "fst b \<in> fst ` set free" by simp
      from take_guess [OF _ this False, of K] assms False Cons show ?thesis
        by (cases b) (auto simp: st suggest_by_title_def Let_def)
    qed
  qed
qed

lemma chain_subset: "A \<subseteq> B \<union> C \<Longrightarrow> B \<subseteq> insert x D \<Longrightarrow> A \<subseteq> D \<union> insert x C"
  by blast

lemma chain_disjoint: "A \<subseteq> insert x D \<Longrightarrow> x \<notin> C \<Longrightarrow> D \<inter> insert x C = {} \<Longrightarrow> A \<inter> C = {}"
  by blast

lemma numbered_steps:
  assumes "guesses_ok K st" and "distinct (map fst as)" and "fst ` set (snd st) \<inter> fst ` set as = {}"
  shows "guesses_ok K (fold (suggest_by_number sim) as st) \<and>
    fst ` set (snd (fold (suggest_by_number sim) as st)) \<subseteq> fst ` set (snd st) \<union> fst ` set as"
  using assms
proof (induction as arbitrary: st)
  case (Cons a as)
  let ?st = "suggest_by_number sim a st"
  have new: "fst a \<notin> fst ` set (snd st)" using Cons.prems(3) by auto
  note step = numbered_step [OF Cons.prems(1) new, of sim]
  have "fst ` set (snd ?st) \<inter> fst ` set as = {}"
    by (rule chain_disjoint [OF conjunct2 [OF step]]) (use Cons.prems(2,3) in simp_all)
  note IH = Cons.IH [OF conjunct1 [OF step] _ this]
  have "distinct (map fst as)" using Cons.prems(2) by simp
  note IH = IH [OF this]
  from chain_subset [OF conjunct2 [OF IH] conjunct2 [OF step]] conjunct1 [OF IH] show ?case by simp
qed simp

lemma titled_steps:
  assumes "guesses_ok K st"
  shows "guesses_ok K (fold (suggest_by_title sim) as st) \<and>
    fst ` set (snd (fold (suggest_by_title sim) as st)) \<subseteq> fst ` set (snd st) \<union> fst ` set as"
  using assms
proof (induction as arbitrary: st)
  case (Cons a as)
  note step = titled_step [OF Cons.prems, of sim a]
  note IH = Cons.IH [OF conjunct1 [OF step]]
  from chain_subset [OF conjunct2 [OF IH] conjunct2 [OF step]] conjunct1 [OF IH] show ?case by simp
qed simp

lemma listed_courseworks: "fst ` set (fold (\<lambda>(i, t). dict_set i t) cs acc) = fst ` set acc \<union> fst ` set cs"
proof (induction cs arbitrary: acc)
  case (Cons c cs)
  obtain i t where c: "c = (i, t)" by fastforce
  have "set (map fst (dict_set i t acc)) = insert i (set (map fst acc))" unfolding dict_set_keys by auto
  then have "fst ` set (dict_set i t acc) = insert i (fst ` set acc)" by simp
  then show ?case using Cons.IH [of "dict_set i t acc"] by (auto simp: c)
qed simp

text \<open>The guesses for linking can be saved as they are: every assignment gets one coursework at most, no coursework is
  offered for two assignments, none that is already in use, and only courseworks of the course.\<close>

theorem suggestions_never_clash:
  assumes "distinct (map fst assignments)"
  shows "distinct (map fst (suggest sim assignments courseworks taken)) \<and>
    distinct (map snd (suggest sim assignments courseworks taken)) \<and>
    snd ` set (suggest sim assignments courseworks taken) \<subseteq> fst ` set courseworks - set taken \<and>
    fst ` set (suggest sim assignments courseworks taken) \<subseteq> fst ` set assignments"
proof -
  let ?K = "fst ` set courseworks - set taken"
  let ?free = "filter (\<lambda>(i, t). i \<notin> set taken) (fold (\<lambda>(i, t). dict_set i t) courseworks [])"
  have "fst ` set (fold (\<lambda>(i, t). dict_set i t) courseworks []) = fst ` set courseworks"
    using listed_courseworks [of courseworks "[]"] by simp
  then have "guesses_ok ?K (?free, [])" by (auto simp: guesses_ok_def)
  note first = numbered_steps [OF this assms, of sim, simplified]
  obtain free out where result: "fold (suggest_by_title sim) assignments
      (fold (suggest_by_number sim) assignments (?free, [])) = (free, out)" by fastforce
  note second = titled_steps [OF conjunct1 [OF first], of sim assignments, unfolded result]
  have "fst ` set out \<subseteq> fst ` set assignments"
    using subset_trans [OF conjunct2 [OF second]] first by simp
  moreover have "snd ` set out \<subseteq> ?K" using second by (simp add: guesses_ok_def)
  moreover have "suggest sim assignments courseworks taken = out" using result by (simp add: suggest_def)
  ultimately show ?thesis using second by (simp add: guesses_ok_def)
qed

section \<open>One coursework, one assignment\<close>

definition chosen_coursework :: "(int \<times> string) list \<Rightarrow> (string \<times> string) list \<Rightarrow> subjects_assignment \<Rightarrow> subjects_assignment" where
  "chosen_coursework wanted titles a =
     (case map_of wanted (asg_id a) of
        None \<Rightarrow> a
      | Some c \<Rightarrow> if c = coursework_or_empty a then a else set_coursework titles c a)"

lemma chosen_coursework_keeps [simp]:
  "asg_id (chosen_coursework wanted titles a) = asg_id a" "asg_subject_id (chosen_coursework wanted titles a) = asg_subject_id a"
  "coursework_or_empty (chosen_coursework wanted titles a) = final_coursework wanted a"
  by (auto simp: chosen_coursework_def set_coursework_def final_coursework_def coursework_or_empty_def split: option.splits)

lemma apply_coursework_rows:
  assumes "\<And>x. x \<in> set (db_assignments d) \<Longrightarrow> asg_id x = asg_id a \<Longrightarrow> x = a"
  shows "db_assignments (apply_coursework wanted titles u a d) =
    map (\<lambda>x. if asg_id x = asg_id a then chosen_coursework wanted titles x else x) (db_assignments d)"
proof -
  have "(if asg_id x = asg_id a then chosen_coursework wanted titles x else x) =
      (if asg_id x = asg_id a then chosen_coursework wanted titles a else x)" if "x \<in> set (db_assignments d)" for x
    using assms [OF that] by auto
  then have rhs: "map (\<lambda>x. if asg_id x = asg_id a then chosen_coursework wanted titles x else x) (db_assignments d) =
      map (\<lambda>x. if asg_id x = asg_id a then chosen_coursework wanted titles a else x) (db_assignments d)"
    by (intro map_cong) simp_all
  show ?thesis
  proof (cases "map_of wanted (asg_id a) = None \<or> map_of wanted (asg_id a) = Some (coursework_or_empty a)")
    case True
    then have ch: "chosen_coursework wanted titles a = a" "apply_coursework wanted titles u a d = d"
      by (auto simp: chosen_coursework_def apply_coursework_def)
    have "map (\<lambda>x. if asg_id x = asg_id a then a else x) (db_assignments d) = db_assignments d"
      by (rule map_idI) (metis assms)
    then show ?thesis unfolding rhs ch by simp
  next
    case False
    then obtain c where c: "map_of wanted (asg_id a) = Some c" "c \<noteq> coursework_or_empty a" by auto
    have "upd_row asg_id (asg_id a) (set_coursework titles c) (db_assignments d) =
        map (\<lambda>x. if asg_id x = asg_id a then chosen_coursework wanted titles a else x) (db_assignments d)"
      unfolding upd_row_def using assms c by (intro map_cong) (auto simp: chosen_coursework_def)
    with c show ?thesis unfolding rhs by (simp add: apply_coursework_def audit_def)
  qed
qed

lemma apply_all_rows:
  assumes "distinct (map asg_id as)"
    and "\<And>a x. a \<in> set as \<Longrightarrow> x \<in> set (db_assignments d) \<Longrightarrow> asg_id x = asg_id a \<Longrightarrow> x = a"
  shows "db_assignments (fold (apply_coursework wanted titles u) as d) =
    map (\<lambda>x. if asg_id x \<in> asg_id ` set as then chosen_coursework wanted titles x else x) (db_assignments d)"
  using assms
proof (induction as arbitrary: d)
  case (Cons a as)
  let ?d = "apply_coursework wanted titles u a d"
  have rows: "db_assignments ?d =
      map (\<lambda>x. if asg_id x = asg_id a then chosen_coursework wanted titles x else x) (db_assignments d)"
    by (rule apply_coursework_rows) (use Cons.prems(2) in auto)
  have "db_assignments (fold (apply_coursework wanted titles u) as ?d) =
      map (\<lambda>x. if asg_id x \<in> asg_id ` set as then chosen_coursework wanted titles x else x) (db_assignments ?d)"
  proof (rule Cons.IH)
    show "distinct (map asg_id as)" using Cons.prems(1) by simp
    fix b x
    assume b: "b \<in> set as" "x \<in> set (db_assignments ?d)" "asg_id x = asg_id b"
    have "asg_id b \<in> asg_id ` set as" using b(1) by (rule imageI)
    then have "asg_id b \<noteq> asg_id a" using Cons.prems(1) by (metis distinct.simps(2) list.map(2) list.set_map)
    with b(2,3) have "x \<in> set (db_assignments d)" unfolding rows by (auto split: if_splits)
    then show "x = b" using Cons.prems(2) b by simp
  qed
  moreover have "asg_id a \<notin> asg_id ` set as" using Cons.prems(1) by simp
  ultimately show ?case unfolding rows by (auto simp: comp_def)
qed simp

text \<open>C39. Linking coursework is all or nothing: either no assignment changes, or every assignment of the subject has
  what the form asked for, or what it had, and no coursework feeds two assignments of the subject; the
  assignments of other subjects stay as they are.\<close>

theorem coursework_is_linked_once:
  assumes "distinct (map asg_id (db_assignments d))" and "link_coursework_batch gg u subject_id form d = (d', r)"
  shows "d' = d \<or>
    (\<exists>wanted titles. wanted_coursework form (of_subject d subject_id) = Inr wanted \<and>
       db_assignments d' = map (\<lambda>a. if asg_subject_id a = subject_id then chosen_coursework wanted titles a else a) (db_assignments d) \<and>
       map coursework_or_empty (of_subject d' subject_id) = map (final_coursework wanted) (of_subject d subject_id) \<and>
       distinct (filter (\<lambda>c. c \<noteq> '''') (map coursework_or_empty (of_subject d' subject_id))))"
proof (cases "d' = d")
  case False
  note \<open>d' \<noteq> d\<close>
  let ?as = "of_subject d subject_id"
  from assms(2) \<open>d' \<noteq> d\<close> obtain wanted titles where w: "wanted_coursework form ?as = Inr wanted"
    "distinct (filter (\<lambda>c. c \<noteq> '''') (map (final_coursework wanted) ?as))"
    and d': "d' = fold (apply_coursework wanted titles (usr_id u)) ?as d"
    by (auto simp: link_coursework_batch_def Let_def split: sum.splits if_splits)
  have inj: "inj_on asg_id (set (db_assignments d))" using assms(1) by (simp add: distinct_map)
  have ids: "asg_id x \<in> asg_id ` set ?as \<longleftrightarrow> asg_subject_id x = subject_id" if "x \<in> set (db_assignments d)" for x
    using that inj by (auto simp: of_subject_def dest: inj_onD)
  have "db_assignments d' = map (\<lambda>x. if asg_id x \<in> asg_id ` set ?as then chosen_coursework wanted titles x else x) (db_assignments d)"
    unfolding d' by (rule apply_all_rows) (use assms(1) inj in \<open>auto simp: of_subject_def distinct_map_filter dest: inj_onD\<close>)
  also have "\<dots> = map (\<lambda>a. if asg_subject_id a = subject_id then chosen_coursework wanted titles a else a) (db_assignments d)"
    using ids by (auto intro: map_cong)
  finally have rows: "db_assignments d' =
      map (\<lambda>a. if asg_subject_id a = subject_id then chosen_coursework wanted titles a else a) (db_assignments d)" .
  have "map coursework_or_empty (filter (\<lambda>a. asg_subject_id a = subject_id)
      (map (\<lambda>a. if asg_subject_id a = subject_id then chosen_coursework wanted titles a else a) as)) =
      map (final_coursework wanted) (filter (\<lambda>a. asg_subject_id a = subject_id) as)" for as
    by (induction as) auto
  then have "map coursework_or_empty (of_subject d' subject_id) = map (final_coursework wanted) ?as"
    unfolding of_subject_def rows .
  with w rows show ?thesis by (intro disjI2 exI [of _ wanted] exI [of _ titles] conjI) simp_all
qed simp

section \<open>Links stay straight\<close>

text \<open>No student has two confirmed accounts in a subject.\<close>

definition links_single :: "db \<Rightarrow> bool" where
  "links_single d \<longleftrightarrow>
     (\<forall>l1 \<in> set (db_links d). \<forall>l2 \<in> set (db_links d).
        lk_confirmed l1 \<and> lk_confirmed l2 \<and> lk_subject_id l1 = lk_subject_id l2 \<and> lk_student_id l1 \<noteq> None \<and>
        lk_student_id l1 = lk_student_id l2 \<longrightarrow> lk_id l1 = lk_id l2)"

datatype link_request =
    Confirm_all user int
  | Resolve user int int string "int option" "string option"
  | Retry user int int

fun serve_link :: "link_request \<Rightarrow> db \<Rightarrow> db" where
  "serve_link (Confirm_all u i) d = fst (confirm_all_links u i d)"
| "serve_link (Resolve u i l action sid url) d = fst (resolve_link u i l action sid url d)"
| "serve_link (Retry u i g) d = fst (retry_grading u i g d)"

definition links_good :: "(string \<Rightarrow> int \<times> string) \<Rightarrow> db \<Rightarrow> bool" where
  "links_good owner d \<longleftrightarrow> classroom_ok owner d \<and> links_single d"

lemma links_good_audit [simp]: "links_good owner (audit x u t d) = links_good owner d"
proof -
  have "classroom_ok owner (audit x u t d) = classroom_ok owner d"
    by (rule classroom_ok_cong) (simp_all add: audit_def)
  then show ?thesis by (simp add: links_good_def links_single_def audit_def)
qed

lemma links_single_release: "links_single (release_waiting i d) = links_single d"
  by (simp add: links_single_def release_waiting_def)

lemma links_single_upd:
  assumes single: "links_single d" and ids: "\<And>l. lk_id (f l) = lk_id l" "\<And>l. lk_subject_id (f l) = lk_subject_id l"
    and free: "\<And>l sid. l \<in> set (db_links d) \<Longrightarrow> lk_id l = i \<Longrightarrow> lk_student_id (f l) = Some sid \<Longrightarrow>
      \<not> student_taken d (lk_subject_id l) sid i"
  shows "links_single (upd_link i f d)"
  unfolding links_single_def
proof (intro ballI impI)
  fix l1 l2
  assume l: "l1 \<in> set (db_links (upd_link i f d))" "l2 \<in> set (db_links (upd_link i f d))"
    "lk_confirmed l1 \<and> lk_confirmed l2 \<and> lk_subject_id l1 = lk_subject_id l2 \<and> lk_student_id l1 \<noteq> None \<and>
        lk_student_id l1 = lk_student_id l2"
  obtain sid where s1: "lk_student_id l1 = Some sid" using l(3) by (metis not_None_eq)
  then have sid: "lk_student_id l1 = Some sid" "lk_student_id l2 = Some sid" using l(3) by simp_all
  have old: "\<exists>r \<in> set (db_links d). x = (if lk_id r = i then f r else r)" if "x \<in> set (db_links (upd_link i f d))" for x
    using that by (simp add: upd_link_def upd_row_mem)
  obtain r1 r2 where r: "r1 \<in> set (db_links d)" "l1 = (if lk_id r1 = i then f r1 else r1)"
    "r2 \<in> set (db_links d)" "l2 = (if lk_id r2 = i then f r2 else r2)" using old [OF l(1)] old [OF l(2)] by blast
  have clash: False if "a \<in> set (db_links d)" "lk_id a = i" "lk_student_id (f a) = Some sid" "b \<in> set (db_links d)" "lk_id b \<noteq> i"
    "lk_confirmed b" "lk_student_id b = Some sid" "lk_subject_id a = lk_subject_id b" for a b
    using free [OF that(1-3)] that(4-8) by (auto simp: student_taken_def list_ex_iff)
  show "lk_id l1 = lk_id l2"
  proof (cases "lk_id r1 = i"; cases "lk_id r2 = i")
    assume "lk_id r1 \<noteq> i" "lk_id r2 \<noteq> i"
    then show ?thesis using single r l(3) unfolding links_single_def by auto
  next
    assume c: "lk_id r1 = i" "lk_id r2 \<noteq> i"
    have False by (rule clash [of r1 r2]) (use r l(3) sid c ids in auto)
    then show ?thesis ..
  next
    assume c: "lk_id r1 \<noteq> i" "lk_id r2 = i"
    have False by (rule clash [of r2 r1]) (use r l(3) sid c ids in auto)
    then show ?thesis ..
  qed (use r ids in simp)
qed

lemma manual_keeps [simp]:
  "lk_id (manual l) = lk_id l" "lk_subject_id (manual l) = lk_subject_id l" "lk_student_id (manual l) = lk_student_id l"
  "lk_classroom_user_id (manual l) = lk_classroom_user_id l" "has_student (manual l) = has_student l" "lk_confirmed (manual l)"
  by (simp_all add: manual_def has_student_def)

lemma link_ids_unique:
  "classroom_ok owner d \<Longrightarrow> l \<in> set (db_links d) \<Longrightarrow> l' \<in> set (db_links d) \<Longrightarrow> lk_id l = lk_id l' \<Longrightarrow> l = l'"
  by (auto simp: classroom_ok_def keys_ok_def distinct_map dest: inj_onD)

lemma link_action_good:
  assumes good: "links_good owner d" and act: "link_action i l action sid d = Inr d'"
    and l: "l \<in> set (db_links d)" "lk_subject_id l = i"
  shows "links_good owner d'"
proof -
  have ok: "classroom_ok owner d" and single: "links_single d" using good by (simp_all add: links_good_def)
  have only: "x = l" if "x \<in> set (db_links d)" "lk_id x = lk_id l" for x using link_ids_unique [OF ok that(1) l(1) that(2)] .
  consider (link) s where "sid = Some s" "\<not> student_taken d i s (lk_id l)"
      "d' = release_waiting (lk_id l) (upd_link (lk_id l) (\<lambda>l. (manual l)\<lparr>lk_student_id := Some s\<rparr>) d)"
    | (ignore) "d' = upd_link (lk_id l) (\<lambda>l. l\<lparr>lk_method := Link_IGNORED, lk_confirmed := True, lk_student_id := None\<rparr>) d"
    | (confirm) s where "lk_student_id l = Some s" "\<not> student_taken d i s (lk_id l)"
      "d' = release_waiting (lk_id l) (upd_link (lk_id l) manual d)"
    using act by (auto simp: link_action_def split: if_splits option.splits)
  then show ?thesis
  proof cases
    case link
    have "classroom_ok owner (upd_link (lk_id l) (\<lambda>l. (manual l)\<lparr>lk_student_id := Some s\<rparr>) (release_waiting (lk_id l) d))"
      by (rule upd_link_ok [OF release_ok [OF ok]]) (auto dest: released simp: manual_def)
    moreover have "links_single (upd_link (lk_id l) (\<lambda>l. (manual l)\<lparr>lk_student_id := Some s\<rparr>) d)"
      by (rule links_single_upd [OF single]) (use link(2) l(2) in \<open>auto dest!: only\<close>)
    ultimately show ?thesis unfolding link(3) links_good_def links_single_release by (simp add: release_upd)
  next
    case ignore
    have "classroom_ok owner d'" unfolding ignore by (rule upd_link_ok [OF ok]) (simp_all add: has_student_def)
    moreover have "links_single d'" unfolding ignore by (rule links_single_upd [OF single]) simp_all
    ultimately show ?thesis by (simp add: links_good_def)
  next
    case confirm
    have "classroom_ok owner (upd_link (lk_id l) manual d)" by (rule upd_link_ok [OF ok]) simp_all
    moreover have "links_single (upd_link (lk_id l) manual d)"
      by (rule links_single_upd [OF single]) (use confirm(1,2) l(2) in \<open>auto dest!: only\<close>)
    ultimately show ?thesis unfolding confirm(3) links_good_def links_single_release by (simp add: release_ok)
  qed
qed

lemma confirm_one_good:
  assumes good: "links_good owner d" and taken: "confirmed_students d i \<subseteq> taken"
    and same: "\<forall>x \<in> set (db_links d). lk_id x = lk_id l \<longrightarrow> lk_student_id x = lk_student_id l \<and> lk_subject_id x = i"
    and step: "confirm_one l (taken, d, n) = (taken', d', n')"
  shows "links_good owner d'" and "confirmed_students d' i \<subseteq> taken'"
    and "\<And>x. x \<in> set (db_links d') \<Longrightarrow> \<exists>y \<in> set (db_links d). lk_id y = lk_id x \<and> lk_student_id y = lk_student_id x \<and> lk_subject_id y = lk_subject_id x"
proof -
  have l: "lk_student_id x = lk_student_id l \<and> lk_subject_id x = i" if "x \<in> set (db_links d)" "lk_id x = lk_id l" for x
    using same that by blast
  have "links_good owner d' \<and> confirmed_students d' i \<subseteq> taken' \<and>
    (\<forall>x \<in> set (db_links d'). \<exists>y \<in> set (db_links d). lk_id y = lk_id x \<and> lk_student_id y = lk_student_id x \<and> lk_subject_id y = lk_subject_id x)"
  proof (cases "lk_student_id l \<in> taken")
    case True
    then show ?thesis using step good taken by (auto simp: confirm_one_def)
  next
    case False
    have d': "d' = upd_link (lk_id l) manual d" "taken' = insert (lk_student_id l) taken"
      using step False by (auto simp: confirm_one_def)
    have old: "\<exists>r \<in> set (db_links d). x = (if lk_id r = lk_id l then manual r else r)" if "x \<in> set (db_links d')" for x
      using that by (simp add: d' upd_link_def upd_row_mem)
    have "classroom_ok owner d'" unfolding d' using good by (intro upd_link_ok) (simp_all add: links_good_def)
    moreover have "links_single d'"
      unfolding d'
    proof (rule links_single_upd)
      fix x sid
      assume x: "x \<in> set (db_links d)" "lk_id x = lk_id l" "lk_student_id (manual x) = Some sid"
      then have s: "lk_student_id l = Some sid" "lk_subject_id x = i" using l [OF x(1,2)] by auto
      show "\<not> student_taken d (lk_subject_id x) sid (lk_id l)"
      proof
        assume "student_taken d (lk_subject_id x) sid (lk_id l)"
        then obtain y where "y \<in> set (db_links d)" "lk_subject_id y = i" "lk_student_id y = Some sid" "lk_confirmed y"
          using s(2) by (auto simp: student_taken_def list_ex_iff)
        then have "lk_student_id y \<in> confirmed_students d i"
          unfolding confirmed_students_def set_map set_filter by (intro imageI) simp
        with False taken s(1) \<open>lk_student_id y = Some sid\<close> show False by auto
      qed
    qed (use good in \<open>simp_all add: links_good_def\<close>)
    moreover have "confirmed_students d' i \<subseteq> taken'"
    proof
      fix s assume "s \<in> confirmed_students d' i"
      then obtain x where x: "x \<in> set (db_links d')" "lk_subject_id x = i" "lk_confirmed x" "lk_student_id x = s" "s \<noteq> None"
        by (auto simp: confirmed_students_def)
      obtain r where r: "r \<in> set (db_links d)" "x = (if lk_id r = lk_id l then manual r else r)" using old [OF x(1)] by blast
      show "s \<in> taken'"
      proof (cases "lk_id r = lk_id l")
        case True
        then show ?thesis using l [OF r(1) True] r(2) x(4) d'(2) by simp
      next
        case False
        then have "s \<in> confirmed_students d i" using r x by (auto simp: confirmed_students_def)
        then show ?thesis using taken d'(2) by auto
      qed
    qed
    moreover have "\<forall>x \<in> set (db_links d'). \<exists>y \<in> set (db_links d). lk_id y = lk_id x \<and> lk_student_id y = lk_student_id x \<and>
        lk_subject_id y = lk_subject_id x"
    proof
      fix x assume "x \<in> set (db_links d')"
      from old [OF this] obtain r where "r \<in> set (db_links d)" "x = (if lk_id r = lk_id l then manual r else r)" by blast
      then show "\<exists>y \<in> set (db_links d). lk_id y = lk_id x \<and> lk_student_id y = lk_student_id x \<and> lk_subject_id y = lk_subject_id x"
        by (intro bexI [of _ r]) simp_all
    qed
    ultimately show ?thesis by (simp add: links_good_def)
  qed
  note all = this
  show "links_good owner d'" "confirmed_students d' i \<subseteq> taken'" by (rule conjunct1 [OF all], rule conjunct1 [OF conjunct2 [OF all]])
  show "\<exists>y \<in> set (db_links d). lk_id y = lk_id x \<and> lk_student_id y = lk_student_id x \<and> lk_subject_id y = lk_subject_id x"
    if "x \<in> set (db_links d')" for x
    using bspec [OF conjunct2 [OF conjunct2 [OF all]] that] .
qed

lemma confirm_many_good:
  assumes "links_good owner d" and "confirmed_students d i \<subseteq> taken"
    and "\<And>l x. l \<in> set ls \<Longrightarrow> x \<in> set (db_links d) \<Longrightarrow> lk_id x = lk_id l \<Longrightarrow> lk_student_id x = lk_student_id l \<and> lk_subject_id x = i"
  shows "links_good owner (fst (snd (fold confirm_one ls (taken, d, n))))"
  using assms
proof (induction ls arbitrary: taken d n)
  case (Cons l ls)
  obtain t' d' n' where step: "confirm_one l (taken, d, n) = (t', d', n')"
    by (cases "confirm_one l (taken, d, n)") auto
  have l: "\<forall>x \<in> set (db_links d). lk_id x = lk_id l \<longrightarrow> lk_student_id x = lk_student_id l \<and> lk_subject_id x = i"
    using Cons.prems(3) [OF list.set_intros(1)] by blast
  note one = confirm_one_good [OF Cons.prems(1,2) l step]
  have "links_good owner (fst (snd (fold confirm_one ls (t', d', n'))))"
  proof (rule Cons.IH [OF one(1,2)])
    fix k x
    assume k: "k \<in> set ls" "x \<in> set (db_links d')" "lk_id x = lk_id k"
    obtain y where y: "y \<in> set (db_links d)" "lk_id y = lk_id x" "lk_student_id y = lk_student_id x" "lk_subject_id y = lk_subject_id x"
      using one(3) [OF k(2)] by blast
    have "lk_id y = lk_id k" using y(2) k(3) by simp
    from Cons.prems(3) [OF list.set_intros(2) [OF k(1)] y(1) this] y(3,4)
    show "lk_student_id x = lk_student_id k \<and> lk_subject_id x = i" by simp
  qed
  then show ?case by (simp add: step)
qed simp

lemma requeue_ok: "classroom_ok owner d \<Longrightarrow> classroom_ok owner (upd_grading i requeued d)"
proof -
  assume ok: "classroom_ok owner d"
  have keys: "map lg_classroom_work_id (db_gradings (upd_grading i requeued d)) = map lg_classroom_work_id (db_gradings d)"
    by (simp add: upd_grading_def map_upd_row requeued_def)
  have works: "lg_classroom_work_id ` set (db_gradings (upd_grading i requeued d)) = lg_classroom_work_id ` set (db_gradings d)"
    using keys by (metis list.set_map)
  have rest: "db_works (upd_grading i requeued d) = db_works d" "db_links (upd_grading i requeued d) = db_links d"
    "db_next (upd_grading i requeued d) = db_next d" by (simp_all add: upd_grading_def)
  have "keys_ok (upd_grading i requeued d)"
    using ok unfolding classroom_ok_def keys_ok_def all_in_image rest keys works by blast
  moreover have "waiting_ok (upd_grading i requeued d)"
    unfolding waiting_ok_def rest
  proof (intro ballI impI)
    fix g w l
    assume a: "g \<in> set (db_gradings (upd_grading i requeued d))" "w \<in> set (db_works d)" "l \<in> set (db_links d)"
      "lg_classroom_work_id g = wk_id w \<and> wk_link_id w = lk_id l \<and> has_student l"
    have "\<exists>r \<in> set (db_gradings d). g = (if lg_id r = i then requeued r else r)"
      using a(1) by (simp add: upd_grading_def upd_row_mem)
    then obtain r where r: "r \<in> set (db_gradings d)" "g = (if lg_id r = i then requeued r else r)" by blast
    then have "lg_classroom_work_id r = wk_id w" using a(4) by (simp add: requeued_def split: if_splits)
    then have "lg_status r \<noteq> Grading_WAITING_LINK" using ok r(1) a unfolding classroom_ok_def waiting_ok_def by blast
    then show "lg_status g \<noteq> Grading_WAITING_LINK" using r(2) by (simp add: requeued_def)
  qed
  ultimately show "classroom_ok owner (upd_grading i requeued d)"
    using ok by (simp add: classroom_ok_def owners_ok_def rest)
qed

lemma serve_link_good: "links_good owner d \<Longrightarrow> links_good owner (serve_link r d)"
proof (cases r)
  case (Confirm_all u i)
  assume good: "links_good owner d"
  have ok: "classroom_ok owner d" using good by (simp add: links_good_def)
  have "lk_student_id x = lk_student_id l \<and> lk_subject_id x = i"
    if "l \<in> set (bulk_confirmable d i)" "x \<in> set (db_links d)" "lk_id x = lk_id l" for l x
    using link_ids_unique [OF ok that(2) _ that(3)] that(1) by (auto simp: bulk_confirmable_def)
  note rows = this
  have "links_good owner (fst (snd (fold confirm_one (bulk_confirmable d i) (confirmed_students d i, d, 0))))"
    by (rule confirm_many_good [OF good subset_refl]) (rule rows)
  with good show ?thesis
    by (auto simp: Confirm_all confirm_all_links_def split: sum.split prod.split)
next
  case (Resolve u i k action sid url)
  assume good: "links_good owner d"
  have "links_good owner d'" if "find (\<lambda>l. lk_id l = k \<and> lk_subject_id l = i) (db_links d) = Some l"
    "link_action i l action sid d = Inr d'" for l d'
    using link_action_good [OF good that(2)] find_mem [OF that(1)] by auto
  with good show ?thesis by (auto simp: Resolve resolve_link_def split: sum.split option.split)
next
  case (Retry u i g)
  assume good: "links_good owner d"
  have "links_single (upd_grading g requeued d) = links_single d" by (simp add: links_single_def upd_grading_def)
  then have "links_good owner (upd_grading g requeued d)" using good requeue_ok unfolding links_good_def by simp
  with good show ?thesis by (simp add: Retry retry_grading_def split: sum.split option.split)
qed

interpretation teacher_links: invariant_service "links_good owner" serve_link for owner
  by unfold_locales (rule serve_link_good)



lemma suggestions_never_clash_witness:
  "suggest (\<lambda>a b. if a = b then 1 else 0) [(1, ''Lab 2''), (2, ''Essay'')] [(''x'', ''2. Queues''), (''y'', ''Essay'')] [] =
     [(1, ''x''), (2, ''y'')] \<and>
   distinct (map snd (suggest (\<lambda>a b. if a = b then 1 else 0) [(1, ''Lab 2''), (2, ''Essay'')] [(''x'', ''2. Queues''), (''y'', ''Essay'')] []))"
proof (rule conjI)
  show "suggest (\<lambda>a b. if a = b then 1 else 0) [(1, ''Lab 2''), (2, ''Essay'')] [(''x'', ''2. Queues''), (''y'', ''Essay'')] [] =
     [(1, ''x''), (2, ''y'')]" by code_simp
  have "distinct (map fst [(1 :: int, ''Lab 2''), (2, ''Essay'')])" by simp
  from suggestions_never_clash [OF this]
  show "distinct (map snd (suggest (\<lambda>a b. if a = b then 1 else 0) [(1, ''Lab 2''), (2, ''Essay'')] [(''x'', ''2. Queues''), (''y'', ''Essay'')] []))"
    by blast
qed

definition sample_google :: google where
  "sample_google =
     \<lparr>go_enabled = True, go_storage = True, go_encrypt = id, go_decrypt = Some, go_exchange = (\<lambda>c v. Inl Api_error),
      go_courses = (\<lambda>t. Inr []), go_coursework = (\<lambda>t c. Inr [(''k'', ''Lab'')]), go_blob = (\<lambda>k. None), go_dead_token = ''dead''\<rparr>"

definition sample_teacher :: user where
  "sample_teacher =
     \<lparr>usr_id = 8, usr_role = ADMIN, usr_student_id = None, usr_is_active = True, usr_username = ''t'', usr_email = None\<rparr>"

definition sample_unlinked :: db where
  "sample_unlinked = sample_course\<lparr>
     db_connections := [\<lparr>gc_id = 7, gc_user_id = 8, gc_google_email = ''t@x'', gc_refresh_token_enc = ''r'',
       gc_status = Connection_ACTIVE, gc_last_error = None\<rparr>],
     db_assignments := [sample_llm_assignment\<lparr>asg_subject_id := 5\<rparr>]\<rparr>"

lemma coursework_is_linked_once_witness:
  "\<exists>d' r. link_coursework_batch sample_google sample_teacher 5 (\<lambda>f. Some ''k'') sample_unlinked = (d', r) \<and>
     map coursework_or_empty (of_subject d' 5) = [''k''] \<and>
     distinct (filter (\<lambda>c. c \<noteq> '''') (map coursework_or_empty (of_subject d' 5)))"
proof -
  obtain d' r where run: "link_coursework_batch sample_google sample_teacher 5 (\<lambda>f. Some ''k'') sample_unlinked = (d', r)"
    by fastforce
  have "map coursework_or_empty (of_subject (fst (link_coursework_batch sample_google sample_teacher 5 (\<lambda>f. Some ''k'') sample_unlinked)) 5) =
      [''k'']" by code_simp
  then have k: "map coursework_or_empty (of_subject d' 5) = [''k'']" by (simp add: run)
  have "map coursework_or_empty (of_subject sample_unlinked 5) = ['''']" by code_simp
  with k have "d' \<noteq> sample_unlinked" by auto
  moreover have dist: "distinct (map asg_id (db_assignments sample_unlinked))" by (simp add: sample_unlinked_def)
  ultimately have "distinct (filter (\<lambda>c. c \<noteq> '''') (map coursework_or_empty (of_subject d' 5)))"
    using coursework_is_linked_once [OF dist run] by (elim disjE exE conjE) simp_all
  with run k show ?thesis by simp
qed



end
