(* ===== verification/Spec2Isabelle.thy ===== *)
theory Spec2Isabelle
  imports SubmissionState Models TeacherScores QuizScoring Squads SquadInvariants Grading QuizGrants
    QuizOpen QuizDraw QuizClock ReviewQueue QuizAttempts Geo QuizRoutes QuizEvents AttemptLifecycle
    QuizSteps QuizInvariants QuizRegrade SafeZip StatusFlow CheckCore AiReview CheckTasks
    LlmBoard TeacherReview Mail Outbox ConfigCheck ConfigApply Similarity Upload Gradebook Jobs Matching Runner Ingest SyncRuns ClassroomRoutes
begin

text \<open>
  This development models the server of the submissions checker (\<open>src/src/submissions_checker/\<close>): students hand in
  coursework as archives or through Google Classroom, the server checks it with the teacher's scripts, lets a language
  model review or draft grades, examines the student with a timed quiz, and adds everything up to a grade.

  \<^bold>\<open>How the program works.\<close> Everything lives in tables (\<open>db/models/\<close>). Routes (\<open>api/routes/\<close>) serve one request
  in one transaction. Slow work is posted as a message to the outbox and done by a worker
  (\<open>workers/scheduled/outbox_processor.py\<close>) that runs tasks (\<open>workers/tasks/\<close>); scheduled jobs remind, digest, sync
  and grade. A submission moves along the table of \<open>core/state_machine.py\<close>: checked, reviewed by the model, sent to
  a quiz, decided by the teacher, completed or failed.

  \<^bold>\<open>Conventions\<close> (\<open>Prelude\<close>, \<open>PyValue\<close>, \<open>Models\<close>). A table is the list of its rows, \<open>db\<close> the record of all tables; a
  row is a record with the columns that modelled operations use. A document (JSON, YAML) is a \<open>json\<close> value; a Python
  float is the rational it denotes, arithmetic on floats is exact; an instant counts microseconds; text is a list of
  characters. An operation that may raise answers a sum; a route answers the new database and a \<open>reply\<close>, and the old
  database where the session is rolled back; a task answers the database it leaves together with its error, since the
  worker commits both.

  \<^bold>\<open>Theories, from the ground up.\<close>
  \<^item> \<open>Enums\<close>, \<open>SubmissionState\<close>: \<open>db/models/enums.py\<close> and \<open>core/state_machine.py\<close>. The table, \<open>transition\<close>, the relation
    \<open>status_step\<close>, which statuses are final; the locale \<open>status_mover\<close> for operations that move along it.
  \<^item> \<open>TeacherScores\<close>, \<open>QuizScoring\<close>, \<open>Grading\<close>: \<open>services/teacher_scores.py\<close>, \<open>quiz_scoring.py\<close>, \<open>quiz_split.py\<close>,
    \<open>grading.py\<close>. Formulas of points and grades, their bounds and exactness, a squad's common grade.
  \<^item> \<open>Squads\<close>, \<open>SquadInvariants\<close>: \<open>services/squads.py\<close>, \<open>routes/student_squads.py\<close>. Invitations, locking, the teacher's
    assignment; the rules of membership hold after any sequence of requests.
  \<^item> \<open>QuizGrants\<close>, \<open>QuizOpen\<close>, \<open>QuizDraw\<close>, \<open>QuizClock\<close>, \<open>QuizAttempts\<close>, \<open>QuizRoutes\<close>, \<open>QuizEvents\<close>: \<open>routes/student_quiz.py\<close>,
    \<open>services/quiz_grants.py\<close>, \<open>quiz_open.py\<close>, \<open>quiz_events.py\<close>. Drawing and shuffling questions, the clocks of a timed,
    stepped or paused attempt, grading an answer, finishing an attempt, anti-cheat rules, reports of questions.
  \<^item> \<open>AttemptLifecycle\<close>, \<open>QuizSteps\<close>, \<open>QuizInvariants\<close>: the specification of an attempt's life as a step relation, the
    invariant of the quiz tables, and the theorem that every sequence of requests refines the one and keeps the other.
  \<^item> \<open>QuizRegrade\<close>: \<open>services/quiz_regrade.py\<close>, \<open>routes/teacher_disputes.py\<close>. A ruling on a reported question and the new
    scores of everybody who drew it.
  \<^item> \<open>SafeZip\<close>, \<open>CheckCore\<close>, \<open>AiReview\<close>, \<open>CheckTasks\<close>: \<open>utils/safe_zip.py\<close>, \<open>services/check_core.py\<close>, \<open>ai_verdict.py\<close>,
    \<open>workers/tasks/review_tasks.py\<close>, \<open>check_tasks.py\<close>. Unpacking, the plan of a check and its limits, running it,
    and where its outcome leads.
  \<^item> \<open>ReviewQueue\<close>, \<open>Mail\<close>, \<open>Outbox\<close>, \<open>Jobs\<close>: \<open>workers/tasks/notification_tasks.py\<close>, \<open>send_credentials_tasks.py\<close>,
    \<open>workers/scheduled/outbox_processor.py\<close>, \<open>deadline_reminders.py\<close>, \<open>teacher_digest_processor.py\<close>. Who is told what,
    retries of messages, secrets that leave the database once delivered.
  \<^item> \<open>TeacherReview\<close>, \<open>StatusFlow\<close>: \<open>routes/teacher_portal.py\<close>. Decisions, points, bulk actions, and the locale
    \<open>status_service\<close>, by which every request moves submissions along the table only.
  \<^item> \<open>Upload\<close>, \<open>Similarity\<close>, \<open>Gradebook\<close>: \<open>routes/student_portal.py\<close>, \<open>services/submission_files.py\<close>, \<open>similarity.py\<close>,
    \<open>gradebook.py\<close>, \<open>workers/scheduled/subject_stats_refresh.py\<close>.
  \<^item> \<open>ConfigCheck\<close>, \<open>ConfigApply\<close>: \<open>services/config_apply.py\<close>. What an accepted configuration guarantees, and that applying
    it makes the tables mirror it.
  \<^item> \<open>LlmBoard\<close>, \<open>Matching\<close>, \<open>Runner\<close>, \<open>Ingest\<close>, \<open>SyncRuns\<close>, \<open>ClassroomRoutes\<close>: \<open>services/llm_grading/\<close>,
    \<open>services/google/\<close>, \<open>workers/scheduled/classroom_nightly.py\<close>, \<open>routes/teacher_classroom.py\<close>. Classroom accounts and
    works, versions, draft grades, the nightly budget, and the teacher's side of it.
  \<^item> \<open>Geo\<close>: \<open>services/air_raid/geo.py\<close>. The region around a point, for pauses during air raids.

  \<^bold>\<open>Interfaces.\<close> \<open>row_store\<close> is what every component assumes of reading and writing rows, \<open>invariant_service\<close> what a
  component promises whose operations keep an invariant (instantiated by squads, the quiz, Classroom links and, through
  \<open>status_service\<close>, the teacher's routes), \<open>status_mover\<close> what may change a status, \<open>task_frame\<close> what a check task
  leaves alone.

  \<^bold>\<open>Bounds.\<close> Loops of the source over rows or lists are structural recursion or folds; the others have a termination proof
  (\<open>QuizClock\<close> by the questions left, \<open>Similarity\<close> by the text left). No definition takes fuel. Retries are bounded by
  the program: a message by \<open>outbox_max_retries\<close>, a grading by \<open>MAX_ATTEMPTS\<close>, a night by its cap.

  \<^bold>\<open>Outside the program,\<close> and arguments of the definitions: the sandbox, object storage, \<open>zipfile\<close>, \<open>yaml\<close>, \<open>json.loads\<close>,
  \<open>hashlib\<close>, the mail providers, the language models, the Classroom client, \<open>SequenceMatcher\<close>, random numbers and the
  clock. The properties hold for whatever they answer, unless a hypothesis says otherwise.

  \<^bold>\<open>Not modelled.\<close> A request is one step: two requests of different sessions interleave only where an argument stands for
  the other session (\<open>Runner\<close>). Templates and the read-only pages, logs, metrics and telemetry carry no state. The HTTP
  clients, the sandbox driver, the plugin cache, migrations, the command line and the dashboards of \<open>src/observability\<close>
  are input and output; the manifest lists them.
\<close>

end
